(* ===== verification/Prelude.thy ===== *)
theory Prelude
  imports Main "HOL-Library.Multiset" "HOL-Library.AList"
begin

text \<open>
  Shared material of the development: the outcome of a Go call (a value, a returned error, a
  panic, or a loop that never ends), programs over an explicit state together with the
  rules that show what they keep, Go's map iteration order as an interface, and the generic facts on
  lists and association lists that the component theories use.
\<close>

named_theorems go_simps \<open>rewriting rules that run a program of the model\<close>
named_theorems eval_simps \<open>definitions that evaluate the model on a concrete input\<close>
named_theorems triple_rules \<open>rules that show what a program keeps\<close>

section \<open>Outcomes of Go calls\<close>

text \<open>
  A Go call returns a value (\<open>Ok\<close>), returns a non-nil \<^verbatim>\<open>error\<close> (\<open>Err\<close>), panics
  at run time (\<open>Panic\<close>: an index out of range, a nil dereference), or loops for ever
  (\<open>Diverge\<close>).
\<close>

datatype ('e, 'a) outcome = Ok 'a | Err 'e | Panic | Diverge

primrec oc_bind :: "('e, 'a) outcome \<Rightarrow> ('a \<Rightarrow> ('e, 'b) outcome) \<Rightarrow> ('e, 'b) outcome" where
  "oc_bind (Ok x) f = f x"
| "oc_bind (Err e) f = Err e"
| "oc_bind Panic f = Panic"
| "oc_bind Diverge f = Diverge"

primrec oc_map_err :: "('e \<Rightarrow> 'f) \<Rightarrow> ('e, 'a) outcome \<Rightarrow> ('f, 'a) outcome" where
  "oc_map_err g (Ok x) = Ok x"
| "oc_map_err g (Err e) = Err (g e)"
| "oc_map_err g Panic = Panic"
| "oc_map_err g Diverge = Diverge"

lemma oc_bind_eq_Ok [simp]: "oc_bind m f = Ok y \<longleftrightarrow> (\<exists>x. m = Ok x \<and> f x = Ok y)"
  by (cases m) auto

lemma oc_map_err_eq_Ok [simp]: "oc_map_err g m = Ok y \<longleftrightarrow> m = Ok y"
  by (cases m) auto

lemma oc_bind_assoc: "oc_bind (oc_bind m f) g = oc_bind m (\<lambda>x. oc_bind (f x) g)"
  by (cases m) auto

lemma oc_bind_Ok_right [simp]: "oc_bind m Ok = m"
  by (cases m) auto

text \<open>A loop of the model returns \<open>None\<close> when it never ends.\<close>

definition of_loop :: "'a option \<Rightarrow> ('e, 'a) outcome" where
  "of_loop r = (case r of None \<Rightarrow> Diverge | Some x \<Rightarrow> Ok x)"

lemma of_loop_simps [simp]: "of_loop None = Diverge" "of_loop (Some x) = Ok x"
  by (simp_all add: of_loop_def)

lemma of_loop_eq_Ok [simp]: "of_loop r = Ok x \<longleftrightarrow> r = Some x"
  by (cases r) auto

text \<open>A loop over a slice that stops at the first error.\<close>

primrec oc_mapM :: "('a \<Rightarrow> ('e, 'b) outcome) \<Rightarrow> 'a list \<Rightarrow> ('e, 'b list) outcome" where
  "oc_mapM f [] = Ok []"
| "oc_mapM f (x # xs) = oc_bind (f x) (\<lambda>y. oc_bind (oc_mapM f xs) (\<lambda>ys. Ok (y # ys)))"

lemma oc_mapM_eq_Ok: "oc_mapM f xs = Ok ys \<longleftrightarrow> list_all2 (\<lambda>x y. f x = Ok y) xs ys"
  by (induction xs arbitrary: ys) (auto simp: list_all2_Cons1)

lemma oc_mapM_all_Ok: "(\<And>x. x \<in> set xs \<Longrightarrow> f x = Ok (g x)) \<Longrightarrow> oc_mapM f xs = Ok (map g xs)"
  by (induction xs) auto

lemma oc_mapM_member: "oc_mapM f xs = Ok ys \<Longrightarrow> x \<in> set xs \<Longrightarrow> \<exists>y. f x = Ok y"
  by (induction xs arbitrary: ys) auto

section \<open>Lists\<close>

lemma replicate_numeral_Cons [eval_simps]: "replicate (numeral k) x = x # replicate (pred_numeral k) x"
  by (simp add: numeral_eq_Suc)

section \<open>Go's map iteration order\<close>

text \<open>
  The Go specification leaves the order in which \<^verbatim>\<open>for k := range m\<close> visits the keys of a map
  open. The order is a parameter of every definition with such a loop: a function from the keys,
  in insertion order, to the keys in the order the loop visits them. All the loop relies on is
  that every key is visited exactly once.
\<close>

type_synonym 'k iter_order = "'k list \<Rightarrow> 'k list"

locale map_iteration =
  fixes ord :: "'k iter_order"
  assumes visits_each_once: "mset (ord ks) = mset ks"
begin

lemma set_visits: "set (ord ks) = set ks"
  using visits_each_once [of ks] by (metis set_mset_mset)

lemma length_visits: "length (ord ks) = length ks"
  using visits_each_once [of ks] by (metis size_mset)

lemma distinct_visits: "distinct (ord ks) = distinct ks"
  using visits_each_once [of ks] by (metis mset_eq_imp_distinct_iff)

end

text \<open>Insertion order and its reverse are two orders a run can see.\<close>

interpretation insertion_order: map_iteration "\<lambda>ks. ks"
  by unfold_locales simp

interpretation reverse_order: map_iteration rev
  by unfold_locales simp

text \<open>
  The keys of a Go map after storing the given keys one by one, in the order of their first
  insertion.
\<close>

definition add_key :: "'k \<Rightarrow> 'k list \<Rightarrow> 'k list" where
  "add_key k ks = (if k \<in> set ks then ks else ks @ [k])"

definition map_keys :: "'k list \<Rightarrow> 'k list" where
  "map_keys xs = fold add_key xs []"

lemma fold_add_key: "distinct ks \<Longrightarrow>
    set (fold add_key xs ks) = set ks \<union> set xs \<and> distinct (fold add_key xs ks)"
  by (induction xs arbitrary: ks) (auto simp: add_key_def)

lemma set_map_keys [simp]: "set (map_keys xs) = set xs"
  and distinct_map_keys [simp]: "distinct (map_keys xs)"
  using fold_add_key [of "[]" xs] by (simp_all add: map_keys_def)

text \<open>The values of an association list (a Go map) in iteration order.\<close>

definition range_values :: "'k iter_order \<Rightarrow> ('k \<times> 'v) list \<Rightarrow> 'v list" where
  "range_values ord m = List.map_filter (map_of m) (ord (map fst m))"

lemma set_map_filter: "set (List.map_filter f ks) = {y. \<exists>k \<in> set ks. f k = Some y}"
  unfolding List.map_filter_def by force

lemma ran_map_of: "ran (map_of m) = {y. \<exists>k \<in> fst ` set m. map_of m k = Some y}"
proof -
  have "k \<in> fst ` set m" if "map_of m k = Some y" for k y
    using map_of_SomeD [OF that] by force
  then show ?thesis by (auto simp: ran_def)
qed

context map_iteration
begin

lemma set_range_values: "set (range_values ord m) = ran (map_of m)"
  by (simp add: range_values_def set_map_filter ran_map_of set_visits)

end

section \<open>Programs over an explicit state\<close>

text \<open>
  A program that calls services runs over a state \<open>'w\<close> (the cluster as the calls see it). It
  yields an outcome and the state it leaves, also when it fails or panics.
\<close>

type_synonym ('w, 'e, 'a) prog = "'w \<Rightarrow> ('e, 'a) outcome \<times> 'w"

definition ret :: "'a \<Rightarrow> ('w, 'e, 'a) prog" where
  "ret x = (\<lambda>w. (Ok x, w))"

definition lift :: "('e, 'a) outcome \<Rightarrow> ('w, 'e, 'a) prog" where
  "lift r = (\<lambda>w. (r, w))"

definition fail :: "'e \<Rightarrow> ('w, 'e, 'a) prog" where
  "fail e = (\<lambda>w. (Err e, w))"

definition bindp :: "('w, 'e, 'a) prog \<Rightarrow> ('a \<Rightarrow> ('w, 'e, 'b) prog) \<Rightarrow> ('w, 'e, 'b) prog" where
  "bindp m f = (\<lambda>w. case m w of (r, w') \<Rightarrow>
     (case r of Ok x \<Rightarrow> f x w' | Err e \<Rightarrow> (Err e, w') | Panic \<Rightarrow> (Panic, w') | Diverge \<Rightarrow> (Diverge, w')))"

text \<open>The call's error as a value, for the code that looks at \<^verbatim>\<open>err\<close> itself.\<close>

definition attempt :: "('w, 'e, 'a) prog \<Rightarrow> ('w, 'f, 'e + 'a) prog" where
  "attempt m = (\<lambda>w. case m w of (r, w') \<Rightarrow>
     ((case r of Ok x \<Rightarrow> Ok (Inr x) | Err e \<Rightarrow> Ok (Inl e) | Panic \<Rightarrow> Panic | Diverge \<Rightarrow> Diverge), w'))"

text \<open>The pattern \<^verbatim>\<open>if err != nil { return ..., g(err) }\<close>.\<close>

definition or_fail :: "('e \<Rightarrow> 'f) \<Rightarrow> ('w, 'e, 'a) prog \<Rightarrow> ('w, 'f, 'a) prog" where
  "or_fail g m = (\<lambda>w. case m w of (r, w') \<Rightarrow> (oc_map_err g r, w'))"

text \<open>A loop over a slice that threads a local state and returns at the first error.\<close>

primrec for_each :: "('a \<Rightarrow> 's \<Rightarrow> ('w, 'e, 's) prog) \<Rightarrow> 'a list \<Rightarrow> 's \<Rightarrow> ('w, 'e, 's) prog" where
  "for_each f [] s = ret s"
| "for_each f (x # xs) s = bindp (f x s) (for_each f xs)"

lemmas prog_defs [go_simps] = ret_def lift_def fail_def bindp_def attempt_def or_fail_def

lemma bindp_Ok: "bindp m f w = (Ok y, w') \<longleftrightarrow> (\<exists>x v. m w = (Ok x, v) \<and> f x v = (Ok y, w'))"
  by (auto simp: bindp_def split: prod.splits outcome.splits)

lemma bindp_lift_Ok [simp]: "bindp (lift (Ok x)) f = f x"
  by (simp add: bindp_def lift_def)

lemma bindp_ret: "bindp (ret x) f = f x"
  by (simp add: bindp_def ret_def)

lemma bindp_assoc: "bindp (bindp m f) g = bindp m (\<lambda>x. bindp (f x) g)"
  by (auto simp: bindp_def fun_eq_iff split: prod.splits outcome.splits)

lemma for_each_append: "for_each f (xs @ ys) s = bindp (for_each f xs s) (for_each f ys)"
proof (induction xs arbitrary: s)
  case (Cons x xs)
  then have "for_each f (xs @ ys) = (\<lambda>s. bindp (for_each f xs s) (for_each f ys))" by blast
  then show ?case by (simp add: bindp_assoc)
qed (simp add: bindp_ret)

lemma bindp_Ok_step: "m w = (Ok x, w') \<Longrightarrow> bindp m f w = f x w'"
  by (simp add: bindp_def)

text \<open>
  \<open>keeps I m Q\<close>: started in a state with \<open>I\<close>, the program leaves a state with
  \<open>I\<close>, whatever its outcome, and a value it returns satisfies \<open>Q\<close>.
\<close>

definition keeps :: "('w \<Rightarrow> bool) \<Rightarrow> ('w, 'e, 'a) prog \<Rightarrow> ('a \<Rightarrow> bool) \<Rightarrow> bool" where
  "keeps I m Q \<longleftrightarrow> (\<forall>w. I w \<longrightarrow> I (snd (m w)) \<and> (\<forall>x. fst (m w) = Ok x \<longrightarrow> Q x))"

lemma keeps_ret [triple_rules]: "Q x \<Longrightarrow> keeps I (ret x) Q"
  by (simp add: keeps_def ret_def)

lemma keeps_fail [triple_rules]: "keeps I (fail e) Q"
  by (simp add: keeps_def fail_def)

lemma keeps_lift [triple_rules]: "(\<And>x. r = Ok x \<Longrightarrow> Q x) \<Longrightarrow> keeps I (lift r) Q"
  by (simp add: keeps_def lift_def)

lemma keeps_bindp:
  assumes "keeps I m R" "\<And>x. R x \<Longrightarrow> keeps I (f x) Q"
  shows "keeps I (bindp m f) Q"
  unfolding keeps_def
proof (intro allI impI)
  fix w assume "I w"
  obtain r w' where m: "m w = (r, w')" by (cases "m w")
  with assms(1) \<open>I w\<close> have w': "I w'" "\<And>x. r = Ok x \<Longrightarrow> R x" by (auto simp: keeps_def)
  show "I (snd (bindp m f w)) \<and> (\<forall>x. fst (bindp m f w) = Ok x \<longrightarrow> Q x)"
    using w' assms(2) by (cases r) (auto simp: bindp_def m keeps_def)
qed

lemma keeps_attempt:
  "keeps I m Q \<Longrightarrow> keeps I (attempt m) (\<lambda>r. case r of Inl _ \<Rightarrow> True | Inr x \<Rightarrow> Q x)"
  unfolding keeps_def attempt_def by (auto split: prod.splits outcome.splits)

lemma keeps_or_fail [triple_rules]: "keeps I m Q \<Longrightarrow> keeps I (or_fail g m) Q"
  unfolding keeps_def or_fail_def by (auto split: prod.splits)

lemma keeps_conseq: "keeps I m R \<Longrightarrow> (\<And>x. R x \<Longrightarrow> Q x) \<Longrightarrow> keeps I m Q"
  by (auto simp: keeps_def)

lemma keeps_for_each:
  assumes "\<And>x s. x \<in> set xs \<Longrightarrow> J s \<Longrightarrow> keeps I (f x s) J" "J s"
  shows "keeps I (for_each f xs s) J"
  using assms
proof (induction xs arbitrary: s)
  case (Cons x xs)
  then show ?case by (auto intro!: keeps_bindp [where R = J])
qed (auto intro: keeps_ret)

lemma keeps_if [triple_rules]:
  "(b \<Longrightarrow> keeps I m Q) \<Longrightarrow> (\<not> b \<Longrightarrow> keeps I n Q) \<Longrightarrow> keeps I (if b then m else n) Q"
  by simp

lemma keeps_case_sum [triple_rules]:
  "(\<And>a. x = Inl a \<Longrightarrow> keeps I (f a) Q) \<Longrightarrow> (\<And>b. x = Inr b \<Longrightarrow> keeps I (g b) Q) \<Longrightarrow> keeps I (case_sum f g x) Q"
  by (cases x) auto

lemma keeps_case_option [triple_rules]:
  "(x = None \<Longrightarrow> keeps I m Q) \<Longrightarrow> (\<And>y. x = Some y \<Longrightarrow> keeps I (f y) Q) \<Longrightarrow> keeps I (case_option m f x) Q"
  by (cases x) auto

lemma keeps_case_prod [triple_rules]: "(\<And>a b. x = (a, b) \<Longrightarrow> keeps I (f a b) Q) \<Longrightarrow> keeps I (case_prod f x) Q"
  by (cases x) auto

text \<open>The rules for a call whose value does not matter.\<close>

abbreviation runs :: "('w \<Rightarrow> bool) \<Rightarrow> ('w, 'e, 'a) prog \<Rightarrow> bool" where
  "runs I m \<equiv> keeps I m (\<lambda>_. True)"

lemma runs_bindp: "runs I m \<Longrightarrow> (\<And>x. keeps I (f x) Q) \<Longrightarrow> keeps I (bindp m f) Q"
  by (rule keeps_bindp)

lemma runs_attempt: "runs I m \<Longrightarrow> runs I (attempt m)"
  by (rule keeps_conseq [OF keeps_attempt]) auto

lemma runs_for_each: "(\<And>x s. x \<in> set xs \<Longrightarrow> runs I (f x s)) \<Longrightarrow> runs I (for_each f xs s)"
  by (rule keeps_for_each) auto

text \<open>
  A program that comes to an end, with a value or an error, and what holds then; \<open>returns\<close> excludes the error.
\<close>

definition ends :: "('w, 'e, 'a) prog \<Rightarrow> 'w \<Rightarrow> ('a \<Rightarrow> 'w \<Rightarrow> bool) \<Rightarrow> ('e \<Rightarrow> 'w \<Rightarrow> bool) \<Rightarrow> bool" where
  "ends m w Q E \<longleftrightarrow> (\<exists>x w'. m w = (Ok x, w') \<and> Q x w') \<or> (\<exists>e w'. m w = (Err e, w') \<and> E e w')"

abbreviation returns :: "('w, 'e, 'a) prog \<Rightarrow> 'w \<Rightarrow> ('a \<Rightarrow> 'w \<Rightarrow> bool) \<Rightarrow> bool" where
  "returns m w Q \<equiv> ends m w Q (\<lambda>_ _. False)"

lemma returns_def: "returns m w Q \<longleftrightarrow> (\<exists>x w'. m w = (Ok x, w') \<and> Q x w')"
  by (simp add: ends_def)

lemma ends_ret: "Q x w \<Longrightarrow> ends (ret x) w Q E"
  by (simp add: ends_def ret_def)

lemma ends_fail: "E e w \<Longrightarrow> ends (fail e) w Q E"
  by (simp add: ends_def fail_def)

lemma ends_lift: "(\<exists>x. r = Ok x \<and> Q x w) \<Longrightarrow> ends (lift r) w Q E"
  by (auto simp: ends_def lift_def)

lemma ends_bindp: "ends m w R E \<Longrightarrow> (\<And>x w'. R x w' \<Longrightarrow> ends (f x) w' Q E) \<Longrightarrow> ends (bindp m f) w Q E"
  unfolding ends_def bindp_def by fastforce

lemma ends_Ok_step: "m w = (Ok x, w') \<Longrightarrow> ends (f x) w' Q E \<Longrightarrow> ends (bindp m f) w Q E"
  by (simp add: ends_def bindp_def)

lemma ends_conseq: "ends m w R F \<Longrightarrow> (\<And>x w'. R x w' \<Longrightarrow> Q x w') \<Longrightarrow> (\<And>e w'. F e w' \<Longrightarrow> E e w') \<Longrightarrow> ends m w Q E"
  by (auto simp: ends_def)

lemma ends_attempt: "ends m w (\<lambda>x. Q (Inr x)) (\<lambda>e. Q (Inl e)) \<Longrightarrow> ends (attempt m) w Q E"
  by (auto simp: ends_def attempt_def)

lemma ends_or_fail: "ends m w Q (\<lambda>e. E (g e)) \<Longrightarrow> ends (or_fail g m) w Q E"
  by (auto simp: ends_def or_fail_def)

lemma ends_for_each:
  assumes "\<And>x s w. x \<in> set xs \<Longrightarrow> P s w \<Longrightarrow> ends (f x s) w P E" "P s w"
  shows "ends (for_each f xs s) w P E"
  using assms
proof (induction xs arbitrary: s w)
  case (Cons x xs)
  then show ?case by (auto intro!: ends_bindp [where R = P])
qed (simp add: ends_ret)

end
