(* ===== verification/ApiTypes.thy ===== *)
theory ApiTypes
  imports Prelude "HOL-Library.Word"
begin

text \<open>
  The custom resources of \<^verbatim>\<open>pkg/k8s/apis/v1beta1\<close> and the Kubernetes objects the controllers
  read. Of \<^verbatim>\<open>ObjectMeta\<close> the fields the code reads or writes are kept; a deletion timestamp is
  present or absent. A label selector is Kubernetes data: its conversion into a predicate on labels
  is a parameter of the definitions that use it.
\<close>

section \<open>Kubernetes data\<close>

type_synonym labels = "(string \<times> string) list"

record object_meta =
  om_name :: string
  om_namespace :: string
  om_deleting :: bool
  om_finalizers :: "string list"
  om_labels :: labels

record label_selector =
  match_labels :: labels
  match_expressions :: "(string \<times> string \<times> string list) list"

record k8s_node =
  node_meta :: object_meta
  node_addresses :: "(string \<times> string) list"

section \<open>EgressGateway\<close>

record policy =
  policy_name :: string
  policy_namespace :: string

record eips =
  eip_ipv4 :: string
  eip_ipv6 :: string
  eip_policies :: "policy list"

record egress_ip_status =
  en_name :: string
  en_eips :: "eips list"
  en_status :: string

record ip_usage =
  ipv4_total :: int
  ipv4_free :: int
  ipv6_total :: int
  ipv6_free :: int

record egress_gateway_status =
  node_list :: "egress_ip_status list"
  usage :: ip_usage

record ippools =
  pool_ipv4 :: "string list"
  pool_ipv6 :: "string list"
  ipv4_default_eip :: string
  ipv6_default_eip :: string

record node_selector =
  sel_policy :: string
  sel_selector :: "label_selector option"

record egress_gateway_spec =
  cluster_default :: bool
  gw_ippools :: ippools
  gw_node_selector :: node_selector

record egress_gateway =
  gw_meta :: object_meta
  gw_spec :: egress_gateway_spec
  gw_status :: egress_gateway_status

abbreviation gw_name :: "egress_gateway \<Rightarrow> string" where
  "gw_name g \<equiv> om_name (gw_meta g)"

abbreviation gw_nodes :: "egress_gateway \<Rightarrow> egress_ip_status list" where
  "gw_nodes g \<equiv> node_list (gw_status g)"

abbreviation gw_pools :: "egress_gateway \<Rightarrow> ippools" where
  "gw_pools g \<equiv> gw_ippools (gw_spec g)"

definition set_nodes :: "egress_ip_status list \<Rightarrow> egress_gateway \<Rightarrow> egress_gateway" where
  "set_nodes ns g = g\<lparr>gw_status := (gw_status g)\<lparr>node_list := ns\<rparr>\<rparr>"

lemma set_nodes_simps [simp]:
  "gw_nodes (set_nodes ns g) = ns" "gw_meta (set_nodes ns g) = gw_meta g"
  "gw_spec (set_nodes ns g) = gw_spec g" "usage (gw_status (set_nodes ns g)) = usage (gw_status g)"
  "set_nodes ns (set_nodes ms g) = set_nodes ns g"
  by (simp_all add: set_nodes_def)

definition EgressTunnelPending :: string where "EgressTunnelPending = ''Pending''"
definition EgressTunnelInit :: string where "EgressTunnelInit = ''Init''"
definition EgressTunnelFailed :: string where "EgressTunnelFailed = ''Failed''"
definition EgressTunnelHeartbeatTimeout :: string where "EgressTunnelHeartbeatTimeout = ''HeartbeatTimeout''"
definition EgressTunnelNodeNotReady :: string where "EgressTunnelNodeNotReady = ''NodeNotReady''"
definition EgressTunnelReady :: string where "EgressTunnelReady = ''Ready''"

fun GetNodeIPs :: "egress_ip_status list \<Rightarrow> string \<Rightarrow> eips list" where
  "GetNodeIPs [] nodeName = []"
| "GetNodeIPs (items # rest) nodeName =
     (if en_name items = nodeName then en_eips items else GetNodeIPs rest nodeName)"

definition ReadyCount :: "egress_gateway_status \<Rightarrow> nat" where
  "ReadyCount st = fold (\<lambda>node res. if en_status node = EgressTunnelReady then res + 1 else res) (node_list st) 0"

section \<open>EgressPolicy and EgressClusterPolicy\<close>

record egress_ip =
  ei_ipv4 :: string
  ei_ipv6 :: string
  use_node_ip :: bool
  allocator_policy :: string

definition EipAllocatorDefault :: string where "EipAllocatorDefault = ''default''"
definition EipAllocatorRR :: string where "EipAllocatorRR = ''rr''"

definition IsEmpty :: "egress_ip \<Rightarrow> bool" where
  "IsEmpty eip = (ei_ipv4 eip = [] \<and> ei_ipv6 eip = [] \<and> \<not> use_node_ip eip \<and> allocator_policy eip = [])"

record applied_to =
  pod_selector :: "label_selector option"
  pod_subnet :: "string list"

record egress_policy_spec =
  ep_gateway_name :: string
  ep_egress_ip :: egress_ip
  ep_applied_to :: applied_to
  ep_dest_subnet :: "string list"
  ep_priority :: "64 word"

record egress_policy_status =
  st_ipv4 :: string
  st_ipv6 :: string
  st_node :: string

record egress_policy =
  ep_meta :: object_meta
  ep_spec :: egress_policy_spec
  ep_status :: egress_policy_status

record cluster_applied_to =
  cpod_selector :: "label_selector option"
  cpod_subnet :: "string list option"
  namespace_selector :: "label_selector option"

record egress_cluster_policy_spec =
  ecp_gateway_name :: string
  ecp_egress_ip :: egress_ip
  ecp_applied_to :: cluster_applied_to
  ecp_dest_subnet :: "string list"
  ecp_priority :: "64 word"

record egress_cluster_policy =
  ecp_meta :: object_meta
  ecp_spec :: egress_cluster_policy_spec
  ecp_status :: egress_policy_status

section \<open>EgressTunnel\<close>

record parent =
  parent_name :: string
  parent_ipv4 :: string
  parent_ipv6 :: string

record tunnel =
  tunnel_ipv4 :: string
  tunnel_ipv6 :: string
  tunnel_mac :: string
  tunnel_parent :: parent

record egress_tunnel_status =
  et_tunnel :: tunnel
  et_phase :: string
  et_mark :: string
  et_last_heartbeat :: int

record egress_tunnel =
  et_meta :: object_meta
  et_status :: egress_tunnel_status

section \<open>EgressClusterInfo\<close>

record ip_list_pair =
  lp_ipv4 :: "string list"
  lp_ipv6 :: "string list"

record auto_detect =
  ad_pod_cidr_mode :: string
  ad_cluster_ip :: bool
  ad_node_ip :: bool

record cluster_info_spec =
  ci_auto_detect :: auto_detect
  ci_extra_cidr :: "string list"

record cluster_info_status =
  cs_pod_cidr_mode :: string
  cs_node_ip :: "(string \<times> ip_list_pair) list"
  cs_cluster_ip :: "ip_list_pair option"
  cs_pod_cidr :: "(string \<times> ip_list_pair) list"
  cs_extra_cidr :: "string list"

record cluster_info =
  ci_meta :: object_meta
  ci_spec :: cluster_info_spec
  ci_status :: cluster_info_status

section \<open>Facts\<close>

definition is_ready :: "egress_ip_status \<Rightarrow> bool" where
  "is_ready n = (en_status n = EgressTunnelReady)"

lemma ReadyCount_fold:
  "fold (\<lambda>node res. if en_status node = EgressTunnelReady then res + 1 else res) ns k = k + length (filter is_ready ns)"
  by (induction ns arbitrary: k) (auto simp: is_ready_def)

lemma ReadyCount_eq: "ReadyCount st = length (filter is_ready (node_list st))"
  by (simp add: ReadyCount_def ReadyCount_fold)

lemma ReadyCount_pos: "0 < ReadyCount st \<longleftrightarrow> (\<exists>n \<in> set (node_list st). is_ready n)"
  by (auto simp: ReadyCount_eq filter_empty_conv)

lemma GetNodeIPs_found:
  "distinct (map en_name ns) \<Longrightarrow> n \<in> set ns \<Longrightarrow> GetNodeIPs ns (en_name n) = en_eips n"
  by (induction ns) (auto simp: image_iff)

lemma GetNodeIPs_missing: "nm \<notin> en_name ` set ns \<Longrightarrow> GetNodeIPs ns nm = []"
  by (induction ns) auto

end
