(* ===== verification/NetIP.thy ===== *)
theory NetIP
  imports Prelude
begin

text \<open>
  The part of Go's standard library that the IP code of the repository calls: splitting strings,
  reading and printing numbers, and the \<^verbatim>\<open>net\<close> package's \<^verbatim>\<open>IP\<close>,
  \<^verbatim>\<open>ParseIP\<close>, \<^verbatim>\<open>IP.String\<close>, \<^verbatim>\<open>ParseCIDR\<close>, \<^verbatim>\<open>IP.Mask\<close>
  and \<^verbatim>\<open>IPNet.Contains\<close>. An address is the byte slice Go uses: 4 or 16 bytes, and
  the empty list for nil.
\<close>

section \<open>Strings and numbers\<close>

text \<open>\<^verbatim>\<open>strings.Split\<close> with a one-character separator.\<close>

fun split_on :: "char \<Rightarrow> string \<Rightarrow> string list" where
  "split_on c [] = [[]]"
| "split_on c (x # xs) =
     (if x = c then [] # split_on c xs
      else (case split_on c xs of [] \<Rightarrow> [[x]] | y # ys \<Rightarrow> (x # y) # ys))"

fun join_with :: "string \<Rightarrow> string list \<Rightarrow> string" where
  "join_with sep [] = []"
| "join_with sep [x] = x"
| "join_with sep (x # y # ys) = x @ sep @ join_with sep (y # ys)"

definition digit_char :: "nat \<Rightarrow> char" where
  "digit_char n = ''0123456789abcdef'' ! n"

definition dec_digit :: "char \<Rightarrow> nat option" where
  "dec_digit c = (let n = of_char c in if 48 \<le> n \<and> n \<le> 57 then Some (n - 48) else None)"

definition hex_digit :: "char \<Rightarrow> nat option" where
  "hex_digit c = (let n = of_char c in
     if 48 \<le> n \<and> n \<le> 57 then Some (n - 48)
     else if 97 \<le> n \<and> n \<le> 102 then Some (n - 87)
     else if 65 \<le> n \<and> n \<le> 70 then Some (n - 55)
     else None)"

text \<open>Printing in base 10 and base 16, without leading zeros.\<close>

fun dec_string :: "nat \<Rightarrow> string" where
  "dec_string n = (if n < 10 then [digit_char n] else dec_string (n div 10) @ [digit_char (n mod 10)])"

fun hex_string :: "nat \<Rightarrow> string" where
  "hex_string n = (if n < 16 then [digit_char n] else hex_string (n div 16) @ [digit_char (n mod 16)])"

declare dec_string.simps [simp del] hex_string.simps [simp del]

text \<open>The value of a string of hex digits.\<close>

fun hex_value :: "nat \<Rightarrow> string \<Rightarrow> nat option" where
  "hex_value v [] = Some v"
| "hex_value v (c # cs) = (case hex_digit c of None \<Rightarrow> None | Some k \<Rightarrow> hex_value (v * 16 + k) cs)"

section \<open>Addresses\<close>

type_synonym netip = "nat list"

abbreviation (input) nil_ip :: netip where
  "nil_ip \<equiv> []"

definition v4InV6Prefix :: netip where
  "v4InV6Prefix = [0, 0, 0, 0, 0, 0, 0, 0, 0, 0, 255, 255]"

definition to4 :: "netip \<Rightarrow> netip" where
  "to4 ip = (if length ip = 4 then ip
             else if length ip = 16 \<and> take 12 ip = v4InV6Prefix then drop 12 ip
             else nil_ip)"

definition to16 :: "netip \<Rightarrow> netip" where
  "to16 ip = (if length ip = 4 then v4InV6Prefix @ ip
              else if length ip = 16 then ip
              else nil_ip)"

text \<open>\<^verbatim>\<open>IP.Equal\<close>: a 4-byte address equals its 16-byte form.\<close>

definition ip_equal :: "netip \<Rightarrow> netip \<Rightarrow> bool" where
  "ip_equal a b =
     (if length a = length b then a = b
      else if length a = 4 \<and> length b = 16 then take 12 b = v4InV6Prefix \<and> a = drop 12 b
      else if length a = 16 \<and> length b = 4 then take 12 a = v4InV6Prefix \<and> drop 12 a = b
      else False)"

section \<open>Parsing\<close>

text \<open>One octet of a dotted IPv4 address: the value and the number of digits read so far.\<close>

fun octet_loop :: "nat \<Rightarrow> nat \<Rightarrow> string \<Rightarrow> nat option" where
  "octet_loop v d [] = (if d = 0 then None else Some v)"
| "octet_loop v d (c # cs) =
     (case dec_digit c of
        None \<Rightarrow> None
      | Some k \<Rightarrow>
          if d = 1 \<and> v = 0 then None
          else if v * 10 + k > 255 then None
          else octet_loop (v * 10 + k) (Suc d) cs)"

definition parse_octet :: "string \<Rightarrow> nat option" where
  "parse_octet s = octet_loop 0 0 s"

definition parse_ipv4_fields :: "string \<Rightarrow> netip option" where
  "parse_ipv4_fields s =
     (case map parse_octet (split_on (CHR ''.'') s) of
        [Some a, Some b, Some c, Some d] \<Rightarrow> Some [a, b, c, d]
      | _ \<Rightarrow> None)"

text \<open>
  The loop of \<^verbatim>\<open>netip.parseIPv6\<close>: the bytes read so far, the position of the ellipsis if one
  was seen, and the rest of the text. The result is what is left when the loop ends.
\<close>

definition is_hex :: "char \<Rightarrow> bool" where
  "is_hex c = (hex_digit c \<noteq> None)"

function v6_loop :: "netip \<Rightarrow> nat option \<Rightarrow> string \<Rightarrow> (netip \<times> nat option \<times> string) option" where
  "v6_loop acc ell s =
     (if 16 \<le> length acc then Some (acc, ell, s)
      else
        let ds = takeWhile is_hex s; rest = dropWhile is_hex s in
        if ds = [] \<or> 4 < length ds then None
        else case rest of
          [] \<Rightarrow> (case hex_value 0 ds of None \<Rightarrow> None
                 | Some v \<Rightarrow> Some (acc @ [v div 256, v mod 256], ell, []))
        | c # r \<Rightarrow>
            if c = CHR ''.'' then
              if ell = None \<and> length acc \<noteq> 12 then None
              else if 16 < length acc + 4 then None
              else (case parse_ipv4_fields s of None \<Rightarrow> None | Some f \<Rightarrow> Some (acc @ f, ell, []))
            else if c \<noteq> CHR '':'' then None
            else (case hex_value 0 ds of None \<Rightarrow> None
                  | Some v \<Rightarrow>
                      let acc' = acc @ [v div 256, v mod 256] in
                      (case r of
                         [] \<Rightarrow> None
                       | c2 # r2 \<Rightarrow>
                           if c2 = CHR '':'' then
                             if ell \<noteq> None then None
                             else if r2 = [] then Some (acc', Some (length acc'), [])
                             else v6_loop acc' (Some (length acc')) r2
                           else v6_loop acc' ell r)))"
  by pat_completeness auto
termination
  by (relation "measure (\<lambda>(acc, ell, s). 16 - length acc)") auto

declare v6_loop.simps [simp del]

definition v6_finish :: "netip \<times> nat option \<times> string \<Rightarrow> netip option" where
  "v6_finish r = (case r of (acc, ell, s) \<Rightarrow>
     if s \<noteq> [] then None
     else if length acc < 16 then
       (case ell of None \<Rightarrow> None
        | Some e \<Rightarrow> Some (take e acc @ replicate (16 - length acc) 0 @ drop e acc))
     else if ell \<noteq> None then None
     else Some acc)"

definition parse_ipv6 :: "string \<Rightarrow> netip option" where
  "parse_ipv6 s =
     (case s of
        c1 # c2 # r \<Rightarrow>
          if c1 = CHR '':'' \<and> c2 = CHR '':'' then
            if r = [] then Some (replicate 16 0)
            else Option.bind (v6_loop [] (Some 0) r) v6_finish
          else Option.bind (v6_loop [] None s) v6_finish
      | _ \<Rightarrow> Option.bind (v6_loop [] None s) v6_finish)"

text \<open>
  \<^verbatim>\<open>netip.ParseAddr\<close> decides on the first dot, colon or percent sign. An address with a zone
  is rejected by both callers (\<^verbatim>\<open>net.ParseIP\<close> and \<^verbatim>\<open>net.ParseCIDR\<close>), so it is no
  address here.
\<close>

datatype addr = Addr4 netip | Addr6 netip

definition parse_addr :: "string \<Rightarrow> addr option" where
  "parse_addr s =
     (if CHR ''%'' \<in> set s then None
      else case find (\<lambda>c. c = CHR ''.'' \<or> c = CHR '':'') s of
        None \<Rightarrow> None
      | Some c \<Rightarrow>
          if c = CHR ''.'' then map_option Addr4 (parse_ipv4_fields s)
          else map_option Addr6 (parse_ipv6 s))"

primrec as16 :: "addr \<Rightarrow> netip" where
  "as16 (Addr4 b) = v4InV6Prefix @ b"
| "as16 (Addr6 b) = b"

primrec bit_len :: "addr \<Rightarrow> nat" where
  "bit_len (Addr4 b) = 32"
| "bit_len (Addr6 b) = 128"

text \<open>\<^verbatim>\<open>net.ParseIP\<close>: the 16-byte form, or nil.\<close>

definition ParseIP :: "string \<Rightarrow> netip" where
  "ParseIP s = (case parse_addr s of None \<Rightarrow> nil_ip | Some a \<Rightarrow> as16 a)"

section \<open>Printing\<close>

definition groups_of :: "netip \<Rightarrow> nat list" where
  "groups_of ip = map (\<lambda>i. ip ! (2 * i) * 256 + ip ! (2 * i + 1)) [0..<8]"

text \<open>The longest run of at least two zero groups, the first one on a tie.\<close>

definition zero_run :: "nat list \<Rightarrow> nat \<times> nat" where
  "zero_run gs = fold (\<lambda>i (zs, ze).
     let l = length (takeWhile (\<lambda>g. g = 0) (drop i gs)) in
     if 2 \<le> l \<and> ze - zs < l then (i, i + l) else (zs, ze)) [0..<8] (255, 255)"

definition colon_join :: "nat list \<Rightarrow> string" where
  "colon_join gs = join_with '':'' (map hex_string gs)"

definition string6 :: "netip \<Rightarrow> string" where
  "string6 ip =
     (let gs = groups_of ip; (zs, ze) = zero_run gs in
      if zs = 255 then colon_join gs
      else colon_join (take zs gs) @ ''::'' @ colon_join (drop ze gs))"

definition string4 :: "netip \<Rightarrow> string" where
  "string4 ip = join_with ''.'' (map dec_string ip)"

definition hex_byte :: "nat \<Rightarrow> string" where
  "hex_byte b = [digit_char (b div 16), digit_char (b mod 16)]"

text \<open>\<^verbatim>\<open>IP.String\<close>.\<close>

definition ip_string :: "netip \<Rightarrow> string" where
  "ip_string ip =
     (if ip = [] then ''<nil>''
      else if length ip \<noteq> 4 \<and> length ip \<noteq> 16 then ''?'' @ concat (map hex_byte ip)
      else if to4 ip \<noteq> nil_ip then string4 (to4 ip)
      else string6 ip)"

section \<open>CIDR blocks\<close>

record ipnet =
  net_ip :: netip
  net_mask :: netip

text \<open>\<^verbatim>\<open>net.CIDRMask\<close>: \<open>ones\<close> one bits, then zeros, \<open>bits\<close> in all.\<close>

definition mask_byte :: "nat \<Rightarrow> nat" where
  "mask_byte n = (if 8 \<le> n then 255 else 256 - 2 ^ (8 - n))"

definition CIDRMask :: "nat \<Rightarrow> nat \<Rightarrow> netip" where
  "CIDRMask ones bits = map (\<lambda>i. mask_byte (ones - 8 * i)) [0..<bits div 8]"

definition band :: "nat \<Rightarrow> nat \<Rightarrow> nat" where
  "band a b = and a b"

text \<open>\<^verbatim>\<open>IP.Mask\<close>.\<close>

definition ip_mask :: "netip \<Rightarrow> netip \<Rightarrow> netip" where
  "ip_mask ip msk =
     (let m' = (if length msk = 16 \<and> length ip = 4 \<and> list_all (\<lambda>b. b = 255) (take 12 msk)
                   then drop 12 msk else msk);
          ip' = (if length m' = 4 \<and> length ip = 16 \<and> take 12 ip = v4InV6Prefix
                 then drop 12 ip else ip)
      in if length ip' \<noteq> length m' then nil_ip else map2 band ip' m')"

text \<open>\<^verbatim>\<open>IPNet.Contains\<close>, with \<^verbatim>\<open>networkNumberAndMask\<close>.\<close>

definition network_number_and_mask :: "ipnet \<Rightarrow> netip \<times> netip" where
  "network_number_and_mask n =
     (let ip = (if to4 (net_ip n) \<noteq> nil_ip then to4 (net_ip n) else net_ip n) in
      if length ip \<noteq> 4 \<and> length ip \<noteq> 16 then ([], [])
      else if length (net_mask n) = 4 then (if length ip \<noteq> 4 then ([], []) else (ip, net_mask n))
      else if length (net_mask n) = 16 then (ip, if length ip = 4 then drop 12 (net_mask n) else net_mask n)
      else ([], []))"

definition ipnet_contains :: "ipnet \<Rightarrow> netip \<Rightarrow> bool" where
  "ipnet_contains n ip =
     (let (nn, m) = network_number_and_mask n;
          x = (if to4 ip \<noteq> nil_ip then to4 ip else ip)
      in length x = length nn \<and> map2 band nn m = map2 band x m)"

text \<open>\<^verbatim>\<open>dtoi\<close>: a decimal number below 16777215 that fills the whole text.\<close>

fun dtoi :: "nat \<Rightarrow> string \<Rightarrow> nat option" where
  "dtoi n [] = Some n"
| "dtoi n (c # cs) =
     (case dec_digit c of
        None \<Rightarrow> None
      | Some k \<Rightarrow> if 16777215 \<le> n * 10 + k then None else dtoi (n * 10 + k) cs)"

definition ParseCIDR :: "string \<Rightarrow> (netip \<times> ipnet) option" where
  "ParseCIDR s =
     (if CHR ''/'' \<notin> set s then None
      else
        let a = takeWhile (\<lambda>c. c \<noteq> CHR ''/'') s; m = tl (dropWhile (\<lambda>c. c \<noteq> CHR ''/'') s) in
        case parse_addr a of
          None \<Rightarrow> None
        | Some ad \<Rightarrow>
            (case (if m = [] then None else dtoi 0 m) of
               None \<Rightarrow> None
             | Some n \<Rightarrow>
                 if bit_len ad < n then None
                 else let msk = CIDRMask n (bit_len ad) in
                   Some (as16 ad, \<lparr>net_ip = ip_mask (as16 ad) msk, net_mask = msk\<rparr>)))"

section \<open>Well-formed addresses\<close>

abbreviation bytes :: "netip \<Rightarrow> bool" where
  "bytes ip \<equiv> \<forall>b \<in> set ip. b < 256"

definition wf_ip :: "netip \<Rightarrow> bool" where
  "wf_ip ip = ((length ip = 4 \<or> length ip = 16) \<and> bytes ip)"

text \<open>The bytes of a list of 16-bit groups.\<close>

definition bytes_of :: "nat list \<Rightarrow> netip" where
  "bytes_of gs = concat (map (\<lambda>g. [g div 256, g mod 256]) gs)"

section \<open>Printing and parsing are inverse\<close>


subsection \<open>Digits\<close>

lemma digit_char_all: "\<forall>n \<in> set [0..<16]. hex_digit (digit_char n) = Some n \<and>
    (n < 10 \<longrightarrow> dec_digit (digit_char n) = Some n) \<and>
    digit_char n \<notin> {CHR ''.'', CHR '':'', CHR ''%'', CHR ''-'', CHR ''/''}"
  by (simp add: upt_rec digit_char_def hex_digit_def dec_digit_def)

lemma hex_digit_char [simp]: "n < 16 \<Longrightarrow> hex_digit (digit_char n) = Some n"
  and dec_digit_char [simp]: "n < 10 \<Longrightarrow> dec_digit (digit_char n) = Some n"
  and digit_char_not_sep: "n < 16 \<Longrightarrow>
     digit_char n \<notin> {CHR ''.'', CHR '':'', CHR ''%'', CHR ''-'', CHR ''/''}"
  using digit_char_all by auto

lemma is_hex_digit_char [simp]: "n < 16 \<Longrightarrow> is_hex (digit_char n)"
  by (simp add: is_hex_def)

lemma sep_not_hex [simp]: "\<not> is_hex (CHR '':'')" "\<not> is_hex (CHR ''.'')"
  by (simp_all add: is_hex_def hex_digit_def)

lemma set_dec_string: "set (dec_string n) \<subseteq> digit_char ` {..<10}"
proof (induction n rule: dec_string.induct)
  case (1 n)
  then show ?case
    by (cases "n < 10") (auto simp: dec_string.simps [of n])
qed

lemma set_hex_string: "set (hex_string n) \<subseteq> digit_char ` {..<16}"
proof (induction n rule: hex_string.induct)
  case (1 n)
  then show ?case
    by (cases "n < 16") (auto simp: hex_string.simps [of n])
qed

lemma dec_string_not_sep:
  "c \<in> {CHR ''.'', CHR '':'', CHR ''%'', CHR ''-'', CHR ''/''} \<Longrightarrow> c \<notin> set (dec_string n)"
proof
  assume c: "c \<in> {CHR ''.'', CHR '':'', CHR ''%'', CHR ''-'', CHR ''/''}" "c \<in> set (dec_string n)"
  then obtain k where "c = digit_char k" "k < 10" using set_dec_string [of n] by blast
  then show False using c(1) digit_char_not_sep [of k] by simp
qed

lemma hex_string_not_sep:
  "c \<in> {CHR ''.'', CHR '':'', CHR ''%'', CHR ''-'', CHR ''/''} \<Longrightarrow> c \<notin> set (hex_string n)"
proof
  assume c: "c \<in> {CHR ''.'', CHR '':'', CHR ''%'', CHR ''-'', CHR ''/''}" "c \<in> set (hex_string n)"
  then obtain k where "c = digit_char k" "k < 16" using set_hex_string [of n] by blast
  then show False using c(1) digit_char_not_sep [of k] by simp
qed

lemma hex_string_hex: "c \<in> set (hex_string n) \<Longrightarrow> is_hex c"
  using set_hex_string [of n] by auto

lemma dec_string_nonempty [simp]: "dec_string n \<noteq> []" and hex_string_nonempty [simp]: "hex_string n \<noteq> []"
  by (subst dec_string.simps, simp) (subst hex_string.simps, simp)

subsection \<open>Reading back what was printed\<close>

lemma parse_octet_dec_string:
  assumes "n < 256"
  shows "parse_octet (dec_string n) = Some n"
proof -
  consider "n < 10" | "10 \<le> n" "n < 100" | "100 \<le> n" by linarith
  then show ?thesis
  proof cases
    case 1
    then show ?thesis by (simp add: parse_octet_def dec_string.simps [of n])
  next
    case 2
    then have "n div 10 < 10" "n div 10 \<noteq> 0" by simp_all
    then show ?thesis using 2 assms
      by (simp add: parse_octet_def dec_string.simps [of n] dec_string.simps [of "n div 10"])
  next
    case 3
    define a b c where "a = n div 100" and "b = n div 10 mod 10" and "c = n mod 10"
    have abc: "b < 10" "c < 10" "0 < a" "a < 3"
      using 3 assms by (auto simp: a_def b_def c_def)
    have n: "n = 100 * a + 10 * b + c"
    proof -
      have "n div 100 = n div 10 div 10" by (simp add: div_mult2_eq [symmetric])
      moreover have "n div 10 = 10 * (n div 10 div 10) + n div 10 mod 10" "n = 10 * (n div 10) + n mod 10"
        by simp_all
      ultimately show ?thesis unfolding a_def b_def c_def by linarith
    qed
    have "n div 10 = 10 * a + b" "(10 * a + b) div 10 = a" "(10 * a + b) mod 10 = b"
      using abc by (auto simp: n)
    moreover have "n mod 10 = c" by (simp add: c_def)
    ultimately have "dec_string n = [digit_char a, digit_char b, digit_char c]"
      using abc 3 by (simp add: dec_string.simps [of n] dec_string.simps [of "10 * a + b"] dec_string.simps [of a])
    then show ?thesis using abc assms by (simp add: parse_octet_def n)
  qed
qed

lemma split_on_nosep: "c \<notin> set xs \<Longrightarrow> split_on c xs = [xs]"
  by (induction xs) auto

lemma split_on_append: "c \<notin> set xs \<Longrightarrow> split_on c (xs @ c # ys) = xs # split_on c ys"
  by (induction xs) auto

lemma split_on_join:
  "xs \<noteq> [] \<Longrightarrow> (\<And>x. x \<in> set xs \<Longrightarrow> c \<notin> set x) \<Longrightarrow> split_on c (join_with [c] xs) = xs"
  by (induction "[c]" xs rule: join_with.induct) (auto simp: split_on_nosep split_on_append)

lemma parse_ipv4_string4:
  assumes "length ip = 4" "\<forall>b \<in> set ip. b < 256"
  shows "parse_ipv4_fields (string4 ip) = Some ip"
proof -
  from assms(1) obtain a b c d where ip: "ip = [a, b, c, d]"
    by (auto simp: numeral_eq_Suc length_Suc_conv)
  have "split_on (CHR ''.'') (string4 ip) = map dec_string ip"
    unfolding string4_def by (rule split_on_join) (auto simp: ip dec_string_not_sep)
  then show ?thesis using assms(2) by (simp add: ip parse_ipv4_fields_def parse_octet_dec_string)
qed

lemma hex_value_append:
  "hex_value v (xs @ ys) = Option.bind (hex_value v xs) (\<lambda>w. hex_value w ys)"
  by (induction xs arbitrary: v) (auto split: option.split)

lemma hex_value_hex_string: "hex_value 0 (hex_string n) = Some n"
proof (induction n rule: hex_string.induct)
  case (1 n)
  then show ?case
    by (cases "n < 16") (auto simp: hex_string.simps [of n] hex_value_append)
qed

lemma length_hex_string: "n < 16 ^ Suc k \<Longrightarrow> length (hex_string n) \<le> Suc k"
proof (induction k arbitrary: n)
  case 0
  then show ?case by (simp add: hex_string.simps [of n])
next
  case (Suc k)
  then have "n div 16 < 16 ^ Suc k" by (simp add: less_mult_imp_div_less mult.commute)
  then show ?case using Suc.IH [of "n div 16"] by (simp add: hex_string.simps [of n])
qed


subsection \<open>IPv6 groups\<close>

lemma bytes_of_simps [simp]: "bytes_of [] = []" "bytes_of (g # gs) = g div 256 # g mod 256 # bytes_of gs"
  "bytes_of (xs @ ys) = bytes_of xs @ bytes_of ys" "length (bytes_of gs) = 2 * length gs"
  "bytes_of (replicate k 0) = replicate (2 * k) 0"
proof -
  show "length (bytes_of gs) = 2 * length gs" by (induction gs) (auto simp: bytes_of_def)
  show "bytes_of (replicate k 0) = replicate (2 * k) 0" by (induction k) (auto simp: bytes_of_def)
qed (auto simp: bytes_of_def)

lemma colon_join_Nil [simp]: "colon_join [] = []"
  by (simp add: colon_join_def)

lemma hex_string_scan:
  assumes "rest = [] \<or> \<not> is_hex (hd rest)"
  shows "takeWhile is_hex (hex_string g @ rest) = hex_string g"
    and "dropWhile is_hex (hex_string g @ rest) = rest"
  using assms by (cases rest; simp add: takeWhile_append dropWhile_append takeWhile_eq_all_conv
      dropWhile_eq_Nil_conv hex_string_hex; fail)+

lemma group_len: "g < 65536 \<Longrightarrow> \<not> 4 < length (hex_string g)"
  using length_hex_string [of g 3] by simp

lemma hex_string_scan_all [simp]:
  "takeWhile is_hex (hex_string g) = hex_string g" "dropWhile is_hex (hex_string g) = []"
  by (simp_all add: takeWhile_eq_all_conv dropWhile_eq_Nil_conv hex_string_hex)

lemma v6_loop_last:
  "length acc < 16 \<Longrightarrow> g < 65536 \<Longrightarrow>
     v6_loop acc ell (hex_string g) = Some (acc @ [g div 256, g mod 256], ell, [])"
  by (subst v6_loop.simps) (simp add: group_len hex_value_hex_string Let_def)

lemma v6_loop_colon:
  "length acc < 16 \<Longrightarrow> g < 65536 \<Longrightarrow> c \<noteq> CHR '':'' \<Longrightarrow>
     v6_loop acc ell (hex_string g @ CHR '':'' # c # r) = v6_loop (acc @ [g div 256, g mod 256]) ell (c # r)"
  using hex_string_scan [of "CHR '':'' # c # r" g]
  by (subst v6_loop.simps) (simp add: group_len hex_value_hex_string Let_def)

lemma v6_loop_ellipsis:
  "length acc < 16 \<Longrightarrow> g < 65536 \<Longrightarrow>
     v6_loop acc None (hex_string g @ CHR '':'' # CHR '':'' # r) =
       (let acc' = acc @ [g div 256, g mod 256] in
        if r = [] then Some (acc', Some (length acc'), []) else v6_loop acc' (Some (length acc')) r)"
  using hex_string_scan [of "CHR '':'' # CHR '':'' # r" g]
  by (subst v6_loop.simps) (simp add: group_len hex_value_hex_string Let_def)

lemma colon_join_Cons:
  "colon_join (g # gs) = hex_string g @ (if gs = [] then [] else CHR '':'' # colon_join gs)"
  by (cases gs) (auto simp: colon_join_def)

lemma colon_join_head: "gs \<noteq> [] \<Longrightarrow> \<exists>c r. colon_join gs = c # r \<and> c \<noteq> CHR '':''"
proof -
  assume "gs \<noteq> []"
  then obtain g gs' where gs: "gs = g # gs'" by (cases gs) auto
  obtain c r where "hex_string g = c # r" by (cases "hex_string g") auto
  moreover from this have "c \<noteq> CHR '':''" using hex_string_not_sep [of "CHR '':''" g] by auto
  ultimately show ?thesis by (auto simp: gs colon_join_Cons)
qed

lemma v6_loop_groups:
  "gs \<noteq> [] \<Longrightarrow> \<forall>g \<in> set gs. g < 65536 \<Longrightarrow> length acc + 2 * length gs \<le> 16 \<Longrightarrow>
     v6_loop acc ell (colon_join gs) = Some (acc @ bytes_of gs, ell, [])"
proof (induction gs arbitrary: acc)
  case (Cons g gs)
  show ?case
  proof (cases "gs = []")
    case True
    with Cons.prems show ?thesis by (simp add: v6_loop_last colon_join_Cons)
  next
    case False
    then obtain c r where cr: "colon_join gs = c # r" "c \<noteq> CHR '':''" using colon_join_head by blast
    with Cons False show ?thesis by (simp add: colon_join_Cons v6_loop_colon)
  qed
qed simp

lemma v6_loop_groups_ellipsis:
  "gs \<noteq> [] \<Longrightarrow> \<forall>g \<in> set gs. g < 65536 \<Longrightarrow> length acc + 2 * length gs < 16 \<Longrightarrow>
     v6_loop acc None (colon_join gs @ CHR '':'' # CHR '':'' # r) =
       (let acc' = acc @ bytes_of gs in
        if r = [] then Some (acc', Some (length acc'), []) else v6_loop acc' (Some (length acc')) r)"
proof (induction gs arbitrary: acc)
  case (Cons g gs)
  show ?case
  proof (cases "gs = []")
    case True
    with Cons.prems show ?thesis by (simp add: v6_loop_ellipsis colon_join_Cons)
  next
    case False
    then obtain c s where cs: "colon_join gs = c # s" "c \<noteq> CHR '':''" using colon_join_head by blast
    then have "v6_loop acc None (colon_join (g # gs) @ CHR '':'' # CHR '':'' # r) =
        v6_loop (acc @ [g div 256, g mod 256]) None (colon_join gs @ CHR '':'' # CHR '':'' # r)"
      using Cons.prems False by (simp add: colon_join_Cons v6_loop_colon)
    with Cons False show ?thesis by simp
  qed
qed simp

lemma zero_run_spec:
  assumes "length gs = 8" and "zero_run gs = (zs, ze)"
  shows "(zs = 255 \<and> ze = 255) \<or>
         (zs + 2 \<le> ze \<and> ze \<le> 8 \<and> gs = take zs gs @ replicate (ze - zs) 0 @ drop ze gs)"
proof -
  let ?P = "\<lambda>p. (fst p = 255 \<and> snd p = 255) \<or> (fst p + 2 \<le> snd p \<and> snd p \<le> 8 \<and>
              gs = take (fst p) gs @ replicate (snd p - fst p) (0::nat) @ drop (snd p) gs)"
  have step: "gs = take i gs @ replicate l 0 @ drop (i + l) gs \<and> i + l \<le> 8"
    if "i < 8" "l = length (takeWhile (\<lambda>g. g = 0) (drop i gs))" for i l
  proof -
    have "takeWhile (\<lambda>g. g = 0) (drop i gs) = replicate l 0"
      unfolding that(2) by (rule replicate_eqI [symmetric, THEN sym]) (auto dest: set_takeWhileD)
    then have "drop i gs = replicate l 0 @ drop l (drop i gs)"
      by (metis append_take_drop_id takeWhile_eq_take that(2))
    moreover have "l \<le> length (drop i gs)" unfolding that(2) by (rule length_takeWhile_le)
    ultimately show ?thesis using that(1) assms(1)
      by (metis add.commute add_le_cancel_left append_take_drop_id diff_add drop_drop le_add_diff_inverse
          length_drop less_imp_le)
  qed
  have "?P (zero_run gs)"
    unfolding zero_run_def
  proof (rule fold_invariant [where Q = "\<lambda>i. i < 8"])
    fix i :: nat and p :: "nat \<times> nat"
    assume "i < 8" "?P p"
    then show "?P ((\<lambda>i (zs, ze). let l = length (takeWhile (\<lambda>g. g = 0) (drop i gs)) in
        if 2 \<le> l \<and> ze - zs < l then (i, i + l) else (zs, ze)) i p)"
      using step [OF \<open>i < 8\<close> refl] by (auto simp: Let_def split: prod.splits)
  qed auto
  then show ?thesis by (simp add: assms(2))
qed


lemma length_groups_of [simp]: "length (groups_of ip) = 8"
  by (simp add: groups_of_def)

lemma sixteen_bytes:
  "length ip = 16 \<Longrightarrow> ip = [ip!0, ip!1, ip!2, ip!3, ip!4, ip!5, ip!6, ip!7,
     ip!8, ip!9, ip!10, ip!11, ip!12, ip!13, ip!14, ip!15]"
  by (auto simp: numeral_eq_Suc length_Suc_conv)

lemma bytes_of_groups_of:
  assumes "length ip = 16" "\<forall>b \<in> set ip. b < 256"
  shows "bytes_of (groups_of ip) = ip"
proof -
  have "\<forall>i < 16. ip ! i < 256" using assms by simp
  then have "bytes_of (groups_of ip) = [ip!0, ip!1, ip!2, ip!3, ip!4, ip!5, ip!6, ip!7,
     ip!8, ip!9, ip!10, ip!11, ip!12, ip!13, ip!14, ip!15]"
    by (simp add: groups_of_def upt_rec)
  with sixteen_bytes [OF assms(1)] show ?thesis by simp
qed

lemma groups_of_bound:
  assumes "length ip = 16" "\<forall>b \<in> set ip. b < 256" "g \<in> set (groups_of ip)"
  shows "g < 65536"
proof -
  from assms(3) obtain i where i: "i < 8" "g = ip ! (2 * i) * 256 + ip ! (2 * i + 1)"
    by (auto simp: groups_of_def)
  have "ip ! (2 * i) < 256" "ip ! (2 * i + 1) < 256" using assms(1,2) i(1) by auto
  then show ?thesis by (simp add: i(2))
qed

lemma parse_ipv6_groups:
  assumes "length gs = 8" "\<forall>g \<in> set gs. g < 65536"
  shows "parse_ipv6 (colon_join gs) = Some (bytes_of gs)"
proof -
  obtain c r where cr: "colon_join gs = c # r" "c \<noteq> CHR '':''"
    using colon_join_head [of gs] assms(1) by fastforce
  have "v6_loop [] None (colon_join gs) = Some (bytes_of gs, None, [])"
    using v6_loop_groups [of gs "[]" None] assms by (cases gs) auto
  then show ?thesis using assms cr by (auto simp: parse_ipv6_def v6_finish_def split: list.split)
qed

lemma parse_ipv6_ellipsis:
  assumes "length xs + k + length ys = 8" "0 < k" "\<forall>g \<in> set xs \<union> set ys. g < 65536"
  shows "parse_ipv6 (colon_join xs @ CHR '':'' # CHR '':'' # colon_join ys) = Some (bytes_of (xs @ replicate k 0 @ ys))"
proof -
  have tail: "v6_loop acc (Some e) (colon_join ys) = Some (acc @ bytes_of ys, Some e, [])"
    if "ys \<noteq> []" "length acc = 2 * length xs" for acc e
    using that assms by (intro v6_loop_groups) auto
  have fin: "v6_finish (bytes_of xs @ bytes_of ys, Some (2 * length xs), []) =
      Some (bytes_of (xs @ replicate k 0 @ ys))"
    using assms by (simp add: v6_finish_def)
  show ?thesis
  proof (cases "xs = []")
    case True
    show ?thesis
    proof (cases "ys = []")
      case True
      with \<open>xs = []\<close> assms(1) show ?thesis by (simp add: parse_ipv6_def)
    next
      case False
      moreover obtain c r where "colon_join ys = c # r" using colon_join_head [OF False] by blast
      ultimately show ?thesis using \<open>xs = []\<close> tail [of "[]" 0] fin by (simp add: parse_ipv6_def)
    qed
  next
    case False
    obtain c r where cr: "colon_join xs = c # r" "c \<noteq> CHR '':''" using colon_join_head [OF False] by blast
    have "v6_loop [] None (colon_join xs @ CHR '':'' # CHR '':'' # colon_join ys) =
       Some (bytes_of xs @ bytes_of ys, Some (2 * length xs), [])"
      using False assms tail [of "bytes_of xs" "2 * length xs"] colon_join_head [of ys]
      by (cases "ys = []") (auto simp: v6_loop_groups_ellipsis Let_def)
    then show ?thesis using cr fin by (auto simp: parse_ipv6_def split: list.split)
  qed
qed

lemma parse_ipv6_string6:
  assumes "length ip = 16" "\<forall>b \<in> set ip. b < 256"
  shows "parse_ipv6 (string6 ip) = Some ip"
proof -
  let ?gs = "groups_of ip"
  obtain zs ze where z: "zero_run ?gs = (zs, ze)" by force
  have b: "\<forall>g \<in> set ?gs. g < 65536" using groups_of_bound assms by blast
  from zero_run_spec [OF length_groups_of z] show ?thesis
  proof (elim disjE conjE)
    assume "zs = 255" "ze = 255"
    then show ?thesis using b assms z by (simp add: string6_def parse_ipv6_groups bytes_of_groups_of)
  next
    assume h: "zs + 2 \<le> ze" "ze \<le> 8" "?gs = take zs ?gs @ replicate (ze - zs) 0 @ drop ze ?gs"
    have "parse_ipv6 (string6 ip) = Some (bytes_of (take zs ?gs @ replicate (ze - zs) 0 @ drop ze ?gs))"
    proof -
      have "parse_ipv6 (colon_join (take zs ?gs) @ CHR '':'' # CHR '':'' # colon_join (drop ze ?gs)) =
          Some (bytes_of (take zs ?gs @ replicate (ze - zs) 0 @ drop ze ?gs))"
        by (rule parse_ipv6_ellipsis) (use h(1,2) b in \<open>auto dest: in_set_takeD in_set_dropD\<close>)
      then show ?thesis using h(1,2) z by (simp add: string6_def Let_def)
    qed
    then show ?thesis using h(3) assms bytes_of_groups_of by simp
  qed
qed

subsection \<open>Round trip of addresses\<close>

lemma set_join_with: "set (join_with sep xs) \<subseteq> set sep \<union> \<Union> (set ` set xs)"
  by (induction sep xs rule: join_with.induct) auto

lemma find_first_sep:
  "c \<in> set s \<Longrightarrow> P c \<Longrightarrow> \<forall>d \<in> set s. P d \<longrightarrow> d = c \<Longrightarrow> find P s = Some c"
  by (induction s) (simp, metis find.simps(2) list.set_intros(1) list.set_intros(2) set_ConsD)


lemma sep_notin_string4: "c \<in> {CHR '':'', CHR ''%'', CHR ''-'', CHR ''/''} \<Longrightarrow> c \<notin> set (string4 ip)"
  using set_join_with [of "''.''" "map dec_string ip"] dec_string_not_sep [of c]
  by (auto simp: string4_def)

lemma sep_notin_colon_join: "c \<in> {CHR ''.'', CHR ''%'', CHR ''-'', CHR ''/''} \<Longrightarrow> c \<notin> set (colon_join gs)"
  using set_join_with [of "'':''" "map hex_string gs"] hex_string_not_sep [of c]
  by (auto simp: colon_join_def)

lemma sep_notin_string6: "c \<in> {CHR ''.'', CHR ''%'', CHR ''-'', CHR ''/''} \<Longrightarrow> c \<notin> set (string6 ip)"
  using sep_notin_colon_join [of c] by (auto simp: string6_def Let_def split: prod.split)

lemma string4_dot: "2 \<le> length ip \<Longrightarrow> CHR ''.'' \<in> set (string4 ip)"
  by (cases ip; cases "tl ip") (auto simp: string4_def)

lemma string6_colon: "CHR '':'' \<in> set (string6 ip)"
proof -
  have "CHR '':'' \<in> set (colon_join gs)" if "2 \<le> length gs" for gs
    using that by (cases gs; cases "tl gs") (auto simp: colon_join_def)
  then show ?thesis by (cases "zero_run (groups_of ip)") (simp add: string6_def Let_def)
qed

lemma parse_addr_string4:
  assumes "length ip = 4" "\<forall>b \<in> set ip. b < 256"
  shows "parse_addr (string4 ip) = Some (Addr4 ip)"
proof -
  have "find (\<lambda>c. c = CHR ''.'' \<or> c = CHR '':'') (string4 ip) = Some (CHR ''.'')"
    using sep_notin_string4 [of "CHR '':''" ip] string4_dot [of ip] assms(1)
    by (intro find_first_sep) auto
  then show ?thesis using assms sep_notin_string4 [of "CHR ''%''" ip]
    by (simp add: parse_addr_def parse_ipv4_string4)
qed

lemma parse_addr_string6:
  assumes "length ip = 16" "\<forall>b \<in> set ip. b < 256"
  shows "parse_addr (string6 ip) = Some (Addr6 ip)"
proof -
  have "find (\<lambda>c. c = CHR ''.'' \<or> c = CHR '':'') (string6 ip) = Some (CHR '':'')"
    using sep_notin_string6 [of "CHR ''.''" ip] string6_colon [of ip]
    by (intro find_first_sep) auto
  then show ?thesis using assms sep_notin_string6 [of "CHR ''%''" ip]
    by (simp add: parse_addr_def parse_ipv6_string6)
qed

lemma to4_cases:
  assumes "length ip = 4 \<or> length ip = 16"
  shows "(to4 ip = [] \<and> length ip = 16 \<and> to16 ip = ip) \<or> (length (to4 ip) = 4 \<and> to16 ip = v4InV6Prefix @ to4 ip \<and> set (to4 ip) \<subseteq> set ip)"
  using assms by (auto simp: to4_def to16_def dest: in_set_dropD) (metis append_take_drop_id)

lemma ParseIP_ip_string: "wf_ip ip \<Longrightarrow> ParseIP (ip_string ip) = to16 ip"
proof -
  assume wf: "wf_ip ip"
  then have "length ip = 4 \<or> length ip = 16" "ip \<noteq> []" by (auto simp: wf_ip_def)
  with to4_cases [of ip] wf show ?thesis
    by (auto simp: ip_string_def ParseIP_def wf_ip_def parse_addr_string4 parse_addr_string6 subset_iff)
qed



subsection \<open>What the parser returns is a 16-byte address\<close>

lemma octet_loop_bound: "octet_loop v d s = Some n \<Longrightarrow> v < 256 \<Longrightarrow> n < 256"
  by (induction v d s rule: octet_loop.induct) (auto split: option.splits if_splits)

lemma parse_ipv4_fields_wf: "parse_ipv4_fields s = Some f \<Longrightarrow> length f = 4 \<and> bytes f"
  using octet_loop_bound [of 0 0]
  by (auto simp: parse_ipv4_fields_def parse_octet_def split: list.splits option.splits)

lemma hex_digit_bound: "hex_digit c = Some k \<Longrightarrow> k < 16"
  by (auto simp: hex_digit_def Let_def split: if_splits)

lemma hex_value_bound: "hex_value v ds = Some n \<Longrightarrow> n < (v + 1) * 16 ^ length ds"
proof (induction v ds rule: hex_value.induct)
  case (2 v c cs)
  then obtain k where k: "hex_digit c = Some k" "hex_value (v * 16 + k) cs = Some n"
    by (auto split: option.splits)
  then have "n < (v * 16 + k + 1) * 16 ^ length cs" using 2 by simp
  also have "\<dots> \<le> (v * 16 + 16) * 16 ^ length cs"
    using hex_digit_bound [OF k(1)] by (intro mult_right_mono) auto
  finally show ?case by (simp add: algebra_simps)
qed simp

lemma group_bytes: "hex_value 0 ds = Some v \<Longrightarrow> length ds \<le> 4 \<Longrightarrow> v div 256 < 256 \<and> v mod 256 < 256"
proof -
  assume h: "hex_value 0 ds = Some v" "length ds \<le> 4"
  have "v < 16 ^ length ds" using hex_value_bound [OF h(1)] by simp
  also have "\<dots> \<le> 16 ^ 4" using h(2) by (intro power_increasing) auto
  finally show ?thesis by auto
qed

lemma v6_loop_step:
  assumes "v6_loop acc ell s = Some r" "length acc < 16"
  obtains (group) v ell' where "v div 256 < 256" "r = (acc @ [v div 256, v mod 256], ell', [])"
  | (dotted) f where "parse_ipv4_fields s = Some f" "length acc \<le> 12" "r = (acc @ f, ell, [])"
  | (more) v ell' s' where "v div 256 < 256" "v6_loop (acc @ [v div 256, v mod 256]) ell' s' = Some r"
proof -
  let ?ds = "takeWhile is_hex s"
  have ds: "?ds \<noteq> [] \<and> \<not> 4 < length ?ds"
    using assms by (simp add: v6_loop.simps [of acc] Let_def split: if_splits)
  then have gb: "v div 256 < 256" if "hex_value 0 ?ds = Some v" for v
    using group_bytes [OF that] by simp
  show thesis
  proof (cases "dropWhile is_hex s")
    case Nil
    then obtain v where "hex_value 0 ?ds = Some v" "r = (acc @ [v div 256, v mod 256], ell, [])"
      using assms ds by (simp add: v6_loop.simps [of acc] Let_def del: dropWhile_eq_Nil_conv split: option.splits)
    with gb group show thesis by blast
  next
    case (Cons c cs)
    show thesis
    proof (cases "c = CHR ''.''")
      case True
      with Cons assms ds dotted show thesis
        by (simp add: v6_loop.simps [of acc] Let_def split: option.splits if_splits)
    next
      case False
      with Cons assms ds obtain v where v: "hex_value 0 ?ds = Some v" and c: "c = CHR '':''"
        by (simp add: v6_loop.simps [of acc] Let_def split: option.splits if_splits)
      obtain c2 r2 where cs: "cs = c2 # r2"
        using assms ds Cons c v by (cases cs) (simp_all add: v6_loop.simps [of acc] Let_def)
      show thesis
        using assms ds Cons c v gb [OF v] group [of v] more [of v]
        by (auto simp: v6_loop.simps [of acc] Let_def cs split: if_splits)
    qed
  qed
qed

lemma v6_loop_wf:
  "v6_loop acc ell s = Some (acc', ell', s') \<Longrightarrow> even (length acc) \<Longrightarrow> length acc \<le> 16 \<Longrightarrow> bytes acc \<Longrightarrow>
     length acc' \<le> 16 \<and> bytes acc'"
proof (induction "16 - length acc" arbitrary: acc ell s rule: less_induct)
  case less
  show ?case
  proof (cases "16 \<le> length acc")
    case True
    with less.prems show ?thesis by (simp add: v6_loop.simps [of acc])
  next
    case False
    with less.prems(2) have len: "length acc \<le> 14" by presburger
    then have "length acc < 16" by simp
    from less.prems(1) this show ?thesis
    proof (cases rule: v6_loop_step)
      case (group v e)
      with less.prems len show ?thesis by auto
    next
      case (dotted f)
      with less.prems parse_ipv4_fields_wf show ?thesis by auto
    next
      case (more v e t)
      then show ?thesis using less.prems len by (intro less.hyps [OF _ more(2)]) auto
    qed
  qed
qed

lemma v6_finish_wf:
  "v6_finish (acc, ell, s) = Some ip \<Longrightarrow> length acc \<le> 16 \<Longrightarrow> bytes acc \<Longrightarrow> length ip = 16 \<and> bytes ip"
  by (auto simp: v6_finish_def split: if_splits option.splits) (meson in_set_takeD in_set_dropD)+

lemma parse_ipv6_wf:
  assumes "parse_ipv6 s = Some ip"
  shows "length ip = 16 \<and> bytes ip"
proof -
  have "length ip = 16 \<and> bytes ip" if "Option.bind (v6_loop [] e t) v6_finish = Some ip" for e t
    using that v6_loop_wf [of "[]" e t] v6_finish_wf by (auto simp: Option.bind_eq_Some_conv)
  with assms show ?thesis
    by (auto simp: parse_ipv6_def split: list.splits if_splits)
qed

lemma v4InV6Prefix_facts [simp]: "length v4InV6Prefix = 12" "bytes v4InV6Prefix"
  by (auto simp: v4InV6Prefix_def)

lemma parse_addr_wf: "parse_addr s = Some a \<Longrightarrow> length (as16 a) = 16 \<and> bytes (as16 a)"
  using parse_ipv4_fields_wf [of s] parse_ipv6_wf [of s] v4InV6Prefix_facts
  by (auto simp: parse_addr_def split: if_splits option.splits)

lemma ParseIP_wf: "ParseIP s \<noteq> [] \<Longrightarrow> length (ParseIP s) = 16 \<and> wf_ip (ParseIP s)"
  using parse_addr_wf [of s] by (auto simp: ParseIP_def wf_ip_def split: option.splits)

end
