(* ===== verification/IPUtils.thy ===== *)
theory IPUtils
  imports NetIP "HOL-Library.List_Lexorder" "HOL-Library.Char_ord"
begin

text \<open>
  \<^verbatim>\<open>pkg/utils/ip/ip.go\<close>: comparing and stepping through addresses, IP ranges written as
  text, their expansion and merging, CIDR blocks, and the membership tests the controllers and
  webhooks call. \<open>bytes.Compare\<close> and \<open>sort.Strings\<close> are the lexicographic order on
  lists.
\<close>

section \<open>Addresses as numbers\<close>

datatype ip_err =
    ErrInvalidIPVersion
  | ErrInvalidIPRangeFormat
  | ErrInvalidIP
  | InvalidIPFormat
  | NetParseError

type_synonym 'a ip_res = "(ip_err, 'a) outcome"

definition IPv4 :: int where "IPv4 = 4"
definition IPv6 :: int where "IPv6 = 6"

text \<open>\<^verbatim>\<open>big.Int.SetBytes\<close> and \<^verbatim>\<open>big.Int.Bytes\<close>, which has no leading zero byte.\<close>

definition be_val :: "netip \<Rightarrow> nat" where
  "be_val bs = foldl (\<lambda>v b. v * 256 + b) 0 bs"

fun be_bytes :: "nat \<Rightarrow> netip" where
  "be_bytes n = (if n = 0 then [] else be_bytes (n div 256) @ [n mod 256])"

declare be_bytes.simps [simp del]

definition ipToInt :: "netip \<Rightarrow> nat" where
  "ipToInt ip = (if to4 ip \<noteq> nil_ip then be_val (to4 ip) else be_val (to16 ip))"

definition intToIP :: "nat \<Rightarrow> netip" where
  "intToIP i = to16 (be_bytes i)"

definition Cmp :: "netip \<Rightarrow> netip \<Rightarrow> int" where
  "Cmp ip1 ip2 =
     (if ipToInt ip1 < ipToInt ip2 then -1 else if ipToInt ip1 = ipToInt ip2 then 0 else 1)"

definition NextIP :: "netip \<Rightarrow> netip" where
  "NextIP ip = intToIP (ipToInt ip + 1)"

definition IsIPVersion :: "int \<Rightarrow> unit ip_res" where
  "IsIPVersion version =
     (if version \<noteq> IPv4 \<and> version \<noteq> IPv6 then Err ErrInvalidIPVersion else Ok ())"

section \<open>Lists of addresses and of CIDR blocks\<close>

definition IsIPv4 :: "string \<Rightarrow> bool ip_res" where
  "IsIPv4 ip = (let netIP = ParseIP ip in
     if netIP = nil_ip then Err InvalidIPFormat else Ok (to4 netIP \<noteq> nil_ip))"

definition IsIPv6 :: "string \<Rightarrow> bool ip_res" where
  "IsIPv6 ip = (let netIP = ParseIP ip in
     if netIP = nil_ip then Err InvalidIPFormat else Ok (to4 netIP = nil_ip))"

fun GetIPV4V6 :: "string list \<Rightarrow> (string list \<times> string list) ip_res" where
  "GetIPV4V6 [] = Ok ([], [])"
| "GetIPV4V6 (ip # ips) =
     (if ParseIP ip = nil_ip then Err ErrInvalidIP
      else oc_bind (GetIPV4V6 ips) (\<lambda>(v4s, v6s).
        Ok (if IsIPv4 ip = Ok True then ip # v4s else v4s,
            if IsIPv6 ip = Ok True then ip # v6s else v6s)))"

definition IsIPv4Cidr :: "string \<Rightarrow> bool ip_res" where
  "IsIPv4Cidr cidr = (case ParseCIDR cidr of
     None \<Rightarrow> Err NetParseError
   | Some (_, n) \<Rightarrow> Ok (to4 (net_ip n) \<noteq> nil_ip \<and> length (net_mask n) = 4))"

definition IsIPv6Cidr :: "string \<Rightarrow> bool ip_res" where
  "IsIPv6Cidr cidr = (case ParseCIDR cidr of
     None \<Rightarrow> Err NetParseError
   | Some (_, n) \<Rightarrow> Ok (to16 (net_ip n) \<noteq> nil_ip \<and> length (net_mask n) = 16))"

fun GetIPV4V6Cidr :: "string list \<Rightarrow> (string list \<times> string list) ip_res" where
  "GetIPV4V6Cidr [] = Ok ([], [])"
| "GetIPV4V6Cidr (c # cs) =
     (if CHR ''.'' \<in> set c
      then oc_bind (IsIPv4Cidr c) (\<lambda>ok. oc_bind (GetIPV4V6Cidr cs) (\<lambda>(v4s, v6s).
             Ok (if ok then c # v4s else v4s, v6s)))
      else oc_bind (IsIPv6Cidr c) (\<lambda>ok. oc_bind (GetIPV4V6Cidr cs) (\<lambda>(v4s, v6s).
             Ok (v4s, if ok then c # v6s else v6s))))"

definition SortIPs :: "string list \<Rightarrow> string list ip_res" where
  "SortIPs ips = oc_bind (oc_mapM (\<lambda>ip. if ParseIP ip = nil_ip then Err InvalidIPFormat
                                        else Ok (ip_string (ParseIP ip))) ips)
                         (\<lambda>ss. Ok (sort ss))"

text \<open>\<^verbatim>\<open>IPNet.String\<close> prints the prefix length of a canonical mask.\<close>

definition ones_of :: "netip \<Rightarrow> nat" where
  "ones_of m = sum_list (map (\<lambda>b. length (filter (bit b) [0..<8])) m)"

definition ipnet_string :: "ipnet \<Rightarrow> string" where
  "ipnet_string n = (case network_number_and_mask n of (nn, m) \<Rightarrow>
     if nn = [] \<or> m = [] then ''<nil>'' else ip_string nn @ ''/'' @ dec_string (ones_of m))"

definition SortIPCidrs :: "string list \<Rightarrow> string list ip_res" where
  "SortIPCidrs ips = oc_bind (oc_mapM (\<lambda>c. case ParseCIDR c of None \<Rightarrow> Err NetParseError
                                           | Some (_, n) \<Rightarrow> Ok (ipnet_string n)) ips)
                             (\<lambda>ss. Ok (sort ss))"

definition IsSameIPs :: "string list \<Rightarrow> string list \<Rightarrow> bool ip_res" where
  "IsSameIPs a b =
     (if length a \<noteq> length b then Ok False
      else oc_bind (SortIPs a) (\<lambda>sa. oc_bind (SortIPs b) (\<lambda>sb.
        if length sa \<noteq> length sb then Ok False
        else Ok (list_all (\<lambda>i. sa ! i = sb ! i) [0..<length sa]))))"

definition IsSameIPCidrs :: "string list \<Rightarrow> string list \<Rightarrow> bool ip_res" where
  "IsSameIPCidrs a b =
     (if length a \<noteq> length b then Ok False
      else oc_bind (SortIPCidrs a) (\<lambda>sa. oc_bind (SortIPCidrs b) (\<lambda>sb.
        Ok (list_all (\<lambda>i. sa ! i = sb ! i) [0..<length sa]))))"

definition IPsDiffSet :: "string iter_order \<Rightarrow> netip list \<Rightarrow> netip list \<Rightarrow> bool \<Rightarrow> netip list" where
  "IPsDiffSet ord ips1 ips2 srt =
     (let marks = map_keys (map ip_string (filter (\<lambda>ip. ip \<noteq> nil_ip) ips1));
          gone = map ip_string (filter (\<lambda>ip. ip \<noteq> nil_ip) ips2);
          ips = map ParseIP (ord (filter (\<lambda>k. k \<notin> set gone) marks))
      in if srt then sort_key to16 ips else ips)"

section \<open>IP ranges\<close>

text \<open>\<^verbatim>\<open>govalidator.IsIPv4\<close> and \<^verbatim>\<open>IsIPv6\<close>.\<close>

definition gov_IsIPv4 :: "string \<Rightarrow> bool" where
  "gov_IsIPv4 s = (ParseIP s \<noteq> nil_ip \<and> CHR ''.'' \<in> set s)"

definition gov_IsIPv6 :: "string \<Rightarrow> bool" where
  "gov_IsIPv6 s = (ParseIP s \<noteq> nil_ip \<and> CHR '':'' \<in> set s)"

definition IsIPv4IPRange :: "string \<Rightarrow> bool" where
  "IsIPv4IPRange ipRange =
     (case split_on (CHR ''-'') ipRange of
        [a] \<Rightarrow> gov_IsIPv4 a
      | [a, b] \<Rightarrow> if \<not> gov_IsIPv4 a \<or> \<not> gov_IsIPv4 b then False
                  else \<not> Cmp (ParseIP a) (ParseIP b) = 1
      | _ \<Rightarrow> False)"

definition IsIPv6IPRange :: "string \<Rightarrow> bool" where
  "IsIPv6IPRange ipRange =
     (case split_on (CHR ''-'') ipRange of
        [a] \<Rightarrow> gov_IsIPv6 a
      | [a, b] \<Rightarrow> if \<not> gov_IsIPv6 a \<or> \<not> gov_IsIPv6 b then False
                  else \<not> Cmp (ParseIP a) (ParseIP b) = 1
      | _ \<Rightarrow> False)"

definition IsIPRange :: "int \<Rightarrow> string \<Rightarrow> unit ip_res" where
  "IsIPRange version ipRange =
     oc_bind (IsIPVersion version) (\<lambda>_.
       if (version = IPv4 \<and> \<not> IsIPv4IPRange ipRange) \<or> (version = IPv6 \<and> \<not> IsIPv6IPRange ipRange)
       then Err ErrInvalidIPRangeFormat else Ok ())"

text \<open>The loop \<^verbatim>\<open>for Cmp(cur, end) <= 0\<close> of \<^verbatim>\<open>ParseIPRange\<close>.\<close>

partial_function (option) range_loop :: "netip \<Rightarrow> netip \<Rightarrow> netip list option" where
  "range_loop cur end_ip =
     (if Cmp cur end_ip \<le> 0
      then Option.bind (range_loop (NextIP cur) end_ip) (\<lambda>ips. Some (cur # ips))
      else Some [])"

declare range_loop.simps [code]

definition ParseIPRange :: "int \<Rightarrow> string \<Rightarrow> netip list ip_res" where
  "ParseIPRange version ipRange =
     oc_bind (IsIPRange version ipRange) (\<lambda>_.
       case split_on (CHR ''-'') ipRange of
         [a] \<Rightarrow> Ok [ParseIP a]
       | [a, b] \<Rightarrow> of_loop (range_loop (ParseIP a) (ParseIP b))
       | _ \<Rightarrow> Ok [])"

fun ParseIPRanges :: "int \<Rightarrow> string list \<Rightarrow> netip list ip_res" where
  "ParseIPRanges version [] = Ok []"
| "ParseIPRanges version (r # rs) =
     oc_bind (ParseIPRange version r) (\<lambda>ips.
       oc_bind (ParseIPRanges version rs) (\<lambda>sum. Ok (ips @ sum)))"

section \<open>CIDR blocks\<close>

fun inc_rev :: "netip \<Rightarrow> netip" where
  "inc_rev [] = []"
| "inc_rev (b # bs) =
     (let b' = (b + 1) mod 256 in if 0 < b' then b' # bs else b' # inc_rev bs)"

text \<open>\<^verbatim>\<open>incrementIP\<close> adds one from the last byte on, and wraps around.\<close>

definition incrementIP :: "netip \<Rightarrow> netip" where
  "incrementIP ip = rev (inc_rev (rev ip))"

partial_function (option) cidr_loop :: "ipnet \<Rightarrow> netip \<Rightarrow> netip list option" where
  "cidr_loop n ip =
     (if ipnet_contains n ip
      then Option.bind (cidr_loop n (incrementIP ip)) (\<lambda>ips. Some (ip # ips))
      else Some [])"

declare cidr_loop.simps [code]

definition isIPv4 :: "netip \<Rightarrow> bool" where
  "isIPv4 ip = (length (to4 ip) = 4)"

definition CidrToIPs :: "string \<Rightarrow> netip list ip_res" where
  "CidrToIPs cidr = (case ParseCIDR cidr of
     None \<Rightarrow> Err NetParseError
   | Some (ip, n) \<Rightarrow>
       oc_bind (of_loop (cidr_loop n (ip_mask ip (net_mask n)))) (\<lambda>ips.
         Ok (if 2 < length ips \<and> isIPv4 ip then butlast (tl ips) else ips)))"

text \<open>A map from printed addresses to addresses: later stores replace earlier ones.\<close>

definition put_ips :: "netip list \<Rightarrow> (string \<times> netip) list \<Rightarrow> (string \<times> netip) list" where
  "put_ips ips m = fold (\<lambda>v. AList.update (ip_string v) v) ips m"

definition CidrsToIPs :: "string iter_order \<Rightarrow> string list \<Rightarrow> netip list ip_res" where
  "CidrsToIPs ord cidrs =
     oc_bind (oc_mapM CidrToIPs cidrs) (\<lambda>ipss. Ok (range_values ord (put_ips (concat ipss) [])))"

definition is_cidr :: "string \<Rightarrow> bool" where
  "is_cidr v = (ParseCIDR v \<noteq> None)"

definition ConvertCidrOrIPrangeToIPs :: "string iter_order \<Rightarrow> string list \<Rightarrow> int \<Rightarrow> netip list ip_res" where
  "ConvertCidrOrIPrangeToIPs ord ins version =
     (let ipranges = filter (\<lambda>v. \<not> is_cidr v) ins; cidrs = filter is_cidr ins in
      oc_bind (ParseIPRanges version ipranges) (\<lambda>rangeIPs.
      oc_bind (CidrsToIPs ord cidrs) (\<lambda>cidrIPs.
      Ok (range_values ord (put_ips cidrIPs (put_ips rangeIPs []))))))"

section \<open>Merging ranges\<close>

text \<open>
  The loop of \<^verbatim>\<open>ConvertIPsToIPRanges\<close> over the sorted addresses: \<open>start\<close> is the first
  address of the current run and \<open>start + k\<close> the last one found so far (\<^verbatim>\<open>end\<close> in the code).
\<close>

function ranges_from :: "netip list \<Rightarrow> nat \<Rightarrow> nat \<Rightarrow> string list" where
  "ranges_from ips start k =
     (if length ips \<le> start then []
      else if start + k + 1 < length ips \<and> ip_equal (ips ! (start + k + 1)) (NextIP (ips ! (start + k)))
      then ranges_from ips start (k + 1)
      else (if k = 0 then ip_string (ips ! start)
            else ip_string (ips ! start) @ ''-'' @ ip_string (ips ! (start + k)))
           # ranges_from ips (start + k + 1) 0)"
  by pat_completeness auto
termination
  by (relation "measures [\<lambda>(ips, start, k). length ips - start, \<lambda>(ips, start, k). length ips - (start + k)]")
     auto

declare ranges_from.simps [simp del]

definition ConvertIPsToIPRanges :: "string iter_order \<Rightarrow> int \<Rightarrow> netip list \<Rightarrow> string list ip_res" where
  "ConvertIPsToIPRanges ord version ips =
     oc_bind (IsIPVersion version) (\<lambda>_.
       if list_ex (\<lambda>ip. (version = IPv4 \<and> to4 ip = nil_ip) \<or> (version = IPv6 \<and> to4 ip \<noteq> nil_ip)) ips
       then Err ErrInvalidIP
       else Ok (ranges_from (sort_key to16 (map ParseIP (ord (map_keys (map ip_string ips))))) 0 0))"

definition MergeIPRanges :: "string iter_order \<Rightarrow> int \<Rightarrow> string list \<Rightarrow> string list ip_res" where
  "MergeIPRanges ord version ipRanges =
     oc_bind (ConvertCidrOrIPrangeToIPs ord ipRanges version) (ConvertIPsToIPRanges ord version)"

section \<open>Membership\<close>

definition IsIPRangeOverlap :: "string iter_order \<Rightarrow> int \<Rightarrow> string \<Rightarrow> string \<Rightarrow> bool ip_res" where
  "IsIPRangeOverlap ord version ipRange1 ipRange2 =
     oc_bind (IsIPVersion version) (\<lambda>_.
     oc_bind (IsIPRange version ipRange1) (\<lambda>_.
     oc_bind (IsIPRange version ipRange2) (\<lambda>_.
     oc_bind (ParseIPRange version ipRange1) (\<lambda>ips1.
     oc_bind (ParseIPRange version ipRange2) (\<lambda>ips2.
     Ok (length (IPsDiffSet ord ips1 ips2 False) < length ips1))))))"

fun any_overlap :: "string iter_order \<Rightarrow> int \<Rightarrow> string \<Rightarrow> string list \<Rightarrow> bool ip_res" where
  "any_overlap ord version ip [] = Ok False"
| "any_overlap ord version ip (item # items) =
     oc_bind (IsIPRangeOverlap ord version ip item) (\<lambda>r.
       if r then Ok True else any_overlap ord version ip items)"

definition IsIPIncludedRange :: "string iter_order \<Rightarrow> int \<Rightarrow> string \<Rightarrow> string list \<Rightarrow> bool ip_res" where
  "IsIPIncludedRange ord version ip ipRange =
     oc_bind (MergeIPRanges ord version ipRange) (any_overlap ord version ip)"

definition IsIPIncludedCidr :: "string \<Rightarrow> string \<Rightarrow> bool ip_res" where
  "IsIPIncludedCidr ip cidr =
     (if ParseIP ip = nil_ip then Err ErrInvalidIP
      else case ParseCIDR cidr of
        None \<Rightarrow> Err NetParseError
      | Some (_, n) \<Rightarrow> Ok (ipnet_contains n (ParseIP ip)))"

fun any_cidr :: "string \<Rightarrow> string list \<Rightarrow> bool ip_res" where
  "any_cidr ip [] = Ok False"
| "any_cidr ip (c # cs) =
     oc_bind (IsIPIncludedCidr ip c) (\<lambda>inc. if inc then Ok True else any_cidr ip cs)"

definition CheckIPIncluded :: "string iter_order \<Rightarrow> string \<Rightarrow> string list \<Rightarrow> bool ip_res" where
  "CheckIPIncluded ord ip ips =
     (if ParseIP ip = nil_ip then Err ErrInvalidIP
      else
        let version = (if IsIPv4 ip = Ok True then IPv4 else IPv6);
            cidrs = filter is_cidr ips;
            ranges = filter (\<lambda>v. \<not> is_cidr v) ips
        in if list_ex (\<lambda>v. \<not> IsIPv4IPRange v \<and> \<not> IsIPv6IPRange v) ranges
           then Err ErrInvalidIPRangeFormat
           else oc_bind (any_cidr ip cidrs) (\<lambda>inc.
             if inc then Ok True
             else IsIPIncludedRange ord version ip
                    (if version = IPv4 then filter IsIPv4IPRange ranges
                     else filter (\<lambda>v. \<not> IsIPv4IPRange v \<and> IsIPv6IPRange v) ranges)))"

end
