(* ===== verification/IPRanges.thy ===== *)
theory IPRanges
  imports IPUtils
begin

text \<open>
  What \<^verbatim>\<open>pkg/utils/ip\<close> computes: addresses as numbers, the interface of an address family
  (IPv4 and IPv6 both provide it), and over that interface the expansion of ranges, their merging
  and the membership test.
\<close>

section \<open>Big-endian numbers\<close>

fun to_be :: "nat \<Rightarrow> nat \<Rightarrow> netip" where
  "to_be 0 n = []"
| "to_be (Suc k) n = to_be k (n div 256) @ [n mod 256]"

definition ip4 :: "nat \<Rightarrow> netip" where
  "ip4 m = v4InV6Prefix @ to_be 4 m"

definition ip6 :: "nat \<Rightarrow> netip" where
  "ip6 m = to_be 16 m"

text \<open>The numbers of IPv6 addresses that are not IPv4-mapped.\<close>

definition dom6 :: "nat \<Rightarrow> bool" where
  "dom6 m = (m < 2 ^ 128 \<and> m div 2 ^ 32 \<noteq> 65535)"

lemma be_val_Nil [simp]: "be_val [] = 0"
  by (simp add: be_val_def)

lemma be_val_snoc [simp]: "be_val (xs @ [b]) = be_val xs * 256 + b"
  by (simp add: be_val_def)

lemma be_val_append: "be_val (xs @ ys) = be_val xs * 256 ^ length ys + be_val ys"
  by (induction ys rule: rev_induct)
     (simp_all add: append_assoc [symmetric] algebra_simps del: append_assoc)

lemma length_to_be [simp]: "length (to_be k n) = k"
  by (induction k arbitrary: n) auto

lemma to_be_eq_Nil [simp]: "to_be k n = [] \<longleftrightarrow> k = 0"
  using length_to_be [of k n] by (cases k) auto

lemma bytes_take_drop: "bytes xs \<Longrightarrow> bytes (take k xs)" "bytes xs \<Longrightarrow> bytes (drop k xs)"
  by (meson in_set_takeD) (meson in_set_dropD)

lemma bytes_to_be [simp]: "bytes (to_be k n)"
  by (induction k arbitrary: n) auto

lemma be_val_to_be: "n < 256 ^ k \<Longrightarrow> be_val (to_be k n) = n"
proof (induction k arbitrary: n)
  case (Suc k)
  then have "n div 256 < 256 ^ k" by (simp add: less_mult_imp_div_less mult.commute)
  with Suc.IH show ?case by simp
qed simp

lemma to_be_be_val: "bytes xs \<Longrightarrow> length xs = k \<Longrightarrow> to_be k (be_val xs) = xs"
  by (induction xs arbitrary: k rule: rev_induct) auto

lemma be_val_bound: "bytes xs \<Longrightarrow> be_val xs < 256 ^ length xs"
proof (induction xs rule: rev_induct)
  case (snoc b xs)
  then have "be_val xs + 1 \<le> 256 ^ length xs" "b < 256" by auto
  then have "(be_val xs + 1) * 256 \<le> 256 ^ length xs * 256" by (intro mult_right_mono) auto
  with \<open>b < 256\<close> show ?case by simp
qed simp

lemma be_bytes_to_be: "256 ^ k \<le> n \<Longrightarrow> n < 256 ^ Suc k \<Longrightarrow> be_bytes n = to_be (Suc k) n"
proof (induction k arbitrary: n)
  case 0
  then show ?case by (simp add: be_bytes.simps [of n] be_bytes.simps [of 0])
next
  case (Suc k)
  then have "256 ^ k \<le> n div 256" "n div 256 < 256 ^ Suc k" "n \<noteq> 0"
    by (auto simp: less_eq_div_iff_mult_less_eq less_mult_imp_div_less mult.commute)
  with Suc.IH [of "n div 256"] show ?case by (simp add: be_bytes.simps [of n])
qed

lemma be_bytes_exact: "0 < k \<Longrightarrow> 256 ^ (k - 1) \<le> n \<Longrightarrow> n < 256 ^ k \<Longrightarrow> be_bytes n = to_be k n"
  using be_bytes_to_be [of "k - 1" n] by simp

lemma length_be_bytes: "n < 256 ^ k \<Longrightarrow> length (be_bytes n) \<le> k"
proof (induction k arbitrary: n)
  case 0
  then show ?case by (simp add: be_bytes.simps [of 0])
next
  case (Suc k)
  then have "n div 256 < 256 ^ k" by (simp add: less_mult_imp_div_less mult.commute)
  with Suc.IH show ?case by (simp add: be_bytes.simps [of n])
qed

lemma length_be_bytes_ge: "256 ^ k \<le> n \<Longrightarrow> Suc k \<le> length (be_bytes n)"
proof (induction k arbitrary: n)
  case 0
  then show ?case by (simp add: be_bytes.simps [of n])
next
  case (Suc k)
  then have "256 ^ k \<le> n div 256"
    by (simp add: less_eq_div_iff_mult_less_eq mult.commute)
  moreover have "n \<noteq> 0" using Suc.prems by (intro notI) simp
  ultimately show ?case using Suc.IH by (simp add: be_bytes.simps [of n])
qed

section \<open>IPv4 and IPv6 addresses and their successors\<close>

lemma to4_ip4 [simp]: "to4 (ip4 m) = to_be 4 m"
  by (simp add: to4_def ip4_def)

lemma to16_ip4 [simp]: "to16 (ip4 m) = ip4 m" and to16_ip6 [simp]: "to16 (ip6 m) = ip6 m"
  by (simp_all add: to16_def ip4_def ip6_def)

lemma length_ip [simp]: "length (ip4 m) = 16" "length (ip6 m) = 16"
  by (simp_all add: ip4_def ip6_def)

lemma ip_not_nil [simp]: "ip4 m \<noteq> []" "ip6 m \<noteq> []"
  by (metis length_ip(1) list.size(3) zero_neq_numeral) (metis length_ip(2) list.size(3) zero_neq_numeral)

lemma wf_ip4 [simp]: "wf_ip (ip4 m)" and wf_ip6 [simp]: "wf_ip (ip6 m)"
  using v4InV6Prefix_facts by (auto simp: wf_ip_def ip4_def ip6_def)

lemma be_val_prefix: "be_val v4InV6Prefix = 65535"
  by (simp add: v4InV6Prefix_def be_val_def)

lemma take12_ip6:
  assumes "m < 2 ^ 128"
  shows "take 12 (ip6 m) = v4InV6Prefix \<longleftrightarrow> m div 2 ^ 32 = 65535"
proof -
  have v: "be_val (take 12 (ip6 m)) * 256 ^ 4 + be_val (drop 12 (ip6 m)) = m"
    using be_val_append [of "take 12 (ip6 m)" "drop 12 (ip6 m)"] be_val_to_be [of m 16] assms
    by (simp add: ip6_def)
  have "be_val (drop 12 (ip6 m)) < 256 ^ 4"
    using be_val_bound [OF bytes_take_drop(2) [OF bytes_to_be], of 12 16 m] by (simp add: ip6_def)
  with v have d: "m div 2 ^ 32 = be_val (take 12 (ip6 m))" by auto
  have "bytes (take 12 (ip6 m))" unfolding ip6_def by (intro bytes_take_drop bytes_to_be)
  then have "to_be 12 (be_val (take 12 (ip6 m))) = take 12 (ip6 m)"
    by (rule to_be_be_val) simp
  moreover have "to_be 12 65535 = v4InV6Prefix"
    using to_be_be_val [of v4InV6Prefix 12] v4InV6Prefix_facts by (simp add: be_val_prefix)
  ultimately show ?thesis using d be_val_prefix by metis
qed

lemma to4_ip6: "dom6 m \<Longrightarrow> to4 (ip6 m) = []"
  by (simp add: to4_def dom6_def take12_ip6)

lemma ipToInt_ip4: "m < 2 ^ 32 \<Longrightarrow> ipToInt (ip4 m) = m"
  using be_val_to_be [of m 4] by (simp add: ipToInt_def)

lemma ipToInt_ip6: "dom6 m \<Longrightarrow> ipToInt (ip6 m) = m"
  using be_val_to_be [of m 16] by (simp add: ipToInt_def to4_ip6) (simp add: ip6_def dom6_def)

lemma to16_cases: "to16 xs = (if length xs = 4 then v4InV6Prefix @ xs else if length xs = 16 then xs else [])"
  by (simp add: to16_def)

lemma intToIP_v4: "2 ^ 24 \<le> i \<Longrightarrow> i < 2 ^ 32 \<Longrightarrow> intToIP i = ip4 i"
  using be_bytes_exact [of 4 i] by (simp add: intToIP_def ip4_def to16_def)

lemma intToIP_v6: "2 ^ 120 \<le> i \<Longrightarrow> i < 2 ^ 128 \<Longrightarrow> intToIP i = ip6 i"
  using be_bytes_exact [of 16 i] by (simp add: intToIP_def ip6_def to16_def)

lemma intToIP_nil:
  assumes "i < 2 ^ 24 \<or> (2 ^ 32 \<le> i \<and> i < 2 ^ 120) \<or> 2 ^ 128 \<le> i"
  shows "intToIP i = []"
proof -
  have "length (be_bytes i) \<noteq> 4 \<and> length (be_bytes i) \<noteq> 16"
    using assms length_be_bytes [of i 3] length_be_bytes_ge [of 4 i] length_be_bytes [of i 15]
      length_be_bytes_ge [of 16 i] by auto
  then show ?thesis by (simp add: intToIP_def to16_def)
qed

lemma NextIP_nil [simp]: "NextIP [] = []"
  using intToIP_nil [of 1] by (simp add: NextIP_def ipToInt_def to4_def to16_def)

text \<open>Once the loop of \<open>ParseIPRange\<close> has stepped to nil it never ends.\<close>

lemma range_loop_nil: "range_loop [] e = None"
proof (rule ccontr)
  assume "range_loop [] e \<noteq> None"
  then obtain ips where r: "range_loop [] e = Some ips" by auto
  have "([]::netip) = [] \<longrightarrow> False"
  proof (rule range_loop.raw_induct [where P = "\<lambda>cur e ips. cur = [] \<longrightarrow> False", OF _ r])
    fix f :: "netip \<Rightarrow> netip \<Rightarrow> netip list option" and cur e' ips'
    assume IH: "\<And>cur e ips. f cur e = Some ips \<Longrightarrow> cur = [] \<longrightarrow> False"
      and eq: "(if Cmp cur e' \<le> 0 then Option.bind (f (NextIP cur) e') (\<lambda>ips. Some (cur # ips)) else Some []) = Some ips'"
    show "cur = [] \<longrightarrow> False"
    proof
      assume "cur = []"
      then have "Cmp cur e' \<le> 0" by (simp add: Cmp_def ipToInt_def to4_def to16_def)
      with eq \<open>cur = []\<close> obtain ips'' where "f [] e' = Some ips''"
        by (auto simp: Option.bind_eq_Some_conv)
      with IH show False by blast
    qed
  qed
  then show False by simp
qed

section \<open>The interface of an address family\<close>

lemma be_val_Cons: "be_val (a # as) = a * 256 ^ length as + be_val as"
  using be_val_append [of "[a]" as] by (simp add: be_val_def)

lemma be_val_less_lex:
  "length xs = length ys \<Longrightarrow> bytes xs \<Longrightarrow> bytes ys \<Longrightarrow> be_val xs < be_val ys \<Longrightarrow> xs < ys"
proof (induction xs ys rule: list_induct2)
  case (Cons a as b bs)
  show ?case
  proof (cases "a = b")
    case True
    with Cons show ?thesis by (simp add: be_val_Cons)
  next
    case False
    have "\<not> b < a"
    proof
      assume "b < a"
      then have "(b + 1) * 256 ^ length bs \<le> a * 256 ^ length as"
        using Cons.hyps by (intro mult_mono) auto
      moreover have "be_val bs < 256 ^ length bs" using Cons.prems by (intro be_val_bound) auto
      ultimately show False using Cons.prems(3) by (simp add: be_val_Cons algebra_simps)
    qed
    with False show ?thesis by simp
  qed
qed simp

definition range_text_ok :: "(string \<Rightarrow> bool) \<Rightarrow> string \<Rightarrow> bool" where
  "range_text_ok okt s = (case split_on (CHR ''-'') s of
     [a] \<Rightarrow> okt a
   | [a, b] \<Rightarrow> okt a \<and> okt b \<and> Cmp (ParseIP a) (ParseIP b) \<noteq> 1
   | _ \<Rightarrow> False)"

definition right_version :: "int \<Rightarrow> netip \<Rightarrow> bool" where
  "right_version ver ip = (\<not> (ver = IPv4 \<and> to4 ip = nil_ip) \<and> \<not> (ver = IPv6 \<and> to4 ip \<noteq> nil_ip))"

locale ip_family =
  fixes ver :: int
    and mk :: "nat \<Rightarrow> netip"
    and indom :: "nat \<Rightarrow> bool"
    and lo :: nat
    and lim :: nat
    and okt :: "string \<Rightarrow> bool"
  assumes version_ok: "IsIPVersion ver = Ok ()"
    and is_range: "IsIPRange ver s = (if range_text_ok okt s then Ok () else Err ErrInvalidIPRangeFormat)"
    and txt_parse: "okt s \<Longrightarrow> ParseIP s \<noteq> []"
    and txt_mk: "indom m \<Longrightarrow> okt (ip_string (mk m))"
    and mk_wf: "wf_ip (mk m)" "length (mk m) = 16"
    and num: "indom m \<Longrightarrow> ipToInt (mk m) = m"
    and bound: "indom m \<Longrightarrow> m < lim"
    and step: "indom m \<Longrightarrow> lo \<le> m + 1 \<Longrightarrow> m + 1 < lim \<Longrightarrow> NextIP (mk m) = mk (m + 1) \<and> indom (m + 1)"
    and wrap: "indom m \<Longrightarrow> m + 1 = lim \<Longrightarrow> NextIP (mk m) = []"
    and next_eq: "indom x \<Longrightarrow> indom y \<Longrightarrow>
        ip_equal (mk x) (NextIP (mk y)) \<longleftrightarrow> x = y + 1 \<and> lo \<le> y + 1"
    and less: "indom m \<Longrightarrow> indom n \<Longrightarrow> m < n \<Longrightarrow> mk m < mk n"
    and family: "wf_ip ip \<Longrightarrow> right_version ver ip \<Longrightarrow> to16 ip = mk (ipToInt ip) \<and> indom (ipToInt ip)"
begin

lemma to16_mk [simp]: "to16 (mk m) = mk m"
  using mk_wf(2) by (simp add: to16_def)

lemma mk_not_nil [simp]: "mk m \<noteq> []"
  using mk_wf(2) [of m] by auto

lemma parse_mk [simp]: "ParseIP (ip_string (mk m)) = mk m"
  using ParseIP_ip_string [OF mk_wf(1)] by simp

lemma mk_inj: "indom m \<Longrightarrow> indom n \<Longrightarrow> mk m = mk n \<longleftrightarrow> m = n"
  using num by metis

lemma cmp_mk: "indom m \<Longrightarrow> indom n \<Longrightarrow> Cmp (mk m) (mk n) = (if m < n then -1 else if m = n then 0 else 1)"
  by (simp add: Cmp_def num)

lemma range_loop_ok:
  "indom m \<Longrightarrow> indom n \<Longrightarrow> lo \<le> m + 1 \<Longrightarrow> n + 1 < lim \<Longrightarrow> m \<le> Suc n \<Longrightarrow>
     range_loop (mk m) (mk n) = Some (map mk [m..<Suc n])"
proof (induction "Suc n - m" arbitrary: m)
  case 0
  then have "m = Suc n" by simp
  with 0 show ?case by (simp add: range_loop.simps cmp_mk)
next
  case (Suc d)
  then have mn: "m \<le> n" by simp
  have st: "NextIP (mk m) = mk (m + 1)" "indom (m + 1)" using step [of m] Suc.prems mn by auto
  have "range_loop (mk (m + 1)) (mk n) = Some (map mk [m + 1..<Suc n])"
    by (rule Suc.hyps(1)) (use Suc st mn in auto)
  then show ?case using mn Suc.prems st
    by (simp add: range_loop.simps [of "mk m"] cmp_mk upt_conv_Cons del: upt_Suc)
qed

lemma range_loop_wrap:
  "indom m \<Longrightarrow> indom n \<Longrightarrow> lo \<le> m + 1 \<Longrightarrow> n + 1 = lim \<Longrightarrow> m \<le> n \<Longrightarrow> range_loop (mk m) (mk n) = None"
proof (induction "n - m" arbitrary: m)
  case 0
  then have "m = n" by simp
  with 0 show ?case by (simp add: range_loop.simps [of "mk n"] cmp_mk wrap range_loop_nil)
next
  case (Suc d)
  have st: "NextIP (mk m) = mk (m + 1)" "indom (m + 1)" using step [of m] Suc by auto
  have "range_loop (mk (m + 1)) (mk n) = None"
    by (rule Suc.hyps(1)) (use Suc st in auto)
  then show ?case using Suc st by (simp add: range_loop.simps [of "mk m"] cmp_mk)
qed

lemma parse_single:
  assumes "okt s" "CHR ''-'' \<notin> set s"
  shows "ParseIPRange ver s = Ok [ParseIP s]"
  using assms by (simp add: ParseIPRange_def is_range range_text_ok_def split_on_nosep)

lemma dash_notin_mk: "CHR ''-'' \<notin> set (ip_string (mk m))"
  using sep_notin_string4 [of "CHR ''-''" "to4 (mk m)"] sep_notin_string6 [of "CHR ''-''" "mk m"] mk_wf(2) [of m]
  by (auto simp: ip_string_def)

lemma parse_pair:
  assumes "indom m" "indom n" "m \<le> n"
  shows "ParseIPRange ver (ip_string (mk m) @ ''-'' @ ip_string (mk n)) = of_loop (range_loop (mk m) (mk n))"
proof -
  have "split_on (CHR ''-'') (ip_string (mk m) @ CHR ''-'' # ip_string (mk n)) = [ip_string (mk m), ip_string (mk n)]"
    by (simp add: split_on_append split_on_nosep dash_notin_mk)
  with assms show ?thesis
    by (simp add: ParseIPRange_def is_range range_text_ok_def txt_mk cmp_mk)
qed

text \<open>Printing the runs of consecutive addresses and parsing them gives the addresses back.\<close>

lemma parse_ranges_from:
  "start + k < length ns \<Longrightarrow> \<forall>n \<in> set ns. indom n \<and> n + 1 < lim \<Longrightarrow>
     \<forall>j \<le> k. ns ! (start + j) = ns ! start + j \<Longrightarrow> (0 < k \<longrightarrow> lo \<le> ns ! start + 1) \<Longrightarrow>
     ParseIPRanges ver (ranges_from (map mk ns) start k) = Ok (map mk (drop start ns))"
proof (induction "map mk ns" start k rule: ranges_from.induct)
  case (1 start k)
  let ?s = "ns ! start" and ?e = "ns ! (start + k)"
  have "?s \<in> set ns" "?e \<in> set ns" using "1.prems"(1) by auto
  with "1.prems" have d: "indom ?s" "indom ?e" "?e = ?s + k" "?e + 1 < lim" by blast+
  show ?case
  proof (cases "start + k + 1 < length ns \<and> ip_equal (mk (ns ! (start + k + 1))) (NextIP (mk ?e))")
    case True
    then have n: "ns ! (start + k + 1) = ?e + 1" "lo \<le> ?e + 1" using next_eq "1.prems" d by auto
    have "lo \<le> ?s + 1" using "1.prems"(4) n(2) d(3) by (cases "k = 0") auto
    moreover have "\<forall>j \<le> k + 1. ns ! (start + j) = ?s + j"
      using "1.prems"(3) n(1) d(3) by (auto simp: le_Suc_eq)
    ultimately have "ParseIPRanges ver (ranges_from (map mk ns) start (k + 1)) = Ok (map mk (drop start ns))"
      using True "1.prems" by (intro "1.hyps"(1)) auto
    then show ?thesis using True "1.prems" by (subst ranges_from.simps) simp
  next
    case False
    have rest: "ParseIPRanges ver (ranges_from (map mk ns) (start + k + 1) 0) = Ok (map mk (drop (start + k + 1) ns))"
    proof (cases "start + k + 1 < length ns")
      case True
      then show ?thesis using False "1.prems" by (intro "1.hyps"(2)) auto
    next
      case F: False
      then show ?thesis by (subst ranges_from.simps) simp
    qed
    have run: "map mk (take (k + 1) (drop start ns)) = map mk [?s..<Suc ?e]"
      using "1.prems" d(3) by (intro nth_equalityI) (auto simp: less_Suc_eq_le simp del: upt_Suc)
    have "ParseIPRange ver (if k = 0 then ip_string (mk ?s) else ip_string (mk ?s) @ ''-'' @ ip_string (mk ?e)) =
        Ok (map mk (take (k + 1) (drop start ns)))"
    proof (cases "k = 0")
      case True
      then show ?thesis using parse_single [OF txt_mk [OF d(1)] dash_notin_mk] "1.prems"(1)
        by (simp add: take_Suc_conv_app_nth)
    next
      case k: False
      then show ?thesis
        using parse_pair [OF d(1,2)] range_loop_ok [OF d(1,2)] "1.prems"(4) d run by simp
    qed
    moreover have "map mk (drop start ns) = map mk (take (k + 1) (drop start ns)) @ map mk (drop (start + k + 1) ns)"
      by (metis add.assoc add.commute append_take_drop_id drop_drop map_append)
    moreover have "ranges_from (map mk ns) start k =
        (if k = 0 then ip_string (mk ?s) else ip_string (mk ?s) @ ''-'' @ ip_string (mk ?e))
        # ranges_from (map mk ns) (start + k + 1) 0"
      using False "1.prems"(1) by (subst ranges_from.simps) auto
    ultimately show ?thesis using rest by (simp only: ParseIPRanges.simps oc_bind.simps)
  qed
qed

lemma parse_ranges_sorted:
  assumes "\<forall>n \<in> set ns. indom n \<and> n + 1 < lim"
  shows "ParseIPRanges ver (ranges_from (map mk ns) 0 0) = Ok (map mk ns)"
proof (cases "ns = []")
  case True
  then show ?thesis by (simp add: ranges_from.simps)
next
  case False
  with parse_ranges_from [of 0 0 ns] assms show ?thesis by simp
qed

end


section \<open>IPv4 and IPv6 are address families\<close>

lemma IsIPRange_v4: "IsIPRange IPv4 s = (if range_text_ok gov_IsIPv4 s then Ok () else Err ErrInvalidIPRangeFormat)"
  by (auto simp: IsIPRange_def IsIPVersion_def IPv4_def IPv6_def IsIPv4IPRange_def range_text_ok_def split: list.split)

lemma IsIPRange_v6: "IsIPRange IPv6 s = (if range_text_ok gov_IsIPv6 s then Ok () else Err ErrInvalidIPRangeFormat)"
  by (auto simp: IsIPRange_def IsIPVersion_def IPv4_def IPv6_def IsIPv6IPRange_def range_text_ok_def split: list.split)

lemma NextIP_ip4:
  "m < 2 ^ 32 \<Longrightarrow> NextIP (ip4 m) = (if m + 1 < 2 ^ 24 \<or> m + 1 = 2 ^ 32 then [] else ip4 (m + 1))"
  using intToIP_nil [of "m + 1"] intToIP_v4 [of "m + 1"] by (auto simp: NextIP_def ipToInt_ip4)

lemma ip4_less: "m < 2 ^ 32 \<Longrightarrow> n < 2 ^ 32 \<Longrightarrow> m < n \<Longrightarrow> ip4 m < ip4 n"
  using v4InV6Prefix_facts
  by (intro be_val_less_lex) (auto simp: ip4_def be_val_append be_val_to_be)

lemma ip4_inj: "m < 2 ^ 32 \<Longrightarrow> n < 2 ^ 32 \<Longrightarrow> ip4 m = ip4 n \<longleftrightarrow> m = n"
  using ipToInt_ip4 by metis

lemma family_v4:
  assumes "wf_ip ip" "right_version IPv4 ip"
  shows "to16 ip = ip4 (ipToInt ip) \<and> ipToInt ip < 2 ^ 32"
proof -
  have "length ip = 4 \<or> length ip = 16" and nn: "to4 ip \<noteq> []"
    using assms by (auto simp: wf_ip_def right_version_def)
  with to4_cases have c: "length (to4 ip) = 4" "to16 ip = v4InV6Prefix @ to4 ip" "bytes (to4 ip)"
    using assms(1) by (fastforce simp: wf_ip_def)+
  have "to_be 4 (be_val (to4 ip)) = to4 ip" using c by (intro to_be_be_val) auto
  moreover have "be_val (to4 ip) < 2 ^ 32" using be_val_bound [OF c(3)] c(1) by simp
  ultimately show ?thesis using c nn by (simp add: ipToInt_def ip4_def)
qed

lemma ip_string_ip4: "ip_string (ip4 m) = string4 (to_be 4 m)"
  by (simp add: ip_string_def)

lemma ip_string_ip6: "dom6 m \<Longrightarrow> ip_string (ip6 m) = string6 (ip6 m)"
  by (simp add: ip_string_def to4_ip6)

interpretation v4: ip_family IPv4 ip4 "\<lambda>m. m < 2 ^ 32" "2 ^ 24" "2 ^ 32" gov_IsIPv4
proof (unfold_locales, goal_cases)
  case 1 show ?case by (simp add: IsIPVersion_def IPv4_def IPv6_def)
next
  case (2 s) show ?case by (rule IsIPRange_v4)
next
  case (3 s) then show ?case by (simp add: gov_IsIPv4_def)
next
  case (4 m) show ?case
    using ParseIP_ip_string [OF wf_ip4] string4_dot [of "to_be 4 m"] by (simp add: gov_IsIPv4_def ip_string_ip4)
next
  case (5 m) show ?case by simp
next
  case (6 m) show ?case by simp
next
  case (7 m) then show ?case by (rule ipToInt_ip4)
next
  case (8 m) then show ?case .
next
  case (9 m) then show ?case by (simp add: NextIP_ip4)
next
  case (10 m) then show ?case by (simp add: NextIP_ip4)
next
  case (11 x y) then show ?case
    using ip4_inj [of x "y + 1"] by (auto simp: NextIP_ip4 ip_equal_def)
next
  case (12 m n) then show ?case by (rule ip4_less)
next
  case (13 ip) then show ?case by (rule family_v4)
qed

lemma NextIP_ip6: "dom6 m \<Longrightarrow> NextIP (ip6 m) = intToIP (m + 1)"
  by (simp add: NextIP_def ipToInt_ip6)

lemma dom6_step: "2 ^ 120 \<le> m \<Longrightarrow> m < 2 ^ 128 \<Longrightarrow> dom6 m"
  by (auto simp: dom6_def)

lemma ip6_inj: "dom6 m \<Longrightarrow> dom6 n \<Longrightarrow> ip6 m = ip6 n \<longleftrightarrow> m = n"
  using ipToInt_ip6 by metis

lemma ip6_not_ip4: "dom6 m \<Longrightarrow> ip6 m \<noteq> ip4 n"
  using to4_ip6 [of m] to4_ip4 [of n] by auto

lemma ip6_next_eq:
  assumes "dom6 x" "dom6 y"
  shows "ip_equal (ip6 x) (NextIP (ip6 y)) \<longleftrightarrow> x = y + 1 \<and> 2 ^ 120 \<le> y + 1"
proof -
  have b: "x < 2 ^ 128" "y + 1 \<le> 2 ^ 128" using assms by (auto simp: dom6_def)
  consider "y + 1 < 2 ^ 24 \<or> (2 ^ 32 \<le> y + 1 \<and> y + 1 < 2 ^ 120) \<or> y + 1 = 2 ^ 128"
    | "2 ^ 24 \<le> y + 1" "y + 1 < 2 ^ 32" | "2 ^ 120 \<le> y + 1" "y + 1 < 2 ^ 128"
    using b(2) by linarith
  then show ?thesis
  proof cases
    case 1
    then have "NextIP (ip6 y) = []" using intToIP_nil [of "y + 1"] assms by (auto simp: NextIP_ip6)
    with 1 b show ?thesis by (auto simp: ip_equal_def)
  next
    case 2
    with assms show ?thesis by (simp add: NextIP_ip6 intToIP_v4 ip_equal_def ip6_not_ip4)
  next
    case 3
    then have "dom6 (y + 1)" by (rule dom6_step)
    with 3 assms ip6_inj [of x "y + 1"] show ?thesis by (simp add: NextIP_ip6 intToIP_v6 ip_equal_def)
  qed
qed

lemma family_v6:
  assumes "wf_ip ip" "right_version IPv6 ip"
  shows "to16 ip = ip6 (ipToInt ip) \<and> dom6 (ipToInt ip)"
proof -
  have t: "to4 ip = []" "length ip = 4 \<or> length ip = 16" "bytes ip"
    using assms by (auto simp: wf_ip_def right_version_def)
  with to4_cases have c: "length ip = 16" "to16 ip = ip" by fastforce+
  have "to_be 16 (be_val ip) = ip" using t c by (intro to_be_be_val) auto
  then have e: "ip6 (be_val ip) = ip" by (simp add: ip6_def)
  have b: "be_val ip < 2 ^ 128" using be_val_bound [OF t(3)] c(1) by simp
  moreover have "be_val ip div 2 ^ 32 \<noteq> 65535"
    using take12_ip6 [OF b] t(1) c(1) v4InV6Prefix_facts e by (auto simp: to4_def)
  ultimately show ?thesis using t c e by (simp add: ipToInt_def dom6_def)
qed

interpretation v6: ip_family IPv6 ip6 dom6 "2 ^ 120" "2 ^ 128" gov_IsIPv6
proof (unfold_locales, goal_cases)
  case 1 show ?case by (simp add: IsIPVersion_def IPv4_def IPv6_def)
next
  case (2 s) show ?case by (rule IsIPRange_v6)
next
  case (3 s) then show ?case by (simp add: gov_IsIPv6_def)
next
  case (4 m) then show ?case
    using ParseIP_ip_string [OF wf_ip6 [of m]] string6_colon [of "ip6 m"] by (simp add: gov_IsIPv6_def ip_string_ip6)
next
  case (5 m) show ?case by simp
next
  case (6 m) show ?case by simp
next
  case (7 m) then show ?case by (rule ipToInt_ip6)
next
  case (8 m) then show ?case by (simp add: dom6_def)
next
  case (9 m) then show ?case using dom6_step [of "m + 1"] by (simp add: NextIP_ip6 intToIP_v6)
next
  case (10 m) then show ?case by (simp add: NextIP_ip6 intToIP_nil)
next
  case (11 x y) then show ?case by (rule ip6_next_eq)
next
  case (12 m n) then show ?case
    by (intro be_val_less_lex) (auto simp: ip6_def be_val_to_be dom6_def)
next
  case (13 ip) then show ?case by (rule family_v6)
qed

end
