(* ===== verification/IPPool.thy ===== *)
theory IPPool
  imports IPRanges
begin

text \<open>
  What \<^verbatim>\<open>pkg/utils/ip\<close> computes on whole pools: addresses as keys of a map, the expansion of lists of ranges and blocks,
  and the merging of ranges, over a locale for an address family.
\<close>

section \<open>Printed addresses as map keys\<close>

lemma to4_to16: "to4 (to16 ip) = to4 ip"
  by (auto simp: to4_def to16_def)

lemma to16_idem [simp]: "to16 (to16 ip) = to16 ip"
  by (auto simp: to16_def)

lemma wf_ip_not_nil: "wf_ip ip \<Longrightarrow> ip \<noteq> []"
  by (auto simp: wf_ip_def)

lemma ip_string_to16: "wf_ip ip \<Longrightarrow> ip_string (to16 ip) = ip_string ip"
  using to4_cases [of ip] wf_ip_not_nil [of ip]
  by (auto simp: wf_ip_def ip_string_def to4_to16)

lemma ip_string_eq: "wf_ip a \<Longrightarrow> wf_ip b \<Longrightarrow> ip_string a = ip_string b \<longleftrightarrow> to16 a = to16 b"
  using ParseIP_ip_string ip_string_to16 by metis

lemma ParseIP_keys: "\<forall>ip \<in> set ips. wf_ip ip \<Longrightarrow> ParseIP ` set (map ip_string ips) = to16 ` set ips"
  by (auto simp: ParseIP_ip_string image_image)

lemma inj_on_ParseIP_keys: "\<forall>ip \<in> set ips. wf_ip ip \<Longrightarrow> inj_on ParseIP (set (map ip_string ips))"
  by (auto simp: inj_on_def ParseIP_ip_string ip_string_eq)

locale string_iteration = map_iteration ord
  for ord :: "string iter_order"
begin

lemma distinct_range_keys:
  assumes "\<forall>ip \<in> set ips. wf_ip ip" and "set ks \<subseteq> set (map ip_string ips)" and "distinct ks"
  shows "distinct (map ParseIP (ord ks))"
  using assms inj_on_ParseIP_keys [OF assms(1)]
  by (simp add: distinct_map distinct_visits set_visits inj_on_subset)

text \<open>\<^verbatim>\<open>IPsDiffSet\<close> is the difference of two sets of addresses.\<close>

lemma IPsDiffSet_spec:
  assumes "\<forall>ip \<in> set ips1. ip \<noteq> [] \<longrightarrow> wf_ip ip" "\<forall>ip \<in> set ips2. ip \<noteq> [] \<longrightarrow> wf_ip ip"
  shows "set (IPsDiffSet ord ips1 ips2 srt) = to16 ` (set ips1 - {[]}) - to16 ` (set ips2 - {[]})"
    and "distinct (IPsDiffSet ord ips1 ips2 srt)"
proof -
  let ?a = "filter (\<lambda>ip. ip \<noteq> []) ips1" and ?b = "filter (\<lambda>ip. ip \<noteq> []) ips2"
  let ?ks = "filter (\<lambda>k. k \<notin> set (map ip_string ?b)) (map_keys (map ip_string ?a))"
  have wa: "\<forall>ip \<in> set ?a. wf_ip ip" and wb: "\<forall>ip \<in> set ?b. wf_ip ip" using assms by auto
  have inj: "inj_on ParseIP (set (map ip_string (?a @ ?b)))"
    by (rule inj_on_ParseIP_keys) (use wa wb in auto)
  have "set (map ParseIP (ord ?ks)) = ParseIP ` (set (map ip_string ?a) - set (map ip_string ?b))"
    by (auto simp: set_visits)
  also have "\<dots> = ParseIP ` set (map ip_string ?a) - ParseIP ` set (map ip_string ?b)"
    by (rule inj_on_image_set_diff [OF inj]) auto
  also have "\<dots> = to16 ` set ?a - to16 ` set ?b"
    by (simp only: ParseIP_keys [OF wa] ParseIP_keys [OF wb])
  finally have "set (map ParseIP (ord ?ks)) = to16 ` set ?a - to16 ` set ?b" .
  moreover have "distinct (map ParseIP (ord ?ks))"
    by (rule distinct_range_keys [OF wa]) auto
  ultimately show "set (IPsDiffSet ord ips1 ips2 srt) = to16 ` (set ips1 - {[]}) - to16 ` (set ips2 - {[]})"
    and "distinct (IPsDiffSet ord ips1 ips2 srt)"
    by (simp_all add: IPsDiffSet_def Let_def set_diff_eq del: set_map)
qed

end

interpretation insertion_strings: string_iteration "\<lambda>ks. ks"
  by unfold_locales

interpretation reverse_strings: string_iteration rev
  by unfold_locales

section \<open>Maps from printed addresses to addresses\<close>

definition keyed :: "(string \<times> netip) list \<Rightarrow> bool" where
  "keyed m = (distinct (map fst m) \<and> (\<forall>k v. map_of m k = Some v \<longrightarrow> k = ip_string v \<and> wf_ip v))"

lemma keyed_update:
  assumes "keyed m" "wf_ip v"
  shows "keyed (AList.update (ip_string v) v m)"
    and "to16 ` ran (map_of (AList.update (ip_string v) v m)) = insert (to16 v) (to16 ` ran (map_of m))"
proof -
  show "keyed (AList.update (ip_string v) v m)"
    using assms by (simp add: keyed_def AList.distinct_update AList.update_conv')
  have "to16 w = to16 v" if "map_of m (ip_string v) = Some w" for w
    using that assms ip_string_eq unfolding keyed_def by metis
  then show "to16 ` ran (map_of (AList.update (ip_string v) v m)) = insert (to16 v) (to16 ` ran (map_of m))"
    by (auto simp: AList.update_conv' ran_def image_iff) metis+
qed

lemma put_ips_spec:
  assumes "keyed m" "\<forall>ip \<in> set ips. wf_ip ip"
  shows "keyed (put_ips ips m) \<and> to16 ` ran (map_of (put_ips ips m)) = to16 ` set ips \<union> to16 ` ran (map_of m)"
  using assms
proof (induction ips arbitrary: m)
  case (Cons ip ips)
  then show ?case using keyed_update [of m ip] by (simp add: put_ips_def)
qed (simp add: put_ips_def)

lemma keyed_ran_wf: "keyed m \<Longrightarrow> v \<in> ran (map_of m) \<Longrightarrow> wf_ip v"
  by (auto simp: keyed_def ran_def)

lemma keyed_Nil [simp]: "keyed []"
  by (simp add: keyed_def)

section \<open>Everything the parsers return is well formed\<close>

lemma NextIP_wf: "NextIP ip \<noteq> [] \<Longrightarrow> wf_ip (NextIP ip)"
proof -
  have "bytes (be_bytes n)" for n
    by (induction n rule: be_bytes.induct) (subst be_bytes.simps, auto)
  then show "NextIP ip \<noteq> [] \<Longrightarrow> wf_ip (NextIP ip)"
    using v4InV6Prefix_facts
    by (auto simp: NextIP_def intToIP_def to16_def wf_ip_def split: if_splits)
qed

lemma range_loop_wf:
  assumes "range_loop cur e = Some ips" "wf_ip cur"
  shows "\<forall>ip \<in> set ips. wf_ip ip"
proof -
  have "cur = [] \<or> wf_ip cur \<longrightarrow> range_loop cur e = Some ips \<longrightarrow> (\<forall>ip \<in> set ips. wf_ip ip)"
  proof (rule range_loop.raw_induct [where P = "\<lambda>cur e ips. cur = [] \<or> wf_ip cur \<longrightarrow>
      range_loop cur e = Some ips \<longrightarrow> (\<forall>ip \<in> set ips. wf_ip ip)", OF _ assms(1)], intro impI)
    fix f :: "netip \<Rightarrow> netip \<Rightarrow> netip list option" and cur e ips
    assume IH: "\<And>cur e ips. f cur e = Some ips \<Longrightarrow> cur = [] \<or> wf_ip cur \<longrightarrow>
          range_loop cur e = Some ips \<longrightarrow> (\<forall>ip \<in> set ips. wf_ip ip)"
      and eq: "(if Cmp cur e \<le> 0 then Option.bind (f (NextIP cur) e) (\<lambda>ips. Some (cur # ips)) else Some []) = Some ips"
      and c: "cur = [] \<or> wf_ip cur" and r: "range_loop cur e = Some ips"
    have "wf_ip cur" using c r range_loop_nil by auto
    show "\<forall>ip \<in> set ips. wf_ip ip"
    proof (cases "Cmp cur e \<le> 0")
      case True
      then obtain t where t: "f (NextIP cur) e = Some t" "ips = cur # t"
        using eq by (auto simp: Option.bind_eq_Some_conv)
      have "range_loop (NextIP cur) e = Some t"
        using r t(2) True by (simp add: range_loop.simps [of cur] Option.bind_eq_Some_conv)
      then have "\<forall>ip \<in> set t. wf_ip ip" using IH [OF t(1)] NextIP_wf by blast
      with t(2) \<open>wf_ip cur\<close> show ?thesis by simp
    next
      case False
      with eq show ?thesis by simp
    qed
  qed
  with assms show ?thesis by blast
qed

lemma length_inc_rev [simp]: "length (inc_rev bs) = length bs"
  by (induction bs) (auto simp: Let_def)

lemma bytes_inc_rev: "bytes bs \<Longrightarrow> bytes (inc_rev bs)"
  by (induction bs) (auto simp: Let_def)

lemma incrementIP_wf: "wf_ip ip \<Longrightarrow> wf_ip (incrementIP ip)"
  using bytes_inc_rev [of "rev ip"] by (auto simp: wf_ip_def incrementIP_def)

lemma cidr_loop_wf:
  assumes "cidr_loop n ip = Some ips" "wf_ip ip"
  shows "\<forall>v \<in> set ips. wf_ip v"
proof -
  have "wf_ip ip \<longrightarrow> (\<forall>v \<in> set ips. wf_ip v)"
  proof (rule cidr_loop.raw_induct [where P = "\<lambda>n ip ips. wf_ip ip \<longrightarrow> (\<forall>v \<in> set ips. wf_ip v)", OF _ assms(1)], intro impI)
    fix f :: "ipnet \<Rightarrow> netip \<Rightarrow> netip list option" and n ip ips
    assume IH: "\<And>n ip ips. f n ip = Some ips \<Longrightarrow> wf_ip ip \<longrightarrow> (\<forall>v \<in> set ips. wf_ip v)"
      and eq: "(if ipnet_contains n ip then Option.bind (f n (incrementIP ip)) (\<lambda>ips. Some (ip # ips)) else Some []) = Some ips"
      and w: "wf_ip ip"
    show "\<forall>v \<in> set ips. wf_ip v"
    proof (cases "ipnet_contains n ip")
      case True
      then obtain t where t: "f n (incrementIP ip) = Some t" "ips = ip # t"
        using eq by (auto simp: Option.bind_eq_Some_conv)
      then show ?thesis using IH [OF t(1)] w incrementIP_wf [OF w] by simp
    qed (use eq in simp)
  qed
  with assms(2) show ?thesis by simp
qed

lemma band_le: "band a b \<le> a"
  using AND_upper1 [of "int a" "int b"] by (simp add: band_def flip: of_nat_and_eq)

lemma bytes_map2_band: "bytes xs \<Longrightarrow> bytes (map2 band xs ys)"
proof (induction xs arbitrary: ys)
  case (Cons x xs)
  then show ?case using band_le [of x] by (cases ys) (auto intro: le_less_trans)
qed simp

lemma length_CIDRMask [simp]: "length (CIDRMask n b) = b div 8"
  by (simp add: CIDRMask_def)

lemma parse_addr_cases:
  assumes "parse_addr s = Some a"
  obtains (v4) b where "a = Addr4 b" "length b = 4" "bytes b"
    | (v6) b where "a = Addr6 b" "length b = 16" "bytes b"
  using assms parse_ipv4_fields_wf [of s] parse_ipv6_wf [of s]
  by (auto simp: parse_addr_def split: if_splits option.splits)

lemma ip_mask_v4: "length b = 4 \<Longrightarrow> length m = 4 \<Longrightarrow> ip_mask (v4InV6Prefix @ b) m = map2 band b m"
  by (simp add: ip_mask_def)

lemma ip_mask_same: "length b = 16 \<Longrightarrow> length m = 16 \<Longrightarrow> ip_mask b m = map2 band b m"
  by (simp add: ip_mask_def)

lemma ParseCIDR_wf:
  assumes "ParseCIDR s = Some (ip, n)"
  shows "wf_ip (ip_mask ip (net_mask n))"
proof -
  obtain ad m k where ad: "parse_addr (takeWhile (\<lambda>c. c \<noteq> CHR ''/'') s) = Some ad" "ip = as16 ad"
      and n: "net_mask n = CIDRMask k (bit_len ad)"
    using assms by (auto simp: ParseCIDR_def Let_def split: if_splits option.splits)
  from ad(1) show ?thesis
  proof (cases rule: parse_addr_cases)
    case (v4 b)
    then show ?thesis using bytes_map2_band [of b] by (auto simp: ad n ip_mask_v4 wf_ip_def)
  next
    case (v6 b)
    then show ?thesis using bytes_map2_band [of b] by (auto simp: ad n ip_mask_same wf_ip_def)
  qed
qed

lemma CidrToIPs_wf:
  assumes "CidrToIPs c = Ok ips"
  shows "\<forall>v \<in> set ips. wf_ip v"
proof -
  obtain ip n all where c: "ParseCIDR c = Some (ip, n)" "cidr_loop n (ip_mask ip (net_mask n)) = Some all"
      and ips: "ips = (if 2 < length all \<and> isIPv4 ip then butlast (tl all) else all)"
    using assms by (auto simp: CidrToIPs_def split: option.splits)
  have "\<forall>v \<in> set all. wf_ip v" using cidr_loop_wf [OF c(2)] ParseCIDR_wf [OF c(1)] by simp
  moreover have "set ips \<subseteq> set all"
    by (cases all) (auto simp: ips dest: in_set_butlastD)
  ultimately show ?thesis by blast
qed

lemma ParseIPRange_wf:
  assumes "ParseIPRange ver s = Ok ips"
  shows "\<forall>v \<in> set ips. wf_ip v"
proof -
  have r: "IsIPRange ver s = Ok ()" using assms by (auto simp: ParseIPRange_def)
  then have "ver = IPv4 \<or> ver = IPv6"
    by (auto simp: IsIPRange_def IsIPVersion_def split: if_splits)
  then have ok: "range_text_ok (\<lambda>t. ParseIP t \<noteq> []) s"
    using r by (auto simp: IsIPRange_v4 IsIPRange_v6 range_text_ok_def gov_IsIPv4_def gov_IsIPv6_def
        split: if_splits list.splits)
  then consider (one) a where "split_on (CHR ''-'') s = [a]" "ParseIP a \<noteq> []"
    | (two) a b where "split_on (CHR ''-'') s = [a, b]" "ParseIP a \<noteq> []"
    by (auto simp: range_text_ok_def split: list.splits)
  then show ?thesis
  proof cases
    case one
    with assms r ParseIP_wf [of a] show ?thesis by (auto simp: ParseIPRange_def)
  next
    case two
    with assms r range_loop_wf ParseIP_wf [of a] show ?thesis by (auto simp: ParseIPRange_def)
  qed
qed

lemma ParseIPRanges_wf: "ParseIPRanges ver rs = Ok ips \<Longrightarrow> \<forall>v \<in> set ips. wf_ip v"
proof (induction rs arbitrary: ips)
  case (Cons r rs)
  then show ?case using ParseIPRange_wf by fastforce
qed simp

section \<open>Address pools\<close>

context string_iteration
begin

lemma set_range_put_ips:
  assumes "keyed m" "\<forall>v \<in> set ips. wf_ip v"
  shows "to16 ` set (range_values ord (put_ips ips m)) = to16 ` set ips \<union> to16 ` ran (map_of m)"
    and "\<forall>v \<in> set (range_values ord (put_ips ips m)). wf_ip v"
  using put_ips_spec [OF assms] keyed_ran_wf by (auto simp: set_range_values)

lemma distinct_range_values:
  assumes "keyed m"
  shows "distinct (map to16 (range_values ord m))"
proof -
  have v: "\<exists>v. map_of m k = Some v \<and> to16 v = ParseIP k" if dom: "k \<in> set (map fst m)" for k
  proof -
    obtain v where k: "map_of m k = Some v" using dom by (cases "map_of m k") (auto simp: map_of_eq_None_iff)
    then have "k = ip_string v" "wf_ip v" using assms by (auto simp: keyed_def)
    then have "ParseIP k = to16 v" using ParseIP_ip_string by blast
    with k show ?thesis by force
  qed
  have "map to16 (List.map_filter (map_of m) ks) = map ParseIP ks" if "set ks \<subseteq> set (map fst m)" for ks
    using that
  proof (induction ks)
    case (Cons k ks)
    obtain w where w: "map_of m k = Some w" "to16 w = ParseIP k" using v [of k] Cons.prems by auto
    then show ?case using Cons by (simp add: List.map_filter_def)
  qed (simp add: List.map_filter_def)
  then have e: "map to16 (range_values ord m) = map ParseIP (ord (map fst m))"
    by (simp add: range_values_def set_visits)
  show ?thesis unfolding e
  proof (rule distinct_range_keys)
    show "\<forall>ip \<in> set (List.map_filter (map_of m) (map fst m)). wf_ip ip"
      using assms by (auto simp: set_map_filter keyed_def)
    show "set (map fst m) \<subseteq> set (map ip_string (List.map_filter (map_of m) (map fst m)))"
    proof
      fix k assume k: "k \<in> set (map fst m)"
      then obtain w where "map_of m k = Some w" using v by blast
      moreover from this have "k = ip_string w" using assms by (simp add: keyed_def)
      moreover have "w \<in> set (List.map_filter (map_of m) (map fst m))"
        unfolding set_map_filter using k calculation(1) by blast
      ultimately show "k \<in> set (map ip_string (List.map_filter (map_of m) (map fst m)))" by simp
    qed
    show "distinct (map fst m)" using assms by (simp add: keyed_def)
  qed
qed

lemma CidrsToIPs_spec:
  assumes "CidrsToIPs ord cs = Ok ips"
  shows "\<exists>ipss. list_all2 (\<lambda>c l. CidrToIPs c = Ok l) cs ipss \<and> to16 ` set ips = to16 ` set (concat ipss) \<and>
           (\<forall>v \<in> set ips. wf_ip v)"
proof -
  obtain ipss where l: "list_all2 (\<lambda>c l. CidrToIPs c = Ok l) cs ipss"
      and ips: "ips = range_values ord (put_ips (concat ipss) [])"
    using assms by (auto simp: CidrsToIPs_def oc_mapM_eq_Ok)
  have "\<forall>v \<in> set (concat ipss). wf_ip v"
    using l CidrToIPs_wf by (induction rule: list_all2_induct) auto
  with set_range_put_ips [OF keyed_Nil this] l show ?thesis by (auto simp: ips)
qed

text \<open>The addresses of a pool: those of its ranges and those of its CIDR blocks.\<close>

lemma Convert_spec:
  assumes "ConvertCidrOrIPrangeToIPs ord pool ver = Ok ips"
  shows "\<exists>rips ipss. ParseIPRanges ver (filter (\<lambda>v. \<not> is_cidr v) pool) = Ok rips \<and>
           list_all2 (\<lambda>c l. CidrToIPs c = Ok l) (filter is_cidr pool) ipss \<and>
           to16 ` set ips = to16 ` (set rips \<union> set (concat ipss))"
    and "\<forall>v \<in> set ips. wf_ip v"
proof -
  obtain rips cips where r: "ParseIPRanges ver (filter (\<lambda>v. \<not> is_cidr v) pool) = Ok rips"
      and c: "CidrsToIPs ord (filter is_cidr pool) = Ok cips"
      and ips: "ips = range_values ord (put_ips cips (put_ips rips []))"
    using assms by (auto simp: ConvertCidrOrIPrangeToIPs_def Let_def)
  obtain ipss where l: "list_all2 (\<lambda>c l. CidrToIPs c = Ok l) (filter is_cidr pool) ipss"
      and e: "to16 ` set cips = to16 ` set (concat ipss)" and w: "\<forall>v \<in> set cips. wf_ip v"
    using CidrsToIPs_spec [OF c] by blast
  have p: "keyed (put_ips rips [])" "to16 ` ran (map_of (put_ips rips [])) = to16 ` set rips"
    using put_ips_spec [OF keyed_Nil ParseIPRanges_wf [OF r]] by auto
  note s = set_range_put_ips [OF p(1) w]
  show "\<forall>v \<in> set ips. wf_ip v" using s(2) by (simp add: ips)
  have "to16 ` set ips = to16 ` set (concat ipss) \<union> to16 ` set rips" using s(1) by (simp add: ips e p(2))
  then show "\<exists>rips ipss. ParseIPRanges ver (filter (\<lambda>v. \<not> is_cidr v) pool) = Ok rips \<and>
           list_all2 (\<lambda>c l. CidrToIPs c = Ok l) (filter is_cidr pool) ipss \<and>
           to16 ` set ips = to16 ` (set rips \<union> set (concat ipss))"
    using r l by (auto simp: image_Un)
qed

lemma Convert_distinct:
  assumes "ConvertCidrOrIPrangeToIPs ord pool ver = Ok ips"
  shows "distinct (map to16 ips)"
proof -
  obtain rips cips where r: "ParseIPRanges ver (filter (\<lambda>v. \<not> is_cidr v) pool) = Ok rips"
      and c: "CidrsToIPs ord (filter is_cidr pool) = Ok cips"
      and ips: "ips = range_values ord (put_ips cips (put_ips rips []))"
    using assms by (auto simp: ConvertCidrOrIPrangeToIPs_def Let_def)
  have "keyed (put_ips rips [])" using put_ips_spec [OF keyed_Nil ParseIPRanges_wf [OF r]] by blast
  then have "keyed (put_ips cips (put_ips rips []))" using put_ips_spec CidrsToIPs_spec [OF c] by blast
  then show ?thesis unfolding ips by (rule distinct_range_values)
qed

end

locale ip_pool = ip_family ver mk indom lo lim okt + string_iteration ord
  for ver mk indom lo lim okt ord
begin

definition pool_nums :: "netip list \<Rightarrow> nat list" where
  "pool_nums ips = sorted_list_of_set (ipToInt ` set ips)"

lemma pool_nums_dom: "\<forall>ip \<in> set ips. wf_ip ip \<and> right_version ver ip \<Longrightarrow> n \<in> set (pool_nums ips) \<Longrightarrow> indom n"
  using family by (auto simp: pool_nums_def)

lemma sorted_mk: "sorted ns \<Longrightarrow> \<forall>n \<in> set ns. indom n \<Longrightarrow> sorted (map mk ns)"
proof (induction ns)
  case (Cons n ns)
  then have "mk n \<le> mk m" if "m \<in> set ns" for m
    using that less [of n m] by (cases "n = m") (auto simp: order.strict_iff_order)
  with Cons show ?case by auto
qed simp

lemma sort_keys:
  assumes "\<forall>ip \<in> set ips. wf_ip ip \<and> right_version ver ip"
  shows "sort_key to16 (map ParseIP (ord (map_keys (map ip_string ips)))) = map mk (pool_nums ips)"
proof -
  let ?xs = "map ParseIP (ord (map_keys (map ip_string ips)))"
  have w: "\<forall>ip \<in> set ips. wf_ip ip" using assms by blast
  have set: "set ?xs = mk ` ipToInt ` set ips"
  proof -
    have "set ?xs = to16 ` set ips" using ParseIP_keys [OF w] by (simp add: set_visits)
    also have "\<dots> = (\<lambda>ip. mk (ipToInt ip)) ` set ips" by (rule image_cong) (use assms family in auto)
    finally show ?thesis by (simp add: image_image)
  qed
  have "distinct ?xs" by (rule distinct_range_keys [OF w]) auto
  moreover have id: "map to16 (sort_key to16 ?xs) = sort_key to16 ?xs"
    by (rule map_idI) (use set in auto)
  have "sorted (map to16 (sort_key to16 ?xs))" by (rule sorted_sort_key)
  then have "sorted (sort_key to16 ?xs)" by (simp only: id)
  moreover have d: "\<forall>n \<in> set (pool_nums ips). indom n" using pool_nums_dom [OF assms] by blast
  moreover have "distinct (map mk (pool_nums ips))"
    using d num by (auto simp: distinct_map pool_nums_def inj_on_def) metis
  ultimately show ?thesis using sorted_mk [of "pool_nums ips"] set
    by (intro sorted_distinct_set_unique) (auto simp: pool_nums_def)
qed

lemma Convert_ranges:
  assumes "\<forall>ip \<in> set ips. wf_ip ip \<and> right_version ver ip"
  shows "ConvertIPsToIPRanges ord ver ips = Ok (ranges_from (map mk (pool_nums ips)) 0 0)"
  using assms sort_keys [OF assms] version_ok
  by (auto simp: ConvertIPsToIPRanges_def right_version_def list_ex_iff)

lemma Convert_ranges_version:
  "ConvertIPsToIPRanges ord ver ips = Ok rs \<Longrightarrow> \<forall>ip \<in> set ips. right_version ver ip"
  by (auto simp: ConvertIPsToIPRanges_def right_version_def list_ex_iff split: if_splits)

text \<open>Merging a pool and parsing the result gives its addresses, each once and in order.\<close>

lemma merge_parse:
  assumes "ConvertCidrOrIPrangeToIPs ord pool ver = Ok ips" "MergeIPRanges ord ver pool = Ok rs"
    and "\<forall>ip \<in> set ips. ipToInt ip + 1 < lim"
  shows "ParseIPRanges ver rs = Ok (map mk (pool_nums ips))"
    and "set (map mk (pool_nums ips)) = to16 ` set ips"
proof -
  have c: "ConvertIPsToIPRanges ord ver ips = Ok rs" using assms(1,2) by (simp add: MergeIPRanges_def)
  then have f: "\<forall>ip \<in> set ips. wf_ip ip \<and> right_version ver ip"
    using Convert_spec(2) [OF assms(1)] Convert_ranges_version by blast
  with c have "rs = ranges_from (map mk (pool_nums ips)) 0 0" by (simp add: Convert_ranges)
  moreover have "\<forall>n \<in> set (pool_nums ips). indom n \<and> n + 1 < lim"
    using pool_nums_dom [OF f] assms(3) by (auto simp: pool_nums_def)
  ultimately show "ParseIPRanges ver rs = Ok (map mk (pool_nums ips))" by (simp add: parse_ranges_sorted)
  show "set (map mk (pool_nums ips)) = to16 ` set ips"
    using f family by (force simp: pool_nums_def)
qed

lemma diff_single:
  assumes "wf_ip ip" "\<forall>v \<in> set ips. wf_ip v"
  shows "length (IPsDiffSet ord [ip] ips False) < 1 \<longleftrightarrow> to16 ip \<in> to16 ` set ips"
proof -
  have "ip \<noteq> []" "[] \<notin> set ips" using assms wf_ip_not_nil by metis+
  then have "set [ip] - {[]} = {ip}" "set ips - {[]} = set ips" by auto
  moreover have "set (IPsDiffSet ord [ip] ips False) = to16 ` (set [ip] - {[]}) - to16 ` (set ips - {[]})"
    by (rule IPsDiffSet_spec(1)) (simp_all add: assms)
  ultimately have "set (IPsDiffSet ord [ip] ips False) = {to16 ip} - to16 ` set ips"
    by (simp only: image_insert image_empty)
  then have "set (IPsDiffSet ord [ip] ips False) = {} \<longleftrightarrow> to16 ip \<in> to16 ` set ips"
    by (simp only: Diff_eq_empty_iff insert_subset empty_subsetI simp_thms)
  moreover have "length xs < 1 \<longleftrightarrow> set xs = {}" for xs :: "netip list" by (cases xs) auto
  ultimately show ?thesis by (simp only:)
qed

lemma parse_okt:
  assumes "okt s" "CHR ''-'' \<notin> set s"
  shows "IsIPRange ver s = Ok ()" "ParseIPRange ver s = Ok [ParseIP s]" "wf_ip (ParseIP s)" "to16 (ParseIP s) = ParseIP s"
  using assms parse_single ParseIP_wf [of s] txt_parse
  by (auto simp: is_range range_text_ok_def split_on_nosep to16_def)

lemma any_overlap_spec:
  assumes "okt s" "CHR ''-'' \<notin> set s"
  shows "ParseIPRanges ver items = Ok all \<Longrightarrow> any_overlap ord ver s items = Ok (ParseIP s \<in> to16 ` set all)"
proof (induction items arbitrary: all)
  case (Cons item items)
  then obtain ips rest where p: "ParseIPRange ver item = Ok ips" "ParseIPRanges ver items = Ok rest" "all = ips @ rest"
    by auto
  have "IsIPRange ver item = Ok ()" using p(1) by (auto simp: ParseIPRange_def)
  then have "IsIPRangeOverlap ord ver s item = Ok (ParseIP s \<in> to16 ` set ips)"
    using p(1) parse_okt [OF assms] diff_single [OF _ ParseIPRange_wf [OF p(1)], of "ParseIP s"] version_ok
    by (simp add: IsIPRangeOverlap_def)
  with Cons.IH [OF p(2)] show ?case by (auto simp: p(3))
qed simp

text \<open>\<^verbatim>\<open>IsIPIncludedRange\<close> decides membership in the addresses of the pool.\<close>

lemma included_range:
  assumes "okt s" "CHR ''-'' \<notin> set s"
    and "ConvertCidrOrIPrangeToIPs ord pool ver = Ok ips" "\<forall>ip \<in> set ips. right_version ver ip \<and> ipToInt ip + 1 < lim"
  shows "IsIPIncludedRange ord ver s pool = Ok (ParseIP s \<in> to16 ` set ips)"
proof -
  have "MergeIPRanges ord ver pool = Ok (ranges_from (map mk (pool_nums ips)) 0 0)"
    using assms(3,4) Convert_spec(2) [OF assms(3)] by (simp add: MergeIPRanges_def Convert_ranges)
  moreover note p = merge_parse [OF assms(3) this]
  have "any_overlap ord ver s (ranges_from (map mk (pool_nums ips)) 0 0) = Ok (ParseIP s \<in> to16 ` to16 ` set ips)"
    using any_overlap_spec [OF assms(1,2) p(1)] p(2) assms(4) by simp
  ultimately show ?thesis by (simp add: IsIPIncludedRange_def image_image)
qed

text \<open>The merged ranges of a pool are a pool with the same addresses.\<close>

lemma slash_notin_mk: "CHR ''/'' \<notin> set (ip_string (mk m))"
  using sep_notin_string4 [of "CHR ''/''" "to4 (mk m)"] sep_notin_string6 [of "CHR ''/''" "mk m"] mk_wf(2) [of m]
  by (auto simp: ip_string_def)

lemma ranges_from_no_slash:
  "start + k < length ns \<or> length ns \<le> start \<Longrightarrow> r \<in> set (ranges_from (map mk ns) start k) \<Longrightarrow> CHR ''/'' \<notin> set r"
proof (induction "map mk ns" start k rule: ranges_from.induct)
  case (1 start k)
  show ?case
  proof (cases "length ns \<le> start")
    case True
    then show ?thesis using "1.prems"(2) by (simp add: ranges_from.simps)
  next
    case False
    let ?next = "start + k + 1 < length ns \<and> ip_equal (map mk ns ! (start + k + 1)) (NextIP (map mk ns ! (start + k)))"
    show ?thesis
    proof (cases ?next)
      case True
      have "ranges_from (map mk ns) start k = ranges_from (map mk ns) start (k + 1)"
        by (subst ranges_from.simps) (simp only: length_map if_not_P [OF False] if_P [OF True])
      then have r: "r \<in> set (ranges_from (map mk ns) start (k + 1))" using "1.prems"(2) by simp
      have "start + (k + 1) < length ns" using True by simp
      then show ?thesis
        using "1.hyps"(1) [unfolded length_map, OF False True _ r] by blast
    next
      case nx: False
      have sk: "start + k < length ns" "start < length ns" using "1.prems"(1) False by auto
      have "ranges_from (map mk ns) start k =
          (if k = 0 then ip_string (map mk ns ! start)
           else ip_string (map mk ns ! start) @ ''-'' @ ip_string (map mk ns ! (start + k)))
          # ranges_from (map mk ns) (start + k + 1) 0"
        by (subst ranges_from.simps) (simp only: length_map if_not_P [OF False] if_not_P [OF nx])
      then consider "r = ip_string (mk (ns ! start))" | "r = ip_string (mk (ns ! start)) @ ''-'' @ ip_string (mk (ns ! (start + k)))"
        | "r \<in> set (ranges_from (map mk ns) (start + k + 1) 0)"
        using "1.prems"(2) sk by (auto split: if_splits)
      then show ?thesis
      proof cases
        case 3
        then show ?thesis using "1.hyps"(2) [unfolded length_map, OF False nx] by fastforce
      qed (use slash_notin_mk in auto)
    qed
  qed
qed

lemma CidrsToIPs_Nil [simp]: "CidrsToIPs ord [] = Ok []"
proof -
  have "ord [] = []" using length_visits [of "[]"] by simp
  then show ?thesis by (simp add: CidrsToIPs_def put_ips_def range_values_def List.map_filter_def)
qed

lemma merged_pool:
  assumes "ConvertCidrOrIPrangeToIPs ord pool ver = Ok ips" "MergeIPRanges ord ver pool = Ok rs"
    and "\<forall>ip \<in> set ips. ipToInt ip + 1 < lim"
  shows "\<exists>ips'. ConvertCidrOrIPrangeToIPs ord rs ver = Ok ips' \<and> to16 ` set ips' = to16 ` set ips \<and>
    (\<forall>ip \<in> set ips'. right_version ver ip \<and> ipToInt ip + 1 < lim)"
proof -
  have c: "ConvertIPsToIPRanges ord ver ips = Ok rs" using assms(1,2) by (simp add: MergeIPRanges_def)
  have f: "\<forall>ip \<in> set ips. wf_ip ip \<and> right_version ver ip"
    using Convert_spec(2) [OF assms(1)] Convert_ranges_version [OF c] by blast
  with c have rs: "rs = ranges_from (map mk (pool_nums ips)) 0 0" by (simp add: Convert_ranges)
  have "\<not> is_cidr r" if "r \<in> set rs" for r
    using ranges_from_no_slash [of 0 0 "pool_nums ips" r] that rs by (auto simp: is_cidr_def ParseCIDR_def)
  then have fl: "filter (\<lambda>v. \<not> is_cidr v) rs = rs" "filter is_cidr rs = []" by (auto simp: filter_empty_conv filter_id_conv)
  note p = merge_parse [OF assms]
  then obtain ips' where i: "ConvertCidrOrIPrangeToIPs ord rs ver = Ok ips'"
    by (simp add: ConvertCidrOrIPrangeToIPs_def fl)
  then have w: "\<forall>v \<in> set ips'. wf_ip v" and s: "to16 ` set ips' = to16 ` set (map mk (pool_nums ips))"
    using Convert_spec [OF i] p(1) by (auto simp: fl)
  have e: "to16 ` set ips' = to16 ` set ips" using s p(2) by (simp add: image_image)
  have "right_version ver ip \<and> ipToInt ip + 1 < lim" if ip: "ip \<in> set ips'" for ip
  proof -
    obtain v where v: "v \<in> set ips" "to16 ip = to16 v" using ip e by (metis imageE image_eqI)
    have "to4 ip = to4 v" using v(2) to4_to16 by metis
    then have "ipToInt ip = ipToInt v" "right_version ver ip = right_version ver v"
      using v(2) by (simp_all add: ipToInt_def right_version_def)
    then show ?thesis using f assms(3) v(1) by simp
  qed
  then show ?thesis using i e by blast
qed

text \<open>A single address that is accepted as part of the merged ranges is an address of the pool.\<close>

lemma included_merged:
  assumes "ConvertCidrOrIPrangeToIPs ord pool ver = Ok ips" "MergeIPRanges ord ver pool = Ok rs"
    and "\<forall>ip \<in> set ips. ipToInt ip + 1 < lim" "CHR ''-'' \<notin> set s" "IsIPIncludedRange ord ver s rs = Ok True"
  shows "ParseIP s \<in> to16 ` set ips"
proof -
  obtain ips' where i: "ConvertCidrOrIPrangeToIPs ord rs ver = Ok ips'" "to16 ` set ips' = to16 ` set ips"
      "\<forall>ip \<in> set ips'. right_version ver ip \<and> ipToInt ip + 1 < lim" using merged_pool [OF assms(1-3)] by blast
  obtain items where "any_overlap ord ver s items = Ok True" using assms(5) by (auto simp: IsIPIncludedRange_def)
  then have "IsIPRange ver s = Ok ()" by (cases items) (auto simp: IsIPRangeOverlap_def)
  then have "okt s" using assms(4) by (auto simp: is_range range_text_ok_def split_on_nosep split: if_splits)
  then show ?thesis using included_range [OF _ assms(4) i(1,3)] assms(5) i(2) by simp
qed

end

interpretation v4_insertion: ip_pool IPv4 ip4 "\<lambda>m. m < 2 ^ 32" "2 ^ 24" "2 ^ 32" gov_IsIPv4 "\<lambda>ks. ks"
  by unfold_locales

interpretation v6_insertion: ip_pool IPv6 ip6 dom6 "2 ^ 120" "2 ^ 128" gov_IsIPv6 "\<lambda>ks. ks"
  by unfold_locales

end
