(* ===== verification/IPCidr.thy ===== *)
theory IPCidr
  imports IPPool
begin

text \<open>The addresses of an IPv4 CIDR block.\<close>

lemma band_mask_byte:
  assumes "b < 256" "k \<le> 8"
  shows "band b (mask_byte k) = b div 2 ^ (8 - k) * 2 ^ (8 - k)"
proof -
  let ?j = "8 - k"
  have m: "mask_byte k = push_bit ?j (mask k)"
  proof (cases "8 \<le> k")
    case True
    with assms(2) have "k = 8" by simp
    then show ?thesis by (simp add: mask_byte_def mask_eq_exp_minus_1)
  next
    case False
    then have "(2::nat) ^ 8 = 2 ^ k * 2 ^ ?j" by (simp flip: power_add)
    then show ?thesis using False by (simp add: mask_byte_def push_bit_eq_mult mask_eq_exp_minus_1 algebra_simps)
  qed
  have "and b (push_bit ?j (mask k)) = push_bit ?j (drop_bit ?j b)"
  proof (rule bit_eqI)
    fix i
    have "take_bit 8 b = b" using assms(1) by (simp add: take_bit_nat_eq_self_iff)
    then have "bit b i \<Longrightarrow> i < 8" by (metis bit_take_bit_iff)
    then show "bit (and b (push_bit ?j (mask k))) i = bit (push_bit ?j (drop_bit ?j b)) i"
      using assms(2) by (auto simp: bit_and_iff bit_push_bit_iff bit_mask_iff bit_drop_bit_eq)
  qed
  then show ?thesis by (simp add: band_def m push_bit_eq_mult drop_bit_eq_div)
qed


lemma CIDRMask_Cons: "CIDRMask n (8 + 8 * k) = mask_byte n # CIDRMask (n - 8) (8 * k)"
proof -
  have "[0..<Suc k] = 0 # map Suc [0..<k]" by (simp add: upt_conv_Cons map_Suc_upt del: upt_Suc)
  then show ?thesis by (simp add: CIDRMask_def comp_def del: upt_Suc)
qed

lemma be_val_band:
  "bytes xs \<Longrightarrow> n \<le> 8 * length xs \<Longrightarrow>
     be_val (map2 band xs (CIDRMask n (8 * length xs))) =
       be_val xs div 2 ^ (8 * length xs - n) * 2 ^ (8 * length xs - n)"
proof (induction xs arbitrary: n)
  case (Cons a as)
  let ?k = "length as"
  have p: "(256::nat) ^ ?k = 2 ^ (8 * ?k)" by (simp add: power_mult)
  have v: "be_val as < 2 ^ (8 * ?k)" using be_val_bound [of as] Cons.prems p by simp
  have a: "a < 256" and b: "bytes as" using Cons.prems by auto
  have e: "be_val (map2 band (a # as) (CIDRMask n (8 * length (a # as)))) =
      band a (mask_byte n) * 2 ^ (8 * ?k) + be_val (map2 band as (CIDRMask (n - 8) (8 * ?k)))"
    using CIDRMask_Cons [of n ?k] by (simp add: be_val_Cons p)
  show ?case
  proof (cases "8 \<le> n")
    case True
    define d where "d = 8 * ?k - (n - 8)"
    have d: "8 * length (a # as) - n = d" "d \<le> 8 * ?k" using True by (auto simp: d_def)
    have "band a (mask_byte n) = a" using band_mask_byte [OF a, of 8] True by (simp add: mask_byte_def)
    moreover have "be_val (map2 band as (CIDRMask (n - 8) (8 * ?k))) = be_val as div 2 ^ d * 2 ^ d"
      unfolding d_def by (rule Cons.IH) (use Cons.prems in auto)
    moreover have "a * 2 ^ (8 * ?k) = a * 2 ^ (8 * ?k - d) * 2 ^ d"
      using d(2) by (simp flip: power_add)
    moreover have "be_val (a # as) = a * 2 ^ (8 * ?k - d) * 2 ^ d + be_val as"
      using calculation(3) by (simp add: be_val_Cons p)
    moreover have "(x * 2 ^ d + y) div 2 ^ d * 2 ^ d = x * 2 ^ d + y div 2 ^ d * 2 ^ d" for x y :: nat
      by (simp add: add_mult_distrib)
    ultimately show ?thesis unfolding d(1) e by simp
  next
    case False
    have z: "be_val (map2 band as (CIDRMask 0 (8 * ?k))) = 0"
      using Cons.IH [OF b, of 0] v by simp
    have ex: "8 * length (a # as) - n = 8 * ?k + (8 - n)" using False by simp
    have "be_val (a # as) div 2 ^ (8 * ?k + (8 - n)) = a div 2 ^ (8 - n)"
      using v by (simp add: be_val_Cons p power_add div_mult2_eq)
    then show ?thesis using False band_mask_byte [OF a, of n] z unfolding ex e
      by (simp only: power_add mult.assoc mult.commute [of "2 ^ (8 - n)"] add_0_right)
  qed
qed simp

lemma be_val_inj: "length xs = length ys \<Longrightarrow> bytes xs \<Longrightarrow> bytes ys \<Longrightarrow> be_val xs = be_val ys \<longleftrightarrow> xs = ys"
  using to_be_be_val by metis

lemma be_val_inc_rev: "bytes xs \<Longrightarrow> be_val (rev (inc_rev xs)) = (be_val (rev xs) + 1) mod 256 ^ length xs"
proof (induction xs)
  case (Cons b bs)
  show ?case
  proof (cases "b = 255")
    case True
    have "(be_val (rev bs) * 256 + 256) mod (256 * 256 ^ length bs) = (be_val (rev bs) + 1) mod 256 ^ length bs * 256"
      using mod_mult_mult2 [of "be_val (rev bs) + 1" 256 "256 ^ length bs"] by (simp add: mult.commute add.commute)
    with True Cons show ?thesis by (simp add: Let_def add.commute)
  next
    case False
    have "be_val (rev bs) < 256 ^ length bs" using be_val_bound [of "rev bs"] Cons.prems by simp
    then have "be_val (rev bs) + 1 \<le> 256 ^ length bs" by simp
    then have "(be_val (rev bs) + 1) * 256 \<le> 256 ^ length bs * 256" by (rule mult_right_mono) simp
    moreover have "b + 1 < 256" using False Cons.prems by auto
    ultimately show ?thesis by (simp add: Let_def)
  qed
qed simp

lemma be_val_increment: "bytes xs \<Longrightarrow> be_val (incrementIP xs) = (be_val xs + 1) mod 256 ^ length xs"
  using be_val_inc_rev [of "rev xs"] by (simp add: incrementIP_def)

lemma increment_to_be: "m < 256 ^ k \<Longrightarrow> incrementIP (to_be k m) = to_be k ((m + 1) mod 256 ^ k)"
proof -
  assume "m < 256 ^ k"
  then have "be_val (incrementIP (to_be k m)) = (m + 1) mod 256 ^ k"
    by (simp add: be_val_increment be_val_to_be)
  moreover have "bytes (incrementIP (to_be k m))" "length (incrementIP (to_be k m)) = k"
    using bytes_inc_rev [of "rev (to_be k m)"] by (simp_all add: incrementIP_def)
  ultimately show ?thesis using to_be_be_val [of "incrementIP (to_be k m)" k] by simp
qed

text \<open>The block with prefix length \<open>n\<close> around the address numbered \<open>a\<close>.\<close>

definition block4 :: "nat \<Rightarrow> nat \<Rightarrow> ipnet" where
  "block4 a n = \<lparr>net_ip = to_be 4 (a div 2 ^ (32 - n) * 2 ^ (32 - n)), net_mask = CIDRMask n 32\<rparr>"

lemma band_to_be4:
  assumes "m < 2 ^ 32" "n \<le> 32"
  shows "map2 band (to_be 4 m) (CIDRMask n 32) = to_be 4 (m div 2 ^ (32 - n) * 2 ^ (32 - n))"
proof -
  have b: "bytes (map2 band (to_be 4 m) (CIDRMask n 32))" by (rule bytes_map2_band) simp
  have "be_val (map2 band (to_be 4 m) (CIDRMask n 32)) = m div 2 ^ (32 - n) * 2 ^ (32 - n)"
    using be_val_band [of "to_be 4 m" n] assms be_val_to_be [of m 4] by simp
  with to_be_be_val [OF b, of 4] show ?thesis by simp
qed

lemma contains_block4:
  assumes "m < 2 ^ 32" "a < 2 ^ 32" "n \<le> 32"
  shows "ipnet_contains (block4 a n) (to_be 4 m) \<longleftrightarrow> m div 2 ^ (32 - n) = a div 2 ^ (32 - n)"
proof -
  let ?d = "2 ^ (32 - n) :: nat"
  have pow4: "(2::nat) ^ 32 = 256 ^ 4" by simp
  have l: "x div ?d * ?d < 2 ^ 32" if "x < 2 ^ 32" for x
    using that by (meson div_times_less_eq_dividend le_less_trans)
  have nm: "network_number_and_mask (block4 a n) = (to_be 4 (a div ?d * ?d), CIDRMask n 32)"
    by (simp add: network_number_and_mask_def block4_def to4_def Let_def)
  have "ipnet_contains (block4 a n) (to_be 4 m) \<longleftrightarrow> to_be 4 (a div ?d * ?d) = to_be 4 (m div ?d * ?d)"
    using band_to_be4 [OF assms(1,3)] band_to_be4 [OF l [OF assms(2)] assms(3)]
    by (simp add: ipnet_contains_def nm to4_def)
  also have "\<dots> \<longleftrightarrow> a div ?d * ?d = m div ?d * ?d"
    using be_val_to_be [of "a div ?d * ?d" 4] be_val_to_be [of "m div ?d * ?d" 4] l assms
    by (metis (no_types) pow4)
  finally show ?thesis by auto
qed

text \<open>The loop visits the whole block, and wraps round for ever when the block is everything.\<close>

lemma cidr_loop_from:
  assumes a: "a < 2 ^ 32" and n: "0 < n" "n \<le> 32"
  defines "d \<equiv> 2 ^ (32 - n)"
  shows "a div d * d \<le> m \<Longrightarrow> m \<le> a div d * d + d \<Longrightarrow>
    cidr_loop (block4 a n) (to_be 4 (m mod 2 ^ 32)) = Some (map (to_be 4) [m..<a div d * d + d])"
proof (induction "a div d * d + d - m" arbitrary: m)
  case 0
  have d: "0 < d" by (simp add: d_def)
  have p: "2 ^ 32 = 2 ^ n * d" using n by (simp add: d_def flip: power_add)
  have m: "m = (a div d + 1) * d" using 0 by (simp add: algebra_simps)
  have "a div d < 2 ^ n" using a p d by (simp add: less_mult_imp_div_less)
  have "m mod 2 ^ 32 div d \<noteq> a div d"
  proof (cases "a div d + 1 = 2 ^ n")
    case True
    then have "m mod 2 ^ 32 = 0" unfolding m p by simp
    moreover have "a div d \<noteq> 0" using True n one_less_power [of "2::nat" n] by auto
    ultimately show ?thesis by simp
  next
    case False
    with \<open>a div d < 2 ^ n\<close> have "a div d + 1 < 2 ^ n" by simp
    then have "m < 2 ^ 32" unfolding m p using d by (rule mult_strict_right_mono)
    then show ?thesis using d by (simp add: m)
  qed
  then have "\<not> ipnet_contains (block4 a n) (to_be 4 (m mod 2 ^ 32))"
    using contains_block4 [OF _ a n(2), of "m mod 2 ^ 32"] by (simp add: d_def)
  then show ?case using m by (simp add: cidr_loop.simps algebra_simps)
next
  case (Suc k)
  have d: "0 < d" by (simp add: d_def)
  have p: "2 ^ 32 = 2 ^ n * d" using n by (simp add: d_def flip: power_add)
  have "a div d < 2 ^ n" using a p d by (simp add: less_mult_imp_div_less)
  then have "(a div d + 1) * d \<le> 2 ^ 32" unfolding p by (intro mult_right_mono) auto
  moreover have mb: "m < (a div d + 1) * d" using Suc by simp
  ultimately have m: "m < 2 ^ 32" by linarith
  have "m div d = a div d" by (rule div_nat_eqI) (use Suc.prems mb d in \<open>auto simp: algebra_simps\<close>)
  then have c: "ipnet_contains (block4 a n) (to_be 4 m)"
    using contains_block4 [OF m a n(2)] by (simp add: d_def)
  have "cidr_loop (block4 a n) (to_be 4 (Suc m mod 2 ^ 32)) = Some (map (to_be 4) [Suc m..<a div d * d + d])"
    by (rule Suc.hyps(1)) (use Suc in auto)
  then show ?case using m c mb increment_to_be [of m 4]
    by (simp add: cidr_loop.simps [of _ "to_be 4 m"] upt_conv_Cons)
qed

lemma cidr_loop_everything:
  assumes a: "a < 2 ^ 32" and m: "m < 2 ^ 32"
  shows "cidr_loop (block4 a 0) (to_be 4 m) = None"
proof (rule ccontr)
  assume "cidr_loop (block4 a 0) (to_be 4 m) \<noteq> None"
  then obtain ips where "cidr_loop (block4 a 0) (to_be 4 m) = Some ips" by blast
  then have "length ips < length ips" using m
  proof (induction "length ips" arbitrary: m ips)
    case 0
    have "ipnet_contains (block4 a 0) (to_be 4 m)"
      using contains_block4 [OF _ a, of m 0] 0 a by simp
    then show ?case using 0 by (simp add: cidr_loop.simps [of _ "to_be 4 m"] split: bind_splits)
  next
    case (Suc k)
    have "ipnet_contains (block4 a 0) (to_be 4 m)"
      using contains_block4 [OF _ a, of m 0] Suc a by simp
    then obtain r where r: "cidr_loop (block4 a 0) (to_be 4 ((m + 1) mod 2 ^ 32)) = Some r" "ips = to_be 4 m # r"
      using Suc.prems increment_to_be [of m 4] by (auto simp: cidr_loop.simps [of _ "to_be 4 m"] split: bind_splits)
    then have "length r < length r" using Suc.hyps by (intro Suc.hyps(1)) auto
    then show ?case by simp
  qed
  then show False by simp
qed

lemma dtoi_dec_string:
  assumes "n \<le> 32"
  shows "dtoi 0 (dec_string n) = Some n \<and> dec_string n \<noteq> []"
proof (cases "n < 10")
  case True
  then show ?thesis by (simp add: dec_string.simps [of n])
next
  case False
  have "n div 10 * 10 + n mod 10 = n" by simp
  moreover have "n div 10 < 10" using assms by simp
  ultimately show ?thesis using False assms
    by (simp add: dec_string.simps [of n] dec_string.simps [of "n div 10"])
qed

lemma ParseCIDR_block4:
  assumes "a < 2 ^ 32" "n \<le> 32"
  shows "ParseCIDR (ip_string (ip4 a) @ CHR ''/'' # dec_string n) = Some (ip4 a, block4 a n)"
proof -
  let ?s = "string4 (to_be 4 a)"
  have s: "ip_string (ip4 a) = ?s" using to4_ip4 [of a] by (auto simp: ip_string_def simp flip: length_0_conv)
  have c: "\<forall>c \<in> set ?s. c \<noteq> CHR ''/''" using sep_notin_string4 [of "CHR ''/''" "to_be 4 a"] by auto
  have t: "takeWhile (\<lambda>c. c \<noteq> CHR ''/'') (?s @ CHR ''/'' # dec_string n) = ?s"
    "dropWhile (\<lambda>c. c \<noteq> CHR ''/'') (?s @ CHR ''/'' # dec_string n) = CHR ''/'' # dec_string n"
    using c by (simp_all add: takeWhile_append dropWhile_append3)
  have "parse_addr ?s = Some (Addr4 (to_be 4 a))" by (rule parse_addr_string4) simp_all
  then show ?thesis
    using assms dtoi_dec_string [OF assms(2)] band_to_be4 [OF assms]
    unfolding s ParseCIDR_def t by (simp add: ip4_def block4_def ip_mask_v4)
qed

theorem CidrToIPs_exact:
  assumes "a < 2 ^ 32" "n \<le> 32"
  defines "d \<equiv> 2 ^ (32 - n)"
  defines "B \<equiv> a div d * d"
  shows "CidrToIPs (ip_string (ip4 a) @ ''/'' @ dec_string n) =
     (if n = 0 then Diverge
      else Ok (map (to_be 4) (if 31 \<le> n then [B..<B + d] else [B + 1..<B + d - 1])))"
proof -
  have m: "ip_mask (ip4 a) (net_mask (block4 a n)) = to_be 4 B"
    using band_to_be4 [OF assms(1,2)] by (simp add: ip4_def block4_def ip_mask_v4 B_def d_def)
  have B: "B < 2 ^ 32" using assms(1) unfolding B_def by (meson div_times_less_eq_dividend le_less_trans)
  show ?thesis
  proof (cases "n = 0")
    case True
    then show ?thesis using cidr_loop_everything [OF assms(1) B]
        ParseCIDR_block4 [OF assms(1,2)] m by (simp add: CidrToIPs_def)
  next
    case False
    have l: "cidr_loop (block4 a n) (to_be 4 B) = Some (map (to_be 4) [B..<B + d])"
      using cidr_loop_from [OF assms(1) _ assms(2), of B] False B by (simp add: B_def d_def)
    have "2 < d \<longleftrightarrow> \<not> 31 \<le> n"
    proof (cases "31 \<le> n")
      case True
      then have "n = 31 \<or> n = 32" using assms(2) by auto
      then show ?thesis by (auto simp: d_def)
    next
      case False
      then have "(2::nat) ^ 2 \<le> d" unfolding d_def by (intro power_increasing) auto
      then show ?thesis using False by simp
    qed
    moreover have "butlast [i..<j] = [i..<j - 1]" for i j by (cases j) auto
    ultimately show ?thesis using l False ParseCIDR_block4 [OF assms(1,2)] m
      by (simp add: CidrToIPs_def isIPv4_def map_tl [symmetric] map_butlast [symmetric] tl_upt)
  qed
qed

end
