(* ===== verification/GatewayAlloc.thy ===== *)
theory GatewayAlloc
  imports ApiTypes IPCidr
begin

text \<open>
  The part of \<^verbatim>\<open>pkg/egressgateway/egress_gateway.go\<close> that works on one gateway object in memory:
  finding and assigning an egress IP for a policy, deleting a policy, moving the egress IPs of a lost
  node, and counting the pool. The position \<^verbatim>\<open>-1\<close> of the code is \<open>None\<close>. Random choices
  (\<^verbatim>\<open>rand.Intn\<close>) and map iteration orders are parameters.
\<close>

section \<open>Positions in the status\<close>

datatype gw_err =
    NoAvailableNode string
  | NotEnoughIPs string
  | MergeErr ip_err
  | RangeErr ip_err
  | IncludeErr ip_err
  | NotInPool string

record assigned_ip =
  as_node :: string
  as_ipv4 :: string
  as_ipv6 :: string
  as_use_node_ip :: bool

fun find_index :: "('a \<Rightarrow> bool) \<Rightarrow> 'a list \<Rightarrow> nat option" where
  "find_index P [] = None"
| "find_index P (x # xs) = (if P x then Some 0 else map_option Suc (find_index P xs))"

fun find_eip :: "(eips \<Rightarrow> bool) \<Rightarrow> egress_ip_status list \<Rightarrow> (nat \<times> nat) option" where
  "find_eip P [] = None"
| "find_eip P (node # nodes) =
     (case find_index P (en_eips node) of
        Some j \<Rightarrow> Some (0, j)
      | None \<Rightarrow> map_option (\<lambda>(i, j). (Suc i, j)) (find_eip P nodes))"

definition add_policy :: "nat \<Rightarrow> nat \<Rightarrow> policy list \<Rightarrow> egress_ip_status list \<Rightarrow> egress_ip_status list" where
  "add_policy i j ps ns =
     (let n = ns ! i; e = en_eips n ! j in
      ns[i := n\<lparr>en_eips := (en_eips n)[j := e\<lparr>eip_policies := eip_policies e @ ps\<rparr>]\<rparr>])"

definition add_eip :: "nat \<Rightarrow> eips \<Rightarrow> egress_ip_status list \<Rightarrow> egress_ip_status list" where
  "add_eip i e ns = ns[i := (ns ! i)\<lparr>en_eips := en_eips (ns ! i) @ [e]\<rparr>]"

definition is_node_ip :: "eips \<Rightarrow> bool" where
  "is_node_ip e = (eip_ipv4 e = [] \<and> eip_ipv6 e = [])"

section \<open>Assigning an egress IP\<close>

text \<open>The loop that looks for the ready node with the fewest egress IPs.\<close>

fun least_ready :: "egress_ip_status list \<Rightarrow> nat \<Rightarrow> (nat \<times> nat) option \<Rightarrow> (nat \<times> nat) option" where
  "least_ready [] nodeIndex best = best"
| "least_ready (node # nodes) nodeIndex best =
     least_ready nodes (Suc nodeIndex)
       (if en_status node \<noteq> EgressTunnelReady then best
        else case best of
          None \<Rightarrow> Some (length (en_eips node), nodeIndex)
        | Some (eipNum, _) \<Rightarrow>
            if eipNum > length (en_eips node) then Some (length (en_eips node), nodeIndex) else best)"

definition nIndex :: "egress_gateway \<Rightarrow> nat option" where
  "nIndex from = map_option snd (least_ready (gw_nodes from) 0 None)"

text \<open>Case 1: the egress traffic uses the address of the node.\<close>

definition assign_node_ip :: "policy \<Rightarrow> egress_gateway \<Rightarrow> assigned_ip option \<times> egress_gateway" where
  "assign_node_ip req from = (case nIndex from of
     None \<Rightarrow> (None, from)
   | Some i \<Rightarrow>
       let node = gw_nodes from ! i;
           a = \<lparr>as_node = en_name node, as_ipv4 = [], as_ipv6 = [], as_use_node_ip = True\<rparr>
       in (case find_index is_node_ip (en_eips node) of
             Some j \<Rightarrow> (Some a, set_nodes (add_policy i j [req] (gw_nodes from)) from)
           | None \<Rightarrow> (Some a, set_nodes (add_eip i \<lparr>eip_ipv4 = [], eip_ipv6 = [], eip_policies = [req]\<rparr>
                                         (gw_nodes from)) from)))"

text \<open>Case 2: an egress IP that is already in the status is used again.\<close>

definition same_eip :: "egress_ip \<Rightarrow> eips \<Rightarrow> bool" where
  "same_eip spec eip =
     ((eip_ipv4 eip = ei_ipv4 spec \<and> ei_ipv4 spec \<noteq> []) \<or> (eip_ipv6 eip = ei_ipv6 spec \<and> ei_ipv6 spec \<noteq> []))"

definition reuse_eip :: "policy \<Rightarrow> nat \<times> nat \<Rightarrow> egress_gateway \<Rightarrow> assigned_ip \<times> egress_gateway" where
  "reuse_eip req ij from = (case ij of (i, j) \<Rightarrow>
     let node = gw_nodes from ! i; eip = en_eips node ! j in
     (\<lparr>as_node = en_name node, as_ipv4 = eip_ipv4 eip, as_ipv6 = eip_ipv6 eip, as_use_node_ip = False\<rparr>,
      set_nodes (add_policy i j [req] (gw_nodes from)) from))"

text \<open>
  Case 3: the requested IP is new. The search starts from \<^verbatim>\<open>math.MaxInt8\<close>, so that a node
  with 127 or more egress IPs is never the best one.
\<close>

fun best_node :: "egress_ip_status list \<Rightarrow> nat \<Rightarrow> nat \<Rightarrow> nat option \<Rightarrow> nat option" where
  "best_node [] i eipNumMin best = best"
| "best_node (node # nodes) i eipNumMin best =
     (if en_status node \<noteq> EgressTunnelReady then best_node nodes (Suc i) eipNumMin best
      else if length (en_eips node) < eipNumMin
           then best_node nodes (Suc i) (length (en_eips node)) (Some i)
           else best_node nodes (Suc i) eipNumMin best)"

definition MaxInt8 :: nat where "MaxInt8 = 127"

definition assign_new_eip ::
    "policy \<Rightarrow> egress_ip \<Rightarrow> egress_gateway \<Rightarrow> (gw_err, assigned_ip \<times> egress_gateway) outcome" where
  "assign_new_eip req spec from = (case best_node (gw_nodes from) 0 MaxInt8 None of
     None \<Rightarrow> Err (NoAvailableNode (gw_name from))
   | Some i \<Rightarrow>
       let node = gw_nodes from ! i;
           eip = \<lparr>eip_ipv4 = ei_ipv4 spec, eip_ipv6 = ei_ipv6 spec, eip_policies = [req]\<rparr>
       in if en_name node = [] then Err (NoAvailableNode (gw_name from))
          else Ok (\<lparr>as_node = en_name node, as_ipv4 = ei_ipv4 spec, as_ipv6 = ei_ipv6 spec,
                    as_use_node_ip = False\<rparr>, set_nodes (add_eip i eip (gw_nodes from)) from))"

text \<open>Case 4: a free address of the pool, drawn at random.\<close>

definition used_ipv4 :: "egress_gateway \<Rightarrow> string list" where
  "used_ipv4 g = [eip_ipv4 e. n \<leftarrow> gw_nodes g, e \<leftarrow> en_eips n, eip_ipv4 e \<noteq> []]"

definition used_ipv6 :: "egress_gateway \<Rightarrow> string list" where
  "used_ipv6 g = [eip_ipv6 e. n \<leftarrow> gw_nodes g, e \<leftarrow> en_eips n, eip_ipv6 e \<noteq> []]"

definition pick_free :: "string iter_order \<Rightarrow> (nat \<Rightarrow> nat) \<Rightarrow> int \<Rightarrow> string \<Rightarrow> string list \<Rightarrow> string list \<Rightarrow> string
    \<Rightarrow> (gw_err, string) outcome" where
  "pick_free ord intn version gwname pool used spec_ip =
     oc_bind (oc_map_err MergeErr (MergeIPRanges ord version pool)) (\<lambda>ranges.
       if spec_ip \<noteq> [] then
         oc_bind (oc_map_err IncludeErr (IsIPIncludedRange ord version spec_ip ranges)) (\<lambda>ok.
           if ok then Ok spec_ip else Err (NotInPool spec_ip))
       else
         oc_bind (oc_map_err RangeErr (ParseIPRanges version ranges)) (\<lambda>ips.
           let free = IPsDiffSet ord ips (map ParseIP used) False in
           if length free = 0 then Err (NotEnoughIPs gwname)
           else Ok (ip_string (free ! intn (length free)))))"

definition assign_rr :: "string iter_order \<Rightarrow> (nat \<Rightarrow> nat) \<Rightarrow> (nat \<Rightarrow> nat) \<Rightarrow> policy \<Rightarrow> egress_ip \<Rightarrow> egress_gateway
    \<Rightarrow> (gw_err, assigned_ip \<times> egress_gateway) outcome" where
  "assign_rr ord intn4 intn6 req spec from =
     oc_bind (if 0 < length (pool_ipv4 (gw_pools from))
              then pick_free ord intn4 IPv4 (gw_name from) (pool_ipv4 (gw_pools from)) (used_ipv4 from) (ei_ipv4 spec)
              else Ok []) (\<lambda>v4.
     oc_bind (if 0 < length (pool_ipv6 (gw_pools from))
              then pick_free ord intn6 IPv6 (gw_name from) (pool_ipv6 (gw_pools from)) (used_ipv6 from) (ei_ipv6 spec)
              else Ok []) (\<lambda>v6.
     case nIndex from of
       None \<Rightarrow> Panic
     | Some i \<Rightarrow>
         Ok (\<lparr>as_node = en_name (gw_nodes from ! i), as_ipv4 = v4, as_ipv6 = v6, as_use_node_ip = False\<rparr>,
             set_nodes (add_eip i \<lparr>eip_ipv4 = v4, eip_ipv6 = v6, eip_policies = [req]\<rparr> (gw_nodes from)) from)))"

text \<open>Case 5: the default egress IP of the gateway. A policy is recorded only with a new entry.\<close>

definition is_default_eip :: "egress_gateway \<Rightarrow> eips \<Rightarrow> bool" where
  "is_default_eip g eip =
     ((eip_ipv4 eip \<noteq> [] \<and> eip_ipv4 eip = ipv4_default_eip (gw_pools g)) \<or>
      (eip_ipv6 eip \<noteq> [] \<and> eip_ipv6 eip = ipv6_default_eip (gw_pools g)))"

definition assign_default :: "policy \<Rightarrow> egress_gateway \<Rightarrow> (gw_err, assigned_ip \<times> egress_gateway) outcome" where
  "assign_default req from =
     (let v4 = ipv4_default_eip (gw_pools from); v6 = ipv6_default_eip (gw_pools from);
          (nm, g) =
            (case find_index (\<lambda>n. list_ex (is_default_eip from) (en_eips n)) (gw_nodes from) of
               Some i \<Rightarrow> (en_name (gw_nodes from ! i), from)
             | None \<Rightarrow>
                 (case find_index (\<lambda>n. en_status n = EgressTunnelReady) (gw_nodes from) of
                    Some i \<Rightarrow> (en_name (gw_nodes from ! i),
                      set_nodes (add_eip i \<lparr>eip_ipv4 = v4, eip_ipv6 = v6, eip_policies = [req]\<rparr> (gw_nodes from)) from)
                  | None \<Rightarrow> ([], from)))
      in if nm = [] then Err (NoAvailableNode (gw_name from))
         else Ok (\<lparr>as_node = nm, as_ipv4 = v4, as_ipv6 = v6, as_use_node_ip = False\<rparr>, g))"

text \<open>
  \<^verbatim>\<open>assignIP\<close>. It returns the assigned IP (none when no node is ready for case 1) and the
  gateway it has modified; on an error the callers return and drop the gateway.
\<close>

definition assignIP :: "string iter_order \<Rightarrow> (nat \<Rightarrow> nat) \<Rightarrow> (nat \<Rightarrow> nat) \<Rightarrow> egress_gateway \<Rightarrow> policy \<Rightarrow> egress_ip
    \<Rightarrow> (gw_err, assigned_ip option \<times> egress_gateway) outcome" where
  "assignIP ord intn4 intn6 from req spec =
     (let found = (\<lambda>(a, g). Ok (Some a, g)) in
      if use_node_ip spec then Ok (assign_node_ip req from)
      else if ei_ipv4 spec \<noteq> [] \<or> ei_ipv6 spec \<noteq> [] then
        (case find_eip (same_eip spec) (gw_nodes from) of
           Some ij \<Rightarrow> found (reuse_eip req ij from)
         | None \<Rightarrow> oc_bind (assign_new_eip req spec from) found)
      else if allocator_policy spec = EipAllocatorRR
        then oc_bind (assign_rr ord intn4 intn6 req spec from) found
        else oc_bind (assign_default req from) found)"

section \<open>Looking up and deleting a policy\<close>

definition is_policy :: "string \<Rightarrow> string \<Rightarrow> policy \<Rightarrow> bool" where
  "is_policy policyNs policyName p = (policy_name p = policyName \<and> policy_namespace p = policyNs)"

definition getAssignedIP :: "egress_gateway \<Rightarrow> string \<Rightarrow> string \<Rightarrow> assigned_ip option" where
  "getAssignedIP from policyNs policyName =
     map_option (\<lambda>(i, j). let n = gw_nodes from ! i; e = en_eips n ! j in
         \<lparr>as_node = en_name n, as_ipv4 = eip_ipv4 e, as_ipv6 = eip_ipv6 e, as_use_node_ip = False\<rparr>)
       (find_eip (\<lambda>e. list_ex (is_policy policyNs policyName) (eip_policies e)) (gw_nodes from))"

fun delete_from_eips :: "(policy \<Rightarrow> bool) \<Rightarrow> eips list \<Rightarrow> eips list option" where
  "delete_from_eips P [] = None"
| "delete_from_eips P (e # es) =
     (case find_index P (eip_policies e) of
        Some k \<Rightarrow>
          let ps = take k (eip_policies e) @ drop (Suc k) (eip_policies e) in
          Some (if length ps = 0 then es else e\<lparr>eip_policies := ps\<rparr> # es)
      | None \<Rightarrow> map_option ((#) e) (delete_from_eips P es))"

fun delete_from_nodes :: "(policy \<Rightarrow> bool) \<Rightarrow> egress_ip_status list \<Rightarrow> egress_ip_status list option" where
  "delete_from_nodes P [] = None"
| "delete_from_nodes P (n # ns) =
     (case delete_from_eips P (en_eips n) of
        Some es \<Rightarrow> Some (n\<lparr>en_eips := es\<rparr> # ns)
      | None \<Rightarrow> map_option ((#) n) (delete_from_nodes P ns))"

definition deleteEgressPolicy :: "egress_gateway \<Rightarrow> string \<Rightarrow> string \<Rightarrow> bool \<times> egress_gateway" where
  "deleteEgressPolicy gateway policyNs policyName =
     (case delete_from_nodes (is_policy policyNs policyName) (gw_nodes gateway) of
        Some ns \<Rightarrow> (True, set_nodes ns gateway)
      | None \<Rightarrow> (False, gateway))"

section \<open>Moving egress IPs\<close>

text \<open>
  The scan for the target node: the node with the fewest egress IPs and, of the nodes that were the
  best one at some point, the last position of a node-IP entry.
\<close>

record move_scan =
  min_node :: "nat option"
  min_count :: "nat option"
  node_ip_index :: "nat option"

fun last_index :: "('a \<Rightarrow> bool) \<Rightarrow> 'a list \<Rightarrow> nat \<Rightarrow> nat option \<Rightarrow> nat option" where
  "last_index P [] i r = r"
| "last_index P (x # xs) i r = last_index P xs (Suc i) (if P x then Some i else r)"

fun scan_nodes :: "egress_ip_status list \<Rightarrow> nat \<Rightarrow> move_scan \<Rightarrow> move_scan" where
  "scan_nodes [] i s = s"
| "scan_nodes (node # nodes) i s =
     scan_nodes nodes (Suc i)
       (if en_status node = EgressTunnelReady \<and>
           (case min_count s of None \<Rightarrow> True | Some c \<Rightarrow> length (en_eips node) < c)
        then \<lparr>min_node = Some i, min_count = Some (length (en_eips node)),
              node_ip_index = last_index is_node_ip (en_eips node) 0 (node_ip_index s)\<rparr>
        else s)"

fun move_loop :: "nat \<Rightarrow> eips list \<Rightarrow> nat option \<Rightarrow> egress_ip_status list \<Rightarrow> (gw_err, egress_ip_status list) outcome" where
  "move_loop i [] useNodeIPIndex ns = Ok ns"
| "move_loop i (eip # rest) useNodeIPIndex ns =
     (if is_node_ip eip then
        (case useNodeIPIndex of
           Some j \<Rightarrow>
             if j < length (en_eips (ns ! i))
             then move_loop i rest (Some j) (add_policy i j (eip_policies eip) ns)
             else Panic
         | None \<Rightarrow>
             move_loop i rest (Some (length (en_eips (ns ! i))))
               (add_eip i \<lparr>eip_ipv4 = [], eip_ipv6 = [], eip_policies = eip_policies eip\<rparr> ns))
      else move_loop i rest useNodeIPIndex (add_eip i eip ns))"

text \<open>The result is the gateway and the egress IPs that could not be moved.\<close>

definition moveEipToReadyNode :: "egress_gateway \<Rightarrow> eips list \<Rightarrow> (gw_err, egress_gateway \<times> eips list) outcome" where
  "moveEipToReadyNode gateway needMoveIPs =
     (if ReadyCount (gw_status gateway) \<le> 0 then Ok (gateway, needMoveIPs)
      else
        let s = scan_nodes (gw_nodes gateway) 0 \<lparr>min_node = None, min_count = None, node_ip_index = None\<rparr> in
        case min_node s of
          None \<Rightarrow> Ok (gateway, needMoveIPs)
        | Some i \<Rightarrow>
            oc_bind (move_loop i needMoveIPs (node_ip_index s) (gw_nodes gateway)) (\<lambda>ns.
              Ok (set_nodes ns gateway, [])))"

section \<open>Usage of the pool\<close>

definition zero_eips :: eips where
  "zero_eips = \<lparr>eip_ipv4 = [], eip_ipv6 = [], eip_policies = []\<rparr>"

definition GetEipByIPV4 :: "string \<Rightarrow> egress_gateway \<Rightarrow> eips" where
  "GetEipByIPV4 ipv4 egw =
     fold (\<lambda>node info. fold (\<lambda>eip info. if eip_ipv4 eip = ipv4 then eip else info) (en_eips node) info)
       (gw_nodes egw) zero_eips"

definition GetEipByIPV6 :: "string \<Rightarrow> egress_gateway \<Rightarrow> eips" where
  "GetEipByIPV6 ipv6 egw =
     fold (\<lambda>node info. fold (\<lambda>eip info. if eip_ipv6 eip = ipv6 then eip else info) (en_eips node) info)
       (gw_nodes egw) zero_eips"

definition countGatewayIP :: "string iter_order \<Rightarrow> egress_gateway \<Rightarrow> ip_usage ip_res" where
  "countGatewayIP ord egw =
     oc_bind (ConvertCidrOrIPrangeToIPs ord (pool_ipv4 (gw_pools egw)) IPv4) (\<lambda>ipv4s.
     oc_bind (ConvertCidrOrIPrangeToIPs ord (pool_ipv6 (gw_pools egw)) IPv6) (\<lambda>ipv6s.
       let useIpv4s = map ParseIP (used_ipv4 egw); useIpv6s = map ParseIP (used_ipv6 egw) in
       Ok \<lparr>ipv4_total = int (length ipv4s), ipv4_free = int (length ipv4s) - int (length useIpv4s),
           ipv6_total = int (length ipv6s), ipv6_free = int (length ipv6s) - int (length useIpv6s)\<rparr>))"

end
