(* ===== verification/GatewayInv.thy ===== *)
theory GatewayInv
  imports GatewayAlloc
begin

text \<open>
  The invariant of a gateway status and its preservation by every operation of
  \<open>GatewayAlloc\<close>: node names are distinct, no policy occurs twice, no egress address occurs
  twice, and every entry serves a policy. A second invariant says that a node has at most one entry
  for its own address.
\<close>

section \<open>The invariant\<close>

definition all_eips :: "egress_ip_status list \<Rightarrow> eips list" where
  "all_eips ns = concat (map en_eips ns)"

definition policies_of :: "eips list \<Rightarrow> policy list" where
  "policies_of es = concat (map eip_policies es)"

definition v4s :: "eips list \<Rightarrow> string list" where
  "v4s es = filter (\<lambda>s. s \<noteq> []) (map eip_ipv4 es)"

definition v6s :: "eips list \<Rightarrow> string list" where
  "v6s es = filter (\<lambda>s. s \<noteq> []) (map eip_ipv6 es)"

definition eips_ok :: "eips list \<Rightarrow> bool" where
  "eips_ok es \<longleftrightarrow> distinct (policies_of es) \<and> distinct (v4s es) \<and> distinct (v6s es) \<and>
     (\<forall>e \<in> set es. eip_policies e \<noteq> [])"

text \<open>The invariant of a status together with entries that wait to be moved.\<close>

definition alloc_with :: "egress_ip_status list \<Rightarrow> eips list \<Rightarrow> bool" where
  "alloc_with ns mv \<longleftrightarrow> distinct (map en_name ns) \<and> eips_ok (all_eips ns @ mv)"

definition gateway_ok :: "egress_gateway \<Rightarrow> bool" where
  "gateway_ok g \<longleftrightarrow> alloc_with (gw_nodes g) []"

definition node_ok :: "egress_ip_status \<Rightarrow> bool" where
  "node_ok n \<longleftrightarrow> length (filter is_node_ip (en_eips n)) \<le> 1"

definition node_ips_ok :: "egress_gateway \<Rightarrow> bool" where
  "node_ips_ok g \<longleftrightarrow> (\<forall>n \<in> set (gw_nodes g). node_ok n)"

section \<open>Lists of entries\<close>

lemma policies_of_simps [simp]: "policies_of [] = []" "policies_of (e # es) = eip_policies e @ policies_of es"
  "policies_of (xs @ ys) = policies_of xs @ policies_of ys"
  by (simp_all add: policies_of_def)

lemma v4s_simps [simp]: "v4s [] = []" "v4s (e # es) = (if eip_ipv4 e = [] then v4s es else eip_ipv4 e # v4s es)"
  "v4s (xs @ ys) = v4s xs @ v4s ys"
  by (simp_all add: v4s_def)

lemma v6s_simps [simp]: "v6s [] = []" "v6s (e # es) = (if eip_ipv6 e = [] then v6s es else eip_ipv6 e # v6s es)"
  "v6s (xs @ ys) = v6s xs @ v6s ys"
  by (simp_all add: v6s_def)

lemma all_eips_simps [simp]: "all_eips [] = []" "all_eips (n # ns) = en_eips n @ all_eips ns"
  "all_eips (ns @ ms) = all_eips ns @ all_eips ms"
  by (simp_all add: all_eips_def)

lemma set_policies_of: "set (policies_of es) = (\<Union>e \<in> set es. set (eip_policies e))"
  by (auto simp: policies_of_def)

lemma set_v4s: "set (v4s es) = {eip_ipv4 e | e. e \<in> set es \<and> eip_ipv4 e \<noteq> []}"
  and set_v6s: "set (v6s es) = {eip_ipv6 e | e. e \<in> set es \<and> eip_ipv6 e \<noteq> []}"
  by (auto simp: v4s_def v6s_def)

lemma mset_policies_of: "mset (policies_of es) = \<Sum>\<^sub># (image_mset (\<lambda>e. mset (eip_policies e)) (mset es))"
  by (induction es) auto

lemma eips_ok_perm: "mset xs = mset ys \<Longrightarrow> eips_ok xs \<Longrightarrow> eips_ok ys"
proof -
  assume m: "mset xs = mset ys" and ok: "eips_ok xs"
  have "mset (policies_of xs) = mset (policies_of ys)" "mset (v4s xs) = mset (v4s ys)" "mset (v6s xs) = mset (v6s ys)"
    using m by (simp_all add: mset_policies_of v4s_def v6s_def)
  then show ?thesis using ok mset_eq_setD [OF m] unfolding eips_ok_def
    by (metis mset_eq_imp_distinct_iff)
qed

lemma eips_ok_fresh:
  assumes "eips_ok es" "eip_policies e \<noteq> []" "distinct (eip_policies e)"
    "set (eip_policies e) \<inter> set (policies_of es) = {}"
    "eip_ipv4 e = [] \<or> eip_ipv4 e \<notin> set (v4s es)" "eip_ipv6 e = [] \<or> eip_ipv6 e \<notin> set (v6s es)"
  shows "eips_ok (e # es)"
  using assms by (auto simp: eips_ok_def)

text \<open>A node-IP entry can be merged into another entry, and a fresh policy added to one.\<close>

lemma eips_ok_merge: "eips_ok (t # e # es) \<Longrightarrow> is_node_ip e \<Longrightarrow>
    eips_ok (t\<lparr>eip_policies := eip_policies t @ eip_policies e\<rparr> # es)"
  by (auto simp: eips_ok_def is_node_ip_def)

lemma eips_ok_add: "eips_ok (t # es) \<Longrightarrow> p \<notin> set (policies_of (t # es)) \<Longrightarrow>
    eips_ok (t\<lparr>eip_policies := eip_policies t @ [p]\<rparr> # es)"
  by (auto simp: eips_ok_def)

lemma eips_ok_ConsD: "eips_ok (e # es) \<Longrightarrow> eips_ok es"
  by (auto simp: eips_ok_def split: if_splits)

lemma eips_ok_appendD: "eips_ok (xs @ ys) \<Longrightarrow> eips_ok xs"
  by (auto simp: eips_ok_def)

lemma used_ipv4_eq: "used_ipv4 g = v4s (all_eips (gw_nodes g))"
proof -
  have "[eip_ipv4 e. n \<leftarrow> ns, e \<leftarrow> en_eips n, eip_ipv4 e \<noteq> []] = v4s (all_eips ns)" for ns
  proof (induction ns)
    case (Cons n ns)
    have "[eip_ipv4 e. e \<leftarrow> es, eip_ipv4 e \<noteq> []] = v4s es" for es by (induction es) auto
    with Cons show ?case by simp
  qed simp
  then show ?thesis by (simp add: used_ipv4_def)
qed

lemma used_ipv6_eq: "used_ipv6 g = v6s (all_eips (gw_nodes g))"
proof -
  have "[eip_ipv6 e. n \<leftarrow> ns, e \<leftarrow> en_eips n, eip_ipv6 e \<noteq> []] = v6s (all_eips ns)" for ns
  proof (induction ns)
    case (Cons n ns)
    have "[eip_ipv6 e. e \<leftarrow> es, eip_ipv6 e \<noteq> []] = v6s es" for es by (induction es) auto
    with Cons show ?case by simp
  qed simp
  then show ?thesis by (simp add: used_ipv6_def)
qed

section \<open>Updating a node\<close>

lemma mset_all_eips_upd:
  assumes "i < length ns"
  shows "mset (all_eips (ns[i := n'])) + mset (en_eips (ns ! i)) = mset (all_eips ns) + mset (en_eips n')"
proof -
  have "all_eips ns = all_eips (take i ns) @ en_eips (ns ! i) @ all_eips (drop (Suc i) ns)"
    by (subst id_take_nth_drop [OF assms]) simp
  moreover have "all_eips (ns[i := n']) = all_eips (take i ns) @ en_eips n' @ all_eips (drop (Suc i) ns)"
    by (subst upd_conv_take_nth_drop [OF assms]) simp
  ultimately show ?thesis by simp
qed

lemma mset_upd_nth: "j < length xs \<Longrightarrow> mset (xs[j := y]) + {#xs ! j#} = mset xs + {#y#}"
  by (simp add: mset_update)

lemma mset_add_eip:
  assumes "i < length ns"
  shows "mset (all_eips (add_eip i e ns)) = add_mset e (mset (all_eips ns))"
  using mset_all_eips_upd [OF assms, of "(ns ! i)\<lparr>en_eips := en_eips (ns ! i) @ [e]\<rparr>"] by (simp add: add_eip_def)

text \<open>The other entries of a status, with one entry taken out.\<close>

lemma mset_add_policy:
  assumes "i < length ns" "j < length (en_eips (ns ! i))"
  defines "t \<equiv> en_eips (ns ! i) ! j"
  obtains rest where "mset (all_eips ns) = add_mset t (mset rest)"
    "mset (all_eips (add_policy i j ps ns)) = add_mset (t\<lparr>eip_policies := eip_policies t @ ps\<rparr>) (mset rest)"
proof -
  have t: "t \<in># mset (all_eips ns)"
    using assms(1,2) by (auto simp: all_eips_def t_def intro: nth_mem bexI [of _ "ns ! i"])
  obtain rest where r: "mset rest = mset (all_eips ns) - {#t#}" using ex_mset by blast
  let ?t' = "t\<lparr>eip_policies := eip_policies t @ ps\<rparr>"
  let ?n = "(ns ! i)\<lparr>en_eips := (en_eips (ns ! i))[j := ?t']\<rparr>"
  have "mset (all_eips (ns[i := ?n])) + mset (en_eips (ns ! i)) = mset (all_eips ns) + mset ((en_eips (ns ! i))[j := ?t'])"
    using mset_all_eips_upd [OF assms(1), of ?n] by simp
  then have "mset (all_eips (ns[i := ?n])) + {#t#} + mset (en_eips (ns ! i)) =
      mset (all_eips ns) + (mset ((en_eips (ns ! i))[j := ?t']) + {#en_eips (ns ! i) ! j#})"
    by (simp add: t_def)
  also have "\<dots> = mset (all_eips ns) + {#?t'#} + mset (en_eips (ns ! i))"
    unfolding mset_upd_nth [OF assms(2)] by simp
  finally have "mset (all_eips (add_policy i j ps ns)) + {#t#} = mset (all_eips ns) + {#?t'#}"
    unfolding add_policy_def t_def Let_def by (simp only: add_right_cancel)
  moreover have m: "mset (all_eips ns) = add_mset t (mset rest)" using t r by simp
  ultimately have "mset (all_eips (add_policy i j ps ns)) = add_mset ?t' (mset rest)" by simp
  with m that show ?thesis by blast
qed

lemma names_add [simp]: "i < length ns \<Longrightarrow> map en_name (add_eip i e ns) = map en_name ns"
  "i < length ns \<Longrightarrow> map en_name (add_policy i j ps ns) = map en_name ns"
  "length (add_eip i e ns) = length ns" "length (add_policy i j ps ns) = length ns"
  by (auto simp: add_eip_def add_policy_def Let_def map_update list_update_same_conv)

lemma is_node_ip_policies [simp]: "is_node_ip (e\<lparr>eip_policies := ps\<rparr>) = is_node_ip e"
  by (simp add: is_node_ip_def)

lemma length_filter_upd: "j < length xs \<Longrightarrow> P y = P (xs ! j) \<Longrightarrow> length (filter P (xs[j := y])) = length (filter P xs)"
  by (induction xs arbitrary: j) (auto split: nat.splits)

lemma nodes_ok_add_policy:
  assumes "\<forall>n \<in> set ns. node_ok n" "i < length ns" "j < length (en_eips (ns ! i))"
  shows "\<forall>n \<in> set (add_policy i j ps ns). node_ok n"
proof -
  have "node_ok ((ns ! i)\<lparr>en_eips := (en_eips (ns ! i))[j := (en_eips (ns ! i) ! j)\<lparr>eip_policies := qs\<rparr>]\<rparr>)" for qs
    using assms nth_mem [OF assms(2)] by (simp add: node_ok_def length_filter_upd)
  then show ?thesis using assms(1) by (auto simp: add_policy_def Let_def dest!: set_update_subset_insert [THEN subsetD])
qed

lemma nodes_ok_add_eip:
  assumes "\<forall>n \<in> set ns. node_ok n" "i < length ns" "is_node_ip e \<Longrightarrow> \<not> list_ex is_node_ip (en_eips (ns ! i))"
  shows "\<forall>n \<in> set (add_eip i e ns). node_ok n"
proof -
  have "node_ok ((ns ! i)\<lparr>en_eips := en_eips (ns ! i) @ [e]\<rparr>)"
    using assms nth_mem [OF assms(2)] by (auto simp: node_ok_def list_ex_iff filter_empty_conv)
  then show ?thesis using assms(1) by (auto simp: add_eip_def dest!: set_update_subset_insert [THEN subsetD])
qed

lemma alloc_add_eip:
  assumes "alloc_with ns (e # mv)" "i < length ns"
  shows "alloc_with (add_eip i e ns) mv"
proof -
  have "mset (all_eips ns @ e # mv) = mset (all_eips (add_eip i e ns) @ mv)" by (simp add: mset_add_eip [OF assms(2)])
  then have "eips_ok (all_eips (add_eip i e ns) @ mv)"
    by (rule eips_ok_perm) (use assms(1) in \<open>simp add: alloc_with_def\<close>)
  then show ?thesis using assms by (simp add: alloc_with_def)
qed

lemma alloc_merge:
  assumes "alloc_with ns (e # mv)" "is_node_ip e" "i < length ns" "j < length (en_eips (ns ! i))"
  shows "alloc_with (add_policy i j (eip_policies e) ns) mv"
proof -
  obtain rest where r: "mset (all_eips ns) = add_mset (en_eips (ns ! i) ! j) (mset rest)"
    "mset (all_eips (add_policy i j (eip_policies e) ns)) =
       add_mset ((en_eips (ns ! i) ! j)\<lparr>eip_policies := eip_policies (en_eips (ns ! i) ! j) @ eip_policies e\<rparr>) (mset rest)"
    using mset_add_policy [OF assms(3,4)] .
  have "eips_ok ((en_eips (ns ! i) ! j) # e # rest @ mv)"
    by (rule eips_ok_perm [of "all_eips ns @ e # mv"]) (use assms(1) r in \<open>auto simp: alloc_with_def\<close>)
  from eips_ok_merge [OF this assms(2)] have "eips_ok (all_eips (add_policy i j (eip_policies e) ns) @ mv)"
    by (rule eips_ok_perm [rotated]) (simp add: r)
  then show ?thesis using assms by (simp add: alloc_with_def)
qed

lemma alloc_add_policy:
  assumes "alloc_with ns []" "p \<notin> set (policies_of (all_eips ns))" "i < length ns" "j < length (en_eips (ns ! i))"
  shows "alloc_with (add_policy i j [p] ns) []"
proof -
  let ?t = "en_eips (ns ! i) ! j"
  obtain rest where r: "mset (all_eips ns) = add_mset ?t (mset rest)"
    "mset (all_eips (add_policy i j [p] ns)) = add_mset (?t\<lparr>eip_policies := eip_policies ?t @ [p]\<rparr>) (mset rest)"
    using mset_add_policy [OF assms(3,4)] .
  have m: "mset (all_eips ns) = mset (?t # rest)" using r by simp
  have "eips_ok (?t # rest)" by (rule eips_ok_perm [OF m]) (use assms(1) in \<open>simp add: alloc_with_def\<close>)
  moreover have "p \<notin> set (policies_of (?t # rest))"
    using assms(2) mset_eq_setD [OF m] unfolding set_policies_of by simp
  ultimately have "eips_ok (?t\<lparr>eip_policies := eip_policies ?t @ [p]\<rparr> # rest)" by (rule eips_ok_add)
  then have "eips_ok (all_eips (add_policy i j [p] ns))" by (rule eips_ok_perm [rotated]) (simp add: r)
  then show ?thesis using assms by (simp add: alloc_with_def)
qed

lemma alloc_fresh:
  assumes "alloc_with ns []" "eip_policies e = [p]" "p \<notin> set (policies_of (all_eips ns))"
    "eip_ipv4 e = [] \<or> eip_ipv4 e \<notin> set (v4s (all_eips ns))" "eip_ipv6 e = [] \<or> eip_ipv6 e \<notin> set (v6s (all_eips ns))"
  shows "alloc_with ns [e]"
proof -
  have "eips_ok (e # all_eips ns)" using assms by (intro eips_ok_fresh) (auto simp: alloc_with_def)
  then have "eips_ok (all_eips ns @ [e])" by (rule eips_ok_perm [rotated]) simp
  then show ?thesis using assms(1) by (simp add: alloc_with_def)
qed

lemma alloc_with_drop: "alloc_with ns mv \<Longrightarrow> alloc_with ns []"
  using eips_ok_appendD by (auto simp: alloc_with_def)

lemma alloc_with_perm: "alloc_with ns mv \<Longrightarrow> mset (all_eips ns @ mv) = mset (all_eips ms @ mw) \<Longrightarrow>
    distinct (map en_name ms) \<Longrightarrow> alloc_with ms mw"
  unfolding alloc_with_def using eips_ok_perm by blast

section \<open>Searches\<close>

lemma find_index_Some: "find_index P xs = Some k \<Longrightarrow> k < length xs \<and> P (xs ! k) \<and> (\<forall>i < k. \<not> P (xs ! i))"
proof (induction xs arbitrary: k)
  case (Cons x xs)
  then show ?case by (auto split: if_splits simp: less_Suc_eq_0_disj)
qed simp

lemma find_index_None: "find_index P xs = None \<longleftrightarrow> \<not> list_ex P xs"
  by (induction xs) auto

lemma find_eip_Some: "find_eip P ns = Some (i, j) \<Longrightarrow>
    i < length ns \<and> j < length (en_eips (ns ! i)) \<and> P (en_eips (ns ! i) ! j)"
proof (induction ns arbitrary: i j)
  case (Cons n ns)
  then show ?case by (auto split: option.splits dest: find_index_Some)
qed simp

lemma find_eip_None: "find_eip P ns = None \<longleftrightarrow> \<not> list_ex P (all_eips ns)"
  by (induction ns) (auto split: option.splits simp: find_index_None dest: find_index_Some
      intro: nth_mem simp flip: not_None_eq)

lemma least_ready_Some:
  "least_ready ns off best = Some (k, i) \<Longrightarrow>
     (best = Some (k, i) \<or> (off \<le> i \<and> i - off < length ns \<and> is_ready (ns ! (i - off)) \<and> k = length (en_eips (ns ! (i - off))))) \<and>
     (\<forall>n \<in> set ns. is_ready n \<longrightarrow> k \<le> length (en_eips n)) \<and> (\<forall>k' i'. best = Some (k', i') \<longrightarrow> k \<le> k')"
proof (induction ns arbitrary: off best)
  case (Cons n ns)
  let ?b = "if en_status n \<noteq> EgressTunnelReady then best
        else case best of None \<Rightarrow> Some (length (en_eips n), off)
        | Some (c, _) \<Rightarrow> if c > length (en_eips n) then Some (length (en_eips n), off) else best"
  have ih: "(?b = Some (k, i) \<or> (Suc off \<le> i \<and> i - Suc off < length ns \<and> is_ready (ns ! (i - Suc off)) \<and>
        k = length (en_eips (ns ! (i - Suc off))))) \<and>
     (\<forall>n \<in> set ns. is_ready n \<longrightarrow> k \<le> length (en_eips n)) \<and> (\<forall>k' i'. ?b = Some (k', i') \<longrightarrow> k \<le> k')"
    using Cons.IH Cons.prems by simp
  have nth: "(n # ns) ! (i - off) = ns ! (i - Suc off)" "i - off < length (n # ns)"
    if "Suc off \<le> i" "i - Suc off < length ns" for i
    using that by (auto simp: Suc_diff_le diff_Suc_less nth_Cons')
  have "best = Some (k, i) \<or> i = off \<and> is_ready n \<and> k = length (en_eips n)" if "?b = Some (k, i)"
    using that by (auto simp: is_ready_def split: if_splits option.splits)
  moreover have "\<forall>k' i'. best = Some (k', i') \<longrightarrow> k \<le> k'" "is_ready n \<longrightarrow> k \<le> length (en_eips n)"
    using ih by (auto simp: is_ready_def split: if_splits option.splits)
  ultimately show ?case using ih nth by (auto simp: nth_Cons')
qed simp

lemma least_ready_None: "least_ready ns off best = None \<longleftrightarrow> best = None \<and> \<not> list_ex is_ready ns"
  by (induction ns arbitrary: off best) (auto simp: is_ready_def split: option.splits)

lemma nIndex_Some:
  assumes "nIndex g = Some i"
  shows "i < length (gw_nodes g)" "is_ready (gw_nodes g ! i)"
    "n \<in> set (gw_nodes g) \<Longrightarrow> is_ready n \<Longrightarrow> length (en_eips (gw_nodes g ! i)) \<le> length (en_eips n)"
  using assms least_ready_Some [of "gw_nodes g" 0 None] by (auto simp: nIndex_def)

lemma nIndex_None: "nIndex g = None \<longleftrightarrow> \<not> list_ex is_ready (gw_nodes g)"
  by (simp add: nIndex_def least_ready_None)

lemma best_node_Some:
  "best_node ns off m best = Some i \<Longrightarrow>
     best = Some i \<or> (off \<le> i \<and> i - off < length ns \<and> is_ready (ns ! (i - off)) \<and> length (en_eips (ns ! (i - off))) < m)"
proof (induction ns arbitrary: off m best)
  case (Cons n ns)
  have nth: "(n # ns) ! (i - off) = ns ! (i - Suc off)" "i - off < length (n # ns)"
    if "Suc off \<le> i" "i - Suc off < length ns"
    using that by (auto simp: nth_Cons')
  show ?case
  proof (cases "is_ready n \<and> length (en_eips n) < m")
    case True
    then have "best_node ns (Suc off) (length (en_eips n)) (Some off) = Some i" using Cons.prems by (simp add: is_ready_def)
    from Cons.IH [OF this] show ?thesis using True nth by auto
  next
    case False
    then have "best_node ns (Suc off) m best = Some i" using Cons.prems by (auto simp: is_ready_def split: if_splits)
    from Cons.IH [OF this] show ?thesis using nth by auto
  qed
qed simp

lemma best_node_None:
  "best_node ns off m best = None \<longleftrightarrow> best = None \<and> (\<forall>n \<in> set ns. is_ready n \<longrightarrow> m \<le> length (en_eips n))"
  by (induction ns arbitrary: off m best) (auto simp: is_ready_def not_less)

end
