(* ===== verification/GatewayMap.thy ===== *)
theory GatewayMap
  imports GatewayInv
begin

text \<open>
  The abstract view of a gateway status: a finite map from policies to the node and the pair of
  addresses they leave the cluster through. \<^verbatim>\<open>getAssignedIP\<close> looks a policy up in it,
  \<^verbatim>\<open>assignIP\<close> updates it at one policy and \<^verbatim>\<open>deleteEgressPolicy\<close> removes one.
\<close>

section \<open>The map of a status\<close>

type_synonym egress = "string \<times> string \<times> string"

definition eip_entries :: "string \<Rightarrow> eips \<Rightarrow> (policy \<times> egress) list" where
  "eip_entries nm e = map (\<lambda>p. (p, (nm, eip_ipv4 e, eip_ipv6 e))) (eip_policies e)"

definition node_entries :: "egress_ip_status \<Rightarrow> (policy \<times> egress) list" where
  "node_entries n = concat (map (eip_entries (en_name n)) (en_eips n))"

definition entries :: "egress_ip_status list \<Rightarrow> (policy \<times> egress) list" where
  "entries ns = concat (map node_entries ns)"

definition alloc_map :: "egress_ip_status list \<Rightarrow> policy \<Rightarrow> egress option" where
  "alloc_map ns = map_of (entries ns)"

lemma entries_simps [simp]: "entries [] = []" "entries (n # ns) = node_entries n @ entries ns"
  "entries (ns @ ms) = entries ns @ entries ms"
  by (simp_all add: entries_def)

lemma fst_entries: "map fst (entries ns) = policies_of (all_eips ns)"
proof (induction ns)
  case (Cons n ns)
  have "map fst (concat (map (eip_entries nm) es)) = policies_of es" for nm es
    by (induction es) (auto simp: eip_entries_def comp_def)
  with Cons show ?case by (simp add: node_entries_def)
qed simp

lemma dom_alloc_map: "dom (alloc_map ns) = set (policies_of (all_eips ns))"
  using fst_entries [of ns] by (metis alloc_map_def dom_map_of_conv_image_fst list.set_map)

lemma alloc_map_None: "alloc_map ns p = None \<longleftrightarrow> p \<notin> set (policies_of (all_eips ns))"
  using dom_alloc_map [of ns] by (auto simp: domIff)

lemma distinct_entries: "alloc_with ns mv \<Longrightarrow> distinct (map fst (entries ns))"
  by (auto simp: fst_entries alloc_with_def eips_ok_def)

lemma alloc_map_Some: "alloc_with ns mv \<Longrightarrow> alloc_map ns p = Some x \<longleftrightarrow> (p, x) \<in> set (entries ns)"
  using distinct_entries by (simp add: alloc_map_def)

lemma set_entries:
  "(p, (nm, v4, v6)) \<in> set (entries ns) \<longleftrightarrow>
     (\<exists>n \<in> set ns. \<exists>e \<in> set (en_eips n). p \<in> set (eip_policies e) \<and> nm = en_name n \<and> v4 = eip_ipv4 e \<and> v6 = eip_ipv6 e)"
  by (auto simp: entries_def node_entries_def eip_entries_def)

lemma alloc_map_eqI:
  assumes "alloc_with ns mv" "alloc_with ms mw" "set (entries ms) = set (entries ns) \<union> {(p, x)}" "alloc_map ns p = None"
  shows "alloc_map ms = (alloc_map ns)(p \<mapsto> x)"
proof -
  have "map_of (entries ms) = map_of ((p, x) # entries ns)"
    using assms distinct_entries [OF assms(1)] distinct_entries [OF assms(2)]
    by (intro iffD1 [OF map_of_inject_set [symmetric]]) (auto simp: alloc_map_None fst_entries)
  then show ?thesis by (simp add: alloc_map_def)
qed

lemma entries_add_eip:
  assumes "i < length ns"
  shows "set (entries (add_eip i e ns)) = set (entries ns) \<union> set (eip_entries (en_name (ns ! i)) e)"
proof -
  have "entries ns = entries (take i ns) @ node_entries (ns ! i) @ entries (drop (Suc i) ns)"
    by (subst id_take_nth_drop [OF assms]) simp
  moreover have "entries (add_eip i e ns) = entries (take i ns) @
      node_entries ((ns ! i)\<lparr>en_eips := en_eips (ns ! i) @ [e]\<rparr>) @ entries (drop (Suc i) ns)"
    unfolding add_eip_def by (subst upd_conv_take_nth_drop [OF assms]) simp
  ultimately show ?thesis by (auto simp: node_entries_def)
qed

lemma entries_add_policy:
  assumes "i < length ns" "j < length (en_eips (ns ! i))"
  defines "t \<equiv> en_eips (ns ! i) ! j"
  shows "set (entries (add_policy i j ps ns)) =
    set (entries ns) \<union> (\<lambda>p. (p, (en_name (ns ! i), eip_ipv4 t, eip_ipv6 t))) ` set ps"
proof -
  let ?n = "ns ! i" and ?t' = "t\<lparr>eip_policies := eip_policies t @ ps\<rparr>"
  let ?f = "eip_entries (en_name ?n)"
  have "map ?f (en_eips ?n) = map ?f (take j (en_eips ?n)) @ ?f t # map ?f (drop (Suc j) (en_eips ?n))"
    unfolding t_def by (subst id_take_nth_drop [OF assms(2)]) simp
  moreover have "map ?f ((en_eips ?n)[j := ?t']) = map ?f (take j (en_eips ?n)) @ ?f ?t' # map ?f (drop (Suc j) (en_eips ?n))"
    by (subst upd_conv_take_nth_drop [OF assms(2)]) simp
  ultimately have n: "set (node_entries (?n\<lparr>en_eips := (en_eips ?n)[j := ?t']\<rparr>)) =
      set (node_entries ?n) \<union> (\<lambda>p. (p, (en_name ?n, eip_ipv4 t, eip_ipv6 t))) ` set ps"
    by (auto simp: node_entries_def eip_entries_def)
  have "entries ns = entries (take i ns) @ node_entries ?n @ entries (drop (Suc i) ns)"
    by (subst id_take_nth_drop [OF assms(1)]) simp
  moreover have "entries (add_policy i j ps ns) = entries (take i ns) @
      node_entries (?n\<lparr>en_eips := (en_eips ?n)[j := ?t']\<rparr>) @ entries (drop (Suc i) ns)"
    unfolding add_policy_def Let_def t_def by (subst upd_conv_take_nth_drop [OF assms(1)]) simp
  ultimately show ?thesis using n by auto
qed

section \<open>Looking up\<close>

lemma is_policy_eq: "is_policy ns nm p \<longleftrightarrow> p = \<lparr>policy_name = nm, policy_namespace = ns\<rparr>"
  by (cases p) (auto simp: is_policy_def)

lemma alloc_map_find:
  "alloc_map ns p = map_option (\<lambda>(i, j). (en_name (ns ! i), eip_ipv4 (en_eips (ns ! i) ! j), eip_ipv6 (en_eips (ns ! i) ! j)))
     (find_eip (\<lambda>e. list_ex ((=) p) (eip_policies e)) ns)"
proof (induction ns)
  case (Cons n ns)
  have entry: "map_of (eip_entries nm e) p = (if list_ex ((=) p) (eip_policies e) then Some (nm, eip_ipv4 e, eip_ipv6 e) else None)" for nm e
  proof -
    have "map_of (map (\<lambda>q. (q, x)) qs) p = (if list_ex ((=) p) qs then Some x else None)" for x :: egress and qs
      by (induction qs) auto
    then show ?thesis by (simp add: eip_entries_def)
  qed
  have "map_of (concat (map (eip_entries nm) es)) p =
      map_option (\<lambda>j. (nm, eip_ipv4 (es ! j), eip_ipv6 (es ! j))) (find_index (\<lambda>e. list_ex ((=) p) (eip_policies e)) es)" for nm es
    by (induction es) (auto simp: entry map_add_def option.map_comp comp_def split: option.splits)
  with Cons show ?case
    by (auto simp: alloc_map_def node_entries_def map_add_def option.map_comp comp_def case_prod_unfold split: option.splits)
qed (simp add: alloc_map_def)

lemma getAssignedIP_eq:
  "getAssignedIP g ns nm =
     map_option (\<lambda>(n, v4, v6). \<lparr>as_node = n, as_ipv4 = v4, as_ipv6 = v6, as_use_node_ip = False\<rparr>)
       (alloc_map (gw_nodes g) \<lparr>policy_name = nm, policy_namespace = ns\<rparr>)"
proof -
  have "is_policy ns nm = (=) \<lparr>policy_name = nm, policy_namespace = ns\<rparr>" by (auto simp: is_policy_eq fun_eq_iff)
  then show ?thesis
    by (auto simp: getAssignedIP_def alloc_map_find option.map_comp comp_def Let_def intro!: option.map_cong0)
qed

lemma getAssignedIP_None:
  "getAssignedIP g ns nm = None \<longleftrightarrow> \<lparr>policy_name = nm, policy_namespace = ns\<rparr> \<notin> set (policies_of (all_eips (gw_nodes g)))"
  by (simp add: getAssignedIP_eq alloc_map_None)

section \<open>Assigning\<close>

text \<open>
  What an assignment does to the status: the policy is added at the node and the addresses that are
  returned, every other policy keeps its place, and the invariant still holds.
\<close>

definition records :: "egress_gateway \<Rightarrow> policy \<Rightarrow> assigned_ip \<Rightarrow> egress_gateway \<Rightarrow> bool" where
  "records g p a g' \<longleftrightarrow> gateway_ok g' \<and> gw_meta g' = gw_meta g \<and> gw_spec g' = gw_spec g \<and>
     alloc_map (gw_nodes g') = (alloc_map (gw_nodes g))(p \<mapsto> (as_node a, as_ipv4 a, as_ipv6 a))"

lemma records_add_policy:
  assumes "gateway_ok g" "alloc_map (gw_nodes g) p = None" "i < length (gw_nodes g)"
    "j < length (en_eips (gw_nodes g ! i))" "as_node a = en_name (gw_nodes g ! i)"
    "as_ipv4 a = eip_ipv4 (en_eips (gw_nodes g ! i) ! j)" "as_ipv6 a = eip_ipv6 (en_eips (gw_nodes g ! i) ! j)"
  shows "records g p a (set_nodes (add_policy i j [p] (gw_nodes g)) g)"
proof -
  have "alloc_with (add_policy i j [p] (gw_nodes g)) []"
    using assms by (intro alloc_add_policy) (auto simp: gateway_ok_def alloc_map_None)
  moreover have "alloc_map (add_policy i j [p] (gw_nodes g)) = (alloc_map (gw_nodes g))(p \<mapsto> (as_node a, as_ipv4 a, as_ipv6 a))"
    using assms calculation
    by (intro alloc_map_eqI [where mv = "[]" and mw = "[]"]) (auto simp: gateway_ok_def entries_add_policy)
  ultimately show ?thesis by (simp add: records_def gateway_ok_def)
qed

lemma records_add_eip:
  assumes "gateway_ok g" "alloc_map (gw_nodes g) p = None" "i < length (gw_nodes g)"
    "as_node a = en_name (gw_nodes g ! i)" "e = \<lparr>eip_ipv4 = as_ipv4 a, eip_ipv6 = as_ipv6 a, eip_policies = [p]\<rparr>"
    "as_ipv4 a = [] \<or> as_ipv4 a \<notin> set (used_ipv4 g)" "as_ipv6 a = [] \<or> as_ipv6 a \<notin> set (used_ipv6 g)"
  shows "records g p a (set_nodes (add_eip i e (gw_nodes g)) g)"
proof -
  have "alloc_with (gw_nodes g) [e]"
    using assms by (intro alloc_fresh [where p = p]) (auto simp: gateway_ok_def alloc_map_None used_ipv4_eq used_ipv6_eq)
  then have "alloc_with (add_eip i e (gw_nodes g)) []" using assms by (intro alloc_add_eip) auto
  moreover have "alloc_map (add_eip i e (gw_nodes g)) = (alloc_map (gw_nodes g))(p \<mapsto> (as_node a, as_ipv4 a, as_ipv6 a))"
    using assms calculation
    by (intro alloc_map_eqI [where mv = "[]" and mw = "[]"]) (auto simp: gateway_ok_def entries_add_eip eip_entries_def)
  ultimately show ?thesis by (simp add: records_def gateway_ok_def)
qed

lemma assign_node_ip_records:
  assumes "gateway_ok g" "alloc_map (gw_nodes g) p = None" "assign_node_ip p g = (Some a, g')"
  shows "records g p a g'"
proof -
  obtain i where i: "nIndex g = Some i" using assms(3) by (auto simp: assign_node_ip_def split: option.splits)
  note ix = nIndex_Some(1) [OF i]
  show ?thesis
  proof (cases "find_index is_node_ip (en_eips (gw_nodes g ! i))")
    case None
    then have "g' = set_nodes (add_eip i \<lparr>eip_ipv4 = [], eip_ipv6 = [], eip_policies = [p]\<rparr> (gw_nodes g)) g"
      "a = \<lparr>as_node = en_name (gw_nodes g ! i), as_ipv4 = [], as_ipv6 = [], as_use_node_ip = True\<rparr>"
      using assms(3) by (auto simp: assign_node_ip_def i Let_def)
    then show ?thesis using None assms ix by (auto intro!: records_add_eip simp: find_index_None)
  next
    case (Some j)
    then show ?thesis using find_index_Some [OF Some] assms ix
      by (auto intro!: records_add_policy simp: assign_node_ip_def i Let_def is_node_ip_def)
  qed
qed

lemma reuse_eip_records:
  assumes "gateway_ok g" "alloc_map (gw_nodes g) p = None" "find_eip P (gw_nodes g) = Some ij" "reuse_eip p ij g = (a, g')"
  shows "records g p a g'"
  using assms find_eip_Some [of P "gw_nodes g" "fst ij" "snd ij"]
  by (auto intro!: records_add_policy simp: reuse_eip_def Let_def split: prod.splits)

lemma assign_new_eip_records:
  assumes "gateway_ok g" "alloc_map (gw_nodes g) p = None" "find_eip (same_eip spec) (gw_nodes g) = None"
    "ei_ipv4 spec \<noteq> [] \<or> ei_ipv6 spec \<noteq> []" "assign_new_eip p spec g = Ok (a, g')"
  shows "records g p a g'"
proof -
  obtain i where i: "best_node (gw_nodes g) 0 MaxInt8 None = Some i"
    using assms(5) by (auto simp: assign_new_eip_def split: option.splits)
  then have ix: "i < length (gw_nodes g)" using best_node_Some [OF i] by simp
  have "ei_ipv4 spec = [] \<or> ei_ipv4 spec \<notin> set (used_ipv4 g)" "ei_ipv6 spec = [] \<or> ei_ipv6 spec \<notin> set (used_ipv6 g)"
    using assms(3) by (auto simp: used_ipv4_eq used_ipv6_eq set_v4s set_v6s find_eip_None list_ex_iff same_eip_def)
  then show ?thesis using assms ix
    by (auto intro!: records_add_eip simp: assign_new_eip_def i Let_def is_node_ip_def split: if_splits)
qed

text \<open>A random choice gives an index in range: the contract of \<^verbatim>\<open>rand.Intn\<close>.\<close>

lemma to16_not_nil: "wf_ip ip \<Longrightarrow> to16 ip \<noteq> []"
  by (auto simp: wf_ip_def to16_def v4InV6Prefix_def)

locale random_source =
  fixes intn :: "nat \<Rightarrow> nat"
  assumes in_range: "0 < n \<Longrightarrow> intn n < n"

interpretation first_choice: random_source "\<lambda>n. 0"
  by unfold_locales simp

interpretation last_choice: random_source "\<lambda>n. n - 1"
  by unfold_locales simp

locale free_choice = string_iteration ord + random_source intn
  for ord :: "string iter_order" and intn :: "nat \<Rightarrow> nat"
begin

lemma pick_free_Ok:
  assumes "pick_free ord intn ver nm pool used [] = Ok s"
  obtains ranges ips where "MergeIPRanges ord ver pool = Ok ranges" "ParseIPRanges ver ranges = Ok ips"
    "s \<noteq> []" "ParseIP s \<in> to16 ` set ips" "ParseIP s \<notin> ParseIP ` set used"
proof -
  obtain ranges ips where r: "MergeIPRanges ord ver pool = Ok ranges" "ParseIPRanges ver ranges = Ok ips"
    using assms by (auto simp: pick_free_def)
  let ?free = "IPsDiffSet ord ips (map ParseIP used) False"
  have f: "?free \<noteq> []" "s = ip_string (?free ! intn (length ?free))"
    using assms r by (auto simp: pick_free_def Let_def split: if_splits)
  have w: "\<forall>ip \<in> set ips. ip \<noteq> [] \<longrightarrow> wf_ip ip" "\<forall>ip \<in> set (map ParseIP used). ip \<noteq> [] \<longrightarrow> wf_ip ip"
    using ParseIPRanges_wf [OF r(2)] by (auto dest: ParseIP_wf)
  let ?x = "?free ! intn (length ?free)"
  have "?x \<in> set ?free" using f(1) in_range [of "length ?free"] by (intro nth_mem) auto
  then have x: "?x \<in> to16 ` (set ips - {[]}) - to16 ` (ParseIP ` set used - {[]})"
    unfolding IPsDiffSet_spec(1) [OF w] set_map .
  then have "?x \<in> to16 ` (set ips - {[]})" by (rule DiffD1)
  then obtain ip where ip: "?x = to16 ip" "ip \<in> set ips - {[]}" by (rule imageE)
  have nin: "to16 ip \<notin> to16 ` (ParseIP ` set used - {[]})" using x unfolding ip(1) Diff_iff by (rule conjunct2)
  have wf: "wf_ip ip" using ip(2) ParseIPRanges_wf [OF r(2)] by blast
  have p: "ParseIP s = to16 ip" "to16 ip \<noteq> []"
    unfolding f(2) ip(1) ip_string_to16 [OF wf] by (rule ParseIP_ip_string [OF wf], rule to16_not_nil [OF wf])
  have u: "ParseIP s \<notin> ParseIP ` set used"
  proof
    assume "ParseIP s \<in> ParseIP ` set used"
    then have "to16 ip \<in> ParseIP ` set used - {[]}" using p by (metis Diff_iff singletonD)
    then have "to16 (to16 ip) \<in> to16 ` (ParseIP ` set used - {[]})" by (rule imageI)
    with nin show False by simp
  qed
  have "ParseIP [] = []" by (simp add: ParseIP_def parse_addr_def)
  with p have "s \<noteq> []" by metis
  moreover have "ParseIP s \<in> to16 ` set ips" using p(1) ip(2) by blast
  ultimately show ?thesis using that [OF r] u by blast
qed

lemma pick_free_fresh: "pick_free ord intn ver nm pool used [] = Ok s \<Longrightarrow> s \<noteq> [] \<and> s \<notin> set used"
  by (erule pick_free_Ok) auto

end

interpretation first_free: free_choice "\<lambda>ks. ks" "\<lambda>n. 0"
  by unfold_locales

lemma assign_rr_cases:
  assumes "assign_rr ord intn4 intn6 p spec g = Ok (a, g')"
    "map_iteration ord" "random_source intn4" "random_source intn6" "ei_ipv4 spec = []" "ei_ipv6 spec = []"
  obtains v4 v6 i where "nIndex g = Some i"
    "a = \<lparr>as_node = en_name (gw_nodes g ! i), as_ipv4 = v4, as_ipv6 = v6, as_use_node_ip = False\<rparr>"
    "g' = set_nodes (add_eip i \<lparr>eip_ipv4 = v4, eip_ipv6 = v6, eip_policies = [p]\<rparr> (gw_nodes g)) g"
    "v4 = [] \<longleftrightarrow> pool_ipv4 (gw_pools g) = []" "v6 = [] \<longleftrightarrow> pool_ipv6 (gw_pools g) = []"
    "v4 \<noteq> [] \<Longrightarrow> pick_free ord intn4 IPv4 (gw_name g) (pool_ipv4 (gw_pools g)) (used_ipv4 g) [] = Ok v4"
    "v6 \<noteq> [] \<Longrightarrow> pick_free ord intn6 IPv6 (gw_name g) (pool_ipv6 (gw_pools g)) (used_ipv6 g) [] = Ok v6"
    "v4 = [] \<or> v4 \<notin> set (used_ipv4 g)" "v6 = [] \<or> v6 \<notin> set (used_ipv6 g)"
proof -
  have f4: "free_choice ord intn4" and f6: "free_choice ord intn6"
    using assms by (auto simp: free_choice_def string_iteration_def)
  obtain v4 v6 i where v: "(if pool_ipv4 (gw_pools g) = [] then v4 = [] else
      pick_free ord intn4 IPv4 (gw_name g) (pool_ipv4 (gw_pools g)) (used_ipv4 g) [] = Ok v4)"
    "(if pool_ipv6 (gw_pools g) = [] then v6 = [] else
      pick_free ord intn6 IPv6 (gw_name g) (pool_ipv6 (gw_pools g)) (used_ipv6 g) [] = Ok v6)"
    "nIndex g = Some i" "a = \<lparr>as_node = en_name (gw_nodes g ! i), as_ipv4 = v4, as_ipv6 = v6, as_use_node_ip = False\<rparr>"
    "g' = set_nodes (add_eip i \<lparr>eip_ipv4 = v4, eip_ipv6 = v6, eip_policies = [p]\<rparr> (gw_nodes g)) g"
    using assms(1,5,6) by (auto simp: assign_rr_def split: if_splits option.splits)
  have "v4 = [] \<or> v4 \<notin> set (used_ipv4 g)" "v4 = [] \<longleftrightarrow> pool_ipv4 (gw_pools g) = []"
    "v6 = [] \<or> v6 \<notin> set (used_ipv6 g)" "v6 = [] \<longleftrightarrow> pool_ipv6 (gw_pools g) = []"
    using v(1,2) free_choice.pick_free_fresh [OF f4] free_choice.pick_free_fresh [OF f6] by (auto split: if_splits)
  then show ?thesis using that [OF v(3-5)] v(1,2) by auto
qed

lemma assign_rr_records:
  assumes "gateway_ok g" "alloc_map (gw_nodes g) p = None" "assign_rr ord intn4 intn6 p spec g = Ok (a, g')"
    "map_iteration ord" "random_source intn4" "random_source intn6" "ei_ipv4 spec = []" "ei_ipv6 spec = []"
  shows "records g p a g'"
  by (rule assign_rr_cases [OF assms(3-8)]) (use assms(1,2) in \<open>auto intro!: records_add_eip dest: nIndex_Some(1)\<close>)

lemma assign_default_records:
  assumes "gateway_ok g" "alloc_map (gw_nodes g) p = None" "assign_default p g = Ok (a, g')"
  shows "if list_ex (is_default_eip g) (all_eips (gw_nodes g)) then g' = g else records g p a g'"
proof -
  let ?P = "\<lambda>n. list_ex (is_default_eip g) (en_eips n)"
  have l: "list_ex (is_default_eip g) (all_eips (gw_nodes g)) \<longleftrightarrow> list_ex ?P (gw_nodes g)"
    by (auto simp: all_eips_def list_ex_iff)
  show ?thesis
  proof (cases "find_index ?P (gw_nodes g)")
    case None
    then have n: "\<not> list_ex (is_default_eip g) (all_eips (gw_nodes g))" by (simp add: l find_index_None)
    obtain i where i: "find_index (\<lambda>n. en_status n = EgressTunnelReady) (gw_nodes g) = Some i"
      using None assms(3) by (auto simp: assign_default_def Let_def split: option.splits)
    have "ipv4_default_eip (gw_pools g) = [] \<or> ipv4_default_eip (gw_pools g) \<notin> set (used_ipv4 g)"
      "ipv6_default_eip (gw_pools g) = [] \<or> ipv6_default_eip (gw_pools g) \<notin> set (used_ipv6 g)"
      using n by (auto simp: used_ipv4_eq used_ipv6_eq set_v4s set_v6s list_ex_iff is_default_eip_def)
    then show ?thesis using n assms find_index_Some [OF i] None i
      by (auto intro!: records_add_eip simp: assign_default_def is_node_ip_def Let_def split: if_splits)
  next
    case (Some i)
    then have "list_ex (is_default_eip g) (all_eips (gw_nodes g))" unfolding l using find_index_None by force
    then show ?thesis using assms(3) Some by (auto simp: assign_default_def split: if_splits)
  qed
qed

text \<open>
  The policy is recorded in every case but one: when the default egress IP is placed already, the
  gateway is returned as it was.
\<close>

definition default_placed :: "egress_gateway \<Rightarrow> egress_ip \<Rightarrow> bool" where
  "default_placed g spec \<longleftrightarrow> \<not> use_node_ip spec \<and> ei_ipv4 spec = [] \<and> ei_ipv6 spec = [] \<and>
     allocator_policy spec \<noteq> EipAllocatorRR \<and> list_ex (is_default_eip g) (all_eips (gw_nodes g))"

lemma assignIP_cases:
  assumes "assignIP ord intn4 intn6 g p spec = Ok (b, g')"
  obtains (node) "use_node_ip spec" "assign_node_ip p g = (b, g')"
  | (reuse) ij a where "\<not> use_node_ip spec" "ei_ipv4 spec \<noteq> [] \<or> ei_ipv6 spec \<noteq> []"
      "find_eip (same_eip spec) (gw_nodes g) = Some ij" "reuse_eip p ij g = (a, g')" "b = Some a"
  | (new) a where "\<not> use_node_ip spec" "ei_ipv4 spec \<noteq> [] \<or> ei_ipv6 spec \<noteq> []"
      "find_eip (same_eip spec) (gw_nodes g) = None" "assign_new_eip p spec g = Ok (a, g')" "b = Some a"
  | (rr) a where "\<not> use_node_ip spec" "ei_ipv4 spec = []" "ei_ipv6 spec = []" "allocator_policy spec = EipAllocatorRR"
      "assign_rr ord intn4 intn6 p spec g = Ok (a, g')" "b = Some a"
  | (default) a where "\<not> use_node_ip spec" "ei_ipv4 spec = []" "ei_ipv6 spec = []" "allocator_policy spec \<noteq> EipAllocatorRR"
      "assign_default p g = Ok (a, g')" "b = Some a"
proof -
  consider "use_node_ip spec"
    | "\<not> use_node_ip spec" "ei_ipv4 spec \<noteq> [] \<or> ei_ipv6 spec \<noteq> []" "find_eip (same_eip spec) (gw_nodes g) = None"
    | ij where "\<not> use_node_ip spec" "ei_ipv4 spec \<noteq> [] \<or> ei_ipv6 spec \<noteq> []" "find_eip (same_eip spec) (gw_nodes g) = Some ij"
    | "\<not> use_node_ip spec" "ei_ipv4 spec = []" "ei_ipv6 spec = []" "allocator_policy spec = EipAllocatorRR"
    | "\<not> use_node_ip spec" "ei_ipv4 spec = []" "ei_ipv6 spec = []" "allocator_policy spec \<noteq> EipAllocatorRR" by fastforce
  then show ?thesis
  proof cases
    case 1
    then show ?thesis using assms node by (simp add: assignIP_def)
  next
    case 2
    then show ?thesis using assms new by (auto simp: assignIP_def split: prod.splits)
  next
    case (3 ij)
    then show ?thesis using assms reuse [OF 3] by (cases "reuse_eip p ij g") (simp add: assignIP_def)
  next
    case 4
    then show ?thesis using assms rr by (auto simp: assignIP_def)
  next
    case 5
    then show ?thesis using assms default by (auto simp: assignIP_def)
  qed
qed

lemma assignIP_records:
  assumes "gateway_ok g" "alloc_map (gw_nodes g) p = None" "assignIP ord intn4 intn6 g p spec = Ok (Some a, g')"
    "map_iteration ord" "random_source intn4" "random_source intn6"
  shows "if default_placed g spec then g' = g else records g p a g'"
  using assms(3)
proof (cases rule: assignIP_cases)
  case node
  then show ?thesis using assign_node_ip_records [OF assms(1,2)] by (simp add: default_placed_def)
next
  case (reuse ij a')
  then show ?thesis using reuse_eip_records [OF assms(1,2)] by (auto simp: default_placed_def)
next
  case (new a')
  then show ?thesis using assign_new_eip_records [OF assms(1,2)] by (auto simp: default_placed_def)
next
  case (rr a')
  then show ?thesis using assign_rr_records [OF assms(1,2) _ assms(4-6)] by (auto simp: default_placed_def)
next
  case (default a')
  then show ?thesis using assign_default_records [OF assms(1,2), of a g'] by (auto simp: default_placed_def)
qed

lemma assignIP_none: "assignIP ord intn4 intn6 g p spec = Ok (None, g') \<Longrightarrow> g' = g \<and> use_node_ip spec \<and> nIndex g = None"
  by (erule assignIP_cases) (auto simp: assign_node_ip_def Let_def split: option.splits)

lemma assignIP_ok:
  assumes "gateway_ok g" "alloc_map (gw_nodes g) p = None" "assignIP ord intn4 intn6 g p spec = Ok (b, g')"
    "map_iteration ord" "random_source intn4" "random_source intn6"
  shows "gateway_ok g' \<and> gw_meta g' = gw_meta g \<and> gw_spec g' = gw_spec g"
proof (cases b)
  case None
  then show ?thesis using assignIP_none assms(1,3) by blast
next
  case (Some a)
  then show ?thesis using assignIP_records [of g p ord intn4 intn6 spec a g'] assms by (auto simp: records_def split: if_splits)
qed

section \<open>Deleting\<close>

lemma delete_from_eips_None: "delete_from_eips P es = None \<longleftrightarrow> (\<forall>p \<in> set (policies_of es). \<not> P p)"
proof (induction es)
  case (Cons e es)
  then show ?case using find_index_None [of P "eip_policies e"]
    by (cases "find_index P (eip_policies e)") (auto simp: list_ex_iff Let_def)
qed simp

lemma take_drop_Suc: "k < length xs \<Longrightarrow> xs = take k xs @ xs ! k # drop (Suc k) xs"
  by (rule id_take_nth_drop)

text \<open>One entry loses one policy, and goes away when it was the last one.\<close>

lemma delete_from_eips_Some:
  assumes "delete_from_eips P es = Some es'"
  obtains xs e ps p qs ys where "es = xs @ e # ys" "eip_policies e = ps @ p # qs" "P p"
    "es' = xs @ (if ps @ qs = [] then [] else [e\<lparr>eip_policies := ps @ qs\<rparr>]) @ ys"
  using assms
proof (induction es arbitrary: es' thesis)
  case (Cons e es)
  show ?case
  proof (cases "find_index P (eip_policies e)")
    case None
    then obtain es'' where d: "delete_from_eips P es = Some es''" "es' = e # es''" using Cons.prems by auto
    show ?thesis
      by (rule Cons.IH [OF _ d(1)], rule Cons.prems(1) [of "e # _"]) (use d in auto)
  next
    case (Some k)
    then have "k < length (eip_policies e)" "P (eip_policies e ! k)" using find_index_Some by auto
    then show ?thesis using Cons.prems(2) Some
      by (intro Cons.prems(1) [of "[]" e es "take k (eip_policies e)" "eip_policies e ! k" "drop (Suc k) (eip_policies e)"])
         (auto simp: Let_def id_take_nth_drop [symmetric])
  qed
qed simp

lemma delete_from_nodes_None: "delete_from_nodes P ns = None \<longleftrightarrow> (\<forall>p \<in> set (policies_of (all_eips ns)). \<not> P p)"
  by (induction ns) (auto split: option.splits simp: delete_from_eips_None dest: delete_from_eips_None [THEN iffD2]
      simp flip: not_None_eq)

lemma delete_from_nodes_Some:
  assumes "delete_from_nodes P ns = Some ns'"
  obtains ms n es' ls where "ns = ms @ n # ls" "delete_from_eips P (en_eips n) = Some es'" "ns' = ms @ n\<lparr>en_eips := es'\<rparr> # ls"
  using assms
proof (induction ns arbitrary: ns' thesis)
  case (Cons n ns)
  show ?case
  proof (cases "delete_from_eips P (en_eips n)")
    case None
    then obtain ns'' where d: "delete_from_nodes P ns = Some ns''" "ns' = n # ns''" using Cons.prems by auto
    show ?thesis
      by (rule Cons.IH [OF _ d(1)], rule Cons.prems(1) [of "n # _"]) (use d in auto)
  next
    case (Some es)
    then show ?thesis using Cons.prems(2) by (intro Cons.prems(1) [of "[]" n ns es]) auto
  qed
qed simp

lemma delete_eips_ok:
  assumes "eips_ok (xs @ es @ ys)" "delete_from_eips P es = Some es'"
  shows "eips_ok (xs @ es' @ ys)"
proof -
  obtain us e ps p qs vs where "es = us @ e # vs" "eip_policies e = ps @ p # qs" "P p"
    "es' = us @ (if ps @ qs = [] then [] else [e\<lparr>eip_policies := ps @ qs\<rparr>]) @ vs"
    using delete_from_eips_Some [OF assms(2)] by metis
  then show ?thesis using assms(1) by (auto simp: eips_ok_def split: if_splits)
qed

lemma delete_node_ok:
  assumes "node_ok n" "delete_from_eips P (en_eips n) = Some es'"
  shows "node_ok (n\<lparr>en_eips := es'\<rparr>)"
proof -
  obtain us e ps p qs vs where "en_eips n = us @ e # vs"
    "es' = us @ (if ps @ qs = [] then [] else [e\<lparr>eip_policies := ps @ qs\<rparr>]) @ vs"
    using delete_from_eips_Some [OF assms(2)] by metis
  then show ?thesis using assms(1) by (auto simp: node_ok_def split: if_splits)
qed

lemma delete_entries:
  assumes "delete_from_eips P (en_eips n) = Some es'"
  obtains A q x B where "node_entries n = A @ (q, x) # B" "node_entries (n\<lparr>en_eips := es'\<rparr>) = A @ B" "P q"
proof -
  obtain us e ps q qs vs where d: "en_eips n = us @ e # vs" "eip_policies e = ps @ q # qs" "P q"
    "es' = us @ (if ps @ qs = [] then [] else [e\<lparr>eip_policies := ps @ qs\<rparr>]) @ vs"
    using delete_from_eips_Some [OF assms] by metis
  let ?f = "\<lambda>es. concat (map (eip_entries (en_name n)) es)" and ?g = "\<lambda>p. (p, (en_name n, eip_ipv4 e, eip_ipv6 e))"
  show ?thesis
    by (rule that [of "?f us @ map ?g ps" q "(en_name n, eip_ipv4 e, eip_ipv6 e)" "map ?g qs @ ?f vs"])
       (use d in \<open>auto simp: node_entries_def eip_entries_def\<close>)
qed

lemma deleteEgressPolicy_ok:
  assumes "gateway_ok g" "deleteEgressPolicy g ns nm = (b, g')"
  defines "p \<equiv> \<lparr>policy_name = nm, policy_namespace = ns\<rparr>"
  shows "gateway_ok g'" "alloc_map (gw_nodes g') = (alloc_map (gw_nodes g))(p := None)"
    "b \<longleftrightarrow> alloc_map (gw_nodes g) p \<noteq> None" "gw_meta g' = gw_meta g" "gw_spec g' = gw_spec g"
    "map en_name (gw_nodes g') = map en_name (gw_nodes g)"
proof -
  have "gateway_ok g' \<and> alloc_map (gw_nodes g') = (alloc_map (gw_nodes g))(p := None) \<and>
    (b \<longleftrightarrow> alloc_map (gw_nodes g) p \<noteq> None) \<and> gw_meta g' = gw_meta g \<and> gw_spec g' = gw_spec g \<and>
    map en_name (gw_nodes g') = map en_name (gw_nodes g)"
  proof (cases "delete_from_nodes (is_policy ns nm) (gw_nodes g)")
    case None
    then have "alloc_map (gw_nodes g) p = None"
      unfolding delete_from_nodes_None alloc_map_None by (auto simp: is_policy_eq p_def)
    moreover have "b = False" "g' = g" using None assms(2) by (auto simp: deleteEgressPolicy_def)
    ultimately show ?thesis using assms(1) by (auto simp: fun_upd_idem)
  next
    case (Some ns')
    then have g': "g' = set_nodes ns' g" "b" using assms(2) by (auto simp: deleteEgressPolicy_def)
    obtain ms n es' ls where n: "gw_nodes g = ms @ n # ls" "delete_from_eips (is_policy ns nm) (en_eips n) = Some es'"
      "ns' = ms @ n\<lparr>en_eips := es'\<rparr> # ls"
      using delete_from_nodes_Some [OF Some] by metis
    obtain A q x B where e: "node_entries n = A @ (q, x) # B" "node_entries (n\<lparr>en_eips := es'\<rparr>) = A @ B" "is_policy ns nm q"
      using delete_entries [OF n(2)] by metis
    have q: "q = p" using e(3) by (simp add: is_policy_eq p_def)
    have d: "distinct (map fst (entries (gw_nodes g)))" using assms(1) distinct_entries by (auto simp: gateway_ok_def)
    have "gateway_ok g'" using assms(1) g' n delete_eips_ok [OF _ n(2), of "all_eips ms" "all_eips ls"] delete_node_ok [OF _ n(2)]
      by (auto simp: gateway_ok_def alloc_with_def)
    moreover have "alloc_map ns' = (alloc_map (gw_nodes g))(p := None)"
    proof -
      have "map_of (xs @ ys) = (map_of (xs @ (p, x) # ys))(p := None)"
        if "p \<notin> fst ` set xs" "p \<notin> fst ` set ys" for xs ys :: "(policy \<times> egress) list"
        using that by (auto simp: fun_eq_iff map_add_def map_of_eq_None_iff split: option.splits) (metis domI dom_map_of_conv_image_fst)+
      from this [of "entries ms @ A" "B @ entries ls"] show ?thesis
        using d n e q by (auto simp: alloc_map_def)
    qed
    moreover have "alloc_map (gw_nodes g) p \<noteq> None" using n e q by (auto simp: alloc_map_def map_of_eq_None_iff)
    ultimately show ?thesis using g' n by auto
  qed
  then show "gateway_ok g'" "alloc_map (gw_nodes g') = (alloc_map (gw_nodes g))(p := None)"
    "b \<longleftrightarrow> alloc_map (gw_nodes g) p \<noteq> None" "gw_meta g' = gw_meta g" "gw_spec g' = gw_spec g"
    "map en_name (gw_nodes g') = map en_name (gw_nodes g)" by blast+
qed

end
