(* ===== verification/GatewayMove.thy ===== *)
theory GatewayMove
  imports GatewayMap
begin

text \<open>
  Moving the egress IPs of a node that left the gateway: the invariant survives, no policy is lost,
  and the moved policies keep their addresses on the least loaded ready node.
\<close>

section \<open>The scan for the target node\<close>

lemma last_index_None: "last_index P xs off r = None \<longleftrightarrow> r = None \<and> \<not> list_ex P xs"
  by (induction xs arbitrary: off r) auto

lemma last_index_idle: "\<not> list_ex P xs \<Longrightarrow> last_index P xs off r = r"
  by (induction xs arbitrary: off r) auto

lemma last_index_Some: "last_index P xs off r = Some j \<Longrightarrow> r = Some j \<or> (off \<le> j \<and> j - off < length xs \<and> P (xs ! (j - off)))"
proof (induction xs arbitrary: off r)
  case (Cons x xs)
  from Cons.IH [of "Suc off" "if P x then Some off else r"] Cons.prems
  have "(if P x then Some off else r) = Some j \<or> (Suc off \<le> j \<and> j - Suc off < length xs \<and> P (xs ! (j - Suc off)))" by simp
  then show ?case by (auto simp: nth_Cons' split: if_splits)
qed simp

abbreviation scan0 :: move_scan where
  "scan0 \<equiv> \<lparr>min_node = None, min_count = None, node_ip_index = None\<rparr>"

abbreviation no_node_ip :: "egress_ip_status \<Rightarrow> bool" where
  "no_node_ip n \<equiv> \<not> list_ex is_node_ip (en_eips n)"

abbreviation scan_step :: "egress_ip_status \<Rightarrow> nat \<Rightarrow> move_scan \<Rightarrow> move_scan" where
  "scan_step n off s \<equiv>
     (if en_status n = EgressTunnelReady \<and> (case min_count s of None \<Rightarrow> True | Some c \<Rightarrow> length (en_eips n) < c)
      then \<lparr>min_node = Some off, min_count = Some (length (en_eips n)),
            node_ip_index = last_index is_node_ip (en_eips n) 0 (node_ip_index s)\<rparr>
      else s)"

lemma scan_below: "min_count s = Some c \<Longrightarrow> \<exists>c'. min_count (scan_nodes ns off s) = Some c' \<and> c' \<le> c"
proof (induction ns arbitrary: off s c)
  case (Cons n ns)
  have "\<exists>b. min_count (scan_step n off s) = Some b \<and> b \<le> c" using Cons.prems by auto
  then obtain b where b: "min_count (scan_step n off s) = Some b" "b \<le> c" by blast
  from Cons.IH [OF b(1)] b(2) show ?case by force
qed simp

lemma scan_least: "n \<in> set ns \<Longrightarrow> is_ready n \<Longrightarrow> \<exists>c. min_count (scan_nodes ns off s) = Some c \<and> c \<le> length (en_eips n)"
proof (induction ns arbitrary: off s)
  case (Cons m ns)
  show ?case
  proof (cases "m = n")
    case True
    have "\<exists>b. min_count (scan_step n off s) = Some b \<and> b \<le> length (en_eips n)"
      using Cons.prems(2) by (auto simp: is_ready_def split: option.splits)
    then obtain b where b: "min_count (scan_step n off s) = Some b" "b \<le> length (en_eips n)" by blast
    from scan_below [OF b(1)] b(2) True show ?thesis by force
  next
    case False
    then show ?thesis using Cons by simp
  qed
qed simp

text \<open>
  The scan either keeps its start or ends at a ready node; the position of the node-IP entry belongs
  to that node when no ready node before it has such an entry.
\<close>

definition scanned :: "egress_ip_status list \<Rightarrow> nat \<Rightarrow> nat option \<Rightarrow> move_scan \<Rightarrow> nat \<Rightarrow> bool" where
  "scanned ns off r s k \<longleftrightarrow> k < length ns \<and> min_node s = Some (off + k) \<and> is_ready (ns ! k) \<and>
     min_count s = Some (length (en_eips (ns ! k))) \<and> (node_ip_index s = None \<longrightarrow> no_node_ip (ns ! k)) \<and>
     ((\<forall>k' < k. is_ready (ns ! k') \<longrightarrow> no_node_ip (ns ! k')) \<longrightarrow>
        node_ip_index s = last_index is_node_ip (en_eips (ns ! k)) 0 r)"

lemma scanned_Cons:
  assumes "scanned ns (Suc off) r s k" "(is_ready n \<longrightarrow> no_node_ip n) \<Longrightarrow> r = r'"
  shows "scanned (n # ns) off r' s (Suc k)"
  using assms by (auto simp: scanned_def)

lemma scan_position: "scan_nodes ns off s = s \<or> (\<exists>k. scanned ns off (node_ip_index s) (scan_nodes ns off s) k)"
proof (induction ns arbitrary: off s)
  case (Cons n ns)
  define t where "t = scan_step n off s"
  have e: "scan_nodes (n # ns) off s = scan_nodes ns (Suc off) t" by (simp add: t_def)
  have idle: "node_ip_index t = node_ip_index s" if "is_ready n \<longrightarrow> no_node_ip n"
    using that by (auto simp: t_def is_ready_def last_index_idle)
  from Cons.IH [of "Suc off" t] show ?case unfolding e
  proof
    assume t: "scan_nodes ns (Suc off) t = t"
    show "scan_nodes ns (Suc off) t = s \<or> (\<exists>k. scanned (n # ns) off (node_ip_index s) (scan_nodes ns (Suc off) t) k)"
    proof (cases "t = s")
      case False
      then have "t = \<lparr>min_node = Some off, min_count = Some (length (en_eips n)),
            node_ip_index = last_index is_node_ip (en_eips n) 0 (node_ip_index s)\<rparr>" "is_ready n"
        by (auto simp: t_def is_ready_def split: if_splits)
      then have "scanned (n # ns) off (node_ip_index s) t 0" by (simp add: scanned_def last_index_None)
      then show ?thesis unfolding t by blast
    qed (use t in simp)
  next
    assume "\<exists>k. scanned ns (Suc off) (node_ip_index t) (scan_nodes ns (Suc off) t) k"
    then obtain k where "scanned ns (Suc off) (node_ip_index t) (scan_nodes ns (Suc off) t) k" by blast
    from scanned_Cons [OF this idle]
    show "scan_nodes ns (Suc off) t = s \<or> (\<exists>k. scanned (n # ns) off (node_ip_index s) (scan_nodes ns (Suc off) t) k)" by blast
  qed
qed simp

lemma scan_scanned:
  assumes "min_node (scan_nodes ns 0 scan0) = Some i"
  shows "scanned ns 0 None (scan_nodes ns 0 scan0) i"
proof -
  have "scan_nodes ns 0 scan0 \<noteq> scan0" using assms by auto
  then obtain k where k: "scanned ns 0 None (scan_nodes ns 0 scan0) k" using scan_position [of ns 0 scan0] by auto
  then show ?thesis using assms by (auto simp: scanned_def)
qed

lemma scan_target:
  assumes "min_node (scan_nodes ns 0 scan0) = Some i"
  shows "i < length ns" "is_ready (ns ! i)" "n \<in> set ns \<Longrightarrow> is_ready n \<Longrightarrow> length (en_eips (ns ! i)) \<le> length (en_eips n)"
    "node_ip_index (scan_nodes ns 0 scan0) = None \<Longrightarrow> no_node_ip (ns ! i)"
    "\<forall>k < i. is_ready (ns ! k) \<longrightarrow> no_node_ip (ns ! k) \<Longrightarrow> node_ip_index (scan_nodes ns 0 scan0) = Some j \<Longrightarrow>
       j < length (en_eips (ns ! i)) \<and> is_node_ip (en_eips (ns ! i) ! j)"
proof -
  note sc = scan_scanned [OF assms, unfolded scanned_def]
  show "i < length ns" "is_ready (ns ! i)"
    "node_ip_index (scan_nodes ns 0 scan0) = None \<Longrightarrow> no_node_ip (ns ! i)" using sc by auto
  show "n \<in> set ns \<Longrightarrow> is_ready n \<Longrightarrow> length (en_eips (ns ! i)) \<le> length (en_eips n)"
    using scan_least [of n ns 0 scan0] sc by auto
  show "\<forall>k < i. is_ready (ns ! k) \<longrightarrow> no_node_ip (ns ! k) \<Longrightarrow> node_ip_index (scan_nodes ns 0 scan0) = Some j \<Longrightarrow>
       j < length (en_eips (ns ! i)) \<and> is_node_ip (en_eips (ns ! i) ! j)"
    using sc last_index_Some [of is_node_ip "en_eips (ns ! i)" 0 None j] by simp
qed

lemma scan_none: "min_node (scan_nodes ns 0 scan0) = None \<longleftrightarrow> \<not> list_ex is_ready ns"
proof
  assume "min_node (scan_nodes ns 0 scan0) = None"
  then have "scan_nodes ns 0 scan0 = scan0" using scan_position [of ns 0 scan0] by (auto simp: scanned_def)
  then show "\<not> list_ex is_ready ns" using scan_least [of _ ns 0 scan0] by (auto simp: list_ex_iff)
next
  assume "\<not> list_ex is_ready ns"
  then show "min_node (scan_nodes ns 0 scan0) = None"
    using scan_target(1,2) [of ns] by (cases "min_node (scan_nodes ns 0 scan0)") (auto simp: list_ex_iff)
qed

section \<open>The loop that moves\<close>

lemma add_eip_nth: "i < length ns \<Longrightarrow> add_eip i e ns ! i = (ns ! i)\<lparr>en_eips := en_eips (ns ! i) @ [e]\<rparr>"
  by (simp add: add_eip_def)

lemma add_policy_nth: "i < length ns \<Longrightarrow> add_policy i j ps ns ! i = (ns ! i)\<lparr>en_eips :=
    (en_eips (ns ! i))[j := (en_eips (ns ! i) ! j)\<lparr>eip_policies := eip_policies (en_eips (ns ! i) ! j) @ ps\<rparr>]\<rparr>"
  by (simp add: add_policy_def Let_def)

lemma mset_policies_of_perm: "mset xs = mset ys \<Longrightarrow> mset (policies_of xs) = mset (policies_of ys)"
  by (simp add: mset_policies_of)

lemma mset_policies_add_policy:
  assumes "i < length ns" "j < length (en_eips (ns ! i))"
  shows "mset (policies_of (all_eips (add_policy i j ps ns))) = mset (policies_of (all_eips ns)) + mset ps"
proof -
  let ?t = "en_eips (ns ! i) ! j"
  obtain rest where "mset (all_eips ns) = mset (?t # rest)"
    "mset (all_eips (add_policy i j ps ns)) = mset (?t\<lparr>eip_policies := eip_policies ?t @ ps\<rparr> # rest)"
    using mset_add_policy [OF assms, where ps = ps] by (metis mset.simps(2))
  from this [THEN mset_policies_of_perm] show ?thesis by simp
qed

lemma move_loop_alloc:
  assumes "move_loop i mv idx ns = Ok ns'" "i < length ns" "alloc_with ns mv"
  shows "alloc_with ns' [] \<and> map en_name ns' = map en_name ns \<and>
    mset (policies_of (all_eips ns')) = mset (policies_of (all_eips ns)) + mset (policies_of mv)"
  using assms
proof (induction mv arbitrary: idx ns)
  case (Cons e mv)
  show ?case
  proof (cases "is_node_ip e \<and> idx \<noteq> None")
    case True
    then obtain j where j: "idx = Some j" "j < length (en_eips (ns ! i))"
      "move_loop i mv (Some j) (add_policy i j (eip_policies e) ns) = Ok ns'"
      using Cons.prems(1) by (auto split: if_splits)
    from Cons.IH [OF j(3)] show ?thesis
      using alloc_merge [OF Cons.prems(3) _ Cons.prems(2) j(2)] True Cons.prems(2) mset_policies_add_policy [OF Cons.prems(2) j(2)]
      by simp
  next
    case False
    define e' where "e' = (if is_node_ip e then \<lparr>eip_ipv4 = [], eip_ipv6 = [], eip_policies = eip_policies e\<rparr> else e)"
    have e': "e' = e" by (cases e) (auto simp: e'_def is_node_ip_def)
    have m: "move_loop i mv (if is_node_ip e then Some (length (en_eips (ns ! i))) else idx) (add_eip i e ns) = Ok ns'"
      using Cons.prems(1) False e' by (auto simp: e'_def split: if_splits)
    have a: "alloc_with (add_eip i e ns) mv" using False Cons.prems by (intro alloc_add_eip) auto
    have "mset (policies_of (all_eips (add_eip i e ns))) = mset (policies_of (all_eips ns)) + mset (eip_policies e)"
      by (simp add: mset_policies_of mset_add_eip [OF Cons.prems(2)])
    then show ?thesis using Cons.IH [OF m _ a] Cons.prems(2) by simp
  qed
qed simp

text \<open>With the position of a node-IP entry of the target, the loop returns and moves every policy.\<close>

definition good_index :: "egress_ip_status \<Rightarrow> nat option \<Rightarrow> bool" where
  "good_index n idx = (case idx of None \<Rightarrow> no_node_ip n | Some j \<Rightarrow> j < length (en_eips n) \<and> is_node_ip (en_eips n ! j))"

lemma move_loop_Ok:
  assumes "i < length ns" "good_index (ns ! i) idx"
  shows "\<exists>ns'. move_loop i mv idx ns = Ok ns' \<and>
    set (entries ns') = set (entries ns) \<union> (\<Union>e \<in> set mv. set (eip_entries (en_name (ns ! i)) e))"
  using assms
proof (induction mv arbitrary: idx ns)
  case (Cons e mv)
  show ?case
  proof (cases "is_node_ip e \<and> idx \<noteq> None")
    case True
    then obtain j where j: "idx = Some j" "j < length (en_eips (ns ! i))" "is_node_ip (en_eips (ns ! i) ! j)"
      using Cons.prems(2) by (auto simp: good_index_def)
    let ?ns = "add_policy i j (eip_policies e) ns"
    have n: "en_name (?ns ! i) = en_name (ns ! i)" using Cons.prems(1) by (simp add: add_policy_nth)
    have "good_index (?ns ! i) (Some j)" using j Cons.prems(1) by (simp add: good_index_def add_policy_nth)
    then obtain ns' where "move_loop i mv (Some j) ?ns = Ok ns'"
      "set (entries ns') = set (entries ?ns) \<union> (\<Union>e \<in> set mv. set (eip_entries (en_name (ns ! i)) e))"
      using Cons.IH [of ?ns "Some j"] Cons.prems(1) n by auto
    moreover have "set (entries ?ns) = set (entries ns) \<union> set (eip_entries (en_name (ns ! i)) e)"
      using entries_add_policy [OF Cons.prems(1) j(2)] True j(3) by (auto simp: eip_entries_def is_node_ip_def)
    ultimately show ?thesis using True j by auto
  next
    case False
    let ?idx = "if is_node_ip e then Some (length (en_eips (ns ! i))) else idx" and ?ns = "add_eip i e ns"
    have e: "is_node_ip e \<Longrightarrow> \<lparr>eip_ipv4 = [], eip_ipv6 = [], eip_policies = eip_policies e\<rparr> = e"
      by (cases e) (auto simp: is_node_ip_def)
    have m: "move_loop i (e # mv) idx ns = move_loop i mv ?idx ?ns" using False e by auto
    have n: "en_name (?ns ! i) = en_name (ns ! i)" using Cons.prems(1) by (simp add: add_eip_nth)
    have "good_index (?ns ! i) ?idx"
      using Cons.prems False by (auto simp: good_index_def add_eip_nth nth_append split: option.splits)
    then show ?thesis unfolding m using Cons.IH [of ?ns ?idx] Cons.prems(1) n entries_add_eip [OF Cons.prems(1)] by auto
  qed
qed simp

section \<open>Moving\<close>

lemma move_cases:
  assumes "moveEipToReadyNode g mv = Ok (g', rest)"
  obtains (none) "g' = g" "rest = mv" "\<not> list_ex is_ready (gw_nodes g)"
  | (moved) i ns' where "min_node (scan_nodes (gw_nodes g) 0 scan0) = Some i" "rest = []" "g' = set_nodes ns' g"
      "move_loop i mv (node_ip_index (scan_nodes (gw_nodes g) 0 scan0)) (gw_nodes g) = Ok ns'"
proof (cases "list_ex is_ready (gw_nodes g)")
  case False
  then have "ReadyCount (gw_status g) = 0" by (auto simp: ReadyCount_eq filter_empty_conv list_ex_iff)
  with False assms none show ?thesis by (auto simp: moveEipToReadyNode_def)
next
  case True
  then have "0 < ReadyCount (gw_status g)" by (auto simp: ReadyCount_pos list_ex_iff)
  moreover obtain i where "min_node (scan_nodes (gw_nodes g) 0 scan0) = Some i"
    using True scan_none [of "gw_nodes g"] by auto
  ultimately show ?thesis using assms moved by (auto simp: moveEipToReadyNode_def Let_def)
qed

lemma move_alloc:
  assumes "moveEipToReadyNode g mv = Ok (g', rest)" "alloc_with (gw_nodes g) mv"
  shows "gateway_ok g' \<and> gw_meta g' = gw_meta g \<and> gw_spec g' = gw_spec g \<and>
    map en_name (gw_nodes g') = map en_name (gw_nodes g) \<and>
    mset (policies_of (all_eips (gw_nodes g'))) + mset (policies_of rest) =
      mset (policies_of (all_eips (gw_nodes g))) + mset (policies_of mv)"
  using assms(1)
proof (cases rule: move_cases)
  case none
  then show ?thesis using alloc_with_drop [OF assms(2)] by (simp add: gateway_ok_def)
next
  case (moved i ns')
  from move_loop_alloc [OF moved(4) scan_target(1) [OF moved(1)] assms(2)]
  show ?thesis using moved by (simp add: gateway_ok_def)
qed

section \<open>Node-IP entries\<close>

text \<open>
  A node keeps at most one entry for its own address, when an assignment that does not ask for the
  node's address has an address to give.
\<close>

definition has_address :: "egress_gateway \<Rightarrow> egress_ip \<Rightarrow> bool" where
  "has_address g spec \<longleftrightarrow> use_node_ip spec \<or> ei_ipv4 spec \<noteq> [] \<or> ei_ipv6 spec \<noteq> [] \<or>
     (if allocator_policy spec = EipAllocatorRR then pool_ipv4 (gw_pools g) \<noteq> [] \<or> pool_ipv6 (gw_pools g) \<noteq> []
      else ipv4_default_eip (gw_pools g) \<noteq> [] \<or> ipv6_default_eip (gw_pools g) \<noteq> [])"

lemma node_ips_add:
  assumes "node_ips_ok g" "i < length (gw_nodes g)"
  shows "is_node_ip e \<Longrightarrow> no_node_ip (gw_nodes g ! i) \<Longrightarrow> node_ips_ok (set_nodes (add_eip i e (gw_nodes g)) g)"
    "\<not> is_node_ip e \<Longrightarrow> node_ips_ok (set_nodes (add_eip i e (gw_nodes g)) g)"
    "j < length (en_eips (gw_nodes g ! i)) \<Longrightarrow> node_ips_ok (set_nodes (add_policy i j ps (gw_nodes g)) g)"
proof -
  have n: "\<forall>n \<in> set (gw_nodes g). node_ok n" using assms(1) by (simp add: node_ips_ok_def)
  show "is_node_ip e \<Longrightarrow> no_node_ip (gw_nodes g ! i) \<Longrightarrow> node_ips_ok (set_nodes (add_eip i e (gw_nodes g)) g)"
    "\<not> is_node_ip e \<Longrightarrow> node_ips_ok (set_nodes (add_eip i e (gw_nodes g)) g)"
    using nodes_ok_add_eip [OF n assms(2), of e] unfolding node_ips_ok_def set_nodes_simps by blast+
  show "j < length (en_eips (gw_nodes g ! i)) \<Longrightarrow> node_ips_ok (set_nodes (add_policy i j ps (gw_nodes g)) g)"
    using nodes_ok_add_policy [OF n assms(2)] unfolding node_ips_ok_def set_nodes_simps by blast
qed

lemma assign_rr_node_ips:
  assumes "node_ips_ok g" "assign_rr ord intn4 intn6 p spec g = Ok (a, g')"
    "map_iteration ord" "random_source intn4" "random_source intn6" "ei_ipv4 spec = []" "ei_ipv6 spec = []"
    "pool_ipv4 (gw_pools g) \<noteq> [] \<or> pool_ipv6 (gw_pools g) \<noteq> []"
  shows "node_ips_ok g'"
proof (rule assign_rr_cases [OF assms(2-7)])
  fix v4 v6 i
  assume v: "nIndex g = Some i" "v4 = [] \<longleftrightarrow> pool_ipv4 (gw_pools g) = []" "v6 = [] \<longleftrightarrow> pool_ipv6 (gw_pools g) = []"
    and g': "g' = set_nodes (add_eip i \<lparr>eip_ipv4 = v4, eip_ipv6 = v6, eip_policies = [p]\<rparr> (gw_nodes g)) g"
  have "\<not> is_node_ip \<lparr>eip_ipv4 = v4, eip_ipv6 = v6, eip_policies = [p]\<rparr>"
    using v(2,3) assms(8) unfolding is_node_ip_def by simp
  then show ?thesis unfolding g' by (rule node_ips_add(2) [OF assms(1) nIndex_Some(1) [OF v(1)]])
qed

lemma assign_node_ip_node_ips:
  assumes "node_ips_ok g" "assign_node_ip p g = (b, g')"
  shows "node_ips_ok g'"
proof (cases "nIndex g")
  case None
  then show ?thesis using assms by (simp add: assign_node_ip_def)
next
  case (Some i)
  note ix = nIndex_Some(1) [OF Some]
  show ?thesis
  proof (cases "find_index is_node_ip (en_eips (gw_nodes g ! i))")
    case None
    then have "no_node_ip (gw_nodes g ! i)" by (simp add: find_index_None)
    then show ?thesis using assms None Some node_ips_add(1) [OF assms(1) ix]
      by (auto simp: assign_node_ip_def Let_def is_node_ip_def)
  next
    case j: (Some j)
    then show ?thesis using assms Some node_ips_add(3) [OF assms(1) ix] find_index_Some [OF j]
      by (auto simp: assign_node_ip_def Let_def)
  qed
qed

lemma assign_new_eip_node_ips:
  assumes "node_ips_ok g" "ei_ipv4 spec \<noteq> [] \<or> ei_ipv6 spec \<noteq> []" "assign_new_eip p spec g = Ok (a, g')"
  shows "node_ips_ok g'"
  using assms best_node_Some [of "gw_nodes g" 0 MaxInt8 None]
  by (auto simp: assign_new_eip_def Let_def is_node_ip_def intro!: node_ips_add(2) split: option.splits if_splits)

lemma assign_default_node_ips:
  assumes "node_ips_ok g" "ipv4_default_eip (gw_pools g) \<noteq> [] \<or> ipv6_default_eip (gw_pools g) \<noteq> []"
    "assign_default p g = Ok (a, g')"
  shows "node_ips_ok g'"
  using assms find_index_Some [of "\<lambda>n. en_status n = EgressTunnelReady" "gw_nodes g"]
  by (auto simp: assign_default_def Let_def is_node_ip_def intro!: node_ips_add(2) split: option.splits if_splits)

lemma assignIP_node_ips:
  assumes "node_ips_ok g" "has_address g spec" "assignIP ord intn4 intn6 g p spec = Ok (b, g')"
    "map_iteration ord" "random_source intn4" "random_source intn6"
  shows "node_ips_ok g'"
  using assms(3)
proof (cases rule: assignIP_cases)
  case node
  then show ?thesis using assign_node_ip_node_ips [OF assms(1)] by simp
next
  case (reuse ij a)
  then show ?thesis using find_eip_Some [of "same_eip spec" "gw_nodes g" "fst ij" "snd ij"] assms(1)
    by (auto simp: reuse_eip_def Let_def intro!: node_ips_add(3) split: prod.splits)
next
  case (new a)
  then show ?thesis using assign_new_eip_node_ips [OF assms(1)] by blast
next
  case (rr a)
  then show ?thesis using assign_rr_node_ips [OF assms(1) rr(5) assms(4-6)] assms(2) by (simp add: has_address_def)
next
  case (default a)
  then show ?thesis using assign_default_node_ips [OF assms(1) _ default(5)] assms(2) by (simp add: has_address_def)
qed

lemma move_loop_node_ips:
  assumes "move_loop i mv idx ns = Ok ns'" "i < length ns" "\<forall>n \<in> set ns. node_ok n" "idx = None \<Longrightarrow> no_node_ip (ns ! i)"
  shows "\<forall>n \<in> set ns'. node_ok n"
  using assms
proof (induction mv arbitrary: idx ns)
  case (Cons e mv)
  show ?case
  proof (cases "is_node_ip e \<and> idx \<noteq> None")
    case True
    then obtain j where j: "idx = Some j" "j < length (en_eips (ns ! i))"
      "move_loop i mv (Some j) (add_policy i j (eip_policies e) ns) = Ok ns'"
      using Cons.prems(1) by (auto split: if_splits)
    show ?thesis by (rule Cons.IH [OF j(3)]) (use Cons.prems nodes_ok_add_policy [OF _ _ j(2)] in auto)
  next
    case False
    let ?idx = "if is_node_ip e then Some (length (en_eips (ns ! i))) else idx"
    have "is_node_ip e \<Longrightarrow> \<lparr>eip_ipv4 = [], eip_ipv6 = [], eip_policies = eip_policies e\<rparr> = e"
      by (cases e) (auto simp: is_node_ip_def)
    then have m: "move_loop i mv ?idx (add_eip i e ns) = Ok ns'" using Cons.prems(1) False by auto
    have n: "\<forall>n \<in> set (add_eip i e ns). node_ok n"
      by (rule nodes_ok_add_eip) (use Cons.prems False in auto)
    show ?thesis
      by (rule Cons.IH [OF m _ n]) (use Cons.prems in \<open>auto simp: add_eip_nth split: if_splits\<close>)
  qed
qed simp

lemma move_node_ips:
  assumes "moveEipToReadyNode g mv = Ok (g', rest)" "node_ips_ok g"
  shows "node_ips_ok g'"
  using assms(1)
proof (cases rule: move_cases)
  case (moved i ns')
  from move_loop_node_ips [OF moved(4) scan_target(1) [OF moved(1)]] scan_target(4) [OF moved(1)]
  show ?thesis using moved assms(2) by (simp add: node_ips_ok_def)
qed (use assms in simp)

lemma delete_node_ips: "node_ips_ok g \<Longrightarrow> deleteEgressPolicy g ns nm = (b, g') \<Longrightarrow> node_ips_ok g'"
proof -
  assume ok: "node_ips_ok g" and d: "deleteEgressPolicy g ns nm = (b, g')"
  show "node_ips_ok g'"
  proof (cases "delete_from_nodes (is_policy ns nm) (gw_nodes g)")
    case (Some ns')
    obtain ms n es' ls where "gw_nodes g = ms @ n # ls" "delete_from_eips (is_policy ns nm) (en_eips n) = Some es'"
      "ns' = ms @ n\<lparr>en_eips := es'\<rparr> # ls"
      using delete_from_nodes_Some [OF Some] by metis
    then show ?thesis using Some d ok delete_node_ok by (auto simp: deleteEgressPolicy_def node_ips_ok_def)
  qed (use ok d in \<open>simp add: deleteEgressPolicy_def\<close>)
qed

end
