(* ===== verification/Utils.thy ===== *)
theory Utils
  imports ApiTypes IPUtils
begin

text \<open>
  The helpers of \<^verbatim>\<open>pkg/utils\<close>: reconcile requests that carry the kind of their object
  (\<^verbatim>\<open>flat.go\<close>), finalizers, the comparison of string slices, the addresses of a node, removal
  from a slice, and the generic set.
\<close>

section \<open>Requests that carry a kind\<close>

record request =
  req_namespace :: string
  req_name :: string

text \<open>
  \<^verbatim>\<open>path.Join\<close> of the Go library: empty elements are ignored, the rest is joined by slashes and
  cleaned (no empty element, no dot, a double dot removes the element before it).
\<close>

fun clean_parts :: "bool \<Rightarrow> string list \<Rightarrow> string list \<Rightarrow> string list" where
  "clean_parts rooted out [] = out"
| "clean_parts rooted out (x # xs) =
     (if x = [] \<or> x = ''.'' then clean_parts rooted out xs
      else if x = ''..'' then
        (if out \<noteq> [] \<and> last out \<noteq> ''..'' then clean_parts rooted (butlast out) xs
         else if rooted then clean_parts rooted out xs
         else clean_parts rooted (out @ [x]) xs)
      else clean_parts rooted (out @ [x]) xs)"

definition path_clean :: "string \<Rightarrow> string" where
  "path_clean p =
     (if p = [] then ''.''
      else let rooted = (hd p = CHR ''/''); c = join_with ''/'' (clean_parts rooted [] (split_on (CHR ''/'') p)) in
        if rooted then CHR ''/'' # c else if c = [] then ''.'' else c)"

definition path_join :: "string \<Rightarrow> string \<Rightarrow> string" where
  "path_join a b =
     (if a = [] \<and> b = [] then []
      else if a = [] then path_clean b
      else if b = [] then path_clean a
      else path_clean (a @ ''/'' @ b))"

definition KindToMapFlat :: "string \<Rightarrow> object_meta \<Rightarrow> request list" where
  "KindToMapFlat kind obj =
     (let ns = om_namespace obj in
      [\<lparr>req_namespace = (if ns = [] then kind @ ''/'' else path_join kind ns), req_name = om_name obj\<rparr>])"

datatype flat_err = ErrInvalidRequest

definition ParseKindWithReq :: "request \<Rightarrow> (flat_err, string \<times> request) outcome" where
  "ParseKindWithReq req =
     (let arr = split_on (CHR ''/'') (req_namespace req) in
      if length arr \<noteq> 2 then Err ErrInvalidRequest
      else Ok (arr ! 0, \<lparr>req_namespace = arr ! 1, req_name = req_name req\<rparr>))"

section \<open>Finalizers and slices\<close>

text \<open>The inner loop runs from the end and removes the last occurrence.\<close>

fun remove_last :: "'a \<Rightarrow> 'a list \<Rightarrow> 'a list" where
  "remove_last f [] = []"
| "remove_last f (x # xs) =
     (if f \<in> set xs then x # remove_last f xs else if x = f then xs else x # xs)"

definition RemoveFinalizers :: "object_meta \<Rightarrow> string list \<Rightarrow> object_meta" where
  "RemoveFinalizers objMeta finalizers =
     fold (\<lambda>f m. m\<lparr>om_finalizers := remove_last f (om_finalizers m)\<rparr>) finalizers objMeta"

text \<open>The counter map of \<^verbatim>\<open>EqualStringSlice\<close>; a missing key is a count that was never set.\<close>

fun consume :: "(string \<rightharpoonup> nat) \<Rightarrow> string list \<Rightarrow> bool" where
  "consume aMap [] = True"
| "consume aMap (v # b) =
     (case aMap v of
        None \<Rightarrow> False
      | Some n \<Rightarrow> if n = 0 then False else consume (aMap(v \<mapsto> n - 1)) b)"

definition count_strings :: "string list \<Rightarrow> (string \<rightharpoonup> nat)" where
  "count_strings a = fold (\<lambda>v m. m(v \<mapsto> (case m v of None \<Rightarrow> 0 | Some c \<Rightarrow> c) + 1)) a Map.empty"

definition EqualStringSlice :: "string list \<Rightarrow> string list \<Rightarrow> bool" where
  "EqualStringSlice a b = (if length a \<noteq> length b then False else consume (count_strings a) b)"

fun indexOf :: "'a list \<Rightarrow> 'a \<Rightarrow> nat \<Rightarrow> nat option" where
  "indexOf [] element i = None"
| "indexOf (v # sl) element i = (if v = element then Some i else indexOf sl element (Suc i))"

definition RemoveElement :: "'a list \<Rightarrow> 'a \<Rightarrow> 'a list" where
  "RemoveElement sl element = (case indexOf sl element 0 of
     None \<Rightarrow> sl
   | Some i \<Rightarrow> take i sl @ drop (Suc i) sl)"

definition GetNodeIP :: "k8s_node \<Rightarrow> string \<times> string" where
  "GetNodeIP node = fold (\<lambda>(ty, address) (v4, v6).
       if ty = ''InternalIP''
       then (if IsIPv4 address = Ok True then address else v4, if IsIPv6 address = Ok True then address else v6)
       else (v4, v6)) (node_addresses node) ([], [])"

section \<open>Facts\<close>

lemma clean_two:
  assumes "a \<noteq> []" "b \<noteq> []" "CHR ''/'' \<notin> set a" "CHR ''/'' \<notin> set b" "a \<notin> {''.'', ''..''}" "b \<notin> {''.'', ''..''}"
  shows "path_join a b = a @ ''/'' @ b"
proof -
  have h: "hd (a @ CHR ''/'' # b) \<noteq> CHR ''/''" using assms by (cases a) auto
  have "split_on (CHR ''/'') (a @ CHR ''/'' # b) = [a, b]" using assms by (simp add: split_on_append split_on_nosep)
  then show ?thesis using assms h by (simp add: path_join_def path_clean_def Let_def)
qed

lemma remove_last_mset: "mset (remove_last f xs) = mset xs - {#f#}"
  by (induction xs) (auto simp: add_mset_commute)

lemma RemoveFinalizers_mset: "mset (om_finalizers (RemoveFinalizers m fs)) = mset (om_finalizers m) - mset fs"
  by (induction fs arbitrary: m) (auto simp: RemoveFinalizers_def remove_last_mset)

lemma count_strings_spec:
  "count_strings a v = (if v \<in> set a then Some (count (mset a) v) else None)"
proof -
  have "fold (\<lambda>v m. m(v \<mapsto> (case m v of None \<Rightarrow> 0 | Some c \<Rightarrow> c) + 1)) a m v =
      (if v \<in> set a then Some ((case m v of None \<Rightarrow> 0 | Some c \<Rightarrow> c) + count (mset a) v) else m v)" for m :: "string \<rightharpoonup> nat"
    by (induction a arbitrary: m) (auto simp: count_mset_0_iff not_in_iff split: option.splits)
  then show ?thesis by (simp add: count_strings_def)
qed

lemma consume_spec:
  "(\<And>v. (case m v of None \<Rightarrow> 0 | Some c \<Rightarrow> c) = count M v) \<Longrightarrow> consume m b \<longleftrightarrow> mset b \<subseteq># M"
proof (induction b arbitrary: m M)
  case (Cons v b)
  show ?case
  proof (cases "count M v")
    case 0
    then have "\<not> consume m (v # b)" using Cons.prems [of v] by (auto split: option.splits)
    moreover have "\<not> mset (v # b) \<subseteq># M" using 0 by (auto simp: insert_subset_eq_iff count_eq_zero_iff)
    ultimately show ?thesis by simp
  next
    case (Suc k)
    then have m: "m v = Some (Suc k)" using Cons.prems [of v] by (auto split: option.splits)
    have "(case (m(v \<mapsto> k)) u of None \<Rightarrow> 0 | Some c \<Rightarrow> c) = count (M - {#v#}) u" for u
      using Cons.prems [of u] Suc by auto
    then have "consume (m(v \<mapsto> k)) b \<longleftrightarrow> mset b \<subseteq># M - {#v#}" by (rule Cons.IH)
    moreover have "v \<in># M" using Suc by (metis count_greater_zero_iff zero_less_Suc)
    ultimately show ?thesis using m by (simp add: insert_subset_eq_iff)
  qed
qed simp

lemma EqualStringSlice_mset: "EqualStringSlice a b \<longleftrightarrow> mset a = mset b"
proof -
  have "consume (count_strings a) b \<longleftrightarrow> mset b \<subseteq># mset a"
    by (rule consume_spec) (auto simp: count_strings_spec count_mset_0_iff split: if_splits option.splits)
  then show ?thesis
    by (auto simp: EqualStringSlice_def dest: mset_eq_length) (metis mset_subset_size nat_neq_iff size_mset subset_mset.le_neq_trans)
qed

lemma indexOf_None: "indexOf xs x i = None \<longleftrightarrow> x \<notin> set xs"
  by (induction xs arbitrary: i) auto

lemma indexOf_Some: "indexOf xs x i = Some k \<Longrightarrow> i \<le> k \<and> take (k - i) xs @ drop (Suc (k - i)) xs = remove1 x xs"
proof (induction xs arbitrary: i)
  case (Cons v xs)
  show ?case
  proof (cases "v = x")
    case False
    then have "Suc i \<le> k" "take (k - Suc i) xs @ drop (Suc (k - Suc i)) xs = remove1 x xs" using Cons by auto
    moreover have "k - i = Suc (k - Suc i)" using calculation by simp
    ultimately show ?thesis using False by simp
  qed (use Cons in simp)
qed simp

lemma RemoveElement_eq: "RemoveElement xs x = remove1 x xs"
proof (cases "indexOf xs x 0")
  case None
  then have "x \<notin> set xs" using indexOf_None by metis
  then show ?thesis using None by (simp add: RemoveElement_def remove1_idem)
next
  case (Some k)
  then show ?thesis using indexOf_Some [OF Some] by (simp add: RemoveElement_def)
qed

end
