(* ===== verification/GatewayCtl.thy ===== *)
theory GatewayCtl
  imports GatewayMove Utils
begin

text \<open>
  The reconciler of \<^verbatim>\<open>pkg/egressgateway/egress_gateway.go\<close>. The Kubernetes API is reached
  through clients, which are parameters: a call runs over the state \<open>'w\<close> of the cluster and
  returns an object or an API error, and the state may change at any call, as other components act
  on it. An update returns the object as the server has stored it, which the Go client writes back
  into the caller's object. A reconcile function yields \<open>Ok\<close> of the \<^verbatim>\<open>Requeue\<close> flag, or
  \<open>Err\<close> of the flag and the error.
\<close>

section \<open>Clients\<close>

datatype api_err = NotFound | Conflict | OtherErr string

type_synonym ('w, 'a) api = "('w, api_err, 'a) prog"

record 'w client =
  get_gateway :: "string \<Rightarrow> ('w, egress_gateway) api"
  get_tunnel :: "string \<Rightarrow> ('w, egress_tunnel) api"
  get_node :: "string \<Rightarrow> ('w, k8s_node) api"
  get_policy :: "string \<Rightarrow> string \<Rightarrow> ('w, egress_policy) api"
  get_cpolicy :: "string \<Rightarrow> string \<Rightarrow> ('w, egress_cluster_policy) api"
  list_gateways :: "('w, egress_gateway list) api"
  list_policies :: "('w, egress_policy list) api"
  list_cpolicies :: "('w, egress_cluster_policy list) api"
  list_nodes :: "(labels \<Rightarrow> bool) \<Rightarrow> ('w, k8s_node list) api"
  update_gateway :: "egress_gateway \<Rightarrow> ('w, egress_gateway) api"
  update_policy :: "egress_policy \<Rightarrow> ('w, egress_policy) api"
  status_gateway :: "egress_gateway \<Rightarrow> ('w, egress_gateway) api"
  status_policy :: "egress_policy \<Rightarrow> ('w, egress_policy) api"
  status_cpolicy :: "egress_cluster_policy \<Rightarrow> ('w, egress_cluster_policy) api"

datatype ctl_err =
    ApiErr api_err
  | AssignErr gw_err
  | NotEnoughIP
  | SelectorErr
  | GatewayNotFound string
  | UsageErr
  | RequestErr

type_synonym ('w, 'a) ctl = "('w, ctl_err, 'a) prog"
type_synonym ('w, 'a) rec = "('w, bool \<times> ctl_err, 'a) prog"

text \<open>
  The choices a run makes: a map iteration order and two random sources. The reconciler holds the
  cached client of the manager, the direct client, the conversion of label selectors, and the source
  of choices.
\<close>

record choices =
  ch_order :: "string iter_order"
  ch_intn4 :: "nat \<Rightarrow> nat"
  ch_intn6 :: "nat \<Rightarrow> nat"

record 'w egnReconciler =
  r_client :: "'w client"
  r_cli :: "'w client"
  r_selector :: "label_selector option \<Rightarrow> (labels \<Rightarrow> bool) option"
  r_draw :: "'w \<Rightarrow> choices \<times> 'w"

definition draw_choices :: "'w egnReconciler \<Rightarrow> ('w, 'e, choices) prog" where
  "draw_choices r = (\<lambda>w. case r_draw r w of (c, w') \<Rightarrow> (Ok c, w'))"

definition api :: "('w, 'a) api \<Rightarrow> ('w, 'a) ctl" where
  "api m = or_fail ApiErr m"

definition requeue :: "bool \<Rightarrow> ('w, 'a) ctl \<Rightarrow> ('w, 'a) rec" where
  "requeue b m = or_fail (\<lambda>e. (b, e)) m"

text \<open>
  The pattern at the start of every reconcile function: an object that is not found counts as
  deleted (\<open>None\<close>); any other error is returned with \<^verbatim>\<open>Requeue\<close>.
\<close>

definition fetch :: "('w, 'a) api \<Rightarrow> ('w, 'a option) rec" where
  "fetch m = bindp (attempt m) (\<lambda>x. case x of
     Inr obj \<Rightarrow> ret (Some obj)
   | Inl e \<Rightarrow> if e \<noteq> NotFound then fail (True, ApiErr e) else ret None)"

section \<open>Policy status\<close>

definition updateEgressPolicyIfNeed :: "'w client \<Rightarrow> egress_policy \<Rightarrow> assigned_ip \<Rightarrow> ('w, unit) ctl" where
  "updateEgressPolicyIfNeed cli policy a =
     (let e = ep_egress_ip (ep_spec policy) in
      if ei_ipv4 e \<noteq> as_ipv4 a \<or> ei_ipv4 e \<noteq> as_ipv6 a
      then bindp (api (update_policy cli (policy\<lparr>ep_spec := (ep_spec policy)\<lparr>ep_egress_ip :=
             e\<lparr>ei_ipv4 := as_ipv4 a, ei_ipv6 := as_ipv6 a\<rparr>\<rparr>\<rparr>))) (\<lambda>_. ret ())
      else ret ())"

definition status_of :: "assigned_ip \<Rightarrow> egress_policy_status" where
  "status_of a = \<lparr>st_ipv4 = as_ipv4 a, st_ipv6 = as_ipv6 a, st_node = as_node a\<rparr>"

text \<open>
  On a conflict the policy is read again into the same object, so that the second update writes the
  status of the server, and the first error is returned even when it succeeds.
\<close>

definition updateEgressPolicyStatusIfNeed :: "'w client \<Rightarrow> egress_policy \<Rightarrow> assigned_ip \<Rightarrow> ('w, unit) ctl" where
  "updateEgressPolicyStatusIfNeed cli policy a =
     (if ep_status policy \<noteq> status_of a then
        bindp (attempt (status_policy cli (policy\<lparr>ep_status := status_of a\<rparr>))) (\<lambda>x. case x of
          Inr _ \<Rightarrow> ret ()
        | Inl err \<Rightarrow>
            if err = Conflict then
              bindp (attempt (get_policy cli (om_namespace (ep_meta policy)) (om_name (ep_meta policy)))) (\<lambda>y. case y of
                Inl err' \<Rightarrow> if err' \<noteq> NotFound then ret () else fail (ApiErr err')
              | Inr policy' \<Rightarrow> bindp (api (status_policy cli policy')) (\<lambda>_. fail (ApiErr err)))
            else fail (ApiErr err))
      else ret ())"

definition updateEgressClusterPolicyStatusIfNeed ::
    "'w client \<Rightarrow> egress_cluster_policy \<Rightarrow> assigned_ip \<Rightarrow> ('w, unit) ctl" where
  "updateEgressClusterPolicyStatusIfNeed cli policy a =
     (if ecp_status policy \<noteq> status_of a then
        bindp (attempt (status_cpolicy cli (policy\<lparr>ecp_status := status_of a\<rparr>))) (\<lambda>x. case x of
          Inr _ \<Rightarrow> ret ()
        | Inl err \<Rightarrow>
            if err = Conflict then
              bindp (attempt (get_cpolicy cli (om_namespace (ecp_meta policy)) (om_name (ecp_meta policy)))) (\<lambda>y. case y of
                Inl err' \<Rightarrow> if err' \<noteq> NotFound then ret () else fail (ApiErr err')
              | Inr policy' \<Rightarrow> bindp (api (status_cpolicy cli policy')) (\<lambda>_. fail (ApiErr err)))
            else fail (ApiErr err))
      else ret ())"

text \<open>The status of the policy behind an entry of the gateway; a cluster policy has no namespace.\<close>

definition updateAllPolicyStatus :: "'w client \<Rightarrow> egress_gateway \<Rightarrow> ('w, unit) ctl" where
  "updateAllPolicyStatus cli egw =
     for_each (\<lambda>node _. for_each (\<lambda>eip _.
       let a = \<lparr>as_node = en_name node, as_ipv4 = eip_ipv4 eip, as_ipv6 = eip_ipv6 eip,
                as_use_node_ip = (eip_ipv4 eip = [] \<and> eip_ipv6 eip = [])\<rparr> in
       for_each (\<lambda>p _.
         if policy_namespace p \<noteq> []
         then bindp (api (get_policy cli (policy_namespace p) (policy_name p))) (\<lambda>policy.
                updateEgressPolicyStatusIfNeed cli policy a)
         else bindp (api (get_cpolicy cli (policy_namespace p) (policy_name p))) (\<lambda>policy.
                updateEgressClusterPolicyStatusIfNeed cli policy a))
         (eip_policies eip) ()) (en_eips node) ()) (gw_nodes egw) ()"

definition cleanPolicyStatus :: "'w client \<Rightarrow> eips list \<Rightarrow> ('w, unit) ctl" where
  "cleanPolicyStatus cli eips =
     for_each (\<lambda>eip _. for_each (\<lambda>p _.
       if policy_namespace p \<noteq> []
       then bindp (api (get_policy cli (policy_namespace p) (policy_name p))) (\<lambda>policy.
              updateEgressPolicyStatusIfNeed cli policy
                \<lparr>as_node = [], as_ipv4 = [], as_ipv6 = [], as_use_node_ip = use_node_ip (ep_egress_ip (ep_spec policy))\<rparr>)
       else bindp (api (get_cpolicy cli (policy_namespace p) (policy_name p))) (\<lambda>policy.
              updateEgressClusterPolicyStatusIfNeed cli policy
                \<lparr>as_node = [], as_ipv4 = [], as_ipv6 = [], as_use_node_ip = use_node_ip (ecp_egress_ip (ecp_spec policy))\<rparr>))
       (eip_policies eip) ()) eips ()"

section \<open>Gateway status\<close>

definition updateGatewayStatusWithUsage :: "'w egnReconciler \<Rightarrow> egress_gateway \<Rightarrow> ('w, egress_gateway) ctl" where
  "updateGatewayStatusWithUsage r gateway =
     bindp (draw_choices r) (\<lambda>c.
     bindp (lift (oc_map_err (\<lambda>_. UsageErr) (countGatewayIP (ch_order c) gateway))) (\<lambda>u.
     api (status_gateway (r_client r) (gateway\<lparr>gw_status := (gw_status gateway)\<lparr>usage := u\<rparr>\<rparr>))))"

text \<open>
  The second call lists into the same variable as the first one and the list of cluster policies
  stays empty, so that only namespaced policies are counted.
\<close>

definition getPolicyCountByGatewayName :: "'w client \<Rightarrow> string \<Rightarrow> ('w, nat) ctl" where
  "getPolicyCountByGatewayName cli name =
     bindp (api (list_policies cli)) (\<lambda>items.
     let num = length (filter (\<lambda>p. ep_gateway_name (ep_spec p) = name) items) in
     bindp (api (list_policies cli)) (\<lambda>_. ret num))"

section \<open>Assigning again\<close>

definition policy_ref :: "request \<Rightarrow> policy" where
  "policy_ref req = \<lparr>policy_name = req_name req, policy_namespace = req_namespace req\<rparr>"

definition request_of :: "object_meta \<Rightarrow> request" where
  "request_of m = \<lparr>req_namespace = om_namespace m, req_name = om_name m\<rparr>"

text \<open>The call of \<^verbatim>\<open>assignIP\<close> with its error checks.\<close>

definition assign :: "'w egnReconciler \<Rightarrow> egress_gateway \<Rightarrow> request \<Rightarrow> egress_ip \<Rightarrow> ('w, assigned_ip \<times> egress_gateway) rec" where
  "assign r gateway req spec =
     bindp (draw_choices r) (\<lambda>c.
     bindp (requeue True (lift (oc_map_err AssignErr
              (assignIP (ch_order c) (ch_intn4 c) (ch_intn6 c) gateway (policy_ref req) spec)))) (\<lambda>(a, g).
     case a of None \<Rightarrow> fail (True, NotEnoughIP) | Some a \<Rightarrow> ret (a, g)))"

definition reAssignEgressPolicyIP ::
    "'w egnReconciler \<Rightarrow> request \<Rightarrow> egress_gateway \<Rightarrow> egress_policy \<Rightarrow> ('w, egress_gateway) rec" where
  "reAssignEgressPolicyIP r req gateway policy =
     (case getAssignedIP gateway (req_namespace req) (req_name req) of
        None \<Rightarrow>
          bindp (assign r gateway req (ep_egress_ip (ep_spec policy))) (\<lambda>(a, g).
          bindp (requeue True (updateGatewayStatusWithUsage r g)) (\<lambda>g'.
          bindp (requeue True (updateEgressPolicyStatusIfNeed (r_client r) policy a)) (\<lambda>_. ret g')))
      | Some a \<Rightarrow>
          bindp (requeue True (updateEgressPolicyStatusIfNeed (r_client r) policy a)) (\<lambda>_. ret gateway))"

definition reAssignEgressClusterPolicyIP ::
    "'w egnReconciler \<Rightarrow> request \<Rightarrow> egress_gateway \<Rightarrow> egress_cluster_policy \<Rightarrow> ('w, egress_gateway) rec" where
  "reAssignEgressClusterPolicyIP r req gateway policy =
     (case getAssignedIP gateway (req_namespace req) (req_name req) of
        None \<Rightarrow>
          bindp (assign r gateway req (ecp_egress_ip (ecp_spec policy))) (\<lambda>(a, g).
          bindp (requeue True (updateEgressClusterPolicyStatusIfNeed (r_client r) policy a)) (\<lambda>_. ret g))
      | Some a \<Rightarrow>
          bindp (requeue True (updateEgressClusterPolicyStatusIfNeed (r_client r) policy a)) (\<lambda>_. ret gateway))"

definition checkAndUpdateAllPolicyIfNeedWhenFirstNodeReady ::
    "'w egnReconciler \<Rightarrow> egress_gateway \<Rightarrow> ('w, egress_gateway) rec" where
  "checkAndUpdateAllPolicyIfNeedWhenFirstNodeReady r egw =
     bindp (requeue True (api (list_cpolicies (r_client r)))) (\<lambda>cps.
     bindp (for_each (\<lambda>p g.
              if ecp_gateway_name (ecp_spec p) = gw_name g
              then reAssignEgressClusterPolicyIP r (request_of (ecp_meta p)) g p else ret g) cps egw) (\<lambda>egw.
     bindp (requeue True (api (list_policies (r_client r)))) (\<lambda>ps.
     for_each (\<lambda>p g.
              if ep_gateway_name (ep_spec p) = gw_name g
              then reAssignEgressPolicyIP r (request_of (ep_meta p)) g p else ret g) ps egw)))"

section \<open>Tunnels\<close>

text \<open>The loops that look for the node of a name and take it, or its egress IPs, out of the list.\<close>

definition node_index :: "string \<Rightarrow> egress_ip_status list \<Rightarrow> nat option" where
  "node_index nm ns = find_index (\<lambda>n. en_name n = nm) ns"

definition remove_node :: "nat \<Rightarrow> egress_gateway \<Rightarrow> egress_gateway" where
  "remove_node i g = set_nodes (take i (gw_nodes g) @ drop (Suc i) (gw_nodes g)) g"

definition set_node_status :: "nat \<Rightarrow> string \<Rightarrow> egress_gateway \<Rightarrow> egress_gateway" where
  "set_node_status i st g = set_nodes ((gw_nodes g)[i := (gw_nodes g ! i)\<lparr>en_status := st\<rparr>]) g"

definition clear_eips :: "nat \<Rightarrow> egress_gateway \<Rightarrow> egress_gateway" where
  "clear_eips i g = set_nodes ((gw_nodes g)[i := (gw_nodes g ! i)\<lparr>en_eips := []\<rparr>]) g"

text \<open>The end of every loop body: move what has to be moved, then write the gateway and the policies.\<close>

definition move_needed :: "egress_gateway \<Rightarrow> eips list \<Rightarrow> ('w, egress_gateway \<times> eips list) rec" where
  "move_needed egw mv =
     (if 0 < length mv then requeue True (lift (oc_map_err AssignErr (moveEipToReadyNode egw mv))) else ret (egw, mv))"

definition sync_gateway :: "'w egnReconciler \<Rightarrow> egress_gateway \<Rightarrow> eips list \<Rightarrow> ('w, unit) rec" where
  "sync_gateway r egw mv =
     bindp (requeue True (updateGatewayStatusWithUsage r egw)) (\<lambda>egw.
     bindp (requeue True (updateAllPolicyStatus (r_client r) egw)) (\<lambda>_.
     requeue True (cleanPolicyStatus (r_client r) mv)))"

definition tunnel_deleted :: "'w egnReconciler \<Rightarrow> string \<Rightarrow> egress_gateway \<Rightarrow> ('w, unit) rec" where
  "tunnel_deleted r nm egw = (case node_index nm (gw_nodes egw) of
     None \<Rightarrow> ret ()
   | Some i \<Rightarrow>
       bindp (move_needed (remove_node i egw) (en_eips (gw_nodes egw ! i))) (\<lambda>(egw, mv). sync_gateway r egw mv))"

definition tunnel_updated :: "'w egnReconciler \<Rightarrow> string \<Rightarrow> string \<Rightarrow> egress_gateway \<Rightarrow> ('w, unit) rec" where
  "tunnel_updated r nm phase egw = (case node_index nm (gw_nodes egw) of
     None \<Rightarrow> ret ()
   | Some i \<Rightarrow>
       let node = gw_nodes egw ! i; changed = (phase \<noteq> en_status node) in
       if phase = EgressTunnelReady then
         (if changed then
            let egw = set_node_status i phase egw in
            bindp (if ReadyCount (gw_status egw) = 1
                   then checkAndUpdateAllPolicyIfNeedWhenFirstNodeReady r egw else ret egw) (\<lambda>egw.
            sync_gateway r egw [])
          else ret ())
       else
         let mv = en_eips node;
             egw = (if 0 < length mv then clear_eips i egw else egw);
             egw = (if changed then set_node_status i phase egw else egw)
         in bindp (move_needed egw mv) (\<lambda>(egw, mv).
              if 0 < length (en_eips node) \<or> changed then sync_gateway r egw mv else ret ()))"

definition reconcileTunnel :: "'w egnReconciler \<Rightarrow> request \<Rightarrow> ('w, bool) rec" where
  "reconcileTunnel r req =
     bindp (fetch (get_tunnel (r_client r) (req_name req))) (\<lambda>t.
     bindp (requeue True (api (list_gateways (r_cli r)))) (\<lambda>items.
     bindp (case t of
         Some tunnel \<Rightarrow>
           if om_deleting (et_meta tunnel)
           then for_each (\<lambda>egw _. tunnel_deleted r (req_name req) egw) items ()
           else for_each (\<lambda>egw _. tunnel_updated r (req_name req) (et_phase (et_status tunnel)) egw) items ()
       | None \<Rightarrow> for_each (\<lambda>egw _. tunnel_deleted r (req_name req) egw) items ()) (\<lambda>_.
     ret False)))"

section \<open>Nodes\<close>

text \<open>A new node of the list takes the phase of its tunnel, if it has one.\<close>

definition phase_of :: "'w egnReconciler \<Rightarrow> string \<Rightarrow> ('w, string) rec" where
  "phase_of r nm =
     bindp (attempt (get_tunnel (r_client r) nm)) (\<lambda>x. case x of
       Inr tunnel \<Rightarrow> ret (et_phase (et_status tunnel))
     | Inl e \<Rightarrow> if e \<noteq> NotFound then fail (False, ApiErr e) else ret EgressTunnelPending)"

definition append_node :: "string \<Rightarrow> string \<Rightarrow> egress_gateway \<Rightarrow> egress_gateway" where
  "append_node nm st g = set_nodes (gw_nodes g @ [\<lparr>en_name = nm, en_eips = [], en_status = st\<rparr>]) g"

definition node_updated :: "'w egnReconciler \<Rightarrow> k8s_node \<Rightarrow> egress_gateway \<Rightarrow> ('w, unit) rec" where
  "node_updated r node egw =
     (let nm = om_name (node_meta node) in
      case r_selector r (sel_selector (gw_node_selector (gw_spec egw))) of
        None \<Rightarrow> fail (False, SelectorErr)
      | Some matches \<Rightarrow>
          if matches (om_labels (node_meta node)) then
            (if list_ex (\<lambda>item. en_name item = nm) (gw_nodes egw) then ret ()
             else
               bindp (phase_of r nm) (\<lambda>status.
               bindp (checkAndUpdateAllPolicyIfNeedWhenFirstNodeReady r (append_node nm status egw)) (\<lambda>egw.
               sync_gateway r egw [])))
          else
            (case node_index nm (gw_nodes egw) of
               None \<Rightarrow> ret ()
             | Some i \<Rightarrow>
                 bindp (move_needed (remove_node i egw) (en_eips (gw_nodes egw ! i))) (\<lambda>(egw, mv).
                 sync_gateway r egw mv)))"

definition reconcileNode :: "'w egnReconciler \<Rightarrow> request \<Rightarrow> ('w, bool) rec" where
  "reconcileNode r req =
     bindp (fetch (get_node (r_client r) (req_name req))) (\<lambda>n. case n of
       None \<Rightarrow> ret False
     | Some node \<Rightarrow>
         if om_deleting (node_meta node) then ret False
         else
           bindp (requeue True (api (list_gateways (r_cli r)))) (\<lambda>items.
           bindp (for_each (\<lambda>egw _. node_updated r node egw) items ()) (\<lambda>_. ret False)))"

section \<open>Gateways\<close>

definition egressGatewayFinalizers :: string where
  "egressGatewayFinalizers = ''egressgateway.spidernet.io/egressgateway''"

text \<open>
  The loop over the node list: \<open>kept\<close> is what the index has passed, \<open>keys\<close> the nodes that
  match the selector and were not met yet. When the tunnel of a node is missing the loop continues
  without moving the index, so that the node is looked at again and, no longer among the keys,
  removed.
\<close>

function prune_loop :: "'w egnReconciler \<Rightarrow> egress_ip_status list \<Rightarrow> egress_ip_status list \<Rightarrow> string list \<Rightarrow> eips list \<Rightarrow> bool
    \<Rightarrow> 'w \<Rightarrow> (bool \<times> ctl_err, egress_ip_status list \<times> string list \<times> eips list \<times> bool) outcome \<times> 'w" where
  "prune_loop r kept [] keys mv upd w = (Ok (kept, keys, mv, upd), w)"
| "prune_loop r kept (node # rest) keys mv upd w =
     (if en_name node \<in> set keys then
        let keys' = removeAll (en_name node) keys in
        (case get_tunnel (r_client r) (en_name node) w of
           (Ok tunnel, w') \<Rightarrow>
             if et_phase (et_status tunnel) \<noteq> en_status node
             then prune_loop r (kept @ [node\<lparr>en_status := EgressTunnelPending\<rparr>]) rest keys' mv True w'
             else prune_loop r (kept @ [node]) rest keys' mv upd w'
         | (Err e, w') \<Rightarrow>
             if e \<noteq> NotFound then (Err (False, ApiErr e), w')
             else if EgressTunnelPending \<noteq> en_status node
               then prune_loop r kept (node\<lparr>en_status := EgressTunnelPending, en_eips := []\<rparr> # rest) keys' (mv @ en_eips node) True w'
               else prune_loop r kept (node # rest) keys' mv upd w'
         | (Panic, w') \<Rightarrow> (Panic, w')
         | (Diverge, w') \<Rightarrow> (Diverge, w'))
      else prune_loop r kept rest keys (mv @ en_eips node) True w)"
  by pat_completeness auto
termination
  by (relation "measure (\<lambda>(r, kept, ns, keys, mv, upd, w). 2 * length ns + length keys)")
     (auto dest: length_removeAll_less)

declare prune_loop.simps [simp del]

text \<open>The matching nodes that were not in the list, in the order of the map.\<close>

definition append_nodes :: "'w egnReconciler \<Rightarrow> string list \<Rightarrow> egress_gateway \<Rightarrow> ('w, egress_gateway) rec" where
  "append_nodes r nms egw = for_each (\<lambda>nm g. bindp (phase_of r nm) (\<lambda>st. ret (append_node nm st g))) nms egw"

definition gateway_deleted :: "'w egnReconciler \<Rightarrow> string \<Rightarrow> egress_gateway option \<Rightarrow> ('w, bool) rec" where
  "gateway_deleted r nm g =
     bindp (requeue True (getPolicyCountByGatewayName (r_client r) nm)) (\<lambda>n. case g of
       Some egw \<Rightarrow>
         if n = 0 \<and> gw_name egw \<noteq> []
         then bindp (requeue True (api (update_gateway (r_client r)
                (egw\<lparr>gw_meta := RemoveFinalizers (gw_meta egw) [egressGatewayFinalizers]\<rparr>)))) (\<lambda>_. ret False)
         else ret False
     | None \<Rightarrow> ret False)"

definition gateway_updated :: "'w egnReconciler \<Rightarrow> egress_gateway \<Rightarrow> ('w, bool) rec" where
  "gateway_updated r egw = (case r_selector r (sel_selector (gw_node_selector (gw_spec egw))) of
     None \<Rightarrow> fail (False, SelectorErr)
   | Some matches \<Rightarrow>
       bindp (requeue False (api (list_nodes (r_client r) matches))) (\<lambda>items.
       bindp (prune_loop r [] (gw_nodes egw) (map_keys (map (\<lambda>n. om_name (node_meta n)) items)) [] False) (\<lambda>(ns, keys, mv, upd).
       let egw = set_nodes ns egw; before = ReadyCount (gw_status egw) in
       bindp (draw_choices r) (\<lambda>c.
       bindp (append_nodes r (ch_order c keys) egw) (\<lambda>egw.
       bindp (move_needed egw mv) (\<lambda>(egw, mv).
       bindp (if before = 0 then checkAndUpdateAllPolicyIfNeedWhenFirstNodeReady r egw else ret egw) (\<lambda>egw.
       let u = usage (gw_status egw); upd = (upd \<or> keys \<noteq> [] \<or>
             (ipv4_total u = 0 \<and> length (pool_ipv4 (gw_pools egw)) \<noteq> 0) \<or>
             (ipv6_total u = 0 \<or> length (pool_ipv6 (gw_pools egw)) \<noteq> 0)) in
       if upd then bindp (sync_gateway r egw mv) (\<lambda>_. ret False) else ret False)))))))"

definition reconcileGateway :: "'w egnReconciler \<Rightarrow> request \<Rightarrow> ('w, bool) rec" where
  "reconcileGateway r req =
     bindp (fetch (get_gateway (r_cli r) (req_name req))) (\<lambda>g. case g of
       None \<Rightarrow> gateway_deleted r (req_name req) None
     | Some egw \<Rightarrow>
         if om_deleting (gw_meta egw) then gateway_deleted r (req_name req) (Some egw)
         else gateway_updated r egw)"

section \<open>Policies\<close>

text \<open>Delete the policy from the first gateway that has it.\<close>

fun delete_from_first :: "'w egnReconciler \<Rightarrow> request \<Rightarrow> egress_gateway list \<Rightarrow> ('w, unit) rec" where
  "delete_from_first r req [] = ret ()"
| "delete_from_first r req (gateway # items) =
     (case deleteEgressPolicy gateway (req_namespace req) (req_name req) of (update, g) \<Rightarrow>
        if update then bindp (requeue True (updateGatewayStatusWithUsage r g)) (\<lambda>_. ret ())
        else delete_from_first r req items)"

definition reconcileDeletePolicy :: "'w egnReconciler \<Rightarrow> request \<Rightarrow> string \<Rightarrow> ('w, bool) rec" where
  "reconcileDeletePolicy r req egwName =
     (if egwName = [] then
        bindp (attempt (list_gateways (r_cli r))) (\<lambda>x. case x of
          Inl e \<Rightarrow> if e \<noteq> NotFound then fail (True, ApiErr e) else ret False
        | Inr items \<Rightarrow> bindp (delete_from_first r req items) (\<lambda>_. ret False))
      else
        bindp (fetch (get_gateway (r_cli r) egwName)) (\<lambda>g. case g of
          None \<Rightarrow> ret False
        | Some gateway \<Rightarrow>
            if gw_name gateway \<noteq> [] then
              (case deleteEgressPolicy gateway (req_namespace req) (req_name req) of (update, g) \<Rightarrow>
                 if update then bindp (requeue True (updateGatewayStatusWithUsage r g)) (\<lambda>_. ret False)
                 else ret False)
            else ret False))"

definition fetch_policy_gateway :: "'w egnReconciler \<Rightarrow> string \<Rightarrow> ('w, egress_gateway) rec" where
  "fetch_policy_gateway r gatewayName =
     bindp (fetch (get_gateway (r_cli r) gatewayName)) (\<lambda>g. case g of
       None \<Rightarrow> fail (False, GatewayNotFound gatewayName)
     | Some gateway \<Rightarrow> ret gateway)"

definition reconcileEgressClusterPolicy :: "'w egnReconciler \<Rightarrow> request \<Rightarrow> ('w, bool) rec" where
  "reconcileEgressClusterPolicy r req =
     bindp (fetch (get_cpolicy (r_client r) (req_namespace req) (req_name req))) (\<lambda>p. case p of
       None \<Rightarrow> reconcileDeletePolicy r req []
     | Some policy \<Rightarrow>
         let gatewayName = ecp_gateway_name (ecp_spec policy) in
         if om_deleting (ecp_meta policy) then reconcileDeletePolicy r req gatewayName
         else if om_name (ecp_meta policy) \<noteq> [] \<and> gatewayName \<noteq> [] then
           bindp (fetch_policy_gateway r gatewayName) (\<lambda>gateway.
           bindp (case getAssignedIP gateway (req_namespace req) (req_name req) of
               None \<Rightarrow>
                 bindp (assign r gateway req (ecp_egress_ip (ecp_spec policy))) (\<lambda>(a, g).
                 bindp (requeue True (updateGatewayStatusWithUsage r g)) (\<lambda>_. ret a))
             | Some a \<Rightarrow> ret a) (\<lambda>a.
           bindp (requeue True (updateEgressClusterPolicyStatusIfNeed (r_client r) policy a)) (\<lambda>_. ret False)))
         else ret False)"

definition reconcileEgressPolicy :: "'w egnReconciler \<Rightarrow> request \<Rightarrow> ('w, bool) rec" where
  "reconcileEgressPolicy r req =
     bindp (fetch (get_policy (r_client r) (req_namespace req) (req_name req))) (\<lambda>p. case p of
       None \<Rightarrow> reconcileDeletePolicy r req []
     | Some policy \<Rightarrow>
         let gatewayName = ep_gateway_name (ep_spec policy) in
         if om_deleting (ep_meta policy) then reconcileDeletePolicy r req gatewayName
         else if om_name (ep_meta policy) \<noteq> [] \<and> gatewayName \<noteq> [] then
           bindp (fetch_policy_gateway r gatewayName) (\<lambda>gateway.
           bindp (case getAssignedIP gateway (req_namespace req) (req_name req) of
               None \<Rightarrow>
                 bindp (assign r gateway req (ep_egress_ip (ep_spec policy))) (\<lambda>(a, g).
                 bindp (requeue True (updateGatewayStatusWithUsage r g)) (\<lambda>_. ret a))
             | Some a \<Rightarrow> ret a) (\<lambda>a.
           bindp (requeue True (updateEgressPolicyStatusIfNeed (r_client r) policy a)) (\<lambda>_. ret False)))
         else ret False)"

section \<open>Dispatch\<close>

definition Reconcile :: "'w egnReconciler \<Rightarrow> request \<Rightarrow> ('w, bool) rec" where
  "Reconcile r req =
     bindp (lift (oc_map_err (\<lambda>_. (False, RequestErr)) (ParseKindWithReq req))) (\<lambda>(kind, newReq).
       if kind = ''EgressGateway'' then reconcileGateway r newReq
       else if kind = ''EgressClusterPolicy'' then reconcileEgressClusterPolicy r newReq
       else if kind = ''EgressPolicy'' then reconcileEgressPolicy r newReq
       else if kind = ''Node'' then reconcileNode r newReq
       else if kind = ''EgressTunnel'' then reconcileTunnel r newReq
       else ret False)"

section \<open>Event filters\<close>

datatype k8s_object =
    ObjGateway egress_gateway
  | ObjPolicy egress_policy
  | ObjClusterPolicy egress_cluster_policy
  | ObjNode k8s_node
  | ObjTunnel egress_tunnel

definition areMapsEqual :: "labels \<Rightarrow> labels \<Rightarrow> bool" where
  "areMapsEqual mapA mapB =
     (if length mapA \<noteq> length mapB then False else list_all (\<lambda>(k, v). map_of mapB k = Some v) mapA)"

fun egressPolicyPredicate :: "k8s_object \<Rightarrow> k8s_object \<Rightarrow> bool" where
  "egressPolicyPredicate (ObjPolicy old) (ObjPolicy new) = (ep_spec old \<noteq> ep_spec new)"
| "egressPolicyPredicate _ _ = False"

fun egressClusterPolicyPredicate :: "k8s_object \<Rightarrow> k8s_object \<Rightarrow> bool" where
  "egressClusterPolicyPredicate (ObjClusterPolicy old) (ObjClusterPolicy new) = (ecp_spec old \<noteq> ecp_spec new)"
| "egressClusterPolicyPredicate _ _ = False"

fun egressGatewayPredicate :: "k8s_object \<Rightarrow> k8s_object \<Rightarrow> bool" where
  "egressGatewayPredicate (ObjGateway old) (ObjGateway new) = (gw_meta old \<noteq> gw_meta new \<or> gw_spec old \<noteq> gw_spec new)"
| "egressGatewayPredicate _ _ = False"

fun nodePredicate :: "k8s_object \<Rightarrow> k8s_object \<Rightarrow> bool" where
  "nodePredicate (ObjNode old) (ObjNode new) =
     (\<not> areMapsEqual (om_labels (node_meta old)) (om_labels (node_meta new)))"
| "nodePredicate _ _ = False"

fun egressTunnelPredicate :: "k8s_object \<Rightarrow> k8s_object \<Rightarrow> bool" where
  "egressTunnelPredicate (ObjTunnel old) (ObjTunnel new) = (et_phase (et_status old) \<noteq> et_phase (et_status new))"
| "egressTunnelPredicate _ _ = False"

end
