(* ===== verification/GatewaySafe.thy ===== *)
theory GatewaySafe
  imports GatewayCtl
begin

text \<open>
  The reconciler keeps the invariant of every gateway of the cluster: whatever the requests, the
  answers of the API server and the changes made by others between two calls, it writes only
  statuses with the invariant.
\<close>

section \<open>The interface of the cluster\<close>

definition good_choices :: "choices \<Rightarrow> bool" where
  "good_choices c \<longleftrightarrow> map_iteration (ch_order c) \<and> random_source (ch_intn4 c) \<and> random_source (ch_intn6 c)"

locale cluster =
  fixes r :: "'w egnReconciler"
    and I :: "'w \<Rightarrow> bool"
  assumes read_gateway: "keeps I (get_gateway (r_cli r) nm) gateway_ok"
    and read_gateways: "keeps I (list_gateways (r_cli r)) (\<lambda>gs. \<forall>g \<in> set gs. gateway_ok g)"
    and write_status: "gateway_ok g \<Longrightarrow> keeps I (status_gateway (r_client r) g) (\<lambda>g'. gw_nodes g' = gw_nodes g)"
    and write_gateway: "gateway_ok g \<Longrightarrow> runs I (update_gateway (r_client r) g)"
    and read_tunnel: "runs I (get_tunnel (r_client r) nm)"
    and read_node: "runs I (get_node (r_client r) nm)"
    and read_nodes: "runs I (list_nodes (r_client r) f)"
    and read_policy: "runs I (get_policy (r_client r) ns nm)" "runs I (get_cpolicy (r_client r) ns nm)"
    and read_policies: "runs I (list_policies (r_client r))" "runs I (list_cpolicies (r_client r))"
    and write_policy: "runs I (status_policy (r_client r) p)" "runs I (status_cpolicy (r_client r) cp)"
    and draws: "I w \<Longrightarrow> I (snd (r_draw r w)) \<and> good_choices (fst (r_draw r w))"
begin

lemma choices_ok: "keeps I (draw_choices r) good_choices"
  using draws by (simp add: keeps_def draw_choices_def case_prod_beta)

lemma api_runs: "keeps I m Q \<Longrightarrow> keeps I (api m) Q"
  unfolding api_def by (rule keeps_or_fail)

lemma requeue_runs: "keeps I m Q \<Longrightarrow> keeps I (requeue b m) Q"
  unfolding requeue_def by (rule keeps_or_fail)

lemma fetch_keeps: "keeps I m Q \<Longrightarrow> keeps I (fetch m) (\<lambda>x. case x of None \<Rightarrow> True | Some y \<Rightarrow> Q y)"
  unfolding fetch_def by (rule keeps_bindp [OF keeps_attempt]) (auto intro!: triple_rules)

lemmas run_rules = runs_bindp runs_attempt runs_for_each api_runs requeue_runs triple_rules
  read_tunnel read_node read_nodes read_policy read_policies write_policy TrueI

lemma policy_status_runs: "runs I (updateEgressPolicyStatusIfNeed (r_client r) p a)"
  unfolding updateEgressPolicyStatusIfNeed_def by (intro run_rules)

lemma cluster_policy_status_runs: "runs I (updateEgressClusterPolicyStatusIfNeed (r_client r) cp a)"
  unfolding updateEgressClusterPolicyStatusIfNeed_def by (intro run_rules)

lemma all_policy_status_runs: "runs I (updateAllPolicyStatus (r_client r) g)"
  unfolding updateAllPolicyStatus_def Let_def by (intro run_rules policy_status_runs cluster_policy_status_runs)

lemma clean_policy_status_runs: "runs I (cleanPolicyStatus (r_client r) es)"
  unfolding cleanPolicyStatus_def by (intro run_rules policy_status_runs cluster_policy_status_runs)

lemma usage_keeps: "gateway_ok g \<Longrightarrow> keeps I (updateGatewayStatusWithUsage r g) gateway_ok"
  unfolding updateGatewayStatusWithUsage_def
  by (intro runs_bindp keeps_conseq [OF choices_ok] triple_rules TrueI api_runs, rule keeps_conseq [OF write_status])
     (auto simp: gateway_ok_def)

lemma usage_step:
  "gateway_ok g \<Longrightarrow> (\<And>g'. gateway_ok g' \<Longrightarrow> keeps I (f g') Q) \<Longrightarrow>
     keeps I (bindp (requeue b (updateGatewayStatusWithUsage r g)) f) Q"
  by (rule keeps_bindp [OF requeue_runs [OF usage_keeps]])

lemma count_runs: "runs I (getPolicyCountByGatewayName (r_client r) nm)"
  unfolding getPolicyCountByGatewayName_def Let_def by (intro run_rules)

lemma assign_keeps:
  assumes "gateway_ok g" "getAssignedIP g (req_namespace req) (req_name req) = None"
  shows "keeps I (assign r g req spec) (\<lambda>(a, g'). gateway_ok g')"
  unfolding assign_def
proof (rule keeps_bindp [OF choices_ok])
  fix c assume c: "good_choices c"
  have n: "alloc_map (gw_nodes g) (policy_ref req) = None"
    using assms(2) by (simp add: getAssignedIP_None alloc_map_None policy_ref_def)
  have ok: "keeps I (requeue True (lift (oc_map_err AssignErr
      (assignIP (ch_order c) (ch_intn4 c) (ch_intn6 c) g (policy_ref req) spec)))) (\<lambda>(a, g'). gateway_ok g')"
    using assignIP_ok [OF assms(1) n] c by (intro requeue_runs keeps_lift) (auto simp: good_choices_def)
  show "keeps I (bindp (requeue True (lift (oc_map_err AssignErr
      (assignIP (ch_order c) (ch_intn4 c) (ch_intn6 c) g (policy_ref req) spec))))
      (\<lambda>(a, g'). case a of None \<Rightarrow> fail (True, NotEnoughIP) | Some a \<Rightarrow> ret (a, g'))) (\<lambda>(a, g'). gateway_ok g')"
    by (rule keeps_bindp [OF ok]) (auto intro!: triple_rules)
qed

lemma reassign_keeps:
  assumes "gateway_ok g"
  shows "keeps I (reAssignEgressPolicyIP r req g p) gateway_ok"
    and "keeps I (reAssignEgressClusterPolicyIP r req g cp) gateway_ok"
proof -
  show "keeps I (reAssignEgressPolicyIP r req g p) gateway_ok"
    unfolding reAssignEgressPolicyIP_def
  proof (intro triple_rules, goal_cases)
    case 1
    show ?case by (rule keeps_bindp [OF assign_keeps [OF assms 1]], intro triple_rules usage_step)
        (auto intro!: runs_bindp requeue_runs policy_status_runs keeps_ret)
  next
    case (2 a)
    show ?case using assms by (auto intro!: runs_bindp requeue_runs policy_status_runs keeps_ret)
  qed
  show "keeps I (reAssignEgressClusterPolicyIP r req g cp) gateway_ok"
    unfolding reAssignEgressClusterPolicyIP_def
  proof (intro triple_rules, goal_cases)
    case 1
    show ?case by (rule keeps_bindp [OF assign_keeps [OF assms 1]], intro triple_rules)
        (auto intro!: runs_bindp requeue_runs cluster_policy_status_runs keeps_ret)
  next
    case (2 a)
    show ?case using assms by (auto intro!: runs_bindp requeue_runs cluster_policy_status_runs keeps_ret)
  qed
qed

lemma check_keeps:
  assumes "gateway_ok g"
  shows "keeps I (checkAndUpdateAllPolicyIfNeedWhenFirstNodeReady r g) gateway_ok"
  unfolding checkAndUpdateAllPolicyIfNeedWhenFirstNodeReady_def
proof (rule runs_bindp, goal_cases)
  case 1
  show ?case by (intro requeue_runs api_runs read_policies)
next
  case (2 cps)
  show ?case
  proof (rule keeps_bindp [where R = gateway_ok], goal_cases)
    case 1
    show ?case by (rule keeps_for_each) (auto intro!: assms triple_rules reassign_keeps)
  next
    case (2 g')
    show ?case by (intro runs_bindp requeue_runs api_runs read_policies keeps_for_each 2)
        (auto intro!: triple_rules reassign_keeps)
  qed
qed

lemma move_keeps:
  assumes "alloc_with (gw_nodes g) mv"
  shows "keeps I (move_needed g mv) (\<lambda>(g', rest). gateway_ok g')"
  unfolding move_needed_def using move_alloc [OF _ assms] alloc_with_drop [OF assms]
  by (intro triple_rules requeue_runs) (auto simp: gateway_ok_def)

lemma sync_runs: "gateway_ok g \<Longrightarrow> runs I (sync_gateway r g mv)"
  unfolding sync_gateway_def
  by (intro usage_step) (auto intro!: runs_bindp requeue_runs all_policy_status_runs clean_policy_status_runs)

lemma move_sync_runs:
  assumes "alloc_with (gw_nodes g) mv"
  shows "runs I (bindp (move_needed g mv) (\<lambda>(egw, mv). sync_gateway r egw mv))"
  by (rule keeps_bindp [OF move_keeps [OF assms]]) (auto intro!: triple_rules sync_runs)

end

section \<open>Removing and clearing nodes\<close>

lemma map_upd_same: "i < length ns \<Longrightarrow> f n' = f (ns ! i) \<Longrightarrow> map f (ns[i := n']) = map f ns"
  by (metis list_update_id map_update)

lemma alloc_remove_node:
  assumes "gateway_ok g" "i < length (gw_nodes g)"
  shows "alloc_with (gw_nodes (remove_node i g)) (en_eips (gw_nodes g ! i))"
proof -
  have s: "gw_nodes g = take i (gw_nodes g) @ gw_nodes g ! i # drop (Suc i) (gw_nodes g)" by (rule id_take_nth_drop [OF assms(2)])
  have "distinct (map en_name (take i (gw_nodes g) @ gw_nodes g ! i # drop (Suc i) (gw_nodes g)))"
    using assms(1) s by (simp add: gateway_ok_def alloc_with_def)
  then have d: "distinct (map en_name (take i (gw_nodes g) @ drop (Suc i) (gw_nodes g)))" by auto
  have "mset (all_eips (gw_nodes g)) = mset (all_eips (take i (gw_nodes g) @ gw_nodes g ! i # drop (Suc i) (gw_nodes g)))"
    using s by simp
  then show ?thesis using assms(1) d unfolding gateway_ok_def remove_node_def
    by (elim alloc_with_perm) auto
qed

lemma alloc_clear_eips:
  assumes "gateway_ok g" "i < length (gw_nodes g)"
  shows "alloc_with (gw_nodes (clear_eips i g)) (en_eips (gw_nodes g ! i))"
proof -
  have "mset (all_eips ((gw_nodes g)[i := (gw_nodes g ! i)\<lparr>en_eips := []\<rparr>])) + mset (en_eips (gw_nodes g ! i)) = mset (all_eips (gw_nodes g))"
    using mset_all_eips_upd [OF assms(2), of "(gw_nodes g ! i)\<lparr>en_eips := []\<rparr>"] by simp
  moreover have "map en_name ((gw_nodes g)[i := (gw_nodes g ! i)\<lparr>en_eips := []\<rparr>]) = map en_name (gw_nodes g)"
    using assms(2) by (simp add: map_upd_same)
  moreover have "distinct (map en_name (gw_nodes g))" using assms(1) by (simp add: gateway_ok_def alloc_with_def)
  ultimately show ?thesis using assms(1) unfolding gateway_ok_def clear_eips_def
    by (elim alloc_with_perm) auto
qed

lemma all_eips_set_status:
  "i < length ns \<Longrightarrow> all_eips (ns[i := (ns ! i)\<lparr>en_status := st\<rparr>]) = all_eips ns"
  by (simp add: all_eips_def map_upd_same)

lemma alloc_set_status:
  "i < length (gw_nodes g) \<Longrightarrow> alloc_with (gw_nodes (set_node_status i st g)) mv \<longleftrightarrow> alloc_with (gw_nodes g) mv"
  by (simp add: set_node_status_def alloc_with_def all_eips_set_status map_upd_same)

lemma alloc_append_node:
  "nm \<notin> en_name ` set (gw_nodes g) \<Longrightarrow> alloc_with (gw_nodes (append_node nm st g)) mv \<longleftrightarrow> alloc_with (gw_nodes g) mv"
  by (auto simp: append_node_def alloc_with_def)

lemma alloc_swap:
  assumes "alloc_with (kept @ n # rest) mv" "en_name n' = en_name n" "mset (en_eips n') + mset mv' = mset (en_eips n) + mset mv"
  shows "alloc_with (kept @ n' # rest) mv'"
proof (rule alloc_with_perm [OF assms(1)])
  have "mset (all_eips (kept @ m # rest) @ mw) = mset (all_eips kept) + mset (all_eips rest) + (mset (en_eips m) + mset mw)" for m mw
    by simp
  then show "mset (all_eips (kept @ n # rest) @ mv) = mset (all_eips (kept @ n' # rest) @ mv')" using assms(3) by simp
  show "distinct (map en_name (kept @ n' # rest))" using assms(1,2) by (simp add: alloc_with_def)
qed

lemma alloc_take_out: "alloc_with (kept @ n # rest) mv \<Longrightarrow> alloc_with (kept @ rest) (mv @ en_eips n)"
  by (rule alloc_with_perm [of "kept @ n # rest" mv]) (auto simp: alloc_with_def)

lemma node_index_Some: "node_index nm ns = Some i \<Longrightarrow> i < length ns \<and> en_name (ns ! i) = nm"
  unfolding node_index_def by (drule find_index_Some) simp

context cluster
begin

section \<open>The reconcile functions\<close>

lemma tunnel_deleted_runs:
  assumes "gateway_ok g"
  shows "runs I (tunnel_deleted r nm g)"
  unfolding tunnel_deleted_def
  by (intro triple_rules TrueI move_sync_runs alloc_remove_node assms) (auto dest: node_index_Some)

lemma tunnel_updated_runs:
  assumes "gateway_ok g"
  shows "runs I (tunnel_updated r nm phase g)"
proof (cases "node_index nm (gw_nodes g)")
  case None
  then show ?thesis by (simp add: tunnel_updated_def keeps_ret)
next
  case (Some i)
  then have i: "i < length (gw_nodes g)" using node_index_Some by blast
  let ?n = "gw_nodes g ! i"
  show ?thesis
  proof (cases "phase = EgressTunnelReady")
    case True
    have g: "gateway_ok (set_node_status i phase g)" using assms i by (simp add: gateway_ok_def alloc_set_status)
    have "keeps I (if ReadyCount (gw_status (set_node_status i phase g)) = 1
        then checkAndUpdateAllPolicyIfNeedWhenFirstNodeReady r (set_node_status i phase g)
        else ret (set_node_status i phase g)) gateway_ok"
      by (intro triple_rules check_keeps g)
    then show ?thesis unfolding tunnel_updated_def using Some True g [unfolded True]
      by (auto simp: Let_def intro!: triple_rules keeps_bindp [where R = gateway_ok] sync_runs)
  next
    case False
    define h where "h = (if 0 < length (en_eips ?n) then clear_eips i g else g)"
    define k where "k = (if phase \<noteq> en_status ?n then set_node_status i phase h else h)"
    have "alloc_with (gw_nodes h) (en_eips ?n)" "length (gw_nodes h) = length (gw_nodes g)"
      using assms alloc_clear_eips [OF assms i] by (auto simp: h_def clear_eips_def gateway_ok_def)
    then have a: "alloc_with (gw_nodes k) (en_eips ?n)" using i by (simp add: k_def alloc_set_status)
    have "runs I (bindp (move_needed k (en_eips ?n)) (\<lambda>(egw, mv).
        if 0 < length (en_eips ?n) \<or> phase \<noteq> en_status ?n then sync_gateway r egw mv else ret ()))"
      by (rule keeps_bindp [OF move_keeps [OF a]]) (auto intro!: triple_rules sync_runs)
    then show ?thesis by (simp only: tunnel_updated_def Some option.case Let_def False if_False k_def h_def)
  qed
qed

lemma reconcileTunnel_runs: "runs I (reconcileTunnel r req)"
  unfolding reconcileTunnel_def
proof (intro runs_bindp [of _ "fetch _"] keeps_bindp [OF requeue_runs [OF api_runs [OF read_gateways]]])
  show "runs I (fetch (get_tunnel (r_client r) (req_name req)))"
    by (rule keeps_conseq [OF fetch_keeps [OF read_tunnel]]) simp
qed (auto intro!: triple_rules runs_bindp runs_for_each tunnel_deleted_runs tunnel_updated_runs)

lemma phase_of_runs: "runs I (phase_of r nm)"
  unfolding phase_of_def by (intro run_rules)

lemma node_updated_runs:
  assumes "gateway_ok g"
  shows "runs I (node_updated r node g)"
  unfolding node_updated_def Let_def
proof (intro triple_rules TrueI, goal_cases)
  case (1 matches)
  have "om_name (node_meta node) \<notin> en_name ` set (gw_nodes g)" using 1 by (auto simp: list_ex_iff)
  then have "gateway_ok (append_node (om_name (node_meta node)) st g)" for st
    using assms by (simp add: gateway_ok_def alloc_append_node)
  then show ?case
    by (intro runs_bindp [OF phase_of_runs] keeps_bindp [OF check_keeps]) (auto intro!: sync_runs)
next
  case (2 matches i)
  then show ?case by (intro move_sync_runs alloc_remove_node assms) (auto dest: node_index_Some)
qed

lemma reconcileNode_runs: "runs I (reconcileNode r req)"
  unfolding reconcileNode_def
proof (rule runs_bindp [of _ "fetch _"])
  show "runs I (fetch (get_node (r_client r) (req_name req)))"
    by (rule keeps_conseq [OF fetch_keeps [OF read_node]]) simp
qed (auto intro!: triple_rules keeps_bindp [OF requeue_runs [OF api_runs [OF read_gateways]]]
      runs_bindp runs_for_each node_updated_runs)

definition pruned :: "(bool \<times> ctl_err, egress_ip_status list \<times> string list \<times> eips list \<times> bool) outcome \<times> 'w \<Rightarrow> bool" where
  "pruned X \<longleftrightarrow> I (snd X) \<and> (\<forall>ns keys mv upd. fst X = Ok (ns, keys, mv, upd) \<longrightarrow>
     alloc_with ns mv \<and> distinct keys \<and> set keys \<inter> en_name ` set ns = {})"

lemma prune_keeps:
  assumes "I w" "alloc_with (kept @ ns) mv" "distinct keys" "set keys \<inter> en_name ` set kept = {}"
  shows "pruned (prune_loop r kept ns keys mv upd w)"
  using assms
proof (induction "2 * length ns + length keys" arbitrary: kept ns keys mv upd w rule: less_induct)
  case less
  show ?case
  proof (cases ns)
    case Nil
    then show ?thesis using less.prems by (simp add: prune_loop.simps pruned_def)
  next
    case (Cons node rest)
    define keys' where "keys' = removeAll (en_name node) keys"
    have k': "distinct keys'" "en_name node \<notin> set keys'" "set keys' \<inter> en_name ` set kept = {}"
      using less.prems by (auto simp: keys'_def distinct_removeAll)
    have len: "length keys' < length keys" if "en_name node \<in> set keys" using that by (simp add: keys'_def length_removeAll_less)
    note a = less.prems(2) [unfolded Cons]
    show ?thesis
    proof (cases "en_name node \<in> set keys")
      case False
      have "pruned (prune_loop r kept rest keys (mv @ en_eips node) True w)"
        by (rule less.hyps [OF _ less.prems(1) alloc_take_out [OF a] less.prems(3,4)]) (simp add: Cons)
      then show ?thesis unfolding Cons using False by (subst prune_loop.simps(2)) simp
    next
      case True
      obtain x w' where g: "get_tunnel (r_client r) (en_name node) w = (x, w')" by (cases "get_tunnel (r_client r) (en_name node) w")
      then have w': "I w'" using read_tunnel [of "en_name node"] less.prems(1) by (force simp: keeps_def)
      have step: "pruned (prune_loop r (kept @ [n']) rest keys' mv u w')"
        if n: "en_name n' = en_name node" "en_eips n' = en_eips node" for n' u
      proof (rule less.hyps [OF _ w' _ k'(1)])
        show "alloc_with ((kept @ [n']) @ rest) mv" using alloc_swap [OF a n(1), of mv] n(2) by simp
        show "set keys' \<inter> en_name ` set (kept @ [n']) = {}" using k' n(1) by simp
        show "2 * length rest + length keys' < 2 * length ns + length keys" using len [OF True] Cons by simp
      qed
      have stay: "pruned (prune_loop r kept (n' # rest) keys' mv' u w')"
        if n: "en_name n' = en_name node" "mset (en_eips n') + mset mv' = mset (en_eips node) + mset mv" for n' mv' u
      proof (rule less.hyps [OF _ w' alloc_swap [OF a n] k'(1,3)])
        show "2 * length (n' # rest) + length keys' < 2 * length ns + length keys" using len [OF True] Cons by simp
      qed
      have p: "pruned (Err (False, ApiErr e), w')" "pruned (Panic, w')" "pruned (Diverge, w')" for e
        using w' by (auto simp: pruned_def)
      show ?thesis unfolding Cons using True
        by (subst prune_loop.simps(2), simp only: g if_True prod.case Let_def keys'_def [symmetric])
           (cases x, auto intro!: step stay p)
    qed
  qed
qed

lemma append_nodes_keeps:
  assumes "alloc_with (gw_nodes g) mv" "distinct nms" "set nms \<inter> en_name ` set (gw_nodes g) = {}"
  shows "keeps I (append_nodes r nms g) (\<lambda>g'. alloc_with (gw_nodes g') mv)"
  using assms
proof (induction nms arbitrary: g)
  case Nil
  then show ?case by (simp add: append_nodes_def keeps_ret)
next
  case (Cons nm nms)
  have "keeps I (append_nodes r nms (append_node nm st g)) (\<lambda>g'. alloc_with (gw_nodes g') mv)" for st
    by (rule Cons.IH) (use Cons.prems in \<open>simp_all add: alloc_append_node, auto simp: append_node_def\<close>)
  then have "keeps I (for_each (\<lambda>nm g. bindp (phase_of r nm) (\<lambda>st. ret (append_node nm st g))) nms (append_node nm st g))
      (\<lambda>g'. alloc_with (gw_nodes g') mv)" for st
    unfolding append_nodes_def .
  then show ?case unfolding append_nodes_def for_each.simps
    by (intro keeps_bindp [where R = "\<lambda>g'. \<exists>st. g' = append_node nm st g"]) (auto intro!: runs_bindp [OF phase_of_runs] keeps_ret)
qed

lemma gateway_deleted_runs: "(\<And>egw. g = Some egw \<Longrightarrow> gateway_ok egw) \<Longrightarrow> runs I (gateway_deleted r nm g)"
  unfolding gateway_deleted_def
  by (intro runs_bindp [of _ "requeue _ (getPolicyCountByGatewayName _ _)"] requeue_runs count_runs triple_rules TrueI)
     (auto intro!: runs_bindp requeue_runs api_runs write_gateway keeps_ret simp: gateway_ok_def)

lemma prune_start_keeps:
  assumes "gateway_ok g" "distinct keys"
  shows "keeps I (prune_loop r [] (gw_nodes g) keys [] False)
    (\<lambda>(ns, keys, mv, upd). alloc_with ns mv \<and> distinct keys \<and> set keys \<inter> en_name ` set ns = {})"
  using prune_keeps [of _ "[]" "gw_nodes g" "[]" keys False] assms
  by (auto simp: keeps_def pruned_def gateway_ok_def)

lemma gateway_updated_runs:
  assumes "gateway_ok g"
  shows "runs I (gateway_updated r g)"
  unfolding gateway_updated_def
proof (rule keeps_case_option, goal_cases)
  case 1
  show ?case by (rule keeps_fail)
next
  case (2 matches)
  show ?case
  proof (rule runs_bindp [OF requeue_runs [OF api_runs [OF read_nodes]]], rule keeps_bindp [OF prune_start_keeps [OF assms]], goal_cases)
    case (2 items x)
    obtain ns keys mv upd where x: "x = (ns, keys, mv, upd)" by (cases x)
    with 2 have a: "alloc_with ns mv" "distinct keys" "set keys \<inter> en_name ` set ns = {}" by auto
    show ?case unfolding x prod.case Let_def
    proof (rule keeps_bindp [OF choices_ok], goal_cases)
      case (1 c)
      then have "map_iteration (ch_order c)" by (simp add: good_choices_def)
      then have o: "distinct (ch_order c keys)" "set (ch_order c keys) = set keys"
        using a(2) by (simp_all add: map_iteration.distinct_visits map_iteration.set_visits)
      have "keeps I (append_nodes r (ch_order c keys) (set_nodes ns g)) (\<lambda>g'. alloc_with (gw_nodes g') mv)"
        by (rule append_nodes_keeps) (use a o in auto)
      then show ?case
      proof (rule keeps_bindp, goal_cases)
        case (1 h)
        then show ?case
        proof (rule keeps_bindp [OF move_keeps], intro keeps_case_prod, goal_cases)
          case (1 y h' mv')
          then show ?case
            by (intro keeps_bindp [where R = gateway_ok] triple_rules check_keeps TrueI)
               (auto intro!: runs_bindp sync_runs triple_rules)
        qed
      qed
    qed
  qed simp
qed

lemma reconcileGateway_runs: "runs I (reconcileGateway r req)"
  unfolding reconcileGateway_def
proof (rule keeps_bindp [OF fetch_keeps [OF read_gateway]], intro triple_rules, goal_cases)
  case (1 g)
  show ?case by (rule gateway_deleted_runs) auto
next
  case (2 g egw)
  then show ?case by (intro gateway_deleted_runs) auto
next
  case (3 g egw)
  then show ?case by (intro gateway_updated_runs) auto
qed

lemma delete_from_first_runs: "\<forall>g \<in> set gs. gateway_ok g \<Longrightarrow> runs I (delete_from_first r req gs)"
proof (induction gs)
  case (Cons g gs)
  obtain b g' where d: "deleteEgressPolicy g (req_namespace req) (req_name req) = (b, g')"
    by (cases "deleteEgressPolicy g (req_namespace req) (req_name req)")
  then have "gateway_ok g'" using Cons.prems deleteEgressPolicy_ok(1) by auto
  then show ?case using Cons d by (auto intro!: usage_step triple_rules)
qed (simp add: keeps_ret)

lemma reconcileDeletePolicy_runs: "runs I (reconcileDeletePolicy r req nm)"
  unfolding reconcileDeletePolicy_def
proof (rule keeps_if, goal_cases)
  case 1
  show ?case
    by (rule keeps_bindp [OF keeps_attempt [OF read_gateways]])
       (auto intro!: triple_rules runs_bindp delete_from_first_runs)
next
  case 2
  show ?case
  proof (rule keeps_bindp [OF fetch_keeps [OF read_gateway]], intro triple_rules TrueI, goal_cases)
    case (1 x g b g')
    then have "gateway_ok g'" using deleteEgressPolicy_ok(1) by auto
    then show ?case by (intro usage_step triple_rules TrueI)
  qed
qed

lemma policy_gateway_keeps: "keeps I (fetch_policy_gateway r nm) gateway_ok"
  unfolding fetch_policy_gateway_def
  by (rule keeps_bindp [OF fetch_keeps [OF read_gateway]]) (auto intro!: triple_rules)

lemma assign_store_runs:
  assumes "gateway_ok g"
  shows "runs I (case getAssignedIP g (req_namespace req) (req_name req) of
      None \<Rightarrow> bindp (assign r g req spec) (\<lambda>(a, g). bindp (requeue True (updateGatewayStatusWithUsage r g)) (\<lambda>_. ret a))
    | Some a \<Rightarrow> ret a)"
proof (intro keeps_case_option keeps_ret TrueI, goal_cases)
  case 1
  show ?case by (rule keeps_bindp [OF assign_keeps [OF assms 1]]) (auto intro!: usage_step triple_rules)
qed

lemma reconcileEgressPolicy_runs: "runs I (reconcileEgressPolicy r req)"
  unfolding reconcileEgressPolicy_def Let_def
  by (rule runs_bindp [OF keeps_conseq [OF fetch_keeps [OF read_policy(1)] TrueI]])
     (auto intro!: triple_rules reconcileDeletePolicy_runs keeps_bindp [OF policy_gateway_keeps]
        runs_bindp [OF assign_store_runs] runs_bindp [OF requeue_runs [OF policy_status_runs]])

lemma reconcileEgressClusterPolicy_runs: "runs I (reconcileEgressClusterPolicy r req)"
  unfolding reconcileEgressClusterPolicy_def Let_def
  by (rule runs_bindp [OF keeps_conseq [OF fetch_keeps [OF read_policy(2)] TrueI]])
     (auto intro!: triple_rules reconcileDeletePolicy_runs keeps_bindp [OF policy_gateway_keeps]
        runs_bindp [OF assign_store_runs] runs_bindp [OF requeue_runs [OF cluster_policy_status_runs]])

lemma Reconcile_runs: "runs I (Reconcile r req)"
  unfolding Reconcile_def
  by (intro runs_bindp triple_rules TrueI reconcileGateway_runs reconcileEgressClusterPolicy_runs
      reconcileEgressPolicy_runs reconcileNode_runs reconcileTunnel_runs)

end

end
