(* ===== verification/ApiStore.thy ===== *)
theory ApiStore
  imports GatewaySafe
begin

text \<open>
  An API server that keeps its objects in memory, as a provider of the clients: reads return what
  is stored, a status update replaces the status of the stored object only, an update replaces
  everything else. It is the concrete cluster on which the reconciler runs.
\<close>

record store =
  s_gateways :: "egress_gateway list"
  s_policies :: "egress_policy list"
  s_cpolicies :: "egress_cluster_policy list"
  s_tunnels :: "egress_tunnel list"
  s_nodes :: "k8s_node list"

definition find_or :: "('a \<Rightarrow> bool) \<Rightarrow> 'a list \<Rightarrow> (api_err, 'a) outcome" where
  "find_or P xs = (case find P xs of None \<Rightarrow> Err NotFound | Some x \<Rightarrow> Ok x)"

definition replace :: "('a \<Rightarrow> bool) \<Rightarrow> ('a \<Rightarrow> 'a) \<Rightarrow> 'a list \<Rightarrow> 'a list" where
  "replace P f xs = map (\<lambda>x. if P x then f x else x) xs"

definition same_object :: "object_meta \<Rightarrow> object_meta \<Rightarrow> bool" where
  "same_object a b = (om_namespace a = om_namespace b \<and> om_name a = om_name b)"

definition named :: "string \<Rightarrow> string \<Rightarrow> object_meta \<Rightarrow> bool" where
  "named ns nm m = (om_namespace m = ns \<and> om_name m = nm)"

definition s_status_gateway :: "egress_gateway \<Rightarrow> (store, egress_gateway) api" where
  "s_status_gateway g w = (case find (\<lambda>h. om_name (gw_meta h) = gw_name g) (s_gateways w) of
     None \<Rightarrow> (Err NotFound, w)
   | Some h \<Rightarrow>
       (Ok (h\<lparr>gw_status := gw_status g\<rparr>),
        w\<lparr>s_gateways := replace (\<lambda>h. om_name (gw_meta h) = gw_name g) (\<lambda>h. h\<lparr>gw_status := gw_status g\<rparr>) (s_gateways w)\<rparr>))"

definition s_update_gateway :: "egress_gateway \<Rightarrow> (store, egress_gateway) api" where
  "s_update_gateway g w = (case find (\<lambda>h. om_name (gw_meta h) = gw_name g) (s_gateways w) of
     None \<Rightarrow> (Err NotFound, w)
   | Some h \<Rightarrow>
       (Ok (h\<lparr>gw_meta := gw_meta g, gw_spec := gw_spec g\<rparr>),
        w\<lparr>s_gateways := replace (\<lambda>h. om_name (gw_meta h) = gw_name g)
             (\<lambda>h. h\<lparr>gw_meta := gw_meta g, gw_spec := gw_spec g\<rparr>) (s_gateways w)\<rparr>))"

definition s_status_policy :: "egress_policy \<Rightarrow> (store, egress_policy) api" where
  "s_status_policy p w = (case find (\<lambda>q. same_object (ep_meta p) (ep_meta q)) (s_policies w) of
     None \<Rightarrow> (Err NotFound, w)
   | Some q \<Rightarrow>
       (Ok (q\<lparr>ep_status := ep_status p\<rparr>),
        w\<lparr>s_policies := replace (\<lambda>q. same_object (ep_meta p) (ep_meta q)) (\<lambda>q. q\<lparr>ep_status := ep_status p\<rparr>) (s_policies w)\<rparr>))"

definition s_update_policy :: "egress_policy \<Rightarrow> (store, egress_policy) api" where
  "s_update_policy p w = (case find (\<lambda>q. same_object (ep_meta p) (ep_meta q)) (s_policies w) of
     None \<Rightarrow> (Err NotFound, w)
   | Some q \<Rightarrow>
       (Ok (q\<lparr>ep_meta := ep_meta p, ep_spec := ep_spec p\<rparr>),
        w\<lparr>s_policies := replace (\<lambda>q. same_object (ep_meta p) (ep_meta q))
             (\<lambda>q. q\<lparr>ep_meta := ep_meta p, ep_spec := ep_spec p\<rparr>) (s_policies w)\<rparr>))"

definition s_status_cpolicy :: "egress_cluster_policy \<Rightarrow> (store, egress_cluster_policy) api" where
  "s_status_cpolicy p w = (case find (\<lambda>q. same_object (ecp_meta p) (ecp_meta q)) (s_cpolicies w) of
     None \<Rightarrow> (Err NotFound, w)
   | Some q \<Rightarrow>
       (Ok (q\<lparr>ecp_status := ecp_status p\<rparr>),
        w\<lparr>s_cpolicies := replace (\<lambda>q. same_object (ecp_meta p) (ecp_meta q)) (\<lambda>q. q\<lparr>ecp_status := ecp_status p\<rparr>) (s_cpolicies w)\<rparr>))"

definition store_client :: "store client" where
  "store_client = \<lparr>
     get_gateway = (\<lambda>nm w. (find_or (\<lambda>g. gw_name g = nm) (s_gateways w), w)),
     get_tunnel = (\<lambda>nm w. (find_or (\<lambda>t. om_name (et_meta t) = nm) (s_tunnels w), w)),
     get_node = (\<lambda>nm w. (find_or (\<lambda>n. om_name (node_meta n) = nm) (s_nodes w), w)),
     get_policy = (\<lambda>ns nm w. (find_or (\<lambda>p. named ns nm (ep_meta p)) (s_policies w), w)),
     get_cpolicy = (\<lambda>ns nm w. (find_or (\<lambda>p. named ns nm (ecp_meta p)) (s_cpolicies w), w)),
     list_gateways = (\<lambda>w. (Ok (s_gateways w), w)),
     list_policies = (\<lambda>w. (Ok (s_policies w), w)),
     list_cpolicies = (\<lambda>w. (Ok (s_cpolicies w), w)),
     list_nodes = (\<lambda>f w. (Ok (filter (\<lambda>n. f (om_labels (node_meta n))) (s_nodes w)), w)),
     update_gateway = s_update_gateway,
     update_policy = s_update_policy,
     status_gateway = s_status_gateway,
     status_policy = s_status_policy,
     status_cpolicy = s_status_cpolicy\<rparr>"

text \<open>A reconciler on the store, for a conversion of selectors and a source of choices.\<close>

definition store_reconciler :: "(label_selector option \<Rightarrow> (labels \<Rightarrow> bool) option) \<Rightarrow> choices \<Rightarrow> store egnReconciler" where
  "store_reconciler sel c = \<lparr>r_client = store_client, r_cli = store_client, r_selector = sel, r_draw = (\<lambda>w. (c, w))\<rparr>"

definition store_ok :: "store \<Rightarrow> bool" where
  "store_ok w \<longleftrightarrow> (\<forall>g \<in> set (s_gateways w). gateway_ok g)"

lemma store_simps [simp]:
  "r_client (store_reconciler sel c) = store_client" "r_cli (store_reconciler sel c) = store_client"
  "r_selector (store_reconciler sel c) = sel" "r_draw (store_reconciler sel c) w = (c, w)"
  by (simp_all add: store_reconciler_def)

lemma store_cluster:
  assumes "good_choices c"
  shows "cluster (store_reconciler sel c) store_ok"
proof
  show "store_ok w \<Longrightarrow> store_ok (snd (r_draw (store_reconciler sel c) w)) \<and> good_choices (fst (r_draw (store_reconciler sel c) w))" for w
    using assms by simp
  show "gateway_ok g \<Longrightarrow> keeps store_ok (status_gateway (r_client (store_reconciler sel c)) g) (\<lambda>g'. gw_nodes g' = gw_nodes g)" for g
    by (auto simp: keeps_def store_client_def s_status_gateway_def store_ok_def replace_def gateway_ok_def split: option.splits)
  show "gateway_ok g \<Longrightarrow> runs store_ok (update_gateway (r_client (store_reconciler sel c)) g)" for g
    by (auto simp: keeps_def store_client_def s_update_gateway_def store_ok_def replace_def gateway_ok_def split: option.splits)
qed (auto simp: keeps_def store_client_def find_or_def store_ok_def find_Some_iff s_status_policy_def s_status_cpolicy_def
      split: option.splits)

definition first_choices :: choices where
  "first_choices = \<lparr>ch_order = (\<lambda>ks. ks), ch_intn4 = (\<lambda>n. 0), ch_intn6 = (\<lambda>n. 0)\<rparr>"

lemma good_first_choices: "good_choices first_choices"
  unfolding good_choices_def first_choices_def
  using insertion_order.map_iteration_axioms first_choice.random_source_axioms by simp

interpretation memory: cluster "store_reconciler sel first_choices" store_ok for sel
  by (rule store_cluster [OF good_first_choices])

section \<open>Runs on the store\<close>

lemma find_replace: "(\<And>x. P x \<Longrightarrow> P (f x)) \<Longrightarrow> find P (replace P f xs) = map_option f (find P xs)"
  by (induction xs) (auto simp: replace_def)

lemma find_P: "find P xs = Some x \<Longrightarrow> P x"
  by (auto simp: find_Some_iff)

abbreviation stored_policy :: "string \<Rightarrow> string \<Rightarrow> store \<Rightarrow> egress_policy option" where
  "stored_policy ns nm w \<equiv> find (\<lambda>p. named ns nm (ep_meta p)) (s_policies w)"

abbreviation stored_gateway :: "string \<Rightarrow> store \<Rightarrow> egress_gateway option" where
  "stored_gateway nm w \<equiv> find (\<lambda>g. gw_name g = nm) (s_gateways w)"

lemma store_policy_status:
  assumes "stored_policy ns nm w = Some p"
  obtains w' where "updateEgressPolicyStatusIfNeed store_client p a w = (Ok (), w')" "s_gateways w' = s_gateways w"
    "stored_policy ns nm w' = Some (p\<lparr>ep_status := status_of a\<rparr>)"
proof (cases "ep_status p = status_of a")
  case True
  then have "p\<lparr>ep_status := status_of a\<rparr> = p" by simp
  with True assms that [of w] show ?thesis by (simp add: updateEgressPolicyStatusIfNeed_def ret_def)
next
  case False
  let ?P = "\<lambda>q. named ns nm (ep_meta q)" and ?f = "\<lambda>q. q\<lparr>ep_status := status_of a\<rparr>"
  let ?w = "w\<lparr>s_policies := replace ?P ?f (s_policies w)\<rparr>"
  have n: "same_object (ep_meta p) (ep_meta q) \<longleftrightarrow> ?P q" for q
    using find_P [OF assms] by (auto simp: same_object_def named_def)
  have "status_policy store_client (?f p) w = (Ok (?f p), ?w)"
    using assms by (simp add: store_client_def s_status_policy_def n)
  then have "updateEgressPolicyStatusIfNeed store_client p a w = (Ok (), ?w)"
    using False by (simp add: updateEgressPolicyStatusIfNeed_def go_simps)
  moreover have "stored_policy ns nm ?w = Some (?f p)" using assms find_replace [of ?P ?f "s_policies w"] by simp
  ultimately show ?thesis using that [of ?w] by simp
qed

lemma store_usage:
  assumes "updateGatewayStatusWithUsage (store_reconciler sel c) g w = (Ok g', w')"
  shows "stored_gateway (gw_name g) w' = Some g'" "gw_nodes g' = gw_nodes g" "s_policies w' = s_policies w"
proof -
  let ?P = "\<lambda>h. gw_name h = gw_name g"
  obtain u where u: "s_status_gateway (g\<lparr>gw_status := (gw_status g)\<lparr>usage := u\<rparr>\<rparr>) w = (Ok g', w')"
    using assms by (auto simp: updateGatewayStatusWithUsage_def draw_choices_def go_simps api_def store_client_def
        split: outcome.splits prod.splits)
  let ?f = "\<lambda>h. h\<lparr>gw_status := (gw_status g)\<lparr>usage := u\<rparr>\<rparr>"
  obtain h where h: "find ?P (s_gateways w) = Some h" "g' = ?f h" "w' = w\<lparr>s_gateways := replace ?P ?f (s_gateways w)\<rparr>"
    using u by (auto simp: s_status_gateway_def split: option.splits)
  then show "stored_gateway (gw_name g) w' = Some g'" using find_replace [of ?P ?f "s_gateways w"] by simp
  show "gw_nodes g' = gw_nodes g" "s_policies w' = s_policies w" using h by simp_all
qed

lemma requeue_Ok: "requeue b m w = (Ok y, w') \<longleftrightarrow> m w = (Ok y, w')"
  by (auto simp: requeue_def or_fail_def split: prod.splits)

lemma assign_store:
  assumes "assign (store_reconciler sel c) g req spec w = (Ok (a, g'), w')"
  shows "w' = w" "assignIP (ch_order c) (ch_intn4 c) (ch_intn6 c) g (policy_ref req) spec = Ok (Some a, g')"
proof -
  have "w' = w \<and> assignIP (ch_order c) (ch_intn4 c) (ch_intn6 c) g (policy_ref req) spec = Ok (Some a, g')"
    using assms by (auto simp: assign_def bindp_Ok requeue_Ok draw_choices_def lift_def ret_def fail_def split: option.splits)
  then show "w' = w" "assignIP (ch_order c) (ch_intn4 c) (ch_intn6 c) g (policy_ref req) spec = Ok (Some a, g')" by blast+
qed

lemma fetch_gateway_store:
  assumes "fetch_policy_gateway (store_reconciler sel c) nm w = (Ok g, w')"
  shows "w' = w" "stored_gateway nm w = Some g"
  using assms by (auto simp: fetch_policy_gateway_def fetch_def store_client_def find_or_def go_simps split: option.splits)

text \<open>What a policy and its gateway look like after the policy was reconciled.\<close>

lemma reconcile_policy_store:
  assumes c: "good_choices c" and w: "store_ok w" and p: "stored_policy ns nm w = Some p"
    and live: "\<not> om_deleting (ep_meta p)" "nm \<noteq> []" "ep_gateway_name (ep_spec p) \<noteq> []"
    and r: "reconcileEgressPolicy (store_reconciler sel c) \<lparr>req_namespace = ns, req_name = nm\<rparr> w = (Ok b, w')"
  shows "\<exists>g g' a. stored_gateway (ep_gateway_name (ep_spec p)) w = Some g \<and>
    stored_gateway (ep_gateway_name (ep_spec p)) w' = Some g' \<and>
    stored_policy ns nm w' = Some (p\<lparr>ep_status := status_of a\<rparr>) \<and>
    (default_placed g (ep_egress_ip (ep_spec p)) \<or>
     alloc_map (gw_nodes g') \<lparr>policy_name = nm, policy_namespace = ns\<rparr> = Some (as_node a, as_ipv4 a, as_ipv6 a))"
proof -
  let ?r = "store_reconciler sel c" and ?req = "\<lparr>req_namespace = ns, req_name = nm\<rparr>"
    and ?gn = "ep_gateway_name (ep_spec p)" and ?ref = "\<lparr>policy_name = nm, policy_namespace = ns\<rparr>"
  have nm: "om_name (ep_meta p) = nm" using find_P [OF p] by (simp add: named_def)
  have "fetch (get_policy (r_client ?r) ns nm) w = (Ok (Some p), w)"
    using p by (simp add: fetch_def store_client_def find_or_def go_simps)
  with r live nm obtain g v a v' where st: "fetch_policy_gateway ?r ?gn w = (Ok g, v)"
    "(case getAssignedIP g ns nm of
        None \<Rightarrow> bindp (assign ?r g ?req (ep_egress_ip (ep_spec p))) (\<lambda>(a, g).
                bindp (requeue True (updateGatewayStatusWithUsage ?r g)) (\<lambda>_. ret a))
      | Some a \<Rightarrow> ret a) v = (Ok a, v')"
    "updateEgressPolicyStatusIfNeed store_client p a v' = (Ok (), w')"
    by (auto simp: reconcileEgressPolicy_def Let_def bindp_Ok requeue_Ok ret_def)
  have g: "stored_gateway ?gn w = Some g" and v: "v = w" using fetch_gateway_store [OF st(1)] by auto
  then have gn: "gw_name g = ?gn" using find_P [OF g] by simp
  have ok: "gateway_ok g" using g w by (auto simp: store_ok_def find_Some_iff)
  have mid: "\<exists>g'. stored_gateway ?gn v' = Some g' \<and> s_policies v' = s_policies w \<and>
      (default_placed g (ep_egress_ip (ep_spec p)) \<or> alloc_map (gw_nodes g') ?ref = Some (as_node a, as_ipv4 a, as_ipv6 a))"
  proof (cases "getAssignedIP g ns nm")
    case None
    then obtain g1 g2 where a: "assign ?r g ?req (ep_egress_ip (ep_spec p)) w = (Ok (a, g1), w)"
      "updateGatewayStatusWithUsage ?r g1 w = (Ok g2, v')"
      using st(2) v by (auto simp: bindp_Ok requeue_Ok ret_def dest: assign_store(1))
    have n: "alloc_map (gw_nodes g) ?ref = None" using None by (simp add: getAssignedIP_eq)
    have as: "if default_placed g (ep_egress_ip (ep_spec p)) then g1 = g else records g ?ref a g1"
      using assignIP_records [OF ok n] assign_store(2) [OF a(1)] c by (simp add: policy_ref_def good_choices_def)
    then have "gw_name g1 = ?gn" using gn by (auto simp: records_def split: if_splits)
    with store_usage [OF a(2)] as show ?thesis by (auto simp: records_def split: if_splits)
  next
    case (Some a')
    then have "v' = w" "a' = a" using st(2) v by (auto simp: ret_def)
    then show ?thesis using Some g by (auto simp: getAssignedIP_eq)
  qed
  then have "stored_policy ns nm v' = Some p" using p by auto
  from store_policy_status [OF this, of a] st(3) have "s_gateways w' = s_gateways v'"
    "stored_policy ns nm w' = Some (p\<lparr>ep_status := status_of a\<rparr>)" by auto
  with mid g show ?thesis by auto
qed

section \<open>The loop over the node list, on the store\<close>

abbreviation stored_tunnel :: "string \<Rightarrow> store \<Rightarrow> egress_tunnel option" where
  "stored_tunnel nm w \<equiv> find (\<lambda>t. om_name (et_meta t) = nm) (s_tunnels w)"

definition stays :: "string list \<Rightarrow> store \<Rightarrow> egress_ip_status \<Rightarrow> bool" where
  "stays keys w n \<longleftrightarrow> en_name n \<in> set keys \<and> stored_tunnel (en_name n) w \<noteq> None"

definition synced :: "store \<Rightarrow> egress_ip_status \<Rightarrow> egress_ip_status" where
  "synced w n = (case stored_tunnel (en_name n) w of
     None \<Rightarrow> n
   | Some t \<Rightarrow> if et_phase (et_status t) \<noteq> en_status n then n\<lparr>en_status := EgressTunnelPending\<rparr> else n)"

lemma stays_removeAll: "en_name n \<noteq> nm \<Longrightarrow> stays (removeAll nm keys) w n = stays keys w n"
  by (simp add: stays_def)

lemma filter_stays_removeAll:
  "nm \<notin> en_name ` set ns \<Longrightarrow> filter (stays (removeAll nm keys) w) ns = filter (stays keys w) ns \<and>
     filter (\<lambda>n. \<not> stays (removeAll nm keys) w n) ns = filter (\<lambda>n. \<not> stays keys w n) ns"
  by (induction ns) (auto simp: stays_removeAll)

lemma prune_store:
  assumes "distinct (map en_name ns)"
  shows "\<exists>upd'. prune_loop (store_reconciler sel c) kept ns keys mv upd w =
    (Ok (kept @ map (synced w) (filter (stays keys w) ns), filter (\<lambda>k. k \<notin> en_name ` set ns) keys,
         mv @ concat (map en_eips (filter (\<lambda>n. \<not> stays keys w n) ns)), upd'), w)"
  using assms
proof (induction ns arbitrary: kept keys mv upd)
  case Nil
  then show ?case by (simp add: prune_loop.simps)
next
  case (Cons n ns)
  let ?r = "store_reconciler sel c" and ?nm = "en_name n" and ?t = "stored_tunnel (en_name n) w"
  have n: "?nm \<notin> en_name ` set ns" "distinct (map en_name ns)" using Cons.prems by auto
  note f = filter_stays_removeAll [OF n(1), of keys w]
  have k: "filter (\<lambda>k. k \<notin> en_name ` set ns) (removeAll ?nm keys) = filter (\<lambda>k. k \<notin> en_name ` set (n # ns)) keys"
    by (auto simp: removeAll_filter_not_eq intro!: filter_cong)
  have get: "get_tunnel (r_client ?r) ?nm w = (case ?t of None \<Rightarrow> Err NotFound | Some t \<Rightarrow> Ok t, w)"
    by (simp add: store_client_def find_or_def)
  have out: "\<exists>upd'. prune_loop ?r kept (m # ns) keys' mv' u w =
      (Ok (kept @ map (synced w) (filter (stays keys' w) ns), filter (\<lambda>k. k \<notin> en_name ` set ns) keys',
          (mv' @ en_eips m) @ concat (map en_eips (filter (\<lambda>n. \<not> stays keys' w n) ns)), upd'), w)"
    if "en_name m \<notin> set keys'" for m keys' mv' u
    using that Cons.IH [OF n(2), of kept keys' "mv' @ en_eips m" True] by (subst prune_loop.simps(2)) simp
  show ?case
  proof (cases "?nm \<in> set keys")
    case False
    then have "filter (\<lambda>k. k \<notin> en_name ` set ns) keys = filter (\<lambda>k. k \<notin> en_name ` set (n # ns)) keys"
      by (intro filter_cong) auto
    moreover have "\<not> stays keys w n" using False by (simp add: stays_def)
    ultimately show ?thesis using out [OF False, of mv upd] by simp
  next
    case True
    show ?thesis
    proof (cases ?t)
      case None
      have m: "?nm \<notin> set (removeAll ?nm keys)" by simp
      have "\<not> stays keys w n" using None by (simp add: stays_def)
      then have e: "filter (stays keys w) (n # ns) = filter (stays (removeAll ?nm keys) w) ns"
        "filter (\<lambda>n. \<not> stays keys w n) (n # ns) = n # filter (\<lambda>n. \<not> stays (removeAll ?nm keys) w n) ns"
        using f by simp_all
      have g: "get_tunnel (r_client ?r) ?nm w = (Err NotFound, w)" using get None by simp
      show ?thesis unfolding e k [symmetric]
      proof (cases "EgressTunnelPending = en_status n")
        case p: True
        show "\<exists>upd'. prune_loop ?r kept (n # ns) keys mv upd w =
            (Ok (kept @ map (synced w) (filter (stays (removeAll ?nm keys) w) ns), filter (\<lambda>k. k \<notin> en_name ` set ns) (removeAll ?nm keys),
              mv @ concat (map en_eips (n # filter (\<lambda>n. \<not> stays (removeAll ?nm keys) w n) ns)), upd'), w)"
          using out [OF m, of mv upd] True g p by (subst prune_loop.simps(2)) (simp add: Let_def)
      next
        case p: False
        show "\<exists>upd'. prune_loop ?r kept (n # ns) keys mv upd w =
            (Ok (kept @ map (synced w) (filter (stays (removeAll ?nm keys) w) ns), filter (\<lambda>k. k \<notin> en_name ` set ns) (removeAll ?nm keys),
              mv @ concat (map en_eips (n # filter (\<lambda>n. \<not> stays (removeAll ?nm keys) w n) ns)), upd'), w)"
          using out [of "n\<lparr>en_status := EgressTunnelPending, en_eips := []\<rparr>" "removeAll ?nm keys" "mv @ en_eips n" True] True g p
          by (subst prune_loop.simps(2)) (simp add: Let_def)
      qed
    next
      case (Some t)
      then have "stays keys w n" using True by (simp add: stays_def)
      then have e: "filter (stays keys w) (n # ns) = n # filter (stays (removeAll ?nm keys) w) ns"
        "filter (\<lambda>n. \<not> stays keys w n) (n # ns) = filter (\<lambda>n. \<not> stays (removeAll ?nm keys) w n) ns"
        using f by simp_all
      have "get_tunnel (r_client ?r) ?nm w = (Ok t, w)" using get Some by simp
      then have "prune_loop ?r kept (n # ns) keys mv upd w =
          prune_loop ?r (kept @ [synced w n]) ns (removeAll ?nm keys) mv (upd \<or> et_phase (et_status t) \<noteq> en_status n) w"
        using True Some by (subst prune_loop.simps(2)) (simp add: Let_def synced_def)
      then show ?thesis unfolding e k [symmetric]
        using Cons.IH [OF n(2), of "kept @ [synced w n]" "removeAll ?nm keys" mv "upd \<or> et_phase (et_status t) \<noteq> en_status n"] by simp
    qed
  qed
qed

lemma store_count:
  "getPolicyCountByGatewayName store_client nm w =
     (Ok (length (filter (\<lambda>p. ep_gateway_name (ep_spec p) = nm) (s_policies w))), w)"
  by (simp add: getPolicyCountByGatewayName_def api_def store_client_def go_simps Let_def)

end
