(* ===== verification/IPProps.thy ===== *)
theory IPProps
  imports IPCidr
begin

text \<open>The properties of \<^verbatim>\<open>pkg/utils/ip\<close>, with their witnesses.\<close>

lemma to_be_numeral: "to_be (numeral k) n = to_be (pred_numeral k) (n div 256) @ [n mod 256]"
  by (subst numeral_eq_Suc) (rule to_be.simps(2))

lemmas ip_eval = to_be_numeral ParseIP_def parse_addr_def parse_ipv4_fields_def parse_octet_def dec_digit_def
  v6_loop.simps is_hex_def hex_digit_def parse_ipv6_def v6_finish_def replicate_numeral_Cons
  to4_def to16_def v4InV6Prefix_def
  ip_string_def string4_def string6_def groups_of_def upt_rec zero_run_def colon_join_def hex_string.simps
  dec_string.simps digit_char_def IPv4_def IPv6_def IsIPVersion_def gov_IsIPv4_def gov_IsIPv6_def
  is_cidr_def ParseCIDR_def IsIPv4IPRange_def IsIPv6IPRange_def IsIPRange_def ParseIPRange_def
  ConvertCidrOrIPrangeToIPs_def CidrsToIPs_def put_ips_def range_values_def List.map_filter_def map_keys_def add_key_def

lemma pool_v4: "map_iteration ord \<Longrightarrow> ip_pool IPv4 ip4 (\<lambda>m. m < 2 ^ 32) (2 ^ 24) (2 ^ 32) gov_IsIPv4 ord"
  by (intro ip_pool.intro v4.ip_family_axioms string_iteration.intro)

lemma pool_v6: "map_iteration ord \<Longrightarrow> ip_pool IPv6 ip6 dom6 (2 ^ 120) (2 ^ 128) gov_IsIPv6 ord"
  by (intro ip_pool.intro v6.ip_family_axioms string_iteration.intro)

text \<open>C29. Expanding an IPv4 range ends, with exactly the addresses of the interval in order, when the
  range starts at 0.255.255.255 or later and ends before 255.255.255.255; every other range makes
  the loop run for ever.\<close>

theorem ParseIPRange_v4_exact:
  assumes "m \<le> n" "n < 2 ^ 32"
  shows "ParseIPRange IPv4 (ip_string (ip4 m) @ ''-'' @ ip_string (ip4 n)) =
    (if 2 ^ 24 \<le> m + 1 \<and> n + 1 < 2 ^ 32 then Ok (map ip4 [m..<n + 1]) else Diverge)"
proof -
  have m: "m < 2 ^ 32" using assms by simp
  have "range_loop (ip4 m) (ip4 n) = None" if "m + 1 < 2 ^ 24"
  proof -
    have "NextIP (ip4 m) = []" using NextIP_ip4 [OF m] that by simp
    then show ?thesis using v4.cmp_mk [OF m assms(2)] assms(1)
      by (simp add: range_loop.simps [of "ip4 m"] range_loop_nil)
  qed
  moreover have "range_loop (ip4 m) (ip4 n) = None" if "2 ^ 24 \<le> m + 1" "\<not> n + 1 < 2 ^ 32"
    by (rule v4.range_loop_wrap [OF m assms(2)]) (use that assms in auto)
  moreover have "range_loop (ip4 m) (ip4 n) = Some (map ip4 [m..<n + 1])" if "2 ^ 24 \<le> m + 1" "n + 1 < 2 ^ 32"
    using v4.range_loop_ok [OF m assms(2)] that assms(1) by simp
  ultimately show ?thesis
    unfolding v4.parse_pair [OF m assms(2,1)] by (cases "2 ^ 24 \<le> m + 1"; cases "n + 1 < 2 ^ 32") auto
qed

theorem ParseIPRange_v4_exact_witness:
  "ParseIPRange IPv4 (ip_string (ip4 168427781) @ ''-'' @ ip_string (ip4 168427783)) =
     Ok [ip4 168427781, ip4 168427782, ip4 168427783]"
  using ParseIPRange_v4_exact [of 168427781 168427783] by (simp add: upt_rec)

text \<open>Expanding an IPv6 range with a non-zero first byte ends with exactly the addresses of the
  interval in order, unless it reaches the last address, where the loop runs for ever.\<close>

theorem ParseIPRange_v6_exact:
  assumes "dom6 m" "dom6 n" "m \<le> n" "2 ^ 120 \<le> m + 1"
  shows "ParseIPRange IPv6 (ip_string (ip6 m) @ ''-'' @ ip_string (ip6 n)) =
    (if n + 1 < 2 ^ 128 then Ok (map ip6 [m..<n + 1]) else Diverge)"
proof -
  have "n + 1 = 2 ^ 128" if "\<not> n + 1 < 2 ^ 128" using that assms(2) by (simp add: dom6_def)
  then show ?thesis
    unfolding v6.parse_pair [OF assms(1-3)]
    using v6.range_loop_ok [OF assms(1,2,4)] v6.range_loop_wrap [OF assms(1,2,4)] assms(3) by auto
qed

theorem ParseIPRange_v6_exact_witness:
  "ParseIPRange IPv6 (ip_string (ip6 (2 ^ 120)) @ ''-'' @ ip_string (ip6 (2 ^ 120 + 1))) =
     Ok [ip6 (2 ^ 120), ip6 (2 ^ 120 + 1)]"
  using ParseIPRange_v6_exact [of "2 ^ 120" "2 ^ 120 + 1"] by (simp add: dom6_def upt_rec)

text \<open>The difference of two address lists holds exactly the addresses of the first list that are
  not in the second one, each once, whatever order the map is visited in.\<close>

theorem IPsDiffSet_difference:
  assumes "map_iteration ord"
    and "\<forall>ip \<in> set ips1. ip \<noteq> [] \<longrightarrow> wf_ip ip" "\<forall>ip \<in> set ips2. ip \<noteq> [] \<longrightarrow> wf_ip ip"
  shows "set (IPsDiffSet ord ips1 ips2 srt) = to16 ` (set ips1 - {[]}) - to16 ` (set ips2 - {[]}) \<and>
    distinct (IPsDiffSet ord ips1 ips2 srt)"
proof -
  have "string_iteration ord" using assms(1) by (simp add: string_iteration_def)
  then show ?thesis using string_iteration.IPsDiffSet_spec assms(2,3) by blast
qed

theorem IPsDiffSet_difference_witness:
  "set (IPsDiffSet rev [[10, 6, 1, 21], [10, 6, 1, 22]] [[10, 6, 1, 22], []] False) = {to16 [10, 6, 1, 21]} \<and>
   distinct (IPsDiffSet rev [[10, 6, 1, 21], [10, 6, 1, 22]] [[10, 6, 1, 22], []] False)"
  using IPsDiffSet_difference [OF reverse_order.map_iteration_axioms,
      of "[[10, 6, 1, 21], [10, 6, 1, 22]]" "[[10, 6, 1, 22], []]" False]
  by (simp add: wf_ip_def to16_def v4InV6Prefix_def insert_Diff_if)

text \<open>C28. Merging an IPv4 pool of ranges, addresses and CIDR blocks and parsing the merged ranges gives
  the addresses of the pool, each once and in ascending order, whatever order the maps are visited
  in; the last address of the address space is excluded, where parsing does not end.\<close>

theorem MergeIPRanges_v4_parse:
  assumes "map_iteration ord" "ConvertCidrOrIPrangeToIPs ord pool IPv4 = Ok ips"
    and "MergeIPRanges ord IPv4 pool = Ok rs" "\<forall>ip \<in> set ips. ipToInt ip + 1 < 2 ^ 32"
  shows "ParseIPRanges IPv4 rs = Ok (map ip4 (sorted_list_of_set (ipToInt ` set ips)))"
  using ip_pool.merge_parse(1) [OF pool_v4 [OF assms(1)] assms(2-4)]
  by (simp add: ip_pool.pool_nums_def [OF pool_v4 [OF assms(1)]])

theorem MergeIPRanges_v4_parse_witness:
  "\<exists>rs. MergeIPRanges rev IPv4 [''10.6.1.21'', ''10.6.1.20''] = Ok rs \<and>
     ParseIPRanges IPv4 rs = Ok [ip4 168165652, ip4 168165653]"
proof -
  have c: "ConvertCidrOrIPrangeToIPs rev [''10.6.1.21'', ''10.6.1.20''] IPv4 = Ok [ip4 168165652, ip4 168165653]"
    by (simp add: ip_eval ip4_def)
  have m: "MergeIPRanges rev IPv4 [''10.6.1.21'', ''10.6.1.20''] = Ok (ranges_from
      (sort_key to16 (map ParseIP (rev (map_keys (map ip_string [ip4 168165652, ip4 168165653]))))) 0 0)"
    using c by (simp add: MergeIPRanges_def ConvertIPsToIPRanges_def IsIPVersion_def IPv4_def IPv6_def)
  have n: "ipToInt (ip4 168165652) = 168165652" "ipToInt (ip4 168165653) = 168165653"
    using ipToInt_ip4 [of 168165652] ipToInt_ip4 [of 168165653] by simp_all
  have s: "sorted_list_of_set {168165652, 168165653 :: nat} = [168165652, 168165653]" by simp
  show ?thesis using MergeIPRanges_v4_parse [OF reverse_order.map_iteration_axioms c m] m by (simp add: n s)
qed

text \<open>The same for IPv6 pools.\<close>

theorem MergeIPRanges_v6_parse:
  assumes "map_iteration ord" "ConvertCidrOrIPrangeToIPs ord pool IPv6 = Ok ips"
    and "MergeIPRanges ord IPv6 pool = Ok rs" "\<forall>ip \<in> set ips. ipToInt ip + 1 < 2 ^ 128"
  shows "ParseIPRanges IPv6 rs = Ok (map ip6 (sorted_list_of_set (ipToInt ` set ips)))"
  using ip_pool.merge_parse(1) [OF pool_v6 [OF assms(1)] assms(2-4)]
  by (simp add: ip_pool.pool_nums_def [OF pool_v6 [OF assms(1)]])

theorem MergeIPRanges_v6_parse_witness:
  "\<exists>rs. MergeIPRanges rev IPv6 [''fd00::2''] = Ok rs \<and> ParseIPRanges IPv6 rs = Ok [ip6 (253 * 2 ^ 120 + 2)]"
proof -
  have c: "ConvertCidrOrIPrangeToIPs rev [''fd00::2''] IPv6 = Ok [[253, 0, 0, 0, 0, 0, 0, 0, 0, 0, 0, 0, 0, 0, 0, 2]]"
    by (simp add: ip_eval)
  have m: "MergeIPRanges rev IPv6 [''fd00::2''] = Ok (ranges_from
      (sort_key to16 (map ParseIP (rev (map_keys (map ip_string [[253, 0, 0, 0, 0, 0, 0, 0, 0, 0, 0, 0, 0, 0, 0, 2]]))))) 0 0)"
    using c by (simp add: MergeIPRanges_def ConvertIPsToIPRanges_def IsIPVersion_def IPv4_def IPv6_def to4_def v4InV6Prefix_def)
  have n: "ipToInt [253, 0, 0, 0, 0, 0, 0, 0, 0, 0, 0, 0, 0, 0, 0, 2] = 253 * 2 ^ 120 + 2"
    by (simp add: ipToInt_def be_val_def to4_def to16_def v4InV6Prefix_def)
  show ?thesis using MergeIPRanges_v6_parse [OF reverse_order.map_iteration_axioms c m] m by (simp add: n)
qed

text \<open>The membership test of an IPv4 address in a pool answers whether the address is one of the
  addresses the pool expands to.\<close>

theorem IsIPIncludedRange_v4:
  assumes "map_iteration ord" "gov_IsIPv4 s" "CHR ''-'' \<notin> set s"
    and "ConvertCidrOrIPrangeToIPs ord pool IPv4 = Ok ips"
    and "\<forall>ip \<in> set ips. to4 ip \<noteq> [] \<and> ipToInt ip + 1 < 2 ^ 32"
  shows "IsIPIncludedRange ord IPv4 s pool = Ok (ParseIP s \<in> to16 ` set ips)"
  by (rule ip_pool.included_range [OF pool_v4 [OF assms(1)] assms(2-4)])
     (use assms(5) in \<open>auto simp: right_version_def IPv4_def IPv6_def\<close>)

theorem IsIPIncludedRange_v4_witness:
  "IsIPIncludedRange rev IPv4 ''10.6.1.20'' [''10.6.1.21'', ''10.6.1.20''] = Ok True"
proof -
  have c: "ConvertCidrOrIPrangeToIPs rev [''10.6.1.21'', ''10.6.1.20''] IPv4 = Ok [ip4 168165652, ip4 168165653]"
    by (simp add: ip_eval ip4_def)
  have n: "ipToInt (ip4 168165652) = 168165652" "ipToInt (ip4 168165653) = 168165653"
    using ipToInt_ip4 [of 168165652] ipToInt_ip4 [of 168165653] by simp_all
  have "ParseIP ''10.6.1.20'' = ip4 168165652" by (simp add: ip_eval ip4_def)
  then show ?thesis using IsIPIncludedRange_v4 [OF reverse_order.map_iteration_axioms _ _ c, of "''10.6.1.20''"]
    by (simp add: n gov_IsIPv4_def)
qed

text \<open>An IPv4 CIDR block expands to its usable hosts: the network and the broadcast address are left
  out when the block has more than two addresses, and the whole address space never ends.\<close>

theorem CidrToIPs_v4_hosts:
  assumes "a < 2 ^ 32" "n \<le> 32"
  shows "CidrToIPs (ip_string (ip4 a) @ ''/'' @ dec_string n) =
    (let d = 2 ^ (32 - n); B = a div d * d in
     if n = 0 then Diverge
     else Ok (map (to_be 4) (if 31 \<le> n then [B..<B + d] else [B + 1..<B + d - 1])))"
  unfolding Let_def by (rule CidrToIPs_exact [OF assms])

theorem CidrToIPs_v4_hosts_witness:
  "CidrToIPs (ip_string (ip4 168165652) @ ''/'' @ dec_string 30) = Ok [to_be 4 168165653, to_be 4 168165654]"
  using CidrToIPs_v4_hosts [of 168165652 30] by (simp add: upt_rec)

text \<open>Two address lists of equal length without an invalid address are the same exactly when they
  hold the same printed addresses, each as often.\<close>

theorem IsSameIPs_mset:
  assumes "\<forall>s \<in> set a \<union> set b. ParseIP s \<noteq> nil_ip"
  shows "IsSameIPs a b = Ok (image_mset (\<lambda>s. ip_string (ParseIP s)) (mset a) = image_mset (\<lambda>s. ip_string (ParseIP s)) (mset b))"
proof -
  let ?f = "\<lambda>s. ip_string (ParseIP s)"
  have s: "SortIPs xs = Ok (sort (map ?f xs))" if "\<forall>s \<in> set xs. ParseIP s \<noteq> nil_ip" for xs
    unfolding SortIPs_def using that by (subst oc_mapM_all_Ok [where g = ?f]) auto
  have e: "list_all (\<lambda>i. xs ! i = ys ! i) [0..<length xs] \<longleftrightarrow> xs = ys" if "length xs = length ys" for xs ys :: "string list"
    using that by (auto simp: list_all_iff intro: nth_equalityI)
  have m: "sort (map ?f a) = sort (map ?f b) \<longleftrightarrow> image_mset ?f (mset a) = image_mset ?f (mset b)"
  proof
    assume "sort (map ?f a) = sort (map ?f b)"
    then have "mset (sort (map ?f a)) = mset (sort (map ?f b))" by (rule arg_cong)
    then show "image_mset ?f (mset a) = image_mset ?f (mset b)" by (simp only: mset_sort mset_map)
  next
    assume "image_mset ?f (mset a) = image_mset ?f (mset b)"
    then show "sort (map ?f a) = sort (map ?f b)" by (intro properties_for_sort) simp_all
  qed
  show ?thesis
  proof (cases "length a = length b")
    case True
    have "SortIPs a = Ok (sort (map ?f a))" "SortIPs b = Ok (sort (map ?f b))" using assms by (intro s; simp)+
    then show ?thesis unfolding IsSameIPs_def m [symmetric] using True e [of "sort (map ?f a)" "sort (map ?f b)"]
      by (simp del: list_all_iff)
  next
    case False
    have "image_mset ?f (mset a) \<noteq> image_mset ?f (mset b)"
    proof
      assume "image_mset ?f (mset a) = image_mset ?f (mset b)"
      then have "size (image_mset ?f (mset a)) = size (image_mset ?f (mset b))" by (rule arg_cong)
      with False show False by simp
    qed
    with False show ?thesis by (simp add: IsSameIPs_def)
  qed
qed

theorem IsSameIPs_mset_witness: "IsSameIPs [''10.6.1.20'', ''10.6.1.21''] [''10.6.1.21'', ''10.6.1.20''] = Ok True"
  using IsSameIPs_mset [of "[''10.6.1.20'', ''10.6.1.21'']" "[''10.6.1.21'', ''10.6.1.20'']"]
  by (simp add: ip_eval)

end
