(* ===== verification/GatewayProps.thy ===== *)
theory GatewayProps
  imports ApiStore IPProps
begin

text \<open>The properties of the egress gateway component, with their witnesses.\<close>

section \<open>An example gateway\<close>

definition ex_meta :: "string \<Rightarrow> string \<Rightarrow> object_meta" where
  "ex_meta ns nm = \<lparr>om_name = nm, om_namespace = ns, om_deleting = False, om_finalizers = [], om_labels = []\<rparr>"

definition ex_policy :: "string \<Rightarrow> policy" where
  "ex_policy nm = \<lparr>policy_name = nm, policy_namespace = ''default''\<rparr>"

definition ex_eip :: "string \<Rightarrow> string list \<Rightarrow> eips" where
  "ex_eip v4 ps = \<lparr>eip_ipv4 = v4, eip_ipv6 = [], eip_policies = map ex_policy ps\<rparr>"

definition ex_node :: "string \<Rightarrow> string \<Rightarrow> eips list \<Rightarrow> egress_ip_status" where
  "ex_node nm st es = \<lparr>en_name = nm, en_eips = es, en_status = st\<rparr>"

definition ex_gateway :: "egress_ip_status list \<Rightarrow> egress_gateway" where
  "ex_gateway ns = \<lparr>gw_meta = ex_meta [] ''egw'',
     gw_spec = \<lparr>cluster_default = False,
       gw_ippools = \<lparr>pool_ipv4 = [''10.6.1.20'', ''10.6.1.21''], pool_ipv6 = [],
                     ipv4_default_eip = ''10.6.1.20'', ipv6_default_eip = []\<rparr>,
       gw_node_selector = \<lparr>sel_policy = [], sel_selector = None\<rparr>\<rparr>,
     gw_status = \<lparr>node_list = ns, usage = \<lparr>ipv4_total = 2, ipv4_free = 2, ipv6_total = 0, ipv6_free = 0\<rparr>\<rparr>\<rparr>"

definition ex_spec :: "string \<Rightarrow> bool \<Rightarrow> string \<Rightarrow> egress_ip" where
  "ex_spec v4 nodeip alloc = \<lparr>ei_ipv4 = v4, ei_ipv6 = [], use_node_ip = nodeip, allocator_policy = alloc\<rparr>"

lemmas ex_defs = ex_meta_def ex_policy_def ex_eip_def ex_node_def ex_gateway_def ex_spec_def

lemmas alloc_eval = ex_defs gateway_ok_def alloc_with_def eips_ok_def node_ips_ok_def node_ok_def is_node_ip_def
  getAssignedIP_def is_policy_def assignIP_def assign_node_ip_def nIndex_def EgressTunnelReady_def EipAllocatorRR_def
  set_nodes_def add_eip_def add_policy_def same_eip_def reuse_eip_def assign_new_eip_def MaxInt8_def
  default_placed_def is_default_eip_def is_ready_def

lemma ex_convert: "ConvertCidrOrIPrangeToIPs (\<lambda>ks. ks) [''10.6.1.20'', ''10.6.1.21''] IPv4 = Ok [ip4 168165652, ip4 168165653]"
  by (simp add: ip_eval ip4_def)

lemma ex_nums: "ipToInt (ip4 168165652) = 168165652" "ipToInt (ip4 168165653) = 168165653"
  using ipToInt_ip4 [of 168165652] ipToInt_ip4 [of 168165653] by simp_all

lemma ex_merge: obtains rs where "MergeIPRanges (\<lambda>ks. ks) IPv4 [''10.6.1.20'', ''10.6.1.21''] = Ok rs"
    "ParseIPRanges IPv4 rs = Ok [ip4 168165652, ip4 168165653]"
proof -
  let ?rs = "ranges_from (sort_key to16 (map ParseIP (map_keys (map ip_string [ip4 168165652, ip4 168165653])))) 0 0"
  have m: "MergeIPRanges (\<lambda>ks. ks) IPv4 [''10.6.1.20'', ''10.6.1.21''] = Ok ?rs"
    using ex_convert by (simp add: MergeIPRanges_def ConvertIPsToIPRanges_def IsIPVersion_def IPv4_def IPv6_def)
  have "sorted_list_of_set {168165652, 168165653 :: nat} = [168165652, 168165653]" by simp
  then have "ParseIPRanges IPv4 ?rs = Ok [ip4 168165652, ip4 168165653]"
    using v4_insertion.merge_parse(1) [OF ex_convert m] by (simp add: v4_insertion.pool_nums_def ex_nums)
  with m that show ?thesis by blast
qed

section \<open>Assignments\<close>

text \<open>Looking up a policy in a gateway status is a lookup in the map the status stands for: the
  node and the pair of addresses of the first entry that names the policy.\<close>

theorem getAssignedIP_lookup:
  "getAssignedIP g ns nm =
     map_option (\<lambda>(n, v4, v6). \<lparr>as_node = n, as_ipv4 = v4, as_ipv6 = v6, as_use_node_ip = False\<rparr>)
       (alloc_map (gw_nodes g) \<lparr>policy_name = nm, policy_namespace = ns\<rparr>)"
  by (rule getAssignedIP_eq)

text \<open>C5. Assigning an egress IP to a policy that has none updates the map of the status at that policy
  with the node and the addresses that are returned, leaves every other policy where it is, and
  keeps the invariant: no policy and no address twice, no entry without a policy. The one exception
  is the default egress IP when it is placed already.\<close>

theorem assignIP_updates_map:
  assumes "gateway_ok g" "getAssignedIP g ns nm = None" "\<not> default_placed g spec"
    and "map_iteration ord" "random_source intn4" "random_source intn6"
    and "assignIP ord intn4 intn6 g \<lparr>policy_name = nm, policy_namespace = ns\<rparr> spec = Ok (Some a, g')"
  shows "gateway_ok g' \<and> alloc_map (gw_nodes g') =
    (alloc_map (gw_nodes g))(\<lparr>policy_name = nm, policy_namespace = ns\<rparr> \<mapsto> (as_node a, as_ipv4 a, as_ipv6 a))"
proof -
  have "alloc_map (gw_nodes g) \<lparr>policy_name = nm, policy_namespace = ns\<rparr> = None"
    using assms(2) by (simp add: getAssignedIP_eq)
  from assignIP_records [OF assms(1) this assms(7,4,5,6)] show ?thesis using assms(3) by (simp add: records_def)
qed

theorem assignIP_updates_map_witness:
  "\<exists>g'. assignIP (\<lambda>ks. ks) (\<lambda>n. 0) (\<lambda>n. 0) (ex_gateway [ex_node ''n1'' ''Ready'' [ex_eip ''10.6.1.20'' [''p'']]])
       (ex_policy ''q'') (ex_spec ''10.6.1.21'' False ''default'') =
     Ok (Some \<lparr>as_node = ''n1'', as_ipv4 = ''10.6.1.21'', as_ipv6 = [], as_use_node_ip = False\<rparr>, g') \<and>
     gateway_ok g' \<and> alloc_map (gw_nodes g') (ex_policy ''q'') = Some (''n1'', ''10.6.1.21'', [])"
proof -
  let ?g = "ex_gateway [ex_node ''n1'' ''Ready'' [ex_eip ''10.6.1.20'' [''p'']]]"
    and ?a = "\<lparr>as_node = ''n1'', as_ipv4 = ''10.6.1.21'', as_ipv6 = [], as_use_node_ip = False\<rparr>"
    and ?h = "ex_gateway [ex_node ''n1'' ''Ready'' [ex_eip ''10.6.1.20'' [''p''], ex_eip ''10.6.1.21'' [''q'']]]"
  have a: "assignIP (\<lambda>ks. ks) (\<lambda>n. 0) (\<lambda>n. 0) ?g \<lparr>policy_name = ''q'', policy_namespace = ''default''\<rparr>
      (ex_spec ''10.6.1.21'' False ''default'') = Ok (Some ?a, ?h)"
    by (simp add: alloc_eval)
  have "gateway_ok ?g" "getAssignedIP ?g ''default'' ''q'' = None" "\<not> default_placed ?g (ex_spec ''10.6.1.21'' False ''default'')"
    by (simp_all add: alloc_eval)
  from assignIP_updates_map [OF this insertion_order.map_iteration_axioms first_choice.random_source_axioms
      first_choice.random_source_axioms a] a
  show ?thesis by (auto simp: ex_policy_def)
qed


lemma ex_pick: "pick_free (\<lambda>ks. ks) (\<lambda>n. 0) IPv4 nm [''10.6.1.20'', ''10.6.1.21''] [''10.6.1.20''] [] = Ok ''10.6.1.21''"
proof (rule ex_merge)
  fix rs
  assume "MergeIPRanges (\<lambda>ks. ks) IPv4 [''10.6.1.20'', ''10.6.1.21''] = Ok rs" "ParseIPRanges IPv4 rs = Ok [ip4 168165652, ip4 168165653]"
  then show ?thesis by (simp add: pick_free_def IPsDiffSet_def ip_eval ip4_def)
qed


text \<open>A policy that asks for the address of the node, or for an address drawn from the pool, is placed
  on a ready node, and no ready node has fewer egress IPs.\<close>

theorem assignIP_least_loaded:
  assumes "map_iteration ord" "random_source intn4" "random_source intn6"
    and "assignIP ord intn4 intn6 g p spec = Ok (Some a, g')"
    and "use_node_ip spec \<or> (ei_ipv4 spec = [] \<and> ei_ipv6 spec = [] \<and> allocator_policy spec = EipAllocatorRR)"
  shows "\<exists>n \<in> set (gw_nodes g). en_name n = as_node a \<and> is_ready n \<and>
    (\<forall>m \<in> set (gw_nodes g). is_ready m \<longrightarrow> length (en_eips n) \<le> length (en_eips m))"
proof -
  have "\<exists>i. nIndex g = Some i \<and> as_node a = en_name (gw_nodes g ! i)"
    using assms(4)
  proof (cases rule: assignIP_cases)
    case node
    then show ?thesis by (auto simp: assign_node_ip_def Let_def split: option.splits)
  next
    case (rr a')
    show ?thesis by (rule assign_rr_cases [OF rr(5) assms(1-3) rr(2,3)]) (use rr in auto)
  qed (use assms(5) in auto)
  then obtain i where i: "nIndex g = Some i" "as_node a = en_name (gw_nodes g ! i)" by blast
  show ?thesis by (rule bexI [of _ "gw_nodes g ! i"]) (use i(2) nIndex_Some [OF i(1)] in auto)
qed

theorem assignIP_least_loaded_witness:
  "\<exists>a g'. assignIP (\<lambda>ks. ks) (\<lambda>n. 0) (\<lambda>n. 0)
       (ex_gateway [ex_node ''n1'' ''Ready'' [ex_eip ''10.6.1.20'' [''p'']], ex_node ''n2'' ''Ready'' []])
       (ex_policy ''q'') (ex_spec [] True ''default'') = Ok (Some a, g') \<and> as_node a = ''n2''"
proof -
  let ?ns = "[ex_node ''n1'' ''Ready'' [ex_eip ''10.6.1.20'' [''p'']], ex_node ''n2'' ''Ready'' []]"
  obtain a g' where a: "assignIP (\<lambda>ks. ks) (\<lambda>n. 0) (\<lambda>n. 0) (ex_gateway ?ns) (ex_policy ''q'') (ex_spec [] True ''default'') = Ok (Some a, g')"
    by (simp add: alloc_eval)
  from assignIP_least_loaded [OF insertion_order.map_iteration_axioms first_choice.random_source_axioms
      first_choice.random_source_axioms a] a
  show ?thesis by (auto simp: ex_defs is_ready_def EgressTunnelReady_def)
qed

text \<open>A node keeps at most one entry for its own address, as long as an assignment that does not ask
  for the node's address has an address to give.\<close>

theorem assignIP_one_node_entry:
  assumes "node_ips_ok g" "has_address g spec" "map_iteration ord" "random_source intn4" "random_source intn6"
    and "assignIP ord intn4 intn6 g p spec = Ok (b, g')"
  shows "node_ips_ok g'"
  by (rule assignIP_node_ips [OF assms(1,2,6,3-5)])

theorem assignIP_one_node_entry_witness:
  "\<exists>b g'. assignIP (\<lambda>ks. ks) (\<lambda>n. 0) (\<lambda>n. 0) (ex_gateway [ex_node ''n1'' ''Ready'' [ex_eip [] [''p'']]])
       (ex_policy ''q'') (ex_spec [] True ''default'') = Ok (b, g') \<and> node_ips_ok g'"
proof -
  let ?g = "ex_gateway [ex_node ''n1'' ''Ready'' [ex_eip [] [''p'']]]"
  obtain b g' where a: "assignIP (\<lambda>ks. ks) (\<lambda>n. 0) (\<lambda>n. 0) ?g (ex_policy ''q'') (ex_spec [] True ''default'') = Ok (b, g')"
    by (simp add: alloc_eval)
  have "node_ips_ok ?g" "has_address ?g (ex_spec [] True ''default'')" by (simp_all add: alloc_eval has_address_def)
  from assignIP_one_node_entry [OF this insertion_order.map_iteration_axioms first_choice.random_source_axioms
      first_choice.random_source_axioms a] a
  show ?thesis by blast
qed

text \<open>When the default egress IP of the gateway is placed already, a policy that falls back to it gets
  it back but is not recorded in the status, so that the next lookup finds nothing.\<close>

theorem assignIP_default_not_recorded:
  assumes "gateway_ok g" "getAssignedIP g ns nm = None" "default_placed g spec"
    and "map_iteration ord" "random_source intn4" "random_source intn6"
    and "assignIP ord intn4 intn6 g \<lparr>policy_name = nm, policy_namespace = ns\<rparr> spec = Ok (Some a, g')"
  shows "g' = g \<and> getAssignedIP g' ns nm = None"
proof -
  have "alloc_map (gw_nodes g) \<lparr>policy_name = nm, policy_namespace = ns\<rparr> = None"
    using assms(2) by (simp add: getAssignedIP_eq)
  from assignIP_records [OF assms(1) this assms(7,4,5,6)] show ?thesis using assms(2,3) by simp
qed

theorem assignIP_default_not_recorded_witness:
  "\<exists>a g'. assignIP (\<lambda>ks. ks) (\<lambda>n. 0) (\<lambda>n. 0) (ex_gateway [ex_node ''n1'' ''Ready'' [ex_eip ''10.6.1.20'' [''p'']]])
       \<lparr>policy_name = ''q'', policy_namespace = ''default''\<rparr> (ex_spec [] False ''default'') = Ok (Some a, g') \<and>
     as_node a = ''n1'' \<and> getAssignedIP g' ''default'' ''q'' = None"
proof -
  let ?g = "ex_gateway [ex_node ''n1'' ''Ready'' [ex_eip ''10.6.1.20'' [''p'']]]"
  let ?a = "\<lparr>as_node = ''n1'', as_ipv4 = ''10.6.1.20'', as_ipv6 = [], as_use_node_ip = False\<rparr>"
  have a: "assignIP (\<lambda>ks. ks) (\<lambda>n. 0) (\<lambda>n. 0) ?g \<lparr>policy_name = ''q'', policy_namespace = ''default''\<rparr>
      (ex_spec [] False ''default'') = Ok (Some ?a, ?g)"
    by (simp add: alloc_eval assign_default_def)
  have "gateway_ok ?g" "getAssignedIP ?g ''default'' ''q'' = None" "default_placed ?g (ex_spec [] False ''default'')"
    by (simp_all add: alloc_eval)
  from assignIP_default_not_recorded [OF this insertion_order.map_iteration_axioms first_choice.random_source_axioms
      first_choice.random_source_axioms a] a
  show ?thesis by auto
qed

text \<open>Without a ready node the \<^verbatim>\<open>rr\<close> allocator never returns: when the addresses can be drawn it
  indexes the node list with -1 and panics.\<close>

theorem assignIP_rr_no_ready_node:
  assumes "\<not> list_ex is_ready (gw_nodes g)" "\<not> use_node_ip spec" "ei_ipv4 spec = []" "ei_ipv6 spec = []"
    and "allocator_policy spec = EipAllocatorRR"
  shows "assignIP ord intn4 intn6 g p spec =
    oc_bind (if 0 < length (pool_ipv4 (gw_pools g))
             then pick_free ord intn4 IPv4 (gw_name g) (pool_ipv4 (gw_pools g)) (used_ipv4 g) [] else Ok []) (\<lambda>_.
    oc_bind (if 0 < length (pool_ipv6 (gw_pools g))
             then pick_free ord intn6 IPv6 (gw_name g) (pool_ipv6 (gw_pools g)) (used_ipv6 g) [] else Ok []) (\<lambda>_. Panic))"
proof -
  have n: "nIndex g = None" using assms(1) by (simp add: nIndex_None)
  show ?thesis using assms(2-5) n by (simp add: assignIP_def assign_rr_def oc_bind_assoc)
qed

theorem assignIP_rr_no_ready_node_witness:
  "assignIP (\<lambda>ks. ks) (\<lambda>n. 0) (\<lambda>n. 0) (ex_gateway [ex_node ''n1'' ''Pending'' [ex_eip ''10.6.1.20'' [''p'']]])
     (ex_policy ''q'') (ex_spec [] False ''rr'') = Panic"
proof -
  let ?g = "ex_gateway [ex_node ''n1'' ''Pending'' [ex_eip ''10.6.1.20'' [''p'']]]"
  have "used_ipv4 ?g = [''10.6.1.20'']" by (simp add: used_ipv4_def ex_defs)
  then show ?thesis
    using assignIP_rr_no_ready_node [of ?g "ex_spec [] False ''rr''" "\<lambda>ks. ks" "\<lambda>n. 0" "\<lambda>n. 0" "ex_policy ''q''"] ex_pick
    by (simp add: ex_defs is_ready_def EgressTunnelReady_def EipAllocatorRR_def)
qed

section \<open>Deleting and moving\<close>

text \<open>C7. Deleting a policy removes exactly that policy from the map of the status, reports whether it was
  there, and keeps the invariant: an entry without a policy goes away.\<close>

theorem deleteEgressPolicy_removes:
  assumes "gateway_ok g" "deleteEgressPolicy g ns nm = (b, g')"
  shows "gateway_ok g' \<and> (b \<longleftrightarrow> getAssignedIP g ns nm \<noteq> None) \<and>
    alloc_map (gw_nodes g') = (alloc_map (gw_nodes g))(\<lparr>policy_name = nm, policy_namespace = ns\<rparr> := None)"
  using deleteEgressPolicy_ok [OF assms] by (simp add: getAssignedIP_eq)

theorem deleteEgressPolicy_removes_witness:
  "\<exists>b g'. deleteEgressPolicy (ex_gateway [ex_node ''n1'' ''Ready'' [ex_eip ''10.6.1.20'' [''p'']]]) ''default'' ''p'' = (b, g') \<and>
     b \<and> gateway_ok g' \<and> alloc_map (gw_nodes g') (ex_policy ''p'') = None"
proof -
  let ?g = "ex_gateway [ex_node ''n1'' ''Ready'' [ex_eip ''10.6.1.20'' [''p'']]]"
  obtain b g' where d: "deleteEgressPolicy ?g ''default'' ''p'' = (b, g')" by (cases "deleteEgressPolicy ?g ''default'' ''p''")
  have "gateway_ok ?g" "getAssignedIP ?g ''default'' ''p'' \<noteq> None" by (simp_all add: alloc_eval)
  with deleteEgressPolicy_removes [OF this(1) d] d show ?thesis by (auto simp: ex_policy_def)
qed

text \<open>C8. When moving egress IPs to a ready node returns, no policy is lost or duplicated (those of the
  entries that could not be moved are still to be handled) and the invariant holds.\<close>

theorem moveEipToReadyNode_keeps_policies:
  assumes "alloc_with (gw_nodes g) mv" "moveEipToReadyNode g mv = Ok (g', rest)"
  shows "gateway_ok g' \<and> map en_name (gw_nodes g') = map en_name (gw_nodes g) \<and>
    mset (policies_of (all_eips (gw_nodes g'))) + mset (policies_of rest) =
      mset (policies_of (all_eips (gw_nodes g))) + mset (policies_of mv)"
  using move_alloc [OF assms(2,1)] by blast

lemmas move_eval = moveEipToReadyNode_def ReadyCount_def EgressTunnelReady_def

theorem moveEipToReadyNode_keeps_policies_witness:
  "\<exists>g'. moveEipToReadyNode (ex_gateway [ex_node ''n2'' ''Ready'' []]) [ex_eip ''10.6.1.20'' [''p'', ''q'']] = Ok (g', []) \<and>
     gateway_ok g' \<and> mset (policies_of (all_eips (gw_nodes g'))) = {#ex_policy ''p'', ex_policy ''q''#}"
proof -
  let ?g = "ex_gateway [ex_node ''n2'' ''Ready'' []]" and ?mv = "[ex_eip ''10.6.1.20'' [''p'', ''q'']]"
  obtain g' where m: "moveEipToReadyNode ?g ?mv = Ok (g', [])" by (simp add: move_eval ex_defs is_node_ip_def)
  have "alloc_with (gw_nodes ?g) ?mv" by (simp add: ex_defs alloc_with_def eips_ok_def)
  from moveEipToReadyNode_keeps_policies [OF this m] m show ?thesis by (simp add: ex_defs)
qed

text \<open>With a ready node, and no node-IP entry on a ready node before the target, moving ends: every
  moved policy keeps its addresses on one ready node, which no ready node undercuts in egress IPs,
  and every other policy stays where it is.\<close>

theorem moveEipToReadyNode_target:
  assumes "alloc_with (gw_nodes g) mv" "list_ex is_ready (gw_nodes g)"
    and "\<forall>i. min_node (scan_nodes (gw_nodes g) 0 scan0) = Some i \<longrightarrow>
           (\<forall>k < i. is_ready (gw_nodes g ! k) \<longrightarrow> no_node_ip (gw_nodes g ! k))"
  shows "\<exists>g' n. moveEipToReadyNode g mv = Ok (g', []) \<and> n \<in> set (gw_nodes g) \<and> is_ready n \<and>
    (\<forall>m \<in> set (gw_nodes g). is_ready m \<longrightarrow> length (en_eips n) \<le> length (en_eips m)) \<and>
    (\<forall>e \<in> set mv. \<forall>p \<in> set (eip_policies e). alloc_map (gw_nodes g') p = Some (en_name n, eip_ipv4 e, eip_ipv6 e)) \<and>
    (\<forall>p. alloc_map (gw_nodes g) p \<noteq> None \<longrightarrow> alloc_map (gw_nodes g') p = alloc_map (gw_nodes g) p)"
proof -
  let ?s = "scan_nodes (gw_nodes g) 0 scan0"
  obtain i where i: "min_node ?s = Some i" using assms(2) scan_none [of "gw_nodes g"] by auto
  note t = scan_target [OF i]
  have "good_index (gw_nodes g ! i) (node_ip_index ?s)"
    using t(4,5) assms(3) i by (auto simp: good_index_def split: option.split)
  from move_loop_Ok [OF t(1) this, of mv] obtain ns' where
    m: "move_loop i mv (node_ip_index ?s) (gw_nodes g) = Ok ns'"
      "set (entries ns') = set (entries (gw_nodes g)) \<union> (\<Union>e \<in> set mv. set (eip_entries (en_name (gw_nodes g ! i)) e))"
    by blast
  have "0 < ReadyCount (gw_status g)" using assms(2) by (auto simp: ReadyCount_pos list_ex_iff)
  then have r: "moveEipToReadyNode g mv = Ok (set_nodes ns' g, [])"
    using m(1) i by (simp add: moveEipToReadyNode_def)
  have ok: "alloc_with ns' []" using move_loop_alloc [OF m(1) t(1) assms(1)] by blast
  have "alloc_map ns' p = Some x" if "(p, x) \<in> set (entries ns')" for p x using alloc_map_Some [OF ok] that by blast
  moreover have "(p, x) \<in> set (entries (gw_nodes g))" if "alloc_map (gw_nodes g) p = Some x" for p x
    using that alloc_map_Some [OF assms(1)] by blast
  ultimately have keep: "alloc_map (gw_nodes g) p \<noteq> None \<longrightarrow> alloc_map ns' p = alloc_map (gw_nodes g) p"
    and moved: "e \<in> set mv \<Longrightarrow> q \<in> set (eip_policies e) \<Longrightarrow> alloc_map ns' q = Some (en_name (gw_nodes g ! i), eip_ipv4 e, eip_ipv6 e)"
    for p e q
    using m(2) by (fastforce simp: eip_entries_def)+
  show ?thesis
    by (rule exI [of _ "set_nodes ns' g"], rule exI [of _ "gw_nodes g ! i"]) (use r t(1-3) keep moved in auto)
qed

theorem moveEipToReadyNode_target_witness:
  "\<exists>g'. moveEipToReadyNode (ex_gateway [ex_node ''n2'' ''Ready'' [], ex_node ''n3'' ''Pending'' []]) [ex_eip ''10.6.1.20'' [''p'']] = Ok (g', []) \<and>
     alloc_map (gw_nodes g') (ex_policy ''p'') = Some (''n2'', ''10.6.1.20'', [])"
proof -
  let ?g = "ex_gateway [ex_node ''n2'' ''Ready'' [], ex_node ''n3'' ''Pending'' []]" and ?mv = "[ex_eip ''10.6.1.20'' [''p'']]"
  have "alloc_with (gw_nodes ?g) ?mv" "list_ex is_ready (gw_nodes ?g)"
    "\<forall>i. min_node (scan_nodes (gw_nodes ?g) 0 scan0) = Some i \<longrightarrow>
       (\<forall>k < i. is_ready (gw_nodes ?g ! k) \<longrightarrow> no_node_ip (gw_nodes ?g ! k))"
    by (simp_all add: ex_defs alloc_with_def eips_ok_def is_ready_def EgressTunnelReady_def)
  from moveEipToReadyNode_target [OF this] show ?thesis
    by (auto simp: ex_defs is_ready_def EgressTunnelReady_def)
qed

text \<open>A node-IP entry on a ready node that the scan passes before it finds the target makes moving
  panic: the position of that entry is used for the node list of the target.\<close>

theorem moveEipToReadyNode_stale_index:
  "\<exists>g mv. gateway_ok g \<and> node_ips_ok g \<and> alloc_with (gw_nodes g) mv \<and> moveEipToReadyNode g mv = Panic"
proof -
  let ?g = "ex_gateway [ex_node ''n1'' ''Ready'' [ex_eip ''10.6.1.20'' [''p''], ex_eip [] [''q'']],
      ex_node ''n2'' ''Ready'' [ex_eip ''10.6.1.21'' [''r'']]]"
  have "gateway_ok ?g" "node_ips_ok ?g" "alloc_with (gw_nodes ?g) [ex_eip [] [''s'']]" by (simp_all add: alloc_eval)
  moreover have "moveEipToReadyNode ?g [ex_eip [] [''s'']] = Panic" by (simp add: move_eval ex_defs is_node_ip_def)
  ultimately show ?thesis by blast
qed

section \<open>Usage\<close>

text \<open>The usage of a gateway counts the addresses of the IPv4 pool, each once, and as free those that
  no entry of the status uses, when the used addresses are distinct addresses of the pool.\<close>

theorem countGatewayIP_ipv4:
  assumes "map_iteration ord" "countGatewayIP ord g = Ok u"
    and "ConvertCidrOrIPrangeToIPs ord (pool_ipv4 (gw_pools g)) IPv4 = Ok ips"
    and "distinct (map ParseIP (used_ipv4 g))" "ParseIP ` set (used_ipv4 g) \<subseteq> to16 ` set ips"
  shows "ipv4_total u = int (card (to16 ` set ips)) \<and>
    ipv4_free u = int (card (to16 ` set ips - ParseIP ` set (used_ipv4 g)))"
proof -
  have "distinct (map to16 ips)" using assms(1,3) string_iteration.Convert_distinct by (metis string_iteration_def)
  then have t: "card (to16 ` set ips) = length ips" by (metis distinct_card length_map list.set_map)
  have "card (ParseIP ` set (used_ipv4 g)) = length (used_ipv4 g)" using assms(4) by (metis distinct_card length_map list.set_map)
  then have "card (to16 ` set ips - ParseIP ` set (used_ipv4 g)) = length ips - length (used_ipv4 g)" "length (used_ipv4 g) \<le> length ips"
    using card_Diff_subset [OF _ assms(5)] card_mono [OF _ assms(5)] t by simp_all
  moreover have "ipv4_total u = int (length ips)" "ipv4_free u = int (length ips) - int (length (used_ipv4 g))"
    using assms(2,3) by (auto simp: countGatewayIP_def Let_def)
  ultimately show ?thesis using t by (simp add: of_nat_diff)
qed

theorem countGatewayIP_ipv4_witness:
  "\<exists>u. countGatewayIP (\<lambda>ks. ks) (ex_gateway [ex_node ''n1'' ''Ready'' [ex_eip ''10.6.1.20'' [''p'']]]) = Ok u \<and>
     ipv4_total u = 2 \<and> ipv4_free u = 1"
proof -
  let ?g = "ex_gateway [ex_node ''n1'' ''Ready'' [ex_eip ''10.6.1.20'' [''p'']]]"
  have u: "used_ipv4 ?g = [''10.6.1.20'']" by (simp add: used_ipv4_def ex_defs)
  have p: "ParseIP ''10.6.1.20'' = ip4 168165652" by (simp add: ip_eval ip4_def)
  have c: "ConvertCidrOrIPrangeToIPs (\<lambda>ks. ks) (pool_ipv4 (gw_pools ?g)) IPv4 = Ok [ip4 168165652, ip4 168165653]"
    using ex_convert by (simp add: ex_defs)
  have "ConvertCidrOrIPrangeToIPs (\<lambda>ks. ks) (pool_ipv6 (gw_pools ?g)) IPv6 = Ok []" by (simp add: ex_defs ip_eval)
  then obtain v where v: "countGatewayIP (\<lambda>ks. ks) ?g = Ok v" using c by (simp add: countGatewayIP_def Let_def)
  have "ip4 168165652 \<noteq> ip4 168165653" using ip4_inj [of 168165652 168165653] by simp
  with countGatewayIP_ipv4 [OF insertion_order.map_iteration_axioms v c] v show ?thesis
    by (simp add: u p insert_Diff_if)
qed

section \<open>The reconciler\<close>

text \<open>C1. The reconciler keeps the invariant of every gateway of the cluster: if all gateways that are read
  have it and the API server stores what it is given, then after any request, whatever its outcome
  (an error or a panic in the middle included) the invariant of the cluster still holds.\<close>

theorem Reconcile_keeps_gateways:
  assumes "cluster r I" "I w"
  shows "I (snd (Reconcile r req w))"
  using cluster.Reconcile_runs [OF assms(1), of req] assms(2) by (simp add: keeps_def)

definition ex_store :: store where
  "ex_store = \<lparr>s_gateways = [ex_gateway [ex_node ''n1'' ''Ready'' [ex_eip ''10.6.1.20'' [''p'']]]],
     s_policies = [], s_cpolicies = [], s_tunnels = [], s_nodes = []\<rparr>"

theorem Reconcile_keeps_gateways_witness:
  "store_ok (snd (Reconcile (store_reconciler (\<lambda>_. None) first_choices)
     \<lparr>req_namespace = ''EgressPolicy/default'', req_name = ''p''\<rparr> ex_store))"
proof -
  have "store_ok ex_store" by (simp add: store_ok_def ex_store_def alloc_eval)
  with Reconcile_keeps_gateways [OF store_cluster [OF good_first_choices]] show ?thesis by blast
qed

text \<open>C9. Reconciling a policy on the in-memory API server: when it returns without an error, the status of
  the policy names the node and the addresses that its gateway records for it; only a policy that
  falls back to a default egress IP that is placed already is not recorded.\<close>

theorem reconcileEgressPolicy_stored:
  assumes "good_choices c" "store_ok w" "stored_policy ns nm w = Some p"
    and "\<not> om_deleting (ep_meta p)" "nm \<noteq> []" "ep_gateway_name (ep_spec p) \<noteq> []"
    and "reconcileEgressPolicy (store_reconciler sel c) \<lparr>req_namespace = ns, req_name = nm\<rparr> w = (Ok b, w')"
  shows "\<exists>g g' a. stored_gateway (ep_gateway_name (ep_spec p)) w = Some g \<and>
    stored_gateway (ep_gateway_name (ep_spec p)) w' = Some g' \<and>
    stored_policy ns nm w' = Some (p\<lparr>ep_status := status_of a\<rparr>) \<and>
    (default_placed g (ep_egress_ip (ep_spec p)) \<or>
     alloc_map (gw_nodes g') \<lparr>policy_name = nm, policy_namespace = ns\<rparr> = Some (as_node a, as_ipv4 a, as_ipv6 a))"
  by (rule reconcile_policy_store [OF assms])

definition ex_egress_policy :: "string \<Rightarrow> egress_ip \<Rightarrow> egress_policy" where
  "ex_egress_policy nm spec = \<lparr>ep_meta = ex_meta ''default'' nm,
     ep_spec = \<lparr>ep_gateway_name = ''egw'', ep_egress_ip = spec,
                ep_applied_to = \<lparr>pod_selector = None, pod_subnet = []\<rparr>, ep_dest_subnet = [], ep_priority = 0\<rparr>,
     ep_status = \<lparr>st_ipv4 = [], st_ipv6 = [], st_node = []\<rparr>\<rparr>"

definition ex_store_policy :: store where
  "ex_store_policy = ex_store\<lparr>s_policies := [ex_egress_policy ''q'' (ex_spec [] True ''default'')]\<rparr>"

lemmas run_eval = store_client_def find_or_def go_simps bindp_Ok requeue_def api_def fetch_def
  fetch_policy_gateway_def ex_store_policy_def ex_store_def ex_egress_policy_def named_def same_object_def replace_def
  draw_choices_def first_choices_def s_status_gateway_def s_status_policy_def status_of_def policy_ref_def

theorem reconcileEgressPolicy_stored_witness:
  "\<exists>w' g' a. reconcileEgressPolicy (store_reconciler (\<lambda>_. None) first_choices)
        \<lparr>req_namespace = ''default'', req_name = ''q''\<rparr> ex_store_policy = (Ok False, w') \<and>
     stored_gateway ''egw'' w' = Some g' \<and>
     alloc_map (gw_nodes g') (ex_policy ''q'') = Some (as_node a, as_ipv4 a, as_ipv6 a) \<and>
     stored_policy ''default'' ''q'' w' = Some (ex_egress_policy ''q'' (ex_spec [] True ''default'')\<lparr>ep_status := status_of a\<rparr>)"
proof -
  let ?p = "ex_egress_policy ''q'' (ex_spec [] True ''default'')"
  have v6: "ConvertCidrOrIPrangeToIPs (\<lambda>ks. ks) [] IPv6 = Ok []" by (simp add: ip_eval)
  have r: "\<exists>w'. reconcileEgressPolicy (store_reconciler (\<lambda>_. None) first_choices)
      \<lparr>req_namespace = ''default'', req_name = ''q''\<rparr> ex_store_policy = (Ok False, w')"
    by (simp add: reconcileEgressPolicy_def assign_def updateGatewayStatusWithUsage_def updateEgressPolicyStatusIfNeed_def
        countGatewayIP_def ex_convert v6 alloc_eval run_eval Let_def)
  then obtain w' where r: "reconcileEgressPolicy (store_reconciler (\<lambda>_. None) first_choices)
      \<lparr>req_namespace = ''default'', req_name = ''q''\<rparr> ex_store_policy = (Ok False, w')" by blast
  have "store_ok ex_store_policy" by (simp add: store_ok_def ex_store_policy_def ex_store_def alloc_eval)
  moreover have "stored_policy ''default'' ''q'' ex_store_policy = Some ?p"
    by (simp add: ex_store_policy_def ex_egress_policy_def named_def ex_meta_def)
  ultimately have "\<exists>g g' a. stored_gateway (ep_gateway_name (ep_spec ?p)) ex_store_policy = Some g \<and>
    stored_gateway (ep_gateway_name (ep_spec ?p)) w' = Some g' \<and>
    stored_policy ''default'' ''q'' w' = Some (?p\<lparr>ep_status := status_of a\<rparr>) \<and>
    (default_placed g (ep_egress_ip (ep_spec ?p)) \<or>
     alloc_map (gw_nodes g') \<lparr>policy_name = ''q'', policy_namespace = ''default''\<rparr> = Some (as_node a, as_ipv4 a, as_ipv6 a))"
    by (rule reconcileEgressPolicy_stored [OF good_first_choices _ _ _ _ _ r]) (simp_all add: ex_egress_policy_def ex_meta_def)
  then show ?thesis using r by (auto simp: ex_egress_policy_def ex_spec_def ex_policy_def default_placed_def)
qed

text \<open>C33. A gateway that is being deleted loses its finalizer as soon as no namespaced policy names it:
  cluster policies that still name it are not counted.\<close>

theorem reconcileGateway_ignores_cluster_policies:
  assumes "stored_gateway nm w = Some g" "om_deleting (gw_meta g)" "nm \<noteq> []"
    and "\<forall>p \<in> set (s_policies w). ep_gateway_name (ep_spec p) \<noteq> nm"
  shows "\<exists>w'. reconcileGateway (store_reconciler sel c) \<lparr>req_namespace = ns, req_name = nm\<rparr> w = (Ok False, w') \<and>
    stored_gateway nm w' = Some (g\<lparr>gw_meta := RemoveFinalizers (gw_meta g) [egressGatewayFinalizers]\<rparr>) \<and>
    s_cpolicies w' = s_cpolicies w"
proof -
  let ?m = "RemoveFinalizers (gw_meta g) [egressGatewayFinalizers]" and ?P = "\<lambda>h. gw_name h = nm"
  let ?f = "\<lambda>h. h\<lparr>gw_meta := ?m, gw_spec := gw_spec g\<rparr>"
  let ?w = "w\<lparr>s_gateways := replace ?P ?f (s_gateways w)\<rparr>"
  have n: "gw_name g = nm" "om_name ?m = nm" using find_P [OF assms(1)] by (simp_all add: RemoveFinalizers_def)
  have z: "length (filter (\<lambda>p. ep_gateway_name (ep_spec p) = nm) (s_policies w)) = 0" using assms(4) by simp
  have u: "update_gateway store_client (g\<lparr>gw_meta := ?m\<rparr>) w = (Ok (?f g), ?w)"
    using assms(1) n by (simp add: store_client_def s_update_gateway_def)
  have "fetch (get_gateway (r_cli (store_reconciler sel c)) nm) w = (Ok (Some g), w)"
    using assms(1) by (simp add: fetch_def store_client_def find_or_def go_simps)
  then have "reconcileGateway (store_reconciler sel c) \<lparr>req_namespace = ns, req_name = nm\<rparr> w = (Ok False, ?w)"
    using assms(2,3) n(1) z u store_count [of nm w]
    by (simp add: reconcileGateway_def gateway_deleted_def bindp_def requeue_def or_fail_def api_def ret_def)
  moreover have "stored_gateway nm ?w = Some (g\<lparr>gw_meta := ?m\<rparr>)"
    using assms(1) n(2) find_replace [of ?P ?f "s_gateways w"] by simp
  ultimately show ?thesis by (intro exI [of _ ?w]) simp
qed

theorem reconcileGateway_ignores_cluster_policies_witness:
  "\<exists>w' g'. reconcileGateway (store_reconciler (\<lambda>_. None) first_choices) \<lparr>req_namespace = [], req_name = ''egw''\<rparr>
       (ex_store\<lparr>s_gateways := [(ex_gateway [])\<lparr>gw_meta := (ex_meta [] ''egw'')\<lparr>om_deleting := True, om_finalizers := [egressGatewayFinalizers]\<rparr>\<rparr>],
                 s_cpolicies := [\<lparr>ecp_meta = ex_meta [] ''c'',
                   ecp_spec = \<lparr>ecp_gateway_name = ''egw'', ecp_egress_ip = ex_spec [] True ''default'',
                     ecp_applied_to = \<lparr>cpod_selector = None, cpod_subnet = None, namespace_selector = None\<rparr>,
                     ecp_dest_subnet = [], ecp_priority = 0\<rparr>,
                   ecp_status = \<lparr>st_ipv4 = [], st_ipv6 = [], st_node = []\<rparr>\<rparr>]\<rparr>) = (Ok False, w') \<and>
     stored_gateway ''egw'' w' = Some g' \<and> om_finalizers (gw_meta g') = [] \<and> length (s_cpolicies w') = 1"
  (is "\<exists>w' g'. ?R = (Ok False, w') \<and> _")
proof -
  let ?g = "(ex_gateway [])\<lparr>gw_meta := (ex_meta [] ''egw'')\<lparr>om_deleting := True, om_finalizers := [egressGatewayFinalizers]\<rparr>\<rparr>"
  let ?w = "ex_store\<lparr>s_gateways := [?g], s_cpolicies := [\<lparr>ecp_meta = ex_meta [] ''c'',
                   ecp_spec = \<lparr>ecp_gateway_name = ''egw'', ecp_egress_ip = ex_spec [] True ''default'',
                     ecp_applied_to = \<lparr>cpod_selector = None, cpod_subnet = None, namespace_selector = None\<rparr>,
                     ecp_dest_subnet = [], ecp_priority = 0\<rparr>,
                   ecp_status = \<lparr>st_ipv4 = [], st_ipv6 = [], st_node = []\<rparr>\<rparr>]\<rparr>"
  have "stored_gateway ''egw'' ?w = Some ?g" by (simp add: ex_meta_def)
  from reconcileGateway_ignores_cluster_policies [OF this, of "\<lambda>_. None" first_choices "[]"]
  obtain w' where "?R = (Ok False, w')"
    "stored_gateway ''egw'' w' = Some (?g\<lparr>gw_meta := RemoveFinalizers (gw_meta ?g) [egressGatewayFinalizers]\<rparr>)"
    "s_cpolicies w' = s_cpolicies ?w"
    by (auto simp: ex_store_def)
  then show ?thesis by (simp add: RemoveFinalizers_def)
qed

text \<open>On the in-memory API server the loop over the node list of a gateway ends with exactly the listed
  nodes that match the selector and have a tunnel, in order; the egress IPs of all other listed nodes
  are collected to be moved, and the matching nodes that are not listed remain to be added. A node
  whose tunnel is missing is taken out of the list.\<close>

theorem prune_loop_nodes:
  assumes "distinct (map en_name ns)"
  shows "\<exists>upd. prune_loop (store_reconciler sel c) [] ns keys [] False w =
    (Ok (map (synced w) (filter (stays keys w) ns), filter (\<lambda>k. k \<notin> en_name ` set ns) keys,
         concat (map en_eips (filter (\<lambda>n. \<not> stays keys w n) ns)), upd), w)"
  using prune_store [OF assms, of sel c "[]" keys "[]" False w] by simp

theorem prune_loop_nodes_witness:
  "\<exists>upd. prune_loop (store_reconciler (\<lambda>_. None) first_choices) [] [ex_node ''n1'' ''Ready'' [ex_eip ''10.6.1.20'' [''p'']]]
      [''n1'', ''n2''] [] False ex_store = (Ok ([], [''n2''], [ex_eip ''10.6.1.20'' [''p'']], upd), ex_store)"
  using prune_loop_nodes [of "[ex_node ''n1'' ''Ready'' [ex_eip ''10.6.1.20'' [''p'']]]" "\<lambda>_. None" first_choices "[''n1'', ''n2'']" ex_store]
  by (simp add: stays_def ex_store_def ex_node_def)

end
