(* ===== verification/MarkAllocator.thy ===== *)
theory MarkAllocator
  imports NetIP "HOL-Library.Word"
begin

unbundle bit_operations_syntax

text \<open>
  \<^verbatim>\<open>pkg/markallocator/allocator.go\<close>: the allocator of packet marks, with the bitmap of the
  vendored \<^verbatim>\<open>cilium/ipam\<close> package it rests on. A \<^verbatim>\<open>uint64\<close> is a 64-bit word, a
  \<^verbatim>\<open>big.Int\<close> base an integer, the bit array of the bitmap a natural number. The random
  offset at which the bitmap starts its search is a parameter.
\<close>

section \<open>Marks as text\<close>

datatype mark_err = ParseUintErr | NotInRange | ErrAllocated | ErrFull

text \<open>\<^verbatim>\<open>strings.ReplaceAll(mark, "0x", "")\<close>.\<close>

fun remove_0x :: "string \<Rightarrow> string" where
  "remove_0x (a # b # cs) =
     (if a = CHR ''0'' \<and> b = CHR ''x'' then remove_0x cs else a # remove_0x (b # cs))"
| "remove_0x cs = cs"

text \<open>\<^verbatim>\<open>strconv.ParseUint\<close> in base 16: at least one digit, and a value below \<open>2 ^ 64\<close>.\<close>

definition Parse :: "string \<Rightarrow> (mark_err, 64 word) outcome" where
  "Parse mark =
     (let tmp = remove_0x mark in
      if tmp = [] then Err ParseUintErr
      else case hex_value 0 tmp of
        None \<Rightarrow> Err ParseUintErr
      | Some v \<Rightarrow> if 2 ^ 64 \<le> v then Err ParseUintErr else Ok (of_nat v))"

definition bigForMark :: "string \<Rightarrow> (mark_err, int) outcome" where
  "bigForMark mark = oc_bind (Parse mark) (\<lambda>v. Ok (uint v))"

text \<open>The loop over the mask from its end: trailing zeros become the letter f.\<close>

definition trailing_zeros :: "string \<Rightarrow> nat" where
  "trailing_zeros msk = length (takeWhile (\<lambda>c. c = CHR ''0'') (rev msk))"

definition RangeSize :: "string \<Rightarrow> (mark_err, 64 word \<times> 64 word) outcome" where
  "RangeSize msk =
     oc_bind (Parse msk) (\<lambda>start.
     let k = trailing_zeros msk in
     oc_bind (Parse (take (length msk - k) msk @ replicate k (CHR ''f''))) (\<lambda>end_mark.
     Ok (start, end_mark)))"

section \<open>The bitmap\<close>

record bitmap =
  bm_max :: int
  bm_count :: int
  bm_allocated :: nat

definition NewAllocationMap :: "int \<Rightarrow> bitmap" where
  "NewAllocationMap mx = \<lparr>bm_max = mx, bm_count = 0, bm_allocated = 0\<rparr>"

definition bm_Allocate :: "nat \<Rightarrow> bitmap \<Rightarrow> bool \<times> bitmap" where
  "bm_Allocate offset b =
     (if bit (bm_allocated b) offset then (False, b)
      else (True, b\<lparr>bm_allocated := set_bit offset (bm_allocated b), bm_count := bm_count b + 1\<rparr>))"

definition AllocateBit :: "(nat \<Rightarrow> nat) \<Rightarrow> bitmap \<Rightarrow> nat option" where
  "AllocateBit intn b =
     (if bm_count b \<ge> bm_max b then None
      else
        let mx = nat (bm_max b); offset = intn mx in
        map_option (\<lambda>i. (offset + i) mod mx)
          (find (\<lambda>i. \<not> bit (bm_allocated b) ((offset + i) mod mx)) [0..<mx]))"

definition bm_AllocateNext :: "(nat \<Rightarrow> nat) \<Rightarrow> bitmap \<Rightarrow> nat option \<times> bitmap" where
  "bm_AllocateNext intn b = (case AllocateBit intn b of
     None \<Rightarrow> (None, b)
   | Some next \<Rightarrow>
       (Some next, b\<lparr>bm_count := bm_count b + 1, bm_allocated := set_bit next (bm_allocated b)\<rparr>))"

definition bm_Release :: "nat \<Rightarrow> bitmap \<Rightarrow> bitmap" where
  "bm_Release offset b =
     (if \<not> bit (bm_allocated b) offset then b
      else b\<lparr>bm_allocated := unset_bit offset (bm_allocated b), bm_count := bm_count b - 1\<rparr>)"

fun bits_from :: "nat \<Rightarrow> nat \<Rightarrow> nat list" where
  "bits_from k a = (if a = 0 then [] else (if odd a then [k] else []) @ bits_from (Suc k) (a div 2))"

declare bits_from.simps [simp del]

section \<open>The range\<close>

record range =
  rg_base :: int
  rg_start :: "64 word"
  rg_end :: "64 word"
  rg_max :: int
  rg_alloc :: bitmap

definition NewAllocatorMarkRange :: "string \<Rightarrow> (mark_err, range) outcome" where
  "NewAllocatorMarkRange msk =
     oc_bind (RangeSize msk) (\<lambda>(start, end_mark).
     oc_bind (bigForMark msk) (\<lambda>base.
     let mx = sint (end_mark - start - 1) in
     Ok \<lparr>rg_base = base + 1, rg_start = start, rg_end = end_mark, rg_max = mx, rg_alloc = NewAllocationMap mx\<rparr>))"

definition calculateMarkOffset :: "int \<Rightarrow> 64 word \<Rightarrow> int" where
  "calculateMarkOffset base mark = sint (word_of_int (uint mark - base) :: 64 word)"

definition contains :: "range \<Rightarrow> 64 word \<Rightarrow> nat option" where
  "contains r mark =
     (if rg_start r > mark \<or> rg_end r < mark then None
      else
        let offset = calculateMarkOffset (rg_base r) mark in
        if offset < 0 \<or> offset \<ge> rg_max r then None else Some (nat offset))"

definition addMarkOffset :: "int \<Rightarrow> nat \<Rightarrow> string" where
  "addMarkOffset base offset = ''0x'' @ hex_string (unat (word_of_int (base + int offset) :: 64 word))"

definition GetIndexedMark :: "int \<Rightarrow> nat \<Rightarrow> string" where
  "GetIndexedMark base index = addMarkOffset base index"

definition Allocate :: "string \<Rightarrow> range \<Rightarrow> (mark_err, unit) outcome \<times> range" where
  "Allocate mark r = (case Parse mark of
     Ok m \<Rightarrow>
       (case contains r m of
          None \<Rightarrow> (Err NotInRange, r)
        | Some offset \<Rightarrow>
            (case bm_Allocate offset (rg_alloc r) of (allocated, b) \<Rightarrow>
               (if allocated then Ok () else Err ErrAllocated, r\<lparr>rg_alloc := b\<rparr>)))
   | Err e \<Rightarrow> (Err e, r) | Panic \<Rightarrow> (Panic, r) | Diverge \<Rightarrow> (Diverge, r))"

definition AllocateNext :: "(nat \<Rightarrow> nat) \<Rightarrow> range \<Rightarrow> (mark_err, string) outcome \<times> range" where
  "AllocateNext intn r = (case bm_AllocateNext intn (rg_alloc r) of
     (None, b) \<Rightarrow> (Err ErrFull, r\<lparr>rg_alloc := b\<rparr>)
   | (Some offset, b) \<Rightarrow> (Ok (addMarkOffset (rg_base r) offset), r\<lparr>rg_alloc := b\<rparr>))"

definition Release :: "string \<Rightarrow> range \<Rightarrow> (mark_err, unit) outcome \<times> range" where
  "Release mark r = (case Parse mark of
     Ok m \<Rightarrow>
       (case contains r m of
          None \<Rightarrow> (Err NotInRange, r)
        | Some offset \<Rightarrow> (Ok (), r\<lparr>rg_alloc := bm_Release offset (rg_alloc r)\<rparr>))
   | Err e \<Rightarrow> (Err e, r) | Panic \<Rightarrow> (Panic, r) | Diverge \<Rightarrow> (Diverge, r))"

definition ForEach :: "range \<Rightarrow> string list" where
  "ForEach r = map (GetIndexedMark (rg_base r)) (bits_from 0 (bm_allocated (rg_alloc r)))"

definition Has :: "string \<Rightarrow> range \<Rightarrow> bool" where
  "Has mark r = (case Parse mark of
     Ok m \<Rightarrow> (case contains r m of None \<Rightarrow> False | Some offset \<Rightarrow> bit (bm_allocated (rg_alloc r)) offset)
   | _ \<Rightarrow> False)"

section \<open>Printing and parsing marks\<close>

lemma digit_char_not_x: "n < 16 \<Longrightarrow> CHR ''x'' \<noteq> digit_char n"
proof
  assume "n < 16" "CHR ''x'' = digit_char n"
  then have "hex_digit (CHR ''x'') = Some n" by simp
  then show False by (simp add: hex_digit_def)
qed

lemma hex_string_not_x: "CHR ''x'' \<notin> set (hex_string n)"
proof (induction n rule: hex_string.induct)
  case (1 n)
  then show ?case using digit_char_not_x [of n] digit_char_not_x [of "n mod 16"]
    by (cases "n < 16") (simp_all add: hex_string.simps [of n])
qed

lemma remove_0x_idle: "CHR ''x'' \<notin> set cs \<Longrightarrow> remove_0x cs = cs"
  by (induction cs rule: remove_0x.induct) auto

lemma hex_string_not_nil: "hex_string n \<noteq> []"
  by (subst hex_string.simps) simp

lemma Parse_hex: "n < 2 ^ 64 \<Longrightarrow> Parse (''0x'' @ hex_string n) = Ok (of_nat n)"
  using hex_value_hex_string [of n] remove_0x_idle [OF hex_string_not_x, of n] hex_string_not_nil [of n]
  by (simp add: Parse_def)

section \<open>The invariant of a range\<close>

definition bitmap_ok :: "bitmap \<Rightarrow> bool" where
  "bitmap_ok b \<longleftrightarrow> (\<forall>k. bit (bm_allocated b) k \<longrightarrow> int k < bm_max b) \<and>
     bm_count b = int (card {k. bit (bm_allocated b) k})"

definition range_ok :: "range \<Rightarrow> bool" where
  "range_ok r \<longleftrightarrow> rg_base r = uint (rg_start r) + 1 \<and> bm_max (rg_alloc r) = rg_max r \<and> 0 \<le> rg_max r \<and>
     rg_base r + rg_max r \<le> uint (rg_end r) \<and> rg_max r < 2 ^ 63 \<and> bitmap_ok (rg_alloc r)"

definition offset_of :: "range \<Rightarrow> string \<Rightarrow> nat option" where
  "offset_of r mark = (case Parse mark of Ok m \<Rightarrow> contains r m | _ \<Rightarrow> None)"

definition used :: "range \<Rightarrow> nat set" where
  "used r = {k. bit (bm_allocated (rg_alloc r)) k}"

lemma offset_of_mark:
  assumes "range_ok r" "int k < rg_max r"
  shows "offset_of r (addMarkOffset (rg_base r) k) = Some k"
proof -
  define v where "v = rg_base r + int k"
  have b: "0 \<le> v" "v < uint (rg_end r)" "uint (rg_start r) < v"
    using assms by (auto simp: range_ok_def v_def)
  have e: "v < 2 ^ 64" using b(2) uint_lt2p [of "rg_end r"] by simp
  then have u: "uint (word_of_int v :: 64 word) = v" using b(1) by (simp add: uint_word_of_int)
  have p: "Parse (addMarkOffset (rg_base r) k) = Ok (word_of_int v)"
    using Parse_hex [of "unat (word_of_int v :: 64 word)"] unsigned_less [of "word_of_int v :: 64 word"]
    unfolding addMarkOffset_def v_def [symmetric] by simp
  have "sint (word_of_int (int k) :: 64 word) = int k"
    using assms unfolding sint_sbintrunc' by (intro signed_take_bit_int_eq_self) (auto simp: range_ok_def)
  then have "calculateMarkOffset (rg_base r) (word_of_int v) = int k"
    unfolding calculateMarkOffset_def u by (simp add: v_def)
  moreover have "\<not> rg_start r > word_of_int v" "\<not> rg_end r < word_of_int v"
    using b u by (simp_all add: word_less_def)
  ultimately show ?thesis using assms(2) by (simp add: offset_of_def p contains_def Let_def)
qed

section \<open>The operations\<close>

lemma Has_offset: "Has m r \<longleftrightarrow> (\<exists>k. offset_of r m = Some k \<and> k \<in> used r)"
  by (auto simp: Has_def offset_of_def used_def split: outcome.splits option.splits)

lemma contains_alloc [simp]: "contains (r\<lparr>rg_alloc := b\<rparr>) = contains r"
  by (simp add: contains_def fun_eq_iff)

lemma offset_of_alloc [simp]: "offset_of (r\<lparr>rg_alloc := b\<rparr>) = offset_of r"
  by (simp add: offset_of_def fun_eq_iff split: outcome.split)

lemma offset_of_bound: "offset_of r m = Some k \<Longrightarrow> int k < rg_max r"
  by (auto simp: offset_of_def contains_def Let_def split: outcome.splits if_splits)

lemma bit_bound: "bit (a::nat) k \<Longrightarrow> k \<le> a"
proof -
  assume "bit a k"
  then have "a div 2 ^ k \<noteq> 0" by (auto simp: bit_iff_odd intro: odd_pos)
  then have "2 ^ k \<le> a" by (simp add: div_eq_0_iff)
  then show ?thesis using less_exp [of k] by linarith
qed

lemma finite_bits: "finite {k. bit (a::nat) k}"
  by (rule finite_subset [of _ "{..a}"]) (auto dest: bit_bound)

lemma bit_set: "bit (set_bit k (a::nat)) j \<longleftrightarrow> j = k \<or> bit a j"
  by (auto simp: bit_set_bit_iff)

lemma bit_unset: "bit (unset_bit k (a::nat)) j \<longleftrightarrow> j \<noteq> k \<and> bit a j"
  by (auto simp: bit_unset_bit_iff)

lemma bitmap_ok_set:
  assumes "bitmap_ok b" "\<not> bit (bm_allocated b) k" "int k < bm_max b"
  shows "bitmap_ok (b\<lparr>bm_allocated := set_bit k (bm_allocated b), bm_count := bm_count b + 1\<rparr>)"
proof -
  have "{j. bit (set_bit k (bm_allocated b)) j} = insert k {j. bit (bm_allocated b) j}" by (auto simp: bit_set)
  then show ?thesis using assms finite_bits [of "bm_allocated b"] by (auto simp: bitmap_ok_def bit_set)
qed

lemma bitmap_upd_order: "b\<lparr>bm_count := c, bm_allocated := a\<rparr> = b\<lparr>bm_allocated := a, bm_count := c\<rparr>"
  by simp

lemma bitmap_ok_unset:
  assumes "bitmap_ok b" "bit (bm_allocated b) k"
  shows "bitmap_ok (b\<lparr>bm_allocated := unset_bit k (bm_allocated b), bm_count := bm_count b - 1\<rparr>)"
proof -
  have "{j. bit (unset_bit k (bm_allocated b)) j} = {j. bit (bm_allocated b) j} - {k}" by (auto simp: bit_unset)
  moreover have "0 < card {j. bit (bm_allocated b) j}" using assms(2) finite_bits [of "bm_allocated b"] by (auto simp: card_gt_0_iff)
  ultimately show ?thesis using assms finite_bits [of "bm_allocated b"]
    by (auto simp: bitmap_ok_def bit_unset card_Diff_singleton of_nat_diff)
qed

lemma range_ok_alloc: "range_ok r \<Longrightarrow> bitmap_ok b \<Longrightarrow> bm_max b = rg_max r \<Longrightarrow> range_ok (r\<lparr>rg_alloc := b\<rparr>)"
  by (simp add: range_ok_def)

text \<open>The search of the bitmap finds a free bit whenever there is one.\<close>

lemma AllocateBit_Some: "AllocateBit intn b = Some k \<Longrightarrow> \<not> bit (bm_allocated b) k \<and> int k < bm_max b"
proof -
  assume *: "AllocateBit intn b = Some k"
  then have lt: "\<not> bm_count b \<ge> bm_max b" by (auto simp: AllocateBit_def)
  let ?n = "nat (bm_max b)"
  obtain i where i: "find (\<lambda>i. \<not> bit (bm_allocated b) ((intn ?n + i) mod ?n)) [0..<?n] = Some i" "k = (intn ?n + i) mod ?n"
    using * lt by (auto simp: AllocateBit_def Let_def)
  then have f: "\<not> bit (bm_allocated b) k" "i < ?n" by (auto simp: find_Some_iff)
  then have "k < ?n" using i(2) by simp
  then show ?thesis using f by simp
qed

lemma shift_mod: "(k::nat) < n \<Longrightarrow> \<exists>i < n. (j + i) mod n = k"
proof -
  assume k: "k < n"
  let ?i = "(k + (n - j mod n)) mod n"
  have "(j + ?i) mod n = (j mod n + (k + (n - j mod n))) mod n" by (metis mod_add_left_eq mod_add_right_eq)
  also have "j mod n + (k + (n - j mod n)) = k + n" using k mod_less_divisor [of n j] by linarith
  also have "(k + n) mod n = k" using k by simp
  finally show ?thesis using k by (intro exI [of _ ?i]) auto
qed

lemma AllocateBit_None:
  assumes "bitmap_ok b" "AllocateBit intn b = None"
  shows "\<forall>k. int k < bm_max b \<longrightarrow> bit (bm_allocated b) k"
proof (cases "bm_count b \<ge> bm_max b")
  case True
  let ?S = "{k. bit (bm_allocated b) k}" and ?n = "nat (bm_max b)"
  have "?S \<subseteq> {..<?n}" using assms(1) by (auto simp: bitmap_ok_def)
  moreover have "card {..<?n} \<le> card ?S" using True assms(1) by (simp add: bitmap_ok_def)
  ultimately have "?S = {..<?n}" by (rule card_seteq [OF finite_lessThan])
  then have "bit (bm_allocated b) k \<longleftrightarrow> k < ?n" for k unfolding set_eq_iff by simp
  then show ?thesis by (simp add: zless_nat_eq_int_zless)
next
  case False
  show ?thesis
  proof (intro allI impI)
    fix k assume k: "int k < bm_max b"
    then have "k < nat (bm_max b)" by simp
    then obtain i where i: "i < nat (bm_max b)" "(intn (nat (bm_max b)) + i) mod nat (bm_max b) = k"
      using shift_mod [of k "nat (bm_max b)" "intn (nat (bm_max b))"] by auto
    have "find (\<lambda>i. \<not> bit (bm_allocated b) ((intn (nat (bm_max b)) + i) mod nat (bm_max b))) [0..<nat (bm_max b)] = None"
      using assms(2) False unfolding AllocateBit_def Let_def by simp
    then have "\<not> (\<exists>i. i \<in> set [0..<nat (bm_max b)] \<and>
        \<not> bit (bm_allocated b) ((intn (nat (bm_max b)) + i) mod nat (bm_max b)))" unfolding find_None_iff .
    moreover have "i \<in> set [0..<nat (bm_max b)]" using i(1) by simp
    ultimately show "bit (bm_allocated b) k" using i(2) by blast
  qed
qed

section \<open>The interface\<close>

text \<open>
  What the allocator promises its clients: a mark denotes at most one place of the range, the next
  mark is a free one, and the range is full only when every place is taken. The draws are the
  random offsets of the search.
\<close>

locale mark_interface =
  fixes ok :: "'s \<Rightarrow> bool"
    and place :: "'s \<Rightarrow> 'm \<Rightarrow> nat option"
    and taken :: "'s \<Rightarrow> nat set"
    and room :: "'s \<Rightarrow> nat"
    and next_mark :: "'d \<Rightarrow> 's \<Rightarrow> ('e, 'm) outcome \<times> 's"
    and full :: 'e
  assumes taken_bound: "ok s \<Longrightarrow> taken s \<subseteq> {..<room s}"
    and next_cases: "ok s \<Longrightarrow>
      (next_mark d s = (Err full, s) \<and> taken s = {..<room s}) \<or>
      (\<exists>m k s'. next_mark d s = (Ok m, s') \<and> ok s' \<and> place s m = Some k \<and> k \<notin> taken s \<and>
         taken s' = insert k (taken s) \<and> place s' = place s \<and> room s' = room s)"
begin

lemma next_free:
  assumes "ok s" "card (taken s) < room s"
  shows "\<exists>m k s'. next_mark d s = (Ok m, s') \<and> ok s' \<and> place s m = Some k \<and> k \<notin> taken s \<and>
         taken s' = insert k (taken s) \<and> place s' = place s \<and> room s' = room s"
  using next_cases [OF assms(1), of d] assms(2) by auto

lemma finite_taken: "ok s \<Longrightarrow> finite (taken s)"
  using taken_bound finite_subset finite_lessThan by metis

end

text \<open>A client that asks for one mark per draw.\<close>

fun take_marks :: "('d \<Rightarrow> 's \<Rightarrow> ('e, 'm) outcome \<times> 's) \<Rightarrow> 'd list \<Rightarrow> 's \<Rightarrow> ('e, 'm) outcome list \<times> 's" where
  "take_marks nxt [] s = ([], s)"
| "take_marks nxt (d # ds) s =
     (case nxt d s of (m, s') \<Rightarrow> case take_marks nxt ds s' of (ms, s'') \<Rightarrow> (m # ms, s''))"

context mark_interface
begin

lemma take_marks_distinct:
  assumes "ok s" "card (taken s) + length ds \<le> room s"
  shows "\<exists>ms s'. take_marks next_mark ds s = (map Ok ms, s') \<and> length ms = length ds \<and> ok s' \<and> place s' = place s \<and>
    distinct (map (place s) ms) \<and> (\<exists>ks. map (place s) ms = map Some ks \<and> set ks \<inter> taken s = {} \<and>
      taken s' = set ks \<union> taken s)"
  using assms
proof (induction ds arbitrary: s)
  case Nil
  then show ?case by (auto intro!: exI [of _ "[]"])
next
  case (Cons d ds)
  then obtain m k s1 where n: "next_mark d s = (Ok m, s1)" "ok s1" "place s m = Some k" "k \<notin> taken s"
      "taken s1 = insert k (taken s)" "place s1 = place s" "room s1 = room s"
    using next_free [of s d] by auto
  have "card (taken s1) + length ds \<le> room s1" using Cons.prems n finite_taken [of s] by simp
  from Cons.IH [OF n(2) this] obtain ms s2 ks where r: "take_marks next_mark ds s1 = (map Ok ms, s2)"
      "length ms = length ds" "ok s2" "place s2 = place s1" "distinct (map (place s1) ms)"
      "map (place s1) ms = map Some ks" "set ks \<inter> taken s1 = {}" "taken s2 = set ks \<union> taken s1" by blast
  have "k \<notin> set ks" using r(7) n(5) by blast
  then have "distinct (map (place s) (m # ms))" using r n by auto
  then show ?case using r n
    by (intro exI [of _ "m # ms"] exI [of _ s2]) (auto intro!: exI [of _ "k # ks"])
qed

end

lemma used_bound: "range_ok r \<Longrightarrow> used r \<subseteq> {..<nat (rg_max r)}"
  by (auto simp: range_ok_def bitmap_ok_def used_def)

lemma AllocateNext_Some:
  assumes "range_ok r" "AllocateBit intn (rg_alloc r) = Some k"
  shows "\<exists>r'. AllocateNext intn r = (Ok (addMarkOffset (rg_base r) k), r') \<and> range_ok r' \<and>
    offset_of r (addMarkOffset (rg_base r) k) = Some k \<and> k \<notin> used r \<and> used r' = insert k (used r) \<and>
    offset_of r' = offset_of r \<and> rg_max r' = rg_max r"
proof -
  have b: "bitmap_ok (rg_alloc r)" "bm_max (rg_alloc r) = rg_max r" using assms(1) by (auto simp: range_ok_def)
  have k: "\<not> bit (bm_allocated (rg_alloc r)) k" "int k < rg_max r"
    using AllocateBit_Some [OF assms(2)] b by auto
  let ?b = "(rg_alloc r)\<lparr>bm_count := bm_count (rg_alloc r) + 1, bm_allocated := set_bit k (bm_allocated (rg_alloc r))\<rparr>"
  have "range_ok (r\<lparr>rg_alloc := ?b\<rparr>)"
    using range_ok_alloc [OF assms(1), of ?b] bitmap_ok_set [OF b(1) k(1)] b(2) k(2) unfolding bitmap_upd_order by simp
  then show ?thesis using offset_of_mark [OF assms(1) k(2)] k assms(2)
    by (intro exI [of _ "r\<lparr>rg_alloc := ?b\<rparr>"])
      (auto simp: AllocateNext_def bm_AllocateNext_def used_def bit_set)
qed

lemma AllocateNext_None:
  assumes "range_ok r" "AllocateBit intn (rg_alloc r) = None"
  shows "AllocateNext intn r = (Err ErrFull, r) \<and> used r = {..<nat (rg_max r)}"
proof -
  have "bitmap_ok (rg_alloc r)" "bm_max (rg_alloc r) = rg_max r" using assms(1) by (auto simp: range_ok_def)
  then have "\<forall>k. int k < rg_max r \<longrightarrow> k \<in> used r" using AllocateBit_None [OF _ assms(2)] by (simp add: used_def)
  then have "used r = {..<nat (rg_max r)}" using used_bound [OF assms(1)] by (auto simp: zless_nat_eq_int_zless)
  then show ?thesis using assms(2) by (simp add: AllocateNext_def bm_AllocateNext_def)
qed

interpretation marks: mark_interface range_ok offset_of used "\<lambda>r. nat (rg_max r)" AllocateNext ErrFull
proof unfold_locales
  show "range_ok r \<Longrightarrow> used r \<subseteq> {..<nat (rg_max r)}" for r by (rule used_bound)
  show "(AllocateNext d r = (Err ErrFull, r) \<and> used r = {..<nat (rg_max r)}) \<or>
      (\<exists>m k r'. AllocateNext d r = (Ok m, r') \<and> range_ok r' \<and> offset_of r m = Some k \<and> k \<notin> used r \<and>
         used r' = insert k (used r) \<and> offset_of r' = offset_of r \<and> nat (rg_max r') = nat (rg_max r))"
    if "range_ok r" for d r
    using AllocateNext_Some [OF that, of d] AllocateNext_None [OF that, of d]
    by (cases "AllocateBit d (rg_alloc r)") fastforce+
qed

end
