(* ===== verification/MarkProps.thy ===== *)
theory MarkProps
  imports MarkAllocator
begin

unbundle bit_operations_syntax

text \<open>
  The properties of the mark allocator: the range a mask gives, fresh marks until the range is
  full, reservation and release of a given mark, and the enumeration of the allocated marks.
\<close>

section \<open>The range of a mask\<close>

lemma hex_value_not_x: "hex_value v h = Some u \<Longrightarrow> CHR ''x'' \<notin> set h"
  by (induction h arbitrary: v) (auto simp: hex_digit_def split: option.splits)

lemma hex_value_zeros: "hex_value v (replicate k (CHR ''0'')) = Some (v * 16 ^ k)"
  by (induction k arbitrary: v) (simp_all add: hex_digit_def)

lemma hex_value_fs: "hex_value v (replicate k (CHR ''f'')) = Some ((v + 1) * 16 ^ k - 1)"
proof (induction k arbitrary: v)
  case (Suc k)
  have "hex_value v (replicate (Suc k) (CHR ''f'')) = hex_value (v * 16 + 15) (replicate k (CHR ''f''))"
    by (simp add: hex_digit_def)
  also have "\<dots> = Some ((v * 16 + 16) * 16 ^ k - 1)" using Suc [of "v * 16 + 15"] by (simp add: add.commute)
  finally show ?case by (simp add: algebra_simps)
qed simp

lemma Parse_prefixed:
  assumes "hex_value 0 h = Some v" "h \<noteq> []" "v < 2 ^ 64"
  shows "Parse (''0x'' @ h) = Ok (of_nat v)"
  using assms remove_0x_idle [OF hex_value_not_x [OF assms(1)]] by (simp add: Parse_def)

text \<open>A mask: the prefix, digits that do not end with a zero, and trailing zeros.\<close>

definition mask_of :: "string \<Rightarrow> nat \<Rightarrow> string" where
  "mask_of h k = ''0x'' @ h @ replicate k (CHR ''0'')"

lemma trailing_zeros_mask:
  assumes "h = [] \<or> h ! (length h - 1) \<noteq> CHR ''0''"
  shows "trailing_zeros (mask_of h k) = k"
proof -
  have "takeWhile (\<lambda>c. c = CHR ''0'') (rev (''0x'' @ h)) = []"
    using assms by (cases h rule: rev_cases) (auto simp: nth_append)
  moreover have "rev (mask_of h k) = replicate k (CHR ''0'') @ rev (''0x'' @ h)" by (simp add: mask_of_def)
  ultimately show ?thesis by (simp add: trailing_zeros_def takeWhile_append)
qed

lemma pred_below: "x \<le> (2::nat) ^ 64 \<Longrightarrow> x - 1 < 2 ^ 64"
  by simp

lemma uint_small: "n < 2 ^ 64 \<Longrightarrow> uint (of_nat n :: 64 word) = int n"
  by (simp add: uint_nat unat_of_nat)

lemma sint_small: "n < 2 ^ 63 \<Longrightarrow> sint (of_nat n :: 64 word) = int n"
  by (subst sint_uint) (simp add: uint_small signed_take_bit_int_eq_self)

lemma RangeSize_mask:
  assumes "hex_value 0 h = Some v" "h = [] \<or> h ! (length h - 1) \<noteq> CHR ''0''" "0 < k" "(v + 1) * 16 ^ k \<le> 2 ^ 64"
  shows "Parse (mask_of h k) = Ok (of_nat (v * 16 ^ k)) \<and>
    RangeSize (mask_of h k) = Ok (of_nat (v * 16 ^ k), of_nat ((v + 1) * 16 ^ k - 1))"
proof -
  have pos: "0 < (16::nat) ^ k" by simp
  have zs: "hex_value 0 (h @ replicate k (CHR ''0'')) = Some (v * 16 ^ k)"
    using assms(1) by (simp add: hex_value_append hex_value_zeros)
  have fs: "hex_value 0 (h @ replicate k (CHR ''f'')) = Some ((v + 1) * 16 ^ k - 1)"
    using assms(1) by (simp only: hex_value_append hex_value_fs bind.bind_lunit)
  have e: "(v + 1) * 16 ^ k - 1 < 2 ^ 64" by (rule pred_below [OF assms(4)])
  have "v * 16 ^ k < (v + 1) * 16 ^ k" using pos by simp
  then have s: "v * 16 ^ k < 2 ^ 64" using assms(4) by linarith
  have p1: "Parse (mask_of h k) = Ok (of_nat (v * 16 ^ k))"
    unfolding mask_of_def using Parse_prefixed [OF zs _ s] assms(3) by simp
  have t: "take (length (mask_of h k) - k) (mask_of h k) = ''0x'' @ h" by (simp add: mask_of_def)
  have p2: "Parse ((''0x'' @ h) @ replicate k (CHR ''f'')) = Ok (of_nat ((v + 1) * 16 ^ k - 1))"
    using Parse_prefixed [OF fs _ e] assms(3) by simp
  show ?thesis
    using p1 p2 by (simp only: RangeSize_def oc_bind.simps trailing_zeros_mask [OF assms(2)] Let_def t)
qed

lemma range_of_mask:
  assumes "hex_value 0 h = Some v" "h = [] \<or> h ! (length h - 1) \<noteq> CHR ''0''" "0 < k" "(v + 1) * 16 ^ k \<le> 2 ^ 64" "k < 16"
  shows "\<exists>r. NewAllocatorMarkRange (mask_of h k) = Ok r \<and> range_ok r \<and> used r = {} \<and>
    rg_base r = int (v * 16 ^ k + 1) \<and> rg_max r = int (16 ^ k - 2)"
proof -
  have k16: "(16::nat) \<le> 16 ^ k" using assms(3) power_increasing [of 1 k "16::nat"] by simp
  have k63: "(16::nat) ^ k < 2 ^ 63" using assms(5) power_increasing [of k 15 "16::nat"] by simp
  let ?s = "v * 16 ^ k" and ?e = "(v + 1) * 16 ^ k - 1"
  have e: "?e = ?s + (16 ^ k - 1)" unfolding add_mult_distrib mult_1 using k16 by linarith
  have ue: "uint (of_nat ?e :: 64 word) = int ?s + int (16 ^ k - 1)"
    unfolding uint_small [OF pred_below [OF assms(4)]] by (subst e) (rule of_nat_add)
  have "?s \<le> ?e" by (subst e) (rule le_add1)
  then have "?s < 2 ^ 64" using pred_below [OF assms(4)] by (rule le_less_trans)
  then have us: "uint (of_nat ?s :: 64 word) = int ?s" by (rule uint_small)
  have "(of_nat ?e - of_nat ?s - 1 :: 64 word) = of_nat (16 ^ k - 2)"
    unfolding e using k16 by (simp add: of_nat_diff)
  moreover have "sint (of_nat (16 ^ k - 2) :: 64 word) = int (16 ^ k - 2)"
    using k63 by (intro sint_small) linarith
  ultimately have m: "sint (of_nat ?e - of_nat ?s - 1 :: 64 word) = int (16 ^ k - 2)" by simp
  let ?r = "\<lparr>rg_base = int ?s + 1, rg_start = of_nat ?s, rg_end = of_nat ?e, rg_max = int (16 ^ k - 2),
      rg_alloc = NewAllocationMap (int (16 ^ k - 2))\<rparr>"
  have "NewAllocatorMarkRange (mask_of h k) = Ok ?r"
    using RangeSize_mask [OF assms(1-4)] m us by (simp add: NewAllocatorMarkRange_def bigForMark_def Let_def)
  moreover have "range_ok ?r"
  proof -
    have a: "1 + int (16 ^ k - 2) \<le> int (16 ^ k - 1)" "(16::nat) ^ k - 2 < 2 ^ 63" using k16 k63 by linarith+
    then have "int ?s + 1 + int (16 ^ k - 2) \<le> uint (of_nat ?e :: 64 word)" using ue by linarith
    then show ?thesis using us a(2) by (simp add: range_ok_def NewAllocationMap_def bitmap_ok_def)
  qed
  ultimately show ?thesis by (auto simp: used_def NewAllocationMap_def)
qed

section \<open>Reserving, releasing and listing\<close>

lemma Allocate_offset:
  "offset_of r m = Some k \<Longrightarrow> Allocate m r =
     (if k \<in> used r then (Err ErrAllocated, r)
      else (Ok (), r\<lparr>rg_alloc := (rg_alloc r)\<lparr>bm_allocated := set_bit k (bm_allocated (rg_alloc r)),
        bm_count := bm_count (rg_alloc r) + 1\<rparr>\<rparr>))"
  by (auto simp: offset_of_def Allocate_def bm_Allocate_def used_def split: outcome.splits)

lemma Allocate_no_offset: "offset_of r m = None \<Longrightarrow> \<exists>e. Allocate m r = (Err e, r) \<and> e \<in> {ParseUintErr, NotInRange}"
  by (auto simp: offset_of_def Allocate_def Parse_def Let_def split: outcome.splits option.splits if_splits)

lemma Release_offset:
  "offset_of r m = Some k \<Longrightarrow> Release m r = (Ok (), r\<lparr>rg_alloc := bm_Release k (rg_alloc r)\<rparr>)"
  by (auto simp: offset_of_def Release_def split: outcome.splits)

lemma Release_no_offset: "offset_of r m = None \<Longrightarrow> \<exists>e. Release m r = (Err e, r) \<and> e \<in> {ParseUintErr, NotInRange}"
  by (auto simp: offset_of_def Release_def Parse_def Let_def split: outcome.splits option.splits if_splits)

lemma used_release: "used (r\<lparr>rg_alloc := bm_Release k (rg_alloc r)\<rparr>) = used r - {k}"
  by (auto simp: used_def bm_Release_def bit_unset)

lemma range_ok_release: "range_ok r \<Longrightarrow> range_ok (r\<lparr>rg_alloc := bm_Release k (rg_alloc r)\<rparr>)"
  using range_ok_alloc [of r "bm_Release k (rg_alloc r)"] bitmap_ok_unset [of "rg_alloc r" k]
  by (auto simp: bm_Release_def range_ok_def)

lemma range_ok_set:
  "range_ok r \<Longrightarrow> k \<notin> used r \<Longrightarrow> offset_of r m = Some k \<Longrightarrow>
   range_ok (r\<lparr>rg_alloc := (rg_alloc r)\<lparr>bm_allocated := set_bit k (bm_allocated (rg_alloc r)),
     bm_count := bm_count (rg_alloc r) + 1\<rparr>\<rparr>)"
  using range_ok_alloc [of r] bitmap_ok_set [of "rg_alloc r" k] offset_of_bound [of r m k]
  by (auto simp: range_ok_def used_def)

lemma bit_shift: "k = j \<and> odd (a::nat) \<or> Suc j \<le> k \<and> bit (a div 2) (k - Suc j) \<longleftrightarrow> j \<le> k \<and> bit a (k - j)"
proof (cases "j < k")
  case True
  then have "k - j = Suc (k - Suc j)" by simp
  then show ?thesis using True by (simp add: bit_Suc)
qed (auto simp: bit_0)

lemma bits_from_step:
  "set (bits_from j a) = (if a = 0 then {} else (if odd a then {j} else {}) \<union> set (bits_from (Suc j) (a div 2)))"
  by (subst bits_from.simps) simp

lemma bits_from_set: "k \<in> set (bits_from j a) \<longleftrightarrow> j \<le> k \<and> bit a (k - j)"
proof (induction j a rule: bits_from.induct)
  case (1 j a)
  show ?case
  proof (cases "a = 0")
    case False
    have "k \<in> set (bits_from j a) \<longleftrightarrow> k = j \<and> odd a \<or> k \<in> set (bits_from (Suc j) (a div 2))"
      using False by (subst bits_from_step) simp
    then show ?thesis using False 1 bit_shift [of k j a] by simp
  qed (simp add: bits_from_step [of j 0])
qed

lemma bits_from_distinct: "distinct (bits_from j a)"
proof (induction j a rule: bits_from.induct)
  case (1 j a)
  then show ?case using bits_from_set [of j "Suc j" "a div 2"] by (subst bits_from.simps) simp
qed

lemma bits_used: "set (bits_from 0 (bm_allocated (rg_alloc r))) = used r"
  by (rule set_eqI) (simp only: bits_from_set used_def mem_Collect_eq diff_zero le0 simp_thms)

lemma ForEach_set: "set (ForEach r) = addMarkOffset (rg_base r) ` used r"
  unfolding ForEach_def set_map bits_used GetIndexedMark_def ..

lemma addMarkOffset_inj: "range_ok r \<Longrightarrow> inj_on (addMarkOffset (rg_base r)) (used r)"
proof (rule inj_onI)
  fix j k assume r: "range_ok r" "j \<in> used r" "k \<in> used r" "addMarkOffset (rg_base r) j = addMarkOffset (rg_base r) k"
  have "int j < rg_max r" "int k < rg_max r" using used_bound [OF r(1)] r(2,3) by auto
  then have "Some j = Some k" using offset_of_mark [OF r(1), of j] offset_of_mark [OF r(1), of k] r(4) by metis
  then show "j = k" by simp
qed

lemma ForEach_distinct: "range_ok r \<Longrightarrow> distinct (ForEach r)"
  unfolding ForEach_def distinct_map bits_used GetIndexedMark_def
  using addMarkOffset_inj bits_from_distinct by blast

lemma Allocate_cases:
  assumes "range_ok r" "Allocate m r = (res, r')"
  shows "(offset_of r m = None \<and> r' = r \<and> res \<in> {Err ParseUintErr, Err NotInRange}) \<or>
    (\<exists>k. offset_of r m = Some k \<and> k \<in> used r \<and> r' = r \<and> res = Err ErrAllocated) \<or>
    (\<exists>k. offset_of r m = Some k \<and> k \<notin> used r \<and> res = Ok () \<and> range_ok r' \<and>
       used r' = insert k (used r) \<and> offset_of r' = offset_of r)"
proof (cases "offset_of r m")
  case None
  then show ?thesis using Allocate_no_offset [OF None] assms(2) by auto
next
  case (Some k)
  show ?thesis
  proof (cases "k \<in> used r")
    case False
    then show ?thesis using range_ok_set [OF assms(1) False Some] Allocate_offset [OF Some] assms(2) Some
      by (auto simp: used_def bit_set)
  qed (use Allocate_offset [OF Some] assms(2) Some in auto)
qed

lemma unset_set_bit: "\<not> bit (a::nat) k \<Longrightarrow> unset_bit k (set_bit k a) = a"
  by (rule bit_eqI) (auto simp: bit_set bit_unset)

lemma card_used: "range_ok r \<Longrightarrow> bm_count (rg_alloc r) = int (card (used r))"
  by (simp add: range_ok_def bitmap_ok_def used_def)

lemma take_marks_max: "rg_max (snd (take_marks AllocateNext ds r)) = rg_max r"
proof (induction ds arbitrary: r)
  case (Cons d ds)
  have "rg_max (snd (AllocateNext d r)) = rg_max r"
    by (auto simp: AllocateNext_def bm_AllocateNext_def split: prod.split option.split)
  then show ?case using Cons [of "snd (AllocateNext d r)"] by (simp add: split_beta)
qed simp

lemma AllocateNext_full:
  assumes "range_ok r" "card (used r) = nat (rg_max r)"
  shows "AllocateNext intn r = (Err ErrFull, r)"
proof -
  have "AllocateBit intn (rg_alloc r) = None"
    using assms card_used [OF assms(1)] by (simp add: AllocateBit_def range_ok_def)
  then show ?thesis using AllocateNext_None [OF assms(1)] by blast
qed

section \<open>Properties\<close>

text \<open>A mask of the form 0x, digits that do not end with a zero, and 1 to 15 zeros makes an empty
  range that satisfies the allocator's invariant: it starts one above the mask's value and has all
  the values of the zeroed digits but the first and the last.\<close>

theorem NewAllocatorMarkRange_mask:
  assumes "hex_value 0 h = Some v" "h = [] \<or> h ! (length h - 1) \<noteq> CHR ''0''" "0 < k" "(v + 1) * 16 ^ k \<le> 2 ^ 64" "k < 16"
  shows "\<exists>r. NewAllocatorMarkRange (mask_of h k) = Ok r \<and> range_ok r \<and> (\<forall>m. \<not> Has m r) \<and> ForEach r = [] \<and>
    rg_base r = int (v * 16 ^ k + 1) \<and> rg_max r = int (16 ^ k - 2)"
proof -
  obtain r where r: "NewAllocatorMarkRange (mask_of h k) = Ok r" "range_ok r" "used r = {}"
      "rg_base r = int (v * 16 ^ k + 1)" "rg_max r = int (16 ^ k - 2)" using range_of_mask [OF assms] by blast
  have "set (ForEach r) = {}" unfolding ForEach_set r(3) by simp
  then show ?thesis using r by (intro exI [of _ r]) (simp add: Has_offset)
qed

definition ex_range :: range where
  "ex_range = \<lparr>rg_base = 17, rg_start = 16, rg_end = 31, rg_max = 14, rg_alloc = NewAllocationMap 14\<rparr>"

theorem NewAllocatorMarkRange_mask_witness:
  "\<exists>r. NewAllocatorMarkRange (mask_of ''26'' 6) = Ok r \<and> rg_base r = 637534209 \<and> rg_max r = 16777214"
  using NewAllocatorMarkRange_mask [of "''26''" 38 6] by (auto simp: hex_digit_def)

lemma ex_range_ok: "range_ok ex_range"
  by (simp add: range_ok_def ex_range_def NewAllocationMap_def bitmap_ok_def)

lemma ex_range_max: "rg_max ex_range = 14"
  by (simp add: ex_range_def)

lemma ex_range_used: "used ex_range = {}"
  by (simp add: used_def ex_range_def NewAllocationMap_def)

text \<open>C31. As long as the range has room, repeated calls of AllocateNext return pairwise different
  marks, none of which was allocated before and all of which are afterwards, whatever the random
  offsets of the search; when the last place is taken the next call returns ErrFull and changes
  nothing.\<close>

theorem AllocateNext_fresh:
  assumes "range_ok r" "card (used r) + length ds \<le> nat (rg_max r)"
  shows "\<exists>ms r'. take_marks AllocateNext ds r = (map Ok ms, r') \<and> range_ok r' \<and> length ms = length ds \<and> distinct ms \<and>
    (\<forall>m \<in> set ms. \<not> Has m r \<and> Has m r') \<and>
    (card (used r) + length ds = nat (rg_max r) \<longrightarrow> (\<forall>intn. AllocateNext intn r' = (Err ErrFull, r')))"
proof -
  obtain ms r' ks where t: "take_marks AllocateNext ds r = (map Ok ms, r')" "length ms = length ds" "range_ok r'"
      "offset_of r' = offset_of r" "distinct (map (offset_of r) ms)" "map (offset_of r) ms = map Some ks"
      "set ks \<inter> used r = {}" "used r' = set ks \<union> used r" "rg_max r' = rg_max r"
    using marks.take_marks_distinct [OF assms] take_marks_max [of ds r] by (metis snd_conv)
  have "length ms = length ks" using arg_cong [OF t(6), of length] by simp
  then have ks: "distinct ks" "length ks = length ds" using t(5,2) unfolding t(6) by (simp_all add: distinct_map)
  have "card (used r') = card (used r) + length ds"
    using t(7,8) ks marks.finite_taken [OF assms(1)] by (simp add: card_Un_disjoint distinct_card)
  moreover have "AllocateNext intn r' = (Err ErrFull, r')" if "card (used r') = nat (rg_max r')" for intn
    using AllocateNext_full [OF t(3) that] .
  moreover have "\<not> Has m r \<and> Has m r'" if "m \<in> set ms" for m
  proof -
    have "offset_of r m \<in> Some ` set ks" using that t(6) by (metis image_eqI image_set)
    then show ?thesis using t(4,7,8) by (auto simp: Has_offset)
  qed
  moreover have "distinct ms" using t(5) by (simp only: distinct_map)
  ultimately show ?thesis using t(1-3,9) by (intro exI [of _ ms] exI [of _ r']) simp
qed

theorem AllocateNext_fresh_witness:
  "\<exists>ms r'. take_marks AllocateNext (replicate 14 (\<lambda>n. 5)) ex_range = (map Ok ms, r') \<and> length ms = 14 \<and> distinct ms \<and>
    AllocateNext (\<lambda>n. 3) r' = (Err ErrFull, r')"
  using AllocateNext_fresh [OF ex_range_ok, of "replicate 14 (\<lambda>n. 5)"] by (auto simp: ex_range_used ex_range_max)

text \<open>Reserving a given mark: it succeeds exactly for a mark of the range that is not allocated,
  answers ErrAllocated exactly for one that is, changes nothing on an error, and on success adds
  this mark and no other.\<close>

theorem Allocate_contract:
  assumes "range_ok r" "Allocate m r = (res, r')"
  shows "range_ok r' \<and> (res = Ok () \<longleftrightarrow> offset_of r m \<noteq> None \<and> \<not> Has m r) \<and> (res = Err ErrAllocated \<longleftrightarrow> Has m r) \<and>
    (res \<noteq> Ok () \<longrightarrow> r' = r) \<and>
    (res = Ok () \<longrightarrow> (\<forall>m'. Has m' r' \<longleftrightarrow> Has m' r \<or> offset_of r m' = offset_of r m))"
  using Allocate_cases [OF assms] assms(1)
proof (elim disjE exE conjE)
  fix k assume "offset_of r m = Some k" "k \<notin> used r" "res = Ok ()" "range_ok r'"
    "used r' = insert k (used r)" "offset_of r' = offset_of r"
  then show ?thesis by (auto simp: Has_offset)
qed (auto simp: Has_offset)

theorem Allocate_contract_witness:
  "fst (Allocate ''0x12'' ex_range) = Ok () \<and> Has ''0x12'' (snd (Allocate ''0x12'' ex_range)) \<and>
   \<not> Has ''0x13'' (snd (Allocate ''0x12'' ex_range))"
proof -
  have o: "offset_of ex_range ''0x12'' = Some 1" "offset_of ex_range ''0x13'' = Some 2"
    by (simp_all add: offset_of_def Parse_def hex_digit_def ex_range_def contains_def calculateMarkOffset_def)
  have n: "\<not> Has m ex_range" for m by (simp add: Has_offset ex_range_used)
  obtain res r' where a: "Allocate ''0x12'' ex_range = (res, r')" by (metis surj_pair)
  show ?thesis using Allocate_contract [OF ex_range_ok a] a o n by auto
qed

text \<open>Releasing a mark that was just reserved gives back the range as it was before, bit map and
  count alike.\<close>

theorem Release_Allocate:
  assumes "range_ok r" "Allocate m r = (Ok (), r')"
  shows "Release m r' = (Ok (), r)"
proof -
  obtain k where k: "offset_of r m = Some k" "k \<notin> used r" "offset_of r' = offset_of r"
    using Allocate_cases [OF assms] by auto
  have r': "r' = r\<lparr>rg_alloc := (rg_alloc r)\<lparr>bm_allocated := set_bit k (bm_allocated (rg_alloc r)),
      bm_count := bm_count (rg_alloc r) + 1\<rparr>\<rparr>" using assms(2) Allocate_offset [OF k(1)] k(2) by simp
  have "\<not> bit (bm_allocated (rg_alloc r)) k" using k(2) by (simp add: used_def)
  then have "bm_Release k (rg_alloc r') = rg_alloc r" unfolding r' by (simp add: bm_Release_def bit_set unset_set_bit)
  then show ?thesis using Release_offset [of r' m k] k(1,3) r' by simp
qed

theorem Release_Allocate_witness:
  "Release ''0x12'' (snd (Allocate ''0x12'' ex_range)) = (Ok (), ex_range)"
proof -
  have o: "offset_of ex_range ''0x12'' = Some 1"
    by (simp add: offset_of_def Parse_def hex_digit_def ex_range_def contains_def calculateMarkOffset_def)
  then have "Allocate ''0x12'' ex_range = (Ok (), snd (Allocate ''0x12'' ex_range))"
    using Allocate_offset [OF o] by (simp add: ex_range_used)
  then show ?thesis by (rule Release_Allocate [OF ex_range_ok])
qed

text \<open>Releasing a mark of the range takes exactly this mark out of the allocated ones; a mark that
  does not parse or is outside the range is an error and changes nothing, although the comment of
  the function promises a no-op without an error.\<close>

theorem Release_contract:
  assumes "range_ok r" "Release m r = (res, r')"
  shows "range_ok r' \<and> (\<forall>m'. Has m' r' \<longleftrightarrow> Has m' r \<and> offset_of r m' \<noteq> offset_of r m) \<and>
    (res = Ok () \<longleftrightarrow> offset_of r m \<noteq> None) \<and> (offset_of r m = None \<longrightarrow> r' = r)"
proof (cases "offset_of r m")
  case None
  then show ?thesis using Release_no_offset [OF None] assms by (auto simp: Has_offset)
next
  case (Some k)
  then have r': "res = Ok ()" "r' = r\<lparr>rg_alloc := bm_Release k (rg_alloc r)\<rparr>" using assms(2) Release_offset by auto
  then have "used r' = used r - {k}" by (simp add: used_release)
  then show ?thesis using Some r' range_ok_release [OF assms(1)] by (auto simp: Has_offset)
qed

theorem Release_contract_witness:
  "fst (Release ''0x40'' ex_range) \<noteq> Ok () \<and> snd (Release ''0x40'' ex_range) = ex_range"
proof -
  have o: "offset_of ex_range ''0x40'' = None"
    by (simp add: offset_of_def Parse_def hex_digit_def ex_range_def contains_def)
  obtain res r' where a: "Release ''0x40'' ex_range = (res, r')" by (metis surj_pair)
  show ?thesis using Release_contract [OF ex_range_ok a] a o by auto
qed

text \<open>ForEach visits every allocated mark exactly once: the visited strings are distinct, the
  allocator has each of them, they are as many as the allocator counts, and each allocated mark is
  visited in its canonical spelling.\<close>

theorem ForEach_exact:
  assumes "range_ok r"
  shows "distinct (ForEach r) \<and> (\<forall>m \<in> set (ForEach r). Has m r) \<and> int (length (ForEach r)) = bm_count (rg_alloc r) \<and>
    (\<forall>m. Has m r \<longrightarrow> (\<exists>m' \<in> set (ForEach r). offset_of r m' = offset_of r m))"
proof -
  have o: "offset_of r (addMarkOffset (rg_base r) k) = Some k" if "k \<in> used r" for k
    using used_bound [OF assms] that by (intro offset_of_mark [OF assms]) auto
  have "length (ForEach r) = card (used r)"
    using distinct_card [OF ForEach_distinct [OF assms]] card_image [OF addMarkOffset_inj [OF assms]] by (simp add: ForEach_set)
  then show ?thesis using ForEach_distinct [OF assms] card_used [OF assms] o by (auto simp: ForEach_set Has_offset)
qed

theorem ForEach_exact_witness:
  "ForEach (snd (Allocate ''0x12'' ex_range)) = [''0x12''] \<and> Has ''0x12'' (snd (Allocate ''0x12'' ex_range))"
proof -
  have o: "offset_of ex_range ''0x12'' = Some 1"
    by (simp add: offset_of_def Parse_def hex_digit_def ex_range_def contains_def calculateMarkOffset_def)
  have a: "Allocate ''0x12'' ex_range = (Ok (), snd (Allocate ''0x12'' ex_range))"
    using Allocate_offset [OF o] by (simp add: ex_range_used)
  have ok: "range_ok (snd (Allocate ''0x12'' ex_range))" using Allocate_cases [OF ex_range_ok a] by auto
  have "ForEach (snd (Allocate ''0x12'' ex_range)) = [''0x12'']"
    unfolding Allocate_offset [OF o] ex_range_used
    by (simp add: ForEach_def ex_range_def NewAllocationMap_def bits_from.simps GetIndexedMark_def
        addMarkOffset_def hex_string.simps digit_char_def set_bit_eq)
  then show ?thesis using ForEach_exact [OF ok] by simp
qed

end
