(* ===== verification/GatewayWebhook.thy ===== *)
theory GatewayWebhook
  imports GatewayCtl
begin

text \<open>
  \<^verbatim>\<open>pkg/egressgateway/egress_gateway_webhook.go\<close>: the admission handlers of the
  \<^verbatim>\<open>EgressGateway\<close> resource. The decoding of the raw JSON of a request into an object is a
  parameter. A handler is a program over the cluster state whose early \<^verbatim>\<open>return webhook.Denied\<close>
  is a failure with the reason of the denial; \<open>respond\<close> turns it into the response.
\<close>

section \<open>Requests and responses\<close>

datatype operation = Create | Update | Delete | Connect

record admission_request =
  rq_kind :: string
  rq_operation :: operation
  rq_name :: string
  rq_namespace :: string
  rq_object :: string
  rq_old_object :: string

record codec =
  dec_gateway :: "string \<Rightarrow> egress_gateway option"
  dec_policy :: "string \<Rightarrow> egress_policy option"
  dec_cpolicy :: "string \<Rightarrow> egress_cluster_policy option"

record file_config =
  enable_ipv4 :: bool
  enable_ipv6 :: bool

datatype patch_value = PString string | PStrings "string list" | PEgressIP egress_ip

record patch_operation =
  po_op :: string
  po_path :: string
  po_value :: patch_value

datatype denial =
    UnmarshalErr
  | NoNodeSelector
  | IPv6NotEnabled
  | IPv4NotEnabled
  | ClientErr api_err
  | DefaultExists string
  | CheckIPErr ip_err
  | CountsDiffer
  | NotCovered string
  | ClusterMapErr ip_err
  | DuplicateIP string string
  | PoolTypeChanged
  | AlreadyAllocated string
  | ClusterInfoDelete
  | GatewayNameEmpty
  | UseNodeIPWithIP
  | BadIPv4
  | BadIPv6
  | SelectorAndSubnet
  | NothingSelected
  | FieldImmutable string
  | DefaultsTogether
  | PairedWith string string
  | PoolsEmpty
  | NotInPools
  | BadSubnets "string list"

datatype response = Allowed string | Denied denial | Patched "patch_operation list"

type_synonym ('w, 'a) hook = "('w, denial, 'a) prog"

definition respond :: "('w, response) hook \<Rightarrow> ('w, denial, response) prog" where
  "respond m = (\<lambda>w. case m w of (r, w') \<Rightarrow>
     ((case r of Err d \<Rightarrow> Ok (Denied d) | _ \<Rightarrow> r), w'))"

section \<open>Validation\<close>

text \<open>The ranges and addresses of a pool as \<^verbatim>\<open>buildClusterIPMap\<close> computes them.\<close>

definition gateway_ips :: "string iter_order \<Rightarrow> egress_gateway \<Rightarrow> (netip list \<times> netip list) ip_res" where
  "gateway_ips ord item =
     oc_bind (MergeIPRanges ord IPv4 (pool_ipv4 (gw_pools item))) (\<lambda>ipv4Ranges.
     oc_bind (MergeIPRanges ord IPv6 (pool_ipv6 (gw_pools item))) (\<lambda>ipv6Ranges.
     oc_bind (ParseIPRanges IPv4 ipv4Ranges) (\<lambda>ipv4s.
     oc_bind (ParseIPRanges IPv6 ipv6Ranges) (\<lambda>ipv6s.
     Ok (ipv4s, ipv6s)))))"

type_synonym cluster_map = "(string \<times> string list) list"

fun cluster_map_from :: "string iter_order \<Rightarrow> string \<Rightarrow> egress_gateway list \<Rightarrow> cluster_map \<Rightarrow> cluster_map ip_res" where
  "cluster_map_from ord skipName [] res = Ok res"
| "cluster_map_from ord skipName (item # items) res =
     (if gw_name item = skipName then cluster_map_from ord skipName items res
      else oc_bind (gateway_ips ord item) (\<lambda>(ipv4s, ipv6s).
        cluster_map_from ord skipName items
          (AList.update (gw_name item) (map_keys (map ip_string ipv4s @ map ip_string ipv6s)) res)))"

definition buildClusterIPMap :: "string iter_order \<Rightarrow> egress_gateway list \<Rightarrow> string \<Rightarrow> cluster_map ip_res" where
  "buildClusterIPMap ord items skipName = cluster_map_from ord skipName items []"

text \<open>The first gateway, in the order of the map iteration, that has the address.\<close>

definition holder :: "string iter_order \<Rightarrow> cluster_map \<Rightarrow> string \<Rightarrow> string option" where
  "holder ord m addr = find (\<lambda>gwName. case map_of m gwName of None \<Rightarrow> False | Some gw \<Rightarrow> addr \<in> set gw) (ord (map fst m))"

fun check_addrs :: "string iter_order \<Rightarrow> cluster_map \<Rightarrow> netip list \<Rightarrow> (denial, unit) outcome" where
  "check_addrs ord m [] = Ok ()"
| "check_addrs ord m (v # vs) = (case holder ord m (ip_string v) of
     Some gwName \<Rightarrow> Err (DuplicateIP (ip_string v) gwName)
   | None \<Rightarrow> check_addrs ord m vs)"

definition checkDupIP :: "string iter_order \<Rightarrow> netip list \<Rightarrow> netip list \<Rightarrow> cluster_map \<Rightarrow> (denial, unit) outcome" where
  "checkDupIP ord currentIPv4List currentIPv6List clusterIPMap =
     oc_bind (check_addrs ord clusterIPMap currentIPv4List) (\<lambda>_. check_addrs ord clusterIPMap currentIPv6List)"

definition selector_empty :: "label_selector option \<Rightarrow> bool" where
  "selector_empty sel = (case sel of
     None \<Rightarrow> True
   | Some s \<Rightarrow> length (match_labels s) = 0 \<and> length (match_expressions s) = 0)"

definition must_cover :: "string iter_order \<Rightarrow> int \<Rightarrow> string \<Rightarrow> string list \<Rightarrow> denial \<Rightarrow> (denial, unit) outcome" where
  "must_cover ord version ip ranges d =
     (if length ip \<noteq> 0
      then oc_bind (oc_map_err CheckIPErr (IsIPIncludedRange ord version ip ranges)) (\<lambda>result.
        if \<not> result then Err d else Ok ())
      else Ok ())"

text \<open>The loop over the EIPs of the old status: an entry of a node address has no address at all.\<close>

definition check_allocated :: "string iter_order \<Rightarrow> string list \<Rightarrow> string list \<Rightarrow> eips \<Rightarrow> (denial, unit) outcome" where
  "check_allocated ord ipv4Ranges ipv6Ranges eip =
     (if eip_ipv4 eip = [] \<and> eip_ipv6 eip = [] then Ok ()
      else oc_bind (must_cover ord IPv4 (eip_ipv4 eip) ipv4Ranges (AlreadyAllocated (eip_ipv4 eip))) (\<lambda>_.
        must_cover ord IPv6 (eip_ipv6 eip) ipv6Ranges (AlreadyAllocated (eip_ipv6 eip))))"

definition zero_gateway :: egress_gateway where
  "zero_gateway = \<lparr>
     gw_meta = \<lparr>om_name = [], om_namespace = [], om_deleting = False, om_finalizers = [], om_labels = []\<rparr>,
     gw_spec = \<lparr>cluster_default = False,
       gw_ippools = \<lparr>pool_ipv4 = [], pool_ipv6 = [], ipv4_default_eip = [], ipv6_default_eip = []\<rparr>,
       gw_node_selector = \<lparr>sel_policy = [], sel_selector = None\<rparr>\<rparr>,
     gw_status = \<lparr>node_list = [], usage = \<lparr>ipv4_total = 0, ipv4_free = 0, ipv6_total = 0, ipv6_free = 0\<rparr>\<rparr>\<rparr>"

definition require :: "bool \<Rightarrow> denial \<Rightarrow> (denial, unit) outcome" where
  "require ok d = (if ok then Ok () else Err d)"

text \<open>The only default gateway of the cluster.\<close>

definition check_default :: "('w, 'm) client_scheme \<Rightarrow> egress_gateway \<Rightarrow> ('w, unit) hook" where
  "check_default cli newEg =
     (if cluster_default (gw_spec newEg) then
        bindp (or_fail ClientErr (list_gateways cli)) (\<lambda>items.
        case find (\<lambda>item. cluster_default (gw_spec item) \<and> gw_name item \<noteq> gw_name newEg) items of
          Some item \<Rightarrow> fail (DefaultExists (gw_name item))
        | None \<Rightarrow> ret ())
      else ret ())"

definition check_update :: "string iter_order \<Rightarrow> ('w, 'm) client_scheme \<Rightarrow> admission_request \<Rightarrow> egress_gateway \<Rightarrow>
    string list \<Rightarrow> string list \<Rightarrow> ('w, unit) hook" where
  "check_update ord cli req newEg ipv4Ranges ipv6Ranges =
     bindp (attempt (get_gateway cli (rq_name req))) (\<lambda>x.
     bindp (case x of Inr g \<Rightarrow> ret g | Inl e \<Rightarrow> if e \<noteq> NotFound then fail (ClientErr e) else ret zero_gateway) (\<lambda>old.
     lift (oc_bind (require (\<not> (length (pool_ipv4 (gw_pools old)) = 0 \<and> length (pool_ipv4 (gw_pools newEg)) > 0)) PoolTypeChanged) (\<lambda>_.
       oc_bind (require (\<not> (length (pool_ipv6 (gw_pools old)) = 0 \<and> length (pool_ipv6 (gw_pools newEg)) > 0)) PoolTypeChanged) (\<lambda>_.
       oc_bind (oc_mapM (check_allocated ord ipv4Ranges ipv6Ranges) (concat (map en_eips (gw_nodes old)))) (\<lambda>_.
       Ok ()))))))"

definition EgressGatewayValidate :: "codec \<Rightarrow> string iter_order \<Rightarrow> ('w, 'm) client_scheme \<Rightarrow> file_config \<Rightarrow>
    admission_request \<Rightarrow> ('w, response) hook" where
  "EgressGatewayValidate cdc ord cli cfg req =
     (if rq_operation req = Delete then ret (Allowed ''checked'')
      else case dec_gateway cdc (rq_object req) of
        None \<Rightarrow> fail UnmarshalErr
      | Some newEg \<Rightarrow>
          let pools = gw_pools newEg in
          bindp (lift (require (\<not> selector_empty (sel_selector (gw_node_selector (gw_spec newEg)))) NoNodeSelector)) (\<lambda>_.
          bindp (lift (require (\<not> (enable_ipv4 cfg \<and> \<not> enable_ipv6 cfg \<and> length (pool_ipv6 pools) \<noteq> 0)) IPv6NotEnabled)) (\<lambda>_.
          bindp (lift (require (\<not> (\<not> enable_ipv4 cfg \<and> enable_ipv6 cfg \<and> length (pool_ipv4 pools) \<noteq> 0)) IPv4NotEnabled)) (\<lambda>_.
          bindp (check_default cli newEg) (\<lambda>_.
          bindp (lift (oc_map_err CheckIPErr (MergeIPRanges ord IPv4 (pool_ipv4 pools)))) (\<lambda>ipv4Ranges.
          bindp (lift (oc_map_err CheckIPErr (MergeIPRanges ord IPv6 (pool_ipv6 pools)))) (\<lambda>ipv6Ranges.
          bindp (lift (if enable_ipv4 cfg then oc_map_err CheckIPErr (ParseIPRanges IPv4 ipv4Ranges) else Ok [])) (\<lambda>ipv4s.
          bindp (lift (if enable_ipv6 cfg then oc_map_err CheckIPErr (ParseIPRanges IPv6 ipv6Ranges) else Ok [])) (\<lambda>ipv6s.
          bindp (lift (require (\<not> (enable_ipv4 cfg \<and> enable_ipv6 cfg \<and> length (pool_ipv4 pools) > 0 \<and>
                 length (pool_ipv6 pools) > 0 \<and> length ipv4s \<noteq> length ipv6s)) CountsDiffer)) (\<lambda>_.
          bindp (lift (must_cover ord IPv4 (ipv4_default_eip pools) ipv4Ranges (NotCovered (ipv4_default_eip pools)))) (\<lambda>_.
          bindp (lift (must_cover ord IPv6 (ipv6_default_eip pools) ipv6Ranges (NotCovered (ipv6_default_eip pools)))) (\<lambda>_.
          bindp (or_fail ClientErr (list_gateways cli)) (\<lambda>items.
          bindp (lift (oc_map_err ClusterMapErr (buildClusterIPMap ord items (gw_name newEg)))) (\<lambda>clusterMap.
          bindp (lift (checkDupIP ord ipv4s ipv6s clusterMap)) (\<lambda>_.
          bindp (if rq_operation req = Update then check_update ord cli req newEg ipv4Ranges ipv6Ranges else ret ()) (\<lambda>_.
          ret (Allowed ''checked'')))))))))))))))))"

section \<open>Mutation\<close>

definition getEgressGatewayFinalizerPatch :: "admission_request \<Rightarrow> string list \<Rightarrow> patch_operation option" where
  "getEgressGatewayFinalizerPatch req finalizer =
     (if rq_operation req = Create
      then Some \<lparr>po_op = ''add'', po_path = ''/metadata/finalizers'', po_value = PStrings finalizer\<rparr> else None)"

text \<open>The patch of one family: a random address of a pool without a default address.\<close>

definition default_eip_patch :: "string iter_order \<Rightarrow> (nat \<Rightarrow> nat) \<Rightarrow> int \<Rightarrow> string \<Rightarrow> string list \<Rightarrow> string \<Rightarrow>
    (denial, patch_operation list) outcome" where
  "default_eip_patch ord intn version defaultEIP pool path =
     (if length defaultEIP = 0 \<and> length pool \<noteq> 0 then
        oc_bind (oc_map_err CheckIPErr (MergeIPRanges ord version pool)) (\<lambda>ranges.
        oc_bind (case ParseIPRanges version ranges of Err _ \<Rightarrow> Ok [] | Ok ips \<Rightarrow> Ok ips | Panic \<Rightarrow> Panic | Diverge \<Rightarrow> Diverge) (\<lambda>ips.
        Ok (if length ips \<noteq> 0
            then [\<lparr>po_op = ''add'', po_path = path, po_value = PString (ip_string (ips ! intn (length ips)))\<rparr>]
            else [])))
      else Ok [])"

definition EgressGatewayMutate :: "codec \<Rightarrow> choices \<Rightarrow> file_config \<Rightarrow> admission_request \<Rightarrow> (denial, response) outcome" where
  "EgressGatewayMutate cdc ch cfg req = (case dec_gateway cdc (rq_object req) of
     None \<Rightarrow> Err UnmarshalErr
   | Some eg \<Rightarrow>
       oc_bind (if enable_ipv4 cfg
                then default_eip_patch (ch_order ch) (ch_intn4 ch) IPv4 (ipv4_default_eip (gw_pools eg)) (pool_ipv4 (gw_pools eg))
                       ''/spec/ippools/ipv4DefaultEIP'' else Ok []) (\<lambda>patch4.
       oc_bind (if enable_ipv6 cfg
                then default_eip_patch (ch_order ch) (ch_intn6 ch) IPv6 (ipv6_default_eip (gw_pools eg)) (pool_ipv6 (gw_pools eg))
                       ''/spec/ippools/ipv6DefaultEIP'' else Ok []) (\<lambda>patch6.
       let patchList = patch4 @ patch6 @
             (case getEgressGatewayFinalizerPatch req [egressGatewayFinalizers] of None \<Rightarrow> [] | Some p \<Rightarrow> [p])
       in Ok (if length patchList > 0 then Patched patchList else Allowed ''checked''))))"

end
