(* ===== verification/PolicyWebhook.thy ===== *)
theory PolicyWebhook
  imports GatewayWebhook
begin

text \<open>
  \<^verbatim>\<open>pkg/controller/webhook\<close>: the admission handlers of \<^verbatim>\<open>EgressPolicy\<close> and
  \<^verbatim>\<open>EgressClusterPolicy\<close> and the dispatch on the kind of the request. The client also reads
  namespaces, of which the labels matter.
\<close>

section \<open>Validation\<close>

record 'w hook_client = "'w client" +
  get_namespace :: "string \<Rightarrow> ('w, labels) api"

definition isIPv4_text :: "string \<Rightarrow> bool" where
  "isIPv4_text ip = (ParseIP ip \<noteq> nil_ip \<and> to4 (ParseIP ip) \<noteq> nil_ip)"

definition isIPv6_text :: "string \<Rightarrow> bool" where
  "isIPv6_text ip = (ParseIP ip \<noteq> nil_ip \<and> to4 (ParseIP ip) = nil_ip \<and> to16 (ParseIP ip) \<noteq> nil_ip)"

definition bad_subnet :: "string \<Rightarrow> bool" where
  "bad_subnet s = (case ParseCIDR s of None \<Rightarrow> True | Some (ip, _) \<Rightarrow> to4 ip = nil_ip \<and> to16 ip = nil_ip)"

definition validateSubnet :: "string list \<Rightarrow> (denial, response) outcome" where
  "validateSubnet subnet =
     (let invalidList = filter bad_subnet subnet in
      if length invalidList > 0 then Err (BadSubnets invalidList) else Ok (Allowed ''checked''))"

definition checkEGWIppools :: "('w, 'm) client_scheme \<Rightarrow> string \<Rightarrow> ('w, unit) hook" where
  "checkEGWIppools cli name =
     bindp (or_fail ClientErr (get_gateway cli name)) (\<lambda>egw.
     lift (require (\<not> (length (pool_ipv4 (gw_pools egw)) = 0 \<and> length (pool_ipv6 (gw_pools egw)) = 0)) PoolsEmpty))"

definition check_pairing :: "string \<Rightarrow> string \<Rightarrow> egress_gateway \<Rightarrow> (denial, unit) outcome" where
  "check_pairing eipIPV4 eipIPV6 egw =
     (let pools = gw_pools egw; d4 = ipv4_default_eip pools; d6 = ipv6_default_eip pools in
      oc_bind (require (\<not> (d4 \<noteq> [] \<and> d6 \<noteq> [] \<and> (eipIPV4 = d4 \<or> eipIPV6 = d6) \<and> (eipIPV4 \<noteq> d4 \<or> eipIPV6 \<noteq> d6))) DefaultsTogether) (\<lambda>_.
      oc_bind (let eips = GetEipByIPV4 eipIPV4 egw in
               require (\<not> (length (pool_ipv4 pools) > 0 \<and> length (eip_ipv6 eips) \<noteq> 0 \<and> eipIPV6 \<noteq> eip_ipv6 eips))
                 (PairedWith eipIPV4 (eip_ipv6 eips))) (\<lambda>_.
      let eips = GetEipByIPV6 eipIPV6 egw in
      require (\<not> (length (pool_ipv6 pools) > 0 \<and> length (eip_ipv4 eips) \<noteq> 0 \<and> eipIPV4 \<noteq> eip_ipv4 eips))
        (PairedWith eipIPV6 (eip_ipv4 eips)))))"

definition checkEIP :: "('w, 'm) client_scheme \<Rightarrow> string \<Rightarrow> string \<Rightarrow> string \<Rightarrow> ('w, unit) hook" where
  "checkEIP cli ipv4 ipv6 egwName =
     (if length ipv4 = 0 \<and> length ipv6 = 0 then ret ()
      else bindp (or_fail ClientErr (get_gateway cli egwName)) (\<lambda>egw. lift (check_pairing ipv4 ipv6 egw)))"

definition in_pools :: "string iter_order \<Rightarrow> string \<Rightarrow> string list \<Rightarrow> (denial, bool) outcome" where
  "in_pools ord ip ips = (if length ip \<noteq> 0 then oc_map_err CheckIPErr (CheckIPIncluded ord ip ips) else Ok True)"

definition checkEIPIncluded :: "string iter_order \<Rightarrow> ('w, 'm) client_scheme \<Rightarrow> string \<Rightarrow> string \<Rightarrow> string \<Rightarrow> ('w, bool) hook" where
  "checkEIPIncluded ord cli ipv4 ipv6 egwName =
     (if length ipv4 = 0 \<and> length ipv6 = 0 then ret True
      else
        bindp (attempt (get_gateway cli egwName)) (\<lambda>x.
        bindp (case x of Inr g \<Rightarrow> ret g | Inl e \<Rightarrow> if e \<noteq> NotFound then fail (ClientErr e) else ret zero_gateway) (\<lambda>egw.
        let pools = gw_pools egw; ips = pool_ipv4 pools @ pool_ipv6 pools in
        if length (pool_ipv4 pools) \<noteq> 0 \<or> length (pool_ipv6 pools) \<noteq> 0
        then lift (oc_bind (in_pools ord ipv4 ips) (\<lambda>ok. if \<not> ok then Ok False else in_pools ord ipv6 ips))
        else ret True)))"

text \<open>The checks that do not look at the cluster, in the order of the code.\<close>

definition check_spec :: "string \<Rightarrow> egress_ip \<Rightarrow> label_selector option \<Rightarrow> string list \<Rightarrow> (denial, unit) outcome" where
  "check_spec gatewayName eip podSelector podSubnet =
     oc_bind (require (\<not> length gatewayName = 0) GatewayNameEmpty) (\<lambda>_.
     oc_bind (require (\<not> (use_node_ip eip \<and> (length (ei_ipv4 eip) \<noteq> 0 \<or> length (ei_ipv6 eip) \<noteq> 0))) UseNodeIPWithIP) (\<lambda>_.
     oc_bind (require (\<not> (length (ei_ipv4 eip) \<noteq> 0 \<and> \<not> isIPv4_text (ei_ipv4 eip))) BadIPv4) (\<lambda>_.
     oc_bind (require (\<not> (length (ei_ipv6 eip) \<noteq> 0 \<and> \<not> isIPv6_text (ei_ipv6 eip))) BadIPv6) (\<lambda>_.
     oc_bind (require (\<not> ((case podSelector of None \<Rightarrow> False | Some s \<Rightarrow> length (match_labels s) \<noteq> 0) \<and> length podSubnet \<noteq> 0))
                SelectorAndSubnet) (\<lambda>_.
     require (\<not> (length podSubnet = 0 \<and> selector_empty podSelector)) NothingSelected)))))"

definition check_immutable :: "string \<Rightarrow> egress_ip \<Rightarrow> string \<Rightarrow> egress_ip \<Rightarrow> (denial, unit) outcome" where
  "check_immutable gatewayName eip oldName oldEip =
     oc_bind (require (gatewayName = oldName) (FieldImmutable ''EgressGatewayName'')) (\<lambda>_.
     oc_bind (require (use_node_ip eip = use_node_ip oldEip) (FieldImmutable ''UseNodeIP'')) (\<lambda>_.
     oc_bind (require (ei_ipv4 eip = ei_ipv4 oldEip) (FieldImmutable ''IPv4'')) (\<lambda>_.
     oc_bind (require (ei_ipv6 eip = ei_ipv6 oldEip) (FieldImmutable ''IPv6'')) (\<lambda>_.
     require (allocator_policy eip = allocator_policy oldEip) (FieldImmutable ''AllocatorPolicy'')))))"

text \<open>The checks of a creation against the gateway.\<close>

definition check_create :: "string iter_order \<Rightarrow> ('w, 'm) client_scheme \<Rightarrow> file_config \<Rightarrow> string \<Rightarrow> egress_ip \<Rightarrow> ('w, unit) hook" where
  "check_create ord cli cfg gatewayName eip =
     bindp (if enable_ipv4 cfg \<or> enable_ipv6 cfg then
              bindp (checkEIP cli (ei_ipv4 eip) (ei_ipv6 eip) gatewayName) (\<lambda>_.
              if \<not> use_node_ip eip then checkEGWIppools cli gatewayName else ret ())
            else ret ()) (\<lambda>_.
     bindp (checkEIPIncluded ord cli (ei_ipv4 eip) (ei_ipv6 eip) gatewayName) (\<lambda>ok.
     lift (require ok NotInPools)))"

definition validateEgressPolicy :: "codec \<Rightarrow> string iter_order \<Rightarrow> ('w, 'm) client_scheme \<Rightarrow> admission_request \<Rightarrow> file_config \<Rightarrow>
    ('w, response) hook" where
  "validateEgressPolicy cdc ord cli req cfg =
     (if rq_operation req = Delete then ret (Allowed ''checked'')
      else case dec_policy cdc (rq_object req) of
        None \<Rightarrow> fail UnmarshalErr
      | Some egp \<Rightarrow>
          let spec = ep_spec egp; eip = ep_egress_ip spec in
          bindp (lift (check_spec (ep_gateway_name spec) eip (pod_selector (ep_applied_to spec)) (pod_subnet (ep_applied_to spec)))) (\<lambda>_.
          bindp (if rq_operation req = Update then
                   (case dec_policy cdc (rq_old_object req) of
                      None \<Rightarrow> fail UnmarshalErr
                    | Some oldEgp \<Rightarrow> lift (check_immutable (ep_gateway_name spec) eip
                        (ep_gateway_name (ep_spec oldEgp)) (ep_egress_ip (ep_spec oldEgp))))
                 else ret ()) (\<lambda>_.
          bindp (if rq_operation req = Create then check_create ord cli cfg (ep_gateway_name spec) eip else ret ()) (\<lambda>_.
          lift (validateSubnet (ep_dest_subnet spec))))))"

definition validateEgressClusterPolicy :: "codec \<Rightarrow> string iter_order \<Rightarrow> ('w, 'm) client_scheme \<Rightarrow> admission_request \<Rightarrow> file_config \<Rightarrow>
    ('w, response) hook" where
  "validateEgressClusterPolicy cdc ord cli req cfg =
     (if rq_operation req = Delete then ret (Allowed ''checked'')
      else case dec_cpolicy cdc (rq_object req) of
        None \<Rightarrow> fail UnmarshalErr
      | Some policy \<Rightarrow>
          let spec = ecp_spec policy; eip = ecp_egress_ip spec;
              podSubnet = (case cpod_subnet (ecp_applied_to spec) of None \<Rightarrow> [] | Some s \<Rightarrow> s) in
          bindp (lift (check_spec (ecp_gateway_name spec) eip (cpod_selector (ecp_applied_to spec)) podSubnet)) (\<lambda>_.
          bindp (if rq_operation req = Update then
                   (case dec_cpolicy cdc (rq_old_object req) of
                      None \<Rightarrow> fail UnmarshalErr
                    | Some oldPolicy \<Rightarrow> lift (check_immutable (ecp_gateway_name spec) eip
                        (ecp_gateway_name (ecp_spec oldPolicy)) (ecp_egress_ip (ecp_spec oldPolicy))))
                 else ret ()) (\<lambda>_.
          bindp (if rq_operation req = Create then check_create ord cli cfg (ecp_gateway_name spec) eip else ret ()) (\<lambda>_.
          lift (validateSubnet (ecp_dest_subnet spec))))))"

definition ValidateHook :: "codec \<Rightarrow> string iter_order \<Rightarrow> ('w, 'm) client_scheme \<Rightarrow> file_config \<Rightarrow> admission_request \<Rightarrow>
    ('w, denial, response) prog" where
  "ValidateHook cdc ord cli cfg req =
     respond (
       if rq_kind req = ''EgressClusterInfo'' then
         (if rq_operation req = Delete then fail ClusterInfoDelete else ret (Allowed ''checked''))
       else if rq_kind req = ''EgressGateway'' then EgressGatewayValidate cdc ord cli cfg req
       else if rq_kind req = ''EgressClusterPolicy'' then validateEgressClusterPolicy cdc ord cli req cfg
       else if rq_kind req = ''EgressPolicy'' then validateEgressPolicy cdc ord cli req cfg
       else ret (Allowed ''checked''))"

section \<open>Mutation\<close>

definition gateway_name_patch :: "string \<Rightarrow> patch_operation" where
  "gateway_name_patch name = \<lparr>po_op = ''add'', po_path = ''/spec/egressGatewayName'', po_value = PString name\<rparr>"

definition egress_ip_patch :: patch_operation where
  "egress_ip_patch = \<lparr>po_op = ''add'', po_path = ''/spec/egressIP'',
     po_value = PEgressIP \<lparr>ei_ipv4 = [], ei_ipv6 = [], use_node_ip = False, allocator_policy = ''default''\<rparr>\<rparr>"

definition LabelNamespaceEgressGatewayDefault :: string where
  "LabelNamespaceEgressGatewayDefault = ''spidernet.io/egressgateway-default''"

text \<open>The loop keeps the name of the last default gateway of the list.\<close>

definition getGlobalDefaultEgwPatch :: "('w, 'm) client_scheme \<Rightarrow> ('w, patch_operation option) hook" where
  "getGlobalDefaultEgwPatch cli =
     bindp (attempt (list_gateways cli)) (\<lambda>x. case x of
       Inl e \<Rightarrow> if e = NotFound then ret None else fail (ClientErr e)
     | Inr items \<Rightarrow>
         let name = fold (\<lambda>item name. if cluster_default (gw_spec item) then gw_name item else name) items [] in
         ret (if name = [] then None else Some (gateway_name_patch name)))"

definition patches_of :: "patch_operation option \<Rightarrow> egress_ip \<Rightarrow> response" where
  "patches_of p eip =
     (let patchList = (case p of None \<Rightarrow> [] | Some q \<Rightarrow> [q]) @ (if IsEmpty eip then [egress_ip_patch] else []) in
      if length patchList > 0 then Patched patchList else Allowed ''skipped'')"

definition mutateHookEgressPolicy :: "codec \<Rightarrow> admission_request \<Rightarrow> 'w hook_client \<Rightarrow> ('w, response) hook" where
  "mutateHookEgressPolicy cdc req cli = (case dec_policy cdc (rq_object req) of
     None \<Rightarrow> fail UnmarshalErr
   | Some policy \<Rightarrow>
       bindp (if ep_gateway_name (ep_spec policy) = [] then
                bindp (or_fail ClientErr (get_namespace cli (om_namespace (ep_meta policy)))) (\<lambda>labels.
                case map_of labels LabelNamespaceEgressGatewayDefault of
                  None \<Rightarrow> getGlobalDefaultEgwPatch cli
                | Some egw \<Rightarrow> if egw = [] then getGlobalDefaultEgwPatch cli else ret (Some (gateway_name_patch egw)))
              else ret None) (\<lambda>p.
       ret (patches_of p (ep_egress_ip (ep_spec policy)))))"

definition mutateHookEgressClusterPolicy :: "codec \<Rightarrow> admission_request \<Rightarrow> 'w hook_client \<Rightarrow> ('w, response) hook" where
  "mutateHookEgressClusterPolicy cdc req cli = (case dec_cpolicy cdc (rq_object req) of
     None \<Rightarrow> fail UnmarshalErr
   | Some policy \<Rightarrow>
       bindp (if ecp_gateway_name (ecp_spec policy) = [] then getGlobalDefaultEgwPatch cli else ret None) (\<lambda>p.
       ret (patches_of p (ecp_egress_ip (ecp_spec policy)))))"

definition MutateHook :: "codec \<Rightarrow> choices \<Rightarrow> 'w hook_client \<Rightarrow> file_config \<Rightarrow> admission_request \<Rightarrow> ('w, denial, response) prog" where
  "MutateHook cdc ch cli cfg req =
     respond (
       if rq_kind req = ''EgressGateway'' then lift (EgressGatewayMutate cdc ch cfg req)
       else if rq_kind req = ''EgressPolicy'' then mutateHookEgressPolicy cdc req cli
       else if rq_kind req = ''EgressClusterPolicy'' then mutateHookEgressClusterPolicy cdc req cli
       else ret (Allowed ''checked''))"

end
