(* ===== verification/WebhookProps.thy ===== *)
theory WebhookProps
  imports PolicyWebhook ApiStore IPProps
begin

text \<open>
  The properties of the admission webhooks. A locale states what an admission control must check so
  that a cluster which only stores admitted objects keeps pairwise compatible gateways; the gateway
  webhook is an instance. Further properties say what an admitted gateway or policy satisfies, and
  what the mutating webhook fills in.
\<close>

section \<open>Admission control\<close>

text \<open>Storing an object replaces the object of the same name.\<close>

definition put :: "('g \<Rightarrow> string) \<Rightarrow> 'g \<Rightarrow> 'g list \<Rightarrow> 'g list" where
  "put nm g gs = (if nm g \<in> nm ` set gs then map (\<lambda>h. if nm h = nm g then g else h) gs else gs @ [g])"

text \<open>
  The stored objects of a cluster: admitted writes, deletions, and updates of the status, which do
  not pass the webhook.
\<close>

inductive admitted_states :: "('g \<Rightarrow> string) \<Rightarrow> ('g list \<Rightarrow> 'g \<Rightarrow> bool) \<Rightarrow> ('g \<Rightarrow> 'g \<Rightarrow> bool) \<Rightarrow> 'g list \<Rightarrow> bool"
  for nm admits same where
  empty_cluster: "admitted_states nm admits same []"
| write_object: "admitted_states nm admits same gs \<Longrightarrow> admits gs g \<Longrightarrow> admitted_states nm admits same (put nm g gs)"
| delete_object: "admitted_states nm admits same gs \<Longrightarrow> admitted_states nm admits same (filter (\<lambda>h. nm h \<noteq> n) gs)"
| update_status: "admitted_states nm admits same gs \<Longrightarrow> i < length gs \<Longrightarrow> same (gs ! i) g \<Longrightarrow>
    admitted_states nm admits same (gs[i := g])"

lemma put_names: "map nm (put nm g gs) = (if nm g \<in> nm ` set gs then map nm gs else map nm gs @ [nm g])"
  by (auto simp: put_def)

lemma put_members: "h \<in> set (put nm g gs) \<Longrightarrow> h = g \<or> h \<in> set gs \<and> nm h \<noteq> nm g"
  by (cases "nm g \<in> nm ` set gs") (auto simp: put_def image_iff split: if_splits)

locale admission =
  fixes nm :: "'g \<Rightarrow> string"
    and admits :: "'g list \<Rightarrow> 'g \<Rightarrow> bool"
    and same :: "'g \<Rightarrow> 'g \<Rightarrow> bool"
    and compat :: "'g \<Rightarrow> 'g \<Rightarrow> bool"
  assumes admits_compat: "distinct (map nm gs) \<Longrightarrow> admits gs g \<Longrightarrow> h \<in> set gs \<Longrightarrow> nm h \<noteq> nm g \<Longrightarrow> compat g h"
    and compat_sym: "compat g h \<Longrightarrow> compat h g"
    and same_name: "same g g' \<Longrightarrow> nm g' = nm g"
    and same_compat: "same g g' \<Longrightarrow> compat g h \<Longrightarrow> compat g' h"
begin

lemma names_distinct: "admitted_states nm admits same gs \<Longrightarrow> distinct (map nm gs)"
proof (induction rule: admitted_states.induct)
  case (write_object gs g)
  then show ?case by (auto simp: put_names)
next
  case (update_status gs i g)
  then have "map nm (gs[i := g]) = map nm gs" using same_name by (simp add: map_update list_update_same_conv)
  then show ?case using update_status.IH by simp
qed (auto simp: distinct_map intro: inj_on_subset)

lemma states_compat: "admitted_states nm admits same gs \<Longrightarrow> g \<in> set gs \<Longrightarrow> h \<in> set gs \<Longrightarrow> nm g \<noteq> nm h \<Longrightarrow> compat g h"
proof (induction arbitrary: g h rule: admitted_states.induct)
  case (write_object gs x)
  have "compat x k" if "k \<in> set gs" "nm k \<noteq> nm x" for k
    using admits_compat [OF names_distinct [OF write_object.hyps(1)] write_object.hyps(2) that] .
  then show ?case using put_members [OF write_object.prems(1)] put_members [OF write_object.prems(2)] write_object
      compat_sym by metis
next
  case (update_status gs i x)
  have x: "nm x = nm (gs ! i)" using same_name [OF update_status.hyps(3)] .
  have k: "compat x k" if "k \<in> set gs" "nm k \<noteq> nm x" for k
    using same_compat [OF update_status.hyps(3)] update_status.IH [of "gs ! i" k] update_status.hyps(2) that x by simp
  have "g = x \<or> g \<in> set gs" "h = x \<or> h \<in> set gs"
    using update_status.prems set_update_subset_insert [of gs i x] by auto
  then show ?case using k update_status.IH update_status.prems compat_sym by metis
qed auto

end

section \<open>Running the handlers\<close>

lemma bindp_eq_Ok: "bindp m f w = (Ok y, w') \<longleftrightarrow> (\<exists>x w1. m w = (Ok x, w1) \<and> f x w1 = (Ok y, w'))"
  by (auto simp: bindp_def split: prod.splits outcome.splits)

lemma lift_Ok: "lift r w = (Ok x, w') \<longleftrightarrow> r = Ok x \<and> w' = w"
  by (auto simp: lift_def)

lemma ret_Ok: "ret x w = (Ok y, w') \<longleftrightarrow> y = x \<and> w' = w"
  by (auto simp: ret_def)

lemma fail_Ok: "fail e w \<noteq> (Ok y, w')"
  by (simp add: fail_def)

lemma or_fail_Ok: "or_fail g m w = (Ok x, w') \<longleftrightarrow> m w = (Ok x, w')"
  by (auto simp: or_fail_def split: prod.splits)

lemma respond_Allowed: "respond m w = (Ok (Allowed a), w') \<longleftrightarrow> m w = (Ok (Allowed a), w')"
  by (auto simp: respond_def split: prod.splits outcome.splits)

lemma require_Ok: "require b d = Ok u \<longleftrightarrow> b"
  by (simp add: require_def)

lemmas hook_Ok = bindp_eq_Ok lift_Ok ret_Ok fail_Ok or_fail_Ok respond_Allowed require_Ok

lemma store_list: "list_gateways store_client w = (Ok (s_gateways w), w)"
  by (simp add: store_client_def)

lemma store_get: "get_gateway store_client nm w = (find_or (\<lambda>g. gw_name g = nm) (s_gateways w), w)"
  by (simp add: store_client_def)

section \<open>What an admitted gateway satisfies\<close>

definition gateway_addrs :: "string iter_order \<Rightarrow> egress_gateway \<Rightarrow> string set" where
  "gateway_addrs ord g = (case gateway_ips ord g of
     Ok (ipv4s, ipv6s) \<Rightarrow> ip_string ` (set ipv4s \<union> set ipv6s) | _ \<Rightarrow> {})"

definition allowed_gateway :: "codec \<Rightarrow> string iter_order \<Rightarrow> file_config \<Rightarrow> admission_request \<Rightarrow> store \<Rightarrow> egress_gateway \<Rightarrow> bool" where
  "allowed_gateway cdc ord cfg req w g \<longleftrightarrow>
     rq_kind req = ''EgressGateway'' \<and> rq_operation req \<in> {Create, Update} \<and> dec_gateway cdc (rq_object req) = Some g \<and>
     ValidateHook cdc ord store_client cfg req w = (Ok (Allowed ''checked''), w)"

lemma check_default_store:
  "check_default store_client g w = (Ok u, w') \<longleftrightarrow> w' = w \<and>
     (cluster_default (gw_spec g) \<longrightarrow> (\<forall>h \<in> set (s_gateways w). cluster_default (gw_spec h) \<longrightarrow> gw_name h = gw_name g))"
  by (auto simp: check_default_def hook_Ok store_list find_None_iff find_Some_iff split: option.splits)

lemma EgressGatewayValidate_store:
  assumes "allowed_gateway cdc ord cfg req w g"
  obtains rs4 rs6 ips4 ips6 m where
    "cluster_default (gw_spec g) \<longrightarrow> (\<forall>h \<in> set (s_gateways w). cluster_default (gw_spec h) \<longrightarrow> gw_name h = gw_name g)"
    "enable_ipv4 cfg \<and> \<not> enable_ipv6 cfg \<longrightarrow> pool_ipv6 (gw_pools g) = []"
    "\<not> enable_ipv4 cfg \<and> enable_ipv6 cfg \<longrightarrow> pool_ipv4 (gw_pools g) = []"
    "MergeIPRanges ord IPv4 (pool_ipv4 (gw_pools g)) = Ok rs4" "MergeIPRanges ord IPv6 (pool_ipv6 (gw_pools g)) = Ok rs6"
    "if enable_ipv4 cfg then ParseIPRanges IPv4 rs4 = Ok ips4 else ips4 = []"
    "if enable_ipv6 cfg then ParseIPRanges IPv6 rs6 = Ok ips6 else ips6 = []"
    "must_cover ord IPv4 (ipv4_default_eip (gw_pools g)) rs4 (NotCovered (ipv4_default_eip (gw_pools g))) = Ok ()"
    "must_cover ord IPv6 (ipv6_default_eip (gw_pools g)) rs6 (NotCovered (ipv6_default_eip (gw_pools g))) = Ok ()"
    "buildClusterIPMap ord (s_gateways w) (gw_name g) = Ok m" "checkDupIP ord ips4 ips6 m = Ok ()"
    "rq_operation req = Update \<longrightarrow> (\<exists>w'. check_update ord store_client req g rs4 rs6 w = (Ok (), w'))"
proof -
  have v: "EgressGatewayValidate cdc ord store_client cfg req w = (Ok (Allowed ''checked''), w)" "rq_operation req \<noteq> Delete"
      "dec_gateway cdc (rq_object req) = Some g"
    using assms by (auto simp: allowed_gateway_def ValidateHook_def respond_Allowed)
  show thesis
    using v(1) unfolding EgressGatewayValidate_def Let_def if_not_P [OF v(2)] v(3) option.case bindp_eq_Ok lift_Ok ret_Ok or_fail_Ok
      check_default_store store_list require_Ok oc_map_err_eq_Ok
    by (elim exE conjE, intro that) (auto split: if_splits)
qed

section \<open>Gateways do not share addresses\<close>

lemma cluster_map_entries:
  "cluster_map_from ord skip items m = Ok m' \<Longrightarrow> distinct (map gw_name items) \<Longrightarrow>
   (\<forall>h \<in> set items. gw_name h \<noteq> skip \<longrightarrow> (\<exists>ips4 ips6. gateway_ips ord h = Ok (ips4, ips6) \<and>
      map_of m' (gw_name h) = Some (map_keys (map ip_string ips4 @ map ip_string ips6)))) \<and>
   (\<forall>k. k \<notin> gw_name ` set items \<longrightarrow> map_of m' k = map_of m k)"
proof (induction items arbitrary: m)
  case (Cons g items)
  show ?case
  proof (cases "gw_name g = skip")
    case True
    then show ?thesis using Cons by auto
  next
    case False
    then obtain ips4 ips6 where v: "gateway_ips ord g = Ok (ips4, ips6)"
        "cluster_map_from ord skip items (AList.update (gw_name g) (map_keys (map ip_string ips4 @ map ip_string ips6)) m) = Ok m'"
      using Cons.prems(1) by auto
    from Cons.IH [OF v(2)] Cons.prems(2) v(1) show ?thesis by (auto simp: update_conv')
  qed
qed simp

lemma holder_None:
  assumes "map_iteration ord" "holder ord m addr = None" "map_of m k = Some gw"
  shows "addr \<notin> set gw"
proof -
  have "k \<in> set (ord (map fst m))"
    using map_iteration.set_visits [OF assms(1)] map_of_SomeD [OF assms(3)] by force
  then show ?thesis using assms(2,3) by (auto simp: holder_def find_None_iff)
qed

lemma check_addrs_Ok: "check_addrs ord m vs = Ok u \<longleftrightarrow> (\<forall>v \<in> set vs. holder ord m (ip_string v) = None)"
  by (induction vs) (auto split: option.splits)

lemma checkDupIP_Ok: "checkDupIP ord ips4 ips6 m = Ok u \<longleftrightarrow> (\<forall>v \<in> set ips4 \<union> set ips6. holder ord m (ip_string v) = None)"
  by (auto simp: checkDupIP_def check_addrs_Ok)

lemma MergeIPRanges_Nil: "map_iteration ord \<Longrightarrow> ver \<in> {IPv4, IPv6} \<Longrightarrow> MergeIPRanges ord ver [] = Ok []"
proof -
  assume ord: "map_iteration ord" and ver: "ver \<in> {IPv4, IPv6}"
  have "ord [] = ([] :: string list)" using map_iteration.length_visits [OF ord, of "[]"] by simp
  then show ?thesis using ver
    by (auto simp: MergeIPRanges_def ConvertCidrOrIPrangeToIPs_def ConvertIPsToIPRanges_def CidrsToIPs_def put_ips_def
        range_values_def List.map_filter_def map_keys_def IsIPVersion_def ranges_from.simps)
qed

text \<open>The addresses of a gateway with at least one address family enabled.\<close>

lemma allowed_gateway_ips:
  assumes "map_iteration ord" "enable_ipv4 cfg \<or> enable_ipv6 cfg" "allowed_gateway cdc ord cfg req w g"
  obtains ips4 ips6 m where "gateway_ips ord g = Ok (ips4, ips6)" "buildClusterIPMap ord (s_gateways w) (gw_name g) = Ok m"
    "checkDupIP ord ips4 ips6 m = Ok ()"
    "cluster_default (gw_spec g) \<longrightarrow> (\<forall>h \<in> set (s_gateways w). cluster_default (gw_spec h) \<longrightarrow> gw_name h = gw_name g)"
proof (rule EgressGatewayValidate_store [OF assms(3)])
  fix rs4 rs6 ips4 ips6 m
  assume d: "cluster_default (gw_spec g) \<longrightarrow> (\<forall>h \<in> set (s_gateways w). cluster_default (gw_spec h) \<longrightarrow> gw_name h = gw_name g)"
    and p: "enable_ipv4 cfg \<and> \<not> enable_ipv6 cfg \<longrightarrow> pool_ipv6 (gw_pools g) = []"
      "\<not> enable_ipv4 cfg \<and> enable_ipv6 cfg \<longrightarrow> pool_ipv4 (gw_pools g) = []"
    and r: "MergeIPRanges ord IPv4 (pool_ipv4 (gw_pools g)) = Ok rs4" "MergeIPRanges ord IPv6 (pool_ipv6 (gw_pools g)) = Ok rs6"
    and v: "if enable_ipv4 cfg then ParseIPRanges IPv4 rs4 = Ok ips4 else ips4 = []"
      "if enable_ipv6 cfg then ParseIPRanges IPv6 rs6 = Ok ips6 else ips6 = []"
    and m: "buildClusterIPMap ord (s_gateways w) (gw_name g) = Ok m" "checkDupIP ord ips4 ips6 m = Ok ()"
  have "ParseIPRanges IPv4 rs4 = Ok ips4"
    using v(1) p(2) assms(2) r(1) MergeIPRanges_Nil [OF assms(1), of IPv4] by (cases "enable_ipv4 cfg") auto
  moreover have "ParseIPRanges IPv6 rs6 = Ok ips6"
    using v(2) p(1) assms(2) r(2) MergeIPRanges_Nil [OF assms(1), of IPv6] by (cases "enable_ipv6 cfg") auto
  ultimately have "gateway_ips ord g = Ok (ips4, ips6)" using r by (simp add: gateway_ips_def)
  then show thesis using that m d by blast
qed

definition compatible :: "string iter_order \<Rightarrow> egress_gateway \<Rightarrow> egress_gateway \<Rightarrow> bool" where
  "compatible ord g h \<longleftrightarrow> \<not> (cluster_default (gw_spec g) \<and> cluster_default (gw_spec h)) \<and>
     gateway_addrs ord g \<inter> gateway_addrs ord h = {}"

lemma allowed_compatible:
  assumes "map_iteration ord" "enable_ipv4 cfg \<or> enable_ipv6 cfg" "allowed_gateway cdc ord cfg req w g"
    and "distinct (map gw_name (s_gateways w))" "h \<in> set (s_gateways w)" "gw_name h \<noteq> gw_name g"
  shows "compatible ord g h"
proof (rule allowed_gateway_ips [OF assms(1-3)])
  fix ips4 ips6 m
  assume g: "gateway_ips ord g = Ok (ips4, ips6)" and b: "buildClusterIPMap ord (s_gateways w) (gw_name g) = Ok m"
    and c: "checkDupIP ord ips4 ips6 m = Ok ()"
    and d: "cluster_default (gw_spec g) \<longrightarrow> (\<forall>h \<in> set (s_gateways w). cluster_default (gw_spec h) \<longrightarrow> gw_name h = gw_name g)"
  obtain h4 h6 where h: "gateway_ips ord h = Ok (h4, h6)" "map_of m (gw_name h) = Some (map_keys (map ip_string h4 @ map ip_string h6))"
    using cluster_map_entries [OF b [unfolded buildClusterIPMap_def] assms(4)] assms(5,6) by blast
  have "ip_string v \<notin> gateway_addrs ord h" if "v \<in> set ips4 \<union> set ips6" for v
    using holder_None [OF assms(1) _ h(2), of "ip_string v"] c that h(1)
    by (simp add: checkDupIP_Ok gateway_addrs_def image_Un)
  then have "gateway_addrs ord g \<inter> gateway_addrs ord h = {}" using g by (auto simp: gateway_addrs_def)
  then show ?thesis using d assms(5,6) by (auto simp: compatible_def)
qed

text \<open>The admission control of the gateway webhook, for a configuration and a map order.\<close>

definition hook_admits :: "string iter_order \<Rightarrow> file_config \<Rightarrow> egress_gateway list \<Rightarrow> egress_gateway \<Rightarrow> bool" where
  "hook_admits ord cfg gs g \<longleftrightarrow> (\<exists>cdc req w. s_gateways w = gs \<and> allowed_gateway cdc ord cfg req w g)"

definition same_spec :: "egress_gateway \<Rightarrow> egress_gateway \<Rightarrow> bool" where
  "same_spec g g' \<longleftrightarrow> gw_name g' = gw_name g \<and> gw_spec g' = gw_spec g"

lemma gateway_addrs_spec: "gw_spec g = gw_spec h \<Longrightarrow> gateway_addrs ord g = gateway_addrs ord h"
  by (simp add: gateway_addrs_def gateway_ips_def)

lemma hook_admission:
  assumes "map_iteration ord" "enable_ipv4 cfg \<or> enable_ipv6 cfg"
  shows "admission gw_name (hook_admits ord cfg) same_spec (compatible ord)"
proof
  show "compatible ord g h" if "distinct (map gw_name gs)" "hook_admits ord cfg gs g" "h \<in> set gs" "gw_name h \<noteq> gw_name g" for gs g h
    using that allowed_compatible [OF assms] by (auto simp: hook_admits_def)
  show "compatible ord h g" if "compatible ord g h" for g h using that by (auto simp: compatible_def)
  show "gw_name g' = gw_name g" if "same_spec g g'" for g g' using that by (simp add: same_spec_def)
  show "compatible ord g' h" if "same_spec g g'" "compatible ord g h" for g g' h
    using that gateway_addrs_spec [of g' g ord] by (simp add: same_spec_def compatible_def)
qed

definition dual_stack :: file_config where
  "dual_stack = \<lparr>enable_ipv4 = True, enable_ipv6 = True\<rparr>"

interpretation gateways: admission gw_name "hook_admits (\<lambda>ks. ks) dual_stack" same_spec "compatible (\<lambda>ks. ks)"
  by (rule hook_admission) (simp_all add: insertion_order.map_iteration_axioms dual_stack_def)

section \<open>Properties\<close>


definition ex_gw :: "string \<Rightarrow> string list \<Rightarrow> string \<Rightarrow> bool \<Rightarrow> egress_gateway" where
  "ex_gw n pool d dflt = zero_gateway\<lparr>gw_meta := (gw_meta zero_gateway)\<lparr>om_name := n\<rparr>,
     gw_spec := \<lparr>cluster_default = dflt, gw_ippools = \<lparr>pool_ipv4 = pool, pool_ipv6 = [], ipv4_default_eip = d, ipv6_default_eip = []\<rparr>,
       gw_node_selector = \<lparr>sel_policy = [], sel_selector = Some \<lparr>match_labels = [(''egress'', ''true'')], match_expressions = []\<rparr>\<rparr>\<rparr>\<rparr>"

definition ex_codec :: "egress_gateway \<Rightarrow> codec" where
  "ex_codec g = \<lparr>dec_gateway = (\<lambda>_. Some g), dec_policy = (\<lambda>_. None), dec_cpolicy = (\<lambda>_. None)\<rparr>"

definition ex_req :: "string \<Rightarrow> operation \<Rightarrow> string \<Rightarrow> admission_request" where
  "ex_req k op n = \<lparr>rq_kind = k, rq_operation = op, rq_name = n, rq_namespace = [], rq_object = [], rq_old_object = []\<rparr>"

lemma ex_merge_one: "MergeIPRanges (\<lambda>ks. ks) IPv4 [''10.6.1.20''] = Ok [''10.6.1.20'']"
proof -
  have c: "ConvertCidrOrIPrangeToIPs (\<lambda>ks. ks) [''10.6.1.20''] IPv4 = Ok [ip4 168165652]"
    by (simp add: ip_eval ip4_def)
  have s: "ip_string (ip4 168165652) = ''10.6.1.20''" by (simp add: ip_eval ip4_def)
  have p: "ParseIP ''10.6.1.20'' = ip4 168165652" by (simp add: ip_eval ip4_def)
  show ?thesis using c
    by (simp add: MergeIPRanges_def ConvertIPsToIPRanges_def IsIPVersion_def IPv4_def IPv6_def ranges_from.simps s p map_keys_def add_key_def)
qed

lemma ex_parse_one: "ParseIPRange IPv4 ''10.6.1.20'' = Ok [ip4 168165652]"
  by (simp add: ip_eval ip4_def)

lemmas hook_eval = allowed_gateway_def ex_req_def ex_codec_def ValidateHook_def respond_def EgressGatewayValidate_def
  prog_defs ex_gw_def zero_gateway_def selector_empty_def require_def check_default_def store_client_def dual_stack_def
  ex_merge_one ex_parse_one MergeIPRanges_Nil [OF insertion_order.map_iteration_axioms] must_cover_def buildClusterIPMap_def
  gateway_ips_def checkDupIP_def holder_def Let_def

definition ex_store :: "egress_gateway list \<Rightarrow> store" where
  "ex_store gs = \<lparr>s_gateways = gs, s_policies = [], s_cpolicies = [], s_tunnels = [], s_nodes = []\<rparr>"




lemma must_cover_Ok: "must_cover ord ver s rs d = Ok u \<longleftrightarrow> s = [] \<or> IsIPIncludedRange ord ver s rs = Ok True"
  by (auto simp: must_cover_def split: if_splits)

text \<open>C27. The default egress IPs of an admitted gateway, where they are set as single addresses, are
  addresses of its own pools.\<close>

theorem allowed_gateway_default_eip:
  assumes "map_iteration ord" "allowed_gateway cdc ord cfg req w g"
    and "ConvertCidrOrIPrangeToIPs ord (pool_ipv4 (gw_pools g)) IPv4 = Ok ips4" "\<forall>ip \<in> set ips4. ipToInt ip + 1 < 2 ^ 32"
    and "ConvertCidrOrIPrangeToIPs ord (pool_ipv6 (gw_pools g)) IPv6 = Ok ips6" "\<forall>ip \<in> set ips6. ipToInt ip + 1 < 2 ^ 128"
    and "CHR ''-'' \<notin> set (ipv4_default_eip (gw_pools g))" "CHR ''-'' \<notin> set (ipv6_default_eip (gw_pools g))"
  shows "(ipv4_default_eip (gw_pools g) \<noteq> [] \<longrightarrow> ParseIP (ipv4_default_eip (gw_pools g)) \<in> to16 ` set ips4) \<and>
    (ipv6_default_eip (gw_pools g) \<noteq> [] \<longrightarrow> ParseIP (ipv6_default_eip (gw_pools g)) \<in> to16 ` set ips6)"
proof (rule EgressGatewayValidate_store [OF assms(2)])
  fix rs4 rs6
  assume r: "MergeIPRanges ord IPv4 (pool_ipv4 (gw_pools g)) = Ok rs4" "MergeIPRanges ord IPv6 (pool_ipv6 (gw_pools g)) = Ok rs6"
    and c: "must_cover ord IPv4 (ipv4_default_eip (gw_pools g)) rs4 (NotCovered (ipv4_default_eip (gw_pools g))) = Ok ()"
      "must_cover ord IPv6 (ipv6_default_eip (gw_pools g)) rs6 (NotCovered (ipv6_default_eip (gw_pools g))) = Ok ()"
  show ?thesis
    using ip_pool.included_merged [OF pool_v4 [OF assms(1)] assms(3) r(1) assms(4,7)]
      ip_pool.included_merged [OF pool_v6 [OF assms(1)] assms(5) r(2) assms(6,8)] c
    by (auto simp: must_cover_Ok)
qed

lemma ex_single:
  "ConvertCidrOrIPrangeToIPs (\<lambda>ks. ks) [''10.6.1.20''] IPv4 = Ok [ip4 168165652]"
  "ParseIP ''10.6.1.20'' = ip4 168165652" "ipToInt (ip4 168165652) = 168165652"
  "ConvertCidrOrIPrangeToIPs (\<lambda>ks. ks) [] IPv6 = Ok []"
  using ipToInt_ip4 [of 168165652] by (simp_all add: ip_eval ip4_def)

lemma ex_included: "IsIPIncludedRange (\<lambda>ks. ks) IPv4 ''10.6.1.20'' [''10.6.1.20''] = Ok True"
  using IsIPIncludedRange_v4 [OF insertion_order.map_iteration_axioms _ _ ex_single(1), of "''10.6.1.20''"]
  by (simp add: ex_single gov_IsIPv4_def)

theorem allowed_gateway_default_eip_witness:
  "let g = ex_gw ''a'' [''10.6.1.20''] ''10.6.1.20'' True in
   allowed_gateway (ex_codec g) (\<lambda>ks. ks) dual_stack (ex_req ''EgressGateway'' Create ''a'') (ex_store []) g \<and>
   ParseIP (ipv4_default_eip (gw_pools g)) \<in> to16 ` {ip4 168165652}"
proof -
  let ?g = "ex_gw ''a'' [''10.6.1.20''] ''10.6.1.20'' True"
  have a: "allowed_gateway (ex_codec ?g) (\<lambda>ks. ks) dual_stack (ex_req ''EgressGateway'' Create ''a'') (ex_store []) ?g"
    by (simp add: hook_eval ex_store_def ex_included)
  show ?thesis
    using allowed_gateway_default_eip [OF insertion_order.map_iteration_axioms a, of "[ip4 168165652]" "[]"] a
    by (simp add: ex_single ex_gw_def Let_def)
qed

text \<open>C26. An admitted update of a gateway keeps in its pools every address that the stored status of the
  gateway has allocated.\<close>

theorem allowed_update_keeps_allocated:
  assumes "map_iteration ord" "allowed_gateway cdc ord cfg req w g" "rq_operation req = Update"
    and "find (\<lambda>h. gw_name h = rq_name req) (s_gateways w) = Some old"
    and "ConvertCidrOrIPrangeToIPs ord (pool_ipv4 (gw_pools g)) IPv4 = Ok ips4" "\<forall>ip \<in> set ips4. ipToInt ip + 1 < 2 ^ 32"
    and "ConvertCidrOrIPrangeToIPs ord (pool_ipv6 (gw_pools g)) IPv6 = Ok ips6" "\<forall>ip \<in> set ips6. ipToInt ip + 1 < 2 ^ 128"
    and "n \<in> set (gw_nodes old)" "e \<in> set (en_eips n)" "CHR ''-'' \<notin> set (eip_ipv4 e)" "CHR ''-'' \<notin> set (eip_ipv6 e)"
  shows "(eip_ipv4 e \<noteq> [] \<longrightarrow> ParseIP (eip_ipv4 e) \<in> to16 ` set ips4) \<and>
    (eip_ipv6 e \<noteq> [] \<longrightarrow> ParseIP (eip_ipv6 e) \<in> to16 ` set ips6)"
proof (rule EgressGatewayValidate_store [OF assms(2)])
  fix rs4 rs6
  assume r: "MergeIPRanges ord IPv4 (pool_ipv4 (gw_pools g)) = Ok rs4" "MergeIPRanges ord IPv6 (pool_ipv6 (gw_pools g)) = Ok rs6"
    and u: "rq_operation req = Update \<longrightarrow> (\<exists>w'. check_update ord store_client req g rs4 rs6 w = (Ok (), w'))"
  obtain us where "oc_mapM (check_allocated ord rs4 rs6) (concat (map en_eips (gw_nodes old))) = Ok us"
    using u assms(3,4) by (auto simp: check_update_def bindp_eq_Ok attempt_def store_get find_or_def ret_Ok lift_Ok)
  moreover have "e \<in> set (concat (map en_eips (gw_nodes old)))" using assms(9,10) by auto
  ultimately have "check_allocated ord rs4 rs6 e = Ok ()" using oc_mapM_member by fastforce
  then have c: "eip_ipv4 e = [] \<or> IsIPIncludedRange ord IPv4 (eip_ipv4 e) rs4 = Ok True"
      "eip_ipv6 e = [] \<or> IsIPIncludedRange ord IPv6 (eip_ipv6 e) rs6 = Ok True"
    by (auto simp: check_allocated_def must_cover_Ok split: if_splits)
  show ?thesis
    using ip_pool.included_merged [OF pool_v4 [OF assms(1)] assms(5) r(1) assms(6,11)]
      ip_pool.included_merged [OF pool_v6 [OF assms(1)] assms(7) r(2) assms(8,12)] c by blast
qed

definition ex_old :: egress_gateway where
  "ex_old = (ex_gw ''a'' [''10.6.1.20''] [] True)\<lparr>gw_status := \<lparr>node_list =
     [\<lparr>en_name = ''n1'', en_eips = [\<lparr>eip_ipv4 = ''10.6.1.20'', eip_ipv6 = [], eip_policies = [\<lparr>policy_name = ''p'', policy_namespace = ''d''\<rparr>]\<rparr>],
       en_status = ''Ready''\<rparr>], usage = \<lparr>ipv4_total = 1, ipv4_free = 0, ipv6_total = 0, ipv6_free = 0\<rparr>\<rparr>\<rparr>"

theorem allowed_update_keeps_allocated_witness:
  "let g = ex_gw ''a'' [''10.6.1.20''] [] False in
   allowed_gateway (ex_codec g) (\<lambda>ks. ks) dual_stack (ex_req ''EgressGateway'' Update ''a'') (ex_store [ex_old]) g \<and>
   ParseIP ''10.6.1.20'' \<in> to16 ` {ip4 168165652}"
proof -
  let ?g = "ex_gw ''a'' [''10.6.1.20''] [] False"
  have a: "allowed_gateway (ex_codec ?g) (\<lambda>ks. ks) dual_stack (ex_req ''EgressGateway'' Update ''a'') (ex_store [ex_old]) ?g"
    by (simp add: hook_eval ex_store_def ex_included ex_old_def check_update_def check_allocated_def find_or_def)
  show ?thesis
    using allowed_update_keeps_allocated [OF insertion_order.map_iteration_axioms a, of ex_old "[ip4 168165652]" "[]"
        "hd (gw_nodes ex_old)" "hd (en_eips (hd (gw_nodes ex_old)))"] a
    by (simp add: ex_single ex_gw_def Let_def ex_req_def ex_store_def ex_old_def)
qed

text \<open>C32. An admitted update of a policy changes neither its gateway nor anything of its egress IP.\<close>

theorem policy_update_immutable:
  assumes "ValidateHook cdc ord cli cfg req w = (Ok (Allowed m), w')" "rq_kind req = ''EgressPolicy''"
    and "rq_operation req = Update" "dec_policy cdc (rq_object req) = Some new"
  shows "\<exists>old. dec_policy cdc (rq_old_object req) = Some old \<and> ep_gateway_name (ep_spec new) = ep_gateway_name (ep_spec old) \<and>
    ep_egress_ip (ep_spec new) = ep_egress_ip (ep_spec old)"
proof -
  have "validateEgressPolicy cdc ord cli req cfg w = (Ok (Allowed m), w')"
    using assms(1,2) by (simp add: ValidateHook_def respond_Allowed)
  then show ?thesis using assms(3,4)
    by (auto simp: validateEgressPolicy_def Let_def bindp_eq_Ok lift_Ok fail_Ok check_immutable_def require_Ok split: option.splits)
qed

lemma checkEIPIncluded_store:
  assumes "checkEIPIncluded ord store_client a4 a6 nm w = (Ok True, w')"
    and "find_or (\<lambda>g. gw_name g = nm) (s_gateways w) = Ok g" "pool_ipv4 (gw_pools g) \<noteq> [] \<or> pool_ipv6 (gw_pools g) \<noteq> []"
  shows "\<forall>ip \<in> {a4, a6}. ip \<noteq> [] \<longrightarrow> CheckIPIncluded ord ip (pool_ipv4 (gw_pools g) @ pool_ipv6 (gw_pools g)) = Ok True"
proof (cases "a4 = [] \<and> a6 = []")
  case False
  let ?ips = "pool_ipv4 (gw_pools g) @ pool_ipv6 (gw_pools g)"
  have "lift (oc_bind (in_pools ord a4 ?ips) (\<lambda>ok. if \<not> ok then Ok False else in_pools ord a6 ?ips)) w = (Ok True, w')"
    using assms False by (simp add: checkEIPIncluded_def bindp_def attempt_def store_get ret_def Let_def)
  then have "in_pools ord a4 ?ips = Ok True" "in_pools ord a6 ?ips = Ok True"
    by (auto simp: lift_Ok split: if_splits)
  then show ?thesis by (simp add: in_pools_def split: if_splits)
qed simp

lemma check_pairing_Ok:
  "check_pairing a4 a6 g = Ok u \<Longrightarrow> pool_ipv4 (gw_pools g) \<noteq> [] \<Longrightarrow> eip_ipv6 (GetEipByIPV4 a4 g) \<in> {[], a6}"
  unfolding check_pairing_def Let_def oc_bind_eq_Ok require_Ok by (elim exE conjE, simp) blast

lemma checkEIP_store:
  assumes "checkEIP store_client a4 a6 nm w = (Ok u, w')" "find_or (\<lambda>g. gw_name g = nm) (s_gateways w) = Ok g" "a4 \<noteq> []"
  shows "check_pairing a4 a6 g = Ok u"
  using assms by (simp add: checkEIP_def bindp_def or_fail_def store_get lift_Ok)

text \<open>On the in-memory API server, an admitted new policy that does not use the node address names a
  stored gateway with a pool; an address it asks for passes the membership test of the pools of that
  gateway and has the partner address of every status entry that pairs it; all its destination
  subnets are CIDR blocks.\<close>

theorem policy_create_checked:
  assumes "ValidateHook cdc ord store_client cfg req w = (Ok (Allowed m), w')" "rq_kind req = ''EgressPolicy''"
    and "rq_operation req = Create" "dec_policy cdc (rq_object req) = Some p" "enable_ipv4 cfg \<or> enable_ipv6 cfg"
    and "e = ep_egress_ip (ep_spec p)" "\<not> use_node_ip e"
  shows "\<exists>g \<in> set (s_gateways w). gw_name g = ep_gateway_name (ep_spec p) \<and>
    (pool_ipv4 (gw_pools g) \<noteq> [] \<or> pool_ipv6 (gw_pools g) \<noteq> []) \<and>
    (\<forall>ip \<in> {ei_ipv4 e, ei_ipv6 e}. ip \<noteq> [] \<longrightarrow> CheckIPIncluded ord ip (pool_ipv4 (gw_pools g) @ pool_ipv6 (gw_pools g)) = Ok True) \<and>
    (ei_ipv4 e \<noteq> [] \<longrightarrow> pool_ipv4 (gw_pools g) \<noteq> [] \<longrightarrow> eip_ipv6 (GetEipByIPV4 (ei_ipv4 e) g) \<in> {[], ei_ipv6 e}) \<and>
    (\<forall>s \<in> set (ep_dest_subnet (ep_spec p)). ParseCIDR s \<noteq> None)"
proof -
  have v: "validateEgressPolicy cdc ord store_client req cfg w = (Ok (Allowed m), w')"
    using assms(1,2) by (simp add: ValidateHook_def respond_Allowed)
  then have s: "validateSubnet (ep_dest_subnet (ep_spec p)) = Ok (Allowed m)"
    and c: "\<exists>w1. check_create ord store_client cfg (ep_gateway_name (ep_spec p)) e w = (Ok (), w1)"
    using assms(3,4,6) by (auto simp: validateEgressPolicy_def Let_def bindp_eq_Ok lift_Ok ret_Ok)
  have n: "\<forall>s \<in> set (ep_dest_subnet (ep_spec p)). ParseCIDR s \<noteq> None"
    using s by (auto simp: validateSubnet_def Let_def filter_empty_conv bad_subnet_def split: if_splits option.splits)
  obtain w1 ok where k: "checkEIP store_client (ei_ipv4 e) (ei_ipv6 e) (ep_gateway_name (ep_spec p)) w = (Ok (), w)"
      "checkEGWIppools store_client (ep_gateway_name (ep_spec p)) w = (Ok (), w)"
      "checkEIPIncluded ord store_client (ei_ipv4 e) (ei_ipv6 e) (ep_gateway_name (ep_spec p)) w = (Ok True, w1)"
    using c assms(5,7)
    by (auto simp: check_create_def bindp_eq_Ok lift_Ok require_Ok checkEIP_def checkEGWIppools_def or_fail_Ok store_get ret_Ok split: if_splits)
  obtain g where g: "find_or (\<lambda>g. gw_name g = ep_gateway_name (ep_spec p)) (s_gateways w) = Ok g"
      "pool_ipv4 (gw_pools g) \<noteq> [] \<or> pool_ipv6 (gw_pools g) \<noteq> []"
    using k(2) by (auto simp: checkEGWIppools_def bindp_eq_Ok or_fail_Ok store_get lift_Ok require_Ok)
  have m: "g \<in> set (s_gateways w)" "gw_name g = ep_gateway_name (ep_spec p)"
    using g(1) by (auto simp: find_or_def find_Some_iff split: option.splits)
  have pr: "ei_ipv4 e \<noteq> [] \<longrightarrow> pool_ipv4 (gw_pools g) \<noteq> [] \<longrightarrow> eip_ipv6 (GetEipByIPV4 (ei_ipv4 e) g) \<in> {[], ei_ipv6 e}"
    using checkEIP_store [OF k(1) g(1)] check_pairing_Ok by blast
  have "\<forall>ip \<in> {ei_ipv4 e, ei_ipv6 e}. ip \<noteq> [] \<longrightarrow> CheckIPIncluded ord ip (pool_ipv4 (gw_pools g) @ pool_ipv6 (gw_pools g)) = Ok True"
    by (rule checkEIPIncluded_store [OF k(3) g])
  then show ?thesis using m g(2) pr n by blast
qed

definition ex_hook_policy :: "bool \<Rightarrow> string \<Rightarrow> egress_policy" where
  "ex_hook_policy nodeip ip = \<lparr>ep_meta = \<lparr>om_name = ''p'', om_namespace = ''d'', om_deleting = False, om_finalizers = [], om_labels = []\<rparr>,
     ep_spec = \<lparr>ep_gateway_name = ''a'', ep_egress_ip = \<lparr>ei_ipv4 = ip, ei_ipv6 = [], use_node_ip = nodeip, allocator_policy = []\<rparr>,
       ep_applied_to = \<lparr>pod_selector = None, pod_subnet = [''10.0.0.0/8'']\<rparr>, ep_dest_subnet = [], ep_priority = 0\<rparr>,
     ep_status = \<lparr>st_ipv4 = [], st_ipv6 = [], st_node = []\<rparr>\<rparr>"

definition ex_policy_codec :: "egress_policy \<Rightarrow> codec" where
  "ex_policy_codec p = \<lparr>dec_gateway = (\<lambda>_. None), dec_policy = (\<lambda>_. Some p), dec_cpolicy = (\<lambda>_. None)\<rparr>"

lemmas policy_eval = ex_hook_policy_def ex_policy_codec_def ex_req_def ValidateHook_def respond_def validateEgressPolicy_def
  prog_defs check_spec_def check_immutable_def validateSubnet_def require_def Let_def selector_empty_def isIPv4_text_def
  check_create_def checkEIP_def checkEGWIppools_def checkEIPIncluded_def in_pools_def check_pairing_def store_client_def find_or_def
  ex_store_def dual_stack_def

theorem policy_update_immutable_witness:
  "\<exists>old. dec_policy (ex_policy_codec (ex_hook_policy True [])) [] = Some old \<and>
     ep_egress_ip (ep_spec (ex_hook_policy True [])) = ep_egress_ip (ep_spec old)"
proof -
  have "ValidateHook (ex_policy_codec (ex_hook_policy True [])) (\<lambda>ks. ks) store_client dual_stack
      (ex_req ''EgressPolicy'' Update ''p'') (ex_store []) = (Ok (Allowed ''checked''), ex_store [])"
    by (simp add: policy_eval)
  from policy_update_immutable [OF this] show ?thesis by (simp add: ex_policy_codec_def ex_req_def)
qed

theorem policy_create_checked_witness:
  "\<exists>g \<in> set [ex_gw ''a'' [''10.6.1.20''] [] True]. CheckIPIncluded (\<lambda>ks. ks) ''10.6.1.20'' (pool_ipv4 (gw_pools g) @ []) = Ok True"
proof -
  have c: "CheckIPIncluded (\<lambda>ks. ks) ''10.6.1.20'' [''10.6.1.20''] = Ok True"
    using ex_included by (simp add: CheckIPIncluded_def Let_def ip_eval IsIPv4_def)
  have "to4 (ip4 168165652) \<noteq> []" by (simp add: ip4_def ip_eval)
  then have v: "ValidateHook (ex_policy_codec (ex_hook_policy False ''10.6.1.20'')) (\<lambda>ks. ks) store_client dual_stack
      (ex_req ''EgressPolicy'' Create ''p'') (ex_store [ex_gw ''a'' [''10.6.1.20''] [] True]) =
      (Ok (Allowed ''checked''), ex_store [ex_gw ''a'' [''10.6.1.20''] [] True])"
    using c by (simp add: policy_eval ex_gw_def zero_gateway_def GetEipByIPV4_def GetEipByIPV6_def zero_eips_def ex_single)
  show ?thesis
    using policy_create_checked [OF v, of "ex_hook_policy False ''10.6.1.20''" "ep_egress_ip (ep_spec (ex_hook_policy False ''10.6.1.20''))"]
    by (simp add: ex_req_def ex_policy_codec_def ex_store_def ex_hook_policy_def dual_stack_def ex_gw_def)
qed

section \<open>What the mutating webhook fills in\<close>

lemma default_eip_patch_value:
  assumes "random_source intn" "ip_pool ver mk indom lo lim okt ord" "default_eip_patch ord intn ver d pool path = Ok ps" "p \<in> set ps"
    and "ConvertCidrOrIPrangeToIPs ord pool ver = Ok ips" "\<forall>ip \<in> set ips. ipToInt ip + 1 < lim"
  shows "d = [] \<and> po_path p = path \<and> po_op p = ''add'' \<and> (\<exists>s. po_value p = PString s \<and> ParseIP s \<in> to16 ` set ips)"
proof -
  obtain rs all where r: "MergeIPRanges ord ver pool = Ok rs" "d = []" "pool \<noteq> []"
      "(case ParseIPRanges ver rs of Err _ \<Rightarrow> Ok [] | Ok ips \<Rightarrow> Ok ips | Panic \<Rightarrow> Panic | Diverge \<Rightarrow> Diverge) = (Ok all :: (denial, netip list) outcome)"
      "ps = (if length all \<noteq> 0 then [\<lparr>po_op = ''add'', po_path = path, po_value = PString (ip_string (all ! intn (length all)))\<rparr>] else [])"
    using assms(3,4) by (auto simp: default_eip_patch_def split: if_splits)
  note p = ip_pool.merge_parse [OF assms(2,5) r(1) assms(6)]
  have all: "ParseIPRanges ver rs = Ok all" using r(4) p(1) by simp
  then have s: "set all = to16 ` set ips" using p by simp
  have ne: "all \<noteq> []" using r(5) assms(4) by (auto split: if_splits)
  let ?v = "all ! intn (length all)"
  have "?v \<in> set all" using random_source.in_range [OF assms(1), of "length all"] ne by simp
  moreover have "ParseIP (ip_string ?v) = to16 ?v"
    using ParseIPRanges_wf [OF all] calculation by (intro ParseIP_ip_string) blast
  moreover have "to16 ?v = ?v" using s calculation(1) by force
  ultimately show ?thesis using r(2,5) assms(4) ne s by auto
qed

text \<open>A default egress IP that the mutating webhook adds to a gateway is an address of the pool of its
  family, and it is added only where the gateway has none, whatever address is drawn.\<close>

theorem mutated_default_eip:
  assumes "map_iteration (ch_order ch)" "random_source (ch_intn4 ch)" "random_source (ch_intn6 ch)"
    and "EgressGatewayMutate cdc ch cfg req = Ok (Patched ps)" "dec_gateway cdc (rq_object req) = Some g" "p \<in> set ps"
    and "ConvertCidrOrIPrangeToIPs (ch_order ch) (pool_ipv4 (gw_pools g)) IPv4 = Ok ips4" "\<forall>ip \<in> set ips4. ipToInt ip + 1 < 2 ^ 32"
    and "ConvertCidrOrIPrangeToIPs (ch_order ch) (pool_ipv6 (gw_pools g)) IPv6 = Ok ips6" "\<forall>ip \<in> set ips6. ipToInt ip + 1 < 2 ^ 128"
  shows "(po_path p = ''/spec/ippools/ipv4DefaultEIP'' \<longrightarrow> enable_ipv4 cfg \<and> ipv4_default_eip (gw_pools g) = [] \<and>
      (\<exists>s. po_value p = PString s \<and> ParseIP s \<in> to16 ` set ips4)) \<and>
    (po_path p = ''/spec/ippools/ipv6DefaultEIP'' \<longrightarrow> enable_ipv6 cfg \<and> ipv6_default_eip (gw_pools g) = [] \<and>
      (\<exists>s. po_value p = PString s \<and> ParseIP s \<in> to16 ` set ips6))"
proof -
  let ?f4 = "default_eip_patch (ch_order ch) (ch_intn4 ch) IPv4 (ipv4_default_eip (gw_pools g)) (pool_ipv4 (gw_pools g)) ''/spec/ippools/ipv4DefaultEIP''"
  let ?f6 = "default_eip_patch (ch_order ch) (ch_intn6 ch) IPv6 (ipv6_default_eip (gw_pools g)) (pool_ipv6 (gw_pools g)) ''/spec/ippools/ipv6DefaultEIP''"
  let ?fin = "case getEgressGatewayFinalizerPatch req [egressGatewayFinalizers] of None \<Rightarrow> [] | Some p \<Rightarrow> [p]"
  obtain q4 q6 where q: "(if enable_ipv4 cfg then ?f4 else Ok []) = Ok q4" "(if enable_ipv6 cfg then ?f6 else Ok []) = Ok q6"
      "ps = q4 @ q6 @ ?fin"
    using assms(4,5) by (auto simp: EgressGatewayMutate_def Let_def split: if_splits)
  have f: "po_path p = ''/metadata/finalizers''" if "p \<in> set ?fin"
    using that by (auto simp: getEgressGatewayFinalizerPatch_def split: if_splits)
  have p4: "enable_ipv4 cfg \<and> ipv4_default_eip (gw_pools g) = [] \<and> po_path p = ''/spec/ippools/ipv4DefaultEIP'' \<and>
      (\<exists>s. po_value p = PString s \<and> ParseIP s \<in> to16 ` set ips4)" if "p \<in> set q4"
    using default_eip_patch_value [OF assms(2) pool_v4 [OF assms(1)] _ that assms(7,8)] q(1) that by (auto split: if_splits)
  have p6: "enable_ipv6 cfg \<and> ipv6_default_eip (gw_pools g) = [] \<and> po_path p = ''/spec/ippools/ipv6DefaultEIP'' \<and>
      (\<exists>s. po_value p = PString s \<and> ParseIP s \<in> to16 ` set ips6)" if "p \<in> set q6"
    using default_eip_patch_value [OF assms(3) pool_v6 [OF assms(1)] _ that assms(9,10)] q(2) that by (auto split: if_splits)
  show ?thesis using q(3) assms(6) f p4 p6 by auto
qed

theorem mutated_default_eip_witness:
  "\<exists>ps p s. EgressGatewayMutate (ex_codec (ex_gw ''a'' [''10.6.1.20''] [] True)) first_choices dual_stack (ex_req ''EgressGateway'' Create ''a'') =
      Ok (Patched ps) \<and> p \<in> set ps \<and> po_value p = PString s \<and> ParseIP s \<in> to16 ` {ip4 168165652}"
proof -
  let ?g = "ex_gw ''a'' [''10.6.1.20''] [] True" and ?req = "ex_req ''EgressGateway'' Create ''a''"
  let ?p = "\<lparr>po_op = ''add'', po_path = ''/spec/ippools/ipv4DefaultEIP'', po_value = PString (ip_string (ip4 168165652))\<rparr>"
  let ?q = "\<lparr>po_op = ''add'', po_path = ''/metadata/finalizers'', po_value = PStrings [egressGatewayFinalizers]\<rparr>"
  have m: "EgressGatewayMutate (ex_codec ?g) first_choices dual_stack ?req = Ok (Patched [?p, ?q])"
    by (simp add: EgressGatewayMutate_def ex_codec_def ex_gw_def first_choices_def dual_stack_def ex_req_def default_eip_patch_def
        ex_merge_one ex_parse_one getEgressGatewayFinalizerPatch_def Let_def)
  show ?thesis
    using mutated_default_eip [of first_choices "ex_codec ?g" dual_stack ?req "[?p, ?q]" ?g ?p "[ip4 168165652]" "[]"] m
      good_first_choices
    by (auto simp: good_choices_def ex_codec_def ex_single ex_gw_def first_choices_def dual_stack_def)
qed

text \<open>A policy without a gateway gets the gateway that the label of its namespace names, else the last
  default gateway of the list, else none; an empty egress IP becomes the default allocation; nothing
  else is patched.\<close>

theorem mutated_policy_gateway:
  assumes "dec_policy cdc (rq_object req) = Some p" "rq_kind req = ''EgressPolicy''"
    and "get_namespace cli (om_namespace (ep_meta p)) w = (Ok labels, w)" "list_gateways cli w = (Ok gs, w)"
    and "\<forall>g \<in> set gs. gw_name g \<noteq> []"
  shows "MutateHook cdc ch cli cfg req w =
    (let names = map gw_name (filter (\<lambda>g. cluster_default (gw_spec g)) gs);
         label = (case map_of labels LabelNamespaceEgressGatewayDefault of None \<Rightarrow> [] | Some v \<Rightarrow> v);
         gateway = (if ep_gateway_name (ep_spec p) \<noteq> [] then [] else if label \<noteq> [] then label else if names = [] then [] else last names);
         ps = (if gateway = [] then [] else [gateway_name_patch gateway]) @ (if IsEmpty (ep_egress_ip (ep_spec p)) then [egress_ip_patch] else [])
     in (Ok (if ps = [] then Allowed ''skipped'' else Patched ps), w))"
proof -
  let ?names = "map gw_name (filter (\<lambda>g. cluster_default (gw_spec g)) gs)"
  have f: "fold (\<lambda>item name. if cluster_default (gw_spec item) then gw_name item else name) xs a =
      (let ns = map gw_name (filter (\<lambda>g. cluster_default (gw_spec g)) xs) in if ns = [] then a else last ns)" for xs a
    by (induction xs arbitrary: a) (auto simp: Let_def)
  have l: "?names \<noteq> [] \<Longrightarrow> last ?names \<noteq> []" using last_in_set [of ?names] assms(5) by auto
  then have d: "getGlobalDefaultEgwPatch cli w = (Ok (if ?names = [] then None else Some (gateway_name_patch (last ?names))), w)"
    using assms(4) f [of gs "[]"] by (simp add: getGlobalDefaultEgwPatch_def bindp_def attempt_def ret_def Let_def)
  show ?thesis using assms(1-3) d l
    by (auto simp: MutateHook_def respond_def mutateHookEgressPolicy_def bindp_def or_fail_def ret_def patches_of_def Let_def split: option.splits)
qed

definition ex_hook_client :: "store hook_client" where
  "ex_hook_client = client.extend store_client (hook_client.fields (\<lambda>ns w. (Ok [], w)))"

theorem mutated_policy_gateway_witness:
  "let p = ex_hook_policy True []; p' = p\<lparr>ep_spec := (ep_spec p)\<lparr>ep_gateway_name := []\<rparr>\<rparr> in
   MutateHook (ex_policy_codec p') first_choices ex_hook_client dual_stack (ex_req ''EgressPolicy'' Create ''p'')
     (ex_store [ex_gw ''a'' [] [] True]) = (Ok (Patched [gateway_name_patch ''a'']), ex_store [ex_gw ''a'' [] [] True])"
proof -
  let ?p = "(ex_hook_policy True [])\<lparr>ep_spec := (ep_spec (ex_hook_policy True []))\<lparr>ep_gateway_name := []\<rparr>\<rparr>"
  show ?thesis unfolding Let_def
    by (subst mutated_policy_gateway [where p = ?p and labels = "[]" and gs = "[ex_gw ''a'' [] [] True]"])
      (simp_all add: ex_policy_codec_def ex_req_def ex_hook_client_def client.defs hook_client.defs store_client_def ex_store_def ex_gw_def
        ex_hook_policy_def IsEmpty_def Let_def)
qed

end
