(* ===== verification/Sha1.thy ===== *)
theory Sha1
  imports Main "HOL-Library.Word"
begin

unbundle bit_operations_syntax

text \<open>
  \<^verbatim>\<open>crypto/sha1\<close> of the Go library, which \<^verbatim>\<open>generateMACAddress\<close> applies to the name of a
  node: padding, the message schedule and the eighty rounds on 32-bit words.
\<close>

definition rotl :: "nat \<Rightarrow> 32 word \<Rightarrow> 32 word" where
  "rotl n x = push_bit n x OR drop_bit (32 - n) x"

text \<open>Big-endian words of bytes and bytes of words.\<close>

definition word_of_bytes :: "nat list \<Rightarrow> 32 word" where
  "word_of_bytes bs = of_nat (foldl (\<lambda>v b. v * 256 + b) 0 bs)"

definition bytes_of_word :: "32 word \<Rightarrow> nat list" where
  "bytes_of_word x = (let n = unat x in [n div 2 ^ 24 mod 256, n div 2 ^ 16 mod 256, n div 2 ^ 8 mod 256, n mod 256])"

definition length_bytes :: "nat \<Rightarrow> nat list" where
  "length_bytes n = map (\<lambda>k. n div 256 ^ k mod 256) (rev [0..<8])"

definition padded :: "nat list \<Rightarrow> nat list" where
  "padded msg =
     (let l = length msg; z = (119 - l mod 64) mod 64 in
      msg @ [128] @ replicate z 0 @ length_bytes (8 * l))"

function chunks :: "nat \<Rightarrow> 'a list \<Rightarrow> 'a list list" where
  "chunks n xs = (if n = 0 \<or> xs = [] then [] else take n xs # chunks n (drop n xs))"
  by pat_completeness auto
termination
  by (relation "measure (\<lambda>(n, xs). length xs)") auto

declare chunks.simps [simp del]

text \<open>The schedule, with the newest word first.\<close>

fun schedule :: "nat \<Rightarrow> 32 word list \<Rightarrow> 32 word list" where
  "schedule 0 ws = ws"
| "schedule (Suc n) ws = schedule n (rotl 1 ((ws ! 2) XOR (ws ! 7) XOR (ws ! 13) XOR (ws ! 15)) # ws)"

definition round_fk :: "nat \<Rightarrow> 32 word \<Rightarrow> 32 word \<Rightarrow> 32 word \<Rightarrow> 32 word \<times> 32 word" where
  "round_fk t b c d =
     (if t < 20 then ((b AND c) OR (NOT b AND d), 0x5A827999)
      else if t < 40 then (b XOR c XOR d, 0x6ED9EBA1)
      else if t < 60 then ((b AND c) OR (b AND d) OR (c AND d), 0x8F1BBCDC)
      else (b XOR c XOR d, 0xCA62C1D6))"

type_synonym sha_state = "32 word \<times> 32 word \<times> 32 word \<times> 32 word \<times> 32 word"

fun rounds :: "nat \<Rightarrow> 32 word list \<Rightarrow> sha_state \<Rightarrow> sha_state" where
  "rounds t [] s = s"
| "rounds t (w # ws) (a, b, c, d, e) =
     (case round_fk t b c d of (f, k) \<Rightarrow> rounds (Suc t) ws (rotl 5 a + f + e + k + w, a, rotl 30 b, c, d))"

definition sha_block :: "sha_state \<Rightarrow> nat list \<Rightarrow> sha_state" where
  "sha_block s block =
     (case s of (a, b, c, d, e) \<Rightarrow>
      case rounds 0 (rev (schedule 64 (rev (map word_of_bytes (chunks 4 block))))) s of
        (a', b', c', d', e') \<Rightarrow> (a + a', b + b', c + c', d + d', e + e'))"

definition sha1 :: "nat list \<Rightarrow> nat list" where
  "sha1 msg =
     (case foldl sha_block (0x67452301, 0xEFCDAB89, 0x98BADCFE, 0x10325476, 0xC3D2E1F0) (chunks 64 (padded msg)) of
        (a, b, c, d, e) \<Rightarrow> concat (map bytes_of_word [a, b, c, d, e]))"

lemma length_sha1 [simp]: "length (sha1 msg) = 20"
  by (simp add: sha1_def bytes_of_word_def Let_def split: prod.split)

end
