(* ===== verification/TunnelCtl.thy ===== *)
theory TunnelCtl
  imports GatewayCtl MarkAllocator IPRanges Sha1
begin

text \<open>
  \<^verbatim>\<open>pkg/controller/tunnel/egress_tunnel.go\<close>: the controller that creates one tunnel per node,
  allocates its packet mark and addresses, and supervises its heartbeat, with the address allocator
  of the vendored \<^verbatim>\<open>cilium/ipam\<close> package. The programs run over the cluster state together
  with the allocators of the controller. The deferred rollbacks of the code look at an error
  variable that the inner scopes shadow or that is set before anything is allocated, so they never
  run and are not part of the model.
\<close>

section \<open>The address allocator\<close>

datatype ipr_err = IPNotInRange | IPAllocated | IPFull

record ip_range =
  ir_net :: ipnet
  ir_base :: nat
  ir_max :: int
  ir_alloc :: bitmap

definition bigForIP :: "netip \<Rightarrow> nat" where
  "bigForIP ip = be_val (to16 ip)"

definition addIPOffset :: "nat \<Rightarrow> nat \<Rightarrow> netip" where
  "addIPOffset base offset = (let r = replicate 16 0 @ be_bytes (base + offset) in drop (length r - 16) r)"

definition calculateIPOffset :: "nat \<Rightarrow> netip \<Rightarrow> int" where
  "calculateIPOffset base ip = sint (word_of_int (int (bigForIP ip) - int base) :: 64 word)"

definition ir_RangeSize :: "ipnet \<Rightarrow> int" where
  "ir_RangeSize subnet =
     (let ones = ones_of (net_mask subnet); bits = 8 * length (net_mask subnet) in
      if bits = 32 \<and> bits - ones \<ge> 31 \<or> bits = 128 \<and> bits - ones \<ge> 127 then 0
      else if bits = 128 \<and> bits - ones \<ge> 16 then 2 ^ 16 else 2 ^ (bits - ones))"

definition NewCIDRRange :: "ipnet \<Rightarrow> ip_range" where
  "NewCIDRRange cidr =
     (let mx = max 0 (ir_RangeSize cidr - 2) in
      \<lparr>ir_net = cidr, ir_base = bigForIP (net_ip cidr) + 1, ir_max = mx, ir_alloc = NewAllocationMap mx\<rparr>)"

definition ir_contains :: "ip_range \<Rightarrow> netip \<Rightarrow> nat option" where
  "ir_contains r ip =
     (if \<not> ipnet_contains (ir_net r) ip then None
      else let offset = calculateIPOffset (ir_base r) ip in
        if offset < 0 \<or> offset \<ge> ir_max r then None else Some (nat offset))"

definition ir_Allocate :: "netip \<Rightarrow> ip_range \<Rightarrow> (ipr_err, unit) outcome \<times> ip_range" where
  "ir_Allocate ip r = (case ir_contains r ip of
     None \<Rightarrow> (Err IPNotInRange, r)
   | Some offset \<Rightarrow> (case bm_Allocate offset (ir_alloc r) of (allocated, b) \<Rightarrow>
       (if allocated then Ok () else Err IPAllocated, r\<lparr>ir_alloc := b\<rparr>)))"

definition ir_AllocateNext :: "(nat \<Rightarrow> nat) \<Rightarrow> ip_range \<Rightarrow> (ipr_err, netip) outcome \<times> ip_range" where
  "ir_AllocateNext intn r = (case bm_AllocateNext intn (ir_alloc r) of
     (None, b) \<Rightarrow> (Err IPFull, r\<lparr>ir_alloc := b\<rparr>)
   | (Some offset, b) \<Rightarrow> (Ok (addIPOffset (ir_base r) offset), r\<lparr>ir_alloc := b\<rparr>))"

text \<open>Releasing an address outside the range does nothing and is no error.\<close>

definition ir_Release :: "netip \<Rightarrow> ip_range \<Rightarrow> ip_range" where
  "ir_Release ip r = (case ir_contains r ip of
     None \<Rightarrow> r
   | Some offset \<Rightarrow> r\<lparr>ir_alloc := bm_Release offset (ir_alloc r)\<rparr>)"

section \<open>The controller\<close>

record k8s_node_status = k8s_node +
  node_conditions :: "(string \<times> string) list"

record 'w tunnel_client =
  tc_get_tunnel :: "string \<Rightarrow> ('w, egress_tunnel) api"
  tc_get_node :: "string \<Rightarrow> ('w, k8s_node_status) api"
  tc_list :: "('w, egress_tunnel list) api"
  tc_create :: "egress_tunnel \<Rightarrow> ('w, unit) api"
  tc_update :: "egress_tunnel \<Rightarrow> ('w, unit) api"
  tc_delete :: "egress_tunnel \<Rightarrow> ('w, unit) api"
  tc_status :: "egress_tunnel \<Rightarrow> ('w, unit) api"

text \<open>The configuration, a source of random offsets and a clock belong to the controller.\<close>

record 'w egReconciler =
  e_client :: "'w tunnel_client"
  e_failover :: bool
  e_timeout :: int
  e_draw :: "'w \<Rightarrow> (nat \<Rightarrow> nat) \<times> 'w"
  e_now :: "'w \<Rightarrow> int \<times> 'w"

record 'w tunnel_world =
  tw_world :: 'w
  tw_mark :: range
  tw_v4 :: "ip_range option"
  tw_v6 :: "ip_range option"
  tw_done :: bool

datatype tun_err = TunApi api_err | TunMark mark_err | TunIP ipr_err | TunReq | TunCidr

type_synonym ('w, 'a) tun = "('w tunnel_world, tun_err, 'a) prog"

definition cluster :: "('w, 'a) api \<Rightarrow> ('w, 'a) tun" where
  "cluster m = (\<lambda>s. case m (tw_world s) of (r, w) \<Rightarrow> (oc_map_err TunApi r, s\<lparr>tw_world := w\<rparr>))"

definition on_mark :: "(range \<Rightarrow> (mark_err, 'a) outcome \<times> range) \<Rightarrow> ('w, 'a) tun" where
  "on_mark f = (\<lambda>s. case f (tw_mark s) of (r, m) \<Rightarrow> (oc_map_err TunMark r, s\<lparr>tw_mark := m\<rparr>))"

text \<open>A call on an allocator that is not configured dereferences a nil pointer.\<close>

definition on_v4 :: "(ip_range \<Rightarrow> (ipr_err, 'a) outcome \<times> ip_range) \<Rightarrow> ('w, 'a) tun" where
  "on_v4 f = (\<lambda>s. case tw_v4 s of
     None \<Rightarrow> (Panic, s)
   | Some a \<Rightarrow> (case f a of (r, a') \<Rightarrow> (oc_map_err TunIP r, s\<lparr>tw_v4 := Some a'\<rparr>)))"

definition on_v6 :: "(ip_range \<Rightarrow> (ipr_err, 'a) outcome \<times> ip_range) \<Rightarrow> ('w, 'a) tun" where
  "on_v6 f = (\<lambda>s. case tw_v6 s of
     None \<Rightarrow> (Panic, s)
   | Some a \<Rightarrow> (case f a of (r, a') \<Rightarrow> (oc_map_err TunIP r, s\<lparr>tw_v6 := Some a'\<rparr>)))"

definition draw_offset :: "'w egReconciler \<Rightarrow> ('w, nat \<Rightarrow> nat) tun" where
  "draw_offset r = (\<lambda>s. case e_draw r (tw_world s) of (f, w) \<Rightarrow> (Ok f, s\<lparr>tw_world := w\<rparr>))"

definition egressTunnelFinalizers :: string where
  "egressTunnelFinalizers = ''egressgateway.spidernet.io/egresstunnel''"

definition generateMACAddress :: "string \<Rightarrow> string" where
  "generateMACAddress nodeName =
     join_with '':'' (map hex_byte (102 # take 5 (sha1 (map of_char (nodeName @ ''egress'')))))"

text \<open>The phase that a status update writes.\<close>

definition checked_phase :: "bool \<Rightarrow> bool \<Rightarrow> egress_tunnel_status \<Rightarrow> string" where
  "checked_phase v4 v6 st =
     (let t = et_tunnel st;
          p = (if et_phase st = [] then EgressTunnelInit else et_phase st);
          p = (if parent_name (tunnel_parent t) = [] then EgressTunnelInit else p);
          p = (if et_mark st = [] then EgressTunnelPending else p);
          p = (if tunnel_ipv4 t = [] \<and> v4 then EgressTunnelPending else p);
          p = (if tunnel_ipv6 t = [] \<and> v6 then EgressTunnelPending else p);
          p = (if tunnel_mac t = [] then EgressTunnelPending else p)
      in p)"

definition updateEgressTunnel :: "'w egReconciler \<Rightarrow> egress_tunnel \<Rightarrow> ('w, unit) tun" where
  "updateEgressTunnel r node = (\<lambda>s.
     let st = et_status node; p = checked_phase (tw_v4 s \<noteq> None) (tw_v6 s \<noteq> None) st in
     cluster (tc_status (e_client r) (node\<lparr>et_status := st\<lparr>et_phase := p\<rparr>\<rparr>)) s)"

definition zero_tunnel_status :: egress_tunnel_status where
  "zero_tunnel_status = \<lparr>et_tunnel = \<lparr>tunnel_ipv4 = [], tunnel_ipv6 = [], tunnel_mac = [],
     tunnel_parent = \<lparr>parent_name = [], parent_ipv4 = [], parent_ipv6 = []\<rparr>\<rparr>, et_phase = [], et_mark = [], et_last_heartbeat = 0\<rparr>"

definition createEgressTunnel :: "'w egReconciler \<Rightarrow> string \<Rightarrow> ('w, unit) tun" where
  "createEgressTunnel r name =
     cluster (tc_create (e_client r) \<lparr>et_meta = \<lparr>om_name = name, om_namespace = [], om_deleting = False,
       om_finalizers = [egressTunnelFinalizers], om_labels = []\<rparr>, et_status = zero_tunnel_status\<rparr>)"

definition release_v4 :: "string \<Rightarrow> 'w tunnel_world \<Rightarrow> 'w tunnel_world" where
  "release_v4 addr s = (case tw_v4 s of
     Some a \<Rightarrow> if addr \<noteq> [] \<and> to4 (ParseIP addr) \<noteq> nil_ip then s\<lparr>tw_v4 := Some (ir_Release (to4 (ParseIP addr)) a)\<rparr> else s
   | None \<Rightarrow> s)"

definition release_v6 :: "string \<Rightarrow> 'w tunnel_world \<Rightarrow> 'w tunnel_world" where
  "release_v6 addr s = (case tw_v6 s of
     Some a \<Rightarrow> if addr \<noteq> [] \<and> to16 (ParseIP addr) \<noteq> nil_ip then s\<lparr>tw_v6 := Some (ir_Release (to16 (ParseIP addr)) a)\<rparr> else s
   | None \<Rightarrow> s)"

definition releaseEgressTunnel :: "egress_tunnel \<Rightarrow> ('w, unit) tun \<Rightarrow> ('w, unit) tun" where
  "releaseEgressTunnel node commit =
     bindp (if et_mark (et_status node) \<noteq> [] then on_mark (Release (et_mark (et_status node))) else ret ()) (\<lambda>_ s.
     commit (release_v6 (tunnel_ipv6 (et_tunnel (et_status node))) (release_v4 (tunnel_ipv4 (et_tunnel (et_status node))) s)))"

definition deleteEgressTunnel :: "'w egReconciler \<Rightarrow> egress_tunnel \<Rightarrow> ('w, unit) tun" where
  "deleteEgressTunnel r node = releaseEgressTunnel node (cluster (tc_delete (e_client r) node))"

section \<open>Rebuilding the allocators\<close>

definition set_tunnel :: "(tunnel \<Rightarrow> tunnel) \<Rightarrow> egress_tunnel \<Rightarrow> egress_tunnel" where
  "set_tunnel f node = node\<lparr>et_status := (et_status node)\<lparr>et_tunnel := f (et_tunnel (et_status node))\<rparr>\<rparr>"

text \<open>A mark that cannot be reserved clears the MAC address.\<close>

definition rebuild_mark :: "egress_tunnel \<Rightarrow> ('w, egress_tunnel \<times> bool) tun" where
  "rebuild_mark node =
     (if et_mark (et_status node) \<noteq> [] then
        bindp (attempt (on_mark (Allocate (et_mark (et_status node))))) (\<lambda>x. case x of
          Inl _ \<Rightarrow> ret (set_tunnel (\<lambda>t. t\<lparr>tunnel_mac := []\<rparr>) node, True)
        | Inr _ \<Rightarrow> ret (node, False))
      else ret (node, False))"

definition rebuild_v4 :: "egress_tunnel \<Rightarrow> ('w, egress_tunnel \<times> bool) tun" where
  "rebuild_v4 node = (\<lambda>s.
     let addr = tunnel_ipv4 (et_tunnel (et_status node)); ip = to4 (ParseIP addr);
         clear = set_tunnel (\<lambda>t. t\<lparr>tunnel_ipv4 := []\<rparr>) node in
     if addr = [] then ret (node, False) s
     else if tw_v4 s = None then ret (clear, True) s
     else if ip = nil_ip then ret (node, False) s
     else bindp (attempt (on_v4 (ir_Allocate ip))) (\<lambda>x. case x of
       Inl _ \<Rightarrow> ret (clear, True)
     | Inr _ \<Rightarrow> ret (node, False)) s)"

text \<open>Only an address that is taken is cleared; other errors leave the tunnel as it is.\<close>

definition rebuild_v6 :: "egress_tunnel \<Rightarrow> ('w, egress_tunnel \<times> bool) tun" where
  "rebuild_v6 node = (\<lambda>s.
     let addr = tunnel_ipv6 (et_tunnel (et_status node)); ip = to16 (ParseIP addr);
         clear = set_tunnel (\<lambda>t. t\<lparr>tunnel_ipv6 := []\<rparr>) node in
     if addr = [] then ret (node, False) s
     else if tw_v6 s = None then ret (clear, True) s
     else if ip = nil_ip then ret (node, False) s
     else bindp (attempt (on_v6 (ir_Allocate ip))) (\<lambda>x. case x of
       Inl e \<Rightarrow> if e = TunIP IPAllocated then ret (clear, True) else ret (node, False)
     | Inr _ \<Rightarrow> ret (node, False)) s)"

definition reBuildCache :: "'w egReconciler \<Rightarrow> egress_tunnel \<Rightarrow> ('w, unit) tun" where
  "reBuildCache r node =
     bindp (rebuild_mark node) (\<lambda>(node, u1).
     bindp (rebuild_v4 node) (\<lambda>(node, u2).
     bindp (rebuild_v6 node) (\<lambda>(node, u3).
     if u1 \<or> u2 \<or> u3 then updateEgressTunnel r node else ret ())))"

text \<open>The loop that retries one tunnel until it succeeds; it does not end when it never does.\<close>

partial_function (option) rebuild_retry ::
    "'w egReconciler \<Rightarrow> egress_tunnel \<Rightarrow> 'w tunnel_world \<Rightarrow> ((tun_err, unit) outcome \<times> 'w tunnel_world) option" where
  "rebuild_retry r node s = (case reBuildCache r node s of
     (Err e, s') \<Rightarrow> rebuild_retry r node s'
   | (x, s') \<Rightarrow> Some (x, s'))"

definition retried :: "'w egReconciler \<Rightarrow> egress_tunnel \<Rightarrow> ('w, unit) tun" where
  "retried r node s = (case rebuild_retry r node s of None \<Rightarrow> (Diverge, s) | Some x \<Rightarrow> x)"

definition initEgressTunnel :: "'w egReconciler \<Rightarrow> ('w, unit) tun" where
  "initEgressTunnel r =
     bindp (cluster (tc_list (e_client r))) (\<lambda>items. for_each (\<lambda>node _. retried r node) items ())"

section \<open>Keeping a tunnel\<close>

definition keep_mark :: "'w egReconciler \<Rightarrow> egress_tunnel \<Rightarrow> ('w, egress_tunnel \<times> bool) tun" where
  "keep_mark r node =
     (if et_mark (et_status node) = [] then
        bindp (draw_offset r) (\<lambda>intn.
        bindp (on_mark (AllocateNext intn)) (\<lambda>m.
        ret (node\<lparr>et_status := (et_status node)\<lparr>et_mark := m\<rparr>\<rparr>, True)))
      else ret (node, False))"

definition keep_v4 :: "'w egReconciler \<Rightarrow> egress_tunnel \<Rightarrow> ('w, egress_tunnel \<times> bool) tun" where
  "keep_v4 r node = (\<lambda>s.
     if tunnel_ipv4 (et_tunnel (et_status node)) = [] \<and> tw_v4 s \<noteq> None
     then bindp (draw_offset r) (\<lambda>intn.
          bindp (on_v4 (ir_AllocateNext intn)) (\<lambda>ip.
          ret (set_tunnel (\<lambda>t. t\<lparr>tunnel_ipv4 := ip_string ip\<rparr>) node, True))) s
     else ret (node, False) s)"

text \<open>An error of the IPv6 allocator is only logged: the nil address is printed into the status.\<close>

definition keep_v6 :: "'w egReconciler \<Rightarrow> egress_tunnel \<Rightarrow> ('w, egress_tunnel \<times> bool) tun" where
  "keep_v6 r node = (\<lambda>s.
     if tunnel_ipv6 (et_tunnel (et_status node)) = [] \<and> tw_v6 s \<noteq> None
     then bindp (draw_offset r) (\<lambda>intn.
          bindp (attempt (on_v6 (ir_AllocateNext intn))) (\<lambda>x.
          let ip = (case x of Inr ip \<Rightarrow> ip | Inl _ \<Rightarrow> nil_ip) in
          ret (set_tunnel (\<lambda>t. t\<lparr>tunnel_ipv6 := ip_string ip\<rparr>) node, True))) s
     else ret (node, False) s)"

definition keep_mac :: "egress_tunnel \<Rightarrow> egress_tunnel" where
  "keep_mac node =
     (if tunnel_mac (et_tunnel (et_status node)) = []
      then set_tunnel (\<lambda>t. t\<lparr>tunnel_mac := generateMACAddress (om_name (et_meta node))\<rparr>) node else node)"

definition keepEgressTunnel :: "'w egReconciler \<Rightarrow> egress_tunnel \<Rightarrow> ('w, unit) tun" where
  "keepEgressTunnel r node =
     bindp (keep_mark r (keep_mac node)) (\<lambda>(node, u1).
     bindp (keep_v4 r node) (\<lambda>(node, u2).
     bindp (keep_v6 r node) (\<lambda>(node, u3).
     if u1 \<or> u2 \<or> u3 then updateEgressTunnel r node else ret ())))"

section \<open>Reconciling\<close>

definition tun_fetch :: "('w, 'a) api \<Rightarrow> ('w tunnel_world, bool \<times> tun_err, 'a option) prog" where
  "tun_fetch m = bindp (or_fail (\<lambda>e. (True, e)) (attempt (cluster m))) (\<lambda>x. case x of
     Inr obj \<Rightarrow> ret (Some obj)
   | Inl e \<Rightarrow> if e \<noteq> TunApi NotFound then fail (True, e) else ret None)"

definition node_phase :: "k8s_node_status \<Rightarrow> string" where
  "node_phase node = fold (\<lambda>(ty, st) phase. if ty = ''Ready'' \<and> st \<noteq> ''True'' then EgressTunnelNodeNotReady else phase)
     (node_conditions node) EgressTunnelReady"

definition tun_reconcileNode :: "'w egReconciler \<Rightarrow> request \<Rightarrow> ('w tunnel_world, bool \<times> tun_err, bool) prog" where
  "tun_reconcileNode r req =
     (let again = or_fail (\<lambda>e. (True, e)) in
      bindp (tun_fetch (tc_get_node (e_client r) (req_name req))) (\<lambda>n.
      bindp (tun_fetch (tc_get_tunnel (e_client r) (req_name req))) (\<lambda>t.
      let gone = (case n of None \<Rightarrow> True | Some node \<Rightarrow> om_deleting (node_meta node)) in
      case t of
        None \<Rightarrow>
          if gone then ret False
          else (case n of
              Some node \<Rightarrow> bindp (again (createEgressTunnel r (om_name (node_meta node)))) (\<lambda>_. ret False)
            | None \<Rightarrow> ret False)
      | Some egressTunnel \<Rightarrow>
          if gone then bindp (again (deleteEgressTunnel r egressTunnel)) (\<lambda>_. ret False)
          else if e_failover r then ret False
          else (case n of
              None \<Rightarrow> ret False
            | Some node \<Rightarrow>
                let phase = node_phase node; st = et_status egressTunnel in
                if et_phase st \<noteq> EgressTunnelHeartbeatTimeout \<and> et_phase st \<noteq> phase
                then bindp (again (updateEgressTunnel r (egressTunnel\<lparr>et_status := st\<lparr>et_phase := phase\<rparr>\<rparr>))) (\<lambda>_. ret False)
                else ret False))))"

definition reconcileEGN :: "'w egReconciler \<Rightarrow> request \<Rightarrow> ('w tunnel_world, bool \<times> tun_err, bool) prog" where
  "reconcileEGN r req =
     bindp (tun_fetch (tc_get_tunnel (e_client r) (req_name req))) (\<lambda>t. case t of
       None \<Rightarrow> ret False
     | Some egresstunnel \<Rightarrow>
         if om_deleting (et_meta egresstunnel) then
           (if length (om_finalizers (et_meta egresstunnel)) > 0 then
              bindp (or_fail (\<lambda>e. (True, e)) (releaseEgressTunnel egresstunnel
                (cluster (tc_update (e_client r)
                  (egresstunnel\<lparr>et_meta := RemoveFinalizers (et_meta egresstunnel) [egressTunnelFinalizers]\<rparr>))))) (\<lambda>_.
              tun_reconcileNode r req)
            else ret False)
         else bindp (or_fail (\<lambda>e. (True, e)) (keepEgressTunnel r egresstunnel)) (\<lambda>_. ret False))"

text \<open>The initialisation runs once, before the first request, and is repeated until it succeeds.\<close>

partial_function (option) init_retry ::
    "'w egReconciler \<Rightarrow> 'w tunnel_world \<Rightarrow> ((tun_err, unit) outcome \<times> 'w tunnel_world) option" where
  "init_retry r s = (case initEgressTunnel r s of
     (Err e, s') \<Rightarrow> init_retry r s'
   | (x, s') \<Rightarrow> Some (x, s'))"

definition do_once :: "'w egReconciler \<Rightarrow> ('w tunnel_world, bool \<times> tun_err, unit) prog" where
  "do_once r s =
     (if tw_done s then (Ok (), s)
      else case init_retry r s of
        None \<Rightarrow> (Diverge, s)
      | Some (x, s') \<Rightarrow> (oc_map_err (\<lambda>e. (False, e)) x, s'\<lparr>tw_done := True\<rparr>))"

definition tun_Reconcile :: "'w egReconciler \<Rightarrow> request \<Rightarrow> ('w tunnel_world, bool \<times> tun_err, bool) prog" where
  "tun_Reconcile r req =
     bindp (lift (oc_map_err (\<lambda>_. (False, TunReq)) (ParseKindWithReq req))) (\<lambda>(kind, newReq).
     bindp (do_once r) (\<lambda>_.
       if kind = ''EgressTunnel'' then reconcileEGN r newReq
       else if kind = ''Node'' then tun_reconcileNode r newReq
       else ret False))"

section \<open>The heartbeat\<close>

text \<open>One round of the health check; every failed call is logged and the tunnel is skipped.\<close>

definition check_tunnel :: "'w egReconciler \<Rightarrow> string \<Rightarrow> ('w, unit) tun" where
  "check_tunnel r name =
     bindp (attempt (cluster (tc_get_tunnel (e_client r) name))) (\<lambda>x. case x of
       Inl _ \<Rightarrow> ret ()
     | Inr tunnel \<Rightarrow> (\<lambda>s. case e_now r (tw_world s) of (now, w) \<Rightarrow>
         let s = s\<lparr>tw_world := w\<rparr>; st = et_status tunnel in
         if now > et_last_heartbeat st + e_timeout r \<and> et_phase st \<noteq> EgressTunnelHeartbeatTimeout
         then bindp (attempt (cluster (tc_status (e_client r)
                (tunnel\<lparr>et_status := st\<lparr>et_phase := EgressTunnelHeartbeatTimeout\<rparr>\<rparr>)))) (\<lambda>_. ret ()) s
         else (Ok (), s)))"

definition tunnelListCheck :: "'w egReconciler \<Rightarrow> ('w, unit) tun" where
  "tunnelListCheck r =
     bindp (cluster (tc_list (e_client r))) (\<lambda>items.
       for_each (\<lambda>item _. check_tunnel r (om_name (et_meta item))) items ())"

section \<open>Starting the controller\<close>

record tunnel_config =
  cfg_mark :: string
  cfg_enable_v4 :: bool
  cfg_enable_v6 :: bool
  cfg_subnet_v4 :: string
  cfg_subnet_v6 :: string

definition subnet_allocator :: "bool \<Rightarrow> string \<Rightarrow> (tun_err, ip_range option) outcome" where
  "subnet_allocator enabled subnet =
     (if enabled then (case ParseCIDR subnet of None \<Rightarrow> Err TunCidr | Some (_, cidr) \<Rightarrow> Ok (Some (NewCIDRRange cidr))) else Ok None)"

definition NewEgressTunnelController :: "tunnel_config \<Rightarrow> 'w \<Rightarrow> (tun_err, 'w tunnel_world) outcome" where
  "NewEgressTunnelController cfg w =
     oc_bind (oc_map_err TunMark (NewAllocatorMarkRange (cfg_mark cfg))) (\<lambda>mark.
     oc_bind (subnet_allocator (cfg_enable_v4 cfg) (cfg_subnet_v4 cfg)) (\<lambda>v4.
     oc_bind (subnet_allocator (cfg_enable_v6 cfg) (cfg_subnet_v6 cfg)) (\<lambda>v6.
     Ok \<lparr>tw_world = w, tw_mark = mark, tw_v4 = v4, tw_v6 = v6, tw_done = False\<rparr>)))"

end
