(* ===== verification/TunnelProps.thy ===== *)
theory TunnelProps
  imports TunnelCtl MarkProps
begin

text \<open>
  The properties of the tunnel controller: different tunnels never share a packet mark, also when
  status updates fail; a failed commit leaves the allocators ahead of the cluster; which phase a
  status update writes; which tunnels the health check times out.
\<close>

section \<open>Marks of stored tunnels\<close>

abbreviation tun_name :: "egress_tunnel \<Rightarrow> string" where
  "tun_name t \<equiv> om_name (et_meta t)"

abbreviation tun_mark :: "egress_tunnel \<Rightarrow> string" where
  "tun_mark t \<equiv> et_mark (et_status t)"


definition write_status :: "egress_tunnel \<Rightarrow> egress_tunnel list \<Rightarrow> egress_tunnel list" where
  "write_status t ts = map (\<lambda>u. if tun_name u = tun_name t then u\<lparr>et_status := et_status t\<rparr> else u) ts"






section \<open>The API server as the controller sees it\<close>


section \<open>A server whose writes may fail\<close>

text \<open>The tunnels, and for every write that is to come whether it succeeds.\<close>

record tunnel_store =
  ts_tunnels :: "egress_tunnel list"
  ts_oks :: "bool list"

definition guarded :: "(tunnel_store \<Rightarrow> tunnel_store) \<Rightarrow> (tunnel_store, unit) api" where
  "guarded f w = (case ts_oks w of
     False # oks \<Rightarrow> (Err (OtherErr ''unavailable''), w\<lparr>ts_oks := oks\<rparr>)
   | True # oks \<Rightarrow> (Ok (), f (w\<lparr>ts_oks := oks\<rparr>))
   | [] \<Rightarrow> (Ok (), f w))"

definition tunnel_server_client :: "tunnel_store tunnel_client" where
  "tunnel_server_client = \<lparr>
     tc_get_tunnel = (\<lambda>nm w. (case find (\<lambda>t. tun_name t = nm) (ts_tunnels w) of Some t \<Rightarrow> Ok t | None \<Rightarrow> Err NotFound, w)),
     tc_get_node = (\<lambda>nm w. (Err NotFound, w)),
     tc_list = (\<lambda>w. (Ok (ts_tunnels w), w)),
     tc_create = (\<lambda>t. guarded (\<lambda>w. w\<lparr>ts_tunnels := ts_tunnels w @ [t]\<rparr>)),
     tc_update = (\<lambda>t. guarded (\<lambda>w. w\<lparr>ts_tunnels := filter (\<lambda>u. \<not> (om_deleting (et_meta u) \<and> om_finalizers (et_meta u) = []))
         (map (\<lambda>u. if tun_name u = tun_name t then u\<lparr>et_meta := et_meta t\<rparr> else u) (ts_tunnels w))\<rparr>)),
     tc_delete = (\<lambda>t. guarded (\<lambda>w. w\<lparr>ts_tunnels := map (\<lambda>u. if tun_name u = tun_name t
         then u\<lparr>et_meta := (et_meta u)\<lparr>om_deleting := True\<rparr>\<rparr> else u) (ts_tunnels w)\<rparr>)),
     tc_status = (\<lambda>t. guarded (\<lambda>w. w\<lparr>ts_tunnels := write_status t (ts_tunnels w)\<rparr>))\<rparr>"

definition tunnel_ctl :: "int \<Rightarrow> int \<Rightarrow> tunnel_store egReconciler" where
  "tunnel_ctl timeout now = \<lparr>e_client = tunnel_server_client, e_failover = False, e_timeout = timeout,
     e_draw = (\<lambda>w. (\<lambda>n. 0, w)), e_now = (\<lambda>w. (now, w))\<rparr>"


section \<open>The heartbeat on the server\<close>

definition expire :: "int \<Rightarrow> int \<Rightarrow> egress_tunnel \<Rightarrow> egress_tunnel" where
  "expire timeout now t =
     (if now > et_last_heartbeat (et_status t) + timeout
      then t\<lparr>et_status := (et_status t)\<lparr>et_phase := EgressTunnelHeartbeatTimeout\<rparr>\<rparr> else t)"

lemma expire_simps [simp]: "tun_name (expire d n t) = tun_name t" "expire d n (expire d n t) = expire d n t"
  by (simp_all add: expire_def)

lemma expire_idle: "et_phase (et_status t) = EgressTunnelHeartbeatTimeout \<or> \<not> now > et_last_heartbeat (et_status t) + timeout \<Longrightarrow>
    expire timeout now t = t"
  by (cases t) (auto simp: expire_def)

lemma find_name: "distinct (map tun_name ts) \<Longrightarrow> find (\<lambda>t. tun_name t = nm) ts = Some t \<Longrightarrow> u \<in> set ts \<Longrightarrow> tun_name u = nm \<Longrightarrow> u = t"
proof -
  assume d: "distinct (map tun_name ts)" and f: "find (\<lambda>t. tun_name t = nm) ts = Some t" and u: "u \<in> set ts" "tun_name u = nm"
  have "t \<in> set ts" "tun_name t = nm" using f by (auto simp: find_Some_iff)
  then show "u = t" using d u by (auto simp: distinct_map inj_on_def)
qed

definition calm :: "egress_tunnel list \<Rightarrow> tunnel_store tunnel_world \<Rightarrow> tunnel_store tunnel_world" where
  "calm ts s = s\<lparr>tw_world := \<lparr>ts_tunnels = ts, ts_oks = []\<rparr>\<rparr>"

lemma calm_simps [simp]: "tw_world (calm ts s) = \<lparr>ts_tunnels = ts, ts_oks = []\<rparr>" "calm ts (calm us s) = calm ts s"
  "(calm ts s)\<lparr>tw_world := w\<rparr> = s\<lparr>tw_world := w\<rparr>"
  by (simp_all add: calm_def)

lemma check_tunnel_server:
  assumes "distinct (map tun_name ts)"
  shows "check_tunnel (tunnel_ctl timeout now) nm (calm ts s) =
    (Ok (), calm (map (\<lambda>u. if tun_name u = nm then expire timeout now u else u) ts) s)"
proof (cases "find (\<lambda>t. tun_name t = nm) ts")
  case None
  then have "map (\<lambda>u. if tun_name u = nm then expire timeout now u else u) ts = ts"
    by (intro map_idI) (auto simp: find_None_iff)
  then show ?thesis using None
    by (simp add: check_tunnel_def bindp_def attempt_def cluster_def tunnel_ctl_def tunnel_server_client_def ret_def calm_def)
next
  case (Some t)
  note u = find_name [OF assms Some]
  let ?ts = "map (\<lambda>u. if tun_name u = nm then expire timeout now u else u) ts"
  have nm: "tun_name t = nm" using Some by (auto simp: find_Some_iff)
  have g: "tc_get_tunnel (e_client (tunnel_ctl timeout now)) nm (tw_world (calm ts s)) = (Ok t, tw_world (calm ts s))"
    using Some by (simp add: tunnel_ctl_def tunnel_server_client_def)
  show ?thesis
  proof (cases "now > et_last_heartbeat (et_status t) + timeout \<and> et_phase (et_status t) \<noteq> EgressTunnelHeartbeatTimeout")
    case True
    have "write_status (expire timeout now t) ts = ?ts"
      unfolding write_status_def using u nm True by (intro map_cong) (auto simp: expire_def)
    then show ?thesis using g True
      by (simp add: check_tunnel_def bindp_def attempt_def cluster_def tunnel_ctl_def tunnel_server_client_def guarded_def ret_def Let_def expire_def)
         (simp add: calm_def)
  next
    case False
    then have "expire timeout now t = t" using expire_idle by blast
    then have "?ts = ts" using u by (intro map_idI) auto
    then show ?thesis using g False
      by (simp add: check_tunnel_def bindp_def attempt_def cluster_def tunnel_ctl_def Let_def) (auto simp: calm_def)
  qed
qed

lemma check_tunnels_server:
  assumes "distinct (map tun_name ts)"
  shows "for_each (\<lambda>item _. check_tunnel (tunnel_ctl timeout now) (tun_name item)) items () (calm ts s) =
    (Ok (), calm (map (\<lambda>u. if tun_name u \<in> tun_name ` set items then expire timeout now u else u) ts) s)"
  using assms
proof (induction items arbitrary: ts)
  case (Cons a items)
  let ?ts = "map (\<lambda>u. if tun_name u = tun_name a then expire timeout now u else u) ts"
  have n: "map tun_name ?ts = map tun_name ts" by simp
  have "map (\<lambda>u. if tun_name u \<in> tun_name ` set items then expire timeout now u else u) ?ts =
      map (\<lambda>u. if tun_name u \<in> tun_name ` set (a # items) then expire timeout now u else u) ts" by auto
  then show ?case using Cons.IH [of ?ts] Cons.prems n
    by (simp add: bindp_def check_tunnel_server del: map_map)
qed (simp add: ret_def)

section \<open>Properties\<close>

text \<open>A node that has no mark yet, and a controller without address allocators.\<close>

definition ex_tunnel :: egress_tunnel where
  "ex_tunnel = \<lparr>et_meta = \<lparr>om_name = ''n1'', om_namespace = [], om_deleting = False, om_finalizers = [], om_labels = []\<rparr>,
     et_status = zero_tunnel_status\<rparr>"

definition ex_marked :: "string \<Rightarrow> egress_tunnel" where
  "ex_marked m = ex_tunnel\<lparr>et_status := zero_tunnel_status\<lparr>et_mark := m\<rparr>\<rparr>"

definition ex_world :: "range \<Rightarrow> egress_tunnel list \<Rightarrow> bool list \<Rightarrow> tunnel_store tunnel_world" where
  "ex_world m ts oks = \<lparr>tw_world = \<lparr>ts_tunnels = ts, ts_oks = oks\<rparr>, tw_mark = m, tw_v4 = None, tw_v6 = None, tw_done = True\<rparr>"

lemma ex_world_simps [simp]: "tw_mark (ex_world m ts oks) = m" "tw_world (ex_world m ts oks) = \<lparr>ts_tunnels = ts, ts_oks = oks\<rparr>"
  "tw_v4 (ex_world m ts oks) = None" "tw_v6 (ex_world m ts oks) = None"
  by (simp_all add: ex_world_def)

lemma ex_tunnel_simps [simp]: "tun_mark ex_tunnel = []" "tun_name ex_tunnel = ''n1''" "\<not> om_deleting (et_meta ex_tunnel)"
  "tun_mark (ex_marked m) = m"
  by (simp_all add: ex_tunnel_def ex_marked_def zero_tunnel_status_def)



lemma release_addrs_mark [simp]: "tw_mark (release_v4 a s) = tw_mark s" "tw_mark (release_v6 a s) = tw_mark s"
  by (simp_all add: release_v6_def release_v4_def split: option.split)


text \<open>Releasing a tunnel frees its mark before the cluster has accepted the change; when that change
  fails the error is returned but the mark stays free, although the stored tunnel still has it: the
  rollback of the code never runs.\<close>

theorem releaseEgressTunnel_no_rollback:
  assumes "range_ok (tw_mark s)" "tun_mark t \<noteq> []" "Has (tun_mark t) (tw_mark s)" "\<forall>u. fst (commit u) = Err e \<and> tw_mark (snd (commit u)) = tw_mark u"
  shows "fst (releaseEgressTunnel t commit s) = Err e \<and> \<not> Has (tun_mark t) (tw_mark (snd (releaseEgressTunnel t commit s)))"
proof -
  obtain k where k: "offset_of (tw_mark s) (tun_mark t) = Some k" using assms(3) by (auto simp: Has_offset)
  let ?m = "(tw_mark s)\<lparr>rg_alloc := bm_Release k (rg_alloc (tw_mark s))\<rparr>"
  have r: "Release (tun_mark t) (tw_mark s) = (Ok (), ?m)" by (rule Release_offset [OF k])
  have "\<not> Has (tun_mark t) ?m" using k used_release by (simp add: Has_offset)
  then show ?thesis using assms(2,4) r by (simp add: releaseEgressTunnel_def bindp_def on_mark_def)
qed

theorem releaseEgressTunnel_no_rollback_witness:
  "fst (releaseEgressTunnel (ex_marked ''0x12'') (cluster (guarded id)) (ex_world (snd (Allocate ''0x12'' ex_range)) [ex_marked ''0x12''] [False])) =
     Err (TunApi (OtherErr ''unavailable'')) \<and>
   \<not> Has ''0x12'' (tw_mark (snd (releaseEgressTunnel (ex_marked ''0x12'') (cluster (guarded id))
     (ex_world (snd (Allocate ''0x12'' ex_range)) [ex_marked ''0x12''] [False]))))"
proof -
  have o: "offset_of ex_range ''0x12'' = Some 1"
    by (simp add: offset_of_def Parse_def hex_digit_def ex_range_def contains_def calculateMarkOffset_def)
  obtain res r where a: "Allocate ''0x12'' ex_range = (res, r)" by (metis surj_pair)
  have r: "range_ok r \<and> Has ''0x12'' r" using Allocate_cases [OF ex_range_ok a] o by (auto simp: Has_offset ex_range_used)
  let ?fail = "\<lambda>s. (Err (TunApi (OtherErr ''unavailable'')), s\<lparr>tw_world := (tw_world s)\<lparr>ts_oks := tl (ts_oks (tw_world s))\<rparr>\<rparr>)"
  let ?w = "ex_world r [ex_marked ''0x12''] [False]"
  have "releaseEgressTunnel (ex_marked ''0x12'') (cluster (guarded id)) ?w = releaseEgressTunnel (ex_marked ''0x12'') ?fail ?w"
    using r by (simp add: releaseEgressTunnel_def bindp_def on_mark_def cluster_def guarded_def ex_marked_def zero_tunnel_status_def
        release_v4_def release_v6_def split: outcome.split prod.split)
  then show ?thesis
    using releaseEgressTunnel_no_rollback [of ?w "ex_marked ''0x12''" ?fail "TunApi (OtherErr ''unavailable'')"] r a by simp
qed

text \<open>A tunnel whose status cannot be written leaks a mark: the allocator has one mark more, and the
  stored tunnels are unchanged, so that the next attempt allocates another one.\<close>

theorem keepEgressTunnel_leaks_mark:
  assumes "range_ok (tw_mark s)" "card (used (tw_mark s)) < nat (rg_max (tw_mark s))" "tun_mark t = []"
    and "tw_v4 s = None" "tw_v6 s = None" "ts_oks (tw_world s) = False # oks"
  shows "\<exists>e s'. keepEgressTunnel (tunnel_ctl timeout now) t s = (Err e, s') \<and> card (used (tw_mark s')) = card (used (tw_mark s)) + 1 \<and>
    ts_tunnels (tw_world s') = ts_tunnels (tw_world s)"
proof -
  have m: "tun_mark (keep_mac t) = []" using assms(3) by (simp add: keep_mac_def set_tunnel_def)
  obtain x k m' where a: "AllocateNext (\<lambda>n. 0) (tw_mark s) = (Ok x, m')" "k \<notin> used (tw_mark s)" "used m' = insert k (used (tw_mark s))"
    using marks.next_free [OF assms(1,2), of "\<lambda>n. 0"] by auto
  have "card (used m') = card (used (tw_mark s)) + 1" using a marks.finite_taken [OF assms(1)] by simp
  then show ?thesis using a(1) m assms(4-6)
    by (simp add: keepEgressTunnel_def keep_mark_def keep_v4_def keep_v6_def draw_offset_def on_mark_def bindp_def ret_def tunnel_ctl_def
        updateEgressTunnel_def cluster_def tunnel_server_client_def guarded_def Let_def)
qed

theorem keepEgressTunnel_leaks_mark_witness:
  "\<exists>e s'. keepEgressTunnel (tunnel_ctl 5 0) ex_tunnel (ex_world ex_range [ex_tunnel] [False]) = (Err e, s') \<and>
    card (used (tw_mark s')) = 1 \<and> ts_tunnels (tw_world s') = [ex_tunnel]"
  using keepEgressTunnel_leaks_mark [of "ex_world ex_range [ex_tunnel] [False]" ex_tunnel "[]" 5 0]
  by (simp add: ex_range_ok ex_range_used ex_range_max)

text \<open>A status update writes the phase Ready only for a tunnel that was already in it and has a parent
  interface, a mark, a MAC address and an address of every enabled family.\<close>

theorem updateEgressTunnel_ready:
  "checked_phase v4 v6 st = EgressTunnelReady \<longleftrightarrow> et_phase st = EgressTunnelReady \<and> parent_name (tunnel_parent (et_tunnel st)) \<noteq> [] \<and>
     et_mark st \<noteq> [] \<and> (v4 \<longrightarrow> tunnel_ipv4 (et_tunnel st) \<noteq> []) \<and> (v6 \<longrightarrow> tunnel_ipv6 (et_tunnel st) \<noteq> []) \<and>
     tunnel_mac (et_tunnel st) \<noteq> []"
  by (auto simp: checked_phase_def Let_def EgressTunnelReady_def EgressTunnelInit_def EgressTunnelPending_def)

theorem updateEgressTunnel_ready_witness:
  "checked_phase True False (zero_tunnel_status\<lparr>et_phase := EgressTunnelReady, et_mark := ''0x12''\<rparr>) \<noteq> EgressTunnelReady"
  using updateEgressTunnel_ready [of True False "zero_tunnel_status\<lparr>et_phase := EgressTunnelReady, et_mark := ''0x12''\<rparr>"]
  by (simp add: zero_tunnel_status_def)

text \<open>One round of the health check on a server that accepts every write puts exactly the tunnels whose
  last heartbeat is older than the timeout into the phase HeartbeatTimeout, and changes nothing else.\<close>

theorem tunnelListCheck_exact:
  assumes "distinct (map tun_name ts)"
  shows "tunnelListCheck (tunnel_ctl timeout now) (calm ts s) = (Ok (), calm (map (expire timeout now) ts) s)"
proof -
  have m: "map (\<lambda>u. if tun_name u \<in> tun_name ` set ts then expire timeout now u else u) ts = map (expire timeout now) ts"
    by (intro map_cong) auto
  have l: "cluster (tc_list (e_client (tunnel_ctl timeout now))) (calm ts s) = (Ok ts, calm ts s)"
    by (simp add: cluster_def tunnel_ctl_def tunnel_server_client_def calm_def)
  show ?thesis using check_tunnels_server [OF assms, of timeout now ts s]
    by (simp add: tunnelListCheck_def bindp_def l m)
qed

theorem tunnelListCheck_exact_witness:
  "ts_tunnels (tw_world (snd (tunnelListCheck (tunnel_ctl 5 6) (ex_world ex_range [ex_tunnel] [])))) = [expire 5 6 ex_tunnel] \<and>
   et_phase (et_status (expire 5 6 ex_tunnel)) = EgressTunnelHeartbeatTimeout"
proof -
  have "ex_world ex_range [ex_tunnel] [] = calm [ex_tunnel] (ex_world ex_range [] [])" by (simp add: ex_world_def calm_def)
  then show ?thesis using tunnelListCheck_exact [of "[ex_tunnel]" 5 6 "ex_world ex_range [] []"]
    by (simp add: expire_def ex_tunnel_def zero_tunnel_status_def)
qed

end
