(* ===== verification/EndpointSlice.thy ===== *)
theory EndpointSlice
  imports GatewayCtl "HOL-Library.List_Lexorder" "HOL-Library.Char_ord"
begin

text \<open>
  \<^verbatim>\<open>pkg/controller/endpoint\<close>: the controllers that spread the pods a policy selects over
  endpoint slices of bounded size, for namespaced policies (\<^verbatim>\<open>endpoint_slice.go\<close>) and for
  cluster policies (\<^verbatim>\<open>cluster_endpoint_slice.go\<close>), with the event filters and mappings
  and the request coalescing of \<^verbatim>\<open>pkg/coalescing\<close>. The two reconcile functions share their
  text, which is modelled once. The clients and the conversion of label selectors are parameters.
  Of an owner reference the kind and the name are kept.
\<close>

section \<open>Pods, endpoints and slices\<close>

record pod =
  pod_meta :: object_meta
  pod_node :: string
  pod_ips :: "string list"

record k8s_namespace =
  ns_meta :: object_meta

record egress_endpoint =
  ee_namespace :: string
  ee_pod :: string
  ee_ipv4 :: "string list"
  ee_ipv6 :: "string list"
  ee_node :: string

record egress_endpoint_slice =
  es_meta :: object_meta
  es_generate_name :: string
  es_owners :: "(string \<times> string) list"
  es_endpoints :: "egress_endpoint list"

type_synonym object_key = "string \<times> string"

definition meta_key :: "object_meta \<Rightarrow> object_key" where
  "meta_key m = (om_namespace m, om_name m)"

abbreviation pod_key :: "pod \<Rightarrow> object_key" where
  "pod_key p \<equiv> meta_key (pod_meta p)"

definition ep_key :: "egress_endpoint \<Rightarrow> object_key" where
  "ep_key ep = (ee_namespace ep, ee_pod ep)"

definition LabelPolicyName :: string where
  "LabelPolicyName = ''spidernet.io/policy-name''"

text \<open>The addresses of a pod by family; an invalid one belongs to none.\<close>

definition pod_ipv4 :: "pod \<Rightarrow> string list" where
  "pod_ipv4 p = filter (\<lambda>ip. to4 (ParseIP ip) \<noteq> nil_ip) (pod_ips p)"

definition pod_ipv6 :: "pod \<Rightarrow> string list" where
  "pod_ipv6 p = filter (\<lambda>ip. to4 (ParseIP ip) = nil_ip \<and> to16 (ParseIP ip) \<noteq> nil_ip) (pod_ips p)"

definition newEndpoint :: "pod \<Rightarrow> egress_endpoint option" where
  "newEndpoint p =
     (if length (pod_ipv4 p) = 0 \<and> length (pod_ipv6 p) = 0 then None
      else Some \<lparr>ee_namespace = om_namespace (pod_meta p), ee_pod = om_name (pod_meta p),
        ee_ipv4 = pod_ipv4 p, ee_ipv6 = pod_ipv6 p, ee_node = pod_node p\<rparr>)"

definition sliceEqual :: "string list \<Rightarrow> string list \<Rightarrow> bool" where
  "sliceEqual a b = (if length a \<noteq> length b then False else list_all (\<lambda>i. a ! i = b ! i) [0..<length a])"

definition needUpdateEndpoint :: "pod \<Rightarrow> egress_endpoint \<Rightarrow> bool \<times> egress_endpoint" where
  "needUpdateEndpoint p ep =
     (let exp4 = sort (pod_ipv4 p); exp6 = sort (pod_ipv6 p);
          (u1, ep) = (if \<not> sliceEqual exp4 (ee_ipv4 ep) then (True, ep\<lparr>ee_ipv4 := exp4\<rparr>) else (False, ep));
          (u2, ep) = (if \<not> sliceEqual exp6 (ee_ipv6 ep) then (True, ep\<lparr>ee_ipv6 := exp6\<rparr>) else (u1, ep))
      in if pod_node p \<noteq> ee_node ep then (True, ep\<lparr>ee_node := pod_node p\<rparr>) else (u2, ep))"

section \<open>Names of new slices\<close>

text \<open>The name validation of \<^verbatim>\<open>k8s.io/apimachinery\<close>.\<close>

definition maskTrailingDash :: "string \<Rightarrow> string" where
  "maskTrailingDash nm = (if length nm > 1 \<and> last nm = CHR ''-'' then take (length nm - 2) nm @ ''a'' else nm)"

definition dns_alnum :: "char \<Rightarrow> bool" where
  "dns_alnum c = (CHR ''a'' \<le> c \<and> c \<le> CHR ''z'' \<or> CHR ''0'' \<le> c \<and> c \<le> CHR ''9'')"

definition dns_label :: "string \<Rightarrow> bool" where
  "dns_label s = (s \<noteq> [] \<and> dns_alnum (hd s) \<and> dns_alnum (last s) \<and> list_all (\<lambda>c. dns_alnum c \<or> c = CHR ''-'') s)"

definition IsDNS1123Subdomain :: "string \<Rightarrow> bool" where
  "IsDNS1123Subdomain s = (length s \<le> 253 \<and> list_all dns_label (split_on (CHR ''.'') s))"

definition getEndpointSlicePrefix :: "string \<Rightarrow> string" where
  "getEndpointSlicePrefix nm =
     (let prefix = nm @ ''-'' in if \<not> IsDNS1123Subdomain (maskTrailingDash prefix) then nm else prefix)"

definition blank_slice :: "string \<Rightarrow> object_meta \<Rightarrow> egress_endpoint_slice" where
  "blank_slice kind m = \<lparr>
     es_meta = \<lparr>om_name = [], om_namespace = om_namespace m, om_deleting = False, om_finalizers = [],
       om_labels = [(LabelPolicyName, om_name m)]\<rparr>,
     es_generate_name = getEndpointSlicePrefix (om_name m),
     es_owners = [(kind, om_name m)], es_endpoints = []\<rparr>"

definition newEndpointSlice :: "egress_policy \<Rightarrow> egress_endpoint_slice" where
  "newEndpointSlice policy = blank_slice ''EgressPolicy'' (ep_meta policy)"

definition newClusterEndpointSlice :: "egress_cluster_policy \<Rightarrow> egress_endpoint_slice" where
  "newClusterEndpointSlice policy = blank_slice ''EgressClusterPolicy'' (ecp_meta policy)"

section \<open>Distributing the pods\<close>

text \<open>The loop over the endpoints of a slice: whether it changes, and the endpoints that stay.\<close>

fun refresh :: "(object_key \<rightharpoonup> pod) \<Rightarrow> egress_endpoint list \<Rightarrow> bool \<times> egress_endpoint list" where
  "refresh podMap [] = (False, [])"
| "refresh podMap (ep # eps) =
     (case podMap (ep_key ep) of
        Some p \<Rightarrow> (case needUpdateEndpoint p ep of (u, ep') \<Rightarrow>
          case refresh podMap eps of (v, eps') \<Rightarrow> (u \<or> v, ep' # eps'))
      | None \<Rightarrow> (True, snd (refresh podMap eps)))"

definition pod_map :: "pod list \<Rightarrow> object_key \<rightharpoonup> pod" where
  "pod_map pods = map_of (rev (map (\<lambda>p. (pod_key p, p)) pods))"

definition refresh_slice :: "(object_key \<rightharpoonup> pod) \<Rightarrow> egress_endpoint_slice \<Rightarrow> bool \<times> egress_endpoint_slice" where
  "refresh_slice podMap s = (case refresh podMap (es_endpoints s) of (u, eps) \<Rightarrow> (u, s\<lparr>es_endpoints := eps\<rparr>))"

definition existing_keys :: "(object_key \<rightharpoonup> pod) \<Rightarrow> egress_endpoint_slice list \<Rightarrow> object_key list" where
  "existing_keys podMap slices = filter (\<lambda>k. podMap k \<noteq> None) (map ep_key (concat (map es_endpoints slices)))"

definition needToCreate :: "pod list \<Rightarrow> object_key list \<Rightarrow> egress_endpoint list" where
  "needToCreate pods existing = List.map_filter newEndpoint (filter (\<lambda>p. pod_key p \<notin> set existing) pods)"

definition add_endpoints :: "egress_endpoint list \<Rightarrow> egress_endpoint_slice \<Rightarrow> egress_endpoint_slice" where
  "add_endpoints eps s = s\<lparr>es_endpoints := es_endpoints s @ eps\<rparr>"

fun fill_updates :: "int \<Rightarrow> egress_endpoint_slice list \<Rightarrow> egress_endpoint list \<Rightarrow>
    egress_endpoint_slice list \<times> egress_endpoint list" where
  "fill_updates mx [] new = ([], new)"
| "fill_updates mx (s # ss) new =
     (if int (length (es_endpoints s)) < mx then
        let count = nat (mx - int (length (es_endpoints s))) in
        if count < length new
        then (case fill_updates mx ss (drop count new) of (ss', rest) \<Rightarrow> (add_endpoints (take count new) s # ss', rest))
        else (add_endpoints new s # ss, [])
      else (case fill_updates mx ss new of (ss', rest) \<Rightarrow> (s # ss', rest)))"

text \<open>The slices of the second loop are appended to those to update.\<close>

fun fill_unchanged :: "int \<Rightarrow> egress_endpoint_slice list \<Rightarrow> egress_endpoint list \<Rightarrow>
    egress_endpoint_slice list \<times> egress_endpoint list" where
  "fill_unchanged mx [] new = ([], new)"
| "fill_unchanged mx (s # ss) new =
     (if int (length (es_endpoints s)) < mx then
        let count = nat (mx - int (length (es_endpoints s))) in
        if count < length new
        then (case fill_unchanged mx ss (drop count new) of (ss', rest) \<Rightarrow> (add_endpoints (take count new) s # ss', rest))
        else ([add_endpoints new s], [])
      else fill_unchanged mx ss new)"

text \<open>
  The loop that creates slices. A limit of zero takes no endpoint per round and never ends; a
  negative limit is a slice bound out of range.
\<close>

partial_function (option) create_loop :: "int \<Rightarrow> egress_endpoint_slice \<Rightarrow> egress_endpoint list \<Rightarrow>
    egress_endpoint_slice list \<Rightarrow> egress_endpoint_slice list option" where
  "create_loop mx blank new acc =
     (if length new = 0 then Some acc
      else if int (length new) > mx
      then create_loop mx blank (drop (nat mx) new) (acc @ [add_endpoints (take (nat mx) new) blank])
      else create_loop mx blank [] (acc @ [add_endpoints new blank]))"

datatype ep_err = EpApi api_err | EpSelector | EpAggregate "api_err list"

definition create_slices :: "int \<Rightarrow> egress_endpoint_slice \<Rightarrow> egress_endpoint list \<Rightarrow> (ep_err, egress_endpoint_slice list) outcome" where
  "create_slices mx blank new = (if length new > 0 \<and> mx < 0 then Panic else of_loop (create_loop mx blank new []))"

definition plan :: "int \<Rightarrow> egress_endpoint_slice \<Rightarrow> pod list \<Rightarrow> egress_endpoint_slice list \<Rightarrow>
    (ep_err, egress_endpoint_slice list \<times> egress_endpoint_slice list) outcome" where
  "plan mx blank pods slices =
     (let podMap = pod_map pods;
          scanned = map (refresh_slice podMap) slices;
          slicesToUpdate = map snd (filter fst scanned);
          slicesNotChange = map snd (filter (\<lambda>x. \<not> fst x) scanned);
          new = needToCreate pods (existing_keys podMap slices);
          (toUpdate, rest) = (if length new > 0
            then case fill_updates mx slicesToUpdate new of (ups, rest) \<Rightarrow>
              case fill_unchanged mx slicesNotChange rest of (extra, rest) \<Rightarrow> (ups @ extra, rest)
            else (slicesToUpdate, new))
      in oc_bind (create_slices mx blank rest) (\<lambda>toCreate. Ok (toUpdate, toCreate)))"

section \<open>The reconcilers\<close>

record 'w slice_api =
  sa_update :: "egress_endpoint_slice \<Rightarrow> ('w, unit) api"
  sa_create :: "egress_endpoint_slice \<Rightarrow> ('w, unit) api"
  sa_delete :: "egress_endpoint_slice \<Rightarrow> ('w, unit) api"

type_synonym ('w, 'a) epr = "('w, ep_err, 'a) prog"

definition collect :: "('w, unit) api \<Rightarrow> api_err list \<Rightarrow> ('w, 'e, api_err list) prog" where
  "collect m errs = bindp (attempt m) (\<lambda>x. ret (case x of Inl e \<Rightarrow> errs @ [e] | Inr _ \<Rightarrow> errs))"

definition push :: "'w slice_api \<Rightarrow> egress_endpoint_slice list \<Rightarrow> egress_endpoint_slice list \<Rightarrow> ('w, unit) epr" where
  "push cli toUpdate toCreate =
     bindp (for_each (\<lambda>s (errs, toDelete).
         if length (es_endpoints s) = 0 then ret (errs, toDelete @ [s])
         else bindp (collect (sa_update cli s) errs) (\<lambda>errs. ret (errs, toDelete))) toUpdate ([], [])) (\<lambda>(errs, toDelete).
     bindp (for_each (\<lambda>s. collect (sa_create cli s)) toCreate errs) (\<lambda>errs.
     bindp (for_each (\<lambda>s. collect (sa_delete cli s)) toDelete errs) (\<lambda>errs.
     if errs = [] then ret () else fail (EpAggregate errs))))"

type_synonym conversion = "label_selector option \<Rightarrow> (labels \<Rightarrow> bool) option"

definition as_selector :: "conversion \<Rightarrow> label_selector option \<Rightarrow> ('w, labels \<Rightarrow> bool) epr" where
  "as_selector conv sel = lift (case conv sel of None \<Rightarrow> Err EpSelector | Some f \<Rightarrow> Ok f)"

definition policy_label :: "string \<Rightarrow> label_selector option" where
  "policy_label nm = Some \<lparr>match_labels = [(LabelPolicyName, nm)], match_expressions = []\<rparr>"

text \<open>A list call takes a namespace, or none for all namespaces, and a selector.\<close>

record 'w endpointReconciler =
  er_conv :: conversion
  er_max :: int
  er_get_policy :: "object_key \<Rightarrow> ('w, egress_policy) api"
  er_list_policies :: "('w, egress_policy list) api"
  er_list_pods :: "string option \<Rightarrow> (labels \<Rightarrow> bool) \<Rightarrow> ('w, pod list) api"
  er_list_slices :: "string option \<Rightarrow> (labels \<Rightarrow> bool) \<Rightarrow> ('w, egress_endpoint_slice list) api"
  er_slices :: "'w slice_api"

definition listPodsByPolicy :: "'w endpointReconciler \<Rightarrow> egress_policy \<Rightarrow> ('w, pod list) epr" where
  "listPodsByPolicy r policy =
     bindp (as_selector (er_conv r) (pod_selector (ep_applied_to (ep_spec policy)))) (\<lambda>sel.
     or_fail EpApi (er_list_pods r (Some (om_namespace (ep_meta policy))) sel))"

definition listEndpointSlices :: "'w endpointReconciler \<Rightarrow> string \<Rightarrow> string \<Rightarrow> ('w, egress_endpoint_slice list) epr" where
  "listEndpointSlices r namespace policyName =
     bindp (as_selector (er_conv r) (policy_label policyName)) (\<lambda>sel.
     or_fail EpApi (er_list_slices r (Some namespace) sel))"

definition fetch_live :: "('a \<Rightarrow> object_meta) \<Rightarrow> ('w, 'a) api \<Rightarrow> ('w, 'a option) epr" where
  "fetch_live meta m = bindp (attempt m) (\<lambda>x. case x of
     Inl e \<Rightarrow> if e \<noteq> NotFound then fail (EpApi e) else ret None
   | Inr obj \<Rightarrow> ret (if om_deleting (meta obj) then None else Some obj))"

definition ep_Reconcile :: "'w endpointReconciler \<Rightarrow> request \<Rightarrow> ('w, unit) epr" where
  "ep_Reconcile r req =
     bindp (fetch_live ep_meta (er_get_policy r (req_namespace req, req_name req))) (\<lambda>p. case p of
       None \<Rightarrow> ret ()
     | Some policy \<Rightarrow>
         bindp (listPodsByPolicy r policy) (\<lambda>pods.
         bindp (listEndpointSlices r (om_namespace (ep_meta policy)) (om_name (ep_meta policy))) (\<lambda>slices.
         bindp (lift (plan (er_max r) (newEndpointSlice policy) pods slices)) (\<lambda>(toUpdate, toCreate).
         push (er_slices r) toUpdate toCreate))))"

record 'w endpointClusterReconciler =
  cr_conv :: conversion
  cr_max :: int
  cr_get_policy :: "object_key \<Rightarrow> ('w, egress_cluster_policy) api"
  cr_list_policies :: "('w, egress_cluster_policy list) api"
  cr_list_pods :: "string option \<Rightarrow> (labels \<Rightarrow> bool) \<Rightarrow> ('w, pod list) api"
  cr_list_namespaces :: "(labels \<Rightarrow> bool) option \<Rightarrow> ('w, k8s_namespace list) api"
  cr_get_namespace :: "string \<Rightarrow> ('w, k8s_namespace) api"
  cr_list_slices :: "string option \<Rightarrow> (labels \<Rightarrow> bool) \<Rightarrow> ('w, egress_endpoint_slice list) api"
  cr_slices :: "'w slice_api"

definition listPodsByClusterPolicy :: "'w endpointClusterReconciler \<Rightarrow> egress_cluster_policy \<Rightarrow> ('w, pod list) epr" where
  "listPodsByClusterPolicy r policy =
     (let to = ecp_applied_to (ecp_spec policy) in
      case namespace_selector to of
        None \<Rightarrow>
          bindp (as_selector (cr_conv r) (cpod_selector to)) (\<lambda>sel.
          or_fail EpApi (cr_list_pods r None sel))
      | Some _ \<Rightarrow>
          bindp (as_selector (cr_conv r) (namespace_selector to)) (\<lambda>nsSel.
          bindp (or_fail EpApi (cr_list_namespaces r (Some nsSel))) (\<lambda>nsList.
          for_each (\<lambda>ns res.
            bindp (as_selector (cr_conv r) (cpod_selector to)) (\<lambda>sel.
            bindp (or_fail EpApi (cr_list_pods r (Some (om_name (ns_meta ns))) sel)) (\<lambda>pods.
            ret (res @ pods)))) nsList [])))"

definition listClusterEndpointSlices :: "'w endpointClusterReconciler \<Rightarrow> string \<Rightarrow> ('w, egress_endpoint_slice list) epr" where
  "listClusterEndpointSlices r policyName =
     bindp (as_selector (cr_conv r) (policy_label policyName)) (\<lambda>sel.
     or_fail EpApi (cr_list_slices r None sel))"

definition cluster_Reconcile :: "'w endpointClusterReconciler \<Rightarrow> request \<Rightarrow> ('w, unit) epr" where
  "cluster_Reconcile r req =
     bindp (fetch_live ecp_meta (cr_get_policy r (req_namespace req, req_name req))) (\<lambda>p. case p of
       None \<Rightarrow> ret ()
     | Some policy \<Rightarrow>
         bindp (listPodsByClusterPolicy r policy) (\<lambda>pods.
         bindp (listClusterEndpointSlices r (om_name (ecp_meta policy))) (\<lambda>slices.
         bindp (lift (plan (cr_max r) (newClusterEndpointSlice policy) pods slices)) (\<lambda>(toUpdate, toCreate).
         push (cr_slices r) toUpdate toCreate))))"

section \<open>Events\<close>

datatype 'a k8s_event = CreateEvent 'a | DeleteEvent 'a | UpdateEvent 'a 'a | GenericEvent 'a

text \<open>Label maps are compared as maps.\<close>

definition same_labels :: "labels \<Rightarrow> labels \<Rightarrow> bool" where
  "same_labels a b = list_all (\<lambda>k. map_of a k = map_of b k) (map fst a @ map fst b)"

fun podPredicate :: "pod k8s_event \<Rightarrow> bool" where
  "podPredicate (CreateEvent p) = (length (pod_ips p) \<noteq> 0)"
| "podPredicate (DeleteEvent p) = True"
| "podPredicate (UpdateEvent old new) =
     (\<not> (same_labels (om_labels (pod_meta old)) (om_labels (pod_meta new)) \<and> pod_ips old = pod_ips new \<and>
        pod_node old = pod_node new))"
| "podPredicate (GenericEvent p) = True"

fun nsPredicate :: "k8s_namespace k8s_event \<Rightarrow> bool" where
  "nsPredicate (CreateEvent n) = True"
| "nsPredicate (DeleteEvent n) = True"
| "nsPredicate (UpdateEvent old new) = (\<not> same_labels (om_labels (ns_meta old)) (om_labels (ns_meta new)))"
| "nsPredicate (GenericEvent n) = True"

definition request_of :: "object_meta \<Rightarrow> request" where
  "request_of m = \<lparr>req_namespace = om_namespace m, req_name = om_name m\<rparr>"

text \<open>A mapping function that fails enqueues nothing.\<close>

definition or_nothing :: "('w, 'e, 'a list) prog \<Rightarrow> ('w, 'f, 'a list) prog" where
  "or_nothing m = bindp (attempt m) (\<lambda>x. ret (case x of Inl _ \<Rightarrow> [] | Inr xs \<Rightarrow> xs))"

definition enqueuePod :: "'w endpointReconciler \<Rightarrow> pod \<Rightarrow> ('w, 'e, request list) prog" where
  "enqueuePod r p = or_nothing (
     bindp (or_fail EpApi (er_list_policies r)) (\<lambda>policies.
     for_each (\<lambda>policy res.
       bindp (as_selector (er_conv r) (pod_selector (ep_applied_to (ep_spec policy)))) (\<lambda>sel.
       ret (if sel (om_labels (pod_meta p)) then res @ [request_of (ep_meta policy)] else res))) policies []))"

definition enqueueNS :: "'w endpointClusterReconciler \<Rightarrow> k8s_namespace \<Rightarrow> ('w, 'e, request list) prog" where
  "enqueueNS r ns = or_nothing (
     bindp (or_fail EpApi (cr_list_policies r)) (\<lambda>policies.
     for_each (\<lambda>policy res.
       bindp (as_selector (cr_conv r) (namespace_selector (ecp_applied_to (ecp_spec policy)))) (\<lambda>sel.
       ret (if sel (om_labels (ns_meta ns)) then res @ [request_of (ecp_meta policy)] else res))) policies []))"

definition enqueueEGCP :: "'w endpointClusterReconciler \<Rightarrow> pod \<Rightarrow> ('w, 'e, request list) prog" where
  "enqueueEGCP r p = or_nothing (
     bindp (or_fail EpApi (cr_list_policies r)) (\<lambda>policies.
     bindp (or_fail EpApi (cr_list_namespaces r None)) (\<lambda>_.
     for_each (\<lambda>policy res.
       let to = ecp_applied_to (ecp_spec policy) in
       bindp (as_selector (cr_conv r) (cpod_selector to)) (\<lambda>sel.
       if sel (om_labels (pod_meta p)) then
         (case namespace_selector to of
            None \<Rightarrow> ret (res @ [request_of (ecp_meta policy)])
          | Some _ \<Rightarrow>
              bindp (or_fail EpApi (cr_get_namespace r (om_namespace (pod_meta p)))) (\<lambda>ns.
              bindp (as_selector (cr_conv r) (namespace_selector to)) (\<lambda>selNS.
              ret (if selNS (om_labels (ns_meta ns)) then res @ [request_of (ecp_meta policy)] else res))))
       else ret res)) policies [])))"

section \<open>Coalescing requests\<close>

text \<open>
  \<^verbatim>\<open>coalescing.go\<close>: a request that was reconciled without error less than a window ago is put
  off. The time-to-live cache of a third-party package is a parameter: \<open>peek\<close> gives the
  expiry of a key that has not expired, \<open>add\<close> starts a new window. Durations are in nanoseconds.
\<close>

record 'w request_cache =
  rc_peek :: "string \<Rightarrow> 'w \<Rightarrow> int option \<times> 'w"
  rc_add :: "string \<Rightarrow> 'w \<Rightarrow> 'w"
  rc_now :: "'w \<Rightarrow> int \<times> 'w"

datatype 'a coalesced = RequeueAfter int | Upstream 'a

definition request_string :: "request \<Rightarrow> string" where
  "request_string req = req_namespace req @ ''/'' @ req_name req"

definition coalescing_Reconcile :: "'w request_cache \<Rightarrow> (request \<Rightarrow> ('w, 'e, 'a) prog) \<Rightarrow> request \<Rightarrow> ('w, 'e, 'a coalesced) prog" where
  "coalescing_Reconcile cache upstream req = (\<lambda>w. case rc_peek cache (request_string req) w of
     (Some expiration, w) \<Rightarrow> (case rc_now cache w of (now, w) \<Rightarrow>
        (Ok (RequeueAfter (max (expiration - now) 1000000000)), w))
   | (None, w) \<Rightarrow> bindp (upstream req) (\<lambda>result w. (Ok (Upstream result), rc_add cache (request_string req) w)) w)"

end
