(* ===== verification/EndpointPlan.thy ===== *)
theory EndpointPlan
  imports EndpointSlice
begin

text \<open>
  What the distribution of pods over endpoint slices computes: the endpoints that stay are exactly
  those of selected pods, brought up to date; the new endpoints are cut into pieces that fill slices
  up to the limit.
\<close>

section \<open>Endpoints that stay\<close>

definition sorted_endpoint :: "pod \<Rightarrow> egress_endpoint" where
  "sorted_endpoint p = \<lparr>ee_namespace = om_namespace (pod_meta p), ee_pod = om_name (pod_meta p),
     ee_ipv4 = sort (pod_ipv4 p), ee_ipv6 = sort (pod_ipv6 p), ee_node = pod_node p\<rparr>"

definition sort_addresses :: "egress_endpoint \<Rightarrow> egress_endpoint" where
  "sort_addresses ep = ep\<lparr>ee_ipv4 := sort (ee_ipv4 ep), ee_ipv6 := sort (ee_ipv6 ep)\<rparr>"

lemma sorted_endpoint_simps [simp]: "ep_key (sorted_endpoint p) = pod_key p" "sort_addresses (sorted_endpoint p) = sorted_endpoint p"
  "ep_key (sort_addresses ep) = ep_key ep"
  by (simp_all add: sorted_endpoint_def sort_addresses_def ep_key_def meta_key_def sorted_sort_id)

lemma sliceEqual_iff: "sliceEqual a b \<longleftrightarrow> a = b"
  by (auto simp: sliceEqual_def list_all_iff intro: nth_equalityI)

lemma needUpdateEndpoint_eq:
  assumes "ep_key ep = pod_key p"
  shows "needUpdateEndpoint p ep = (sorted_endpoint p \<noteq> ep, sorted_endpoint p)"
  using assms by (cases ep) (auto simp: needUpdateEndpoint_def sliceEqual_iff sorted_endpoint_def ep_key_def meta_key_def Let_def)

definition kept :: "(object_key \<rightharpoonup> pod) \<Rightarrow> egress_endpoint list \<Rightarrow> egress_endpoint list" where
  "kept m eps = map sorted_endpoint (List.map_filter (\<lambda>ep. m (ep_key ep)) eps)"

lemma kept_simps [simp]: "kept m [] = []"
  "kept m (ep # eps) = (case m (ep_key ep) of None \<Rightarrow> kept m eps | Some p \<Rightarrow> sorted_endpoint p # kept m eps)"
  by (simp_all add: kept_def map_filter_simps split: option.split)

lemma length_kept: "length (kept m eps) \<le> length eps"
  by (induction eps) (auto split: option.split)

lemma refresh_eq:
  assumes "\<And>k p. m k = Some p \<Longrightarrow> pod_key p = k"
  shows "refresh m eps = (kept m eps \<noteq> eps, kept m eps)"
proof (induction eps)
  case (Cons ep eps)
  show ?case
  proof (cases "m (ep_key ep)")
    case None
    have "kept m eps \<noteq> ep # eps" using length_kept [of m eps] by (auto dest: arg_cong [of _ _ length])
    then show ?thesis using None Cons.IH by simp
  next
    case (Some p)
    then have "pod_key p = ep_key ep" by (rule assms)
    then have "needUpdateEndpoint p ep = (sorted_endpoint p \<noteq> ep, sorted_endpoint p)" by (intro needUpdateEndpoint_eq) simp
    then show ?thesis using Some Cons.IH by simp
  qed
qed simp

lemma pod_map_key: "pod_map pods k = Some p \<Longrightarrow> pod_key p = k \<and> p \<in> set pods"
  unfolding pod_map_def using map_of_SomeD by fastforce

lemma pod_map_None: "pod_map pods k = None \<longleftrightarrow> k \<notin> pod_key ` set pods"
  by (simp add: pod_map_def map_of_eq_None_iff image_image)

lemma pod_map_Some:
  assumes "distinct (map pod_key pods)" "p \<in> set pods"
  shows "pod_map pods (pod_key p) = Some p"
proof -
  obtain q where "pod_map pods (pod_key p) = Some q"
    using assms(2) pod_map_None [of pods "pod_key p"] by (cases "pod_map pods (pod_key p)") auto
  then show ?thesis using pod_map_key assms by (metis distinct_map inj_onD)
qed

definition current :: "pod list \<Rightarrow> egress_endpoint_slice \<Rightarrow> egress_endpoint_slice" where
  "current pods s = s\<lparr>es_endpoints := kept (pod_map pods) (es_endpoints s)\<rparr>"

lemma current_simps [simp]: "es_meta (current pods s) = es_meta s"
  "es_endpoints (current pods s) = kept (pod_map pods) (es_endpoints s)"
  by (simp_all add: current_def)

lemma refresh_slice_eq: "refresh_slice (pod_map pods) s = (current pods s \<noteq> s, current pods s)"
proof -
  have "s\<lparr>es_endpoints := x\<rparr> = s \<longleftrightarrow> x = es_endpoints s" for x by (cases s) auto
  then show ?thesis using refresh_eq [of "pod_map pods" "es_endpoints s"] pod_map_key
    by (simp add: refresh_slice_def current_def)
qed

section \<open>Filling slices\<close>

text \<open>The slices \<open>os\<close> with the pieces \<open>ns\<close> of new endpoints appended.\<close>

definition filled :: "egress_endpoint list list \<Rightarrow> egress_endpoint_slice list \<Rightarrow> egress_endpoint_slice list" where
  "filled ns ss = map2 add_endpoints ns ss"

lemma filled_simps [simp]: "filled [] ss = []" "filled ns [] = []" "filled (n # ns) (s # ss) = add_endpoints n s # filled ns ss"
  "length ns = length ss \<Longrightarrow> filled (ns @ ms) (ss @ ts) = filled ns ss @ filled ms ts"
  by (simp_all add: filled_def)

lemma add_nothing [simp]: "add_endpoints [] s = s"
  by (simp add: add_endpoints_def)

lemma filled_nothing [simp]: "filled (replicate (length ss) []) ss = ss"
  by (induction ss) auto

definition fits :: "int \<Rightarrow> egress_endpoint list \<Rightarrow> egress_endpoint_slice \<Rightarrow> bool" where
  "fits mx n s \<longleftrightarrow> n = [] \<or> int (length (es_endpoints s) + length n) \<le> mx"

lemma fits_nothing [simp]: "fits mx [] s"
  by (simp add: fits_def)

lemma all_fit_nothing: "list_all2 (fits mx) (replicate (length ss) []) ss"
  by (simp add: list_all2_conv_all_nth)

lemma fill_updates_spec:
  assumes "fill_updates mx ss new = (us, rest)"
  shows "\<exists>ns. us = filled ns ss \<and> list_all2 (fits mx) ns ss \<and> concat ns @ rest = new"
  using assms
proof (induction mx ss new arbitrary: us rest rule: fill_updates.induct)
  case (2 mx s ss new)
  let ?count = "nat (mx - int (length (es_endpoints s)))"
  consider (skip) "\<not> int (length (es_endpoints s)) < mx" | (part) "int (length (es_endpoints s)) < mx" "?count < length new"
    | (all) "int (length (es_endpoints s)) < mx" "\<not> ?count < length new" by blast
  then show ?case
  proof cases
    case skip
    obtain us' r where f: "fill_updates mx ss new = (us', r)" by (metis surj_pair)
    obtain ns where "us' = filled ns ss" "list_all2 (fits mx) ns ss" "concat ns @ r = new" using "2.IH"(2) [OF skip f] by blast
    then show ?thesis using 2(3) f skip by (intro exI [of _ "[] # ns"]) auto
  next
    case part
    obtain us' r where f: "fill_updates mx ss (drop ?count new) = (us', r)" by (metis surj_pair)
    obtain ns where n: "us' = filled ns ss" "list_all2 (fits mx) ns ss" "concat ns @ r = drop ?count new"
      using "2.IH"(1) [OF part(1) refl part(2) f] by blast
    have "fits mx (take ?count new) s" using part by (simp add: fits_def)
    then show ?thesis using 2(3) f part n by (intro exI [of _ "take ?count new # ns"]) (auto simp: Let_def)
  next
    case all
    have "fits mx new s" using all by (simp add: fits_def) linarith
    then show ?thesis using 2(3) all all_fit_nothing [of mx ss]
      by (intro exI [of _ "new # replicate (length ss) []"]) (auto simp: Let_def)
  qed
qed simp

lemma fill_unchanged_spec:
  assumes "fill_unchanged mx ss new = (us, rest)"
  shows "\<exists>ns ts. us = filled ns ts \<and> list_all2 (fits mx) ns ts \<and> mset ts \<subseteq># mset ss \<and> concat ns @ rest = new"
  using assms
proof (induction mx ss new arbitrary: us rest rule: fill_unchanged.induct)
  case (2 mx s ss new)
  let ?count = "nat (mx - int (length (es_endpoints s)))"
  consider (skip) "\<not> int (length (es_endpoints s)) < mx" | (part) "int (length (es_endpoints s)) < mx" "?count < length new"
    | (all) "int (length (es_endpoints s)) < mx" "\<not> ?count < length new" by blast
  then show ?case
  proof cases
    case skip
    then obtain ns ts where "us = filled ns ts" "list_all2 (fits mx) ns ts" "mset ts \<subseteq># mset ss" "concat ns @ rest = new"
      using "2.IH"(2) [OF skip, of us rest] 2(3) by auto
    then show ?thesis by (intro exI [of _ ns] exI [of _ ts]) (auto intro: subset_mset.order_trans)
  next
    case part
    obtain us' r where f: "fill_unchanged mx ss (drop ?count new) = (us', r)" by (metis surj_pair)
    obtain ns ts where n: "us' = filled ns ts" "list_all2 (fits mx) ns ts" "mset ts \<subseteq># mset ss" "concat ns @ r = drop ?count new"
      using "2.IH"(1) [OF part(1) refl part(2) f] by blast
    have "fits mx (take ?count new) s" using part by (simp add: fits_def)
    then show ?thesis using 2(3) f part n by (intro exI [of _ "take ?count new # ns"] exI [of _ "s # ts"]) (auto simp: Let_def)
  next
    case all
    have "fits mx new s" using all by (simp add: fits_def) linarith
    then show ?thesis using 2(3) all by (intro exI [of _ "[new]"] exI [of _ "[s]"]) (auto simp: Let_def)
  qed
qed simp

section \<open>Creating slices\<close>

lemma create_loop_done: "create_loop mx blank [] acc = Some acc"
  by (simp add: create_loop.simps)

lemma create_loop_ends:
  assumes "mx \<ge> 1"
  shows "\<exists>cs. create_loop mx blank new acc = Some (acc @ map (\<lambda>c. add_endpoints c blank) cs) \<and> concat cs = new \<and>
    (\<forall>c \<in> set cs. c \<noteq> [] \<and> int (length c) \<le> mx)"
proof (induction "length new" arbitrary: new acc rule: less_induct)
  case less
  consider "new = []" | "new \<noteq> []" "int (length new) \<le> mx" | "new \<noteq> []" "int (length new) > mx" by fastforce
  then show ?case
  proof cases
    case 1
    then show ?thesis by (intro exI [of _ "[]"]) (simp add: create_loop_done)
  next
    case 2
    then show ?thesis by (intro exI [of _ "[new]"]) (simp add: create_loop.simps [of mx blank new] create_loop_done)
  next
    case 3
    have "length (drop (nat mx) new) < length new" using 3 assms by simp
    then obtain cs where "create_loop mx blank (drop (nat mx) new) (acc @ [add_endpoints (take (nat mx) new) blank]) =
        Some ((acc @ [add_endpoints (take (nat mx) new) blank]) @ map (\<lambda>c. add_endpoints c blank) cs)"
        "concat cs = drop (nat mx) new" "\<forall>c \<in> set cs. c \<noteq> [] \<and> int (length c) \<le> mx" using less by blast
    then show ?thesis using 3 assms
      by (intro exI [of _ "take (nat mx) new # cs"]) (simp add: create_loop.simps [of mx blank new])
  qed
qed

section \<open>The plan\<close>

text \<open>
  The slices \<open>os\<close> are brought up to date and get the pieces \<open>ns\<close> of new endpoints; the pieces
  \<open>cs\<close> become new slices; every other slice is up to date already.
\<close>

definition distributes :: "int \<Rightarrow> pod list \<Rightarrow> egress_endpoint_slice list \<Rightarrow> egress_endpoint_slice list \<Rightarrow>
    egress_endpoint list list \<Rightarrow> egress_endpoint list list \<Rightarrow> bool" where
  "distributes mx pods slices os ns cs \<longleftrightarrow>
     mset os \<subseteq># mset slices \<and> (\<forall>s. s \<in># mset slices - mset os \<longrightarrow> current pods s = s) \<and>
     list_all2 (fits mx) ns (map (current pods) os) \<and> (\<forall>c \<in> set cs. c \<noteq> [] \<and> int (length c) \<le> mx) \<and>
     concat ns @ concat cs = needToCreate pods (existing_keys (pod_map pods) slices)"

lemma plan_spec:
  assumes "mx \<ge> 1"
  shows "\<exists>os ns cs. plan mx blank pods slices = Ok (filled ns (map (current pods) os), map (\<lambda>c. add_endpoints c blank) cs) \<and>
    distributes mx pods slices os ns cs"
proof -
  let ?new = "needToCreate pods (existing_keys (pod_map pods) slices)"
  let ?stale = "filter (\<lambda>s. current pods s \<noteq> s) slices" and ?fresh = "filter (\<lambda>s. current pods s = s) slices"
  have up: "map snd (filter fst (map (refresh_slice (pod_map pods)) slices)) = map (current pods) ?stale"
    by (induction slices) (auto simp: refresh_slice_eq)
  have no: "map snd (filter (\<lambda>x. \<not> fst x) (map (refresh_slice (pod_map pods)) slices)) = ?fresh"
    by (induction slices) (auto simp: refresh_slice_eq)
  obtain us r1 where u: "fill_updates mx (map (current pods) ?stale) ?new = (us, r1)" by (metis surj_pair)
  obtain ns1 where ns1: "us = filled ns1 (map (current pods) ?stale)" "list_all2 (fits mx) ns1 (map (current pods) ?stale)" "concat ns1 @ r1 = ?new"
    using fill_updates_spec [OF u] by blast
  obtain xs r2 where x: "fill_unchanged mx ?fresh r1 = (xs, r2)" by (metis surj_pair)
  obtain ns2 ts where ns2: "xs = filled ns2 ts" "list_all2 (fits mx) ns2 ts" "mset ts \<subseteq># mset ?fresh" "concat ns2 @ r2 = r1"
    using fill_unchanged_spec [OF x] by blast
  have all: "mset slices = mset ?stale + mset ?fresh" 
    using multiset_partition [of "mset slices" "\<lambda>s. current pods s \<noteq> s"] by simp
  show ?thesis
  proof (cases "?new = []")
    case True
    let ?ns = "replicate (length (map (current pods) ?stale)) []"
    have "create_slices mx blank [] = Ok []" by (simp add: create_slices_def create_loop_done)
    then have "plan mx blank pods slices = Ok (filled ?ns (map (current pods) ?stale), map (\<lambda>c. add_endpoints c blank) [])"
      using True up no by (simp add: plan_def Let_def del: length_map)
    moreover have "mset slices - mset ?stale = mset ?fresh" "mset ?stale \<subseteq># mset slices" unfolding all by (simp_all del: mset_filter)
    then have "distributes mx pods slices ?stale ?ns []"
      using True all_fit_nothing [of mx "map (current pods) ?stale"] by (simp add: distributes_def del: mset_filter length_map)
    ultimately show ?thesis by blast
  next
    case False
    obtain cs where cs: "create_loop mx blank r2 [] = Some (map (\<lambda>c. add_endpoints c blank) cs)" "concat cs = r2"
        "\<forall>c \<in> set cs. c \<noteq> [] \<and> int (length c) \<le> mx" using create_loop_ends [OF assms, of blank r2 "[]"] by auto
    have "set ts \<subseteq> set ?fresh" using set_mset_mono [OF ns2(3)] by simp
    then have t: "map (current pods) ts = ts" by (intro map_idI) auto
    have "create_slices mx blank r2 = Ok (map (\<lambda>c. add_endpoints c blank) cs)" using cs assms by (simp add: create_slices_def)
    moreover have "length ns1 = length (map (current pods) ?stale)" using ns1(2) by (rule list_all2_lengthD)
    ultimately have p: "plan mx blank pods slices =
        Ok (filled (ns1 @ ns2) (map (current pods) (?stale @ ts)), map (\<lambda>c. add_endpoints c blank) cs)"
      using False up no u x ns1(1) ns2(1) t by (simp add: plan_def Let_def)
    have d: "mset slices - mset (?stale @ ts) = mset ?fresh - mset ts" unfolding all by (simp del: mset_filter)
    have "current pods s = s" if "s \<in># mset slices - mset (?stale @ ts)" for s
      using that unfolding d by (auto dest: in_diffD)
    moreover have "mset (?stale @ ts) \<subseteq># mset slices" unfolding all using ns2(3) by (simp del: mset_filter)
    moreover have "list_all2 (fits mx) (ns1 @ ns2) (map (current pods) (?stale @ ts))"
      using list_all2_appendI [OF ns1(2) ns2(2)] by (simp only: map_append t)
    moreover have "concat (ns1 @ ns2) @ concat cs = ?new" using ns1(3) ns2(4) cs(2) by simp
    ultimately have "distributes mx pods slices (?stale @ ts) (ns1 @ ns2) cs"
      unfolding distributes_def using cs(3) by blast
    then show ?thesis using p by blast
  qed
qed

end
