(* ===== verification/EndpointServer.thy ===== *)
theory EndpointServer
  imports EndpointPlan
begin

text \<open>
  What the writes of a reconcile leave on the API server. The server is an interface: an update or a
  deletion acts on the slice with the same key, a creation adds a slice under a fresh name, and each of
  them may fail without effect. The lemmas of the interface follow the three loops of the
  code; a server in memory whose writes may fail provides it for both kinds of slices.
\<close>

section \<open>Multisets of slices\<close>

definition at_most_once :: "'a multiset \<Rightarrow> bool" where
  "at_most_once M \<longleftrightarrow> (\<forall>x. count M x \<le> 1)"

lemma distinct_at_most_once: "distinct xs \<longleftrightarrow> at_most_once (mset xs)"
proof
  assume "distinct xs"
  then show "at_most_once (mset xs)" by (simp add: at_most_once_def distinct_count_atmost_1)
next
  assume a: "at_most_once (mset xs)"
  have "count (mset xs) x = (if x \<in> set xs then 1 else 0)" for x
  proof (cases "x \<in> set xs")
    case True
    then have "count (mset xs) x > 0" by simp
    moreover have "count (mset xs) x \<le> 1" using a by (simp add: at_most_once_def)
    ultimately have "count (mset xs) x = 1" by linarith
    then show ?thesis using True by simp
  qed (simp add: count_eq_zero_iff)
  then show "distinct xs" by (simp add: distinct_count_atmost_1)
qed

lemma at_most_once_mono: "A \<subseteq># B \<Longrightarrow> at_most_once B \<Longrightarrow> at_most_once A"
  unfolding at_most_once_def using mset_subset_eq_count order_trans by metis

lemma at_most_once_add: "at_most_once (add_mset x M) \<longleftrightarrow> x \<notin># M \<and> at_most_once M"
proof -
  obtain xs where "mset xs = M" using ex_mset by blast
  then show ?thesis using distinct_at_most_once [of "x # xs"] distinct_at_most_once [of xs] by auto
qed

lemma subset_of_rest: "A + B \<subseteq># M \<Longrightarrow> B \<subseteq># M - A"
  by (auto simp: subset_mset.le_iff_add add.assoc)

abbreviation slice_key :: "egress_endpoint_slice \<Rightarrow> object_key" where
  "slice_key s \<equiv> meta_key (es_meta s)"

definition unique_keys :: "egress_endpoint_slice multiset \<Rightarrow> bool" where
  "unique_keys M \<longleftrightarrow> at_most_once (image_mset slice_key M)"

lemma unique_keys_replace:
  assumes "t \<in># M" "slice_key t = slice_key s"
  shows "unique_keys (add_mset s (M - {#t#})) = unique_keys M"
proof -
  have "image_mset slice_key (add_mset s (M - {#t#})) = image_mset slice_key (add_mset t (M - {#t#}))" using assms(2) by simp
  then show ?thesis using assms(1) by (simp add: unique_keys_def)
qed

lemma unique_keys_mono: "A \<subseteq># B \<Longrightarrow> unique_keys B \<Longrightarrow> unique_keys A"
  unfolding unique_keys_def by (blast intro: at_most_once_mono image_mset_subseteq_mono)

text \<open>A slice without the name the server gives it.\<close>

definition anonymous :: "egress_endpoint_slice \<Rightarrow> egress_endpoint_slice" where
  "anonymous s = s\<lparr>es_meta := (es_meta s)\<lparr>om_name := []\<rparr>\<rparr>"

definition name_slice :: "string \<Rightarrow> egress_endpoint_slice \<Rightarrow> egress_endpoint_slice" where
  "name_slice nm s = s\<lparr>es_meta := (es_meta s)\<lparr>om_name := nm\<rparr>\<rparr>"

lemma name_slice_simps [simp]: "anonymous (name_slice nm s) = anonymous s" "es_endpoints (name_slice nm s) = es_endpoints s"
  "es_endpoints (anonymous s) = es_endpoints s" "om_labels (es_meta (anonymous s)) = om_labels (es_meta s)"
  "om_namespace (es_meta (anonymous s)) = om_namespace (es_meta s)"
  by (simp_all add: name_slice_def anonymous_def)

section \<open>The interface\<close>

lemma collect_Err: "m w = (Err e, w') \<Longrightarrow> collect m errs w = (Ok (errs @ [e]), w')"
  by (simp add: collect_def bindp_def attempt_def ret_def)

lemma collect_Ok: "m w = (Ok (), w') \<Longrightarrow> collect m errs w = (Ok errs, w')"
  by (simp add: collect_def bindp_def attempt_def ret_def)

locale slice_server =
  fixes cli :: "'w slice_api" and slices :: "'w \<Rightarrow> egress_endpoint_slice multiset"
  assumes update: "unique_keys (slices w) \<Longrightarrow> t \<in># slices w \<Longrightarrow> slice_key t = slice_key s \<Longrightarrow> sa_update cli s w = (res, w') \<Longrightarrow>
      (\<exists>e. res = Err e) \<and> slices w' = slices w \<or> res = Ok () \<and> slices w' = add_mset s (slices w - {#t#})"
    and create: "unique_keys (slices w) \<Longrightarrow> sa_create cli s w = (res, w') \<Longrightarrow>
      (\<exists>e. res = Err e) \<and> slices w' = slices w \<or>
      res = Ok () \<and> (\<exists>nm. slices w' = add_mset (name_slice nm s) (slices w) \<and> unique_keys (slices w'))"
    and delete: "unique_keys (slices w) \<Longrightarrow> t \<in># slices w \<Longrightarrow> slice_key t = slice_key s \<Longrightarrow> sa_delete cli s w = (res, w') \<Longrightarrow>
      (\<exists>e. res = Err e) \<and> slices w' = slices w \<or> res = Ok () \<and> slices w' = slices w - {#t#}"
begin

definition update_one :: "egress_endpoint_slice \<Rightarrow> api_err list \<times> egress_endpoint_slice list \<Rightarrow>
    ('w, ep_err, api_err list \<times> egress_endpoint_slice list) prog" where
  "update_one = (\<lambda>s (errs, toDelete).
     if length (es_endpoints s) = 0 then ret (errs, toDelete @ [s])
     else bindp (collect (sa_update cli s) errs) (\<lambda>errs. ret (errs, toDelete)))"

lemma updates:
  assumes "unique_keys (slices w)" "\<forall>p \<in> set ps. slice_key (fst p) = slice_key (snd p)" "mset (map fst ps) \<subseteq># slices w"
    and "for_each update_one (map snd ps) (errs, del) w = (res, w')"
  shows "\<exists>errs' P. res = Ok (errs', del @ filter (\<lambda>s. es_endpoints s = []) (map snd ps)) \<and>
    P \<subseteq># {#p \<in># mset ps. es_endpoints (snd p) \<noteq> []#} \<and>
    (errs' = [] \<longrightarrow> errs = [] \<and> P = {#p \<in># mset ps. es_endpoints (snd p) \<noteq> []#}) \<and>
    slices w' = slices w - image_mset fst P + image_mset snd P \<and> unique_keys (slices w')"
  using assms
proof (induction ps arbitrary: errs del w)
  case Nil
  then show ?case by (auto simp: ret_def)
next
  case (Cons p ps)
  obtain t s where p: "p = (t, s)" by (cases p)
  have k: "slice_key t = slice_key s" and t: "t \<in># slices w" and sub: "mset (map fst ps) \<subseteq># slices w - {#t#}"
    using Cons.prems(2,3) p by (auto simp: insert_subset_eq_iff)
  have q: "\<forall>p \<in> set ps. slice_key (fst p) = slice_key (snd p)" using Cons.prems(2) by simp
  show ?case
  proof (cases "es_endpoints s = []")
    case True
    have "for_each update_one (map snd ps) (errs, del @ [s]) w = (res, w')"
      using Cons.prems(4) True p by (simp add: update_one_def bindp_def ret_def)
    moreover have "mset (map fst ps) \<subseteq># slices w" using Cons.prems(3) p by (auto dest: mset_subset_eq_insertD)
    ultimately show ?thesis using Cons.IH [of w errs "del @ [s]"] Cons.prems(1,2) True p by auto
  next
    case False
    obtain r w1 where u: "sa_update cli s w = (r, w1)" by (metis surj_pair)
    from update [OF Cons.prems(1) t k u]
    consider (err) e where "r = Err e" "slices w1 = slices w" | (ok) "r = Ok ()" "slices w1 = add_mset s (slices w - {#t#})" by blast
    then show ?thesis
    proof cases
      case err
      have f: "for_each update_one (map snd ps) (errs @ [e], del) w1 = (res, w')"
        using Cons.prems(4) False p u err by (simp add: update_one_def collect_Err bindp_def ret_def)
      have s1: "mset (map fst ps) \<subseteq># slices w1" unfolding err(2) by (rule subset_mset.order_trans [OF sub]) simp
      have "unique_keys (slices w1)" using Cons.prems(1) err(2) by simp
      from Cons.IH [OF this q s1 f]
      obtain errs' P where "res = Ok (errs', del @ filter (\<lambda>s. es_endpoints s = []) (map snd ps))"
          "P \<subseteq># {#p \<in># mset ps. es_endpoints (snd p) \<noteq> []#}" "errs' \<noteq> []"
          "slices w' = slices w - image_mset fst P + image_mset snd P" "unique_keys (slices w')"
        unfolding err(2) by blast
      then show ?thesis using False p
        by (intro exI [of _ errs'] exI [of _ P]) (auto intro: subset_mset.order_trans)
    next
      case ok
      have f: "for_each update_one (map snd ps) (errs, del) w1 = (res, w')"
        using Cons.prems(4) False p u ok by (simp add: update_one_def collect_Ok bindp_def ret_def)
      have s1: "mset (map fst ps) \<subseteq># slices w1" unfolding ok(2) by (rule subset_mset.order_trans [OF sub]) simp
      have "unique_keys (slices w1)" using unique_keys_replace [OF t k] Cons.prems(1) ok(2) by simp
      from Cons.IH [OF this q s1 f]
      obtain errs' P where r: "res = Ok (errs', del @ filter (\<lambda>s. es_endpoints s = []) (map snd ps))"
          "P \<subseteq># {#p \<in># mset ps. es_endpoints (snd p) \<noteq> []#}"
          "errs' = [] \<longrightarrow> errs = [] \<and> P = {#p \<in># mset ps. es_endpoints (snd p) \<noteq> []#}"
          "slices w' = slices w1 - image_mset fst P + image_mset snd P" "unique_keys (slices w')"
        by blast
      have "image_mset fst P \<subseteq># mset (map fst ps)"
        using image_mset_subseteq_mono [OF subset_mset.order_trans [OF r(2) multiset_filter_subset], of fst] by simp
      then have "image_mset fst P \<subseteq># slices w - {#t#}" using sub by (rule subset_mset.order_trans)
      then have "slices w' = slices w - image_mset fst (add_mset p P) + image_mset snd (add_mset p P)"
        using r(4) ok(2) p multiset_diff_union_assoc [of "image_mset fst P" "slices w - {#t#}" "{#s#}"] by (simp add: ac_simps)
      then show ?thesis using r p False by (intro exI [of _ errs'] exI [of _ "add_mset p P"]) auto
    qed
  qed
qed

lemma creates:
  assumes "unique_keys (slices w)" "for_each (\<lambda>s. collect (sa_create cli s)) cs errs w = (res, w')"
  shows "\<exists>errs' C. res = Ok errs' \<and> image_mset anonymous C \<subseteq># image_mset anonymous (mset cs) \<and>
    (errs' = [] \<longrightarrow> errs = [] \<and> image_mset anonymous C = image_mset anonymous (mset cs)) \<and>
    slices w' = slices w + C \<and> unique_keys (slices w')"
  using assms
proof (induction cs arbitrary: errs w)
  case Nil
  then show ?case by (auto simp: ret_def)
next
  case (Cons s cs)
  obtain r w1 where c: "sa_create cli s w = (r, w1)" by (metis surj_pair)
  from create [OF Cons.prems(1) c]
  consider (err) e where "r = Err e" "slices w1 = slices w"
    | (ok) nm where "r = Ok ()" "slices w1 = add_mset (name_slice nm s) (slices w)" "unique_keys (slices w1)" by blast
  then show ?case
  proof cases
    case err
    have f: "for_each (\<lambda>s. collect (sa_create cli s)) cs (errs @ [e]) w1 = (res, w')"
      using Cons.prems(2) c err by (simp add: collect_Err bindp_def)
    obtain errs' C where "res = Ok errs'" "image_mset anonymous C \<subseteq># image_mset anonymous (mset cs)" "errs' \<noteq> []"
        "slices w' = slices w + C" "unique_keys (slices w')"
      using Cons.IH [OF _ f] Cons.prems(1) unfolding err(2) by blast
    then show ?thesis by (intro exI [of _ errs'] exI [of _ C]) (auto intro: subset_mset.order_trans)
  next
    case ok
    have f: "for_each (\<lambda>s. collect (sa_create cli s)) cs errs w1 = (res, w')"
      using Cons.prems(2) c ok by (simp add: collect_Ok bindp_def)
    obtain errs' C where "res = Ok errs'" "image_mset anonymous C \<subseteq># image_mset anonymous (mset cs)"
        "errs' = [] \<longrightarrow> errs = [] \<and> image_mset anonymous C = image_mset anonymous (mset cs)"
        "slices w' = slices w1 + C" "unique_keys (slices w')"
      using Cons.IH [OF ok(3) f] by blast
    then show ?thesis using ok(2) by (intro exI [of _ errs'] exI [of _ "add_mset (name_slice nm s) C"]) auto
  qed
qed

lemma deletes:
  assumes "unique_keys (slices w)" "\<forall>p \<in> set ps. slice_key (fst p) = slice_key (snd p)" "mset (map fst ps) \<subseteq># slices w"
    and "for_each (\<lambda>s. collect (sa_delete cli s)) (map snd ps) errs w = (res, w')"
  shows "\<exists>errs' D. res = Ok errs' \<and> D \<subseteq># mset ps \<and> (errs' = [] \<longrightarrow> errs = [] \<and> D = mset ps) \<and>
    slices w' = slices w - image_mset fst D"
  using assms
proof (induction ps arbitrary: errs w)
  case Nil
  then show ?case by (auto simp: ret_def)
next
  case (Cons p ps)
  obtain t s where p: "p = (t, s)" by (cases p)
  have k: "slice_key t = slice_key s" and t: "t \<in># slices w" and sub: "mset (map fst ps) \<subseteq># slices w - {#t#}"
    using Cons.prems(2,3) p by (auto simp: insert_subset_eq_iff)
  have q: "\<forall>p \<in> set ps. slice_key (fst p) = slice_key (snd p)" using Cons.prems(2) by simp
  obtain r w1 where d: "sa_delete cli s w = (r, w1)" by (metis surj_pair)
  from delete [OF Cons.prems(1) t k d]
  consider (err) e where "r = Err e" "slices w1 = slices w" | (ok) "r = Ok ()" "slices w1 = slices w - {#t#}" by blast
  then show ?case
  proof cases
    case err
    have f: "for_each (\<lambda>s. collect (sa_delete cli s)) (map snd ps) (errs @ [e]) w1 = (res, w')"
      using Cons.prems(4) p d err by (simp add: collect_Err bindp_def)
    have s1: "mset (map fst ps) \<subseteq># slices w1" unfolding err(2) by (rule subset_mset.order_trans [OF sub]) simp
    have "unique_keys (slices w1)" using Cons.prems(1) err(2) by simp
    from Cons.IH [OF this q s1 f]
    obtain errs' D where "res = Ok errs'" "D \<subseteq># mset ps" "errs' \<noteq> []" "slices w' = slices w - image_mset fst D"
      unfolding err(2) by blast
    then show ?thesis by (intro exI [of _ errs'] exI [of _ D]) (auto intro: subset_mset.order_trans)
  next
    case ok
    have f: "for_each (\<lambda>s. collect (sa_delete cli s)) (map snd ps) errs w1 = (res, w')"
      using Cons.prems(4) p d ok by (simp add: collect_Ok bindp_def)
    have "unique_keys (slices w1)" unfolding ok(2) by (rule unique_keys_mono [OF _ Cons.prems(1)]) simp
    moreover have s1: "mset (map fst ps) \<subseteq># slices w1" using sub ok(2) by simp
    ultimately obtain errs' D where "res = Ok errs'" "D \<subseteq># mset ps" "errs' = [] \<longrightarrow> errs = [] \<and> D = mset ps"
        "slices w' = slices w1 - image_mset fst D"
      using Cons.IH [OF _ q s1 f] by blast
    then show ?thesis using ok(2) p by (intro exI [of _ errs'] exI [of _ "add_mset p D"]) auto
  qed
qed

lemma push_contents:
  assumes "unique_keys (slices w)" "\<forall>p \<in> set ps. slice_key (fst p) = slice_key (snd p)" "mset (map fst ps) \<subseteq># slices w"
    and "push cli (map snd ps) cs w = (res, w')"
  shows "\<exists>P D C. P \<subseteq># {#p \<in># mset ps. es_endpoints (snd p) \<noteq> []#} \<and> D \<subseteq># {#p \<in># mset ps. es_endpoints (snd p) = []#} \<and>
    image_mset anonymous C \<subseteq># image_mset anonymous (mset cs) \<and>
    slices w' = slices w - image_mset fst P - image_mset fst D + image_mset snd P + C \<and>
    (res = Ok () \<and> P + D = mset ps \<and> image_mset anonymous C = image_mset anonymous (mset cs) \<or> (\<exists>es. res = Err (EpAggregate es)))"
proof -
  let ?ds = "filter (\<lambda>p. es_endpoints (snd p) = []) ps"
  have fm: "filter (\<lambda>s. es_endpoints s = []) (map snd ps) = map snd ?ds" by (simp add: filter_map comp_def)
  obtain r1 w1 where u: "for_each update_one (map snd ps) ([], []) w = (r1, w1)" by (metis surj_pair)
  from updates [OF assms(1-3) u] obtain e1 P where r1: "r1 = Ok (e1, map snd ?ds)"
      and P: "P \<subseteq># {#p \<in># mset ps. es_endpoints (snd p) \<noteq> []#}" "e1 = [] \<longrightarrow> P = {#p \<in># mset ps. es_endpoints (snd p) \<noteq> []#}"
      and w1: "slices w1 = slices w - image_mset fst P + image_mset snd P" "unique_keys (slices w1)"
    unfolding append_Nil fm by blast
  obtain r2 :: "(ep_err, api_err list) outcome" and w2 where c: "for_each (\<lambda>s. collect (sa_create cli s)) cs e1 w1 = (r2, w2)" by (metis surj_pair)
  from creates [OF w1(2) c] obtain e2 C where r2: "r2 = Ok e2"
      and C: "image_mset anonymous C \<subseteq># image_mset anonymous (mset cs)"
        "e2 = [] \<longrightarrow> e1 = [] \<and> image_mset anonymous C = image_mset anonymous (mset cs)"
      and w2: "slices w2 = slices w1 + C" "unique_keys (slices w2)" by blast
  obtain r3 :: "(ep_err, api_err list) outcome" and w3 where d: "for_each (\<lambda>s. collect (sa_delete cli s)) (map snd ?ds) e2 w2 = (r3, w3)" by (metis surj_pair)
  have split: "mset ps = {#p \<in># mset ps. es_endpoints (snd p) \<noteq> []#} + mset ?ds"
    using multiset_partition [of "mset ps" "\<lambda>p. es_endpoints (snd p) \<noteq> []"] by simp
  have "P + mset ?ds \<subseteq># mset ps" using P(1) by (subst split) (simp only: mset_subset_eq_mono_add_right_cancel)
  then have all: "image_mset fst P + mset (map fst ?ds) \<subseteq># slices w"
    using subset_mset.order_trans [OF image_mset_subseteq_mono assms(3)[unfolded mset_map]] by fastforce
  then have left: "mset (map fst ?ds) \<subseteq># slices w - image_mset fst P" by (rule subset_of_rest)
  then have sub: "mset (map fst ?ds) \<subseteq># slices w2" unfolding w2(1) w1(1) by (rule subset_mset.order_trans) simp
  have "\<forall>p \<in> set ?ds. slice_key (fst p) = slice_key (snd p)" using assms(2) by simp
  from deletes [OF w2(2) this sub d] obtain e3 D where r3: "r3 = Ok e3" and D: "D \<subseteq># mset ?ds" "e3 = [] \<longrightarrow> e2 = [] \<and> D = mset ?ds"
      and w3: "slices w3 = slices w2 - image_mset fst D" by blast
  have "push cli (map snd ps) cs w = (if e3 = [] then Ok () else Err (EpAggregate e3), w3)"
    using u c d r1 r2 r3 by (simp add: push_def bindp_def ret_def fail_def update_one_def)
  then have res: "res = (if e3 = [] then Ok () else Err (EpAggregate e3))" "w' = w3" using assms(4) by simp_all
  have "image_mset fst D \<subseteq># slices w - image_mset fst P"
    using image_mset_subseteq_mono [OF D(1), of fst] left by (simp add: subset_mset.order_trans)
  then have "slices w' = slices w - image_mset fst P - image_mset fst D + image_mset snd P + C"
    unfolding res(2) w3 w2(1) w1(1)
    using multiset_diff_union_assoc [of "image_mset fst D" "slices w - image_mset fst P" "image_mset snd P + C"] by (simp add: ac_simps)
  moreover have "P + D = mset ps" "image_mset anonymous C = image_mset anonymous (mset cs)" if "e3 = []"
    using that D(2) C(2) P(2) split by auto
  ultimately show ?thesis using P(1) D(1) C(1) res(1) by (intro exI [of _ P] exI [of _ D] exI [of _ C]) auto
qed

end

section \<open>The endpoints of slices\<close>

definition eps_of :: "egress_endpoint_slice multiset \<Rightarrow> egress_endpoint multiset" where
  "eps_of M = sum_mset (image_mset (\<lambda>s. mset (es_endpoints s)) M)"

lemma eps_of_simps [simp]: "eps_of {#} = {#}" "eps_of (add_mset s M) = mset (es_endpoints s) + eps_of M"
  "eps_of (A + B) = eps_of A + eps_of B"
  by (simp_all add: eps_of_def)

lemma eps_of_mset: "eps_of (mset ss) = mset (concat (map es_endpoints ss))"
  by (induction ss) auto

lemma eps_of_split: "A \<subseteq># M \<Longrightarrow> eps_of (M - A) + eps_of A = eps_of M"
  using eps_of_simps(3) [of "M - A" A] by (simp add: subset_mset.diff_add)

lemma eps_of_mono: "A \<subseteq># M \<Longrightarrow> eps_of A \<subseteq># eps_of M"
  using eps_of_split [of A M] by (metis mset_subset_eq_add_right)

lemma eps_of_anonymous: "eps_of (image_mset anonymous M) = eps_of M"
  by (induction M) auto

abbreviation ep_keys :: "egress_endpoint_slice multiset \<Rightarrow> object_key multiset" where
  "ep_keys M \<equiv> image_mset ep_key (eps_of M)"

lemma kept_keys: "mset (map ep_key (kept (pod_map pods) eps)) \<subseteq># mset (map ep_key eps)"
proof (induction eps)
  case (Cons ep eps)
  show ?case
  proof (cases "pod_map pods (ep_key ep)")
    case (Some p)
    then have "pod_key p = ep_key ep" using pod_map_key by blast
    then show ?thesis using Cons.IH Some by simp
  qed (use Cons.IH in \<open>auto intro: subset_mset.order_trans\<close>)
qed simp

text \<open>The keys that the slices of a pair gain.\<close>

definition gained :: "(egress_endpoint_slice \<times> egress_endpoint_slice) multiset \<Rightarrow> object_key multiset" where
  "gained P = sum_mset (image_mset (\<lambda>(o', u). mset (map ep_key (es_endpoints u)) - mset (map ep_key (es_endpoints o'))) P)"

lemma gained_mono: "P \<subseteq># Q \<Longrightarrow> gained P \<subseteq># gained Q"
  by (auto simp: subset_mset.le_iff_add gained_def)

lemma keys_gained: "ep_keys (image_mset snd P) \<subseteq># ep_keys (image_mset fst P) + gained P"
proof (induction P)
  case (add p P)
  obtain o' u where p: "p = (o', u)" by (cases p)
  let ?o = "mset (map ep_key (es_endpoints o'))" and ?u = "mset (map ep_key (es_endpoints u))"
  have "?u \<subseteq># ?o + (?u - ?o)" by (metis subset_eq_diff_conv subset_mset.order_refl add.commute)
  then have "?u + ep_keys (image_mset snd P) \<subseteq># (?o + (?u - ?o)) + (ep_keys (image_mset fst P) + gained P)"
    using add.IH by (rule subset_mset.add_mono)
  then show ?case using p by (simp add: gained_def ac_simps)
qed simp

definition distributed :: "pod list \<Rightarrow> egress_endpoint list list \<Rightarrow> egress_endpoint_slice list \<Rightarrow>
    (egress_endpoint_slice \<times> egress_endpoint_slice) list" where
  "distributed pods ns os = zip os (filled ns (map (current pods) os))"

lemma distributed_simps [simp]: "distributed pods [] os = []" "distributed pods ns [] = []"
  "distributed pods (n # ns) (s # os) = (s, add_endpoints n (current pods s)) # distributed pods ns os"
  by (simp_all add: distributed_def)

lemma distributed_lists:
  assumes "length ns = length os"
  shows "map fst (distributed pods ns os) = os" "map snd (distributed pods ns os) = filled ns (map (current pods) os)"
  using assms by (simp_all add: distributed_def filled_def)

lemma distributed_meta: "p \<in> set (distributed pods ns os) \<Longrightarrow> es_meta (snd p) = es_meta (fst p)"
  by (induction ns os rule: list_induct2') (auto simp: add_endpoints_def)

lemma distributed_gained: "gained (mset (distributed pods ns os)) \<subseteq># mset (map ep_key (concat ns))"
proof (induction ns os rule: list_induct2')
  case (4 n ns s os)
  have "mset (map ep_key (kept (pod_map pods) (es_endpoints s))) + mset (map ep_key n) - mset (map ep_key (es_endpoints s)) \<subseteq># mset (map ep_key n)"
    using kept_keys [of pods "es_endpoints s"] by (metis add.commute subset_eq_diff_conv subset_mset.add_right_mono)
  then have "mset (map ep_key (kept (pod_map pods) (es_endpoints s) @ n)) - mset (map ep_key (es_endpoints s)) + gained (mset (distributed pods ns os))
      \<subseteq># mset (map ep_key n) + mset (map ep_key (concat ns))" using 4 by (intro subset_mset.add_mono) simp_all
  then show ?case by (simp add: gained_def add_endpoints_def)
qed (simp_all add: gained_def)

lemma distributed_endpoints: "length ns = length os \<Longrightarrow>
    eps_of (mset (map snd (distributed pods ns os))) = mset (kept (pod_map pods) (concat (map es_endpoints os))) + mset (concat ns)"
proof (induction ns os rule: list_induct2)
  case (Cons n ns s os)
  have "kept m (xs @ ys) = kept m xs @ kept m ys" for m xs ys by (induction xs) (auto split: option.split)
  then show ?case using Cons by (simp add: add_endpoints_def ac_simps)
qed simp

end
