(* ===== verification/EndpointSync.thy ===== *)
theory EndpointSync
  imports EndpointServer
begin

text \<open>
  One reconcile of a policy's endpoint slices on a server whose writes may fail: the keys, endpoints and
  sizes of the slices that it leaves, in terms of the writes that succeeded.
\<close>

section \<open>What the writes leave\<close>

lemma kept_append: "kept m (xs @ ys) = kept m xs @ kept m ys"
  by (simp add: kept_def map_filter_def)

definition kept_in :: "pod list \<Rightarrow> egress_endpoint_slice multiset \<Rightarrow> egress_endpoint multiset" where
  "kept_in pods M = sum_mset (image_mset (\<lambda>s. mset (kept (pod_map pods) (es_endpoints s))) M)"

lemma kept_in_union: "kept_in pods (A + B) = kept_in pods A + kept_in pods B"
  by (simp add: kept_in_def)

lemma eps_of_current: "(\<And>s. s \<in># M \<Longrightarrow> current pods s = s) \<Longrightarrow> eps_of M = kept_in pods M"
  unfolding eps_of_def kept_in_def by (intro arg_cong [of _ _ sum_mset] image_mset_cong) (metis current_simps(2))

lemma kept_concat: "mset (kept (pod_map pods) (concat (map es_endpoints ss))) = kept_in pods (mset ss)"
  by (induction ss) (auto simp: kept_append kept_in_def)

text \<open>
  The updates \<open>P\<close>, deletions \<open>D\<close> and creations \<open>C\<close> that succeed, of those that the plan asks for;
  all of them when the reconcile ends without error.
\<close>

definition writes :: "pod list \<Rightarrow> egress_endpoint_slice \<Rightarrow> egress_endpoint_slice list \<Rightarrow> egress_endpoint list list \<Rightarrow>
    egress_endpoint list list \<Rightarrow> bool \<Rightarrow> egress_endpoint_slice multiset \<Rightarrow> egress_endpoint_slice multiset \<Rightarrow> bool" where
  "writes pods blank os ns ds all M M' \<longleftrightarrow> (\<exists>P D C.
     P \<subseteq># {#p \<in># mset (distributed pods ns os). es_endpoints (snd p) \<noteq> []#} \<and>
     D \<subseteq># {#p \<in># mset (distributed pods ns os). es_endpoints (snd p) = []#} \<and>
     image_mset anonymous C \<subseteq># image_mset anonymous (mset (map (\<lambda>c. add_endpoints c blank) ds)) \<and>
     M' = M - image_mset fst P - image_mset fst D + image_mset snd P + C \<and>
     (all \<longrightarrow> P + D = mset (distributed pods ns os) \<and>
       image_mset anonymous C = image_mset anonymous (mset (map (\<lambda>c. add_endpoints c blank) ds))))"

lemma parts_of_pairs:
  assumes "P \<subseteq># {#p \<in># mset ps. es_endpoints (snd p) \<noteq> []#}" "D \<subseteq># {#p \<in># mset ps. es_endpoints (snd p) = []#}"
  shows "P + D \<subseteq># mset ps"
  using subset_mset.add_mono [OF assms] multiset_partition [of "mset ps" "\<lambda>p. es_endpoints (snd p) \<noteq> []"] by simp

lemma olds_of_pairs:
  assumes "P + D \<subseteq># mset (distributed pods ns os)" "length ns = length os" "mset os \<subseteq># M"
  shows "image_mset fst P + image_mset fst D \<subseteq># M"
proof -
  have "image_mset fst (mset (distributed pods ns os)) = mset os" unfolding mset_map [symmetric] distributed_lists [OF assms(2)] ..
  then show ?thesis using image_mset_subseteq_mono [OF assms(1), of fst] assms(3) by (simp add: subset_mset.order_trans)
qed

lemma add_back: "A + B \<subseteq># M \<Longrightarrow> M - A - B + A + B = M"
  by (auto simp: subset_mset.le_iff_add)

lemma created_slice:
  assumes "image_mset anonymous C \<subseteq># image_mset anonymous (mset (map (\<lambda>c. add_endpoints c blank) ds))" "s \<in># C" "es_endpoints blank = []"
  shows "om_namespace (es_meta s) = om_namespace (es_meta blank) \<and> om_labels (es_meta s) = om_labels (es_meta blank) \<and> es_endpoints s \<in> set ds"
proof -
  have "anonymous s \<in># image_mset anonymous (mset (map (\<lambda>c. add_endpoints c blank) ds))" using assms(2) mset_subset_eqD [OF assms(1)] by auto
  then obtain c where c: "c \<in> set ds" "anonymous s = anonymous (add_endpoints c blank)" by auto
  then show ?thesis using name_slice_simps(3-5) [of s] name_slice_simps(3-5) [of "add_endpoints c blank"] assms(3)
    by (simp add: add_endpoints_def)
qed

text \<open>The selected slices change like all slices; the others do not change.\<close>

definition by_labels :: "(egress_endpoint_slice \<Rightarrow> bool) \<Rightarrow> bool" where
  "by_labels sel \<longleftrightarrow> (\<forall>s t. om_namespace (es_meta s) = om_namespace (es_meta t) \<longrightarrow> om_labels (es_meta s) = om_labels (es_meta t) \<longrightarrow> sel s = sel t)"

lemma by_labelsD: "by_labels sel \<Longrightarrow> om_namespace (es_meta s) = om_namespace (es_meta t) \<Longrightarrow> om_labels (es_meta s) = om_labels (es_meta t) \<Longrightarrow> sel s = sel t"
  unfolding by_labels_def by blast

lemma writes_select:
  assumes "writes pods blank os ns ds all M M'" "by_labels sel" "sel blank" "es_endpoints blank = []"
    and "mset os \<subseteq># filter_mset sel M" "length ns = length os"
  shows "writes pods blank os ns ds all (filter_mset sel M) (filter_mset sel M') \<and> {#s \<in># M'. \<not> sel s#} = {#s \<in># M. \<not> sel s#}"
proof -
  obtain P D C where w: "P \<subseteq># {#p \<in># mset (distributed pods ns os). es_endpoints (snd p) \<noteq> []#}"
      "D \<subseteq># {#p \<in># mset (distributed pods ns os). es_endpoints (snd p) = []#}"
      "image_mset anonymous C \<subseteq># image_mset anonymous (mset (map (\<lambda>c. add_endpoints c blank) ds))"
      "M' = M - image_mset fst P - image_mset fst D + image_mset snd P + C"
      "all \<longrightarrow> P + D = mset (distributed pods ns os) \<and> image_mset anonymous C = image_mset anonymous (mset (map (\<lambda>c. add_endpoints c blank) ds))"
    using assms(1) unfolding writes_def by blast
  have pairs: "sel (fst p) \<and> sel (snd p)" if "p \<in># P + D" for p
  proof -
    have p: "p \<in> set (distributed pods ns os)" using mset_subset_eqD [OF parts_of_pairs [OF w(1,2)] that] by simp
    then have "fst p \<in> set os" using distributed_lists(1) [OF assms(6)] by (metis image_eqI set_map)
    then have "sel (fst p)" using set_mset_mono [OF assms(5)] by auto
    then show ?thesis using by_labelsD [OF assms(2), of "snd p" "fst p"] distributed_meta [OF p] by simp
  qed
  have new: "sel s" if "s \<in># C" for s
    using created_slice [OF w(3) that assms(4)] by_labelsD [OF assms(2), of s blank] assms(3) by blast
  have allsel: "filter_mset sel (image_mset fst P) = image_mset fst P" "filter_mset sel (image_mset fst D) = image_mset fst D"
    "filter_mset sel (image_mset snd P) = image_mset snd P" "filter_mset sel C = C"
    using pairs new by (auto simp: filter_mset_eq_conv)
  have nosel: "{#s \<in># image_mset fst P. \<not> sel s#} = {#}" "{#s \<in># image_mset fst D. \<not> sel s#} = {#}"
    "{#s \<in># image_mset snd P. \<not> sel s#} = {#}" "{#s \<in># C. \<not> sel s#} = {#}"
    using pairs new by (auto simp: filter_mset_eq_conv)
  have "filter_mset sel M' = filter_mset sel M - image_mset fst P - image_mset fst D + image_mset snd P + C"
    unfolding w(4) by (simp only: filter_union_mset filter_diff_mset allsel)
  moreover have "{#s \<in># M'. \<not> sel s#} = {#s \<in># M. \<not> sel s#}"
    unfolding w(4) by (simp only: filter_union_mset filter_diff_mset nosel) simp
  ultimately show ?thesis using w(1-3,5) unfolding writes_def by blast
qed

section \<open>Keys, endpoints and sizes\<close>

lemma created_endpoints: "es_endpoints blank = [] \<Longrightarrow> eps_of (mset (map (\<lambda>c. add_endpoints c blank) ds)) = mset (concat ds)"
  unfolding eps_of_mset by (simp add: add_endpoints_def comp_def)

lemma writes_keys:
  assumes "writes pods blank os ns ds all M M'" "length ns = length os" "mset os \<subseteq># M" "es_endpoints blank = []"
  shows "ep_keys M' \<subseteq># ep_keys M + mset (map ep_key (concat ns @ concat ds))"
proof -
  obtain P D C where w: "P \<subseteq># {#p \<in># mset (distributed pods ns os). es_endpoints (snd p) \<noteq> []#}"
      "D \<subseteq># {#p \<in># mset (distributed pods ns os). es_endpoints (snd p) = []#}"
      "image_mset anonymous C \<subseteq># image_mset anonymous (mset (map (\<lambda>c. add_endpoints c blank) ds))"
      "M' = M - image_mset fst P - image_mset fst D + image_mset snd P + C"
    using assms(1) unfolding writes_def by blast
  define R where "R = M - image_mset fst P - image_mset fst D"
  note pd = parts_of_pairs [OF w(1,2)]
  have R: "M = R + image_mset fst P + image_mset fst D" unfolding R_def by (rule add_back [OF olds_of_pairs [OF pd assms(2,3)], symmetric])
  have "P \<subseteq># mset (distributed pods ns os)" using pd by (metis mset_subset_eq_add_left subset_mset.order_trans)
  then have "gained P \<subseteq># mset (map ep_key (concat ns))" by (rule subset_mset.order_trans [OF gained_mono distributed_gained])
  then have k: "ep_keys (image_mset snd P) \<subseteq># ep_keys (image_mset fst P) + mset (map ep_key (concat ns))"
    by (intro subset_mset.order_trans [OF keys_gained] subset_mset.add_left_mono)
  have "eps_of C \<subseteq># mset (concat ds)" using eps_of_mono [OF w(3)] unfolding eps_of_anonymous created_endpoints [OF assms(4)] .
  then have "ep_keys C \<subseteq># mset (map ep_key (concat ds))" using image_mset_subseteq_mono by fastforce
  then have "ep_keys R + ep_keys (image_mset snd P) + ep_keys C \<subseteq>#
      ep_keys R + (ep_keys (image_mset fst P) + mset (map ep_key (concat ns))) + mset (map ep_key (concat ds))"
    using k by (intro subset_mset.add_mono subset_mset.order_refl)
  also have "\<dots> \<subseteq># ep_keys M + mset (map ep_key (concat ns @ concat ds))" unfolding R by simp
  finally show ?thesis unfolding w(4) R_def [symmetric] by simp
qed

lemma writes_endpoints:
  assumes "writes pods blank os ns ds True M M'" "length ns = length os" "mset os \<subseteq># M" "es_endpoints blank = []"
    and "\<And>s. s \<in># M - mset os \<Longrightarrow> current pods s = s"
  shows "eps_of M' = kept_in pods M + mset (concat ns @ concat ds)"
proof -
  let ?ps = "distributed pods ns os"
  obtain P D C where w: "D \<subseteq># {#p \<in># mset ?ps. es_endpoints (snd p) = []#}"
      "M' = M - image_mset fst P - image_mset fst D + image_mset snd P + C"
      "P + D = mset ?ps" "image_mset anonymous C = image_mset anonymous (mset (map (\<lambda>c. add_endpoints c blank) ds))"
    using assms(1) unfolding writes_def by blast
  have "eps_of (image_mset snd D) = {#}" using w(1) by (auto simp: eps_of_def dest!: mset_subset_eqD)
  then have "eps_of (image_mset snd P) = eps_of (mset (map snd ?ps))" unfolding mset_map w(3) [symmetric] by simp
  then have s1: "eps_of (image_mset snd P) = kept_in pods (mset os) + mset (concat ns)"
    using distributed_endpoints [OF assms(2)] by (simp add: kept_concat)
  have s2: "eps_of C = mset (concat ds)" using w(4) eps_of_anonymous created_endpoints [OF assms(4)] by metis
  have "image_mset fst P + image_mset fst D = mset os" using distributed_lists(1) [OF assms(2)] w(3) by (metis image_mset_union mset_map)
  then have r: "M - image_mset fst P - image_mset fst D = M - mset os" by (simp add: diff_diff_add_mset)
  have s3: "eps_of (M - mset os) = kept_in pods (M - mset os)" by (rule eps_of_current [OF assms(5)])
  have "kept_in pods (M - mset os + mset os) = kept_in pods (M - mset os) + kept_in pods (mset os)" by (rule kept_in_union)
  then have "kept_in pods M = kept_in pods (M - mset os) + kept_in pods (mset os)" using assms(3) by (simp only: subset_mset.diff_add)
  then show ?thesis unfolding w(2) r eps_of_simps(3) s1 s2 s3 mset_append by (simp only: ac_simps)
qed

lemma distributed_small:
  assumes "list_all2 (fits mx) ns (map (current pods) os)" "\<forall>s \<in> set os. int (length (es_endpoints s)) \<le> mx"
  shows "list_all (\<lambda>p. int (length (es_endpoints (snd p))) \<le> mx) (distributed pods ns os)"
  using assms
proof (induction ns os rule: list_induct2')
  case (4 n ns s os)
  then show ?case using length_kept [of "pod_map pods" "es_endpoints s"] by (auto simp: fits_def add_endpoints_def)
qed simp_all

lemma writes_small:
  assumes "writes pods blank os ns ds all M M'" "mset os \<subseteq># M" "es_endpoints blank = []"
    and "list_all2 (fits mx) ns (map (current pods) os)" "\<forall>c \<in> set ds. int (length c) \<le> mx"
    and "\<And>s. s \<in># M \<Longrightarrow> int (length (es_endpoints s)) \<le> mx" "s \<in># M'"
  shows "int (length (es_endpoints s)) \<le> mx"
proof -
  obtain P D C where w: "P \<subseteq># {#p \<in># mset (distributed pods ns os). es_endpoints (snd p) \<noteq> []#}"
      "D \<subseteq># {#p \<in># mset (distributed pods ns os). es_endpoints (snd p) = []#}"
      "image_mset anonymous C \<subseteq># image_mset anonymous (mset (map (\<lambda>c. add_endpoints c blank) ds))"
      "M' = M - image_mset fst P - image_mset fst D + image_mset snd P + C"
    using assms(1) unfolding writes_def by blast
  have pair: "int (length (es_endpoints (snd q))) \<le> mx" if "q \<in># P" for q
    using distributed_small [OF assms(4)] assms(6) set_mset_mono [OF assms(2)] mset_subset_eqD [OF w(1) that] by (auto simp: list_all_iff)
  from assms(7) consider "s \<in># M" | q where "q \<in># P" "s = snd q" | "s \<in># C" unfolding w(4) by (auto dest: in_diffD)
  then show ?thesis
  proof cases
    case 3
    then show ?thesis using created_slice [OF w(3) 3 assms(3)] assms(5) by blast
  qed (use assms(6) pair in auto)
qed

section \<open>Pods and their endpoints\<close>

definition has_address :: "pod \<Rightarrow> bool" where
  "has_address p \<longleftrightarrow> pod_ipv4 p \<noteq> [] \<or> pod_ipv6 p \<noteq> []"

lemma newEndpoint_eq: "newEndpoint p = (if has_address p then Some \<lparr>ee_namespace = om_namespace (pod_meta p), ee_pod = om_name (pod_meta p),
    ee_ipv4 = pod_ipv4 p, ee_ipv6 = pod_ipv6 p, ee_node = pod_node p\<rparr> else None)"
  by (simp add: newEndpoint_def has_address_def)

lemma new_endpoints:
  "map ep_key (needToCreate pods ks) = map pod_key (filter (\<lambda>p. pod_key p \<notin> set ks \<and> has_address p) pods)"
  "map sort_addresses (needToCreate pods ks) = map sorted_endpoint (filter (\<lambda>p. pod_key p \<notin> set ks \<and> has_address p) pods)"
  by (induction pods)
     (auto simp: needToCreate_def map_filter_simps newEndpoint_eq ep_key_def meta_key_def sort_addresses_def sorted_endpoint_def)

lemma existing_pod: "p \<in> set pods \<Longrightarrow> pod_key p \<in> set (existing_keys (pod_map pods) ss) \<longleftrightarrow> pod_key p \<in> ep_key ` set (concat (map es_endpoints ss))"
  by (auto simp: existing_keys_def pod_map_None)

lemma kept_pods:
  assumes "distinct (map pod_key pods)" "distinct (map ep_key eps)"
  shows "mset (kept (pod_map pods) eps) = mset (map sorted_endpoint (filter (\<lambda>p. pod_key p \<in> ep_key ` set eps) pods))"
proof -
  let ?ps = "List.map_filter (\<lambda>ep. pod_map pods (ep_key ep)) eps"
  have "map ep_key (kept (pod_map pods) eps) = map pod_key ?ps" by (simp add: kept_def)
  then have "distinct (map pod_key ?ps)" using kept_keys [of pods eps] assms(2) at_most_once_mono by (metis distinct_at_most_once)
  then have "distinct ?ps" by (simp add: distinct_map)
  moreover have "distinct (filter (\<lambda>p. pod_key p \<in> ep_key ` set eps) pods)" using assms(1) by (simp add: distinct_map)
  moreover have "p \<in> set ?ps \<longleftrightarrow> p \<in> set (filter (\<lambda>p. pod_key p \<in> ep_key ` set eps) pods)" for p
  proof
    assume "p \<in> set ?ps"
    then obtain ep where "ep \<in> set eps" "pod_map pods (ep_key ep) = Some p" by (auto simp: set_map_filter)
    then show "p \<in> set (filter (\<lambda>p. pod_key p \<in> ep_key ` set eps) pods)" using pod_map_key [of pods "ep_key ep" p] by auto
  next
    assume "p \<in> set (filter (\<lambda>p. pod_key p \<in> ep_key ` set eps) pods)"
    then obtain ep where "p \<in> set pods" "ep \<in> set eps" "pod_key p = ep_key ep" by auto
    then show "p \<in> set ?ps" using pod_map_Some [OF assms(1), of p] by (auto simp: set_map_filter)
  qed
  then have "set ?ps = set (filter (\<lambda>p. pod_key p \<in> ep_key ` set eps) pods)" by blast
  ultimately have "mset ?ps = mset (filter (\<lambda>p. pod_key p \<in> ep_key ` set eps) pods)" by (simp only: set_eq_iff_mset_eq_distinct)
  then show ?thesis by (simp only: kept_def mset_map)
qed

lemma covered_pods:
  assumes "distinct (map pod_key pods)" "distinct (map ep_key (concat (map es_endpoints ss)))"
  shows "image_mset sort_addresses (kept_in pods (mset ss) + mset (needToCreate pods (existing_keys (pod_map pods) ss))) =
    mset (map sorted_endpoint (filter (\<lambda>p. has_address p \<or> pod_key p \<in> ep_key ` set (concat (map es_endpoints ss))) pods))"
proof -
  let ?in = "\<lambda>p. pod_key p \<in> ep_key ` set (concat (map es_endpoints ss))"
  have "filter (\<lambda>p. pod_key p \<notin> set (existing_keys (pod_map pods) ss) \<and> has_address p) pods = filter (\<lambda>p. \<not> ?in p \<and> has_address p) pods"
    by (intro filter_cong) (simp_all add: existing_pod)
  then have n: "map sort_addresses (needToCreate pods (existing_keys (pod_map pods) ss)) = map sorted_endpoint (filter (\<lambda>p. \<not> ?in p \<and> has_address p) pods)"
    by (simp only: new_endpoints)
  have "image_mset sort_addresses (mset (kept (pod_map pods) eps)) = mset (kept (pod_map pods) eps)" for eps by (simp add: kept_def image_mset.compositionality comp_def)
  then have k: "image_mset sort_addresses (kept_in pods (mset ss)) = mset (map sorted_endpoint (filter ?in pods))"
    unfolding kept_concat [symmetric] kept_pods [OF assms, symmetric] .
  have "mset (filter (\<lambda>p. has_address p \<or> ?in p) ps) = mset (filter ?in ps) + mset (filter (\<lambda>p. \<not> ?in p \<and> has_address p) ps)" for ps
    by (induction ps) auto
  then show ?thesis using n k by (simp only: image_mset_union mset_map [symmetric]) (simp only: mset_map image_mset_union)
qed

lemma new_keys_unique:
  assumes "distinct (map pod_key pods)" "distinct (map ep_key (concat (map es_endpoints ss)))"
  shows "at_most_once (ep_keys (mset ss) + mset (map ep_key (needToCreate pods (existing_keys (pod_map pods) ss))))"
proof -
  have "distinct (map ep_key (concat (map es_endpoints ss)) @ map ep_key (needToCreate pods (existing_keys (pod_map pods) ss)))"
    using assms existing_pod unfolding new_endpoints by (fastforce simp: distinct_map_filter)
  then show ?thesis unfolding distinct_at_most_once by (simp add: eps_of_mset)
qed

section \<open>One reconcile\<close>

context slice_server
begin

text \<open>
  \<open>sel\<close> selects the slices of the policy by their namespace and labels; the new slices are among
  them.
\<close>

lemma sync:
  assumes "unique_keys (slices w)" "mx \<ge> 1" "mset mine = filter_mset sel (slices w)" "by_labels sel" "sel blank" "es_endpoints blank = []"
    and "plan mx blank pods mine = Ok (us, cs)" "push cli us cs w = (res, w')"
  shows "\<exists>os ns ds. distributes mx pods mine os ns ds \<and> length ns = length os \<and>
    writes pods blank os ns ds (res = Ok ()) (mset mine) (filter_mset sel (slices w')) \<and>
    {#s \<in># slices w'. \<not> sel s#} = {#s \<in># slices w. \<not> sel s#} \<and> (res = Ok () \<or> (\<exists>es. res = Err (EpAggregate es)))"
proof -
  obtain os ns ds where p: "us = filled ns (map (current pods) os)" "cs = map (\<lambda>c. add_endpoints c blank) ds"
      and d: "distributes mx pods mine os ns ds"
    using plan_spec [OF assms(2), of blank pods mine] assms(7) by auto
  have os: "mset os \<subseteq># mset mine" and "list_all2 (fits mx) ns (map (current pods) os)" using d unfolding distributes_def by blast+
  then have len: "length ns = length os" by (auto dest: list_all2_lengthD)
  let ?ps = "distributed pods ns os"
  note lists = distributed_lists [OF len, of pods]
  have "mset mine \<subseteq># slices w" unfolding assms(3) by simp
  then have "mset (map fst ?ps) \<subseteq># slices w" unfolding lists(1) by (rule subset_mset.order_trans [OF os])
  moreover have "\<forall>p \<in> set ?ps. slice_key (fst p) = slice_key (snd p)" using distributed_meta by metis
  moreover have "push cli (map snd ?ps) cs w = (res, w')" using assms(8) unfolding lists(2) p(1) .
  ultimately have "writes pods blank os ns ds (res = Ok ()) (slices w) (slices w') \<and> (res = Ok () \<or> (\<exists>es. res = Err (EpAggregate es)))"
    using push_contents [OF assms(1), of ?ps cs res w'] unfolding writes_def p(2) by blast
  then show ?thesis using writes_select [OF _ assms(4-6) os [unfolded assms(3)] len] d len unfolding assms(3) by blast
qed

end

end
