(* ===== verification/EndpointProps.thy ===== *)
theory EndpointProps
  imports EndpointSync ApiStore IPProps
begin

text \<open>
  A cluster in memory whose writes to endpoint slices may fail, and the properties of the
  endpoint controllers on it: after a reconcile without error every selected pod has exactly one
  endpoint; whatever fails, no pod has two; no slice grows over the limit.
\<close>

section \<open>The cluster\<close>

record ep_store =
  ps_slices :: "egress_endpoint_slice list"
  ps_cslices :: "egress_endpoint_slice list"
  ps_pods :: "pod list"
  ps_namespaces :: "k8s_namespace list"
  ps_policies :: "egress_policy list"
  ps_cpolicies :: "egress_cluster_policy list"
  ps_counter :: nat
  ps_oks :: "bool list"

text \<open>The next element of \<^const>\<open>ps_oks\<close> says whether the write succeeds.\<close>

definition accepted :: "(ep_store, unit) api \<Rightarrow> (ep_store, unit) api" where
  "accepted f w = (case ps_oks w of
     False # oks \<Rightarrow> (Err (OtherErr ''unavailable''), w\<lparr>ps_oks := oks\<rparr>)
   | True # oks \<Rightarrow> f (w\<lparr>ps_oks := oks\<rparr>)
   | [] \<Rightarrow> f w)"

text \<open>A created slice is named by its prefix and a counter; the write fails when the name is taken.\<close>

definition store_slices :: "(ep_store \<Rightarrow> egress_endpoint_slice list) \<Rightarrow>
    ((egress_endpoint_slice list \<Rightarrow> egress_endpoint_slice list) \<Rightarrow> ep_store \<Rightarrow> ep_store) \<Rightarrow> ep_store slice_api" where
  "store_slices get upd = \<lparr>
     sa_update = (\<lambda>s. accepted (\<lambda>w. if slice_key s \<in> slice_key ` set (get w)
       then (Ok (), upd (map (\<lambda>t. if slice_key t = slice_key s then s else t)) w) else (Err NotFound, w))),
     sa_create = (\<lambda>s. accepted (\<lambda>w.
       let s' = name_slice (es_generate_name s @ dec_string (ps_counter w)) s; w' = w\<lparr>ps_counter := ps_counter w + 1\<rparr> in
       if slice_key s' \<in> slice_key ` set (get w) then (Err (OtherErr ''already exists''), w')
       else (Ok (), upd (\<lambda>ss. ss @ [s']) w'))),
     sa_delete = (\<lambda>s. accepted (\<lambda>w. if slice_key s \<in> slice_key ` set (get w)
       then (Ok (), upd (filter (\<lambda>t. slice_key t \<noteq> slice_key s)) w) else (Err NotFound, w)))\<rparr>"

lemma replace_one:
  assumes "distinct (map f xs)" "t \<in> set xs" "f t = f s"
  shows "mset (map (\<lambda>x. if f x = f s then s else x) xs) = add_mset s (mset xs - {#t#})"
    and "mset (filter (\<lambda>x. f x \<noteq> f s) xs) = mset xs - {#t#}"
proof -
  obtain ys zs where x: "xs = ys @ t # zs" using assms(2) by (metis split_list)
  have ne: "\<forall>x \<in> set ys \<union> set zs. f x \<noteq> f s" using assms(1,3) x by (force simp: image_iff)
  have i: "map (\<lambda>x. if f x = f s then s else x) ys = ys" "map (\<lambda>x. if f x = f s then s else x) zs = zs"
    using ne by (auto intro: map_idI)
  have j: "filter (\<lambda>x. f x \<noteq> f s) ys = ys" "filter (\<lambda>x. f x \<noteq> f s) zs = zs" using ne by (auto simp: filter_id_conv)
  show "mset (map (\<lambda>x. if f x = f s then s else x) xs) = add_mset s (mset xs - {#t#})" using i assms(3) by (simp add: x)
  show "mset (filter (\<lambda>x. f x \<noteq> f s) xs) = mset xs - {#t#}" using j assms(3) by (simp add: x)
qed

lemma store_slices_server:
  assumes get: "\<And>f w. get (upd f w) = f (get w)" "\<And>w oks. get (w\<lparr>ps_oks := oks\<rparr>) = get w" "\<And>w n. get (w\<lparr>ps_counter := n\<rparr>) = get w"
  shows "slice_server (store_slices get upd) (\<lambda>w. mset (get w))"
proof
  fix w s res w'
  assume u: "unique_keys (mset (get w))"
  then have d: "distinct (map slice_key (get w))" by (simp add: unique_keys_def distinct_at_most_once)
  show "(\<exists>e. res = Err e) \<and> mset (get w') = mset (get w) \<or>
      res = Ok () \<and> (\<exists>nm. mset (get w') = add_mset (name_slice nm s) (mset (get w)) \<and> unique_keys (mset (get w')))"
    if "sa_create (store_slices get upd) s w = (res, w')"
    using that u by (auto simp: store_slices_def accepted_def get Let_def unique_keys_def at_most_once_add split: list.splits bool.splits if_splits)
  fix t assume t: "t \<in># mset (get w)" "slice_key t = slice_key s"
  then have k: "slice_key s \<in> slice_key ` set (get w)" by (metis image_eqI set_mset_mset)
  note r = replace_one [OF d _ t(2), unfolded set_mset_mset [symmetric], OF t(1)]
  show "(\<exists>e. res = Err e) \<and> mset (get w') = mset (get w) \<or> res = Ok () \<and> mset (get w') = add_mset s (mset (get w) - {#t#})"
    if "sa_update (store_slices get upd) s w = (res, w')"
    using that k r(1) by (auto simp: store_slices_def accepted_def get split: list.splits bool.splits)
  show "(\<exists>e. res = Err e) \<and> mset (get w') = mset (get w) \<or> res = Ok () \<and> mset (get w') = mset (get w) - {#t#}"
    if "sa_delete (store_slices get upd) s w = (res, w')"
    using that k r(2) by (auto simp: store_slices_def accepted_def get split: list.splits bool.splits)
qed

interpretation nslices: slice_server "store_slices ps_slices ps_slices_update" "\<lambda>w. mset (ps_slices w)"
  by (rule store_slices_server) simp_all

interpretation cslices: slice_server "store_slices ps_cslices ps_cslices_update" "\<lambda>w. mset (ps_cslices w)"
  by (rule store_slices_server) simp_all

definition in_ns :: "string option \<Rightarrow> (labels \<Rightarrow> bool) \<Rightarrow> object_meta \<Rightarrow> bool" where
  "in_ns ns f m = ((case ns of None \<Rightarrow> True | Some n \<Rightarrow> om_namespace m = n) \<and> f (om_labels m))"

definition ep_ctl :: "conversion \<Rightarrow> int \<Rightarrow> ep_store endpointReconciler" where
  "ep_ctl conv mx = \<lparr>er_conv = conv, er_max = mx,
     er_get_policy = (\<lambda>(ns, nm) w. (find_or (\<lambda>p. named ns nm (ep_meta p)) (ps_policies w), w)),
     er_list_policies = (\<lambda>w. (Ok (ps_policies w), w)),
     er_list_pods = (\<lambda>ns f w. (Ok (filter (\<lambda>p. in_ns ns f (pod_meta p)) (ps_pods w)), w)),
     er_list_slices = (\<lambda>ns f w. (Ok (filter (\<lambda>s. in_ns ns f (es_meta s)) (ps_slices w)), w)),
     er_slices = store_slices ps_slices ps_slices_update\<rparr>"

definition cluster_ctl :: "conversion \<Rightarrow> int \<Rightarrow> ep_store endpointClusterReconciler" where
  "cluster_ctl conv mx = \<lparr>cr_conv = conv, cr_max = mx,
     cr_get_policy = (\<lambda>(ns, nm) w. (find_or (\<lambda>p. named ns nm (ecp_meta p)) (ps_cpolicies w), w)),
     cr_list_policies = (\<lambda>w. (Ok (ps_cpolicies w), w)),
     cr_list_pods = (\<lambda>ns f w. (Ok (filter (\<lambda>p. in_ns ns f (pod_meta p)) (ps_pods w)), w)),
     cr_list_namespaces = (\<lambda>f w. (Ok (case f of None \<Rightarrow> ps_namespaces w
        | Some f \<Rightarrow> filter (\<lambda>n. f (om_labels (ns_meta n))) (ps_namespaces w)), w)),
     cr_get_namespace = (\<lambda>nm w. (find_or (\<lambda>n. om_name (ns_meta n) = nm) (ps_namespaces w), w)),
     cr_list_slices = (\<lambda>ns f w. (Ok (filter (\<lambda>s. in_ns ns f (es_meta s)) (ps_cslices w)), w)),
     cr_slices = store_slices ps_cslices ps_cslices_update\<rparr>"

lemma cluster_ctl_simps [simp]: "cr_max (cluster_ctl conv mx) = mx" "cr_slices (cluster_ctl conv mx) = store_slices ps_cslices ps_cslices_update"
  "cr_conv (cluster_ctl conv mx) = conv"
  by (simp_all add: cluster_ctl_def)

section \<open>Policies and their slices\<close>

definition ep_store_ok :: "ep_store \<Rightarrow> bool" where
  "ep_store_ok w \<longleftrightarrow> distinct (map slice_key (ps_slices w)) \<and> distinct (map slice_key (ps_cslices w)) \<and>
     distinct (map pod_key (ps_pods w)) \<and> distinct (map (\<lambda>n. om_name (ns_meta n)) (ps_namespaces w))"

definition has_policy_label :: "string \<Rightarrow> labels \<Rightarrow> bool" where
  "has_policy_label nm ls \<longleftrightarrow> map_of ls LabelPolicyName = Some nm"

definition slices_of :: "string option \<Rightarrow> string \<Rightarrow> egress_endpoint_slice list \<Rightarrow> egress_endpoint_slice list" where
  "slices_of ns nm ss = filter (\<lambda>s. in_ns ns (has_policy_label nm) (es_meta s)) ss"

definition endpoints_of :: "string option \<Rightarrow> string \<Rightarrow> egress_endpoint_slice list \<Rightarrow> egress_endpoint list" where
  "endpoints_of ns nm ss = concat (map es_endpoints (slices_of ns nm ss))"

text \<open>The policy is stored and not being deleted; \<open>f\<close> is its pod selector.\<close>

definition live_policy :: "conversion \<Rightarrow> egress_policy \<Rightarrow> (labels \<Rightarrow> bool) \<Rightarrow> ep_store \<Rightarrow> bool" where
  "live_policy conv p f w \<longleftrightarrow>
     find (\<lambda>q. named (om_namespace (ep_meta p)) (om_name (ep_meta p)) (ep_meta q)) (ps_policies w) = Some p \<and>
     \<not> om_deleting (ep_meta p) \<and> conv (pod_selector (ep_applied_to (ep_spec p))) = Some f \<and>
     conv (policy_label (om_name (ep_meta p))) = Some (has_policy_label (om_name (ep_meta p)))"

definition selected_pods :: "egress_policy \<Rightarrow> (labels \<Rightarrow> bool) \<Rightarrow> ep_store \<Rightarrow> pod list" where
  "selected_pods p f w = filter (\<lambda>q. in_ns (Some (om_namespace (ep_meta p))) f (pod_meta q)) (ps_pods w)"

lemma ep_Reconcile_run:
  assumes "live_policy conv p f w"
  shows "ep_Reconcile (ep_ctl conv mx) (request_of (ep_meta p)) w =
    bindp (lift (plan mx (newEndpointSlice p) (selected_pods p f w) (slices_of (Some (om_namespace (ep_meta p))) (om_name (ep_meta p)) (ps_slices w))))
      (\<lambda>(us, cs). push (store_slices ps_slices ps_slices_update) us cs) w"
  using assms
  by (simp add: live_policy_def ep_Reconcile_def fetch_live_def listPodsByPolicy_def listEndpointSlices_def as_selector_def ep_ctl_def
      request_of_def find_or_def selected_pods_def slices_of_def bindp_def attempt_def ret_def lift_def or_fail_def)

lemma in_ns_by_labels: "by_labels (\<lambda>s. in_ns ns f (es_meta s))"
  by (auto simp: by_labels_def in_ns_def split: option.split)

lemma blank_selected:
  "in_ns (Some (om_namespace m)) (has_policy_label (om_name m)) (es_meta (blank_slice kind m))"
  "in_ns None (has_policy_label (om_name m)) (es_meta (blank_slice kind m))" "es_endpoints (blank_slice kind m) = []"
  by (simp_all add: in_ns_def blank_slice_def has_policy_label_def)

text \<open>A reconcile of the namespaced or of the cluster controller, after its reads.\<close>

lemma run_plan:
  assumes "mx \<ge> 1" "bindp (lift (plan mx blank pods mine)) (\<lambda>(us, cs). push cli us cs) w = (res, w')"
  shows "\<exists>us cs. plan mx blank pods mine = Ok (us, cs) \<and> push cli us cs w = (res, w')"
  using plan_spec [OF assms(1), of blank pods mine] assms(2) by (auto simp: bindp_def lift_def)

lemma synced_endpoints:
  assumes "distributes mx pods mine os ns ds" "length ns = length os" "writes pods blank os ns ds True (mset mine) (mset mine')"
    and "es_endpoints blank = []" "distinct (map pod_key pods)" "distinct (map ep_key (concat (map es_endpoints mine)))"
  shows "image_mset sort_addresses (mset (concat (map es_endpoints mine'))) =
    mset (map sorted_endpoint (filter (\<lambda>p. has_address p \<or> pod_key p \<in> ep_key ` set (concat (map es_endpoints mine))) pods))"
proof -
  have d: "mset os \<subseteq># mset mine" "\<And>s. s \<in># mset mine - mset os \<Longrightarrow> current pods s = s"
    "concat ns @ concat ds = needToCreate pods (existing_keys (pod_map pods) mine)" using assms(1) unfolding distributes_def by blast+
  have "mset (concat (map es_endpoints mine')) = kept_in pods (mset mine) + mset (needToCreate pods (existing_keys (pod_map pods) mine))"
    using writes_endpoints [OF assms(3,2) d(1) assms(4) d(2)] unfolding d(3) eps_of_mset .
  then show ?thesis using covered_pods [OF assms(5,6)] by simp
qed

lemma synced_keys:
  assumes "distributes mx pods mine os ns ds" "length ns = length os" "writes pods blank os ns ds all (mset mine) (mset mine')"
    and "es_endpoints blank = []" "distinct (map pod_key pods)" "distinct (map ep_key (concat (map es_endpoints mine)))"
  shows "distinct (map ep_key (concat (map es_endpoints mine')))"
proof -
  have d: "mset os \<subseteq># mset mine" "concat ns @ concat ds = needToCreate pods (existing_keys (pod_map pods) mine)"
    using assms(1) unfolding distributes_def by blast+
  have "ep_keys (mset mine') \<subseteq># ep_keys (mset mine) + mset (map ep_key (needToCreate pods (existing_keys (pod_map pods) mine)))"
    using writes_keys [OF assms(3,2) d(1) assms(4)] unfolding d(2) .
  then have "at_most_once (ep_keys (mset mine'))" using new_keys_unique [OF assms(5,6)] by (rule at_most_once_mono)
  then show ?thesis by (simp add: distinct_at_most_once eps_of_mset)
qed

abbreviation ns_slices :: "egress_policy \<Rightarrow> ep_store \<Rightarrow> egress_endpoint_slice list" where
  "ns_slices p w \<equiv> slices_of (Some (om_namespace (ep_meta p))) (om_name (ep_meta p)) (ps_slices w)"

abbreviation ns_endpoints :: "egress_policy \<Rightarrow> ep_store \<Rightarrow> egress_endpoint list" where
  "ns_endpoints p w \<equiv> endpoints_of (Some (om_namespace (ep_meta p))) (om_name (ep_meta p)) (ps_slices w)"

lemma ep_Reconcile_synced:
  assumes "ep_store_ok w" "live_policy conv p f w" "mx \<ge> 1" "ep_Reconcile (ep_ctl conv mx) (request_of (ep_meta p)) w = (res, w')"
  shows "\<exists>os ns ds. distributes mx (selected_pods p f w) (ns_slices p w) os ns ds \<and> length ns = length os \<and>
    writes (selected_pods p f w) (newEndpointSlice p) os ns ds (res = Ok ()) (mset (ns_slices p w)) (mset (ns_slices p w')) \<and>
    (res = Ok () \<or> (\<exists>es. res = Err (EpAggregate es)))"
    and "distinct (map pod_key (selected_pods p f w))"
proof -
  note run = assms(4) [unfolded ep_Reconcile_run [OF assms(2)]]
  obtain us cs where u: "plan mx (newEndpointSlice p) (selected_pods p f w) (ns_slices p w) = Ok (us, cs)"
      "push (store_slices ps_slices ps_slices_update) us cs w = (res, w')"
    using run_plan [OF assms(3) run] by blast
  have "unique_keys (mset (ps_slices w))" using assms(1) by (simp add: ep_store_ok_def unique_keys_def distinct_at_most_once)
  from nslices.sync [OF this assms(3) _ in_ns_by_labels _ _ u, of "Some (om_namespace (ep_meta p))" "has_policy_label (om_name (ep_meta p))"]
  show "\<exists>os ns ds. distributes mx (selected_pods p f w) (ns_slices p w) os ns ds \<and> length ns = length os \<and>
    writes (selected_pods p f w) (newEndpointSlice p) os ns ds (res = Ok ()) (mset (ns_slices p w)) (mset (ns_slices p w')) \<and>
    (res = Ok () \<or> (\<exists>es. res = Err (EpAggregate es)))"
    by (simp add: slices_of_def newEndpointSlice_def blank_selected) blast
  show "distinct (map pod_key (selected_pods p f w))" using assms(1) by (simp add: ep_store_ok_def selected_pods_def distinct_map_filter)
qed

text \<open>The cluster policy is stored and not being deleted; \<open>f\<close> is its pod selector, \<open>g\<close> its namespace selector.\<close>

definition live_cpolicy :: "conversion \<Rightarrow> egress_cluster_policy \<Rightarrow> (labels \<Rightarrow> bool) \<Rightarrow> (labels \<Rightarrow> bool) \<Rightarrow> ep_store \<Rightarrow> bool" where
  "live_cpolicy conv p f g w \<longleftrightarrow>
     find (\<lambda>q. named (om_namespace (ecp_meta p)) (om_name (ecp_meta p)) (ecp_meta q)) (ps_cpolicies w) = Some p \<and>
     \<not> om_deleting (ecp_meta p) \<and> conv (cpod_selector (ecp_applied_to (ecp_spec p))) = Some f \<and>
     (namespace_selector (ecp_applied_to (ecp_spec p)) = None \<or> conv (namespace_selector (ecp_applied_to (ecp_spec p))) = Some g) \<and>
     conv (policy_label (om_name (ecp_meta p))) = Some (has_policy_label (om_name (ecp_meta p)))"

definition ns_matches :: "egress_cluster_policy \<Rightarrow> (labels \<Rightarrow> bool) \<Rightarrow> ep_store \<Rightarrow> string \<Rightarrow> bool" where
  "ns_matches p g w ns \<longleftrightarrow> namespace_selector (ecp_applied_to (ecp_spec p)) = None \<or>
     ns \<in> (\<lambda>n. om_name (ns_meta n)) ` {n \<in> set (ps_namespaces w). g (om_labels (ns_meta n))}"

definition cluster_selected :: "egress_cluster_policy \<Rightarrow> (labels \<Rightarrow> bool) \<Rightarrow> (labels \<Rightarrow> bool) \<Rightarrow> ep_store \<Rightarrow> pod list" where
  "cluster_selected p f g w = filter (\<lambda>q. ns_matches p g w (om_namespace (pod_meta q)) \<and> f (om_labels (pod_meta q))) (ps_pods w)"

definition cluster_pods :: "egress_cluster_policy \<Rightarrow> (labels \<Rightarrow> bool) \<Rightarrow> (labels \<Rightarrow> bool) \<Rightarrow> ep_store \<Rightarrow> pod list" where
  "cluster_pods p f g w = (case namespace_selector (ecp_applied_to (ecp_spec p)) of
     None \<Rightarrow> filter (\<lambda>q. in_ns None f (pod_meta q)) (ps_pods w)
   | Some _ \<Rightarrow> concat (map (\<lambda>n. filter (\<lambda>q. in_ns (Some (om_name (ns_meta n))) f (pod_meta q)) (ps_pods w))
       (filter (\<lambda>n. g (om_labels (ns_meta n))) (ps_namespaces w))))"

lemma concat_by_key:
  assumes "distinct (map k ns)"
  shows "mset (concat (map (\<lambda>n. filter (\<lambda>q. h q = k n \<and> P q) qs) ns)) = mset (filter (\<lambda>q. h q \<in> k ` set ns \<and> P q) qs)"
  using assms
proof (induction ns)
  case (Cons n ns)
  have "mset (filter (\<lambda>q. h q \<in> k ` set (n # ns) \<and> P q) qs) = mset (filter (\<lambda>q. h q = k n \<and> P q) qs) + mset (filter (\<lambda>q. h q \<in> k ` set ns \<and> P q) qs)"
    using Cons.prems by (induction qs) auto
  then show ?case using Cons by simp
qed simp

lemma cluster_pods_mset: "ep_store_ok w \<Longrightarrow> mset (cluster_pods p f g w) = mset (cluster_selected p f g w)"
proof (cases "namespace_selector (ecp_applied_to (ecp_spec p))")
  case (Some sel)
  assume "ep_store_ok w"
  then have "distinct (map (\<lambda>n. om_name (ns_meta n)) (filter (\<lambda>n. g (om_labels (ns_meta n))) (ps_namespaces w)))"
    by (simp add: ep_store_ok_def distinct_map_filter)
  from concat_by_key [OF this, of "\<lambda>q. om_namespace (pod_meta q)" "\<lambda>q. f (om_labels (pod_meta q))" "ps_pods w"] Some
  show ?thesis by (simp add: cluster_pods_def cluster_selected_def ns_matches_def in_ns_def)
qed (simp add: cluster_pods_def cluster_selected_def ns_matches_def in_ns_def)

lemma list_cluster_pods:
  assumes "live_cpolicy conv p f g w"
  shows "listPodsByClusterPolicy (cluster_ctl conv mx) p w = (Ok (cluster_pods p f g w), w)"
proof (cases "namespace_selector (ecp_applied_to (ecp_spec p))")
  case (Some sel)
  let ?pods = "\<lambda>n. filter (\<lambda>q. in_ns (Some (om_name (ns_meta n))) f (pod_meta q)) (ps_pods w)"
  have loop: "for_each (\<lambda>ns res. bindp (as_selector conv (cpod_selector (ecp_applied_to (ecp_spec p)))) (\<lambda>sel.
      bindp (or_fail EpApi (cr_list_pods (cluster_ctl conv mx) (Some (om_name (ns_meta ns))) sel)) (\<lambda>pods. ret (res @ pods)))) nss acc w =
      (Ok (acc @ concat (map ?pods nss)), w)" for nss acc
    using assms by (induction nss arbitrary: acc) (simp_all add: live_cpolicy_def cluster_ctl_def as_selector_def bindp_def lift_def or_fail_def ret_def)
  have "as_selector conv (Some sel) w = (Ok g, w)" using assms Some by (simp add: live_cpolicy_def as_selector_def lift_def)
  then show ?thesis using loop [of "filter (\<lambda>n. g (om_labels (ns_meta n))) (ps_namespaces w)" "[]"] Some
    by (simp add: listPodsByClusterPolicy_def cluster_pods_def Let_def bindp_def or_fail_def) (simp add: cluster_ctl_def bindp_def or_fail_def)
qed (use assms in \<open>simp add: listPodsByClusterPolicy_def cluster_pods_def live_cpolicy_def as_selector_def cluster_ctl_def Let_def
    bindp_def lift_def or_fail_def\<close>)

abbreviation cl_slices :: "egress_cluster_policy \<Rightarrow> ep_store \<Rightarrow> egress_endpoint_slice list" where
  "cl_slices p w \<equiv> slices_of None (om_name (ecp_meta p)) (ps_cslices w)"

abbreviation cl_endpoints :: "egress_cluster_policy \<Rightarrow> ep_store \<Rightarrow> egress_endpoint list" where
  "cl_endpoints p w \<equiv> endpoints_of None (om_name (ecp_meta p)) (ps_cslices w)"

lemma cluster_Reconcile_run:
  assumes "live_cpolicy conv p f g w"
  shows "cluster_Reconcile (cluster_ctl conv mx) (request_of (ecp_meta p)) w =
    bindp (lift (plan mx (newClusterEndpointSlice p) (cluster_pods p f g w) (cl_slices p w)))
      (\<lambda>(us, cs). push (store_slices ps_cslices ps_cslices_update) us cs) w"
proof -
  have "fetch_live ecp_meta (cr_get_policy (cluster_ctl conv mx) (om_namespace (ecp_meta p), om_name (ecp_meta p))) w = (Ok (Some p), w)"
    using assms by (simp add: live_cpolicy_def fetch_live_def cluster_ctl_def find_or_def bindp_def attempt_def ret_def)
  moreover have "listClusterEndpointSlices (cluster_ctl conv mx) (om_name (ecp_meta p)) w = (Ok (cl_slices p w), w)"
    using assms by (simp add: live_cpolicy_def listClusterEndpointSlices_def as_selector_def cluster_ctl_def slices_of_def bindp_def lift_def or_fail_def)
  ultimately show ?thesis using list_cluster_pods [OF assms]
    by (simp add: cluster_Reconcile_def request_of_def bindp_def)
qed

lemma new_slice_empty [simp]: "es_endpoints (newEndpointSlice p) = []" "es_endpoints (newClusterEndpointSlice q) = []"
  by (simp_all add: newEndpointSlice_def newClusterEndpointSlice_def blank_slice_def)

section \<open>Properties\<close>


text \<open>A policy that selects every pod of its namespace, with two pods and no slice.\<close>

definition ex_conv :: conversion where
  "ex_conv sel = (case sel of None \<Rightarrow> Some (\<lambda>_. True)
     | Some s \<Rightarrow> Some (\<lambda>ls. list_all (\<lambda>(k, v). map_of ls k = Some v) (match_labels s)))"

definition ex_om :: "string \<Rightarrow> string \<Rightarrow> object_meta" where
  "ex_om ns nm = \<lparr>om_name = nm, om_namespace = ns, om_deleting = False, om_finalizers = [], om_labels = []\<rparr>"

definition ex_pod :: "string \<Rightarrow> string \<Rightarrow> pod" where
  "ex_pod nm ip = \<lparr>pod_meta = ex_om ''default'' nm, pod_node = ''node1'', pod_ips = [ip]\<rparr>"

definition ex_pol :: egress_policy where
  "ex_pol = \<lparr>ep_meta = ex_om ''default'' ''pol'', ep_spec = \<lparr>ep_gateway_name = ''egw'',
     ep_egress_ip = \<lparr>ei_ipv4 = [], ei_ipv6 = [], use_node_ip = True, allocator_policy = []\<rparr>,
     ep_applied_to = \<lparr>pod_selector = None, pod_subnet = []\<rparr>, ep_dest_subnet = [], ep_priority = 0\<rparr>,
     ep_status = \<lparr>st_ipv4 = [], st_ipv6 = [], st_node = []\<rparr>\<rparr>"

definition ex_cpol :: egress_cluster_policy where
  "ex_cpol = \<lparr>ecp_meta = ex_om [] ''pol'', ecp_spec = \<lparr>ecp_gateway_name = ''egw'',
     ecp_egress_ip = \<lparr>ei_ipv4 = [], ei_ipv6 = [], use_node_ip = True, allocator_policy = []\<rparr>,
     ecp_applied_to = \<lparr>cpod_selector = None, cpod_subnet = None, namespace_selector = None\<rparr>, ecp_dest_subnet = [], ecp_priority = 0\<rparr>,
     ecp_status = \<lparr>st_ipv4 = [], st_ipv6 = [], st_node = []\<rparr>\<rparr>"

definition ex_cluster :: "bool list \<Rightarrow> ep_store" where
  "ex_cluster oks = \<lparr>ps_slices = [], ps_cslices = [], ps_pods = [ex_pod ''a'' ''10.0.0.1'', ex_pod ''b'' ''10.0.0.2''], ps_namespaces = [],
     ps_policies = [ex_pol], ps_cpolicies = [ex_cpol], ps_counter = 0, ps_oks = oks\<rparr>"

lemma ex_cluster_ok: "ep_store_ok (ex_cluster oks)"
  by (simp add: ep_store_ok_def ex_cluster_def ex_pod_def ex_om_def meta_key_def)

lemma ex_label: "ex_conv (policy_label nm) = Some (has_policy_label nm)"
  by (simp add: ex_conv_def policy_label_def has_policy_label_def fun_eq_iff)

lemma ex_live: "live_policy ex_conv ex_pol (\<lambda>_. True) (ex_cluster oks)" "live_cpolicy ex_conv ex_cpol (\<lambda>_. True) (\<lambda>_. True) (ex_cluster oks)"
  by (simp_all add: live_policy_def live_cpolicy_def ex_label) (simp_all add: ex_cluster_def ex_pol_def ex_cpol_def ex_om_def ex_conv_def named_def)

lemma ex_addresses: "pod_ipv4 (ex_pod nm ''10.0.0.1'') = [''10.0.0.1'']" "pod_ipv4 (ex_pod nm ''10.0.0.2'') = [''10.0.0.2'']"
  "pod_ipv6 (ex_pod nm ''10.0.0.1'') = []" "pod_ipv6 (ex_pod nm ''10.0.0.2'') = []"
  by (simp_all add: pod_ipv4_def pod_ipv6_def ex_pod_def ip_eval)

lemma ex_new: "needToCreate [ex_pod ''a'' ''10.0.0.1'', ex_pod ''b'' ''10.0.0.2''] (existing_keys m []) =
    [sorted_endpoint (ex_pod ''a'' ''10.0.0.1''), sorted_endpoint (ex_pod ''b'' ''10.0.0.2'')]"
  by (simp add: needToCreate_def existing_keys_def map_filter_simps newEndpoint_def ex_addresses sorted_endpoint_def)

lemma ex_plan: "plan 1 blank [ex_pod ''a'' ''10.0.0.1'', ex_pod ''b'' ''10.0.0.2''] [] =
    Ok ([], [add_endpoints [sorted_endpoint (ex_pod ''a'' ''10.0.0.1'')] blank, add_endpoints [sorted_endpoint (ex_pod ''b'' ''10.0.0.2'')] blank])"
  by (simp add: plan_def ex_new create_slices_def create_loop.simps Let_def)

lemma ex_select: "selected_pods ex_pol (\<lambda>_. True) (ex_cluster oks) = [ex_pod ''a'' ''10.0.0.1'', ex_pod ''b'' ''10.0.0.2'']"
  "cluster_selected ex_cpol (\<lambda>_. True) (\<lambda>_. True) (ex_cluster oks) = [ex_pod ''a'' ''10.0.0.1'', ex_pod ''b'' ''10.0.0.2'']"
  "cluster_pods ex_cpol (\<lambda>_. True) (\<lambda>_. True) (ex_cluster oks) = [ex_pod ''a'' ''10.0.0.1'', ex_pod ''b'' ''10.0.0.2'']"
  "slices_of ns nm (ps_slices (ex_cluster oks)) = []" "slices_of ns nm (ps_cslices (ex_cluster oks)) = []"
  by (simp_all add: selected_pods_def cluster_selected_def cluster_pods_def ns_matches_def slices_of_def ex_cluster_def ex_pol_def ex_cpol_def ex_pod_def ex_om_def in_ns_def)

lemma ex_names: "dec_string 0 = ''0''" "dec_string (Suc 0) = ''1''"
  by (simp_all add: dec_string.simps digit_char_def)

lemmas run_slices = push_def store_slices_def accepted_def collect_def name_slice_def add_endpoints_def meta_key_def ex_names
  bindp_def attempt_def ret_def lift_def Let_def


text \<open>C16. Whatever writes fail, reconciling a policy with a positive limit ends with success or with the collected
  errors, never gives a pod two endpoints in the slices of the policy, and never makes a slice
  larger than the limit.\<close>

theorem ep_Reconcile_safe:
  assumes "ep_store_ok w" "live_policy conv p f w" "mx \<ge> 1" "distinct (map ep_key (ns_endpoints p w))"
    and "list_all (\<lambda>s. int (length (es_endpoints s)) \<le> mx) (ns_slices p w)"
    and "ep_Reconcile (ep_ctl conv mx) (request_of (ep_meta p)) w = (res, w')"
  shows "(res = Ok () \<or> (\<exists>es. res = Err (EpAggregate es))) \<and> distinct (map ep_key (ns_endpoints p w')) \<and>
    list_all (\<lambda>s. int (length (es_endpoints s)) \<le> mx) (ns_slices p w')"
proof -
  obtain os ns ds where s: "distributes mx (selected_pods p f w) (ns_slices p w) os ns ds" "length ns = length os"
      "writes (selected_pods p f w) (newEndpointSlice p) os ns ds (res = Ok ()) (mset (ns_slices p w)) (mset (ns_slices p w'))"
      "res = Ok () \<or> (\<exists>es. res = Err (EpAggregate es))"
    using ep_Reconcile_synced(1) [OF assms(1-3,6)] by auto
  have d: "mset os \<subseteq># mset (ns_slices p w)" "list_all2 (fits mx) ns (map (current (selected_pods p f w)) os)"
    "\<forall>c \<in> set ds. int (length c) \<le> mx" using s(1) unfolding distributes_def by blast+
  have "distinct (map ep_key (ns_endpoints p w'))"
    using synced_keys [OF s(1-3) _ ep_Reconcile_synced(2) [OF assms(1-3,6)]] assms(4) by (simp add: endpoints_of_def)
  moreover have "int (length (es_endpoints t)) \<le> mx" if "t \<in> set (ns_slices p w')" for t
    using writes_small [OF s(3) d(1) _ d(2,3)] assms(5) that by (simp add: list_all_iff)
  ultimately show ?thesis using s(4) by (simp add: list_all_iff)
qed

theorem ep_Reconcile_safe_witness:
  "fst (ep_Reconcile (ep_ctl ex_conv 1) (request_of (ep_meta ex_pol)) (ex_cluster [True, False])) \<noteq> Diverge \<and>
   distinct (map ep_key (ns_endpoints ex_pol (snd (ep_Reconcile (ep_ctl ex_conv 1) (request_of (ep_meta ex_pol)) (ex_cluster [True, False])))))"
proof -
  have "distinct (map ep_key (ns_endpoints ex_pol (ex_cluster [True, False])))" by (simp add: endpoints_of_def ex_select)
  from ep_Reconcile_safe [OF ex_cluster_ok ex_live(1) _ this _ surjective_pairing, of 1] show ?thesis by (auto simp: ex_select)
qed

text \<open>When reconciling a cluster policy reports no error, every pod that its selectors match, in all
  namespaces or in the namespaces its namespace selector matches, has exactly one endpoint in the
  slices of the policy, with the addresses and the node of the pod; the pods without an address
  are left out, unless they had an endpoint before.\<close>

theorem cluster_Reconcile_exact:
  assumes "ep_store_ok w" "live_cpolicy conv p f g w" "mx \<ge> 1" "distinct (map ep_key (cl_endpoints p w))"
    and "cluster_Reconcile (cluster_ctl conv mx) (request_of (ecp_meta p)) w = (Ok (), w')"
  shows "image_mset sort_addresses (mset (cl_endpoints p w')) =
    mset (map sorted_endpoint (filter (\<lambda>q. has_address q \<or> pod_key q \<in> ep_key ` set (cl_endpoints p w)) (cluster_selected p f g w)))"
proof -
  obtain us cs where u: "plan mx (newClusterEndpointSlice p) (cluster_pods p f g w) (cl_slices p w) = Ok (us, cs)"
      "push (store_slices ps_cslices ps_cslices_update) us cs w = (Ok (), w')"
    using run_plan [OF assms(3) assms(5) [unfolded cluster_Reconcile_run [OF assms(2)]]] by blast
  have "unique_keys (mset (ps_cslices w))" using assms(1) by (simp add: ep_store_ok_def unique_keys_def distinct_at_most_once)
  from cslices.sync [OF this assms(3) _ in_ns_by_labels _ _ u, of None "has_policy_label (om_name (ecp_meta p))"]
  obtain os ns ds where s: "distributes mx (cluster_pods p f g w) (cl_slices p w) os ns ds" "length ns = length os"
      "writes (cluster_pods p f g w) (newClusterEndpointSlice p) os ns ds True (mset (cl_slices p w)) (mset (cl_slices p w'))"
    by (auto simp: slices_of_def newClusterEndpointSlice_def blank_selected)
  have "distinct (map pod_key (cluster_selected p f g w))"
    using assms(1) by (simp add: ep_store_ok_def cluster_selected_def distinct_map_filter)
  then have "distinct (map pod_key (cluster_pods p f g w))"
    using cluster_pods_mset [OF assms(1), of p f g] by (metis mset_eq_imp_distinct_iff mset_map)
  from synced_endpoints [OF s _ this] assms(4) cluster_pods_mset [OF assms(1), of p f g] show ?thesis by (simp add: endpoints_of_def)
qed

theorem cluster_Reconcile_exact_witness:
  "\<exists>w'. cluster_Reconcile (cluster_ctl ex_conv 1) (request_of (ecp_meta ex_cpol)) (ex_cluster []) = (Ok (), w') \<and>
    image_mset sort_addresses (mset (cl_endpoints ex_cpol w')) =
      {#sorted_endpoint (ex_pod ''a'' ''10.0.0.1''), sorted_endpoint (ex_pod ''b'' ''10.0.0.2'')#}"
proof -
  have "\<exists>w'. cluster_Reconcile (cluster_ctl ex_conv 1) (request_of (ecp_meta ex_cpol)) (ex_cluster []) = (Ok (), w')"
    unfolding cluster_Reconcile_run [OF ex_live(2)] ex_select by (simp add: ex_plan ex_cluster_def run_slices)
  then obtain w' where w': "cluster_Reconcile (cluster_ctl ex_conv 1) (request_of (ecp_meta ex_cpol)) (ex_cluster []) = (Ok (), w')" by blast
  have "distinct (map ep_key (cl_endpoints ex_cpol (ex_cluster [])))" by (simp add: endpoints_of_def ex_select)
  from cluster_Reconcile_exact [OF ex_cluster_ok ex_live(2) _ this w'] w' show ?thesis
    by (simp add: ex_select has_address_def ex_addresses)
qed

lemma create_loop_zero:
  assumes "create_loop m b xs acc = Some ss"
  shows "\<not> (m = 0 \<and> xs \<noteq> [])"
proof (rule create_loop.raw_induct [where P = "\<lambda>m b xs acc ss. \<not> (m = 0 \<and> xs \<noteq> [])", OF _ assms])
  fix loop :: "int \<Rightarrow> egress_endpoint_slice \<Rightarrow> egress_endpoint list \<Rightarrow> egress_endpoint_slice list \<Rightarrow> egress_endpoint_slice list option"
    and m b xs acc ss
  assume IH: "\<And>m b xs acc ss. loop m b xs acc = Some ss \<Longrightarrow> \<not> (m = 0 \<and> xs \<noteq> [])"
    and eq: "(if length xs = 0 then Some acc
      else if m < int (length xs) then loop m b (drop (nat m) xs) (acc @ [add_endpoints (take (nat m) xs) b])
      else loop m b [] (acc @ [add_endpoints xs b])) = Some ss"
  show "\<not> (m = 0 \<and> xs \<noteq> [])" using IH [of 0 b xs "acc @ [add_endpoints [] b]" ss] eq by (auto split: if_splits)
qed

text \<open>A limit of zero endpoints per slice makes the controller loop for ever as soon as a pod needs a new
  endpoint; a negative limit makes it panic.\<close>

theorem create_slices_limit:
  assumes "new \<noteq> []"
  shows "create_slices 0 blank new = Diverge \<and> (mx < 0 \<longrightarrow> create_slices mx blank new = Panic) \<and>
    (mx > 0 \<longrightarrow> (\<exists>ss. create_slices mx blank new = Ok ss))"
proof -
  have "create_loop 0 blank new [] = None" using create_loop_zero [of 0 blank new "[]"] assms by (metis not_Some_eq)
  moreover have "\<exists>ss. create_slices mx blank new = Ok ss" if "mx > 0"
    using create_loop_ends [of mx blank new "[]"] that by (auto simp: create_slices_def)
  ultimately show ?thesis using assms by (auto simp: create_slices_def)
qed

theorem create_slices_limit_witness:
  "create_slices 0 (newEndpointSlice ex_pol) [sorted_endpoint (ex_pod ''a'' ''10.0.0.1'')] = Diverge"
  using create_slices_limit [of "[sorted_endpoint (ex_pod ''a'' ''10.0.0.1'')]" "newEndpointSlice ex_pol" 0] by simp

end
