(* ===== verification/Sha224.thy ===== *)
theory Sha224
  imports Sha1
begin

unbundle bit_operations_syntax

text \<open>
  \<^verbatim>\<open>crypto/sha256\<close> (its 224-bit variant) and \<^verbatim>\<open>encoding/base64\<close> of the Go library, from
  which the hashes of \<^verbatim>\<open>pkg/iptables/rules.go\<close> are made. The padding is that of SHA-1.
\<close>

definition rotr :: "nat \<Rightarrow> 32 word \<Rightarrow> 32 word" where
  "rotr n x = drop_bit n x OR push_bit (32 - n) x"

definition sha2_K :: "32 word list" where
  "sha2_K = [
     1116352408, 1899447441, 3049323471, 3921009573, 961987163, 1508970993, 2453635748, 2870763221,
     3624381080, 310598401, 607225278, 1426881987, 1925078388, 2162078206, 2614888103, 3248222580,
     3835390401, 4022224774, 264347078, 604807628, 770255983, 1249150122, 1555081692, 1996064986,
     2554220882, 2821834349, 2952996808, 3210313671, 3336571891, 3584528711, 113926993, 338241895,
     666307205, 773529912, 1294757372, 1396182291, 1695183700, 1986661051, 2177026350, 2456956037,
     2730485921, 2820302411, 3259730800, 3345764771, 3516065817, 3600352804, 4094571909, 275423344,
     430227734, 506948616, 659060556, 883997877, 958139571, 1322822218, 1537002063, 1747873779,
     1955562222, 2024104815, 2227730452, 2361852424, 2428436474, 2756734187, 3204031479, 3329325298]"

text \<open>The schedule, with the newest word first.\<close>

fun schedule2 :: "nat \<Rightarrow> 32 word list \<Rightarrow> 32 word list" where
  "schedule2 0 ws = ws"
| "schedule2 (Suc n) ws =
     (let x = ws ! 14; y = ws ! 1;
          s0 = rotr 7 x XOR rotr 18 x XOR drop_bit 3 x;
          s1 = rotr 17 y XOR rotr 19 y XOR drop_bit 10 y
      in schedule2 n ((ws ! 15 + s0 + ws ! 6 + s1) # ws))"

type_synonym sha2_state = "32 word \<times> 32 word \<times> 32 word \<times> 32 word \<times> 32 word \<times> 32 word \<times> 32 word \<times> 32 word"

fun rounds2 :: "(32 word \<times> 32 word) list \<Rightarrow> sha2_state \<Rightarrow> sha2_state" where
  "rounds2 [] s = s"
| "rounds2 ((k, w) # kws) (a, b, c, d, e, f, g, h) =
     (let t1 = h + (rotr 6 e XOR rotr 11 e XOR rotr 25 e) + ((e AND f) XOR (NOT e AND g)) + k + w;
          t2 = (rotr 2 a XOR rotr 13 a XOR rotr 22 a) + ((a AND b) XOR (a AND c) XOR (b AND c))
      in rounds2 kws (t1 + t2, a, b, c, d + t1, e, f, g))"

definition sha2_block :: "sha2_state \<Rightarrow> nat list \<Rightarrow> sha2_state" where
  "sha2_block s block =
     (case s of (a, b, c, d, e, f, g, h) \<Rightarrow>
      case rounds2 (zip sha2_K (rev (schedule2 48 (rev (map word_of_bytes (chunks 4 block)))))) s of
        (a', b', c', d', e', f', g', h') \<Rightarrow> (a + a', b + b', c + c', d + d', e + e', f + f', g + g', h + h'))"

definition sha224 :: "nat list \<Rightarrow> nat list" where
  "sha224 msg =
     (case foldl sha2_block (3238371032, 914150663, 812702999, 4144912697,
       4290775857, 1750603025, 1694076839, 3204075428) (chunks 64 (padded msg)) of
        (a, b, c, d, e, f, g, h) \<Rightarrow> concat (map bytes_of_word [a, b, c, d, e, f, g]))"

lemma length_sha224 [simp]: "length (sha224 msg) = 28"
  by (simp add: sha224_def bytes_of_word_def Let_def split: prod.split)

section \<open>Base 64\<close>

text \<open>The alphabet of the URL encoding, and the encoding without padding.\<close>

definition url_alphabet :: string where
  "url_alphabet = ''ABCDEFGHIJKLMNOPQRSTUVWXYZabcdefghijklmnopqrstuvwxyz0123456789-_''"

fun sextets :: "nat list \<Rightarrow> nat list" where
  "sextets [] = []"
| "sextets [a] = [a div 4, a mod 4 * 16]"
| "sextets [a, b] = [a div 4, a mod 4 * 16 + b div 16, b mod 16 * 4]"
| "sextets (a # b # c # bs) = [a div 4, a mod 4 * 16 + b div 16, b mod 16 * 4 + c div 64, c mod 64] @ sextets bs"

definition raw_url_encode :: "nat list \<Rightarrow> string" where
  "raw_url_encode bs = map (\<lambda>k. url_alphabet ! k) (sextets bs)"

lemma sextets_bound: "(\<forall>b \<in> set bs. b < 256) \<Longrightarrow> k \<in> set (sextets bs) \<Longrightarrow> k < 64"
  by (induction bs rule: sextets.induct) auto

lemma length_sextets: "length bs = 28 \<Longrightarrow> length (sextets bs) = 38"
  by (simp add: numeral_eq_Suc length_Suc_conv) (elim exE conjE, simp)

lemma bytes_of_word_bound: "b \<in> set (bytes_of_word x) \<Longrightarrow> b < 256"
  by (auto simp: bytes_of_word_def Let_def)

lemma bytes_sha224: "b \<in> set (sha224 msg) \<Longrightarrow> b < 256"
  by (auto simp: sha224_def dest: bytes_of_word_bound split: prod.splits)

end
