(* ===== verification/IptRules.thy ===== *)
theory IptRules
  imports NetIP Prelude Sha224 "HOL-Library.Char_ord"
begin

unbundle bit_operations_syntax

text \<open>
  \<^verbatim>\<open>pkg/iptables\<close>: the text of a rule. \<^verbatim>\<open>match_builder.go\<close> builds the match criteria,
  \<^verbatim>\<open>actions.go\<close> the targets, \<^verbatim>\<open>rules.go\<close> renders rules and hashes the rules of a
  chain, \<^verbatim>\<open>restore_buffer.go\<close> collects the input of \<^verbatim>\<open>iptables-restore\<close>. Slices
  of criteria are values here: the code starts each of them from an empty one. Comments are ASCII.
\<close>

section \<open>Options\<close>

text \<open>Durations are in nanoseconds.\<close>

record options =
  op_prefixes :: "string list"
  op_backend :: string
  op_insert_mode :: string
  op_refresh :: int
  op_post_write :: int
  op_snat_random :: bool
  op_masq_random :: bool
  op_restore_lock :: bool
  op_lock_timeout :: int
  op_lock_probe :: int

section \<open>Match criteria\<close>

type_synonym criteria = "string list"

definition hex0x :: "32 word \<Rightarrow> string" where
  "hex0x w = ''0x'' @ hex_string (unat w)"

definition dec_int :: "int \<Rightarrow> string" where
  "dec_int i = (if i < 0 then CHR ''-'' # dec_string (nat (- i)) else dec_string (nat i))"

definition Match :: criteria where
  "Match = []"

definition Render :: "criteria \<Rightarrow> string" where
  "Render m = join_with '' '' m"

text \<open>A zero mark, a mark with several bits or a mark outside its mask panics.\<close>

definition MarkClear :: "32 word \<Rightarrow> criteria \<Rightarrow> ('e, criteria) outcome" where
  "MarkClear mark m = (if mark = 0 then Panic else Ok (m @ [''-m mark --mark 0/'' @ hex0x mark]))"

definition MarkNotClear :: "32 word \<Rightarrow> criteria \<Rightarrow> ('e, criteria) outcome" where
  "MarkNotClear mark m = (if mark = 0 then Panic else Ok (m @ [''-m mark ! --mark 0/'' @ hex0x mark]))"

definition MarkMatchesWithMask :: "32 word \<Rightarrow> 32 word \<Rightarrow> criteria \<Rightarrow> ('e, criteria) outcome" where
  "MarkMatchesWithMask mark msk m =
     (if msk = 0 then Panic else if mark AND msk \<noteq> mark then Panic
      else Ok (m @ [''-m mark --mark '' @ hex0x mark @ ''/'' @ hex0x msk]))"

definition NotMarkMatchesWithMask :: "32 word \<Rightarrow> 32 word \<Rightarrow> criteria \<Rightarrow> ('e, criteria) outcome" where
  "NotMarkMatchesWithMask mark msk m =
     (if msk = 0 then Panic else if mark AND msk \<noteq> mark then Panic
      else Ok (m @ [''-m mark ! --mark '' @ hex0x mark @ ''/'' @ hex0x msk]))"

definition OnesCount32 :: "32 word \<Rightarrow> nat" where
  "OnesCount32 x = length (filter (bit x) [0..<32])"

definition MarkSingleBitSet :: "32 word \<Rightarrow> criteria \<Rightarrow> ('e, criteria) outcome" where
  "MarkSingleBitSet mark m = (if OnesCount32 mark \<noteq> 1 then Panic else MarkMatchesWithMask mark mark m)"

definition InInterface :: "string \<Rightarrow> criteria \<Rightarrow> criteria" where
  "InInterface x m = m @ [''--in-interface '' @ x]"

definition SrcMacSource :: "string \<Rightarrow> criteria \<Rightarrow> criteria" where
  "SrcMacSource x m = m @ [''-m mac --mac-source '' @ x]"

definition OutInterface :: "string \<Rightarrow> criteria \<Rightarrow> criteria" where
  "OutInterface x m = m @ [''--out-interface '' @ x]"

definition ConntrackState :: "string \<Rightarrow> criteria \<Rightarrow> criteria" where
  "ConntrackState x m = m @ [''-m conntrack --ctstate '' @ x]"

definition NotConntrackState :: "string \<Rightarrow> criteria \<Rightarrow> criteria" where
  "NotConntrackState x m = m @ [''-m conntrack ! --ctstate '' @ x]"

definition Protocol :: "string \<Rightarrow> criteria \<Rightarrow> criteria" where
  "Protocol x m = m @ [''-p '' @ x]"

definition NotProtocol :: "string \<Rightarrow> criteria \<Rightarrow> criteria" where
  "NotProtocol x m = m @ [''! -p '' @ x]"

definition SourceNet :: "string \<Rightarrow> criteria \<Rightarrow> criteria" where
  "SourceNet x m = m @ [''--source '' @ x]"

definition NotSourceNet :: "string \<Rightarrow> criteria \<Rightarrow> criteria" where
  "NotSourceNet x m = m @ [''! --source '' @ x]"

definition DestNet :: "string \<Rightarrow> criteria \<Rightarrow> criteria" where
  "DestNet x m = m @ [''--destination '' @ x]"

definition NotDestNet :: "string \<Rightarrow> criteria \<Rightarrow> criteria" where
  "NotDestNet x m = m @ [''! --destination '' @ x]"

definition SourceIPSet :: "string \<Rightarrow> criteria \<Rightarrow> criteria" where
  "SourceIPSet x m = m @ [''-m set --match-set '' @ x @ '' src'']"

definition NotSourceIPSet :: "string \<Rightarrow> criteria \<Rightarrow> criteria" where
  "NotSourceIPSet x m = m @ [''-m set ! --match-set '' @ x @ '' src'']"

definition SourceIPPortSet :: "string \<Rightarrow> criteria \<Rightarrow> criteria" where
  "SourceIPPortSet x m = m @ [''-m set --match-set '' @ x @ '' src,src'']"

definition NotSourceIPPortSet :: "string \<Rightarrow> criteria \<Rightarrow> criteria" where
  "NotSourceIPPortSet x m = m @ [''-m set ! --match-set '' @ x @ '' src,src'']"

definition DestIPSet :: "string \<Rightarrow> criteria \<Rightarrow> criteria" where
  "DestIPSet x m = m @ [''-m set --match-set '' @ x @ '' dst'']"

definition NotDestIPSet :: "string \<Rightarrow> criteria \<Rightarrow> criteria" where
  "NotDestIPSet x m = m @ [''-m set ! --match-set '' @ x @ '' dst'']"

definition DestIPPortSet :: "string \<Rightarrow> criteria \<Rightarrow> criteria" where
  "DestIPPortSet x m = m @ [''-m set --match-set '' @ x @ '' dst,dst'']"

definition NotDestIPPortSet :: "string \<Rightarrow> criteria \<Rightarrow> criteria" where
  "NotDestIPPortSet x m = m @ [''-m set ! --match-set '' @ x @ '' dst,dst'']"

definition DestAddrType :: "string \<Rightarrow> criteria \<Rightarrow> criteria" where
  "DestAddrType x m = m @ [''-m addrtype --dst-type '' @ x]"

definition NotDestAddrType :: "string \<Rightarrow> criteria \<Rightarrow> criteria" where
  "NotDestAddrType x m = m @ [''-m addrtype ! --dst-type '' @ x]"

definition CTDirectionOriginal :: "string \<Rightarrow> criteria \<Rightarrow> criteria" where
  "CTDirectionOriginal x m = m @ [''-m conntrack --ctdir '' @ x]"

definition IPVSConnection :: "criteria \<Rightarrow> criteria" where
  "IPVSConnection m = m @ [''-m ipvs --ipvs'']"

definition NotIPVSConnection :: "criteria \<Rightarrow> criteria" where
  "NotIPVSConnection m = m @ [''-m ipvs ! --ipvs'']"

definition RPFCheckPassed :: "bool \<Rightarrow> criteria \<Rightarrow> criteria" where
  "RPFCheckPassed acceptLocal m = m @ [''-m rpfilter --validmark''] @ (if acceptLocal then [''--accept-local''] else [])"

definition RPFCheckFailed :: "bool \<Rightarrow> criteria \<Rightarrow> criteria" where
  "RPFCheckFailed acceptLocal m = m @ [''-m rpfilter --invert --validmark''] @ (if acceptLocal then [''--accept-local''] else [])"

definition NotSrcAddrType :: "string \<Rightarrow> bool \<Rightarrow> criteria \<Rightarrow> criteria" where
  "NotSrcAddrType addrType limitIfaceOut m =
     m @ [''-m addrtype ! --src-type '' @ addrType @ (if limitIfaceOut then '' --limit-iface-out'' else [])]"

definition SrcAddrType :: "string \<Rightarrow> bool \<Rightarrow> criteria \<Rightarrow> criteria" where
  "SrcAddrType addrType limitIfaceOut m =
     m @ [''-m addrtype --src-type '' @ addrType @ (if limitIfaceOut then '' --limit-iface-out'' else [])]"

definition ProtocolNum :: "8 word \<Rightarrow> criteria \<Rightarrow> criteria" where
  "ProtocolNum t m = m @ [''-p '' @ dec_string (unat t)]"

definition NotProtocolNum :: "8 word \<Rightarrow> criteria \<Rightarrow> criteria" where
  "NotProtocolNum t m = m @ [''! -p '' @ dec_string (unat t)]"

definition ICMPType :: "8 word \<Rightarrow> criteria \<Rightarrow> criteria" where
  "ICMPType t m = m @ [''-m icmp --icmp-type '' @ dec_string (unat t)]"

definition NotICMPType :: "8 word \<Rightarrow> criteria \<Rightarrow> criteria" where
  "NotICMPType t m = m @ [''-m icmp ! --icmp-type '' @ dec_string (unat t)]"

definition ICMPV6Type :: "8 word \<Rightarrow> criteria \<Rightarrow> criteria" where
  "ICMPV6Type t m = m @ [''-m icmp6 --icmpv6-type '' @ dec_string (unat t)]"

definition NotICMPV6Type :: "8 word \<Rightarrow> criteria \<Rightarrow> criteria" where
  "NotICMPV6Type t m = m @ [''-m icmp6 ! --icmpv6-type '' @ dec_string (unat t)]"

definition ICMPTypeAndCode :: "8 word \<Rightarrow> 8 word \<Rightarrow> criteria \<Rightarrow> criteria" where
  "ICMPTypeAndCode t c m = m @ [''-m icmp --icmp-type '' @ dec_string (unat t) @ ''/'' @ dec_string (unat c)]"

definition NotICMPTypeAndCode :: "8 word \<Rightarrow> 8 word \<Rightarrow> criteria \<Rightarrow> criteria" where
  "NotICMPTypeAndCode t c m = m @ [''-m icmp ! --icmp-type '' @ dec_string (unat t) @ ''/'' @ dec_string (unat c)]"

definition ICMPV6TypeAndCode :: "8 word \<Rightarrow> 8 word \<Rightarrow> criteria \<Rightarrow> criteria" where
  "ICMPV6TypeAndCode t c m = m @ [''-m icmp6 --icmpv6-type '' @ dec_string (unat t) @ ''/'' @ dec_string (unat c)]"

definition NotICMPV6TypeAndCode :: "8 word \<Rightarrow> 8 word \<Rightarrow> criteria \<Rightarrow> criteria" where
  "NotICMPV6TypeAndCode t c m = m @ [''-m icmp6 ! --icmpv6-type '' @ dec_string (unat t) @ ''/'' @ dec_string (unat c)]"

definition PortsToMultiPort :: "16 word list \<Rightarrow> string" where
  "PortsToMultiPort ports = join_with '','' (map (\<lambda>port. dec_string (unat port)) ports)"

record port_range =
  pr_first :: "32 word"
  pr_last :: "32 word"

definition PortRangesToMultiPort :: "port_range list \<Rightarrow> string" where
  "PortRangesToMultiPort ports = join_with '','' (map (\<lambda>p.
     if pr_first p = pr_last p then dec_int (sint (pr_first p))
     else dec_int (sint (pr_first p)) @ '':'' @ dec_int (sint (pr_last p))) ports)"

definition SourcePorts :: "16 word list \<Rightarrow> criteria \<Rightarrow> criteria" where
  "SourcePorts ports m = m @ [''-m multiport --source-ports '' @ PortsToMultiPort ports]"

definition NotSourcePorts :: "16 word list \<Rightarrow> criteria \<Rightarrow> criteria" where
  "NotSourcePorts ports m = m @ [''-m multiport ! --source-ports '' @ PortsToMultiPort ports]"

definition DestPorts :: "16 word list \<Rightarrow> criteria \<Rightarrow> criteria" where
  "DestPorts ports m = m @ [''-m multiport --destination-ports '' @ PortsToMultiPort ports]"

definition NotDestPorts :: "16 word list \<Rightarrow> criteria \<Rightarrow> criteria" where
  "NotDestPorts ports m = m @ [''-m multiport ! --destination-ports '' @ PortsToMultiPort ports]"

definition SourcePortRanges :: "port_range list \<Rightarrow> criteria \<Rightarrow> criteria" where
  "SourcePortRanges ports m = m @ [''-m multiport --source-ports '' @ PortRangesToMultiPort ports]"

definition NotSourcePortRanges :: "port_range list \<Rightarrow> criteria \<Rightarrow> criteria" where
  "NotSourcePortRanges ports m = m @ [''-m multiport ! --source-ports '' @ PortRangesToMultiPort ports]"

definition DestPortRanges :: "port_range list \<Rightarrow> criteria \<Rightarrow> criteria" where
  "DestPortRanges ports m = m @ [''-m multiport --destination-ports '' @ PortRangesToMultiPort ports]"

definition NotDestPortRanges :: "port_range list \<Rightarrow> criteria \<Rightarrow> criteria" where
  "NotDestPortRanges ports m = m @ [''-m multiport ! --destination-ports '' @ PortRangesToMultiPort ports]"

definition VXLANVNI :: "32 word \<Rightarrow> criteria \<Rightarrow> criteria" where
  "VXLANVNI vni m = m @ [''-m u32 --u32 '' @ [CHR 0x22] @ ''0>>22&0x3C@12>>8=0x'' @ hex_string (unat vni) @ [CHR 0x22]]"

text \<open>The word after each \<^verbatim>\<open>--match-set\<close>.\<close>

fun set_words :: "string list \<Rightarrow> string list" where
  "set_words (x # y # ws) = (if x = ''--match-set'' then [y] else []) @ set_words (y # ws)"
| "set_words ws = []"

definition IPSetNames :: "criteria \<Rightarrow> string list" where
  "IPSetNames m = concat (map (\<lambda>s. set_words (split_on (CHR '' '') s)) m)"

section \<open>Actions\<close>

datatype action =
    GotoAction string
  | JumpAction string
  | ReturnAction
  | DropAction
  | RejectAction
  | LogAction string
  | AcceptAction
  | DNATAction string "16 word"
  | SNATAction string
  | MasqAction string
  | ClearMarkAction "32 word"
  | SetMarkAction "32 word"
  | SetMaskedMarkAction "32 word" "32 word"
  | NoTrackAction
  | SaveConnMarkAction "32 word"
  | RestoreConnMarkAction "32 word"
  | SetConnMarkAction "32 word" "32 word"

definition full_mask :: "32 word \<Rightarrow> 32 word" where
  "full_mask msk = (if msk = 0 then 0xffffffff else msk)"

fun ToFragment :: "options \<Rightarrow> action \<Rightarrow> string" where
  "ToFragment opt (GotoAction target) = ''--goto '' @ target"
| "ToFragment opt (JumpAction target) = ''--jump '' @ target"
| "ToFragment opt ReturnAction = ''--jump RETURN''"
| "ToFragment opt DropAction = ''--jump DROP''"
| "ToFragment opt RejectAction = ''--jump REJECT''"
| "ToFragment opt (LogAction prefix) = ''--jump LOG --log-prefix '' @ [CHR 0x22] @ prefix @ '': '' @ [CHR 0x22] @ '' --log-level 5''"
| "ToFragment opt AcceptAction = ''--jump ACCEPT''"
| "ToFragment opt (DNATAction addr port) =
     ''--jump DNAT --to-destination '' @ addr @ (if port = 0 then [] else '':'' @ dec_string (unat port))"
| "ToFragment opt (SNATAction addr) =
     ''--jump SNAT --to-source '' @ addr @ (if op_snat_random opt then '' --random-fully'' else [])"
| "ToFragment opt (MasqAction toPorts) =
     (if toPorts \<noteq> [] then ''--jump MASQUERADE --to-ports '' @ toPorts else ''--jump MASQUERADE'') @
     (if op_masq_random opt then '' --random-fully'' else [])"
| "ToFragment opt (ClearMarkAction mark) = ''--jump MARK --set-mark 0/'' @ hex0x mark"
| "ToFragment opt (SetMarkAction mark) = ''--jump MARK --set-mark '' @ hex0x mark @ ''/'' @ hex0x mark"
| "ToFragment opt (SetMaskedMarkAction mark msk) = ''--jump MARK --set-mark '' @ hex0x mark @ ''/'' @ hex0x msk"
| "ToFragment opt NoTrackAction = ''--jump NOTRACK''"
| "ToFragment opt (SaveConnMarkAction msk) = ''--jump CONNMARK --save-mark --mask '' @ hex0x (full_mask msk)"
| "ToFragment opt (RestoreConnMarkAction msk) = ''--jump CONNMARK --restore-mark --mask '' @ hex0x (full_mask msk)"
| "ToFragment opt (SetConnMarkAction mark msk) = ''--jump CONNMARK --set-mark '' @ hex0x mark @ ''/'' @ hex0x (full_mask msk)"

text \<open>The actions that are referrers.\<close>

fun ReferencedChain :: "action \<Rightarrow> string option" where
  "ReferencedChain (GotoAction target) = Some target"
| "ReferencedChain (JumpAction target) = Some target"
| "ReferencedChain _ = None"

section \<open>Rules\<close>

record rule =
  ru_match :: criteria
  ru_action :: "action option"
  ru_comment :: "string list"

definition HashLength :: nat where "HashLength = 16"

definition shell_safe :: "char \<Rightarrow> bool" where
  "shell_safe c = (CHR ''0'' \<le> c \<and> c \<le> CHR ''9'' \<or> CHR ''A'' \<le> c \<and> c \<le> CHR ''Z'' \<or> CHR ''a'' \<le> c \<and> c \<le> CHR ''z'' \<or>
     c \<in> set ''_ @%+=:,./-'')"

definition escapeComment :: "string \<Rightarrow> string" where
  "escapeComment s = map (\<lambda>c. if shell_safe c then c else CHR ''_'') s"

definition maxCommentLen :: nat where "maxCommentLen = 256"

definition truncateComment :: "string \<Rightarrow> string" where
  "truncateComment s = (if length s > maxCommentLen then take maxCommentLen s else s)"

definition renderInner :: "string list \<Rightarrow> string \<Rightarrow> options \<Rightarrow> rule \<Rightarrow> string" where
  "renderInner fragments prefixFragment opt r =
     (let fragments = fragments @ (if prefixFragment \<noteq> [] then [prefixFragment] else []);
          fragments = fragments @ map (\<lambda>c. ''-m comment --comment '' @ [CHR 0x22] @ truncateComment (escapeComment c) @ [CHR 0x22]) (ru_comment r);
          fragments = fragments @ (if Render (ru_match r) \<noteq> [] then [Render (ru_match r)] else []);
          fragments = fragments @ (case ru_action r of None \<Rightarrow> []
            | Some a \<Rightarrow> if ToFragment opt a \<noteq> [] then [ToFragment opt a] else [])
      in join_with '' '' fragments)"

definition RenderAppend :: "string \<Rightarrow> string \<Rightarrow> options \<Rightarrow> rule \<Rightarrow> string" where
  "RenderAppend chainName prefixFragment opt r = renderInner [''-A'', chainName] prefixFragment opt r"

definition RenderInsert :: "string \<Rightarrow> string \<Rightarrow> options \<Rightarrow> rule \<Rightarrow> string" where
  "RenderInsert chainName prefixFragment opt r = renderInner [''-I'', chainName] prefixFragment opt r"

definition RenderInsertAtRuleNumber :: "string \<Rightarrow> int \<Rightarrow> string \<Rightarrow> options \<Rightarrow> rule \<Rightarrow> string" where
  "RenderInsertAtRuleNumber chainName ruleNum prefixFragment opt r =
     renderInner [''-I'', chainName, dec_int ruleNum] prefixFragment opt r"

definition RenderReplace :: "string \<Rightarrow> int \<Rightarrow> string \<Rightarrow> options \<Rightarrow> rule \<Rightarrow> string" where
  "RenderReplace chainName ruleNum prefixFragment opt r =
     renderInner [''-R'', chainName, dec_int ruleNum] prefixFragment opt r"

record chain =
  ch_name :: string
  ch_rules :: "rule list"

definition bytes_of_string :: "string \<Rightarrow> nat list" where
  "bytes_of_string s = map of_char s"

text \<open>Each hash covers the hash before it and the text of the rule.\<close>

fun hash_rules :: "string \<Rightarrow> options \<Rightarrow> nat list \<Rightarrow> rule list \<Rightarrow> string list" where
  "hash_rules nm opt hash [] = []"
| "hash_rules nm opt hash (r # rs) =
     (let hash = sha224 (hash @ bytes_of_string (RenderAppend nm ''HASH'' opt r))
      in take HashLength (raw_url_encode hash) # hash_rules nm opt hash rs)"

definition RuleHashes :: "options \<Rightarrow> chain \<Rightarrow> string list" where
  "RuleHashes opt c = hash_rules (ch_name c) opt (sha224 (bytes_of_string (ch_name c))) (ch_rules c)"

definition chain_IPSetNames :: "chain \<Rightarrow> string list" where
  "chain_IPSetNames c = concat (map (\<lambda>r. IPSetNames (ru_match r)) (ch_rules c))"

lemma length_RuleHashes [simp]: "length (RuleHashes opt c) = length (ch_rules c)"
proof -
  have "length (hash_rules nm opt h rs) = length rs" for nm h rs
    by (induction rs arbitrary: h) (simp_all add: Let_def)
  then show ?thesis by (simp add: RuleHashes_def)
qed

text \<open>A hash is a word of sixteen characters of the URL alphabet.\<close>

definition hash_char :: "char \<Rightarrow> bool" where
  "hash_char c = (CHR ''0'' \<le> c \<and> c \<le> CHR ''9'' \<or> CHR ''A'' \<le> c \<and> c \<le> CHR ''Z'' \<or> CHR ''a'' \<le> c \<and> c \<le> CHR ''z'' \<or>
     c = CHR ''_'' \<or> c = CHR ''-'')"

lemma url_alphabet_chars: "list_all hash_char url_alphabet"
  by (simp add: url_alphabet_def hash_char_def)

lemma RuleHashes_words:
  assumes "h \<in> set (RuleHashes opt c)"
  shows "length h = 16 \<and> list_all hash_char h"
proof -
  have e: "length (raw_url_encode (sha224 bs)) = 38 \<and> list_all hash_char (raw_url_encode (sha224 bs))" for bs
  proof -
    have "hash_char (url_alphabet ! k)" if "k \<in> set (sextets (sha224 bs))" for k
    proof -
      have "k < 64" using that sextets_bound [of "sha224 bs" k] bytes_sha224 by blast
      then have "k < length url_alphabet" by (simp add: url_alphabet_def)
      then show ?thesis using url_alphabet_chars by (simp add: list_all_length)
    qed
    then show ?thesis by (simp add: raw_url_encode_def length_sextets list_all_iff)
  qed
  have "h \<in> set (hash_rules nm opt b rs) \<Longrightarrow> length h = 16 \<and> list_all hash_char h" for nm b rs
  proof (induction rs arbitrary: b)
    case (Cons r rs)
    then show ?case using e by (auto simp: Let_def HashLength_def list_all_iff dest: in_set_takeD)
  qed simp
  then show ?thesis using assms by (simp add: RuleHashes_def)
qed

section \<open>The restore buffer\<close>

text \<open>The lines written so far, the table of the open transaction, and whether its opening line is written.\<close>

record restore_buffer =
  rb_lines :: "string list"
  rb_table :: string
  rb_opened :: bool

definition rb_Empty :: "restore_buffer \<Rightarrow> bool" where
  "rb_Empty b = (length (rb_lines b) = 0)"

definition rb_Reset :: restore_buffer where
  "rb_Reset = \<lparr>rb_lines = [], rb_table = [], rb_opened = False\<rparr>"

definition StartTransaction :: "string \<Rightarrow> restore_buffer \<Rightarrow> ('e, restore_buffer) outcome" where
  "StartTransaction tableName b =
     (if rb_table b \<noteq> [] then Panic else Ok (b\<lparr>rb_table := tableName, rb_opened := False\<rparr>))"

definition writeFormattedLine :: "string \<Rightarrow> restore_buffer \<Rightarrow> restore_buffer" where
  "writeFormattedLine line b = b\<lparr>rb_lines := rb_lines b @ [line]\<rparr>"

definition EndTransaction :: "restore_buffer \<Rightarrow> ('e, restore_buffer) outcome" where
  "EndTransaction b =
     (if rb_table b = [] then Panic
      else Ok ((if rb_opened b then writeFormattedLine ''COMMIT'' b else b)\<lparr>rb_table := []\<rparr>))"

definition maybeWriteTransactionOpener :: "restore_buffer \<Rightarrow> ('e, restore_buffer) outcome" where
  "maybeWriteTransactionOpener b =
     (if rb_table b = [] then Panic
      else Ok (if \<not> rb_opened b then (writeFormattedLine (CHR ''*'' # rb_table b) b)\<lparr>rb_opened := True\<rparr> else b))"

definition WriteForwardReference :: "string \<Rightarrow> restore_buffer \<Rightarrow> ('e, restore_buffer) outcome" where
  "WriteForwardReference chainName b =
     oc_bind (maybeWriteTransactionOpener b) (\<lambda>b. Ok (writeFormattedLine ('':'' @ chainName @ '' - -'') b))"

definition WriteLine :: "string \<Rightarrow> restore_buffer \<Rightarrow> ('e, restore_buffer) outcome" where
  "WriteLine line b = oc_bind (maybeWriteTransactionOpener b) (\<lambda>b. Ok (writeFormattedLine line b))"

definition GetBytesAndReset :: "restore_buffer \<Rightarrow> ('e, string \<times> restore_buffer) outcome" where
  "GetBytesAndReset b =
     (if rb_table b \<noteq> [] then Panic else Ok (concat (map (\<lambda>l. l @ [CHR 0x0A]) (rb_lines b)), rb_Reset))"

text \<open>A command of \<^verbatim>\<open>FindBestBinary\<close>: the variant of the backend, or the plain one.\<close>

definition FindBestBinary :: "(string \<Rightarrow> bool) \<Rightarrow> 8 word \<Rightarrow> string \<Rightarrow> string \<Rightarrow> string option" where
  "FindBestBinary lookPath ipVersion backendMode saveOrRestore =
     (let verInfix = (if ipVersion = 6 then ''6'' else [])
      in find lookPath [''ip'' @ verInfix @ ''tables-'' @ backendMode @ ''-'' @ saveOrRestore,
                        ''ip'' @ verInfix @ ''tables-'' @ saveOrRestore])"

end
