(* ===== verification/GoSet.thy ===== *)
theory GoSet
  imports Prelude
begin

text \<open>
  \<^verbatim>\<open>pkg/utils/set\<close>: the generic set, a Go map from members to empty values. It is a list without
  repetition, in the order of first insertion; every iteration takes its order as a parameter. A
  visitor answers with nil, with a request to stop, or with a request to remove the item.
\<close>

type_synonym 'a goset = "'a list"

datatype iter_err = IterNil | StopIteration | RemoveItem

definition set_New :: "'a goset" where
  "set_New = []"

definition set_Add :: "'a \<Rightarrow> 'a goset \<Rightarrow> 'a goset" where
  "set_Add item s = add_key item s"

definition set_AddAll :: "'a list \<Rightarrow> 'a goset \<Rightarrow> 'a goset" where
  "set_AddAll items s = fold set_Add items s"

definition set_From :: "'a list \<Rightarrow> 'a goset" where
  "set_From members = set_AddAll members set_New"

definition set_Len :: "'a goset \<Rightarrow> nat" where
  "set_Len s = length s"

definition set_Discard :: "'a \<Rightarrow> 'a goset \<Rightarrow> 'a goset" where
  "set_Discard item s = removeAll item s"

definition set_Clear :: "'a iter_order \<Rightarrow> 'a goset \<Rightarrow> 'a goset" where
  "set_Clear ord s = fold set_Discard (ord s) s"

definition set_Contains :: "'a goset \<Rightarrow> 'a \<Rightarrow> bool" where
  "set_Contains s item = (item \<in> set s)"

text \<open>The loop over the items, with the state of the visitor.\<close>

fun iter_loop :: "('a \<Rightarrow> 's \<Rightarrow> iter_err \<times> 's) \<Rightarrow> 'a list \<Rightarrow> 'a goset \<Rightarrow> 's \<Rightarrow> 'a goset \<times> 's" where
  "iter_loop visitor [] s st = (s, st)"
| "iter_loop visitor (item # items) s st = (case visitor item st of
     (StopIteration, st') \<Rightarrow> (s, st')
   | (RemoveItem, st') \<Rightarrow> iter_loop visitor items (set_Discard item s) st'
   | (IterNil, st') \<Rightarrow> iter_loop visitor items s st')"

definition set_Iter :: "'a iter_order \<Rightarrow> ('a \<Rightarrow> 's \<Rightarrow> iter_err \<times> 's) \<Rightarrow> 'a goset \<Rightarrow> 's \<Rightarrow> 'a goset \<times> 's" where
  "set_Iter ord visitor s st = iter_loop visitor (ord s) s st"

definition set_AddSet :: "'a iter_order \<Rightarrow> 'a goset \<Rightarrow> 'a goset \<Rightarrow> 'a goset" where
  "set_AddSet ord other s = snd (set_Iter ord (\<lambda>item s. (IterNil, set_Add item s)) other s)"

definition set_Copy :: "'a iter_order \<Rightarrow> 'a goset \<Rightarrow> 'a goset" where
  "set_Copy ord s = fold set_Add (ord s) set_New"

definition set_Slice :: "'a iter_order \<Rightarrow> 'a goset \<Rightarrow> 'a list" where
  "set_Slice ord s = ord s"

definition set_Equals :: "'a iter_order \<Rightarrow> 'a goset \<Rightarrow> 'a goset \<Rightarrow> bool" where
  "set_Equals ord s other = (if set_Len s \<noteq> set_Len other then False else list_all (set_Contains other) (ord s))"

definition set_ContainsAll :: "'a iter_order \<Rightarrow> 'a goset \<Rightarrow> 'a goset \<Rightarrow> bool" where
  "set_ContainsAll ord s other =
     snd (set_Iter ord (\<lambda>item res. if \<not> set_Contains s item then (StopIteration, False) else (IterNil, res)) other True)"

section \<open>The set of the members\<close>

lemma set_Add_simps [simp]: "set (set_Add x s) = insert x (set s)" "distinct (set_Add x s) = distinct s"
  by (auto simp: set_Add_def add_key_def)

lemma set_AddAll_simps [simp]: "set (set_AddAll xs s) = set xs \<union> set s" "distinct (set_AddAll xs s) = distinct s"
  unfolding set_AddAll_def by (induction xs arbitrary: s) auto

lemma set_Discard_simps [simp]: "set (set_Discard x s) = set s - {x}" "distinct s \<Longrightarrow> distinct (set_Discard x s)"
  by (auto simp: set_Discard_def distinct_removeAll)

text \<open>A visitor that never stops and never removes is a fold.\<close>

lemma iter_loop_fold: "(\<And>x st. fst (visitor x st) = IterNil) \<Longrightarrow> iter_loop visitor xs s st = (s, fold (\<lambda>x st. snd (visitor x st)) xs st)"
proof (induction xs arbitrary: st)
  case (Cons x xs)
  obtain b where "visitor x st = (IterNil, b)" using Cons.prems [of x st] by (cases "visitor x st") auto
  then show ?case using Cons by simp
qed simp

context map_iteration
begin

lemma set_Copy_members: "set (set_Copy ord s) = set s"
  using set_AddAll_simps(1) [of "ord s" "[]"] by (simp add: set_Copy_def set_New_def set_AddAll_def set_visits)

lemma set_Clear_empty: "set_Clear ord s = []"
proof -
  have "set (fold set_Discard xs s) = set s - set xs" for xs by (induction xs arbitrary: s) auto
  then have "set (set_Clear ord s) = {}" by (simp add: set_Clear_def set_visits)
  then show ?thesis by simp
qed

lemma set_Equals_iff:
  assumes "distinct s" "distinct t"
  shows "set_Equals ord s t \<longleftrightarrow> set s = set t"
proof
  assume "set_Equals ord s t"
  then have "length s = length t" "set s \<subseteq> set t"
    by (auto simp: set_Equals_def set_Len_def set_Contains_def list_all_iff set_visits split: if_splits)
  then show "set s = set t" using assms by (metis card_subset_eq distinct_card List.finite_set)
next
  assume "set s = set t"
  then show "set_Equals ord s t" using assms
    by (auto simp: set_Equals_def set_Len_def set_Contains_def list_all_iff set_visits) (metis distinct_card)
qed

lemma set_ContainsAll_iff: "set_ContainsAll ord s t \<longleftrightarrow> set t \<subseteq> set s"
proof -
  have "snd (iter_loop (\<lambda>item res. if \<not> set_Contains s item then (StopIteration, False) else (IterNil, res)) xs t True) \<longleftrightarrow> set xs \<subseteq> set s" for xs
    by (induction xs) (auto simp: set_Contains_def)
  then show ?thesis by (simp add: set_ContainsAll_def set_Iter_def set_visits)
qed

end

end
