(* ===== verification/IptTable.thy ===== *)
theory IptTable
  imports IptRules GoSet "HOL-Library.Sublist"
begin

text \<open>
  \<^verbatim>\<open>pkg/iptables/table.go\<close>: one table of iptables. It keeps the desired chains and the rules to
  insert into or append to other chains, counts the references between chains, reads the hashes of the
  rules in the kernel back with \<^verbatim>\<open>iptables-save\<close>, and brings the kernel into line with one input of
  \<^verbatim>\<open>iptables-restore\<close>. The two commands and the clock are parameters. The maps that are only looked up
  are functions, with the zero value for a missing key; the hashes of the kernel are an association list,
  since a missing chain and an empty one differ. The chain prefixes contain no regular-expression
  operators. Metrics and log output are left out.
\<close>

section \<open>The table\<close>

record table =
  tb_name :: string
  tb_version :: "8 word"
  tb_opt :: options
  tb_hash_prefix :: string
  tb_nft :: bool
  tb_inserted :: "string \<Rightarrow> rule list"
  tb_appended :: "string \<Rightarrow> rule list"
  tb_dirty_ins :: "string goset"
  tb_chains :: "string \<rightharpoonup> chain"
  tb_refs :: "string \<Rightarrow> int"
  tb_dirty :: "string goset"
  tb_in_sync :: bool
  tb_hashes :: "(string \<times> string list) list"
  tb_full :: "(string \<times> string list) list"
  tb_last_read :: int
  tb_last_write :: int
  tb_post_write :: int

fun tableToKernelChains :: "string \<Rightarrow> string list" where
  "tableToKernelChains nm =
     (if nm = ''filter'' then [''INPUT'', ''FORWARD'', ''OUTPUT'']
      else if nm = ''nat'' then [''PREROUTING'', ''INPUT'', ''OUTPUT'', ''POSTROUTING'']
      else if nm = ''mangle'' then [''PREROUTING'', ''INPUT'', ''FORWARD'', ''OUTPUT'', ''POSTROUTING'']
      else if nm = ''raw'' then [''PREROUTING'', ''OUTPUT''] else [])"

definition minPostWriteInterval :: int where "minPostWriteInterval = 50000000"

datatype ipt_err = UnknownInsertMode string | NoBinary | DeleteRendering | RestoreFailed | GaveUp ipt_err

definition to_lower :: "string \<Rightarrow> string" where
  "to_lower s = map (\<lambda>c. if CHR ''A'' \<le> c \<and> c \<le> CHR ''Z'' then char_of (of_char c + 32 :: nat) else c) s"

text \<open>The backend must have both commands.\<close>

definition NewTable :: "(string \<Rightarrow> bool) \<Rightarrow> int \<Rightarrow> string \<Rightarrow> 8 word \<Rightarrow> string \<Rightarrow> options \<Rightarrow> (ipt_err, table) outcome" where
  "NewTable lookPath now nm ipVersion hashPrefix opt =
     (let kernel = tableToKernelChains nm in
      oc_bind (if op_insert_mode opt = [] \<or> op_insert_mode opt = ''insert'' then Ok (opt\<lparr>op_insert_mode := ''insert''\<rparr>)
               else if op_insert_mode opt = ''append'' then Ok opt else Err (UnknownInsertMode (op_insert_mode opt))) (\<lambda>opt.
      let opt = (if op_post_write opt \<le> minPostWriteInterval then opt\<lparr>op_post_write := minPostWriteInterval\<rparr> else opt);
          variant = (let v = to_lower (op_backend opt) in if v = [] then ''legacy'' else v)
      in if FindBestBinary lookPath ipVersion variant ''restore'' = None \<or> FindBestBinary lookPath ipVersion variant ''save'' = None
         then Err NoBinary
         else Ok \<lparr>tb_name = nm, tb_version = ipVersion, tb_opt = opt, tb_hash_prefix = hashPrefix, tb_nft = (variant = ''nft''),
           tb_inserted = (\<lambda>_. []), tb_appended = (\<lambda>_. []), tb_dirty_ins = set_AddAll kernel set_New, tb_chains = Map.empty,
           tb_refs = (\<lambda>c. if c \<in> set kernel then 1 else 0), tb_dirty = set_New, tb_in_sync = False, tb_hashes = [], tb_full = [],
           tb_last_read = 0, tb_last_write = now, tb_post_write = op_post_write opt\<rparr>))"

section \<open>References between chains\<close>

definition InvalidateDataplaneCache :: "table \<Rightarrow> table" where
  "InvalidateDataplaneCache t = (if \<not> tb_in_sync t then t else t\<lparr>tb_in_sync := False\<rparr>)"

definition increfChain :: "string \<Rightarrow> table \<Rightarrow> table" where
  "increfChain c t =
     (let t = t\<lparr>tb_refs := (tb_refs t)(c := tb_refs t c + 1)\<rparr> in
      if tb_refs t c = 1 then t\<lparr>tb_dirty := set_Add c (tb_dirty t)\<rparr> else t)"

definition decrefChain :: "string \<Rightarrow> table \<Rightarrow> table" where
  "decrefChain c t =
     (let t = t\<lparr>tb_refs := (tb_refs t)(c := tb_refs t c - 1)\<rparr> in
      if tb_refs t c = 0 then t\<lparr>tb_dirty := set_Add c (tb_dirty t)\<rparr> else t)"

definition referred :: "rule list \<Rightarrow> string list" where
  "referred rules = List.map_filter (\<lambda>r. case ru_action r of None \<Rightarrow> None | Some a \<Rightarrow> ReferencedChain a) rules"

definition increfReferredChains :: "rule list \<Rightarrow> table \<Rightarrow> table" where
  "increfReferredChains rules t = fold increfChain (referred rules) t"

definition decrefReferredChains :: "rule list \<Rightarrow> table \<Rightarrow> table" where
  "decrefReferredChains rules t = fold decrefChain (referred rules) t"

section \<open>Updating the desired state\<close>

definition InsertOrAppendRules :: "string \<Rightarrow> rule list \<Rightarrow> table \<Rightarrow> table" where
  "InsertOrAppendRules chainName newRules t =
     (let oldRules = tb_inserted t chainName;
          t = t\<lparr>tb_inserted := (tb_inserted t)(chainName := newRules), tb_dirty_ins := set_Add chainName (tb_dirty_ins t)\<rparr>
      in InvalidateDataplaneCache (decrefReferredChains oldRules (increfReferredChains newRules t)))"

definition AppendRules :: "string \<Rightarrow> rule list \<Rightarrow> table \<Rightarrow> table" where
  "AppendRules chainName rules t =
     (let oldRules = tb_appended t chainName;
          t = t\<lparr>tb_appended := (tb_appended t)(chainName := rules), tb_dirty_ins := set_Add chainName (tb_dirty_ins t)\<rparr>
      in InvalidateDataplaneCache (decrefReferredChains oldRules (increfReferredChains rules t)))"

definition UpdateChain :: "chain \<Rightarrow> table \<Rightarrow> table" where
  "UpdateChain c t =
     (let t = increfReferredChains (ch_rules c) t;
          t = (case tb_chains t (ch_name c) of None \<Rightarrow> t | Some old \<Rightarrow> decrefReferredChains (ch_rules old) t);
          t = t\<lparr>tb_chains := (tb_chains t)(ch_name c \<mapsto> c)\<rparr>;
          t = (if tb_refs t (ch_name c) > 0 then t\<lparr>tb_dirty := set_Add (ch_name c) (tb_dirty t)\<rparr> else t)
      in InvalidateDataplaneCache t)"

definition UpdateChains :: "chain list \<Rightarrow> table \<Rightarrow> table" where
  "UpdateChains cs t = fold UpdateChain cs t"

definition RemoveChainByName :: "string \<Rightarrow> table \<Rightarrow> table" where
  "RemoveChainByName nm t =
     (let t = (case tb_chains t nm of
          None \<Rightarrow> t
        | Some old \<Rightarrow>
            let t = t\<lparr>tb_chains := (tb_chains t)(nm := None)\<rparr>;
                t = (if tb_refs t nm > 0 then t\<lparr>tb_dirty := set_Add nm (tb_dirty t)\<rparr> else t)
            in decrefReferredChains (ch_rules old) t)
      in InvalidateDataplaneCache t)"

definition RemoveChains :: "chain list \<Rightarrow> table \<Rightarrow> table" where
  "RemoveChains cs t = fold (\<lambda>c. RemoveChainByName (ch_name c)) cs t"

definition desiredStateOfChain :: "table \<Rightarrow> string \<Rightarrow> chain option" where
  "desiredStateOfChain t chainName = (if tb_refs t chainName = 0 then None else tb_chains t chainName)"

section \<open>Hashes\<close>

definition commentFrag :: "table \<Rightarrow> string \<Rightarrow> string" where
  "commentFrag t hash = ''-m comment --comment '' @ [CHR 0x22] @ tb_hash_prefix t @ hash @ [CHR 0x22]"

definition calculateRuleHashes :: "string \<Rightarrow> rule list \<Rightarrow> options \<Rightarrow> string list" where
  "calculateRuleHashes chainName rules opt = RuleHashes opt \<lparr>ch_name = chainName, ch_rules = rules\<rparr>"

definition numEmptyStrings :: "string list \<Rightarrow> nat" where
  "numEmptyStrings xs = length (filter (\<lambda>s. s = []) xs)"

text \<open>The hashes of the whole chain, of our inserted rules and of our appended rules.\<close>

definition expectedHashesForInsertAppendChain :: "table \<Rightarrow> string \<Rightarrow> nat \<Rightarrow> string list \<times> string list \<times> string list" where
  "expectedHashesForInsertAppendChain t chainName numOther =
     (let insertedRules = tb_inserted t chainName; appendedRules = tb_appended t chainName;
          ourInserted = (if length insertedRules > 0 then calculateRuleHashes chainName insertedRules (tb_opt t) else []);
          ourAppended = (if length appendedRules > 0 then calculateRuleHashes (chainName @ ''*appends*'') appendedRules (tb_opt t) else []);
          blanks = replicate numOther [];
          front = (if op_insert_mode (tb_opt t) = ''append'' then blanks @ ourInserted else ourInserted @ blanks)
      in (front @ ourAppended, ourInserted, ourAppended))"

section \<open>Reading the kernel\<close>

definition our_chain :: "table \<Rightarrow> string \<Rightarrow> bool" where
  "our_chain t nm = (op_prefixes (tb_opt t) = [] \<or> list_ex (\<lambda>p. prefix p nm) (op_prefixes (tb_opt t)))"

definition not_space :: "char \<Rightarrow> bool" where
  "not_space c = (c \<notin> {CHR '' '', CHR 0x09, CHR 0x0A, CHR 0x0C, CHR 0x0D})"

definition strip_prefix :: "string \<Rightarrow> string \<Rightarrow> string option" where
  "strip_prefix p s = (if prefix p s then Some (drop (length p) s) else None)"

text \<open>The word after a fixed start of the line, as a regular expression with one group captures it.\<close>

definition word_after :: "string \<Rightarrow> string \<Rightarrow> string option" where
  "word_after p line = (case strip_prefix p line of
     None \<Rightarrow> None
   | Some rest \<Rightarrow> (let w = takeWhile not_space rest in if w = [] then None else Some w))"

text \<open>The hash after the first comment with our prefix, with or without a quote.\<close>

definition hash_here :: "string \<Rightarrow> string \<Rightarrow> string option" where
  "hash_here hashPrefix s = (case strip_prefix ''--comment '' s of
     None \<Rightarrow> None
   | Some rest \<Rightarrow>
       (let capture = (\<lambda>r. case strip_prefix hashPrefix r of None \<Rightarrow> None
              | Some h \<Rightarrow> (let w = takeWhile hash_char h in if w = [] then None else Some w));
            unquoted = capture rest
        in case strip_prefix [CHR 0x22] rest of
             None \<Rightarrow> unquoted
           | Some r \<Rightarrow> (case capture r of Some w \<Rightarrow> Some w | None \<Rightarrow> unquoted)))"

fun find_hash :: "string \<Rightarrow> string \<Rightarrow> string option" where
  "find_hash hashPrefix [] = None"
| "find_hash hashPrefix (c # s) = (case hash_here hashPrefix (c # s) of Some h \<Rightarrow> Some h | None \<Rightarrow> find_hash hashPrefix s)"

fun contains_then_any :: "string \<Rightarrow> string \<Rightarrow> bool" where
  "contains_then_any p [] = False"
| "contains_then_any p (c # s) = (prefix p (c # s) \<and> length (c # s) > length p \<or> contains_then_any p s)"

definition nft_error :: "string \<Rightarrow> bool" where
  "nft_error line = (case strip_prefix ''# Table '' line of
     None \<Rightarrow> False
   | Some rest \<Rightarrow> contains_then_any ('' is incompatible, use '' @ [CHR 0x27] @ ''nft'' @ [CHR 0x27] @ '' tool'') rest)"

definition lookup_list :: "(string \<times> string list) list \<Rightarrow> string \<Rightarrow> string list" where
  "lookup_list m k = (case map_of m k of None \<Rightarrow> [] | Some v \<Rightarrow> v)"

definition append_to :: "string \<Rightarrow> string \<Rightarrow> (string \<times> string list) list \<Rightarrow> (string \<times> string list) list" where
  "append_to k v m = AList.update k (lookup_list m k @ [v]) m"

record read_state =
  rs_hashes :: "(string \<times> string list) list"
  rs_rules :: "(string \<times> string list) list"
  rs_ours :: "string goset"

text \<open>One line; the result is \<open>None\<close> when the line reports rules that iptables cannot handle.\<close>

definition read_line :: "table \<Rightarrow> string \<Rightarrow> read_state \<Rightarrow> read_state option" where
  "read_line t line s =
     (if nft_error line then None
      else case word_after '':'' line of
        Some chainName \<Rightarrow> Some (s\<lparr>rs_hashes := AList.update chainName [] (rs_hashes s)\<rparr>)
      | None \<Rightarrow> (case word_after ''-A '' line of
          None \<Rightarrow> Some s
        | Some chainName \<Rightarrow>
            (let found = find_hash (tb_hash_prefix t) line;
                 hash = (case found of None \<Rightarrow> [] | Some h \<Rightarrow> h);
                 s = (if found \<noteq> None then s\<lparr>rs_ours := set_Add chainName (rs_ours s)\<rparr> else s);
                 s = s\<lparr>rs_hashes := append_to chainName hash (rs_hashes s)\<rparr>
             in Some (if \<not> our_chain t chainName
                then s\<lparr>rs_rules := append_to chainName (if found \<noteq> None then line else ''-'') (rs_rules s)\<rparr> else s))))"

fun read_lines :: "table \<Rightarrow> string list \<Rightarrow> read_state \<Rightarrow> read_state option" where
  "read_lines t [] s = Some s"
| "read_lines t (line # lines) s = (case read_line t line s of None \<Rightarrow> None | Some s' \<Rightarrow> read_lines t lines s')"

text \<open>The full rules of a chain without a rule of ours are dropped.\<close>

definition readHashesAndRulesFrom :: "table \<Rightarrow> string list \<Rightarrow> bool \<Rightarrow> ((string \<times> string list) list \<times> (string \<times> string list) list) option" where
  "readHashesAndRulesFrom t lines readErr =
     (case read_lines t lines \<lparr>rs_hashes = [], rs_rules = [], rs_ours = set_New\<rparr> of
        None \<Rightarrow> None
      | Some s \<Rightarrow> if readErr then None
          else Some (rs_hashes s, filter (\<lambda>(chainName, _). set_Contains (rs_ours s) chainName) (rs_rules s)))"

text \<open>
  A run of \<^verbatim>\<open>iptables-save\<close>: it does not start, or it prints lines, perhaps with a read error; a process
  that has to be killed may not be killable, and it may end with an error.
\<close>

datatype save_run = SaveNotStarted | SaveRan (save_lines: "string list") (save_read_err: bool) (save_kill_err: bool) (save_wait_err: bool)

record 'w ipt_env =
  ie_now :: "'w \<Rightarrow> int \<times> 'w"
  ie_save :: "string \<Rightarrow> 'w \<Rightarrow> save_run \<times> 'w"
  ie_restore :: "string list \<Rightarrow> string \<Rightarrow> 'w \<Rightarrow> bool \<times> 'w"

definition attemptToGetHashesAndRulesFromDataplane :: "table \<Rightarrow> save_run \<Rightarrow>
    (unit, (string \<times> string list) list \<times> (string \<times> string list) list) outcome" where
  "attemptToGetHashesAndRulesFromDataplane t run = (case run of
     SaveNotStarted \<Rightarrow> Err ()
   | SaveRan lines readErr killErr waitErr \<Rightarrow> (case readHashesAndRulesFrom t lines readErr of
       None \<Rightarrow> if killErr then Panic else Err ()
     | Some x \<Rightarrow> if waitErr then Err () else Ok x))"

fun getHashesAndRulesFromDataplane :: "'w ipt_env \<Rightarrow> table \<Rightarrow> nat \<Rightarrow>
    ('w, ipt_err, (string \<times> string list) list \<times> (string \<times> string list) list) prog" where
  "getHashesAndRulesFromDataplane env t retries w = (case ie_save env (tb_name t) w of (run, w') \<Rightarrow>
     (case attemptToGetHashesAndRulesFromDataplane t run of
        Ok x \<Rightarrow> (Ok x, w')
      | Err _ \<Rightarrow> (case retries of 0 \<Rightarrow> (Panic, w') | Suc n \<Rightarrow> getHashesAndRulesFromDataplane env t n w')
      | Panic \<Rightarrow> (Panic, w')
      | Diverge \<Rightarrow> (Diverge, w')))"

text \<open>The chain is not ours: its inserted rules are checked against the number of foreign rules now there.\<close>

definition stale_foreign :: "table \<Rightarrow> string \<Rightarrow> string list option \<Rightarrow> bool" where
  "stale_foreign t chainName dpHashes =
     (if length (tb_inserted t chainName) = 0 then list_ex (\<lambda>h. h \<noteq> []) (case dpHashes of None \<Rightarrow> [] | Some hs \<Rightarrow> hs)
      else dpHashes \<noteq> Some (fst (expectedHashesForInsertAppendChain t chainName
             (numEmptyStrings (case dpHashes of None \<Rightarrow> [] | Some hs \<Rightarrow> hs)))))"

definition check_known :: "(string \<times> string list) list \<Rightarrow> string \<Rightarrow> table \<Rightarrow> table" where
  "check_known dp chainName t =
     (if set_Contains (tb_dirty t) chainName \<or> set_Contains (tb_dirty_ins t) chainName then t
      else if \<not> our_chain t chainName then
        (if stale_foreign t chainName (map_of dp chainName) then t\<lparr>tb_dirty_ins := set_Add chainName (tb_dirty_ins t)\<rparr> else t)
      else if map_of dp chainName \<noteq> map_of (tb_hashes t) chainName then t\<lparr>tb_dirty := set_Add chainName (tb_dirty t)\<rparr>
      else t)"

definition check_unknown :: "(string \<times> string list) list \<Rightarrow> string \<Rightarrow> table \<Rightarrow> table" where
  "check_unknown dp chainName t =
     (if set_Contains (tb_dirty t) chainName \<or> set_Contains (tb_dirty_ins t) chainName then t
      else if map_of (tb_hashes t) chainName \<noteq> None then t
      else if \<not> our_chain t chainName then
        (if list_ex (\<lambda>h. h \<noteq> []) (lookup_list dp chainName) then t\<lparr>tb_dirty_ins := set_Add chainName (tb_dirty_ins t)\<rparr> else t)
      else t\<lparr>tb_dirty := set_Add chainName (tb_dirty t)\<rparr>)"

type_synonym orders = "nat \<Rightarrow> string iter_order"

definition compare_dataplane :: "orders \<Rightarrow> (string \<times> string list) list \<Rightarrow> table \<Rightarrow> table" where
  "compare_dataplane ord dp t = fold (check_unknown dp) (ord 6 (map fst dp)) (fold (check_known dp) (ord 5 (map fst (tb_hashes t))) t)"

definition loadDataplaneState :: "'w ipt_env \<Rightarrow> orders \<Rightarrow> table \<Rightarrow> ('w, ipt_err, table) prog" where
  "loadDataplaneState env ord t w = (case ie_now env w of (now, w) \<Rightarrow>
     bindp (getHashesAndRulesFromDataplane env t 3) (\<lambda>(dpHashes, dpRules).
       ret ((compare_dataplane ord dpHashes (t\<lparr>tb_last_read := now\<rparr>))\<lparr>tb_hashes := dpHashes, tb_full := dpRules, tb_in_sync := True\<rparr>)) w)"

section \<open>Writing the kernel\<close>

definition renderDeleteByIndexLine :: "string \<Rightarrow> int \<Rightarrow> string" where
  "renderDeleteByIndexLine chainName ruleNum = ''-D '' @ chainName @ '' '' @ dec_int ruleNum"

text \<open>The first \<^verbatim>\<open>-A\<close> becomes \<^verbatim>\<open>-D\<close>.\<close>

fun replace_append :: "string \<Rightarrow> string" where
  "replace_append (a # b # s) = (if [a, b] = ''-A'' then ''-D'' @ s else a # replace_append (b # s))"
| "replace_append s = s"

definition renderDeleteByValueLine :: "table \<Rightarrow> string \<Rightarrow> nat \<Rightarrow> string option" where
  "renderDeleteByValueLine t chainName i = (case map_of (tb_full t) chainName of
     None \<Rightarrow> None
   | Some rules \<Rightarrow> if i \<ge> length rules then None else Some (replace_append (rules ! i)))"

text \<open>Whether a dirty chain is emptied, or created, by a forward reference; an up-to-date one is dropped.\<close>

definition forward_visit :: "table \<Rightarrow> string \<Rightarrow> string list \<Rightarrow> iter_err \<times> string list" where
  "forward_visit t chainName out =
     (let desired = desiredStateOfChain t chainName in
      if tb_nft t then
        (let current = (case desired of None \<Rightarrow> None | Some c \<Rightarrow> Some (RuleHashes (tb_opt t) c));
             previous = map_of (tb_hashes t) chainName
         in if length (lookup_list (tb_hashes t) chainName) > 0 \<and> current = previous then (RemoveItem, out)
            else (IterNil, out @ [chainName]))
      else if desired = None then (IterNil, out @ [chainName])
      else if map_of (tb_hashes t) chainName = None then (IterNil, out @ [chainName])
      else (IterNil, out))"

text \<open>The lines that turn the previous rules of a chain into the current ones.\<close>

definition delta_line :: "table \<Rightarrow> string \<Rightarrow> chain \<Rightarrow> string list \<Rightarrow> string list \<Rightarrow> nat \<Rightarrow> string option" where
  "delta_line t chainName c previous current i =
     (if i < length previous \<and> i < length current then
        (if previous ! i = current ! i then None
         else Some (RenderReplace chainName (int i + 1) (commentFrag t (current ! i)) (tb_opt t) (ch_rules c ! i)))
      else if i < length previous then Some (renderDeleteByIndexLine chainName (int (length current) + 1))
      else Some (RenderAppend chainName (commentFrag t (current ! i)) (tb_opt t) (ch_rules c ! i)))"

definition delta_lines :: "table \<Rightarrow> string \<Rightarrow> chain \<Rightarrow> string list \<Rightarrow> string list" where
  "delta_lines t chainName c previous =
     (let current = RuleHashes (tb_opt t) c in
      List.map_filter (delta_line t chainName c previous current) [0..<max (length previous) (length current)])"

definition update_visit :: "table \<Rightarrow> string \<Rightarrow> string list \<times> (string \<times> string list option) list \<Rightarrow>
    iter_err \<times> string list \<times> (string \<times> string list option) list" where
  "update_visit t chainName st = (case st of (out, newHashes) \<Rightarrow> (case desiredStateOfChain t chainName of
     None \<Rightarrow> (IterNil, out, newHashes)
   | Some c \<Rightarrow> (IterNil,
       out @ delta_lines t chainName c (if tb_nft t then [] else lookup_list (tb_hashes t) chainName),
       AList.update chainName (Some (RuleHashes (tb_opt t) c)) newHashes)))"

definition delete_ours :: "table \<Rightarrow> string \<Rightarrow> string list \<Rightarrow> string list option" where
  "delete_ours t chainName previous =
     (let ls = map (renderDeleteByValueLine t chainName) (filter (\<lambda>i. previous ! i \<noteq> []) [0..<length previous])
      in if None \<in> set ls then None else Some (map the ls))"

record insert_state =
  is_lines :: "string list"
  is_hashes :: "(string \<times> string list option) list"
  is_full :: "(string \<times> string list) list"
  is_failed :: bool

text \<open>A chain we insert into: all our rules are deleted and written again unless everything is in place.\<close>

definition insert_visit :: "table \<Rightarrow> string \<Rightarrow> insert_state \<Rightarrow> iter_err \<times> insert_state" where
  "insert_visit t chainName st =
     (let opt = tb_opt t; previous = map_of (tb_hashes t) chainName; prev = lookup_list (tb_hashes t) chainName in
      case expectedHashesForInsertAppendChain t chainName (numEmptyStrings prev) of (newChainHashes, insHashes, appHashes) \<Rightarrow>
      if Some newChainHashes = previous then (IterNil, st)
      else case delete_ours t chainName prev of
        None \<Rightarrow> (StopIteration, st\<lparr>is_failed := True\<rparr>)
      | Some deletes \<Rightarrow>
          let newRules = filter (\<lambda>r. r \<noteq> []) (lookup_list (is_full st) chainName);
              rules = tb_inserted t chainName;
              ins = map (\<lambda>(r, h). if op_insert_mode opt = ''insert'' then RenderInsert chainName (commentFrag t h) opt r
                     else RenderAppend chainName (commentFrag t h) opt r) (zip rules insHashes);
              newRules = (if op_insert_mode opt = ''insert'' then ins @ newRules else newRules @ ins);
              apps = map (\<lambda>(r, h). RenderAppend chainName (commentFrag t h) opt r) (zip (tb_appended t chainName) appHashes)
          in (IterNil, st\<lparr>is_lines := is_lines st @ deletes @ (if op_insert_mode opt = ''insert'' then rev ins else ins) @ apps,
               is_hashes := AList.update chainName (Some newChainHashes) (is_hashes st),
               is_full := AList.update chainName (newRules @ apps) (is_full st)\<rparr>))"

definition gone_visit :: "table \<Rightarrow> string \<Rightarrow> string list \<Rightarrow> iter_err \<times> string list" where
  "gone_visit t chainName out = (IterNil, if desiredStateOfChain t chainName = None then out @ [chainName] else out)"

fun write_all :: "(string \<Rightarrow> restore_buffer \<Rightarrow> ('e, restore_buffer) outcome) \<Rightarrow> string list \<Rightarrow> restore_buffer \<Rightarrow> ('e, restore_buffer) outcome" where
  "write_all write [] b = Ok b"
| "write_all write (x # xs) b = oc_bind (write x b) (write_all write xs)"

definition store_hashes :: "(string \<times> string list option) list \<Rightarrow> (string \<times> string list) list \<Rightarrow> (string \<times> string list) list" where
  "store_hashes newHashes m = fold (\<lambda>(k, v) m. case v of None \<Rightarrow> AList.delete k m | Some hs \<Rightarrow> AList.update k hs m) newHashes m"

text \<open>\<^verbatim>\<open>%.0f\<close> of a duration in seconds rounds half to even.\<close>

definition round_seconds :: "int \<Rightarrow> int" where
  "round_seconds ns = (let q = ns div 1000000000; r = ns mod 1000000000 in
     if r > 500000000 \<or> r = 500000000 \<and> odd q then q + 1 else q)"

definition restore_args :: "options \<Rightarrow> string list" where
  "restore_args opt = [''--noflush'', ''--verbose''] @
     (if op_restore_lock opt
      then [''--wait'', dec_int (if op_lock_timeout opt \<le> 0 then 10 else round_seconds (op_lock_timeout opt)),
            ''--wait-interval'', dec_int (if op_lock_probe opt < 0 then - ((- op_lock_probe opt) div 1000) else op_lock_probe opt div 1000)]
      else [])"

text \<open>
  What an update writes: the lines, the dirty chains that remain, the new hashes and the new full rules; \<open>None\<close> when a
  deletion cannot be rendered.
\<close>

definition plan_updates :: "orders \<Rightarrow> table \<Rightarrow>
    (ipt_err, restore_buffer \<times> (string \<times> string list option) list \<times> (string \<times> string list) list) outcome" where
  "plan_updates ord t =
     oc_bind (StartTransaction (tb_name t) rb_Reset) (\<lambda>b.
     case set_Iter (ord 0) (forward_visit t) (tb_dirty t) [] of (dirty, forwards) \<Rightarrow>
     oc_bind (write_all WriteForwardReference forwards b) (\<lambda>b.
     case snd (set_Iter (ord 1) (update_visit t) dirty ([], [])) of (updates, newHashes) \<Rightarrow>
     oc_bind (write_all WriteLine updates b) (\<lambda>b.
     let ins = snd (set_Iter (ord 2) (insert_visit t) (tb_dirty_ins t)
           \<lparr>is_lines = [], is_hashes = newHashes, is_full = tb_full t, is_failed = False\<rparr>) in
     if is_failed ins then Err DeleteRendering
     else oc_bind (write_all WriteLine (is_lines ins) b) (\<lambda>b.
     oc_bind (if tb_nft t
       then oc_bind (EndTransaction b) (\<lambda>b. oc_bind (StartTransaction (tb_name t) b) (\<lambda>b.
            write_all WriteForwardReference (snd (set_Iter (ord 3) (gone_visit t) dirty [])) b))
       else Ok b) (\<lambda>b.
     let gone = snd (set_Iter (ord 4) (gone_visit t) dirty []) in
     oc_bind (write_all WriteLine (map (\<lambda>c. ''--delete-chain '' @ c) gone) b) (\<lambda>b.
     oc_bind (EndTransaction b) (\<lambda>b.
     Ok (b, fold (\<lambda>c. AList.update c None) gone (is_hashes ins), is_full ins))))))))"

text \<open>A failed restore invalidates the cache; the dirty sets are kept for the retry.\<close>

definition applyUpdates :: "'w ipt_env \<Rightarrow> orders \<Rightarrow> table \<Rightarrow> ('w, ipt_err \<times> table, table) prog" where
  "applyUpdates env ord t w =
     (let dirty = fst (set_Iter (ord 0) (forward_visit t) (tb_dirty t) []) in
      case plan_updates ord t of
        Err e \<Rightarrow> (Err (e, t\<lparr>tb_dirty := dirty\<rparr>), w)
      | Panic \<Rightarrow> (Panic, w)
      | Diverge \<Rightarrow> (Diverge, w)
      | Ok (b, newHashes, newFull) \<Rightarrow>
          (let finish = (\<lambda>t. t\<lparr>tb_dirty := set_New, tb_dirty_ins := set_New, tb_hashes := store_hashes newHashes (tb_hashes t), tb_full := newFull\<rparr>) in
           if rb_Empty b then (Ok (finish t), w)
           else (case GetBytesAndReset b of
               Ok (input, _) \<Rightarrow> (case ie_restore env (restore_args (tb_opt t)) input w of (ok, w) \<Rightarrow>
                 if \<not> ok then (Err (RestoreFailed, t\<lparr>tb_dirty := dirty, tb_in_sync := False\<rparr>), w)
                 else (case ie_now env w of (now, w) \<Rightarrow>
                   (Ok (finish (t\<lparr>tb_last_write := now, tb_post_write := op_post_write (tb_opt t)\<rparr>)), w)))
             | Err e \<Rightarrow> (Err (e, t), w)
             | Panic \<Rightarrow> (Panic, w)
             | Diverge \<Rightarrow> (Diverge, w))))"

section \<open>Applying\<close>

definition one_hour :: int where "one_hour = 3600000000000"

text \<open>
  The loop that doubles the interval to the next refresh, which is kept at its width.
\<close>

partial_function (option) widen :: "int \<Rightarrow> int \<Rightarrow> int \<Rightarrow> bool \<Rightarrow> (int \<times> bool) option" where
  "widen now lastWrite interval invalid =
     (if interval \<noteq> 0 \<and> interval < one_hour \<and> \<not> now < lastWrite + interval
      then widen now lastWrite (signed_take_bit 63 (interval * 2)) True else Some (interval, invalid))"

text \<open>The orders of a retry are those of the next run.\<close>

fun apply_retry :: "'w ipt_env \<Rightarrow> (nat \<Rightarrow> orders) \<Rightarrow> nat \<Rightarrow> table \<Rightarrow> ('w, ipt_err \<times> table, table) prog" where
  "apply_retry env ords retries t w =
     bindp (if \<not> tb_in_sync t then or_fail (\<lambda>e. (e, t)) (loadDataplaneState env (ords retries) t) else ret t) (\<lambda>t w.
     case applyUpdates env (ords retries) t w of
       (Err (e, t), w) \<Rightarrow> (case retries of
          0 \<Rightarrow> (case ie_save env (tb_name t) w of (_, w) \<Rightarrow> (Err (GaveUp e, t), w))
        | Suc n \<Rightarrow> apply_retry env ords n t w)
     | (r, w) \<Rightarrow> (r, w)) w"

definition reschedule :: "int \<Rightarrow> table \<Rightarrow> int" where
  "reschedule now t =
     (let after = (if op_refresh (tb_opt t) > 0 then op_refresh (tb_opt t) - (now - tb_last_read t) else 0) in
      if tb_post_write t < one_hour then
        (let reached = tb_last_write t + tb_post_write t - now in
         if reached \<le> 0 then 1000000
         else if tb_post_write t \<le> 0 \<or> reached < after then reached else after)
      else after)"

definition Apply :: "'w ipt_env \<Rightarrow> (nat \<Rightarrow> orders) \<Rightarrow> table \<Rightarrow> ('w, ipt_err \<times> table, int \<times> table) prog" where
  "Apply env ords t w = (case ie_now env w of (now, w) \<Rightarrow>
     (let stale = op_refresh (tb_opt t) > 0 \<and> now - tb_last_read t > op_refresh (tb_opt t);
          t = (if stale then InvalidateDataplaneCache t else t)
      in case widen now (tb_last_write t) (tb_post_write t) False of
        None \<Rightarrow> (Diverge, w)
      | Some (interval, invalid) \<Rightarrow>
          (let t = t\<lparr>tb_post_write := interval\<rparr>; t = (if invalid \<and> \<not> stale then InvalidateDataplaneCache t else t)
           in bindp (apply_retry env ords 10 t) (\<lambda>t. ret (reschedule now t, t)) w)))"

end
