(* ===== verification/IptRefs.thy ===== *)
theory IptRefs
  imports IptTable
begin

text \<open>
  The bookkeeping of a table: the reference counts are the number of references from the chains and from the
  rules to insert or append, and every chain whose desired state differs from the hashes believed to be in the
  kernel is marked dirty.
\<close>

section \<open>Reference counts\<close>

definition table_rules :: "table \<Rightarrow> string \<Rightarrow> rule list" where
  "table_rules t k = (case tb_chains t k of None \<Rightarrow> [] | Some c \<Rightarrow> ch_rules c) @ tb_inserted t k @ tb_appended t k"

definition refs_from :: "table \<Rightarrow> string \<Rightarrow> string \<Rightarrow> int" where
  "refs_from t c k = int (count_list (referred (table_rules t k)) c)"

definition holders :: "table \<Rightarrow> string set" where
  "holders t = {k. table_rules t k \<noteq> []}"

definition counted :: "table \<Rightarrow> bool" where
  "counted t \<longleftrightarrow> finite (holders t) \<and>
     (\<forall>c. tb_refs t c = (if c \<in> set (tableToKernelChains (tb_name t)) then 1 else 0) + (\<Sum>k\<in>holders t. refs_from t c k))"

lemma referred_append [simp]: "referred (xs @ ys) = referred xs @ referred ys"
  by (induction xs) (auto simp: referred_def map_filter_simps split: option.splits)

lemma referred_Nil [simp]: "referred [] = []"
  by (simp add: referred_def map_filter_simps)

lemma refs_from_nonneg: "refs_from t c k \<ge> 0"
  by (simp add: refs_from_def)

lemma sum_refs_superset:
  assumes "finite A" "holders t \<subseteq> A"
  shows "(\<Sum>k\<in>holders t. refs_from t c k) = (\<Sum>k\<in>A. refs_from t c k)"
  using assms by (intro sum.mono_neutral_left) (auto simp: holders_def refs_from_def)

text \<open>Changing the rules of one holder changes the sum by the difference.\<close>

lemma sum_refs_change:
  assumes "finite (holders t)" "\<And>k. k \<noteq> key \<Longrightarrow> table_rules t' k = table_rules t k"
  shows "(\<Sum>k\<in>holders t'. refs_from t' c k) = (\<Sum>k\<in>holders t. refs_from t c k) + refs_from t' c key - refs_from t c key"
    and "finite (holders t')"
proof -
  let ?A = "insert key (holders t)"
  have sub: "holders t' \<subseteq> ?A" using assms(2) by (auto simp: holders_def)
  then show "finite (holders t')" using assms(1) finite_subset by auto
  have other: "(\<Sum>k\<in>?A - {key}. refs_from t' c k) = (\<Sum>k\<in>?A - {key}. refs_from t c k)"
    using assms(2) by (intro sum.cong) (auto simp: refs_from_def)
  have "(\<Sum>k\<in>?A. refs_from t' c k) = refs_from t' c key + (\<Sum>k\<in>?A - {key}. refs_from t' c k)"
    "(\<Sum>k\<in>?A. refs_from t c k) = refs_from t c key + (\<Sum>k\<in>?A - {key}. refs_from t c k)"
    using assms(1) by (simp_all add: sum.insert_remove)
  then show "(\<Sum>k\<in>holders t'. refs_from t' c k) = (\<Sum>k\<in>holders t. refs_from t c k) + refs_from t' c key - refs_from t c key"
    using sum_refs_superset [of ?A t' c] sum_refs_superset [of ?A t c, OF _ subset_insertI] sub assms(1) other by auto
qed

lemma counted_change:
  assumes "counted t" "tb_name t' = tb_name t" "\<And>k. k \<noteq> key \<Longrightarrow> table_rules t' k = table_rules t k"
    and "\<And>c. tb_refs t' c = tb_refs t c + refs_from t' c key - refs_from t c key"
  shows "counted t'"
  using assms sum_refs_change [OF _ assms(3)] by (simp add: counted_def)

text \<open>What the reference operations change.\<close>

lemma incref_fields [simp]:
  "tb_name (increfChain c t) = tb_name t" "tb_opt (increfChain c t) = tb_opt t" "tb_hash_prefix (increfChain c t) = tb_hash_prefix t"
  "tb_inserted (increfChain c t) = tb_inserted t" "tb_appended (increfChain c t) = tb_appended t" "tb_chains (increfChain c t) = tb_chains t"
  "tb_dirty_ins (increfChain c t) = tb_dirty_ins t" "tb_in_sync (increfChain c t) = tb_in_sync t" "tb_hashes (increfChain c t) = tb_hashes t"
  "tb_full (increfChain c t) = tb_full t" "tb_nft (increfChain c t) = tb_nft t" "tb_post_write (increfChain c t) = tb_post_write t"
  by (simp_all add: increfChain_def Let_def)

lemma decref_fields [simp]:
  "tb_name (decrefChain c t) = tb_name t" "tb_opt (decrefChain c t) = tb_opt t" "tb_hash_prefix (decrefChain c t) = tb_hash_prefix t"
  "tb_inserted (decrefChain c t) = tb_inserted t" "tb_appended (decrefChain c t) = tb_appended t" "tb_chains (decrefChain c t) = tb_chains t"
  "tb_dirty_ins (decrefChain c t) = tb_dirty_ins t" "tb_in_sync (decrefChain c t) = tb_in_sync t" "tb_hashes (decrefChain c t) = tb_hashes t"
  "tb_full (decrefChain c t) = tb_full t" "tb_nft (decrefChain c t) = tb_nft t" "tb_post_write (decrefChain c t) = tb_post_write t"
  by (simp_all add: decrefChain_def Let_def)

lemma fold_keeps: "(\<And>x t. f (g x t) = f t) \<Longrightarrow> f (fold g xs t) = f t"
  by (induction xs arbitrary: t) auto

lemma increfs_fields [simp]:
  "tb_name (increfReferredChains rs t) = tb_name t" "tb_opt (increfReferredChains rs t) = tb_opt t" "tb_hash_prefix (increfReferredChains rs t) = tb_hash_prefix t"
  "tb_inserted (increfReferredChains rs t) = tb_inserted t" "tb_appended (increfReferredChains rs t) = tb_appended t" "tb_chains (increfReferredChains rs t) = tb_chains t"
  "tb_dirty_ins (increfReferredChains rs t) = tb_dirty_ins t" "tb_in_sync (increfReferredChains rs t) = tb_in_sync t" "tb_hashes (increfReferredChains rs t) = tb_hashes t"
  "tb_full (increfReferredChains rs t) = tb_full t" "tb_nft (increfReferredChains rs t) = tb_nft t" "tb_post_write (increfReferredChains rs t) = tb_post_write t"
  by (simp_all add: increfReferredChains_def fold_keeps)

lemma decrefs_fields [simp]:
  "tb_name (decrefReferredChains rs t) = tb_name t" "tb_opt (decrefReferredChains rs t) = tb_opt t" "tb_hash_prefix (decrefReferredChains rs t) = tb_hash_prefix t"
  "tb_inserted (decrefReferredChains rs t) = tb_inserted t" "tb_appended (decrefReferredChains rs t) = tb_appended t" "tb_chains (decrefReferredChains rs t) = tb_chains t"
  "tb_dirty_ins (decrefReferredChains rs t) = tb_dirty_ins t" "tb_in_sync (decrefReferredChains rs t) = tb_in_sync t" "tb_hashes (decrefReferredChains rs t) = tb_hashes t"
  "tb_full (decrefReferredChains rs t) = tb_full t" "tb_nft (decrefReferredChains rs t) = tb_nft t" "tb_post_write (decrefReferredChains rs t) = tb_post_write t"
  by (simp_all add: decrefReferredChains_def fold_keeps)

lemma tb_refs_increfs: "tb_refs (increfReferredChains rs t) c = tb_refs t c + int (count_list (referred rs) c)"
proof -
  have "tb_refs (fold increfChain cs t) c = tb_refs t c + int (count_list cs c)" for cs
    by (induction cs arbitrary: t) (auto simp: increfChain_def Let_def)
  then show ?thesis by (simp add: increfReferredChains_def)
qed

lemma tb_refs_fold_decref: "tb_refs (fold decrefChain cs t) c = tb_refs t c - int (count_list cs c)"
  by (induction cs arbitrary: t) (auto simp: decrefChain_def Let_def)

lemma tb_refs_decrefs: "tb_refs (decrefReferredChains rs t) c = tb_refs t c - int (count_list (referred rs) c)"
  by (simp add: decrefReferredChains_def tb_refs_fold_decref)

lemma Invalidate_fields [simp]:
  "tb_name (InvalidateDataplaneCache t) = tb_name t" "tb_opt (InvalidateDataplaneCache t) = tb_opt t" "tb_hash_prefix (InvalidateDataplaneCache t) = tb_hash_prefix t"
  "tb_inserted (InvalidateDataplaneCache t) = tb_inserted t" "tb_appended (InvalidateDataplaneCache t) = tb_appended t"
  "tb_chains (InvalidateDataplaneCache t) = tb_chains t" "tb_refs (InvalidateDataplaneCache t) = tb_refs t"
  "tb_dirty (InvalidateDataplaneCache t) = tb_dirty t" "tb_dirty_ins (InvalidateDataplaneCache t) = tb_dirty_ins t"
  "tb_hashes (InvalidateDataplaneCache t) = tb_hashes t" "tb_full (InvalidateDataplaneCache t) = tb_full t"
  "tb_nft (InvalidateDataplaneCache t) = tb_nft t" "\<not> tb_in_sync (InvalidateDataplaneCache t)" "tb_post_write (InvalidateDataplaneCache t) = tb_post_write t"
  by (simp_all add: InvalidateDataplaneCache_def)

lemmas table_op_defs = InsertOrAppendRules_def AppendRules_def UpdateChain_def RemoveChainByName_def Let_def

lemma counted_NewTable:
  assumes "NewTable lookPath now nm ipVersion hashPrefix opt = Ok t"
  shows "counted t"
  using assms by (auto simp: NewTable_def Let_def counted_def holders_def table_rules_def simp del: tableToKernelChains.simps split: if_splits)

lemma counted_Insert:
  assumes "counted t"
  shows "counted (InsertOrAppendRules k rs t)"
  by (rule counted_change [OF assms, where key = k])
    (simp_all add: table_op_defs table_rules_def refs_from_def tb_refs_increfs tb_refs_decrefs)

lemma counted_Append:
  assumes "counted t"
  shows "counted (AppendRules k rs t)"
  by (rule counted_change [OF assms, where key = k])
    (simp_all add: table_op_defs table_rules_def refs_from_def tb_refs_increfs tb_refs_decrefs)

lemma counted_UpdateChain:
  assumes "counted t"
  shows "counted (UpdateChain c t)"
  by (rule counted_change [OF assms, where key = "ch_name c"])
    (simp_all add: table_op_defs table_rules_def refs_from_def tb_refs_increfs tb_refs_decrefs split: option.split)

lemma counted_RemoveChain:
  assumes "counted t"
  shows "counted (RemoveChainByName k t)"
  by (rule counted_change [OF assms, where key = k])
    (simp_all add: table_op_defs table_rules_def refs_from_def tb_refs_increfs tb_refs_decrefs split: option.split)

lemma counted_nonneg: "counted t \<Longrightarrow> tb_refs t c \<ge> 0"
  by (auto simp: counted_def intro!: sum_nonneg add_nonneg_nonneg refs_from_nonneg)

text \<open>A chain without references is mentioned by no rule of the table.\<close>

lemma counted_unreferenced:
  assumes "counted t" "tb_refs t c = 0"
  shows "c \<notin> set (referred (table_rules t k))"
proof (cases "k \<in> holders t")
  case True
  have "finite (holders t)" using assms(1) by (simp add: counted_def)
  moreover have "(\<Sum>k\<in>holders t. refs_from t c k) = 0"
    using assms sum_nonneg [of "holders t" "refs_from t c"] refs_from_nonneg [of t c] by (auto simp: counted_def split: if_splits)
  ultimately have "refs_from t c k = 0"
    using True by (simp add: sum_nonneg_eq_0_iff refs_from_nonneg)
  then show ?thesis by (simp add: refs_from_def count_list_0_iff)
qed (simp add: holders_def)

section \<open>Dirty chains\<close>

text \<open>A chain of ours that is not dirty has the desired hashes in the cache.\<close>

definition synced :: "table \<Rightarrow> bool" where
  "synced t \<longleftrightarrow> (\<forall>c. our_chain t c \<longrightarrow> c \<notin> set (tb_dirty t) \<longrightarrow>
     map_of (tb_hashes t) c = map_option (RuleHashes (tb_opt t)) (desiredStateOfChain t c))"

lemma synced_change:
  assumes "synced t" "tb_opt t' = tb_opt t" "tb_hashes t' = tb_hashes t" "set (tb_dirty t) \<subseteq> set (tb_dirty t')"
    and "\<And>c. c \<notin> set (tb_dirty t') \<Longrightarrow> desiredStateOfChain t' c = desiredStateOfChain t c"
  shows "synced t'"
  using assms by (auto simp: synced_def our_chain_def)

lemma increfs_dirty:
  shows "set (tb_dirty t) \<subseteq> set (tb_dirty (increfReferredChains rs t))"
    and "tb_refs t c \<ge> 0 \<Longrightarrow> c \<notin> set (tb_dirty (increfReferredChains rs t)) \<Longrightarrow>
      tb_refs (increfReferredChains rs t) c = 0 \<longleftrightarrow> tb_refs t c = 0"
proof -
  have sub: "set (tb_dirty t) \<subseteq> set (tb_dirty (fold increfChain cs t))" for cs t
    by (induction cs arbitrary: t) (force simp: increfChain_def Let_def split: if_splits)+
  then show "set (tb_dirty t) \<subseteq> set (tb_dirty (increfReferredChains rs t))" by (simp add: increfReferredChains_def)
  have "tb_refs t c \<ge> 0 \<Longrightarrow> c \<notin> set (tb_dirty (fold increfChain cs t)) \<Longrightarrow> tb_refs (fold increfChain cs t) c = 0 \<longleftrightarrow> tb_refs t c = 0" for cs
  proof (induction cs arbitrary: t)
    case (Cons x cs)
    have "c \<notin> set (tb_dirty (increfChain x t))" using Cons.prems(2) sub [of "increfChain x t" cs] by auto
    then have "(tb_refs (increfChain x t) c = 0 \<longleftrightarrow> tb_refs t c = 0) \<and> tb_refs (increfChain x t) c \<ge> 0"
      using Cons.prems(1) by (auto simp: increfChain_def Let_def split: if_splits)
    then show ?case using Cons.IH [of "increfChain x t"] Cons.prems(2) by simp
  qed simp
  then show "tb_refs t c \<ge> 0 \<Longrightarrow> c \<notin> set (tb_dirty (increfReferredChains rs t)) \<Longrightarrow>
      tb_refs (increfReferredChains rs t) c = 0 \<longleftrightarrow> tb_refs t c = 0"
    by (simp add: increfReferredChains_def)
qed

lemma decrefs_dirty:
  shows "set (tb_dirty t) \<subseteq> set (tb_dirty (decrefReferredChains rs t))"
    and "tb_refs (decrefReferredChains rs t) c \<ge> 0 \<Longrightarrow> c \<notin> set (tb_dirty (decrefReferredChains rs t)) \<Longrightarrow>
      tb_refs (decrefReferredChains rs t) c = 0 \<longleftrightarrow> tb_refs t c = 0"
proof -
  have sub: "set (tb_dirty t) \<subseteq> set (tb_dirty (fold decrefChain cs t))" for cs t
    by (induction cs arbitrary: t) (force simp: decrefChain_def Let_def split: if_splits)+
  then show "set (tb_dirty t) \<subseteq> set (tb_dirty (decrefReferredChains rs t))" by (simp add: decrefReferredChains_def)
  have "tb_refs (fold decrefChain cs t) c \<ge> 0 \<Longrightarrow> c \<notin> set (tb_dirty (fold decrefChain cs t)) \<Longrightarrow> tb_refs (fold decrefChain cs t) c = 0 \<longleftrightarrow> tb_refs t c = 0" for cs
  proof (induction cs arbitrary: t)
    case (Cons x cs)
    have "c \<notin> set (tb_dirty (decrefChain x t))" using Cons.prems(2) sub [of "decrefChain x t" cs] by auto
    moreover have "tb_refs (decrefChain x t) c \<ge> 0" using Cons.prems(1) by (simp add: tb_refs_fold_decref)
    ultimately have "tb_refs (decrefChain x t) c = 0 \<longleftrightarrow> tb_refs t c = 0"
      by (auto simp: decrefChain_def Let_def split: if_splits)
    then show ?case using Cons.IH [of "decrefChain x t"] Cons.prems by simp
  qed simp
  then show "tb_refs (decrefReferredChains rs t) c \<ge> 0 \<Longrightarrow> c \<notin> set (tb_dirty (decrefReferredChains rs t)) \<Longrightarrow>
      tb_refs (decrefReferredChains rs t) c = 0 \<longleftrightarrow> tb_refs t c = 0"
    by (simp add: decrefReferredChains_def)
qed

text \<open>Counting up the new rules and down the old ones keeps whether a clean chain is referenced.\<close>

lemma rebalance_dirty:
  assumes "tb_refs t c \<ge> 0" "tb_refs (decrefReferredChains old (increfReferredChains rs t)) c \<ge> 0"
    and "c \<notin> set (tb_dirty (decrefReferredChains old (increfReferredChains rs t)))"
  shows "tb_refs (decrefReferredChains old (increfReferredChains rs t)) c = 0 \<longleftrightarrow> tb_refs t c = 0"
  using assms decrefs_dirty(1) [of "increfReferredChains rs t" old] decrefs_dirty(2) [of old "increfReferredChains rs t" c] increfs_dirty(2) [of t c rs] by blast

lemma rebalance_dirty_mono: "set (tb_dirty t) \<subseteq> set (tb_dirty (decrefReferredChains old (increfReferredChains rs t)))"
  using decrefs_dirty(1) [of "increfReferredChains rs t" old] increfs_dirty(1) [of t rs] by blast

lemma desired_cong:
  "(tb_refs t' c = 0 \<longleftrightarrow> tb_refs t c = 0) \<Longrightarrow> tb_chains t' c = tb_chains t c \<Longrightarrow> desiredStateOfChain t' c = desiredStateOfChain t c"
  by (simp add: desiredStateOfChain_def)

lemma synced_rebalance:
  assumes "counted t" "synced t" "counted (InvalidateDataplaneCache (decrefReferredChains old (increfReferredChains rs t')))"
    and "tb_opt t' = tb_opt t" "tb_hashes t' = tb_hashes t" "tb_dirty t' = tb_dirty t" "tb_refs t' = tb_refs t" "tb_chains t' = tb_chains t"
  shows "synced (InvalidateDataplaneCache (decrefReferredChains old (increfReferredChains rs t')))"
proof (rule synced_change [OF assms(2)])
  let ?t = "decrefReferredChains old (increfReferredChains rs t')"
  show "set (tb_dirty t) \<subseteq> set (tb_dirty (InvalidateDataplaneCache ?t))" using rebalance_dirty_mono [of t' old rs] assms(6) by simp
  fix c assume "c \<notin> set (tb_dirty (InvalidateDataplaneCache ?t))"
  then show "desiredStateOfChain (InvalidateDataplaneCache ?t) c = desiredStateOfChain t c"
    using rebalance_dirty [of t' c old rs] counted_nonneg [OF assms(1), of c] counted_nonneg [OF assms(3), of c] assms(7,8)
    by (intro desired_cong) simp_all
qed (simp_all add: assms)

lemma synced_Insert: "counted t \<Longrightarrow> synced t \<Longrightarrow> synced (InsertOrAppendRules k rs t)"
  using counted_Insert [of t k rs] unfolding InsertOrAppendRules_def Let_def by (intro synced_rebalance [of t]) simp_all

lemma synced_Append: "counted t \<Longrightarrow> synced t \<Longrightarrow> synced (AppendRules k rs t)"
  using counted_Append [of t k rs] unfolding AppendRules_def Let_def by (intro synced_rebalance [of t]) simp_all

lemma dirty_UpdateChain: "tb_dirty (UpdateChain c t) =
    (let d = tb_dirty (case tb_chains t (ch_name c) of None \<Rightarrow> increfReferredChains (ch_rules c) t
           | Some old \<Rightarrow> decrefReferredChains (ch_rules old) (increfReferredChains (ch_rules c) t))
     in if tb_refs (UpdateChain c t) (ch_name c) > 0 then set_Add (ch_name c) d else d)"
  by (simp add: UpdateChain_def Let_def split: option.split)

lemma refs_UpdateChain: "tb_refs (UpdateChain c t) =
    tb_refs (case tb_chains t (ch_name c) of None \<Rightarrow> increfReferredChains (ch_rules c) t
      | Some old \<Rightarrow> decrefReferredChains (ch_rules old) (increfReferredChains (ch_rules c) t))"
  by (simp add: UpdateChain_def Let_def split: option.split)

lemma synced_UpdateChain:
  assumes "counted t" "synced t"
  shows "synced (UpdateChain c t)"
proof (rule synced_change [OF assms(2)])
  let ?b = "case tb_chains t (ch_name c) of None \<Rightarrow> increfReferredChains (ch_rules c) t
      | Some old \<Rightarrow> decrefReferredChains (ch_rules old) (increfReferredChains (ch_rules c) t)"
  have mono: "set (tb_dirty t) \<subseteq> set (tb_dirty ?b)"
    using rebalance_dirty_mono [of t] increfs_dirty(1) [of t] by (auto split: option.split)
  then show "set (tb_dirty t) \<subseteq> set (tb_dirty (UpdateChain c t))" by (auto simp: dirty_UpdateChain Let_def)
  fix k assume k: "k \<notin> set (tb_dirty (UpdateChain c t))"
  have pos: "tb_refs (UpdateChain c t) k \<ge> 0" "tb_refs t k \<ge> 0"
    using counted_nonneg counted_UpdateChain assms(1) by blast+
  have "k \<notin> set (tb_dirty ?b)" using k by (auto simp: dirty_UpdateChain Let_def split: if_splits)
  then have z: "tb_refs (UpdateChain c t) k = 0 \<longleftrightarrow> tb_refs t k = 0"
    using pos rebalance_dirty [of t k] increfs_dirty(2) [of t k] by (auto simp: refs_UpdateChain split: option.splits)
  have "k = ch_name c \<Longrightarrow> tb_refs (UpdateChain c t) k = 0" using k pos(1) by (auto simp: dirty_UpdateChain Let_def split: if_splits)
  moreover have "k \<noteq> ch_name c \<Longrightarrow> tb_chains (UpdateChain c t) k = tb_chains t k"
    by (simp add: UpdateChain_def Let_def split: option.split)
  ultimately show "desiredStateOfChain (UpdateChain c t) k = desiredStateOfChain t k"
    using z by (auto simp: desiredStateOfChain_def)
qed (simp_all add: UpdateChain_def Let_def split: option.split)

lemma synced_RemoveChain:
  assumes "counted t" "synced t"
  shows "synced (RemoveChainByName nm t)"
proof (cases "tb_chains t nm")
  case None
  then show ?thesis using assms(2) by (simp add: RemoveChainByName_def synced_def our_chain_def desiredStateOfChain_def)
next
  case (Some old)
  define t1 where "t1 = (let t = t\<lparr>tb_chains := (tb_chains t)(nm := None)\<rparr> in if tb_refs t nm > 0 then t\<lparr>tb_dirty := set_Add nm (tb_dirty t)\<rparr> else t)"
  have r: "RemoveChainByName nm t = InvalidateDataplaneCache (decrefReferredChains (ch_rules old) t1)"
    by (simp add: RemoveChainByName_def t1_def Some Let_def)
  have f: "tb_refs t1 = tb_refs t" "tb_opt t1 = tb_opt t" "tb_hashes t1 = tb_hashes t" "tb_chains t1 = (tb_chains t)(nm := None)"
    "set (tb_dirty t) \<subseteq> set (tb_dirty t1)" "tb_refs t nm > 0 \<Longrightarrow> nm \<in> set (tb_dirty t1)"
    by (auto simp: t1_def Let_def)
  show ?thesis
  proof (rule synced_change [OF assms(2)])
    show "set (tb_dirty t) \<subseteq> set (tb_dirty (RemoveChainByName nm t))" using f(5) decrefs_dirty(1) [of t1 "ch_rules old"] by (auto simp: r)
    fix k assume k: "k \<notin> set (tb_dirty (RemoveChainByName nm t))"
    have pos: "tb_refs (RemoveChainByName nm t) k \<ge> 0" "tb_refs t k \<ge> 0"
      using counted_nonneg counted_RemoveChain assms(1) by blast+
    have z: "tb_refs (RemoveChainByName nm t) k = 0 \<longleftrightarrow> tb_refs t k = 0"
      using decrefs_dirty(2) [of "ch_rules old" t1 k] pos k f(1) by (simp add: r)
    have "k = nm \<Longrightarrow> tb_refs t k = 0" using k f(6) pos(2) decrefs_dirty(1) [of t1 "ch_rules old"] by (auto simp: r less_le)
    then show "desiredStateOfChain (RemoveChainByName nm t) k = desiredStateOfChain t k"
      using z by (auto simp: desiredStateOfChain_def r f(4))
  qed (simp_all add: r f)
qed

end
