(* ===== verification/IptKernel.thy ===== *)
theory IptKernel
  imports IptRefs
begin

text \<open>
  The two commands a table runs. A table of the kernel is a list of chains with the text of their rules, in the
  order in which \<^verbatim>\<open>iptables-save\<close> prints them. \<^verbatim>\<open>iptables-restore --noflush\<close> executes the commands
  of a transaction on a copy of the table and commits it at the end; the first command that fails aborts the input. The
  function \<open>norm\<close> is the form in which the kernel gives a rule back. Comment lines and counters are left out.
\<close>

section \<open>Commands\<close>

type_synonym kernel = "(string \<times> string list) list"

datatype command =
    OpenTable string
  | Commit
  | Declare string
  | AppendRule string string
  | InsertRule string string
  | ReplaceRule string nat string
  | DeleteNum string nat
  | DeleteRule string string
  | DeleteChain string

fun dec_value :: "nat \<Rightarrow> string \<Rightarrow> nat option" where
  "dec_value v [] = Some v"
| "dec_value v (c # cs) = (case dec_digit c of None \<Rightarrow> None | Some k \<Rightarrow> dec_value (v * 10 + k) cs)"

definition parse_num :: "string \<Rightarrow> nat option" where
  "parse_num s = (if s = [] then None else dec_value 0 s)"

definition first_word :: "string \<Rightarrow> string" where
  "first_word s = takeWhile (\<lambda>c. c \<noteq> CHR '' '') s"

definition after_word :: "string \<Rightarrow> string" where
  "after_word s = drop 1 (dropWhile (\<lambda>c. c \<noteq> CHR '' '') s)"

definition parse_rule_command :: "string \<Rightarrow> string \<Rightarrow> string \<Rightarrow> command option" where
  "parse_rule_command oper c arg =
     (if oper = ''-A'' then Some (AppendRule c arg)
      else if oper = ''-I'' then (if parse_num (first_word arg) = None then Some (InsertRule c arg) else None)
      else if oper = ''-R'' then (case parse_num (first_word arg) of None \<Rightarrow> None | Some n \<Rightarrow> Some (ReplaceRule c n (after_word arg)))
      else if oper = ''-D'' then (case parse_num arg of Some n \<Rightarrow> Some (DeleteNum c n) | None \<Rightarrow> Some (DeleteRule c arg))
      else if oper = ''--delete-chain'' then Some (DeleteChain c)
      else None)"

definition parse_command :: "string \<Rightarrow> command option" where
  "parse_command line = (case line of
     [] \<Rightarrow> None
   | ch # rest \<Rightarrow>
       if ch = CHR ''*'' then Some (OpenTable rest)
       else if ch = CHR '':'' then Some (Declare (first_word rest))
       else if line = ''COMMIT'' then Some Commit
       else parse_rule_command (first_word line) (first_word (after_word line)) (after_word (after_word line)))"

text \<open>A declared chain is created, or emptied when it exists; only an empty chain can be deleted.\<close>

definition on_chain :: "string \<Rightarrow> (string list \<Rightarrow> string list option) \<Rightarrow> kernel \<Rightarrow> kernel option" where
  "on_chain c f W = (case map_of W c of None \<Rightarrow> None
     | Some rs \<Rightarrow> (case f rs of None \<Rightarrow> None | Some rs' \<Rightarrow> Some (AList.update c rs' W)))"

fun exec_command :: "(string \<Rightarrow> string) \<Rightarrow> command \<Rightarrow> kernel \<Rightarrow> kernel option" where
  "exec_command norm (Declare c) W = Some (AList.update c [] W)"
| "exec_command norm (AppendRule c s) W = on_chain c (\<lambda>rs. Some (rs @ [norm s])) W"
| "exec_command norm (InsertRule c s) W = on_chain c (\<lambda>rs. Some (norm s # rs)) W"
| "exec_command norm (ReplaceRule c n s) W =
     on_chain c (\<lambda>rs. if 1 \<le> n \<and> n \<le> length rs then Some (rs[n - 1 := norm s]) else None) W"
| "exec_command norm (DeleteNum c n) W =
     on_chain c (\<lambda>rs. if 1 \<le> n \<and> n \<le> length rs then Some (take (n - 1) rs @ drop n rs) else None) W"
| "exec_command norm (DeleteRule c s) W =
     on_chain c (\<lambda>rs. if norm s \<in> set rs then Some (remove1 (norm s) rs) else None) W"
| "exec_command norm (DeleteChain c) W = (if map_of W c = Some [] then Some (AList.delete c W) else None)"
| "exec_command norm (OpenTable _) W = None"
| "exec_command norm Commit W = None"

definition exec_line :: "(string \<Rightarrow> string) \<Rightarrow> string \<Rightarrow> kernel \<Rightarrow> kernel option" where
  "exec_line norm line W = (case parse_command line of None \<Rightarrow> None | Some cmd \<Rightarrow> exec_command norm cmd W)"

fun exec_lines :: "(string \<Rightarrow> string) \<Rightarrow> string list \<Rightarrow> kernel \<Rightarrow> kernel option" where
  "exec_lines norm [] W = Some W"
| "exec_lines norm (l # ls) W = (case exec_line norm l W of None \<Rightarrow> None | Some W' \<Rightarrow> exec_lines norm ls W')"

text \<open>The result tells whether the whole input was accepted; the kernel keeps the transactions committed before a failure.\<close>

fun restore_run :: "string \<Rightarrow> (string \<Rightarrow> string) \<Rightarrow> string list \<Rightarrow> kernel option \<Rightarrow> kernel \<Rightarrow> bool \<times> kernel" where
  "restore_run nm norm [] pending K = (pending = None, K)"
| "restore_run nm norm (l # ls) pending K = (case parse_command l of
     None \<Rightarrow> (False, K)
   | Some (OpenTable n) \<Rightarrow> if n = nm \<and> pending = None then restore_run nm norm ls (Some K) K else (False, K)
   | Some Commit \<Rightarrow> (case pending of None \<Rightarrow> (False, K) | Some W \<Rightarrow> restore_run nm norm ls None W)
   | Some cmd \<Rightarrow> (case pending of None \<Rightarrow> (False, K)
       | Some W \<Rightarrow> (case exec_command norm cmd W of None \<Rightarrow> (False, K) | Some W' \<Rightarrow> restore_run nm norm ls (Some W') K)))"

text \<open>The lines of an input, each ended by a newline.\<close>

definition input_lines :: "string \<Rightarrow> string list" where
  "input_lines s = butlast (split_on (CHR 0x0A) s)"

definition rule_line :: "string \<times> string \<Rightarrow> string" where
  "rule_line cr = ''-A '' @ fst cr @ '' '' @ snd cr"

definition kernel_rules :: "kernel \<Rightarrow> (string \<times> string) list" where
  "kernel_rules K = concat (map (\<lambda>(c, rs). map (Pair c) rs) K)"

definition save_output :: "string \<Rightarrow> kernel \<Rightarrow> string list" where
  "save_output nm K = [CHR ''*'' # nm] @ map (\<lambda>(c, _). '':'' @ c @ '' - [0:0]'') K @ map rule_line (kernel_rules K) @ [''COMMIT'']"

text \<open>
  The commands on a kernel, with a clock that stands still. The world is a number of runs of \<^verbatim>\<open>iptables-restore\<close> that will fail
  before it works (because of a lock, say), and the kernel.
\<close>

definition kernel_env :: "string \<Rightarrow> (string \<Rightarrow> string) \<Rightarrow> int \<Rightarrow> (nat \<times> kernel) ipt_env" where
  "kernel_env nm norm now = \<lparr>ie_now = (\<lambda>w. (now, w)),
     ie_save = (\<lambda>n w. (if n = nm then SaveRan (save_output nm (snd w)) False False False else SaveNotStarted, w)),
     ie_restore = (\<lambda>args input w. case w of (Suc n, K) \<Rightarrow> (False, n, K)
       | (0, K) \<Rightarrow> (case restore_run nm norm (input_lines input) None K of (ok, K') \<Rightarrow> (ok, 0, K')))\<rparr>"

section \<open>Assumptions\<close>

text \<open>
  A saved rule is accepted back and saved as it is, and the comment with the hash survives; a rule is saved on one line.
\<close>

definition saved_form :: "string \<Rightarrow> (string \<Rightarrow> string) \<Rightarrow> bool" where
  "saved_form p norm \<longleftrightarrow> (\<forall>s. norm (norm s) = norm s \<and> find_hash p (norm s) = find_hash p s \<and>
     (CHR 0x0A \<notin> set s \<longrightarrow> CHR 0x0A \<notin> set (norm s)))"

text \<open>The names the kernel accepts for a chain hold no white space; one with the option for comments at its end is excluded.\<close>

definition valid_chain :: "string \<Rightarrow> bool" where
  "valid_chain c \<longleftrightarrow> c \<noteq> [] \<and> list_all not_space c \<and> \<not> suffix ''--comment'' c"

definition kernel_ok :: "(string \<Rightarrow> string) \<Rightarrow> kernel \<Rightarrow> bool" where
  "kernel_ok norm K \<longleftrightarrow> distinct (map fst K) \<and>
     list_all (\<lambda>(c, rs). valid_chain c \<and> list_all (\<lambda>r. norm r = r \<and> CHR 0x0A \<notin> set r) rs) K"

text \<open>Match and action of a rule are on one line.\<close>

definition one_line :: "options \<Rightarrow> rule \<Rightarrow> bool" where
  "one_line opt r \<longleftrightarrow> CHR 0x0A \<notin> set (Render (ru_match r)) \<and>
     (case ru_action r of None \<Rightarrow> True | Some a \<Rightarrow> CHR 0x0A \<notin> set (ToFragment opt a))"

definition hash_of :: "string \<Rightarrow> string \<Rightarrow> string" where
  "hash_of p r = (case find_hash p r of None \<Rightarrow> [] | Some h \<Rightarrow> h)"

section \<open>Parsing what the table writes\<close>

lemma first_word_space [simp]: "CHR '' '' \<notin> set w \<Longrightarrow> first_word (w @ CHR '' '' # s) = w"
  by (induction w) (auto simp: first_word_def)

lemma first_word_end [simp]: "CHR '' '' \<notin> set w \<Longrightarrow> first_word w = w"
  by (induction w) (auto simp: first_word_def)

lemma after_word_space [simp]: "CHR '' '' \<notin> set w \<Longrightarrow> after_word (w @ CHR '' '' # s) = s"
  by (induction w) (auto simp: after_word_def)

lemma valid_chain_chars: "valid_chain c \<Longrightarrow> CHR '' '' \<notin> set c" "valid_chain c \<Longrightarrow> CHR 0x0A \<notin> set c"
  by (auto simp: valid_chain_def list_all_iff not_space_def)

lemma valid_chain_space [simp]: "valid_chain c \<Longrightarrow> first_word (c @ CHR '' '' # s) = c"
  "valid_chain c \<Longrightarrow> after_word (c @ CHR '' '' # s) = s" "valid_chain c \<Longrightarrow> first_word c = c"
  by (simp_all add: valid_chain_chars)

lemma dec_value_append: "dec_value v (xs @ ys) = (case dec_value v xs of None \<Rightarrow> None | Some w \<Rightarrow> dec_value w ys)"
  by (induction xs arbitrary: v) (auto split: option.split)

lemma dec_value_dec_string: "dec_value 0 (dec_string n) = Some n"
proof (induction n rule: dec_string.induct)
  case (1 n)
  then show ?case by (cases "n < 10") (simp_all add: dec_string.simps [of n] dec_value_append)
qed

lemma parse_num_dec_string [simp]: "parse_num (dec_string n) = Some n"
  using dec_value_dec_string [of n] by (cases "dec_string n") (simp_all add: parse_num_def dec_string.simps [of n] split: if_splits)

lemma dec_string_space: "CHR '' '' \<notin> set (dec_string n)"
proof -
  have "digit_char k \<noteq> CHR '' ''" if "k < 10" for k
    using that dec_digit_char [of k] by (auto simp: dec_digit_def)
  then show ?thesis using set_dec_string [of n] by force
qed

lemma dec_value_dash: "CHR ''-'' \<in> set s \<Longrightarrow> dec_value v s = None"
proof (induction s arbitrary: v)
  case (Cons c s)
  then show ?case by (cases "c = CHR ''-''") (auto simp: dec_digit_def Let_def split: option.split)
qed simp

lemma parse_num_dash: "CHR ''-'' \<in> set s \<Longrightarrow> parse_num s = None"
  by (simp add: parse_num_def dec_value_dash)

lemma parse_append: "valid_chain c \<Longrightarrow> parse_command (''-A '' @ c @ '' '' @ s) = Some (AppendRule c s)"
  using first_word_space [of "''-A''" "c @ '' '' @ s"] after_word_space [of "''-A''" "c @ '' '' @ s"]
  by (simp add: parse_command_def parse_rule_command_def)

lemma parse_insert: "valid_chain c \<Longrightarrow> CHR ''-'' \<in> set (first_word s) \<Longrightarrow> parse_command (''-I '' @ c @ '' '' @ s) = Some (InsertRule c s)"
  using first_word_space [of "''-I''" "c @ '' '' @ s"] after_word_space [of "''-I''" "c @ '' '' @ s"]
  by (simp add: parse_command_def parse_rule_command_def parse_num_dash)

lemma parse_replace: "valid_chain c \<Longrightarrow> parse_command (''-R '' @ c @ '' '' @ dec_string n @ '' '' @ s) = Some (ReplaceRule c n s)"
  using first_word_space [of "''-R''" "c @ '' '' @ dec_string n @ '' '' @ s"] after_word_space [of "''-R''" "c @ '' '' @ dec_string n @ '' '' @ s"]
  by (simp add: parse_command_def parse_rule_command_def dec_string_space)

lemma parse_delete_num: "valid_chain c \<Longrightarrow> parse_command (''-D '' @ c @ '' '' @ dec_string n) = Some (DeleteNum c n)"
  using first_word_space [of "''-D''" "c @ '' '' @ dec_string n"] after_word_space [of "''-D''" "c @ '' '' @ dec_string n"]
  by (simp add: parse_command_def parse_rule_command_def)

lemma parse_delete: "valid_chain c \<Longrightarrow> CHR ''-'' \<in> set s \<Longrightarrow> parse_command (''-D '' @ c @ '' '' @ s) = Some (DeleteRule c s)"
  using first_word_space [of "''-D''" "c @ '' '' @ s"] after_word_space [of "''-D''" "c @ '' '' @ s"]
  by (simp add: parse_command_def parse_rule_command_def parse_num_dash)

lemma parse_delete_chain: "valid_chain c \<Longrightarrow> parse_command (''--delete-chain '' @ c) = Some (DeleteChain c)"
  using first_word_space [of "''--delete-chain''" c] after_word_space [of "''--delete-chain''" c]
  by (simp add: parse_command_def parse_rule_command_def)

lemma parse_declare: "valid_chain c \<Longrightarrow> parse_command ('':'' @ c @ '' - -'') = Some (Declare c)"
  by (simp add: parse_command_def)

lemma parse_open: "parse_command (CHR ''*'' # nm) = Some (OpenTable nm)"
  by (simp add: parse_command_def)

lemma parse_commit: "parse_command ''COMMIT'' = Some Commit"
  by (simp add: parse_command_def)

section \<open>The text of a rule\<close>

definition rule_spec :: "table \<Rightarrow> string \<Rightarrow> rule \<Rightarrow> string" where
  "rule_spec t h r = renderInner [] (commentFrag t h) (tb_opt t) r"

lemma join_with_append: "xs \<noteq> [] \<Longrightarrow> ys \<noteq> [] \<Longrightarrow> join_with sep (xs @ ys) = join_with sep xs @ sep @ join_with sep ys"
proof (induction sep xs rule: join_with.induct)
  case (2 sep x)
  then show ?case by (cases ys) auto
qed auto

lemma commentFrag_not_Nil [simp]: "commentFrag t h \<noteq> []"
  by (simp add: commentFrag_def)

lemma renderInner_prefix:
  assumes "xs \<noteq> []"
  shows "renderInner xs (commentFrag t h) (tb_opt t) r = join_with '' '' xs @ '' '' @ rule_spec t h r"
  using assms by (simp add: renderInner_def rule_spec_def Let_def join_with_append)

lemma RenderAppend_spec: "RenderAppend c (commentFrag t h) (tb_opt t) r = ''-A '' @ c @ '' '' @ rule_spec t h r"
  by (simp add: RenderAppend_def renderInner_prefix)

lemma RenderInsert_spec: "RenderInsert c (commentFrag t h) (tb_opt t) r = ''-I '' @ c @ '' '' @ rule_spec t h r"
  by (simp add: RenderInsert_def renderInner_prefix)

lemma RenderReplace_spec:
  "RenderReplace c (int i + 1) (commentFrag t h) (tb_opt t) r = ''-R '' @ c @ '' '' @ dec_string (Suc i) @ '' '' @ rule_spec t h r"
  by (simp add: RenderReplace_def renderInner_prefix dec_int_def nat_add_distrib)

lemma renderDeleteByIndexLine_spec: "renderDeleteByIndexLine c (int n + 1) = ''-D '' @ c @ '' '' @ dec_string (Suc n)"
  by (simp add: renderDeleteByIndexLine_def dec_int_def nat_add_distrib)

lemma rule_spec_prefix: "\<exists>rest. rule_spec t h r = commentFrag t h @ rest"
proof -
  have "\<exists>rest. join_with sep (x # xs) = x @ rest" for sep x xs by (cases xs) auto
  then show ?thesis by (simp add: rule_spec_def renderInner_def Let_def)
qed

lemma find_hash_commentFrag:
  assumes "h \<noteq> []" "list_all hash_char h"
  shows "find_hash (tb_hash_prefix t) (commentFrag t h @ rest) = Some h"
proof -
  have "takeWhile hash_char (h @ CHR 0x22 # rest) = h"
    using assms(2) by (simp add: list_all_iff takeWhile_append2 hash_char_def)
  then have "hash_here (tb_hash_prefix t) (''--comment '' @ [CHR 0x22] @ tb_hash_prefix t @ h @ [CHR 0x22] @ rest) = Some h"
    using assms(1) by (simp add: hash_here_def strip_prefix_def)
  then show ?thesis by (simp add: commentFrag_def hash_here_def strip_prefix_def)
qed

lemma find_hash_rule_spec:
  assumes "h \<noteq> []" "list_all hash_char h"
  shows "find_hash (tb_hash_prefix t) (rule_spec t h r) = Some h"
  using rule_spec_prefix [of t h r] find_hash_commentFrag [OF assms, of t] by auto

lemma first_word_rule_spec: "CHR ''-'' \<in> set (first_word (rule_spec t h r))"
  using rule_spec_prefix [of t h r] by (auto simp: commentFrag_def first_word_def)

text \<open>A rule with a hash holds a dash.\<close>

lemma find_hash_dash: "find_hash p s = Some h \<Longrightarrow> CHR ''-'' \<in> set s"
proof (induction p s rule: find_hash.induct)
  case (2 p c s)
  have "hash_here p (c # s) = Some x \<Longrightarrow> c = CHR ''-''" for x
    by (auto simp: hash_here_def strip_prefix_def split: if_splits option.splits)
  then show ?case using 2 by (auto split: option.splits)
qed simp

lemma find_hash_not_Nil: "find_hash p s = Some h \<Longrightarrow> h \<noteq> []"
proof (induction p s rule: find_hash.induct)
  case (2 p c s)
  have "hash_here p (c # s) = Some x \<Longrightarrow> x \<noteq> []" for x
    by (auto simp: hash_here_def Let_def split: if_splits option.splits)
  then show ?case using 2 by (auto split: option.splits)
qed simp

text \<open>The start of a saved line holds no hash.\<close>

lemma find_hash_skip:
  assumes "\<And>u. suffix u pre \<Longrightarrow> u \<noteq> [] \<Longrightarrow> \<not> prefix ''--comment '' (u @ s)"
  shows "find_hash p (pre @ s) = find_hash p s"
  using assms
proof (induction pre)
  case (Cons c pre)
  have "find_hash p (pre @ s) = find_hash p s" by (rule Cons.IH) (use Cons.prems in \<open>auto simp: suffix_Cons\<close>)
  moreover have "\<not> prefix ''--comment '' (c # pre @ s)" using Cons.prems [of "c # pre"] by simp
  then have "hash_here p (c # pre @ s) = None" unfolding hash_here_def strip_prefix_def by (simp only: if_False option.case)
  ultimately show ?case by simp
qed simp

lemma word_boundary: "CHR '' '' \<notin> set u \<Longrightarrow> CHR '' '' \<notin> set w \<Longrightarrow> prefix (w @ '' '') (u @ CHR '' '' # s) \<Longrightarrow> u = w"
proof (induction u arbitrary: w)
  case Nil
  then show ?case by (cases w) auto
next
  case (Cons x u)
  then show ?case by (cases w) auto
qed

lemma find_hash_rule_line:
  assumes "valid_chain c"
  shows "find_hash p (rule_line (c, r)) = find_hash p r"
proof -
  have "\<not> prefix ''--comment '' (u @ r)" if u: "suffix u (''-A '' @ c @ '' '')" "u \<noteq> []" for u
  proof
    assume pre: "prefix ''--comment '' (u @ r)"
    have "u = ''-A '' @ c @ '' '' \<or> u = ''A '' @ c @ '' '' \<or> u = '' '' @ c @ '' '' \<or> suffix u (c @ '' '')"
      using u(1) by (auto simp: suffix_Cons)
    then have "suffix u (c @ '' '')" using pre by auto
    then obtain v where v: "u = v @ '' ''" "suffix v c" using u(2) by (auto simp: suffix_snoc)
    then have "v = ''--comment''"
      using word_boundary [of v "''--comment''" r] pre valid_chain_chars(1) [OF assms] set_mono_suffix [OF v(2)] by auto
    then show False using v(2) assms by (simp add: valid_chain_def)
  qed
  then show ?thesis using find_hash_skip [of "''-A '' @ c @ '' ''" r p] by (simp add: rule_line_def)
qed

end
