(* ===== verification/IptRead.thy ===== *)
theory IptRead
  imports IptKernel
begin

text \<open>
  What a table learns from the output of \<^verbatim>\<open>iptables-save\<close>: the hash of every rule of every chain, and the full
  text of our rules in the chains that are not ours.
\<close>

definition hashes_agree :: "table \<Rightarrow> kernel \<Rightarrow> bool" where
  "hashes_agree t K \<longleftrightarrow> (\<forall>c. map_of (tb_hashes t) c = map_option (map (hash_of (tb_hash_prefix t))) (map_of K c))"

definition full_line :: "string \<Rightarrow> string \<Rightarrow> string \<Rightarrow> string" where
  "full_line p c r = (if find_hash p r \<noteq> None then rule_line (c, r) else ''-'')"

definition full_ok :: "table \<Rightarrow> kernel \<Rightarrow> string \<Rightarrow> bool" where
  "full_ok t K c \<longleftrightarrow> (\<forall>rs. \<not> our_chain t c \<longrightarrow> map_of K c = Some rs \<longrightarrow>
     (\<exists>r\<in>set rs. find_hash (tb_hash_prefix t) r \<noteq> None) \<longrightarrow> map_of (tb_full t) c = Some (map (full_line (tb_hash_prefix t) c) rs))"

definition of_chain :: "string \<Rightarrow> (string \<times> string) list \<Rightarrow> string list" where
  "of_chain c crs = map snd (filter (\<lambda>cr. fst cr = c) crs)"

lemma of_chain_simps [simp]:
  "of_chain c [] = []" "of_chain c ((k, r) # crs) = (if k = c then r # of_chain c crs else of_chain c crs)"
  "of_chain c (xs @ ys) = of_chain c xs @ of_chain c ys"
  by (simp_all add: of_chain_def)

lemma of_chain_kernel_rules: "distinct (map fst K) \<Longrightarrow> of_chain c (kernel_rules K) = (case map_of K c of None \<Rightarrow> [] | Some rs \<Rightarrow> rs)"
proof (induction K)
  case (Cons x K)
  obtain k rs where x: "x = (k, rs)" by (cases x)
  have own: "of_chain c (map (Pair k) rs) = (if k = c then rs else [])" by (induction rs) auto
  have "map_of K k = None" using Cons.prems by (simp add: x map_of_eq_None_iff)
  then show ?case using Cons own by (simp add: x kernel_rules_def)
qed (simp add: kernel_rules_def)

lemma kernel_rules_valid: "kernel_ok norm K \<Longrightarrow> (c, r) \<in> set (kernel_rules K) \<Longrightarrow> valid_chain c"
  by (fastforce simp: kernel_ok_def kernel_rules_def list_all_iff)

section \<open>Single lines\<close>

lemma takeWhile_chain: "valid_chain c \<Longrightarrow> takeWhile not_space (c @ CHR '' '' # s) = c"
  by (simp add: valid_chain_def list_all_iff takeWhile_append2 not_space_def)

lemma read_line_declare:
  "valid_chain c \<Longrightarrow> read_line t ('':'' @ c @ '' - [0:0]'') s = Some (s\<lparr>rs_hashes := AList.update c [] (rs_hashes s)\<rparr>)"
  using takeWhile_chain [of c "''- [0:0]''"]
  by (simp add: read_line_def nft_error_def word_after_def strip_prefix_def Let_def valid_chain_def)

lemma read_line_other: "read_line t (CHR ''*'' # nm) s = Some s" "read_line t ''COMMIT'' s = Some s"
  by (simp_all add: read_line_def nft_error_def word_after_def strip_prefix_def)

lemma read_line_rule:
  assumes "valid_chain c"
  shows "read_line t (rule_line (c, r)) s = Some (s\<lparr>
      rs_ours := (if find_hash (tb_hash_prefix t) r \<noteq> None then set_Add c (rs_ours s) else rs_ours s),
      rs_hashes := append_to c (hash_of (tb_hash_prefix t) r) (rs_hashes s),
      rs_rules := (if our_chain t c then rs_rules s else append_to c (full_line (tb_hash_prefix t) c r) (rs_rules s))\<rparr>)"
proof -
  have w: "word_after ''-A '' (rule_line (c, r)) = Some c" "word_after '':'' (rule_line (c, r)) = None" "\<not> nft_error (rule_line (c, r))"
    using takeWhile_chain [OF assms, of r] assms
    by (simp_all add: word_after_def strip_prefix_def rule_line_def nft_error_def Let_def valid_chain_def)
  show ?thesis
    by (simp add: read_line_def w find_hash_rule_line [OF assms] hash_of_def full_line_def Let_def split: option.split)
qed

section \<open>Sequences of lines\<close>

lemma read_lines_append: "read_lines t (xs @ ys) s = (case read_lines t xs s of None \<Rightarrow> None | Some s' \<Rightarrow> read_lines t ys s')"
  by (induction xs arbitrary: s) (auto split: option.split)

lemma read_declares:
  assumes "list_all valid_chain (map fst K)"
  shows "read_lines t (map (\<lambda>(c, _). '':'' @ c @ '' - [0:0]'') K) s = Some (s\<lparr>rs_hashes := fold (\<lambda>(c, _). AList.update c []) K (rs_hashes s)\<rparr>)"
  using assms
proof (induction K arbitrary: s)
  case (Cons x K)
  then show ?case using read_line_declare [of "fst x" t s] by (cases x) simp
qed simp

lemma map_of_declares: "map_of (fold (\<lambda>(c, _). AList.update c []) K m) c = (if c \<in> fst ` set K then Some [] else map_of m c)"
  by (induction K arbitrary: m) (auto simp: update_conv')

lemma map_of_append_to: "map_of (append_to c v m) k = (if k = c then Some (lookup_list m c @ [v]) else map_of m k)"
  by (simp add: append_to_def update_conv')

lemma lookup_append_to: "lookup_list (append_to c v m) k = (if k = c then lookup_list m c @ [v] else lookup_list m k)"
  by (simp add: lookup_list_def map_of_append_to)

text \<open>The effect of the rule lines on the state.\<close>

definition rules_read :: "table \<Rightarrow> (string \<times> string) list \<Rightarrow> read_state \<Rightarrow> read_state \<Rightarrow> bool" where
  "rules_read t crs s s' \<longleftrightarrow>
    (\<forall>c. map_of (rs_hashes s') c = (if of_chain c crs = [] then map_of (rs_hashes s) c
       else Some (lookup_list (rs_hashes s) c @ map (hash_of (tb_hash_prefix t)) (of_chain c crs)))) \<and>
    (\<forall>c. map_of (rs_rules s') c = (if our_chain t c \<or> of_chain c crs = [] then map_of (rs_rules s) c
       else Some (lookup_list (rs_rules s) c @ map (full_line (tb_hash_prefix t) c) (of_chain c crs)))) \<and>
    (\<forall>c. c \<in> set (rs_ours s') \<longleftrightarrow> c \<in> set (rs_ours s) \<or> (\<exists>r\<in>set (of_chain c crs). find_hash (tb_hash_prefix t) r \<noteq> None))"

lemma read_rules:
  assumes "\<forall>(c, r)\<in>set crs. valid_chain c"
  shows "\<exists>s'. read_lines t (map rule_line crs) s = Some s' \<and> rules_read t crs s s'"
  using assms
proof (induction crs arbitrary: s)
  case (Cons x crs)
  obtain c r where x: "x = (c, r)" by (cases x)
  let ?p = "tb_hash_prefix t"
  define s1 where "s1 = s\<lparr>rs_ours := (if find_hash ?p r \<noteq> None then set_Add c (rs_ours s) else rs_ours s),
      rs_hashes := append_to c (hash_of ?p r) (rs_hashes s),
      rs_rules := (if our_chain t c then rs_rules s else append_to c (full_line ?p c r) (rs_rules s))\<rparr>"
  have "read_line t (rule_line x) s = Some s1" using read_line_rule [of c t r s] Cons.prems by (simp add: x s1_def)
  moreover obtain s' where s': "read_lines t (map rule_line crs) s1 = Some s'" "rules_read t crs s1 s'"
    using Cons.IH [of s1] Cons.prems by auto
  ultimately have "read_lines t (map rule_line (x # crs)) s = Some s'" by simp
  moreover have "rules_read t (x # crs) s s'"
    using s'(2) unfolding rules_read_def by (auto simp: x s1_def map_of_append_to lookup_append_to)
  ultimately show ?case by blast
qed (simp add: rules_read_def)

lemma map_of_filter_keys: "map_of (filter (\<lambda>(k, _). P k) m) c = (if P c then map_of m c else None)"
  by (induction m) auto

lemma read_back:
  assumes "kernel_ok norm K"
  shows "\<exists>h f. readHashesAndRulesFrom t (save_output nm K) False = Some (h, f) \<and>
    hashes_agree (t\<lparr>tb_hashes := h, tb_full := f\<rparr>) K \<and> (\<forall>c. full_ok (t\<lparr>tb_hashes := h, tb_full := f\<rparr>) K c)"
proof -
  let ?p = "tb_hash_prefix t" and ?s0 = "\<lparr>rs_hashes = [], rs_rules = [], rs_ours = set_New\<rparr>"
  define s1 where "s1 = ?s0\<lparr>rs_hashes := fold (\<lambda>(c, _). AList.update c []) K []\<rparr>"
  have K: "distinct (map fst K)" "list_all valid_chain (map fst K)" using assms by (auto simp: kernel_ok_def list_all_iff)
  obtain s2 where s2: "read_lines t (map rule_line (kernel_rules K)) s1 = Some s2" and rr: "rules_read t (kernel_rules K) s1 s2"
    using read_rules [of "kernel_rules K" t s1] kernel_rules_valid [OF assms] by blast
  have "read_lines t (save_output nm K) ?s0 = Some s2"
    using s2 read_declares [OF K(2), of t ?s0] read_line_other
    by (simp add: save_output_def read_lines_append s1_def)
  then have r: "readHashesAndRulesFrom t (save_output nm K) False =
      Some (rs_hashes s2, filter (\<lambda>(chainName, _). set_Contains (rs_ours s2) chainName) (rs_rules s2))"
    by (simp add: readHashesAndRulesFrom_def)
  have own: "of_chain c (kernel_rules K) = (case map_of K c of None \<Rightarrow> [] | Some rs \<Rightarrow> rs)" for c
    by (rule of_chain_kernel_rules [OF K(1)])
  have h1: "map_of (rs_hashes s1) c = (if map_of K c = None then None else Some [])" for c
    by (simp add: s1_def map_of_declares map_of_eq_None_iff)
  have hs: "map_of (rs_hashes s2) c = map_option (map (hash_of ?p)) (map_of K c)" for c
    by (cases "map_of K c") (simp_all add: rr [unfolded rules_read_def] own h1 lookup_list_def)
  have fs: "map_of (filter (\<lambda>(chainName, _). set_Contains (rs_ours s2) chainName) (rs_rules s2)) c = Some (map (full_line ?p c) rs)"
    if "\<not> our_chain t c" "map_of K c = Some rs" "\<exists>r\<in>set rs. find_hash ?p r \<noteq> None" for c rs
  proof -
    have "c \<in> set (rs_ours s2)" using that by (simp add: rr [unfolded rules_read_def] own)
    moreover have "map_of (rs_rules s2) c = Some (map (full_line ?p c) rs)"
      using that by (auto simp: rr [unfolded rules_read_def] own s1_def lookup_list_def)
    ultimately show ?thesis by (simp add: map_of_filter_keys set_Contains_def)
  qed
  show ?thesis using r hs fs by (auto simp: hashes_agree_def full_ok_def our_chain_def)
qed

end
