(* ===== verification/IptExec.thy ===== *)
theory IptExec
  imports IptRead
begin

text \<open>
  What the lines a table writes do to the kernel: the lines for one chain of ours turn the rules in the kernel into
  rules with the desired hashes, the lines for a chain of the kernel replace our rules and keep all others in their order.
\<close>

section \<open>Single lines\<close>

lemma exec_lines_append: "exec_lines norm (xs @ ys) W = (case exec_lines norm xs W of None \<Rightarrow> None | Some W' \<Rightarrow> exec_lines norm ys W')"
  by (induction xs arbitrary: W) (auto split: option.split)

lemma exec_lines_appendI: "exec_lines norm xs W = Some W1 \<Longrightarrow> exec_lines norm ys W1 = Some W2 \<Longrightarrow> exec_lines norm (xs @ ys) W = Some W2"
  by (simp add: exec_lines_append)

lemma exec_append: "valid_chain c \<Longrightarrow> map_of W c = Some rs \<Longrightarrow>
    exec_line norm (''-A '' @ c @ '' '' @ s) W = Some (AList.update c (rs @ [norm s]) W)"
  by (simp only: exec_line_def parse_append) (simp add: on_chain_def)

lemma exec_insert: "valid_chain c \<Longrightarrow> CHR ''-'' \<in> set (first_word s) \<Longrightarrow> map_of W c = Some rs \<Longrightarrow>
    exec_line norm (''-I '' @ c @ '' '' @ s) W = Some (AList.update c (norm s # rs) W)"
  by (simp only: exec_line_def parse_insert) (simp add: on_chain_def)

lemma exec_replace: "valid_chain c \<Longrightarrow> map_of W c = Some rs \<Longrightarrow> i < length rs \<Longrightarrow>
    exec_line norm (''-R '' @ c @ '' '' @ dec_string (Suc i) @ '' '' @ s) W = Some (AList.update c (rs[i := norm s]) W)"
  by (simp only: exec_line_def parse_replace) (simp add: on_chain_def)

lemma exec_delete_num: "valid_chain c \<Longrightarrow> map_of W c = Some rs \<Longrightarrow> i < length rs \<Longrightarrow>
    exec_line norm (''-D '' @ c @ '' '' @ dec_string (Suc i)) W = Some (AList.update c (take i rs @ drop (Suc i) rs) W)"
  by (simp only: exec_line_def parse_delete_num) (simp add: on_chain_def)

lemma exec_delete: "valid_chain c \<Longrightarrow> CHR ''-'' \<in> set s \<Longrightarrow> map_of W c = Some rs \<Longrightarrow> norm s \<in> set rs \<Longrightarrow>
    exec_line norm (''-D '' @ c @ '' '' @ s) W = Some (AList.update c (remove1 (norm s) rs) W)"
  by (simp only: exec_line_def parse_delete) (simp add: on_chain_def)

lemma exec_delete_chain: "valid_chain c \<Longrightarrow> map_of W c = Some [] \<Longrightarrow> exec_line norm (''--delete-chain '' @ c) W = Some (AList.delete c W)"
  by (simp only: exec_line_def parse_delete_chain) simp

lemma exec_declare: "valid_chain c \<Longrightarrow> exec_line norm ('':'' @ c @ '' - -'') W = Some (AList.update c [] W)"
  by (simp only: exec_line_def parse_declare) simp

text \<open>The lines write one chain.\<close>

definition writes :: "(string \<Rightarrow> string) \<Rightarrow> string list \<Rightarrow> string \<Rightarrow> string list \<Rightarrow> string list \<Rightarrow> bool" where
  "writes norm ls c rs rs' \<longleftrightarrow>
     (\<forall>W. map_of W c = Some rs \<longrightarrow> (\<exists>W'. exec_lines norm ls W = Some W' \<and> map_of W' = (map_of W)(c \<mapsto> rs')))"

lemma writes_Nil: "writes norm [] c rs rs"
  by (auto simp: writes_def)

lemma writes_append: "writes norm xs c rs rs1 \<Longrightarrow> writes norm ys c rs1 rs2 \<Longrightarrow> writes norm (xs @ ys) c rs rs2"
  unfolding writes_def by (metis exec_lines_appendI fun_upd_same fun_upd_upd)

lemma writes_line: "(\<And>W. map_of W c = Some rs \<Longrightarrow> exec_line norm l W = Some (AList.update c rs' W)) \<Longrightarrow> writes norm [l] c rs rs'"
  by (simp add: writes_def update_conv')

lemma writes_Cons: "writes norm [l] c rs rs1 \<Longrightarrow> writes norm ls c rs1 rs2 \<Longrightarrow> writes norm (l # ls) c rs rs2"
  using writes_append [of norm "[l]" c rs rs1 ls rs2] by simp

lemma writes_appends:
  assumes "valid_chain c"
  shows "writes norm (map (\<lambda>s. ''-A '' @ c @ '' '' @ s) ss) c rs (rs @ map norm ss)"
proof (induction ss arbitrary: rs)
  case (Cons s ss)
  have "writes norm [''-A '' @ c @ '' '' @ s] c rs (rs @ [norm s])" using assms by (intro writes_line exec_append)
  from writes_Cons [OF this Cons] show ?case by simp
qed (simp add: writes_Nil)

lemma writes_inserts:
  assumes "valid_chain c" "\<forall>s\<in>set ss. CHR ''-'' \<in> set (first_word s)"
  shows "writes norm (map (\<lambda>s. ''-I '' @ c @ '' '' @ s) ss) c rs (rev (map norm ss) @ rs)"
  using assms(2)
proof (induction ss arbitrary: rs)
  case (Cons s ss)
  have "writes norm [''-I '' @ c @ '' '' @ s] c rs (norm s # rs)" using assms(1) Cons.prems by (intro writes_line exec_insert) auto
  from writes_Cons [OF this Cons.IH] show ?case using Cons.prems by simp
qed (simp add: writes_Nil)

lemma writes_delete_nums:
  assumes "valid_chain c" "m + n \<le> length rs"
  shows "writes norm (replicate n (''-D '' @ c @ '' '' @ dec_string (Suc m))) c rs (take m rs @ drop (m + n) rs)"
  using assms(2)
proof (induction n arbitrary: rs)
  case (Suc n)
  have "writes norm [''-D '' @ c @ '' '' @ dec_string (Suc m)] c rs (take m rs @ drop (Suc m) rs)"
    using assms(1) Suc.prems by (intro writes_line exec_delete_num) auto
  from writes_Cons [OF this Suc.IH] show ?case using Suc.prems by (simp add: add.commute)
qed (simp add: writes_Nil)

text \<open>Deleting the rules with a property one by one leaves the others in their order.\<close>

lemma writes_deletes:
  assumes "valid_chain c" "\<forall>r\<in>set rs. norm r = r \<and> (P r \<longrightarrow> CHR ''-'' \<in> set r)"
  shows "writes norm (map (\<lambda>s. ''-D '' @ c @ '' '' @ s) (filter P rs)) c rs (filter (\<lambda>r. \<not> P r) rs)"
proof -
  have "\<forall>r\<in>set ys. \<not> P r \<Longrightarrow> \<forall>r\<in>set xs. norm r = r \<and> (P r \<longrightarrow> CHR ''-'' \<in> set r) \<Longrightarrow>
      writes norm (map (\<lambda>s. ''-D '' @ c @ '' '' @ s) (filter P xs)) c (ys @ xs) (ys @ filter (\<lambda>r. \<not> P r) xs)" for xs ys
  proof (induction xs arbitrary: ys)
    case (Cons x xs)
    show ?case
    proof (cases "P x")
      case True
      have "remove1 x (ys @ x # xs) = ys @ xs" using True Cons.prems(1) by (auto simp: remove1_append)
      then have "writes norm [''-D '' @ c @ '' '' @ x] c (ys @ x # xs) (ys @ xs)"
        using assms(1) True Cons.prems(2) exec_delete [of c x _ "ys @ x # xs" norm] by (intro writes_line) simp
      from writes_Cons [OF this Cons.IH] show ?thesis using True Cons.prems by simp
    next
      case False
      then show ?thesis using Cons.IH [of "ys @ [x]"] Cons.prems by simp
    qed
  qed (simp add: writes_Nil)
  from this [of "[]" rs] assms(2) show ?thesis by simp
qed

section \<open>A chain of ours\<close>

lemma map_filter_append: "List.map_filter f (xs @ ys) = List.map_filter f xs @ List.map_filter f ys"
  by (induction xs) (auto simp: map_filter_simps split: option.split)

lemma map_filter_Some: "(\<And>x. x \<in> set xs \<Longrightarrow> f x = Some (g x)) \<Longrightarrow> List.map_filter f xs = map g xs"
  by (induction xs) (auto simp: map_filter_simps)

lemma map_nth_drop: "map ((!) xs) [n..<length xs] = drop n xs"
  by (rule nth_equalityI) auto

lemma hash_of_rule_spec:
  assumes "saved_form (tb_hash_prefix t) norm" "h \<in> set (RuleHashes opt ch)"
  shows "hash_of (tb_hash_prefix t) (norm (rule_spec t h r)) = h"
proof -
  have "find_hash (tb_hash_prefix t) (rule_spec t h r) = Some h"
    using RuleHashes_words [OF assms(2)] by (intro find_hash_rule_spec) auto
  then show ?thesis using assms(1) by (simp add: hash_of_def saved_form_def)
qed

lemma delta_replaces:
  assumes "saved_form (tb_hash_prefix t) norm" "valid_chain c" "j \<le> length rs" "j \<le> length (RuleHashes (tb_opt t) ch)"
  shows "\<exists>rs'. writes norm (List.map_filter (delta_line t c ch (map (hash_of (tb_hash_prefix t)) rs) (RuleHashes (tb_opt t) ch)) [0..<j]) c rs rs' \<and>
    length rs' = length rs \<and> drop j rs' = drop j rs \<and> map (hash_of (tb_hash_prefix t)) (take j rs') = take j (RuleHashes (tb_opt t) ch)"
  using assms(3,4)
proof (induction j)
  case 0
  then show ?case by (auto simp: map_filter_simps intro: writes_Nil)
next
  case (Suc j)
  let ?p = "tb_hash_prefix t" and ?cur = "RuleHashes (tb_opt t) ch"
  let ?f = "delta_line t c ch (map (hash_of ?p) rs) ?cur"
  obtain rs' where rs': "writes norm (List.map_filter ?f [0..<j]) c rs rs'" "length rs' = length rs"
      "drop j rs' = drop j rs" "map (hash_of ?p) (take j rs') = take j ?cur"
    using Suc by force
  have at: "rs' ! j = rs ! j" using rs'(2,3) Suc.prems(1) by (metis Cons_nth_drop_Suc Suc_le_eq list.inject)
  have dr: "drop (Suc j) rs' = drop (Suc j) rs" using rs'(3) by (metis drop_Suc tl_drop)
  have ty: "take (Suc j) ?cur = take j ?cur @ [?cur ! j]" using Suc.prems(2) by (simp add: take_Suc_conv_app_nth)
  show ?case
  proof (cases "hash_of ?p (rs ! j) = ?cur ! j")
    case True
    then have "?f j = None" using Suc.prems by (simp add: delta_line_def)
    then have "List.map_filter ?f [0..<Suc j] = List.map_filter ?f [0..<j]" by (simp add: map_filter_append map_filter_simps)
    moreover have "map (hash_of ?p) (take (Suc j) rs') = take (Suc j) ?cur"
      using rs' True at ty Suc.prems(1) by (simp add: take_Suc_conv_app_nth)
    ultimately show ?thesis using rs' dr by metis
  next
    case False
    let ?s = "rule_spec t (?cur ! j) (ch_rules ch ! j)"
    have "?f j = Some (''-R '' @ c @ '' '' @ dec_string (Suc j) @ '' '' @ ?s)"
      using False Suc.prems by (simp add: delta_line_def RenderReplace_spec)
    then have "List.map_filter ?f [0..<Suc j] = List.map_filter ?f [0..<j] @ [''-R '' @ c @ '' '' @ dec_string (Suc j) @ '' '' @ ?s]"
      by (simp add: map_filter_append map_filter_simps)
    moreover have "writes norm [''-R '' @ c @ '' '' @ dec_string (Suc j) @ '' '' @ ?s] c rs' (rs'[j := norm ?s])"
      using assms(2) rs'(2) Suc.prems(1) by (intro writes_line exec_replace) auto
    ultimately have "writes norm (List.map_filter ?f [0..<Suc j]) c rs (rs'[j := norm ?s])" using writes_append [OF rs'(1)] by (simp only:)
    moreover have "hash_of ?p (norm ?s) = ?cur ! j" using Suc.prems(2) by (intro hash_of_rule_spec [OF assms(1), of _ "tb_opt t" ch]) simp
    then have "map (hash_of ?p) (take (Suc j) (rs'[j := norm ?s])) = take (Suc j) ?cur"
      using rs' ty Suc.prems(1) by (simp add: take_Suc_conv_app_nth)
    ultimately show ?thesis using rs'(2) dr by (intro exI [of _ "rs'[j := norm ?s]"]) simp
  qed
qed

lemma delta_lines_exact:
  assumes "saved_form (tb_hash_prefix t) norm" "valid_chain c"
  shows "\<exists>rs'. writes norm (delta_lines t c ch (map (hash_of (tb_hash_prefix t)) rs)) c rs rs' \<and>
    map (hash_of (tb_hash_prefix t)) rs' = RuleHashes (tb_opt t) ch"
proof -
  let ?p = "tb_hash_prefix t" and ?cur = "RuleHashes (tb_opt t) ch"
  let ?f = "delta_line t c ch (map (hash_of ?p) rs) ?cur"
  let ?m = "min (length rs) (length ?cur)" and ?n = "max (length rs) (length ?cur)"
  obtain rs1 where rs1: "writes norm (List.map_filter ?f [0..<?m]) c rs rs1" "length rs1 = length rs"
      "map (hash_of ?p) (take ?m rs1) = take ?m ?cur"
    using delta_replaces [OF assms, of ?m rs ch] by auto
  have "[0..<?n] = [0..<?m] @ [?m..<?n]" 
    using upt_add_eq_append [of 0 ?m "?n - ?m"] by simp
  then have split: "delta_lines t c ch (map (hash_of ?p) rs) = List.map_filter ?f [0..<?m] @ List.map_filter ?f [?m..<?n]"
    by (simp add: delta_lines_def Let_def map_filter_append)
  show ?thesis
  proof (cases "length rs \<le> length ?cur")
    case True
    let ?ss = "map (\<lambda>i. rule_spec t (?cur ! i) (ch_rules ch ! i)) [length rs..<length ?cur]"
    have "List.map_filter ?f [?m..<?n] = map (\<lambda>s. ''-A '' @ c @ '' '' @ s) ?ss"
    proof -
      have "[?m..<?n] = [length rs..<length ?cur]" using True by (simp add: min_def max_def)
      moreover have "List.map_filter ?f [length rs..<length ?cur] = map (\<lambda>i. ''-A '' @ c @ '' '' @ rule_spec t (?cur ! i) (ch_rules ch ! i)) [length rs..<length ?cur]"
        by (rule map_filter_Some) (simp add: delta_line_def RenderAppend_spec)
      ultimately show ?thesis by simp
    qed
    then have "writes norm (delta_lines t c ch (map (hash_of ?p) rs)) c rs (rs1 @ map norm ?ss)"
      using split writes_append [OF rs1(1) writes_appends [OF assms(2), of norm ?ss rs1]] by (simp only:)
    moreover have "map (hash_of ?p) (map norm ?ss) = map ((!) ?cur) [length rs..<length ?cur]"
      using hash_of_rule_spec [OF assms(1), of _ "tb_opt t" ch] by (auto simp del: length_RuleHashes)
    then have "map (hash_of ?p) (rs1 @ map norm ?ss) = take ?m ?cur @ drop (length rs) ?cur"
      using rs1 True by (simp add: map_nth_drop min_def del: length_RuleHashes)
    ultimately show ?thesis using True by (metis append_take_drop_id min.absorb1)
  next
    case False
    have "List.map_filter ?f [?m..<?n] = map (\<lambda>_. ''-D '' @ c @ '' '' @ dec_string (Suc (length ?cur))) [length ?cur..<length rs]"
    proof -
      have "[?m..<?n] = [length ?cur..<length rs]" using False by (simp add: min_def max_def)
      moreover have "List.map_filter ?f [length ?cur..<length rs] = map (\<lambda>_. ''-D '' @ c @ '' '' @ dec_string (Suc (length ?cur))) [length ?cur..<length rs]"
        by (rule map_filter_Some) (use renderDeleteByIndexLine_spec [of c "length ?cur"] in \<open>simp add: delta_line_def\<close>)
      ultimately show ?thesis by simp
    qed
    then have "List.map_filter ?f [?m..<?n] = replicate (length rs - length ?cur) (''-D '' @ c @ '' '' @ dec_string (Suc (length ?cur)))"
      by (simp add: map_replicate_const)
    moreover have "length ?cur + (length rs - length ?cur) \<le> length rs1" using False rs1(2) by simp
    ultimately have "writes norm (delta_lines t c ch (map (hash_of ?p) rs)) c rs (take (length ?cur) rs1 @ drop (length ?cur + (length rs - length ?cur)) rs1)"
      using split writes_append [OF rs1(1) writes_delete_nums [OF assms(2)]] by (simp only:)
    then show ?thesis using rs1 False by (intro exI [of _ "take (length ?cur) rs1"]) (simp add: min_def)
  qed
qed

end
