(* ===== verification/IptPlan.thy ===== *)
theory IptPlan
  imports IptExec
begin

text \<open>
  The whole input of an update: the lines for the chains we insert into, the iterations over the dirty chains, the
  transactions of the buffer, and what their execution leaves in the kernel.
\<close>

section \<open>A chain we insert into\<close>

definition is_ours :: "string \<Rightarrow> string \<Rightarrow> bool" where
  "is_ours p r \<longleftrightarrow> find_hash p r \<noteq> None"

definition foreign :: "string \<Rightarrow> string list \<Rightarrow> string list" where
  "foreign p rs = filter (\<lambda>r. \<not> is_ours p r) rs"

lemma hash_of_Nil [simp]: "hash_of p r = [] \<longleftrightarrow> \<not> is_ours p r"
  using find_hash_not_Nil by (auto simp: hash_of_def is_ours_def split: option.split)

lemma numEmptyStrings_hashes: "numEmptyStrings (map (hash_of p) rs) = length (foreign p rs)"
  by (simp add: numEmptyStrings_def foreign_def filter_map o_def)

lemma hashes_foreign: "map (hash_of p) (foreign p rs) = replicate (length (foreign p rs)) []"
  by (induction rs) (auto simp: foreign_def)

lemma foreign_simps [simp]: "foreign p (xs @ ys) = foreign p xs @ foreign p ys" "foreign p (foreign p rs) = foreign p rs"
  by (simp_all add: foreign_def)

lemma filter_nth: "map ((!) xs) (filter (\<lambda>i. P (xs ! i)) [0..<length xs]) = filter P xs"
proof -
  have "filter P xs = filter P (map ((!) xs) [0..<length xs])" by (simp add: map_nth)
  then show ?thesis by (simp add: filter_map o_def)
qed

lemma delete_ours_lines:
  assumes "(\<exists>r\<in>set rs. is_ours p r) \<longrightarrow> map_of (tb_full t) c = Some (map (full_line p c) rs)"
  shows "delete_ours t c (map (hash_of p) rs) = Some (map (\<lambda>r. ''-D '' @ c @ '' '' @ r) (filter (is_ours p) rs))"
proof -
  let ?is = "filter (\<lambda>i. is_ours p (rs ! i)) [0..<length rs]"
  have line: "renderDeleteByValueLine t c i = Some (''-D '' @ c @ '' '' @ rs ! i)" if "i \<in> set ?is" for i
  proof -
    have i: "i < length rs" "is_ours p (rs ! i)" using that by auto
    then have "map_of (tb_full t) c = Some (map (full_line p c) rs)" using assms nth_mem by blast
    then show ?thesis using i by (simp add: renderDeleteByValueLine_def full_line_def is_ours_def rule_line_def)
  qed
  have "filter (\<lambda>i. map (hash_of p) rs ! i \<noteq> []) [0..<length (map (hash_of p) rs)] = ?is"
    by (auto intro!: filter_cong)
  moreover have "map (renderDeleteByValueLine t c) ?is = map (\<lambda>i. Some (''-D '' @ c @ '' '' @ rs ! i)) ?is"
    by (rule map_cong [OF refl line])
  then have "map (renderDeleteByValueLine t c) ?is = map Some (map (\<lambda>r. ''-D '' @ c @ '' '' @ r) (map ((!) rs) ?is))" by simp
  moreover have "map ((!) rs) ?is = filter (is_ours p) rs" by (rule filter_nth)
  ultimately have "map (renderDeleteByValueLine t c) (filter (\<lambda>i. map (hash_of p) rs ! i \<noteq> []) [0..<length (map (hash_of p) rs)]) =
      map Some (map (\<lambda>r. ''-D '' @ c @ '' '' @ r) (filter (is_ours p) rs))" by (simp only:)
  moreover have "None \<notin> set (map Some xs) \<and> map the (map Some xs) = xs" for xs :: "string list" by (induction xs) auto
  ultimately show ?thesis unfolding delete_ours_def Let_def by (simp only: if_False)
qed

text \<open>The rules to write, with their hashes.\<close>

definition spec_list :: "table \<Rightarrow> rule list \<Rightarrow> string list \<Rightarrow> string list" where
  "spec_list t rules hs = map (\<lambda>(r, h). rule_spec t h r) (zip rules hs)"

definition insert_lines :: "table \<Rightarrow> string \<Rightarrow> string list \<Rightarrow> string list" where
  "insert_lines t c rs =
     (case expectedHashesForInsertAppendChain t c (length (foreign (tb_hash_prefix t) rs)) of (_, ih, ah) \<Rightarrow>
      map (\<lambda>r. ''-D '' @ c @ '' '' @ r) (filter (is_ours (tb_hash_prefix t)) rs) @
      (if op_insert_mode (tb_opt t) = ''insert'' then map (\<lambda>s. ''-I '' @ c @ '' '' @ s) (rev (spec_list t (tb_inserted t c) ih))
       else map (\<lambda>s. ''-A '' @ c @ '' '' @ s) (spec_list t (tb_inserted t c) ih)) @
      map (\<lambda>s. ''-A '' @ c @ '' '' @ s) (spec_list t (tb_appended t c) ah))"

lemma spec_list_hashes:
  assumes "saved_form (tb_hash_prefix t) norm" "length hs = length rules" "set hs \<subseteq> set (RuleHashes opt ch)"
  shows "map (hash_of (tb_hash_prefix t)) (map norm (spec_list t rules hs)) = hs"
    and "foreign (tb_hash_prefix t) (map norm (spec_list t rules hs)) = []"
proof -
  have h: "hash_of (tb_hash_prefix t) (norm (rule_spec t h r)) = h" if "h \<in> set hs" for h r
    using hash_of_rule_spec [OF assms(1)] that assms(3) by blast
  show *: "map (hash_of (tb_hash_prefix t)) (map norm (spec_list t rules hs)) = hs"
    using h assms(2) by (auto simp: spec_list_def intro!: nth_equalityI)
  have "[] \<notin> set hs" using assms(3) RuleHashes_words [of "[]" opt ch] by auto
  then have "is_ours (tb_hash_prefix t) s" if "s \<in> set (map norm (spec_list t rules hs))" for s
    using that * by (metis hash_of_Nil image_eqI list.set_map)
  then show "foreign (tb_hash_prefix t) (map norm (spec_list t rules hs)) = []" by (simp add: foreign_def filter_empty_conv)
qed

lemma expected_hashes:
  assumes "expectedHashesForInsertAppendChain t c n = (all, ih, ah)"
  shows "length ih = length (tb_inserted t c)" "length ah = length (tb_appended t c)"
    "\<exists>ch. set ih \<subseteq> set (RuleHashes (tb_opt t) ch)" "\<exists>ch. set ah \<subseteq> set (RuleHashes (tb_opt t) ch)"
    "all = (if op_insert_mode (tb_opt t) = ''append'' then replicate n [] @ ih else ih @ replicate n []) @ ah"
  using assms by (auto simp: expectedHashesForInsertAppendChain_def Let_def calculateRuleHashes_def split: if_splits)

lemma insert_lines_exact:
  assumes sf: "saved_form (tb_hash_prefix t) norm" and c: "valid_chain c" and rs: "\<forall>r\<in>set rs. norm r = r"
    and mode: "op_insert_mode (tb_opt t) \<in> {''insert'', ''append''}"
  shows "\<exists>rs'. writes norm (insert_lines t c rs) c rs rs' \<and> foreign (tb_hash_prefix t) rs' = foreign (tb_hash_prefix t) rs \<and>
    map (hash_of (tb_hash_prefix t)) rs' = fst (expectedHashesForInsertAppendChain t c (length (foreign (tb_hash_prefix t) rs)))"
proof -
  let ?p = "tb_hash_prefix t"
  obtain all ih ah where e: "expectedHashesForInsertAppendChain t c (length (foreign ?p rs)) = (all, ih, ah)" by (metis prod_cases3)
  let ?I = "spec_list t (tb_inserted t c) ih" and ?A = "spec_list t (tb_appended t c) ah"
  have dash: "is_ours ?p r \<Longrightarrow> CHR ''-'' \<in> set r" for r using find_hash_dash by (auto simp: is_ours_def)
  have del: "writes norm (map (\<lambda>r. ''-D '' @ c @ '' '' @ r) (filter (is_ours ?p) rs)) c rs (foreign ?p rs)"
    using writes_deletes [OF c, of rs norm "is_ours ?p"] rs dash by (simp add: foreign_def)
  have word: "\<forall>s\<in>set (rev ?I). CHR ''-'' \<in> set (first_word s)" using first_word_rule_spec by (auto simp: spec_list_def)
  have I: "map (hash_of ?p) (map norm ?I) = ih" "foreign ?p (map norm ?I) = []"
    using spec_list_hashes [OF sf expected_hashes(1) [OF e]] expected_hashes(3) [OF e] by blast+
  have A: "map (hash_of ?p) (map norm ?A) = ah" "foreign ?p (map norm ?A) = []"
    using spec_list_hashes [OF sf expected_hashes(2) [OF e]] expected_hashes(4) [OF e] by blast+
  show ?thesis
  proof (cases "op_insert_mode (tb_opt t) = ''insert''")
    case True
    have "writes norm (insert_lines t c rs) c rs (map norm ?I @ foreign ?p rs @ map norm ?A)"
      using writes_append [OF writes_append [OF del writes_inserts [OF c word]] writes_appends [OF c, of norm ?A]]
      by (simp add: insert_lines_def e True rev_map)
    moreover have "map (hash_of ?p) (map norm ?I @ foreign ?p rs @ map norm ?A) = all"
      using I A expected_hashes(5) [OF e] True by (simp add: hashes_foreign)
    ultimately show ?thesis using I A e by (intro exI [of _ "map norm ?I @ foreign ?p rs @ map norm ?A"]) simp
  next
    case False
    have "writes norm (insert_lines t c rs) c rs (foreign ?p rs @ map norm ?I @ map norm ?A)"
      using writes_append [OF writes_append [OF del writes_appends [OF c, of norm ?I]] writes_appends [OF c, of norm ?A]]
      by (simp add: insert_lines_def e False)
    moreover have "map (hash_of ?p) (foreign ?p rs @ map norm ?I @ map norm ?A) = all"
      using I A expected_hashes(5) [OF e] False mode by (simp add: hashes_foreign)
    ultimately show ?thesis using I A e by (intro exI [of _ "foreign ?p rs @ map norm ?I @ map norm ?A"]) simp
  qed
qed

section \<open>The iterations\<close>

definition skipped :: "table \<Rightarrow> string \<Rightarrow> bool" where
  "skipped t c \<longleftrightarrow> tb_nft t \<and> lookup_list (tb_hashes t) c \<noteq> [] \<and>
     map_option (RuleHashes (tb_opt t)) (desiredStateOfChain t c) = map_of (tb_hashes t) c"

definition flushed :: "table \<Rightarrow> string \<Rightarrow> bool" where
  "flushed t c \<longleftrightarrow> (if tb_nft t then \<not> skipped t c else desiredStateOfChain t c = None \<or> map_of (tb_hashes t) c = None)"

lemma forward_visit_eq: "forward_visit t c out =
    (if skipped t c then RemoveItem else IterNil, if flushed t c then out @ [c] else out)"
  by (auto simp: forward_visit_def skipped_def flushed_def Let_def map_option_case split: option.splits)

lemma iter_forward: "iter_loop (forward_visit t) xs s out =
    (filter (\<lambda>c. \<not> (c \<in> set xs \<and> skipped t c)) s, out @ filter (flushed t) xs)"
proof (induction xs arbitrary: s out)
  case (Cons x xs)
  show ?case
  proof (cases "skipped t x")
    case True
    then have "iter_loop (forward_visit t) (x # xs) s out = iter_loop (forward_visit t) xs (set_Discard x s) (if flushed t x then out @ [x] else out)"
      by (simp add: forward_visit_eq)
    moreover have "filter (\<lambda>c. \<not> (c \<in> set xs \<and> skipped t c)) (set_Discard x s) = filter (\<lambda>c. \<not> (c \<in> set (x # xs) \<and> skipped t c)) s"
      using True by (auto simp: set_Discard_def removeAll_filter_not_eq intro!: filter_cong)
    ultimately show ?thesis using Cons by simp
  next
    case False
    then have "filter (\<lambda>c. \<not> (c \<in> set xs \<and> skipped t c)) s = filter (\<lambda>c. \<not> (c \<in> set (x # xs) \<and> skipped t c)) s"
      by (auto intro!: filter_cong)
    then show ?thesis using Cons False by (simp add: forward_visit_eq)
  qed
qed simp

definition previous_hashes :: "table \<Rightarrow> string \<Rightarrow> string list" where
  "previous_hashes t c = (if tb_nft t then [] else lookup_list (tb_hashes t) c)"

definition update_lines :: "table \<Rightarrow> string \<Rightarrow> string list" where
  "update_lines t c = (case desiredStateOfChain t c of None \<Rightarrow> [] | Some ch \<Rightarrow> delta_lines t c ch (previous_hashes t c))"

definition update_hash :: "table \<Rightarrow> string \<Rightarrow> (string \<times> string list option) list \<Rightarrow> (string \<times> string list option) list" where
  "update_hash t c nh = (case desiredStateOfChain t c of None \<Rightarrow> nh | Some ch \<Rightarrow> AList.update c (Some (RuleHashes (tb_opt t) ch)) nh)"

lemma iter_update: "iter_loop (update_visit t) xs s (out, nh) = (s, out @ concat (map (update_lines t) xs), fold (update_hash t) xs nh)"
  by (induction xs arbitrary: out nh)
    (auto simp: update_visit_def update_lines_def update_hash_def previous_hashes_def split: option.split)

lemma map_of_update_hash: "map_of (fold (update_hash t) xs nh) c =
    (if c \<in> set xs \<and> desiredStateOfChain t c \<noteq> None then Some (map_option (RuleHashes (tb_opt t)) (desiredStateOfChain t c)) else map_of nh c)"
  by (induction xs arbitrary: nh) (auto simp: update_hash_def update_conv' split: option.split)

lemma iter_gone: "iter_loop (gone_visit t) xs s out = (s, out @ filter (\<lambda>c. desiredStateOfChain t c = None) xs)"
  by (induction xs arbitrary: out) (auto simp: gone_visit_def)

text \<open>The chains we insert into, on a table that agrees with the kernel.\<close>

definition in_place :: "table \<Rightarrow> string \<Rightarrow> string list \<Rightarrow> bool" where
  "in_place t c rs \<longleftrightarrow> fst (expectedHashesForInsertAppendChain t c (length (foreign (tb_hash_prefix t) rs))) = map (hash_of (tb_hash_prefix t)) rs"

definition inserts_of :: "table \<Rightarrow> kernel \<Rightarrow> string \<Rightarrow> string list" where
  "inserts_of t K c = (let rs = the (map_of K c) in if in_place t c rs then [] else insert_lines t c rs)"

lemma insert_visit_line:
  assumes "hashes_agree t K" "full_ok t K c" "\<not> our_chain t c" "map_of K c = Some rs"
  shows "\<exists>st'. insert_visit t c st = (IterNil, st') \<and> is_failed st' = is_failed st \<and>
    (distinct (map fst (is_hashes st)) \<longrightarrow> distinct (map fst (is_hashes st'))) \<and>
    is_lines st' = is_lines st @ inserts_of t K c \<and>
    map_of (is_hashes st') = (if in_place t c rs then map_of (is_hashes st)
      else (map_of (is_hashes st))(c \<mapsto> Some (fst (expectedHashesForInsertAppendChain t c (length (foreign (tb_hash_prefix t) rs))))))"
proof -
  let ?p = "tb_hash_prefix t"
  have prev: "map_of (tb_hashes t) c = Some (map (hash_of ?p) rs)" using assms(1,4) by (simp add: hashes_agree_def)
  then have lk: "lookup_list (tb_hashes t) c = map (hash_of ?p) rs" by (simp add: lookup_list_def)
  obtain all ih ah where e: "expectedHashesForInsertAppendChain t c (length (foreign ?p rs)) = (all, ih, ah)" by (metis prod_cases3)
  have del: "delete_ours t c (map (hash_of ?p) rs) = Some (map (\<lambda>r. ''-D '' @ c @ '' '' @ r) (filter (is_ours ?p) rs))"
    using assms(2-4) by (intro delete_ours_lines) (auto simp: full_ok_def is_ours_def)
  show ?thesis
  proof (cases "in_place t c rs")
    case True
    then have "insert_visit t c st = (IterNil, st)"
      using e by (simp add: insert_visit_def lk prev numEmptyStrings_hashes in_place_def Let_def)
    then show ?thesis using True assms(4) by (simp add: inserts_of_def)
  next
    case False
    then have "all \<noteq> map (hash_of ?p) rs" using e by (simp add: in_place_def)
    then show ?thesis using False assms(4)
      by (auto simp: insert_visit_def lk prev numEmptyStrings_hashes Let_def e del inserts_of_def insert_lines_def spec_list_def
          RenderInsert_spec RenderAppend_spec rev_map update_conv' comp_def case_prod_unfold distinct_update)
  qed
qed

end
