(* ===== verification/IptUpdate.thy ===== *)
theory IptUpdate
  imports IptPlan
begin

text \<open>
  One update of the kernel: the lines of all phases in their transactions, the execution of the whole input, and the
  agreement of the kernel with the table afterwards.
\<close>

section \<open>Several chains\<close>

lemma exec_forwards:
  assumes "list_all valid_chain cs"
  shows "\<exists>W'. exec_lines norm (map (\<lambda>c. '':'' @ c @ '' - -'') cs) W = Some W' \<and> map_of W' = (\<lambda>c. if c \<in> set cs then Some [] else map_of W c)"
  using assms
proof (induction cs arbitrary: W)
  case (Cons c cs)
  have "exec_line norm ('':'' @ c @ '' - -'') W = Some (AList.update c [] W)" using Cons.prems by (intro exec_declare) simp
  moreover obtain W' where "exec_lines norm (map (\<lambda>c. '':'' @ c @ '' - -'') cs) (AList.update c [] W) = Some W'"
      "map_of W' = (\<lambda>k. if k \<in> set cs then Some [] else map_of (AList.update c [] W) k)"
    using Cons by force
  ultimately show ?case by (intro exI [of _ W']) (auto simp: update_conv')
qed auto

lemma exec_gone:
  assumes "list_all valid_chain cs" "distinct cs" "\<forall>c\<in>set cs. map_of W c = Some []"
  shows "\<exists>W'. exec_lines norm (map (\<lambda>c. ''--delete-chain '' @ c) cs) W = Some W' \<and> map_of W' = (\<lambda>c. if c \<in> set cs then None else map_of W c)"
  using assms
proof (induction cs arbitrary: W)
  case (Cons c cs)
  have "exec_line norm (''--delete-chain '' @ c) W = Some (AList.delete c W)" using Cons.prems by (intro exec_delete_chain) simp_all
  moreover have "\<forall>k\<in>set cs. map_of (AList.delete c W) k = Some []" using Cons.prems by (auto simp: delete_conv')
  then obtain W' where "exec_lines norm (map (\<lambda>c. ''--delete-chain '' @ c) cs) (AList.delete c W) = Some W'"
      "map_of W' = (\<lambda>k. if k \<in> set cs then None else map_of (AList.delete c W) k)"
    using Cons.IH [of "AList.delete c W"] Cons.prems by auto
  ultimately show ?case by (intro exI [of _ W']) (auto simp: delete_conv')
qed auto

text \<open>Writing chains one after the other.\<close>

lemma exec_chains:
  assumes "distinct xs" "\<forall>c\<in>set xs. \<exists>rs rs'. map_of W c = Some rs \<and> writes norm (f c) c rs rs' \<and> Q c rs'"
  shows "\<exists>W'. exec_lines norm (concat (map f xs)) W = Some W' \<and> (\<forall>c\<in>set xs. \<exists>rs'. map_of W' c = Some rs' \<and> Q c rs') \<and>
    (\<forall>c. c \<notin> set xs \<longrightarrow> map_of W' c = map_of W c)"
  using assms
proof (induction xs arbitrary: W)
  case (Cons x xs)
  obtain rs rs' where x: "map_of W x = Some rs" "writes norm (f x) x rs rs'" "Q x rs'" using Cons.prems(2) by auto
  then obtain W1 where W1: "exec_lines norm (f x) W = Some W1" "map_of W1 = (map_of W)(x \<mapsto> rs')" by (auto simp: writes_def)
  have "\<forall>c\<in>set xs. map_of W1 c = map_of W c" using Cons.prems(1) W1(2) by auto
  then obtain W' where W': "exec_lines norm (concat (map f xs)) W1 = Some W'" "\<forall>c\<in>set xs. \<exists>rs'. map_of W' c = Some rs' \<and> Q c rs'"
      "\<forall>c. c \<notin> set xs \<longrightarrow> map_of W' c = map_of W1 c"
    using Cons.IH [of W1] Cons.prems by auto
  moreover have "map_of W' x = Some rs'" using W'(3) W1(2) Cons.prems(1) by simp
  ultimately show ?case using W1 x(3) by (intro exI [of _ W']) (auto simp: exec_lines_append)
qed auto

section \<open>Transactions\<close>

definition transaction :: "string \<Rightarrow> string list \<Rightarrow> string list" where
  "transaction nm ls = (if ls = [] then [] else [CHR ''*'' # nm] @ ls @ [''COMMIT''])"

lemma restore_lines: "exec_lines norm ls W = Some W' \<Longrightarrow> restore_run nm norm (ls @ rest) (Some W) K = restore_run nm norm rest (Some W') K"
proof (induction ls arbitrary: W)
  case (Cons l ls)
  obtain cmd W1 where l: "parse_command l = Some cmd" "exec_command norm cmd W = Some W1" "exec_lines norm ls W1 = Some W'"
    using Cons.prems by (auto simp: exec_line_def split: option.splits)
  then have "restore_run nm norm ((l # ls) @ rest) (Some W) K = restore_run nm norm (ls @ rest) (Some W1) K" by (cases cmd) auto
  then show ?case using Cons.IH l(3) by simp
qed simp

lemma restore_transaction:
  assumes "exec_lines norm ls K = Some W"
  shows "restore_run nm norm (transaction nm ls @ rest) None K = restore_run nm norm rest None W"
  using assms restore_lines [OF assms, of nm "[''COMMIT''] @ rest" K] by (auto simp: transaction_def parse_open parse_commit)

definition buffer_lines :: "restore_buffer \<Rightarrow> string list \<Rightarrow> restore_buffer" where
  "buffer_lines b ls = (if ls = [] then b
     else b\<lparr>rb_lines := rb_lines b @ (if rb_opened b then [] else [CHR ''*'' # rb_table b]) @ ls, rb_opened := True\<rparr>)"

lemma buffer_lines_append [simp]: "buffer_lines (buffer_lines b xs) ys = buffer_lines b (xs @ ys)"
  by (simp add: buffer_lines_def)

lemma buffer_lines_table [simp]: "rb_table (buffer_lines b xs) = rb_table b"
  by (simp add: buffer_lines_def)

lemma write_all_lines: "rb_table b \<noteq> [] \<Longrightarrow> write_all WriteLine ls b = (Ok (buffer_lines b ls) :: (ipt_err, restore_buffer) outcome)"
proof (induction ls arbitrary: b)
  case (Cons l ls)
  have "WriteLine l b = (Ok (buffer_lines b [l]) :: (ipt_err, restore_buffer) outcome)"
    using Cons.prems by (simp add: WriteLine_def maybeWriteTransactionOpener_def writeFormattedLine_def buffer_lines_def)
  then show ?case using Cons.IH [of "buffer_lines b _"] Cons.prems by simp
qed (simp add: buffer_lines_def)

lemma write_all_forwards: "rb_table b \<noteq> [] \<Longrightarrow> write_all WriteForwardReference cs b = (Ok (buffer_lines b (map (\<lambda>c. '':'' @ c @ '' - -'') cs)) :: (ipt_err, restore_buffer) outcome)"
proof (induction cs arbitrary: b)
  case (Cons c cs)
  have "WriteForwardReference c b = (Ok (buffer_lines b ['':'' @ c @ '' - -'']) :: (ipt_err, restore_buffer) outcome)"
    using Cons.prems by (simp add: WriteForwardReference_def maybeWriteTransactionOpener_def writeFormattedLine_def buffer_lines_def)
  then show ?case using Cons.IH [of "buffer_lines b _"] Cons.prems by simp
qed (simp add: buffer_lines_def)

lemma EndTransaction_lines:
  assumes "rb_table b = nm" "nm \<noteq> []" "\<not> rb_opened b"
  shows "\<exists>b'. EndTransaction (buffer_lines b ls) = (Ok b' :: (ipt_err, restore_buffer) outcome) \<and> rb_lines b' = rb_lines b @ transaction nm ls \<and> rb_table b' = []"
  using assms by (auto simp: EndTransaction_def buffer_lines_def transaction_def writeFormattedLine_def)

section \<open>The phases of an update\<close>

text \<open>The assumptions on the table: its dirty chains of ours have valid names, the chains it inserts into exist, rules are on one line.\<close>

definition table_fits :: "table \<Rightarrow> kernel \<Rightarrow> bool" where
  "table_fits t K \<longleftrightarrow> tb_name t \<noteq> [] \<and> CHR 0x0A \<notin> set (tb_name t) \<and> CHR 0x0A \<notin> set (tb_hash_prefix t) \<and>
     op_insert_mode (tb_opt t) \<in> {''insert'', ''append''} \<and> distinct (tb_dirty t) \<and> distinct (tb_dirty_ins t) \<and>
     (\<forall>c\<in>set (tb_dirty t). our_chain t c \<and> valid_chain c) \<and>
     (\<forall>c\<in>set (tb_dirty_ins t). \<not> our_chain t c \<and> map_of K c \<noteq> None) \<and>
     (\<forall>k. \<forall>r\<in>set (table_rules t k). one_line (tb_opt t) r)"

text \<open>The rules of others in a chain are kept in their order, and ours are the expected ones.\<close>

definition refreshed :: "table \<Rightarrow> string \<Rightarrow> string list \<Rightarrow> string list \<Rightarrow> bool" where
  "refreshed t c rs rs' \<longleftrightarrow> foreign (tb_hash_prefix t) rs' = foreign (tb_hash_prefix t) rs \<and>
     map (hash_of (tb_hash_prefix t)) rs' = fst (expectedHashesForInsertAppendChain t c (length (foreign (tb_hash_prefix t) rs)))"

definition gone :: "table \<Rightarrow> string \<Rightarrow> bool" where
  "gone t c \<longleftrightarrow> desiredStateOfChain t c = None"

definition visited :: "table \<Rightarrow> string list" where
  "visited t = filter (\<lambda>c. \<not> skipped t c) (tb_dirty t)"

definition first_body :: "orders \<Rightarrow> table \<Rightarrow> kernel \<Rightarrow> string list" where
  "first_body ord t K = map (\<lambda>c. '':'' @ c @ '' - -'') (filter (flushed t) (ord 0 (tb_dirty t))) @
     concat (map (update_lines t) (ord 1 (visited t))) @ concat (map (inserts_of t K) (ord 2 (tb_dirty_ins t)))"

definition changed :: "table \<Rightarrow> kernel \<Rightarrow> kernel \<Rightarrow> bool" where
  "changed t K W \<longleftrightarrow>
     (\<forall>c\<in>set (visited t). \<not> gone t c \<longrightarrow> (\<exists>rs. map_of W c = Some rs \<and>
        Some (map (hash_of (tb_hash_prefix t)) rs) = map_option (RuleHashes (tb_opt t)) (desiredStateOfChain t c))) \<and>
     (\<forall>c\<in>set (tb_dirty_ins t). \<exists>rs rs'. map_of K c = Some rs \<and> map_of W c = Some rs' \<and> refreshed t c rs rs') \<and>
     (\<forall>c. c \<notin> set (visited t) \<longrightarrow> c \<notin> set (tb_dirty_ins t) \<longrightarrow> map_of W c = map_of K c)"

lemma update_lines_exact:
  assumes "saved_form (tb_hash_prefix t) norm" "valid_chain c" "\<not> gone t c" "map (hash_of (tb_hash_prefix t)) rs = previous_hashes t c"
  shows "\<exists>rs'. writes norm (update_lines t c) c rs rs' \<and>
    Some (map (hash_of (tb_hash_prefix t)) rs') = map_option (RuleHashes (tb_opt t)) (desiredStateOfChain t c)"
proof -
  obtain ch where ch: "desiredStateOfChain t c = Some ch" using assms(3) by (auto simp: gone_def)
  have l: "update_lines t c = delta_lines t c ch (map (hash_of (tb_hash_prefix t)) rs)" using ch assms(4) by (simp add: update_lines_def)
  show ?thesis using delta_lines_exact [OF assms(1,2), of ch rs] by (simp add: l ch)
qed

lemma inserts_of_exact:
  assumes "saved_form (tb_hash_prefix t) norm" "kernel_ok norm K" "map_of K c = Some rs" "op_insert_mode (tb_opt t) \<in> {''insert'', ''append''}"
  shows "\<exists>rs'. writes norm (inserts_of t K c) c rs rs' \<and> refreshed t c rs rs'"
proof (cases "in_place t c rs")
  case True
  then show ?thesis using assms(3) by (auto simp: inserts_of_def refreshed_def in_place_def intro!: exI [of _ rs] writes_Nil)
next
  case False
  have "(c, rs) \<in> set K" using assms(3) by (rule map_of_SomeD)
  then have "valid_chain c" "\<forall>r\<in>set rs. norm r = r" using assms(2) by (auto simp: kernel_ok_def list_all_iff)
  then show ?thesis using insert_lines_exact [OF assms(1) _ _ assms(4)] False assms(3) by (simp add: inserts_of_def refreshed_def)
qed

lemma first_body_exec:
  assumes ord: "\<And>n. map_iteration (ord n)" and sf: "saved_form (tb_hash_prefix t) norm" and K: "kernel_ok norm K"
    and ag: "hashes_agree t K" and fits: "table_fits t K"
  shows "\<exists>W. exec_lines norm (first_body ord t K) K = Some W \<and> changed t K W \<and> (\<forall>c\<in>set (visited t). gone t c \<longrightarrow> map_of W c = Some [])"
proof -
  let ?p = "tb_hash_prefix t"
  let ?fs = "filter (flushed t) (ord 0 (tb_dirty t))" and ?us = "filter (\<lambda>c. \<not> gone t c) (ord 1 (visited t))" and ?is = "ord 2 (tb_dirty_ins t)"
  let ?Q = "\<lambda>c rs'. Some (map (hash_of ?p) rs') = map_option (RuleHashes (tb_opt t)) (desiredStateOfChain t c)"
  let ?R = "\<lambda>c rs'. \<exists>rs. map_of K c = Some rs \<and> refreshed t c rs rs'"
  note sv = map_iteration.set_visits [OF ord] and dv = map_iteration.distinct_visits [OF ord]
  have vs: "set (visited t) \<subseteq> set (tb_dirty t)" "distinct (visited t)" using fits by (auto simp: visited_def table_fits_def)
  have disj: "c \<notin> set (tb_dirty t)" if "c \<in> set (tb_dirty_ins t)" for c using fits that by (auto simp: table_fits_def)
  have "list_all valid_chain ?fs" using fits by (auto simp: sv list_all_iff table_fits_def)
  then obtain W1 where W1: "exec_lines norm (map (\<lambda>c. '':'' @ c @ '' - -'') ?fs) K = Some W1"
      "map_of W1 = (\<lambda>c. if c \<in> set ?fs then Some [] else map_of K c)"
    using exec_forwards [of ?fs norm K] by blast
  have "\<exists>rs rs'. map_of W1 c = Some rs \<and> writes norm (update_lines t c) c rs rs' \<and>
      ?Q c rs'" if c: "c \<in> set ?us" for c
  proof -
    have c': "c \<in> set (tb_dirty t)" "\<not> skipped t c" "\<not> gone t c" "valid_chain c" using c fits by (auto simp: sv visited_def table_fits_def)
    have "\<exists>rs. map_of W1 c = Some rs \<and> map (hash_of ?p) rs = previous_hashes t c"
      using c' ag by (auto simp: W1(2) sv flushed_def previous_hashes_def gone_def hashes_agree_def lookup_list_def split: option.split)
    then show ?thesis using update_lines_exact [OF sf c'(4,3)] by blast
  qed
  moreover have "distinct ?us" using vs(2) by (simp add: dv)
  ultimately obtain W2 where W2: "exec_lines norm (concat (map (update_lines t) ?us)) W1 = Some W2"
      "\<forall>c\<in>set ?us. \<exists>rs'. map_of W2 c = Some rs' \<and> ?Q c rs'" "\<forall>c. c \<notin> set ?us \<longrightarrow> map_of W2 c = map_of W1 c"
    using exec_chains [of ?us W1 norm "update_lines t" ?Q] by blast
  have skip: "concat (map (update_lines t) ?us) = concat (map (update_lines t) xs)" if "?us = filter (\<lambda>c. \<not> gone t c) xs" for xs
    unfolding that by (induction xs) (auto simp: gone_def update_lines_def)
  have keep: "map_of W2 c = map_of K c" if "c \<notin> set (tb_dirty t)" for c
    using that vs(1) W2(3) by (auto simp: W1(2) sv)
  have "\<exists>rs rs'. map_of W2 c = Some rs \<and> writes norm (inserts_of t K c) c rs rs' \<and> ?R c rs'" if c: "c \<in> set ?is" for c
  proof -
    obtain rs where rs: "map_of K c = Some rs" using c fits by (auto simp: sv table_fits_def)
    obtain rs' where "writes norm (inserts_of t K c) c rs rs'" "refreshed t c rs rs'"
      using inserts_of_exact [OF sf K rs] fits by (auto simp: table_fits_def)
    then show ?thesis using rs keep [OF disj] c by (auto simp: sv)
  qed
  moreover have "distinct ?is" using fits by (simp add: dv table_fits_def)
  ultimately obtain W3 where W3: "exec_lines norm (concat (map (inserts_of t K) ?is)) W2 = Some W3"
      "\<forall>c\<in>set ?is. \<exists>rs'. map_of W3 c = Some rs' \<and> ?R c rs'" "\<forall>c. c \<notin> set ?is \<longrightarrow> map_of W3 c = map_of W2 c"
    using exec_chains [of ?is W2 norm "inserts_of t K" ?R] by blast
  have "exec_lines norm (first_body ord t K) K = Some W3"
    unfolding first_body_def using W1(1) W2(1) W3(1) skip [OF refl] by (intro exec_lines_appendI) simp_all
  moreover have "changed t K W3"
    unfolding changed_def
  proof (intro conjI ballI allI impI)
    fix c assume c: "c \<in> set (visited t)" "\<not> gone t c"
    then have "map_of W3 c = map_of W2 c" using W3(3) disj vs(1) by (auto simp: sv)
    then show "\<exists>rs. map_of W3 c = Some rs \<and> Some (map (hash_of ?p) rs) = map_option (RuleHashes (tb_opt t)) (desiredStateOfChain t c)"
      using W2(2) c by (simp add: sv)
  next
    fix c assume "c \<in> set (tb_dirty_ins t)"
    then show "\<exists>rs rs'. map_of K c = Some rs \<and> map_of W3 c = Some rs' \<and> refreshed t c rs rs'" using W3(2) by (auto simp: sv)
  next
    fix c assume c: "c \<notin> set (visited t)" "c \<notin> set (tb_dirty_ins t)"
    then have "map_of W3 c = map_of W1 c" using W3(3) W2(3) by (simp add: sv)
    moreover have "c \<notin> set ?fs" using c(1) by (auto simp: sv visited_def flushed_def skipped_def split: if_splits)
    ultimately show "map_of W3 c = map_of K c" by (auto simp: W1(2))
  qed
  moreover have "map_of W3 c = Some []" if c: "c \<in> set (visited t)" "gone t c" for c
  proof -
    have "c \<notin> set (tb_dirty_ins t)" using disj vs(1) c(1) by blast
    then have "map_of W3 c = map_of W1 c" using W3(3) W2(3) c by (simp add: sv)
    moreover have "c \<in> set ?fs" using c by (auto simp: sv visited_def flushed_def gone_def)
    ultimately show ?thesis by (simp add: W1(2))
  qed
  ultimately show ?thesis by blast
qed

section \<open>The whole input\<close>

definition gone_lines :: "orders \<Rightarrow> table \<Rightarrow> string list" where
  "gone_lines ord t = map (\<lambda>c. ''--delete-chain '' @ c) (filter (gone t) (ord 4 (visited t)))"

definition plan_lines :: "orders \<Rightarrow> table \<Rightarrow> kernel \<Rightarrow> string list" where
  "plan_lines ord t K =
     (if tb_nft t then transaction (tb_name t) (first_body ord t K) @
        transaction (tb_name t) (map (\<lambda>c. '':'' @ c @ '' - -'') (filter (gone t) (ord 3 (visited t))) @ gone_lines ord t)
      else transaction (tb_name t) (first_body ord t K @ gone_lines ord t))"

lemma changed_delete:
  assumes "changed t K W" "map_of W' = (\<lambda>c. if c \<in> set (visited t) \<and> gone t c then None else map_of W c)" "table_fits t K"
  shows "changed t K W'"
proof -
  have "c \<notin> set (visited t)" if "c \<in> set (tb_dirty_ins t)" for c using assms(3) that by (auto simp: table_fits_def visited_def)
  then show ?thesis using assms(1) unfolding changed_def assms(2) by auto
qed

lemma plan_restore:
  assumes ord: "\<And>n. map_iteration (ord n)" and sf: "saved_form (tb_hash_prefix t) norm" and K: "kernel_ok norm K"
    and ag: "hashes_agree t K" and fits: "table_fits t K"
  shows "\<exists>K'. restore_run (tb_name t) norm (plan_lines ord t K) None K = (True, K') \<and> changed t K K' \<and>
    (\<forall>c\<in>set (visited t). gone t c \<longrightarrow> map_of K' c = None)"
proof -
  obtain W where W: "exec_lines norm (first_body ord t K) K = Some W" "changed t K W" "\<forall>c\<in>set (visited t). gone t c \<longrightarrow> map_of W c = Some []"
    using first_body_exec [of ord t norm K, OF assms] by blast
  note sv = map_iteration.set_visits [OF ord] and dv = map_iteration.distinct_visits [OF ord]
  let ?g3 = "filter (gone t) (ord 3 (visited t))" and ?g4 = "filter (gone t) (ord 4 (visited t))"
  have g: "list_all valid_chain ?g3" "list_all valid_chain ?g4" "distinct ?g4" "set ?g3 = set ?g4"
    using fits by (auto simp: sv dv list_all_iff table_fits_def visited_def)
  obtain W1 where W1: "exec_lines norm (map (\<lambda>c. '':'' @ c @ '' - -'') ?g3) W = Some W1" "map_of W1 = (\<lambda>c. if c \<in> set ?g3 then Some [] else map_of W c)"
    using exec_forwards [OF g(1)] by blast
  have same: "map_of W1 = map_of W" using W(3) by (auto simp: W1(2) sv)
  have empty: "\<forall>c\<in>set ?g4. map_of W c = Some []" using W(3) by (auto simp: sv)
  obtain W2 where W2: "exec_lines norm (gone_lines ord t) W = Some W2" "map_of W2 = (\<lambda>c. if c \<in> set ?g4 then None else map_of W c)"
    using exec_gone [OF g(2,3) empty] unfolding gone_lines_def by blast
  obtain W3 where W3: "exec_lines norm (gone_lines ord t) W1 = Some W3" "map_of W3 = (\<lambda>c. if c \<in> set ?g4 then None else map_of W1 c)"
    using exec_gone [OF g(2,3), of W1 norm] empty unfolding gone_lines_def same by blast
  define K' where "K' = (if tb_nft t then W3 else W2)"
  have "restore_run (tb_name t) norm (plan_lines ord t K) None K = (True, K')"
  proof (cases "tb_nft t")
    case True
    have "restore_run (tb_name t) norm (plan_lines ord t K @ []) None K = (True, W3)"
      using True restore_transaction [OF W(1), of "tb_name t"] restore_transaction [OF exec_lines_appendI [OF W1(1) W3(1)], of "tb_name t" "[]"]
      by (simp add: plan_lines_def)
    then show ?thesis using True by (simp add: K'_def)
  next
    case False
    have "restore_run (tb_name t) norm (plan_lines ord t K @ []) None K = (True, W2)"
      using False restore_transaction [OF exec_lines_appendI [OF W(1) W2(1)], of "tb_name t" "[]"] by (simp add: plan_lines_def)
    then show ?thesis using False by (simp add: K'_def)
  qed
  moreover have K': "map_of K' = (\<lambda>c. if c \<in> set (visited t) \<and> gone t c then None else map_of W c)"
    using same by (auto simp: K'_def W2(2) W3(2) sv)
  ultimately show ?thesis using changed_delete [OF W(2) K' fits] by (intro exI [of _ K']) (auto simp: K')
qed

lemma iter_insert:
  assumes "hashes_agree t K" "\<forall>c\<in>set xs. \<not> our_chain t c \<and> map_of K c \<noteq> None \<and> full_ok t K c"
  shows "\<exists>st'. iter_loop (insert_visit t) xs s st = (s, st') \<and> is_failed st' = is_failed st \<and>
    is_lines st' = is_lines st @ concat (map (inserts_of t K) xs) \<and>
    (distinct (map fst (is_hashes st)) \<longrightarrow> distinct (map fst (is_hashes st'))) \<and>
    (\<forall>c. map_of (is_hashes st') c = (if c \<in> set xs \<and> \<not> in_place t c (the (map_of K c))
       then Some (Some (fst (expectedHashesForInsertAppendChain t c (length (foreign (tb_hash_prefix t) (the (map_of K c)))))))
       else map_of (is_hashes st) c))"
  using assms(2)
proof (induction xs arbitrary: st)
  case (Cons x xs)
  obtain rs where rs: "map_of K x = Some rs" using Cons.prems by auto
  obtain st1 where st1: "insert_visit t x st = (IterNil, st1)" "is_failed st1 = is_failed st" "is_lines st1 = is_lines st @ inserts_of t K x"
      "distinct (map fst (is_hashes st)) \<longrightarrow> distinct (map fst (is_hashes st1))"
      "map_of (is_hashes st1) = (if in_place t x rs then map_of (is_hashes st)
        else (map_of (is_hashes st))(x \<mapsto> Some (fst (expectedHashesForInsertAppendChain t x (length (foreign (tb_hash_prefix t) rs))))))"
    using insert_visit_line [OF assms(1) _ _ rs, of st] Cons.prems by auto
  obtain st' where "iter_loop (insert_visit t) xs s st1 = (s, st')" "is_failed st' = is_failed st1"
      "is_lines st' = is_lines st1 @ concat (map (inserts_of t K) xs)"
      "distinct (map fst (is_hashes st1)) \<longrightarrow> distinct (map fst (is_hashes st'))"
      "\<forall>c. map_of (is_hashes st') c = (if c \<in> set xs \<and> \<not> in_place t c (the (map_of K c))
       then Some (Some (fst (expectedHashesForInsertAppendChain t c (length (foreign (tb_hash_prefix t) (the (map_of K c)))))))
       else map_of (is_hashes st1) c)"
    using Cons.IH [of st1] Cons.prems by auto
  then show ?case using st1 rs by (intro exI [of _ st']) auto
qed simp

section \<open>The new hashes\<close>

lemma map_of_store_hashes: "distinct (map fst nh) \<Longrightarrow>
    map_of (store_hashes nh m) c = (case map_of nh c of None \<Rightarrow> map_of m c | Some v \<Rightarrow> v)"
proof (induction nh arbitrary: m)
  case (Cons x nh)
  obtain k v where x: "x = (k, v)" by (cases x)
  have "map_of nh k = None" using Cons.prems by (simp add: x map_of_eq_None_iff)
  then show ?case using Cons by (auto simp: x store_hashes_def update_conv' delete_conv' split: option.splits)
qed (simp add: store_hashes_def)

definition hashes_after :: "table \<Rightarrow> kernel \<Rightarrow> string \<Rightarrow> string list option" where
  "hashes_after t K c =
     (if c \<in> set (visited t) then map_option (RuleHashes (tb_opt t)) (desiredStateOfChain t c)
      else if c \<in> set (tb_dirty_ins t) \<and> \<not> in_place t c (the (map_of K c))
      then Some (fst (expectedHashesForInsertAppendChain t c (length (foreign (tb_hash_prefix t) (the (map_of K c))))))
      else map_of (tb_hashes t) c)"

lemma map_of_gone: "map_of (fold (\<lambda>c. AList.update c None) cs nh) c = (if c \<in> set cs then Some None else map_of nh c)"
  by (induction cs arbitrary: nh) (auto simp: update_conv')

lemma distinct_gone: "distinct (map fst nh) \<Longrightarrow> distinct (map fst (fold (\<lambda>c. AList.update c None) cs nh))"
  by (induction cs arbitrary: nh) (simp_all add: distinct_update)

lemma distinct_update_hash: "distinct (map fst nh) \<Longrightarrow> distinct (map fst (fold (update_hash t) xs nh))"
  by (induction xs arbitrary: nh) (simp_all add: distinct_update update_hash_def split: option.split)

lemma plan_updates_result:
  assumes ord: "\<And>n. map_iteration (ord n)" and ag: "hashes_agree t K" and full: "\<forall>c\<in>set (tb_dirty_ins t). full_ok t K c" and fits: "table_fits t K"
  shows "\<exists>b nh fr. plan_updates ord t = Ok (b, nh, fr) \<and> rb_table b = [] \<and> rb_lines b = plan_lines ord t K \<and>
    (\<forall>c. map_of (store_hashes nh (tb_hashes t)) c = hashes_after t K c)"
proof -
  note sv = map_iteration.set_visits [OF ord]
  let ?nm = "tb_name t" and ?fs = "filter (flushed t) (ord 0 (tb_dirty t))" and ?us = "ord 1 (visited t)"
  let ?g3 = "filter (gone t) (ord 3 (visited t))" and ?g4 = "filter (gone t) (ord 4 (visited t))"
  define b0 where "b0 = rb_Reset\<lparr>rb_table := ?nm, rb_opened := False\<rparr>"
  have b0: "rb_table b0 = ?nm" "\<not> rb_opened b0" "rb_lines b0 = []" "?nm \<noteq> []" using fits by (simp_all add: b0_def rb_Reset_def table_fits_def)
  have start: "StartTransaction ?nm rb_Reset = (Ok b0 :: (ipt_err, restore_buffer) outcome)" by (simp add: StartTransaction_def b0_def rb_Reset_def)
  have fwd: "set_Iter (ord 0) (forward_visit t) (tb_dirty t) [] = (visited t, ?fs)"
    by (simp add: set_Iter_def iter_forward visited_def sv cong: filter_cong)
  have upd: "snd (set_Iter (ord 1) (update_visit t) (visited t) ([], [])) = (concat (map (update_lines t) ?us), fold (update_hash t) ?us [])"
    by (simp add: set_Iter_def iter_update)
  have gn: "snd (set_Iter (ord n) (gone_visit t) (visited t) []) = filter (gone t) (ord n (visited t))" for n
    by (simp add: set_Iter_def iter_gone gone_def [abs_def])
  define st0 where "st0 = \<lparr>is_lines = [], is_hashes = fold (update_hash t) ?us [], is_full = tb_full t, is_failed = False\<rparr>"
  have "\<forall>c\<in>set (ord 2 (tb_dirty_ins t)). \<not> our_chain t c \<and> map_of K c \<noteq> None \<and> full_ok t K c" using fits full by (auto simp: sv table_fits_def)
  from iter_insert [OF ag this, of "tb_dirty_ins t" st0] obtain st1 where
    it: "set_Iter (ord 2) (insert_visit t) (tb_dirty_ins t) st0 = (tb_dirty_ins t, st1)" and ok: "\<not> is_failed st1"
    and ls: "is_lines st1 = concat (map (inserts_of t K) (ord 2 (tb_dirty_ins t)))" and ds: "distinct (map fst (is_hashes st1))"
    and hs: "\<And>c. map_of (is_hashes st1) c = (if c \<in> set (tb_dirty_ins t) \<and> \<not> in_place t c (the (map_of K c))
       then Some (Some (fst (expectedHashesForInsertAppendChain t c (length (foreign (tb_hash_prefix t) (the (map_of K c)))))))
       else map_of (is_hashes st0) c)"
    by (auto simp: set_Iter_def st0_def sv distinct_update_hash)
  have gl: "map ((@) ''--delete-chain '') ?g4 = gone_lines ord t" by (simp only: gone_lines_def)
  define nh where "nh = fold (\<lambda>c. AList.update c None) ?g4 (is_hashes st1)"
  define b1 where "b1 = buffer_lines b0 (first_body ord t K)"
  have b1: "rb_table b1 = ?nm" using b0 by (simp add: b1_def)
  have w: "write_all WriteForwardReference ?fs b0 = (Ok (buffer_lines b0 (map (\<lambda>c. '':'' @ c @ '' - -'') ?fs)) :: (ipt_err, restore_buffer) outcome)"
    using b0 by (intro write_all_forwards) simp
  have tail: "\<exists>b. oc_bind (if tb_nft t
         then oc_bind (EndTransaction b1) (\<lambda>b. oc_bind (StartTransaction ?nm b) (\<lambda>b. write_all WriteForwardReference ?g3 b)) else Ok b1)
       (\<lambda>b. oc_bind (write_all WriteLine (gone_lines ord t) b) (\<lambda>b. EndTransaction b)) = (Ok b :: (ipt_err, restore_buffer) outcome) \<and>
      rb_table b = [] \<and> rb_lines b = plan_lines ord t K"
  proof (cases "tb_nft t")
    case True
    obtain b2 where b2: "EndTransaction b1 = (Ok b2 :: (ipt_err, restore_buffer) outcome)" "rb_lines b2 = transaction ?nm (first_body ord t K)" "rb_table b2 = []"
      using EndTransaction_lines [of b0 ?nm "first_body ord t K"] b0 by (auto simp: b1_def)
    let ?b3 = "b2\<lparr>rb_table := ?nm, rb_opened := False\<rparr>" and ?tl = "map (\<lambda>c. '':'' @ c @ '' - -'') ?g3 @ gone_lines ord t"
    obtain b4 where "EndTransaction (buffer_lines ?b3 ?tl) = (Ok b4 :: (ipt_err, restore_buffer) outcome)" "rb_lines b4 = rb_lines ?b3 @ transaction ?nm ?tl" "rb_table b4 = []"
      using EndTransaction_lines [of ?b3 ?nm ?tl] b0 by auto
    then show ?thesis using True b2 b0 by (simp add: StartTransaction_def write_all_lines write_all_forwards plan_lines_def)
  next
    case False
    obtain b4 where "EndTransaction (buffer_lines b0 (first_body ord t K @ gone_lines ord t)) = (Ok b4 :: (ipt_err, restore_buffer) outcome)"
        "rb_lines b4 = transaction ?nm (first_body ord t K @ gone_lines ord t)" "rb_table b4 = []"
      using EndTransaction_lines [of b0 ?nm] b0 by auto
    then show ?thesis using False b0 b1 by (simp add: write_all_lines b1_def plan_lines_def)
  qed
  then obtain b where b: "oc_bind (if tb_nft t
         then oc_bind (EndTransaction b1) (\<lambda>b. oc_bind (StartTransaction ?nm b) (\<lambda>b. write_all WriteForwardReference ?g3 b)) else Ok b1)
       (\<lambda>b. oc_bind (write_all WriteLine (gone_lines ord t) b) (\<lambda>b. EndTransaction b)) = (Ok b :: (ipt_err, restore_buffer) outcome)"
      "rb_table b = []" "rb_lines b = plan_lines ord t K" by blast
  have "plan_updates ord t = Ok (b, nh, is_full st1)"
    using b(1) b0 gl
    by (cases "tb_nft t") (auto simp: plan_updates_def start fwd upd w write_all_lines gn st0_def [symmetric] it ok ls b1_def first_body_def nh_def Let_def
        simp del: One_nat_def)
  moreover have "map_of (store_hashes nh (tb_hashes t)) c = hashes_after t K c" for c
  proof -
    have d: "c \<in> set (tb_dirty_ins t) \<Longrightarrow> c \<notin> set (visited t)" using fits by (auto simp: table_fits_def visited_def)
    have "distinct (map fst nh)" using ds by (simp add: nh_def distinct_gone)
    then show ?thesis using d
      by (auto simp: map_of_store_hashes nh_def map_of_gone hs st0_def map_of_update_hash sv hashes_after_def gone_def)
  qed
  ultimately show ?thesis using b(2,3) by blast
qed

end
