(* ===== verification/IptSync.thy ===== *)
theory IptSync
  imports IptUpdate
begin

text \<open>
  A table against the kernel: reading it, finding the chains that differ, one update, and \<^verbatim>\<open>Apply\<close> as a whole.
\<close>

section \<open>The input is split into its lines\<close>

lemma input_lines_concat:
  assumes "\<forall>l\<in>set ls. CHR 0x0A \<notin> set l"
  shows "input_lines (concat (map (\<lambda>l. l @ [CHR 0x0A]) ls)) = ls"
proof -
  have "split_on (CHR 0x0A) (concat (map (\<lambda>l. l @ [CHR 0x0A]) ls)) = ls @ [[]]"
    using assms by (induction ls) (simp_all add: split_on_append split_on_nosep)
  then show ?thesis by (simp add: input_lines_def)
qed

definition no_newline :: "string \<Rightarrow> bool" where
  "no_newline s \<longleftrightarrow> CHR 0x0A \<notin> set s"

lemma no_newline_simps [simp]: "no_newline []" "no_newline (a # s) \<longleftrightarrow> a \<noteq> CHR 0x0A \<and> no_newline s" "no_newline (s @ s') \<longleftrightarrow> no_newline s \<and> no_newline s'"
  by (auto simp: no_newline_def)

lemma no_newline_join: "\<forall>x\<in>set xs. no_newline x \<Longrightarrow> no_newline sep \<Longrightarrow> no_newline (join_with sep xs)"
  using set_join_with [of sep xs] by (auto simp: no_newline_def)

lemma no_newline_comment: "no_newline (truncateComment (escapeComment s))"
proof -
  have "no_newline (escapeComment s)" by (auto simp: no_newline_def escapeComment_def shell_safe_def)
  then show ?thesis by (auto simp: truncateComment_def no_newline_def dest: in_set_takeD)
qed

lemma no_newline_dec: "no_newline (dec_string n)"
proof -
  have "digit_char k \<noteq> CHR 0x0A" if "k < 10" for k
    using that dec_digit_char [of k] by (auto simp: dec_digit_def)
  then show ?thesis using set_dec_string [of n] by (force simp: no_newline_def)
qed

lemma no_newline_hash: "h \<in> set (RuleHashes opt ch) \<Longrightarrow> no_newline h"
  using RuleHashes_words [of h opt ch] by (auto simp: no_newline_def list_all_iff hash_char_def)

lemma no_newline_rule_spec:
  assumes "no_newline (tb_hash_prefix t)" "no_newline h" "one_line (tb_opt t) r"
  shows "no_newline (rule_spec t h r)"
  unfolding rule_spec_def renderInner_def Let_def
  by (rule no_newline_join)
    (use assms in \<open>auto simp: commentFrag_def no_newline_comment one_line_def no_newline_def [symmetric] split: if_splits option.splits\<close>)

lemma no_newline_spec_list:
  assumes "no_newline (tb_hash_prefix t)" "\<forall>h\<in>set hs. no_newline h" "\<forall>r\<in>set rules. one_line (tb_opt t) r" "s \<in> set (spec_list t rules hs)"
  shows "no_newline s"
proof -
  obtain r h where "(r, h) \<in> set (zip rules hs)" "s = rule_spec t h r" using assms(4) by (auto simp: spec_list_def)
  then show ?thesis using assms(1-3) set_zip_leftD set_zip_rightD by (metis no_newline_rule_spec)
qed

lemma no_newline_chain: "valid_chain c \<Longrightarrow> no_newline c"
  by (simp add: no_newline_def valid_chain_chars)

lemma no_newline_update_lines:
  assumes "table_fits t K" "valid_chain c" "l \<in> set (update_lines t c)"
  shows "no_newline l"
proof -
  obtain ch where ch: "desiredStateOfChain t c = Some ch" using assms(3) by (cases "desiredStateOfChain t c") (auto simp: update_lines_def)
  then obtain i where l: "delta_line t c ch (previous_hashes t c) (RuleHashes (tb_opt t) ch) i = Some l"
      "i < max (length (previous_hashes t c)) (length (ch_rules ch))"
    using assms(3) by (auto simp: update_lines_def delta_lines_def Let_def set_map_filter)
  have "tb_chains t c = Some ch" using ch by (simp add: desiredStateOfChain_def split: if_splits)
  then have "r \<in> set (table_rules t c)" if "r \<in> set (ch_rules ch)" for r using that by (simp add: table_rules_def)
  then have r: "one_line (tb_opt t) r" if "r \<in> set (ch_rules ch)" for r
    using assms(1) that unfolding table_fits_def by blast
  have p: "no_newline (tb_hash_prefix t)" using assms(1) by (simp add: table_fits_def no_newline_def)
  have spec: "no_newline (rule_spec t (RuleHashes (tb_opt t) ch ! i) (ch_rules ch ! i))" if "i < length (ch_rules ch)"
    using that r p no_newline_hash [of _ "tb_opt t" ch] by (intro no_newline_rule_spec) auto
  show ?thesis using l spec no_newline_chain [OF assms(2)]
    by (auto simp: delta_line_def RenderReplace_spec RenderAppend_spec renderDeleteByIndexLine_spec no_newline_dec split: if_splits)
qed

lemma no_newline_insert_lines:
  assumes "table_fits t K" "kernel_ok norm K" "map_of K c = Some rs" "l \<in> set (insert_lines t c rs)"
  shows "no_newline l"
proof -
  have "(c, rs) \<in> set K" using assms(3) by (rule map_of_SomeD)
  then have c: "valid_chain c" and rs: "\<forall>r\<in>set rs. no_newline r" using assms(2) by (auto simp: kernel_ok_def list_all_iff no_newline_def)
  have p: "no_newline (tb_hash_prefix t)" using assms(1) by (simp add: table_fits_def no_newline_def)
  obtain all ih ah where e: "expectedHashesForInsertAppendChain t c (length (foreign (tb_hash_prefix t) rs)) = (all, ih, ah)" by (metis prod_cases3)
  have nh: "\<forall>h\<in>set ih. no_newline h" "\<forall>h\<in>set ah. no_newline h"
    using expected_hashes(3,4) [OF e] no_newline_hash by blast+
  have r: "\<forall>r\<in>set (tb_inserted t c) \<union> set (tb_appended t c). one_line (tb_opt t) r" using assms(1) by (auto simp: table_fits_def table_rules_def)
  have "\<forall>s\<in>set (spec_list t (tb_inserted t c) ih) \<union> set (spec_list t (tb_appended t c) ah). no_newline s"
    using no_newline_spec_list [OF p nh(1)] no_newline_spec_list [OF p nh(2)] r by blast
  then show ?thesis using assms(4) rs no_newline_chain [OF c] by (auto simp: insert_lines_def e split: if_splits)
qed

lemma no_newline_plan:
  assumes ord: "\<And>n. map_iteration (ord n)" and fits: "table_fits t K" and K: "kernel_ok norm K"
  shows "\<forall>l\<in>set (plan_lines ord t K). CHR 0x0A \<notin> set l"
proof -
  note sv = map_iteration.set_visits [OF ord]
  have v: "valid_chain c" if "c \<in> set (visited t) \<union> set (tb_dirty t)" for c using fits that by (auto simp: table_fits_def visited_def)
  have ins: "no_newline l" if "c \<in> set (tb_dirty_ins t)" "l \<in> set (inserts_of t K c)" for c l
    using that fits no_newline_insert_lines [OF fits K] by (auto simp: inserts_of_def Let_def table_fits_def split: if_splits)
  have fb: "no_newline l" if "l \<in> set (first_body ord t K)" for l
    using that v no_newline_chain no_newline_update_lines [OF fits] ins by (auto simp: first_body_def sv)
  have "no_newline (tb_name t)" using fits by (simp add: table_fits_def no_newline_def)
  then have "no_newline l" if "l \<in> set (plan_lines ord t K)" for l
    using that fb v no_newline_chain by (auto simp: plan_lines_def transaction_def gone_lines_def sv split: if_splits)
  then show ?thesis by (simp add: no_newline_def)
qed

section \<open>One update\<close>

text \<open>The desired state of the table is unchanged.\<close>

definition same_desired :: "table \<Rightarrow> table \<Rightarrow> bool" where
  "same_desired t t' \<longleftrightarrow> tb_name t' = tb_name t \<and> tb_opt t' = tb_opt t \<and> tb_hash_prefix t' = tb_hash_prefix t \<and> tb_nft t' = tb_nft t \<and>
     tb_inserted t' = tb_inserted t \<and> tb_appended t' = tb_appended t \<and> tb_chains t' = tb_chains t \<and> tb_refs t' = tb_refs t"

lemma same_desired_cong:
  assumes "same_desired t t'"
  shows "our_chain t' c = our_chain t c" "desiredStateOfChain t' c = desiredStateOfChain t c" "table_rules t' c = table_rules t c"
    "expectedHashesForInsertAppendChain t' c n = expectedHashesForInsertAppendChain t c n"
  using assms by (simp_all add: same_desired_def our_chain_def desiredStateOfChain_def table_rules_def expectedHashesForInsertAppendChain_def Let_def)

text \<open>What an update leaves in the kernel.\<close>

definition brought :: "table \<Rightarrow> kernel \<Rightarrow> kernel \<Rightarrow> bool" where
  "brought t K K' \<longleftrightarrow>
     (\<forall>c\<in>set (tb_dirty t). map_option (map (hash_of (tb_hash_prefix t))) (map_of K' c) = map_option (RuleHashes (tb_opt t)) (desiredStateOfChain t c)) \<and>
     (\<forall>c\<in>set (tb_dirty_ins t). \<exists>rs rs'. map_of K c = Some rs \<and> map_of K' c = Some rs' \<and> refreshed t c rs rs') \<and>
     (\<forall>c. c \<notin> set (tb_dirty t) \<longrightarrow> c \<notin> set (tb_dirty_ins t) \<longrightarrow> map_of K' c = map_of K c)"

lemma changed_brought:
  assumes "changed t K K'" "\<forall>c\<in>set (visited t). gone t c \<longrightarrow> map_of K' c = None" "hashes_agree t K" "table_fits t K"
  shows "brought t K K'"
  unfolding brought_def
proof (intro conjI ballI allI impI)
  let ?p = "tb_hash_prefix t"
  fix c assume c: "c \<in> set (tb_dirty t)"
  show "map_option (map (hash_of ?p)) (map_of K' c) = map_option (RuleHashes (tb_opt t)) (desiredStateOfChain t c)"
  proof (cases "skipped t c")
    case True
    have "c \<notin> set (visited t)" "c \<notin> set (tb_dirty_ins t)" using True c assms(4) by (auto simp: visited_def table_fits_def)
    then have "map_of K' c = map_of K c" using assms(1) by (simp add: changed_def)
    then show ?thesis using True assms(3) by (simp add: skipped_def hashes_agree_def)
  next
    case False
    then have v: "c \<in> set (visited t)" using c by (simp add: visited_def)
    show ?thesis
    proof (cases "gone t c")
      case True
      then show ?thesis using v assms(2) by (simp add: gone_def)
    next
      case False
      then obtain rs where "map_of K' c = Some rs" "Some (map (hash_of ?p) rs) = map_option (RuleHashes (tb_opt t)) (desiredStateOfChain t c)"
        using v assms(1) by (auto simp: changed_def)
      then show ?thesis by simp
    qed
  qed
next
  fix c assume "c \<in> set (tb_dirty_ins t)"
  then show "\<exists>rs rs'. map_of K c = Some rs \<and> map_of K' c = Some rs' \<and> refreshed t c rs rs'" using assms(1) by (simp add: changed_def)
next
  fix c assume "c \<notin> set (tb_dirty t)" "c \<notin> set (tb_dirty_ins t)"
  then show "map_of K' c = map_of K c" using assms(1) by (auto simp: changed_def visited_def)
qed

lemma hashes_after_kernel:
  assumes "changed t K K'" "\<forall>c\<in>set (visited t). gone t c \<longrightarrow> map_of K' c = None" "hashes_agree t K" "table_fits t K"
  shows "hashes_after t K c = map_option (map (hash_of (tb_hash_prefix t))) (map_of K' c)"
proof -
  let ?p = "tb_hash_prefix t"
  have b: "brought t K K'" using assms by (rule changed_brought)
  consider "c \<in> set (visited t)" | "c \<notin> set (visited t)" "c \<in> set (tb_dirty_ins t)" | "c \<notin> set (visited t)" "c \<notin> set (tb_dirty_ins t)" by blast
  then show ?thesis
  proof cases
    case 1
    then have "c \<in> set (tb_dirty t)" by (simp add: visited_def)
    then show ?thesis using b 1 by (simp add: hashes_after_def brought_def)
  next
    case 2
    then obtain rs rs' where r: "map_of K c = Some rs" "map_of K' c = Some rs'" "refreshed t c rs rs'" using b by (auto simp: brought_def)
    then have "in_place t c rs \<Longrightarrow> map_of (tb_hashes t) c = Some (map (hash_of ?p) rs')"
      using assms(3) by (simp add: hashes_agree_def in_place_def refreshed_def)
    then show ?thesis using 2 r by (simp add: hashes_after_def refreshed_def)
  next
    case 3
    then have "map_of K' c = map_of K c" using assms(1) by (simp add: changed_def)
    then show ?thesis using 3 assms(3) by (simp add: hashes_after_def hashes_agree_def)
  qed
qed

lemma applyUpdates_exact:
  assumes ord: "\<And>n. map_iteration (ord n)" and sf: "saved_form (tb_hash_prefix t) norm" and K: "kernel_ok norm K"
    and ag: "hashes_agree t K" and full: "\<forall>c\<in>set (tb_dirty_ins t). full_ok t K c" and fits: "table_fits t K"
  shows "\<exists>t' K'. applyUpdates (kernel_env (tb_name t) norm now) ord t (0, K) = (Ok t', 0, K') \<and> same_desired t t' \<and> brought t K K' \<and>
    hashes_agree t' K' \<and> tb_dirty t' = [] \<and> tb_dirty_ins t' = [] \<and> tb_in_sync t' = tb_in_sync t \<and> tb_last_read t' = tb_last_read t"
proof -
  obtain b nh fr where p: "plan_updates ord t = Ok (b, nh, fr)" "rb_table b = []" "rb_lines b = plan_lines ord t K"
      and h: "\<And>c. map_of (store_hashes nh (tb_hashes t)) c = hashes_after t K c"
    using plan_updates_result [of ord, OF ord ag full fits] by blast
  obtain K' where K': "restore_run (tb_name t) norm (plan_lines ord t K) None K = (True, K')" "changed t K K'"
      "\<forall>c\<in>set (visited t). gone t c \<longrightarrow> map_of K' c = None"
    using plan_restore [of ord, OF ord sf K ag fits] by blast
  have inp: "input_lines (concat (map (\<lambda>l. l @ [CHR 0x0A]) (rb_lines b))) = plan_lines ord t K"
    using no_newline_plan [of ord, OF ord fits K] p(3) by (simp add: input_lines_concat)
  have br: "brought t K K'" using changed_brought [OF K'(2,3) ag fits] .
  have hk: "map_of (store_hashes nh (tb_hashes t)) c = map_option (map (hash_of (tb_hash_prefix t))) (map_of K' c)" for c
    using hashes_after_kernel [OF K'(2,3) ag fits] h by simp
  show ?thesis
  proof (cases "rb_Empty b")
    case True
    then have "K' = K" using p(3) K'(1) by (simp add: rb_Empty_def)
    then show ?thesis using True p br hk
      by (auto simp: applyUpdates_def Let_def same_desired_def hashes_agree_def set_New_def)
  next
    case False
    then show ?thesis using p br hk K'(1) inp
      by (auto simp: applyUpdates_def Let_def same_desired_def hashes_agree_def set_New_def kernel_env_def GetBytesAndReset_def)
  qed
qed

section \<open>Finding the chains that differ\<close>

definition with_dirty :: "string list \<Rightarrow> string list \<Rightarrow> table \<Rightarrow> table" where
  "with_dirty D I t = t\<lparr>tb_dirty := D, tb_dirty_ins := I\<rparr>"

lemma with_dirty_simps [simp]:
  "tb_dirty (with_dirty D I t) = D" "tb_dirty_ins (with_dirty D I t) = I" "tb_hashes (with_dirty D I t) = tb_hashes t"
  "our_chain (with_dirty D I t) c = our_chain t c" "stale_foreign (with_dirty D I t) c dp = stale_foreign t c dp"
  "with_dirty D' I' (with_dirty D I t) = with_dirty D' I' t"
  by (simp_all add: with_dirty_def our_chain_def stale_foreign_def expectedHashesForInsertAppendChain_def Let_def)

text \<open>Which chains a pass over the keys adds: of ours those with the property \<open>P\<close>, of the others those with \<open>Q\<close>.\<close>

definition marks :: "(string \<Rightarrow> bool) \<Rightarrow> (string \<Rightarrow> bool) \<Rightarrow> table \<Rightarrow> table \<Rightarrow> bool" where
  "marks P Q t t' \<longleftrightarrow> (\<exists>D I. t' = with_dirty D I t \<and> (distinct (tb_dirty t) \<longrightarrow> distinct D) \<and> (distinct (tb_dirty_ins t) \<longrightarrow> distinct I) \<and>
     (\<forall>c. c \<in> set D \<longleftrightarrow> c \<in> set (tb_dirty t) \<or> our_chain t c \<and> c \<notin> set (tb_dirty_ins t) \<and> P c) \<and>
     (\<forall>c. c \<in> set I \<longleftrightarrow> c \<in> set (tb_dirty_ins t) \<or> \<not> our_chain t c \<and> c \<notin> set (tb_dirty t) \<and> Q c))"

lemma marks_trans:
  assumes "marks P Q t t1" "marks P' Q' t1 t2"
  shows "marks (\<lambda>c. P c \<or> P' c) (\<lambda>c. Q c \<or> Q' c) t t2"
proof -
  obtain D I where 1: "t1 = with_dirty D I t" "distinct (tb_dirty t) \<longrightarrow> distinct D" "distinct (tb_dirty_ins t) \<longrightarrow> distinct I"
      "\<And>c. c \<in> set D \<longleftrightarrow> c \<in> set (tb_dirty t) \<or> our_chain t c \<and> c \<notin> set (tb_dirty_ins t) \<and> P c"
      "\<And>c. c \<in> set I \<longleftrightarrow> c \<in> set (tb_dirty_ins t) \<or> \<not> our_chain t c \<and> c \<notin> set (tb_dirty t) \<and> Q c"
    using assms(1) unfolding marks_def by blast
  obtain D' I' where 2: "t2 = with_dirty D' I' t" "distinct D \<longrightarrow> distinct D'" "distinct I \<longrightarrow> distinct I'"
      "\<And>c. c \<in> set D' \<longleftrightarrow> c \<in> set D \<or> our_chain t c \<and> c \<notin> set I \<and> P' c"
      "\<And>c. c \<in> set I' \<longleftrightarrow> c \<in> set I \<or> \<not> our_chain t c \<and> c \<notin> set D \<and> Q' c"
    using assms(2) unfolding 1(1) marks_def with_dirty_simps by blast
  show ?thesis unfolding marks_def
  proof (rule exI [of _ D'], rule exI [of _ I'], intro conjI allI)
    show "t2 = with_dirty D' I' t" by (rule 2(1))
    show "distinct (tb_dirty t) \<longrightarrow> distinct D'" "distinct (tb_dirty_ins t) \<longrightarrow> distinct I'" using 1(2,3) 2(2,3) by blast+
  qed (auto simp: 2(4,5) 1(4,5))
qed

lemma marks_refl: "marks (\<lambda>_. False) (\<lambda>_. False) t t"
  unfolding marks_def by (intro exI [of _ "tb_dirty t"] exI [of _ "tb_dirty_ins t"]) (simp add: with_dirty_def)

lemma marks_cong: "marks P Q t t' \<Longrightarrow> (\<And>c. P c = P' c) \<Longrightarrow> (\<And>c. Q c = Q' c) \<Longrightarrow> marks P' Q' t t'"
  by (simp add: marks_def)

lemma marks_check_known:
  "marks (\<lambda>c. c = k \<and> map_of dp c \<noteq> map_of (tb_hashes t) c) (\<lambda>c. c = k \<and> stale_foreign t c (map_of dp c)) t (check_known dp k t)"
proof -
  have "check_known dp k t = with_dirty
      (if k \<notin> set (tb_dirty t) \<and> k \<notin> set (tb_dirty_ins t) \<and> our_chain t k \<and> map_of dp k \<noteq> map_of (tb_hashes t) k then set_Add k (tb_dirty t) else tb_dirty t)
      (if k \<notin> set (tb_dirty t) \<and> k \<notin> set (tb_dirty_ins t) \<and> \<not> our_chain t k \<and> stale_foreign t k (map_of dp k) then set_Add k (tb_dirty_ins t) else tb_dirty_ins t) t"
    by (simp add: check_known_def with_dirty_def set_Contains_def)
  then show ?thesis unfolding marks_def by (intro exI conjI) (assumption, auto)
qed

lemma marks_check_unknown:
  "marks (\<lambda>c. c = k \<and> map_of (tb_hashes t) c = None) (\<lambda>c. c = k \<and> map_of (tb_hashes t) c = None \<and> list_ex (\<lambda>h. h \<noteq> []) (lookup_list dp c)) t (check_unknown dp k t)"
proof -
  have "check_unknown dp k t = with_dirty
      (if k \<notin> set (tb_dirty t) \<and> k \<notin> set (tb_dirty_ins t) \<and> our_chain t k \<and> map_of (tb_hashes t) k = None then set_Add k (tb_dirty t) else tb_dirty t)
      (if k \<notin> set (tb_dirty t) \<and> k \<notin> set (tb_dirty_ins t) \<and> \<not> our_chain t k \<and> map_of (tb_hashes t) k = None \<and> list_ex (\<lambda>h. h \<noteq> []) (lookup_list dp k)
       then set_Add k (tb_dirty_ins t) else tb_dirty_ins t) t"
    by (simp add: check_unknown_def with_dirty_def set_Contains_def)
  then show ?thesis unfolding marks_def by (intro exI conjI) (assumption, auto)
qed

lemma marks_hashes: "marks P Q t t' \<Longrightarrow> tb_hashes t' = tb_hashes t \<and> (\<forall>c dp. stale_foreign t' c dp = stale_foreign t c dp)"
  by (auto simp: marks_def)

lemma marks_fold_known:
  "marks (\<lambda>c. c \<in> set ks \<and> map_of dp c \<noteq> map_of (tb_hashes t) c) (\<lambda>c. c \<in> set ks \<and> stale_foreign t c (map_of dp c)) t (fold (check_known dp) ks t)"
proof (induction ks arbitrary: t)
  case (Cons k ks)
  show ?case
    using marks_trans [OF marks_check_known [of k dp t] Cons [of "check_known dp k t"]] marks_hashes [OF marks_check_known [of k dp t]]
    by (auto elim!: marks_cong)
qed (simp add: marks_cong [OF marks_refl])

lemma marks_fold_unknown:
  "marks (\<lambda>c. c \<in> set ks \<and> map_of (tb_hashes t) c = None) (\<lambda>c. c \<in> set ks \<and> map_of (tb_hashes t) c = None \<and> list_ex (\<lambda>h. h \<noteq> []) (lookup_list dp c)) t
     (fold (check_unknown dp) ks t)"
proof (induction ks arbitrary: t)
  case (Cons k ks)
  show ?case
    using marks_trans [OF marks_check_unknown [of k t dp] Cons [of "check_unknown dp k t"]] marks_hashes [OF marks_check_unknown [of k t dp]]
    by (auto elim!: marks_cong)
qed (simp add: marks_cong [OF marks_refl])

lemma marks_compare:
  assumes ord: "\<And>n. map_iteration (ord n)"
  shows "marks (\<lambda>c. map_of dp c \<noteq> map_of (tb_hashes t) c)
    (\<lambda>c. if map_of (tb_hashes t) c = None then list_ex (\<lambda>h. h \<noteq> []) (lookup_list dp c) else stale_foreign t c (map_of dp c)) t (compare_dataplane ord dp t)"
proof -
  note sv = map_iteration.set_visits [OF ord]
  let ?t1 = "fold (check_known dp) (ord 5 (map fst (tb_hashes t))) t"
  have m: "marks (\<lambda>c. c \<in> fst ` set (tb_hashes t) \<and> map_of dp c \<noteq> map_of (tb_hashes t) c \<or> c \<in> fst ` set dp \<and> map_of (tb_hashes t) c = None)
     (\<lambda>c. c \<in> fst ` set (tb_hashes t) \<and> stale_foreign t c (map_of dp c) \<or>
        c \<in> fst ` set dp \<and> map_of (tb_hashes t) c = None \<and> list_ex (\<lambda>h. h \<noteq> []) (lookup_list dp c)) t (compare_dataplane ord dp t)"
    using marks_trans [OF marks_fold_known [of "ord 5 (map fst (tb_hashes t))" dp t] marks_fold_unknown [of "ord 6 (map fst dp)" ?t1 dp]]
      marks_hashes [OF marks_fold_known [of "ord 5 (map fst (tb_hashes t))" dp t]]
    by (simp add: compare_dataplane_def sv)
  have k: "c \<in> fst ` set m \<longleftrightarrow> map_of m c \<noteq> None" for c and m :: "(string \<times> string list) list" by (simp add: map_of_eq_None_iff)
  have e: "map_of dp c = None \<Longrightarrow> \<not> list_ex (\<lambda>h. h \<noteq> []) (lookup_list dp c)" for c by (simp add: lookup_list_def)
  show ?thesis
  proof (rule marks_cong [OF m], goal_cases)
    case (1 c)
    show ?case by (cases "map_of (tb_hashes t) c") (auto simp: k)
  next
    case (2 c)
    show ?case using e [of c] by (cases "map_of (tb_hashes t) c") (auto simp: k)
  qed
qed

section \<open>A failed update\<close>

definition after_failure :: "table \<Rightarrow> table" where
  "after_failure t = t\<lparr>tb_dirty := visited t, tb_in_sync := False\<rparr>"

lemma applyUpdates_fails:
  assumes ord: "\<And>n. map_iteration (ord n)" and ag: "hashes_agree t K" and full: "\<forall>c\<in>set (tb_dirty_ins t). full_ok t K c" and fits: "table_fits t K"
    and lines: "plan_lines ord t K \<noteq> []"
  shows "applyUpdates (kernel_env (tb_name t) norm now) ord t (Suc n, K) = (Err (RestoreFailed, after_failure t), n, K)"
proof -
  obtain b nh fr where p: "plan_updates ord t = Ok (b, nh, fr)" "rb_table b = []" "rb_lines b = plan_lines ord t K"
    using plan_updates_result [of ord, OF ord ag full fits] by blast
  have v: "fst (set_Iter (ord 0) (forward_visit t) (tb_dirty t) []) = visited t"
    using map_iteration.set_visits [OF ord, of 0] by (simp add: set_Iter_def iter_forward visited_def cong: filter_cong)
  show ?thesis using p lines
    by (simp add: applyUpdates_def Let_def v kernel_env_def GetBytesAndReset_def rb_Empty_def after_failure_def)
qed

text \<open>When nothing has to be written the commands are not run.\<close>

lemma applyUpdates_nothing:
  assumes ord: "\<And>n. map_iteration (ord n)" and ag: "hashes_agree t K" and full: "\<forall>c\<in>set (tb_dirty_ins t). full_ok t K c" and fits: "table_fits t K"
    and lines: "plan_lines ord t K = []" and ok: "applyUpdates (kernel_env (tb_name t) norm now) ord t (0, K) = (Ok t', 0, K')"
  shows "applyUpdates (kernel_env (tb_name t) norm now) ord t (n, K) = (Ok t', n, K')"
proof -
  obtain b nh fr where p: "plan_updates ord t = Ok (b, nh, fr)" "rb_lines b = plan_lines ord t K"
    using plan_updates_result [of ord, OF ord ag full fits] by blast
  show ?thesis using p lines ok by (simp add: applyUpdates_def Let_def rb_Empty_def)
qed

end
