(* ===== verification/IptApply.thy ===== *)
theory IptApply
  imports IptSync
begin

text \<open>
  \<^verbatim>\<open>Apply\<close> on a kernel: when it returns the kernel is in step with the table, whatever was in our chains before, and the rules of
  others are untouched; it survives ten failures of \<^verbatim>\<open>iptables-restore\<close> and no more.
\<close>

section \<open>Kernel and table in step\<close>

text \<open>A chain that only has appended rules is not checked when the kernel is read.\<close>

definition up_to_date :: "table \<Rightarrow> string \<Rightarrow> string list \<Rightarrow> bool" where
  "up_to_date t c rs \<longleftrightarrow> (tb_inserted t c \<noteq> [] \<or> tb_appended t c = [] \<longrightarrow>
     map (hash_of (tb_hash_prefix t)) rs = fst (expectedHashesForInsertAppendChain t c (length (foreign (tb_hash_prefix t) rs))))"

definition chain_ok :: "table \<Rightarrow> kernel \<Rightarrow> string \<Rightarrow> bool" where
  "chain_ok t K c \<longleftrightarrow> map_option (map (hash_of (tb_hash_prefix t))) (map_of K c) = map_option (RuleHashes (tb_opt t)) (desiredStateOfChain t c)"

definition in_step :: "table \<Rightarrow> kernel \<Rightarrow> bool" where
  "in_step t K \<longleftrightarrow> tb_dirty t = [] \<and> tb_dirty_ins t = [] \<and> hashes_agree t K \<and> (\<forall>c. our_chain t c \<longrightarrow> chain_ok t K c) \<and>
     (\<forall>c rs. \<not> our_chain t c \<longrightarrow> map_of K c = Some rs \<longrightarrow> up_to_date t c rs)"

text \<open>The rules of others stay, in their order.\<close>

definition keeps_foreign :: "table \<Rightarrow> kernel \<Rightarrow> kernel \<Rightarrow> bool" where
  "keeps_foreign t K K' \<longleftrightarrow> (\<forall>c rs. \<not> our_chain t c \<longrightarrow> map_of K c = Some rs \<longrightarrow>
     (\<exists>rs'. map_of K' c = Some rs' \<and> foreign (tb_hash_prefix t) rs' = foreign (tb_hash_prefix t) rs))"

definition ready :: "table \<Rightarrow> kernel \<Rightarrow> bool" where
  "ready t K \<longleftrightarrow> table_fits t K \<and> synced t \<and> (\<forall>c. map_of (tb_hashes t) c \<noteq> None \<longrightarrow> valid_chain c) \<and>
     (\<forall>c. tb_inserted t c \<noteq> [] \<longrightarrow> \<not> our_chain t c \<and> map_of K c \<noteq> None \<and> (c \<in> set (tb_dirty_ins t) \<or> map_of (tb_hashes t) c \<noteq> None))"

lemma same_desired_chain:
  assumes "same_desired t t'"
  shows "chain_ok t' K c = chain_ok t K c" "up_to_date t' c rs = up_to_date t c rs" "keeps_foreign t' K K' = keeps_foreign t K K'"
  using assms same_desired_cong [OF assms] by (simp_all add: chain_ok_def up_to_date_def keeps_foreign_def same_desired_def)

lemma same_desired_trans: "same_desired t t1 \<Longrightarrow> same_desired t1 t2 \<Longrightarrow> same_desired t t2"
  by (simp add: same_desired_def)

lemma no_hashes_up_to_date:
  assumes "\<not> list_ex (\<lambda>h. h \<noteq> []) (map (hash_of (tb_hash_prefix t)) rs)" "tb_inserted t c = []"
  shows "up_to_date t c rs"
proof -
  have f: "foreign (tb_hash_prefix t) rs = rs" using assms(1) by (auto simp: list_ex_iff foreign_def intro!: filter_True)
  show ?thesis using hashes_foreign [of "tb_hash_prefix t" rs] assms(2)
    by (simp add: up_to_date_def f expectedHashesForInsertAppendChain_def Let_def)
qed

section \<open>Reading\<close>

text \<open>After reading, every chain that is not marked is in order.\<close>

definition loaded :: "table \<Rightarrow> kernel \<Rightarrow> bool" where
  "loaded t K \<longleftrightarrow> hashes_agree t K \<and> (\<forall>c. full_ok t K c) \<and> ready t K \<and> tb_in_sync t \<and>
     (\<forall>c. our_chain t c \<longrightarrow> c \<notin> set (tb_dirty t) \<longrightarrow> chain_ok t K c) \<and>
     (\<forall>c rs. \<not> our_chain t c \<longrightarrow> c \<notin> set (tb_dirty_ins t) \<longrightarrow> map_of K c = Some rs \<longrightarrow> up_to_date t c rs)"

lemma stale_foreign_up_to_date:
  assumes "\<not> stale_foreign t c (Some (map (hash_of (tb_hash_prefix t)) rs))"
  shows "up_to_date t c rs"
proof (cases "tb_inserted t c = []")
  case True
  then show ?thesis using assms no_hashes_up_to_date by (simp add: stale_foreign_def)
next
  case False
  then show ?thesis using assms by (simp add: stale_foreign_def up_to_date_def numEmptyStrings_hashes)
qed

lemma stale_foreign_exists:
  "stale_foreign t c None \<Longrightarrow> tb_inserted t c \<noteq> []"
  by (auto simp: stale_foreign_def)

lemma compare_loaded:
  assumes ord: "\<And>n. map_iteration (ord n)" and K: "kernel_ok norm K" and r: "ready t K"
    and h: "hashes_agree (t\<lparr>tb_hashes := dp, tb_full := fr\<rparr>) K" "\<forall>c. full_ok (t\<lparr>tb_hashes := dp, tb_full := fr\<rparr>) K c"
  shows "loaded ((compare_dataplane ord dp t)\<lparr>tb_hashes := dp, tb_full := fr, tb_in_sync := True\<rparr>) K \<and>
    same_desired t ((compare_dataplane ord dp t)\<lparr>tb_hashes := dp, tb_full := fr, tb_in_sync := True\<rparr>)"
proof -
  let ?p = "tb_hash_prefix t"
  have dp: "map_of dp c = map_option (map (hash_of ?p)) (map_of K c)" for c using h(1) by (simp add: hashes_agree_def)
  have fits: "table_fits t K" and syn: "synced t" and val: "\<And>c. map_of (tb_hashes t) c \<noteq> None \<Longrightarrow> valid_chain c"
    and ins: "\<And>c. tb_inserted t c \<noteq> [] \<Longrightarrow> \<not> our_chain t c \<and> map_of K c \<noteq> None \<and> (c \<in> set (tb_dirty_ins t) \<or> map_of (tb_hashes t) c \<noteq> None)"
    using r by (auto simp: ready_def)
  have kv: "map_of K c \<noteq> None \<Longrightarrow> valid_chain c" for c using K by (fastforce simp: kernel_ok_def list_all_iff dest: map_of_SomeD)
  let ?Q = "\<lambda>c. if map_of (tb_hashes t) c = None then list_ex (\<lambda>h. h \<noteq> []) (lookup_list dp c) else stale_foreign t c (map_of dp c)"
  from marks_compare [of ord dp t, OF ord] obtain D I where c: "compare_dataplane ord dp t = with_dirty D I t" "distinct D" "distinct I"
    and D: "\<And>c. c \<in> set D \<longleftrightarrow> c \<in> set (tb_dirty t) \<or> our_chain t c \<and> c \<notin> set (tb_dirty_ins t) \<and> map_of dp c \<noteq> map_of (tb_hashes t) c"
    and I: "\<And>c. c \<in> set I \<longleftrightarrow> c \<in> set (tb_dirty_ins t) \<or> \<not> our_chain t c \<and> c \<notin> set (tb_dirty t) \<and> ?Q c"
    using fits unfolding marks_def table_fits_def by blast
  define t1 where "t1 = (with_dirty D I t)\<lparr>tb_hashes := dp, tb_full := fr, tb_in_sync := True\<rparr>"
  have sd: "same_desired t t1" by (simp add: same_desired_def t1_def with_dirty_def)
  have f: "tb_dirty t1 = D" "tb_dirty_ins t1 = I" "tb_hashes t1 = dp" "tb_hash_prefix t1 = ?p" "tb_opt t1 = tb_opt t" "tb_in_sync t1" "tb_inserted t1 = tb_inserted t"
    by (simp_all add: t1_def with_dirty_def)
  have ourD: "our_chain t c \<and> valid_chain c" if "c \<in> set D" for c
  proof -
    have "valid_chain c" if "map_of dp c \<noteq> map_of (tb_hashes t) c"
    proof (cases "map_of (tb_hashes t) c")
      case None
      then show ?thesis using that kv [of c] dp [of c] by auto
    qed (use val in auto)
    then show ?thesis using that D [of c] fits by (auto simp: table_fits_def)
  qed
  have insI: "\<not> our_chain t c \<and> map_of K c \<noteq> None" if "c \<in> set I" for c
  proof -
    have "map_of K c \<noteq> None" if "?Q c"
    proof
      assume "map_of K c = None"
      then have "map_of dp c = None" using dp by simp
      then show False using that ins [of c] stale_foreign_exists [of t c] \<open>map_of K c = None\<close> by (auto simp: lookup_list_def split: if_splits)
    qed
    then show ?thesis using that I [of c] fits by (auto simp: table_fits_def)
  qed
  have fits1: "table_fits t1 K"
    using fits ourD insI c(2,3) same_desired_cong [OF sd] sd by (auto simp: table_fits_def f same_desired_def)
  have ok: "chain_ok t K c" if "our_chain t c" "c \<notin> set D" for c
  proof -
    have "c \<notin> set (tb_dirty_ins t)" using that(1) fits by (auto simp: table_fits_def)
    then have "map_of dp c = map_of (tb_hashes t) c" "c \<notin> set (tb_dirty t)" using that D [of c] by auto
    then show ?thesis using syn that(1) dp by (simp add: synced_def chain_ok_def)
  qed
  have utd: "up_to_date t c rs" if "\<not> our_chain t c" "c \<notin> set I" "map_of K c = Some rs" for c rs
  proof -
    have nq: "\<not> ?Q c" "c \<notin> set (tb_dirty_ins t)" using that I [of c] fits by (auto simp: table_fits_def)
    have d: "map_of dp c = Some (map (hash_of ?p) rs)" using dp that(3) by simp
    show ?thesis
    proof (cases "map_of (tb_hashes t) c = None")
      case True
      then show ?thesis using nq ins [of c] d by (intro no_hashes_up_to_date) (auto simp: lookup_list_def)
    next
      case False
      then show ?thesis using nq d by (intro stale_foreign_up_to_date) auto
    qed
  qed
  have "synced t1" using ok dp same_desired_cong [OF sd] by (auto simp: synced_def f chain_ok_def)
  moreover have "\<forall>c. map_of (tb_hashes t1) c \<noteq> None \<longrightarrow> valid_chain c" using kv dp by (auto simp: f)
  moreover have "\<forall>c. tb_inserted t1 c \<noteq> [] \<longrightarrow> \<not> our_chain t1 c \<and> map_of K c \<noteq> None \<and> (c \<in> set (tb_dirty_ins t1) \<or> map_of (tb_hashes t1) c \<noteq> None)"
    using ins dp same_desired_cong [OF sd] by (auto simp: f)
  ultimately have "ready t1 K" using fits1 by (simp add: ready_def)
  moreover have "full_ok t1 K c = full_ok (t\<lparr>tb_hashes := dp, tb_full := fr\<rparr>) K c" for c
    by (simp add: full_ok_def our_chain_def t1_def with_dirty_def)
  then have "\<forall>c. full_ok t1 K c" using h(2) by blast
  moreover have "hashes_agree t1 K" using h(1) by (simp add: hashes_agree_def f)
  ultimately have "loaded t1 K"
    using ok utd same_desired_cong [OF sd] same_desired_chain [OF sd] f(6) by (auto simp: loaded_def f)
  then show ?thesis using sd by (simp add: t1_def c(1))
qed

lemma load_exact:
  assumes ord: "\<And>n. map_iteration (ord n)" and K: "kernel_ok norm K" and r: "ready t K"
  shows "\<exists>t1. loadDataplaneState (kernel_env (tb_name t) norm now) ord t (n, K) = (Ok t1, n, K) \<and> loaded t1 K \<and> same_desired t t1"
proof -
  let ?t = "t\<lparr>tb_last_read := now\<rparr>"
  obtain h f where rb: "readHashesAndRulesFrom t (save_output (tb_name t) K) False = Some (h, f)"
      "hashes_agree (t\<lparr>tb_hashes := h, tb_full := f\<rparr>) K" "\<forall>c. full_ok (t\<lparr>tb_hashes := h, tb_full := f\<rparr>) K c"
    using read_back [OF K, of t "tb_name t"] by blast
  have sd: "same_desired t ?t" by (simp add: same_desired_def)
  have "ready ?t K" "hashes_agree (?t\<lparr>tb_hashes := h, tb_full := f\<rparr>) K" "\<forall>c. full_ok (?t\<lparr>tb_hashes := h, tb_full := f\<rparr>) K c"
    using r rb(2,3) by (simp_all add: ready_def table_fits_def synced_def our_chain_def desiredStateOfChain_def table_rules_def hashes_agree_def full_ok_def)
  from compare_loaded [of ord, OF ord K this] same_desired_trans [OF sd]
  show ?thesis using rb(1)
    by (auto simp: loadDataplaneState_def kernel_env_def bindp_def ret_def attemptToGetHashesAndRulesFromDataplane_def
        getHashesAndRulesFromDataplane.simps numeral_3_eq_3)
qed

section \<open>Retries\<close>

lemma brought_in_step:
  assumes "loaded t K" "brought t K K'" "same_desired t t'" "hashes_agree t' K'" "tb_dirty t' = []" "tb_dirty_ins t' = []"
  shows "in_step t' K' \<and> keeps_foreign t K K'"
proof -
  let ?p = "tb_hash_prefix t"
  have fits: "table_fits t K" using assms(1) by (simp add: loaded_def ready_def)
  have out: "map_of K' c = map_of K c" if "c \<notin> set (tb_dirty t)" "c \<notin> set (tb_dirty_ins t)" for c using assms(2) that by (simp add: brought_def)
  have ours: "chain_ok t K' c" if "our_chain t c" for c
  proof (cases "c \<in> set (tb_dirty t)")
    case True
    then show ?thesis using assms(2) by (simp add: brought_def chain_ok_def)
  next
    case False
    moreover have "c \<notin> set (tb_dirty_ins t)" using that fits by (auto simp: table_fits_def)
    ultimately show ?thesis using out assms(1) that by (simp add: loaded_def chain_ok_def)
  qed
  have others: "\<exists>rs'. map_of K' c = Some rs' \<and> foreign ?p rs' = foreign ?p rs \<and> up_to_date t c rs'"
    if c: "\<not> our_chain t c" "map_of K c = Some rs" for c rs
  proof (cases "c \<in> set (tb_dirty_ins t)")
    case True
    then obtain rs' where "map_of K' c = Some rs'" "refreshed t c rs rs'" using assms(2) c(2) by (auto simp: brought_def)
    then show ?thesis by (simp add: refreshed_def up_to_date_def)
  next
    case False
    moreover have "c \<notin> set (tb_dirty t)" using c(1) fits by (auto simp: table_fits_def)
    ultimately show ?thesis using out assms(1) c by (simp add: loaded_def)
  qed
  have "up_to_date t c rs'" if "\<not> our_chain t c" "map_of K' c = Some rs'" for c rs'
  proof (cases "map_of K c")
    case None
    have "c \<notin> set (tb_dirty t)" "c \<notin> set (tb_dirty_ins t)" using that(1) None fits by (auto simp: table_fits_def)
    then show ?thesis using out None that(2) by simp
  next
    case (Some rs)
    then show ?thesis using others [OF that(1) Some] that(2) by auto
  qed
  then have "in_step t' K'"
    using ours assms(4-6) same_desired_chain(1,2) [OF assms(3)] same_desired_cong(1) [OF assms(3)] by (simp add: in_step_def)
  moreover have "keeps_foreign t K K'" using others unfolding keeps_foreign_def by blast
  ultimately show ?thesis ..
qed

lemma ready_after_failure:
  assumes "loaded t K"
  shows "ready (after_failure t) K" "same_desired t (after_failure t)" "\<not> tb_in_sync (after_failure t)"
proof -
  show sd: "same_desired t (after_failure t)" "\<not> tb_in_sync (after_failure t)" by (simp_all add: same_desired_def after_failure_def)
  have ok: "chain_ok t K c" if "our_chain t c" "c \<notin> set (visited t)" for c
  proof (cases "c \<in> set (tb_dirty t)")
    case True
    then have "skipped t c" using that(2) by (simp add: visited_def)
    then show ?thesis using assms by (simp add: skipped_def chain_ok_def loaded_def hashes_agree_def)
  next
    case False
    then show ?thesis using assms that(1) by (simp add: loaded_def)
  qed
  have "synced (after_failure t)"
    using ok assms same_desired_cong [OF sd(1)] by (auto simp: synced_def chain_ok_def loaded_def hashes_agree_def after_failure_def)
  moreover have "table_fits (after_failure t) K"
    using assms same_desired_cong [OF sd(1)] by (auto simp: loaded_def ready_def table_fits_def after_failure_def visited_def)
  ultimately show "ready (after_failure t) K"
    using assms same_desired_cong [OF sd(1)] by (simp add: ready_def loaded_def after_failure_def)
qed

text \<open>One turn of the loop: it succeeds, or a failure is consumed and the table is as ready as before.\<close>

lemma turn_succeeds:
  assumes ord: "\<And>n. map_iteration (ord n)" and sf: "saved_form (tb_hash_prefix t) norm" and K: "kernel_ok norm K" and l: "loaded t K"
    and n: "n = 0 \<or> plan_lines ord t K = []"
  shows "\<exists>t' K'. applyUpdates (kernel_env (tb_name t) norm now) ord t (n, K) = (Ok t', n, K') \<and> same_desired t t' \<and> tb_in_sync t' \<and>
    in_step t' K' \<and> keeps_foreign t K K' \<and> (plan_lines ord t K = [] \<longrightarrow> (\<forall>c. our_chain t c \<longrightarrow> chain_ok t K c))"
proof -
  have a: "hashes_agree t K" "\<forall>c\<in>set (tb_dirty_ins t). full_ok t K c" "table_fits t K" using l by (auto simp: loaded_def ready_def)
  obtain t' K' where u: "applyUpdates (kernel_env (tb_name t) norm now) ord t (0, K) = (Ok t', 0, K')" "same_desired t t'" "brought t K K'"
      "hashes_agree t' K'" "tb_dirty t' = []" "tb_dirty_ins t' = []" "tb_in_sync t' = tb_in_sync t"
    using applyUpdates_exact [of ord, OF ord sf K a] by blast
  have s: "in_step t' K'" "keeps_foreign t K K'" using brought_in_step [OF l u(3,2,4,5,6)] by auto
  have "K' = K" if "plan_lines ord t K = []"
    using u(1) that plan_updates_result [of ord, OF ord a] by (auto simp: applyUpdates_def Let_def rb_Empty_def)
  moreover have "chain_ok t K' c" if "our_chain t c" for c
    using s(1) that same_desired_chain [OF u(2)] same_desired_cong [OF u(2)] by (simp add: in_step_def)
  ultimately have e: "plan_lines ord t K = [] \<longrightarrow> (\<forall>c. our_chain t c \<longrightarrow> chain_ok t K c)" by blast
  have "applyUpdates (kernel_env (tb_name t) norm now) ord t (n, K) = (Ok t', n, K')"
    using n u(1) applyUpdates_nothing [of ord, OF ord a _ u(1)] by blast
  then show ?thesis using u(2,7) s e l by (auto simp: loaded_def)
qed

lemma retry_ok:
  assumes "\<not> tb_in_sync t" "loadDataplaneState env (ords r) t w = (Ok t1, w1)" "applyUpdates env (ords r) t1 w1 = (Ok t', w2)"
  shows "apply_retry env ords r t w = (Ok t', w2)"
  using assms by (subst apply_retry.simps) (simp add: bindp_def or_fail_def)

lemma retry_again:
  assumes "\<not> tb_in_sync t" "loadDataplaneState env (ords (Suc r)) t w = (Ok t1, w1)" "applyUpdates env (ords (Suc r)) t1 w1 = (Err (e, t2), w2)"
  shows "apply_retry env ords (Suc r) t w = apply_retry env ords r t2 w2"
  using assms by (subst apply_retry.simps) (simp add: bindp_def or_fail_def split: prod.split outcome.split)

lemma retry_gives_up:
  assumes "\<not> tb_in_sync t" "loadDataplaneState env (ords 0) t w = (Ok t1, w1)" "applyUpdates env (ords 0) t1 w1 = (Err (e, t2), w2)"
  shows "apply_retry env ords 0 t w = (Err (GaveUp e, t2), snd (ie_save env (tb_name t2) w2))"
  using assms by (subst apply_retry.simps) (simp add: bindp_def or_fail_def split: prod.split)

declare apply_retry.simps [simp del]

lemma retry_succeeds:
  assumes ord: "\<And>m n. map_iteration (ords m n)" and K: "kernel_ok norm K"
  shows "ready t K \<Longrightarrow> \<not> tb_in_sync t \<Longrightarrow> n \<le> r \<Longrightarrow> saved_form (tb_hash_prefix t) norm \<Longrightarrow>
    \<exists>t' K' m. apply_retry (kernel_env (tb_name t) norm now) ords r t (n, K) = (Ok t', m, K') \<and> same_desired t t' \<and> tb_in_sync t' \<and>
      in_step t' K' \<and> keeps_foreign t K K'"
proof (induction r arbitrary: t n)
  case (0 t n)
  obtain t1 where l: "loadDataplaneState (kernel_env (tb_name t) norm now) (ords 0) t (n, K) = (Ok t1, n, K)" "loaded t1 K" "same_desired t t1"
    using load_exact [of "ords 0", OF ord K 0(1)] by blast
  have nm: "tb_name t1 = tb_name t" "tb_hash_prefix t1 = tb_hash_prefix t" using l(3) by (simp_all add: same_desired_def)
  have z: "n = 0 \<or> plan_lines (ords 0) t1 K = []" using 0(3) by simp
  obtain t' K' where u: "applyUpdates (kernel_env (tb_name t) norm now) (ords 0) t1 (n, K) = (Ok t', n, K')" "same_desired t1 t'" "tb_in_sync t'" "in_step t' K'" "keeps_foreign t1 K K'"
    using turn_succeeds [of "ords 0" t1 norm K n now, OF ord _ K l(2) z] 0(4) unfolding nm by blast
  show ?case using retry_ok [where ords = ords and r = 0, OF 0(2) l(1) u(1)] u(3,4,5) same_desired_trans [OF l(3) u(2)] same_desired_chain(3) [OF l(3)] by blast
next
  case (Suc r t n)
  obtain t1 where l: "loadDataplaneState (kernel_env (tb_name t) norm now) (ords (Suc r)) t (n, K) = (Ok t1, n, K)" "loaded t1 K" "same_desired t t1"
    using load_exact [of "ords (Suc r)", OF ord K Suc.prems(1)] by blast
  have nm: "tb_name t1 = tb_name t" "tb_hash_prefix t1 = tb_hash_prefix t" using l(3) by (simp_all add: same_desired_def)
  show ?case
  proof (cases "n = 0 \<or> plan_lines (ords (Suc r)) t1 K = []")
    case True
    obtain t' K' where u: "applyUpdates (kernel_env (tb_name t) norm now) (ords (Suc r)) t1 (n, K) = (Ok t', n, K')" "same_desired t1 t'" "tb_in_sync t'" "in_step t' K'" "keeps_foreign t1 K K'"
      using turn_succeeds [of "ords (Suc r)" t1 norm K n now, OF ord _ K l(2) True] Suc.prems(4) unfolding nm by blast
    show ?thesis using retry_ok [where ords = ords and r = "Suc r", OF Suc.prems(2) l(1) u(1)] u(3,4,5) same_desired_trans [OF l(3) u(2)] same_desired_chain(3) [OF l(3)] by blast
  next
    case False
    then obtain m where m: "n = Suc m" using not0_implies_Suc by blast
    have f: "applyUpdates (kernel_env (tb_name t) norm now) (ords (Suc r)) t1 (n, K) = (Err (RestoreFailed, after_failure t1), m, K)"
      using applyUpdates_fails [of "ords (Suc r)" t1 K norm now m] ord l(2) False by (simp add: nm loaded_def ready_def m)
    note sd = same_desired_trans [OF l(3) ready_after_failure(2) [OF l(2)]]
    have nm2: "tb_name (after_failure t1) = tb_name t" "tb_hash_prefix (after_failure t1) = tb_hash_prefix t" using sd by (simp_all add: same_desired_def)
    have le: "m \<le> r" using Suc.prems(3) m by simp
    have "saved_form (tb_hash_prefix (after_failure t1)) norm" using Suc.prems(4) nm2 by simp
    then obtain t' K' k where u: "apply_retry (kernel_env (tb_name t) norm now) ords r (after_failure t1) (m, K) = (Ok t', k, K')" "same_desired (after_failure t1) t'"
        "tb_in_sync t'" "in_step t' K'" "keeps_foreign (after_failure t1) K K'"
      using Suc.IH [OF ready_after_failure(1,3) [OF l(2)] le] unfolding nm2 by blast
    show ?thesis
      using retry_again [where ords = ords and r = r, OF Suc.prems(2) l(1) f] u same_desired_trans [OF sd u(2)] same_desired_chain(3) [OF sd] by auto
  qed
qed

text \<open>With more failures than retries the loop gives up, and the kernel is as it was.\<close>

lemma retry_fails:
  assumes ord: "\<And>m n. map_iteration (ords m n)" and K: "kernel_ok norm K"
  shows "ready t K \<Longrightarrow> \<not> tb_in_sync t \<Longrightarrow> r < n \<Longrightarrow> saved_form (tb_hash_prefix t) norm \<Longrightarrow> our_chain t c \<Longrightarrow> \<not> chain_ok t K c \<Longrightarrow>
    \<exists>t'. apply_retry (kernel_env (tb_name t) norm now) ords r t (n, K) = (Err (GaveUp RestoreFailed, t'), n - r - 1, K) \<and> same_desired t t'"
proof (induction r arbitrary: t n)
  case (0 t n)
  obtain t1 where l: "loadDataplaneState (kernel_env (tb_name t) norm now) (ords 0) t (n, K) = (Ok t1, n, K)" "loaded t1 K" "same_desired t t1"
    using load_exact [of "ords 0", OF ord K 0(1)] by blast
  have nm: "tb_name t1 = tb_name t" "tb_hash_prefix t1 = tb_hash_prefix t" using l(3) by (simp_all add: same_desired_def)
  obtain m where m: "n = Suc m" using 0(3) gr0_implies_Suc by blast
  have "plan_lines (ords 0) t1 K \<noteq> []"
    using turn_succeeds [of "ords 0" t1 norm K n now, OF ord _ K l(2)] 0(4-6) same_desired_cong(1) [OF l(3)] same_desired_chain(1) [OF l(3)] unfolding nm by blast
  then have f: "applyUpdates (kernel_env (tb_name t) norm now) (ords 0) t1 (n, K) = (Err (RestoreFailed, after_failure t1), m, K)"
    using applyUpdates_fails [of "ords 0" t1 K norm now m] ord l(2) by (simp add: nm loaded_def ready_def m)
  show ?case using retry_gives_up [where ords = ords, OF 0(2) l(1) f] same_desired_trans [OF l(3) ready_after_failure(2) [OF l(2)]] m by (simp add: kernel_env_def)
next
  case (Suc r t n)
  obtain t1 where l: "loadDataplaneState (kernel_env (tb_name t) norm now) (ords (Suc r)) t (n, K) = (Ok t1, n, K)" "loaded t1 K" "same_desired t t1"
    using load_exact [of "ords (Suc r)", OF ord K Suc.prems(1)] by blast
  have nm: "tb_name t1 = tb_name t" "tb_hash_prefix t1 = tb_hash_prefix t" using l(3) by (simp_all add: same_desired_def)
  obtain m where m: "n = Suc m" "r < m" using Suc.prems(3) by (cases n) auto
  have "plan_lines (ords (Suc r)) t1 K \<noteq> []"
    using turn_succeeds [of "ords (Suc r)" t1 norm K n now, OF ord _ K l(2)] Suc.prems(4-6) same_desired_cong(1) [OF l(3)] same_desired_chain(1) [OF l(3)] unfolding nm by blast
  then have f: "applyUpdates (kernel_env (tb_name t) norm now) (ords (Suc r)) t1 (n, K) = (Err (RestoreFailed, after_failure t1), m, K)"
    using applyUpdates_fails [of "ords (Suc r)" t1 K norm now m] ord l(2) by (simp add: nm loaded_def ready_def m)
  note sd = same_desired_trans [OF l(3) ready_after_failure(2) [OF l(2)]]
  have nm2: "tb_name (after_failure t1) = tb_name t" "tb_hash_prefix (after_failure t1) = tb_hash_prefix t" using sd by (simp_all add: same_desired_def)
  have "saved_form (tb_hash_prefix (after_failure t1)) norm" "our_chain (after_failure t1) c" "\<not> chain_ok (after_failure t1) K c"
    using Suc.prems(4-6) nm2 same_desired_cong(1) [OF sd] same_desired_chain(1) [OF sd] by simp_all
  then obtain t' where "apply_retry (kernel_env (tb_name t) norm now) ords r (after_failure t1) (m, K) = (Err (GaveUp RestoreFailed, t'), m - r - 1, K)" "same_desired (after_failure t1) t'"
    using Suc.IH [OF ready_after_failure(1,3) [OF l(2)] m(2)] unfolding nm2 by blast
  then show ?case using retry_again [where ords = ords and r = r, OF Suc.prems(2) l(1) f] same_desired_trans [OF sd] m(1) by auto
qed

section \<open>The interval to the next refresh\<close>

text \<open>Doubling at 64 bits reaches an hour, or zero.\<close>

lemma signed_take_bit_dvd:
  assumes "(2::int) ^ k dvd x" "k \<le> 64"
  shows "2 ^ k dvd signed_take_bit 63 x"
proof -
  have "x mod 2 ^ 64 = signed_take_bit 63 x mod 2 ^ 64"
    using take_bit_signed_take_bit [of 64 63 x] by (simp add: take_bit_eq_mod)
  moreover have "(2::int) ^ k dvd 2 ^ 64" using assms(2) by (rule le_imp_power_dvd)
  ultimately show ?thesis using assms(1) by (metis dvd_mod_iff)
qed

lemma signed_range: "- (2 ^ 63) \<le> signed_take_bit 63 (x::int) \<and> signed_take_bit 63 x < 2 ^ 63"
  using signed_take_bit_int_greater_eq_minus_exp [of 63 x] signed_take_bit_int_less_exp [of 63 x] by blast

lemma widen_returns:
  assumes "- (2 ^ 63) \<le> interval" "interval < 2 ^ 63"
  shows "\<exists>i b. widen now lw interval flag = Some (i, b)"
proof -
  have "k \<le> 64 \<Longrightarrow> 2 ^ (64 - k) dvd interval \<Longrightarrow> - (2 ^ 63) \<le> interval \<Longrightarrow> interval < 2 ^ 63 \<Longrightarrow> \<exists>i b. widen now lw interval flag = Some (i, b)" for k
  proof (induction k arbitrary: interval flag)
    case 0
    have "interval = 0"
    proof (rule ccontr)
      assume "interval \<noteq> 0"
      then have "2 ^ 64 \<le> \<bar>interval\<bar>" using 0(2) dvd_imp_le_int [of interval "2 ^ 64"] by simp
      then show False using 0(3,4) by simp
    qed
    then show ?case by (simp add: widen.simps)
  next
    case (Suc k)
    have "2 * 2 ^ (64 - Suc k) dvd interval * 2" using Suc.prems(2) by (simp add: mult.commute)
    moreover have "2 * 2 ^ (64 - Suc k) = (2::int) ^ (64 - k)" using Suc.prems(1) by (metis Suc_diff_Suc Suc_le_lessD power_Suc)
    ultimately have "2 ^ (64 - k) dvd interval * 2" by (simp only:)
    then have "2 ^ (64 - k) dvd signed_take_bit 63 (interval * 2)" by (rule signed_take_bit_dvd) simp
    then have "\<exists>i b. widen now lw (signed_take_bit 63 (interval * 2)) True = Some (i, b)"
      using Suc.IH Suc.prems(1) signed_range [of "interval * 2"] by simp
    then show ?case by (subst widen.simps) auto
  qed
  from this [of 64] show ?thesis using assms by simp
qed

section \<open>The start of Apply\<close>

text \<open>Before the loop only the cache may be given up and the interval widened.\<close>

definition aged :: "table \<Rightarrow> table \<Rightarrow> bool" where
  "aged t u \<longleftrightarrow> same_desired t u \<and> tb_dirty u = tb_dirty t \<and> tb_dirty_ins u = tb_dirty_ins t \<and> tb_hashes u = tb_hashes t \<and>
     tb_full u = tb_full t \<and> (tb_in_sync u \<longrightarrow> tb_in_sync t)"

lemma aged_steps: "aged t t" "aged t u \<Longrightarrow> aged t (InvalidateDataplaneCache u)" "aged t u \<Longrightarrow> aged t (u\<lparr>tb_post_write := i\<rparr>)"
  by (simp_all add: aged_def same_desired_def)

lemma Apply_start:
  assumes "ie_now env w = (now, w0)"
  shows "\<exists>u. aged t u \<and> (if \<exists>i b. widen now (tb_last_write t) (tb_post_write t) False = Some (i, b)
    then Apply env ords t w = bindp (apply_retry env ords 10 u) (\<lambda>t. ret (reschedule now t, t)) w0 else Apply env ords t w = (Diverge, w0))"
proof -
  define stale where "stale \<longleftrightarrow> op_refresh (tb_opt t) > 0 \<and> now - tb_last_read t > op_refresh (tb_opt t)"
  define t1 where "t1 = (if stale then InvalidateDataplaneCache t else t)"
  have f: "tb_last_write t1 = tb_last_write t" "tb_post_write t1 = tb_post_write t" "aged t t1"
    using aged_steps by (simp_all add: t1_def InvalidateDataplaneCache_def)
  show ?thesis
  proof (cases "widen now (tb_last_write t) (tb_post_write t) False")
    case None
    then show ?thesis using assms f aged_steps(1) by (auto simp: Apply_def Let_def stale_def [symmetric] t1_def [symmetric])
  next
    case (Some x)
    obtain i b where x: "x = (i, b)" by (cases x)
    define u where "u = (if b \<and> \<not> stale then InvalidateDataplaneCache (t1\<lparr>tb_post_write := i\<rparr>) else t1\<lparr>tb_post_write := i\<rparr>)"
    have "aged t u" using aged_steps f(3) by (simp add: u_def)
    moreover have "Apply env ords t w = bindp (apply_retry env ords 10 u) (\<lambda>t. ret (reschedule now t, t)) w0"
      using assms f Some by (simp add: Apply_def Let_def stale_def [symmetric] t1_def [symmetric] x u_def)
    ultimately show ?thesis using Some x by auto
  qed
qed

lemma aged_ready: "aged t u \<Longrightarrow> ready t K \<Longrightarrow> ready u K"
  using same_desired_cong [of t u] by (auto simp: aged_def ready_def table_fits_def synced_def same_desired_def)

lemma aged_in_step: "aged t u \<Longrightarrow> in_step t K \<Longrightarrow> in_step u K"
  using same_desired_cong [of t u] same_desired_chain [of t u] by (auto simp: aged_def in_step_def hashes_agree_def same_desired_def)

text \<open>A table in step has nothing to write.\<close>

lemma in_step_retry:
  assumes ord: "\<And>m n. map_iteration (ords m n)" and s: "in_step t K" and r: "ready t K" and sy: "tb_in_sync t"
  shows "\<exists>t'. apply_retry (kernel_env (tb_name t) norm now) ords r t (n, K) = (Ok t', n, K) \<and> same_desired t t' \<and> tb_in_sync t' \<and> in_step t' K"
proof -
  have a: "hashes_agree t K" "\<forall>c\<in>set (tb_dirty_ins t). full_ok t K c" "table_fits t K" using s r by (auto simp: in_step_def ready_def)
  note sv = map_iteration.set_visits [OF ord]
  have e: "ords r m [] = []" for m using sv [of r m "[]"] by simp
  have d: "tb_dirty t = []" "tb_dirty_ins t = []" "visited t = []" using s by (simp_all add: in_step_def visited_def)
  then have "plan_lines (ords r) t K = []" by (simp add: plan_lines_def first_body_def gone_lines_def transaction_def e)
  then obtain b nh fr where p: "plan_updates (ords r) t = Ok (b, nh, fr)" "rb_lines b = []" "\<And>c. map_of (store_hashes nh (tb_hashes t)) c = hashes_after t K c"
    using plan_updates_result [of "ords r", OF ord a] by auto
  define t' where "t' = t\<lparr>tb_dirty := set_New, tb_dirty_ins := set_New, tb_hashes := store_hashes nh (tb_hashes t), tb_full := fr\<rparr>"
  have "applyUpdates (kernel_env (tb_name t) norm now) (ords r) t (n, K) = (Ok t', n, K)"
    using p(1,2) by (simp add: applyUpdates_def Let_def rb_Empty_def t'_def)
  then have "apply_retry (kernel_env (tb_name t) norm now) ords r t (n, K) = (Ok t', n, K)"
    using sy by (subst apply_retry.simps) (simp add: bindp_def ret_def)
  moreover have sd: "same_desired t t'" "tb_in_sync t'" using sy by (simp_all add: same_desired_def t'_def)
  moreover have "hashes_agree t' K" using a(1) p(3) d by (simp add: hashes_agree_def t'_def hashes_after_def)
  then have "in_step t' K"
    using s same_desired_cong(1) [OF sd(1)] same_desired_chain [OF sd(1)] by (simp add: in_step_def) (simp add: t'_def set_New_def)
  ultimately show ?thesis by blast
qed

end
