(* ===== verification/IptProps.thy ===== *)
theory IptProps
  imports IptApply
begin

text \<open>
  The properties of an iptables table: its bookkeeping over every run, what \<^verbatim>\<open>Apply\<close> leaves in the kernel, how it retries, and the
  hash in the text of a rule.
\<close>

section \<open>Runs\<close>

text \<open>
  A run of a table: changes of its desired state and calls of \<^verbatim>\<open>Apply\<close>, which may fail. The chains that rules are inserted into or
  appended to are not ours.
\<close>

inductive table_run :: "'w ipt_env \<Rightarrow> table \<Rightarrow> table \<Rightarrow> bool" for env where
  start: "table_run env t t"
| insert: "table_run env t0 t \<Longrightarrow> \<not> our_chain t k \<Longrightarrow> table_run env t0 (InsertOrAppendRules k rs t)"
| append: "table_run env t0 t \<Longrightarrow> \<not> our_chain t k \<Longrightarrow> table_run env t0 (AppendRules k rs t)"
| update: "table_run env t0 t \<Longrightarrow> table_run env t0 (UpdateChain c t)"
| remove: "table_run env t0 t \<Longrightarrow> table_run env t0 (RemoveChainByName nm t)"
| applied: "table_run env t0 t \<Longrightarrow> (\<And>m n. map_iteration (ords m n)) \<Longrightarrow> Apply env ords t w = (Ok (d, t'), w') \<Longrightarrow> table_run env t0 t'"
| failed: "table_run env t0 t \<Longrightarrow> (\<And>m n. map_iteration (ords m n)) \<Longrightarrow> Apply env ords t w = (Err (e, t'), w') \<Longrightarrow> table_run env t0 t'"

text \<open>The rules to insert and the chains marked for insertion belong to chains that are not ours.\<close>

definition apart :: "table \<Rightarrow> bool" where
  "apart t \<longleftrightarrow> (\<forall>c\<in>set (tb_dirty_ins t). \<not> our_chain t c)"

definition booked :: "table \<Rightarrow> bool" where
  "booked t \<longleftrightarrow> counted t \<and> synced t \<and> apart t"

lemma counted_cong: "same_desired t t' \<Longrightarrow> counted t' = counted t"
proof -
  assume sd: "same_desired t t'"
  have tr: "table_rules t' = table_rules t" using same_desired_cong(3) [OF sd] by auto
  then have "refs_from t' = refs_from t" "holders t' = holders t" by (simp_all add: refs_from_def fun_eq_iff holders_def)
  then show ?thesis using sd by (simp add: counted_def same_desired_def)
qed

text \<open>Reading marks every chain of ours whose hashes are not the desired ones.\<close>

lemma booked_load:
  assumes ord: "\<And>n. map_iteration (ord n)" and b: "booked t" and l: "loadDataplaneState env ord t w = (Ok t1, w')"
  shows "booked t1"
proof -
  obtain now dp fr where t1: "t1 = (compare_dataplane ord dp (t\<lparr>tb_last_read := now\<rparr>))\<lparr>tb_hashes := dp, tb_full := fr, tb_in_sync := True\<rparr>"
    using l by (auto simp: loadDataplaneState_def bindp_def ret_def split: prod.splits outcome.splits)
  let ?t = "t\<lparr>tb_last_read := now\<rparr>"
  from marks_compare [of ord dp ?t, OF ord] obtain D I where c: "compare_dataplane ord dp ?t = with_dirty D I ?t"
    and D: "\<And>c. c \<in> set D \<longleftrightarrow> c \<in> set (tb_dirty ?t) \<or> our_chain ?t c \<and> c \<notin> set (tb_dirty_ins ?t) \<and> map_of dp c \<noteq> map_of (tb_hashes ?t) c"
    and I: "\<And>c. c \<in> set I \<Longrightarrow> c \<in> set (tb_dirty_ins ?t) \<or> \<not> our_chain ?t c"
    unfolding marks_def by blast
  have sd: "same_desired t t1" by (simp add: t1 c same_desired_def with_dirty_def)
  have o: "our_chain ?t c = our_chain t c" for c by (simp add: our_chain_def)
  have "synced t1"
    unfolding synced_def
  proof (intro allI impI)
    fix c assume oc: "our_chain t1 c" and nd: "c \<notin> set (tb_dirty t1)"
    have "our_chain t c" using oc same_desired_cong(1) [OF sd] by simp
    moreover have "c \<notin> set (tb_dirty_ins t)" using b \<open>our_chain t c\<close> by (auto simp: booked_def apart_def)
    moreover have "c \<notin> set D" using nd by (simp add: t1 c with_dirty_def)
    ultimately have "c \<notin> set (tb_dirty t)" "map_of dp c = map_of (tb_hashes t) c" using D [of c] o by auto
    then show "map_of (tb_hashes t1) c = map_option (RuleHashes (tb_opt t1)) (desiredStateOfChain t1 c)"
      using b \<open>our_chain t c\<close> same_desired_cong(2) [OF sd] sd by (simp add: booked_def synced_def t1 c with_dirty_def same_desired_def)
  qed
  moreover have "apart t1"
    using I b o same_desired_cong(1) [OF sd] by (auto simp: apart_def booked_def t1 c with_dirty_def)
  ultimately show ?thesis using b counted_cong [OF sd] by (simp add: booked_def)
qed

lemma booked_invalidate: "booked t \<Longrightarrow> booked (InvalidateDataplaneCache t)"
  using counted_cong [of t "InvalidateDataplaneCache t"]
  by (simp add: booked_def synced_def apart_def our_chain_def desiredStateOfChain_def same_desired_def)

section \<open>Updates keep the books\<close>

lemma insert_visit_keys:
  assumes "insert_visit t k st = (x, st')"
  shows "(\<forall>c. c \<noteq> k \<longrightarrow> map_of (is_hashes st') c = map_of (is_hashes st) c) \<and> (distinct (map fst (is_hashes st)) \<longrightarrow> distinct (map fst (is_hashes st')))"
  using assms by (auto simp: insert_visit_def Let_def update_conv' distinct_update split: prod.splits if_splits option.splits)

lemma iter_insert_keys:
  "iter_loop (insert_visit t) xs s st = (s', st') \<Longrightarrow>
    (\<forall>c. c \<notin> set xs \<longrightarrow> map_of (is_hashes st') c = map_of (is_hashes st) c) \<and> (distinct (map fst (is_hashes st)) \<longrightarrow> distinct (map fst (is_hashes st')))"
proof (induction xs arbitrary: s st)
  case (Cons x xs)
  obtain e st1 where v: "insert_visit t x st = (e, st1)" by (cases "insert_visit t x st")
  note k = insert_visit_keys [OF v]
  consider "e = StopIteration" "st' = st1" | "\<exists>s1. iter_loop (insert_visit t) xs s1 st1 = (s', st')"
    using Cons.prems v by (cases e) auto
  then show ?case
  proof cases
    case 2
    then show ?thesis using Cons.IH k by fastforce
  qed (use k in auto)
qed simp

lemma visited_iter:
  assumes "\<And>n. map_iteration (ord n)"
  shows "set_Iter (ord 0) (forward_visit t) (tb_dirty t) [] = (visited t, filter (flushed t) (ord 0 (tb_dirty t)))"
  using map_iteration.set_visits [OF assms, of 0] by (simp add: set_Iter_def iter_forward visited_def cong: filter_cong)

lemma plan_hashes_ours:
  assumes ord: "\<And>n. map_iteration (ord n)" and p: "plan_updates ord t = Ok (b, nh, fr)" and c: "c \<notin> set (tb_dirty_ins t)"
  shows "map_of (store_hashes nh (tb_hashes t)) c =
    (if c \<in> set (visited t) then map_option (RuleHashes (tb_opt t)) (desiredStateOfChain t c) else map_of (tb_hashes t) c)"
proof -
  note sv = map_iteration.set_visits [OF ord]
  have upd: "snd (set_Iter (ord 1) (update_visit t) (visited t) ([], [])) =
      (concat (map (update_lines t) (ord 1 (visited t))), fold (update_hash t) (ord 1 (visited t)) [])"
    by (simp add: set_Iter_def iter_update)
  have gn: "snd (set_Iter (ord n) (gone_visit t) (visited t) []) = filter (gone t) (ord n (visited t))" for n
    by (simp add: set_Iter_def iter_gone gone_def [abs_def])
  define st0 where "st0 = \<lparr>is_lines = [], is_hashes = fold (update_hash t) (ord 1 (visited t)) [], is_full = tb_full t, is_failed = False\<rparr>"
  obtain s1 st1 where it: "set_Iter (ord 2) (insert_visit t) (tb_dirty_ins t) st0 = (s1, st1)" by (cases "set_Iter (ord 2) (insert_visit t) (tb_dirty_ins t) st0")
  then have k: "map_of (is_hashes st1) c = map_of (is_hashes st0) c" "distinct (map fst (is_hashes st1))"
    using iter_insert_keys [of t "ord 2 (tb_dirty_ins t)" "tb_dirty_ins t" st0] c by (auto simp: set_Iter_def sv st0_def distinct_update_hash)
  have nh: "nh = fold (\<lambda>c. AList.update c None) (filter (gone t) (ord 4 (visited t))) (is_hashes st1)"
    using p by (auto simp: plan_updates_def visited_iter [of ord, OF ord] upd gn st0_def [symmetric] it Let_def simp del: One_nat_def split: if_splits)
  have "distinct (map fst nh)" using k(2) by (simp add: nh distinct_gone)
  then show ?thesis
    by (auto simp: map_of_store_hashes nh map_of_gone k(1) st0_def map_of_update_hash sv gone_def)
qed

lemma booked_visited:
  assumes "booked t" "same_desired t t'" "tb_hashes t' = tb_hashes t" "tb_dirty t' = visited t" "tb_dirty_ins t' = tb_dirty_ins t"
  shows "booked t'"
proof -
  have "synced t'" unfolding synced_def
  proof (intro allI impI)
    fix c assume c: "our_chain t' c" "c \<notin> set (tb_dirty t')"
    have "skipped t c \<or> c \<notin> set (tb_dirty t)" using c(2) assms(4) by (auto simp: visited_def)
    then have "map_of (tb_hashes t) c = map_option (RuleHashes (tb_opt t)) (desiredStateOfChain t c)"
      using assms(1) c(1) same_desired_cong(1) [OF assms(2)] by (auto simp: skipped_def booked_def synced_def)
    then show "map_of (tb_hashes t') c = map_option (RuleHashes (tb_opt t')) (desiredStateOfChain t' c)"
      using assms(2,3) same_desired_cong(2) [OF assms(2)] by (simp add: same_desired_def)
  qed
  moreover have "apart t'" using assms(1,5) same_desired_cong(1) [OF assms(2)] by (simp add: booked_def apart_def)
  ultimately show ?thesis using assms(1) counted_cong [OF assms(2)] by (simp add: booked_def)
qed

lemma booked_applyUpdates:
  assumes ord: "\<And>n. map_iteration (ord n)" and b: "booked t"
  shows "applyUpdates env ord t w = (Ok t', w') \<Longrightarrow> booked t' \<and> tb_dirty t' = [] \<and> tb_dirty_ins t' = []"
    and "applyUpdates env ord t w = (Err (e, t'), w') \<Longrightarrow> booked t'"
proof -
  assume a: "applyUpdates env ord t w = (Ok t', w')"
  then obtain bf nh fr where p: "plan_updates ord t = Ok (bf, nh, fr)" by (cases "plan_updates ord t") (auto simp: applyUpdates_def Let_def)
  have f: "same_desired t t'" "tb_dirty t' = []" "tb_dirty_ins t' = []" "tb_hashes t' = store_hashes nh (tb_hashes t)"
    using a p by (auto simp: applyUpdates_def Let_def same_desired_def set_New_def split: if_splits outcome.splits prod.splits)
  have "synced t'" unfolding synced_def
  proof (intro allI impI)
    fix c assume c: "our_chain t' c"
    then have oc: "our_chain t c" using same_desired_cong(1) [OF f(1)] by simp
    then have "c \<notin> set (tb_dirty_ins t)" using b by (auto simp: booked_def apart_def)
    then have "map_of (tb_hashes t') c = map_option (RuleHashes (tb_opt t)) (desiredStateOfChain t c)"
      using plan_hashes_ours [of ord, OF ord p] f(4) b oc by (auto simp: visited_def skipped_def booked_def synced_def)
    then show "map_of (tb_hashes t') c = map_option (RuleHashes (tb_opt t')) (desiredStateOfChain t' c)"
      using f(1) same_desired_cong(2) [OF f(1)] by (simp add: same_desired_def)
  qed
  then show "booked t' \<and> tb_dirty t' = [] \<and> tb_dirty_ins t' = []" using f b counted_cong [OF f(1)] by (simp add: booked_def apart_def)
next
  assume a: "applyUpdates env ord t w = (Err (e, t'), w')"
  have "t' = t \<or> t' = t\<lparr>tb_dirty := visited t\<rparr> \<or> t' = t\<lparr>tb_dirty := visited t, tb_in_sync := False\<rparr>"
    using a by (auto simp: applyUpdates_def Let_def visited_iter [of ord, OF ord] split: if_splits outcome.splits prod.splits)
  then show "booked t'" using b booked_visited [OF b] by (auto simp: same_desired_def)
qed

definition fine :: "(ipt_err \<times> table, table) outcome \<Rightarrow> bool" where
  "fine x = (case x of Ok t \<Rightarrow> booked t \<and> tb_dirty t = [] \<and> tb_dirty_ins t = [] | Err (e, t) \<Rightarrow> booked t | _ \<Rightarrow> True)"

lemma booked_first:
  assumes ord: "\<And>n. map_iteration (ord n)" and b: "booked t"
    and f: "(if \<not> tb_in_sync t then or_fail (\<lambda>e. (e, t)) (loadDataplaneState env ord t) else ret t) w = (x, w1)"
  shows "case x of Ok t1 \<Rightarrow> booked t1 | Err (e, t1) \<Rightarrow> booked t1 | _ \<Rightarrow> True"
proof (cases "tb_in_sync t")
  case False
  obtain y w2 where y: "loadDataplaneState env ord t w = (y, w2)" by (cases "loadDataplaneState env ord t w")
  then have x: "x = oc_map_err (\<lambda>e. (e, t)) y" using f False by (simp add: or_fail_def)
  show ?thesis using booked_load [of ord, OF ord b] y b by (cases y) (auto simp: x)
qed (use b f in \<open>auto simp: ret_def\<close>)

lemma fine_applyUpdates:
  assumes ord: "\<And>n. map_iteration (ord n)" and b: "booked t" and y: "applyUpdates env ord t w = (y, w')"
  shows "fine y"
proof (cases y)
  case (Ok t')
  then show ?thesis using booked_applyUpdates(1) [of ord, OF ord b y [unfolded Ok]] by (simp add: fine_def)
next
  case (Err x)
  obtain e t' where x: "x = (e, t')" by (cases x)
  show ?thesis using booked_applyUpdates(2) [of ord, OF ord b y [unfolded Err x]] by (simp add: fine_def Err x)
qed (simp_all add: fine_def)

lemma booked_retry:
  assumes ord: "\<And>m n. map_iteration (ords m n)"
  shows "booked t \<Longrightarrow> fine (fst (apply_retry env ords r t w))"
proof (induction r arbitrary: t w)
  case (0 t w)
  obtain x w1 where x: "(if \<not> tb_in_sync t then or_fail (\<lambda>e. (e, t)) (loadDataplaneState env (ords 0) t) else ret t) w = (x, w1)" by (meson surj_pair)
  note bx = booked_first [of "ords 0", OF ord 0 x]
  show ?case
  proof (cases x)
    case (Ok t1)
    obtain y w2 where y: "applyUpdates env (ords 0) t1 w1 = (y, w2)" by (meson surj_pair)
    have "fine y" using fine_applyUpdates [of "ords 0", OF ord _ y] bx Ok by simp
    then show ?thesis by (subst apply_retry.simps, cases y) (auto simp: bindp_def x Ok y fine_def split: prod.split)
  qed (use bx in \<open>subst apply_retry.simps, auto simp: bindp_def x fine_def\<close>)+
next
  case (Suc r t w)
  obtain x w1 where x: "(if \<not> tb_in_sync t then or_fail (\<lambda>e. (e, t)) (loadDataplaneState env (ords (Suc r)) t) else ret t) w = (x, w1)" by (meson surj_pair)
  note bx = booked_first [of "ords (Suc r)", OF ord Suc.prems x]
  show ?case
  proof (cases x)
    case (Ok t1)
    obtain y w2 where y: "applyUpdates env (ords (Suc r)) t1 w1 = (y, w2)" by (meson surj_pair)
    have "fine y" using fine_applyUpdates [of "ords (Suc r)", OF ord _ y] bx Ok by simp
    then show ?thesis using Suc.IH by (subst apply_retry.simps, cases y) (auto simp: bindp_def x Ok y fine_def split: prod.split)
  qed (use bx in \<open>subst apply_retry.simps, auto simp: bindp_def x fine_def\<close>)+
qed

lemma booked_aged: "booked t \<Longrightarrow> aged t u \<Longrightarrow> booked u"
  using counted_cong [of t u] same_desired_cong [of t u] by (auto simp: booked_def aged_def synced_def apart_def same_desired_def)

lemma booked_Apply:
  assumes ord: "\<And>m n. map_iteration (ords m n)" and b: "booked t"
  shows "Apply env ords t w = (Ok (d, t'), w') \<Longrightarrow> booked t' \<and> tb_dirty t' = [] \<and> tb_dirty_ins t' = []"
    and "Apply env ords t w = (Err (e, t'), w') \<Longrightarrow> booked t'"
proof -
  obtain now w0 where n: "ie_now env w = (now, w0)" by (meson surj_pair)
  obtain u where u: "aged t u" "Apply env ords t w = (Diverge, w0) \<or> Apply env ords t w = bindp (apply_retry env ords 10 u) (\<lambda>t. ret (reschedule now t, t)) w0"
    using Apply_start [OF n, of t ords] by (auto split: if_splits)
  obtain y w1 where y: "apply_retry env ords 10 u w0 = (y, w1)" by (meson surj_pair)
  have f: "fine y" using booked_retry [of ords u env 10 w0, OF ord booked_aged [OF b u(1)]] y by simp
  show "Apply env ords t w = (Ok (d, t'), w') \<Longrightarrow> booked t' \<and> tb_dirty t' = [] \<and> tb_dirty_ins t' = []"
    using u(2) f by (cases y) (auto simp: bindp_def ret_def fine_def y)
  show "Apply env ords t w = (Err (e, t'), w') \<Longrightarrow> booked t'"
    using u(2) f by (cases y) (auto simp: bindp_def ret_def fine_def y)
qed

section \<open>Properties\<close>

lemma booked_NewTable:
  assumes "NewTable lookPath now nm ipVersion hashPrefix opt = Ok t" "\<forall>c\<in>set (tableToKernelChains nm). \<not> our_chain t c"
  shows "booked t"
  using assms counted_NewTable [OF assms(1)]
  by (auto simp: booked_def NewTable_def Let_def synced_def apart_def desiredStateOfChain_def set_New_def simp del: tableToKernelChains.simps split: if_splits)

lemma ops_dirty_ins:
  "tb_dirty_ins (InsertOrAppendRules k rs t) = set_Add k (tb_dirty_ins t)" "tb_dirty_ins (AppendRules k rs t) = set_Add k (tb_dirty_ins t)"
  "tb_dirty_ins (UpdateChain c t) = tb_dirty_ins t" "tb_dirty_ins (RemoveChainByName k t) = tb_dirty_ins t"
  "tb_opt (InsertOrAppendRules k rs t) = tb_opt t" "tb_opt (AppendRules k rs t) = tb_opt t" "tb_opt (UpdateChain c t) = tb_opt t" "tb_opt (RemoveChainByName k t) = tb_opt t"
  by (simp_all add: table_op_defs split: option.split)

lemma booked_ops:
  assumes "booked t"
  shows "\<not> our_chain t k \<Longrightarrow> booked (InsertOrAppendRules k rs t)" "\<not> our_chain t k \<Longrightarrow> booked (AppendRules k rs t)"
    "booked (UpdateChain c t)" "booked (RemoveChainByName k t)"
proof -
  have b: "counted t" "synced t" "apart t" using assms by (simp_all add: booked_def)
  have "apart (InsertOrAppendRules k rs t)" "apart (AppendRules k rs t)" if "\<not> our_chain t k"
    using that b(3) by (auto simp: apart_def our_chain_def ops_dirty_ins)
  then show "\<not> our_chain t k \<Longrightarrow> booked (InsertOrAppendRules k rs t)" "\<not> our_chain t k \<Longrightarrow> booked (AppendRules k rs t)"
    using counted_Insert [OF b(1)] synced_Insert [OF b(1,2)] counted_Append [OF b(1)] synced_Append [OF b(1,2)] by (simp_all add: booked_def)
  have "apart (UpdateChain c t)" "apart (RemoveChainByName k t)"
    using b(3) by (simp_all add: apart_def our_chain_def ops_dirty_ins)
  then show "booked (UpdateChain c t)" "booked (RemoveChainByName k t)"
    using counted_UpdateChain [OF b(1)] synced_UpdateChain [OF b(1,2)] counted_RemoveChain [OF b(1)] synced_RemoveChain [OF b(1,2)] by (simp_all add: booked_def)
qed

text \<open>C3. In every run that starts from a new table, through any sequence of changes and of successful or failed calls of Apply with
  arbitrary answers of the commands, the reference count of a chain is the number of references to it (plus one for a chain of the
  kernel), and every chain of ours that is not marked dirty has the desired hashes in the cache.\<close>

theorem table_run_booked:
  assumes "NewTable lookPath now nm ipVersion hashPrefix opt = Ok t0" "\<forall>c\<in>set (tableToKernelChains nm). \<not> our_chain t0 c"
    and "table_run env t0 t"
  shows "counted t \<and> synced t"
proof -
  have "booked t" using assms(3) booked_NewTable [OF assms(1,2)]
  proof (induction rule: table_run.induct)
    case (applied t0 t ords w d t' w')
    then show ?case using booked_Apply(1) [of ords, OF applied(2) _ applied(3)] by simp
  next
    case (failed t0 t ords w e t' w')
    then show ?case using booked_Apply(2) [of ords, OF failed(2) _ failed(3)] by simp
  qed (simp_all add: booked_ops)
  then show ?thesis by (simp add: booked_def)
qed


text \<open>When more than ten runs of iptables-restore fail and some chain of ours in the kernel is not as desired, Apply gives up with
  an error after eleven runs, and the kernel is as it was.\<close>

theorem Apply_gives_up:
  assumes "\<And>m n. map_iteration (ords m n)" "saved_form (tb_hash_prefix t) norm" "kernel_ok norm K" "ready t K"
    and "\<not> tb_in_sync t" "- (2 ^ 63) \<le> tb_post_write t" "tb_post_write t < 2 ^ 63" "n > 10" "our_chain t c" "\<not> chain_ok t K c"
  shows "\<exists>t'. Apply (kernel_env (tb_name t) norm now) ords t (n, K) = (Err (GaveUp RestoreFailed, t'), n - 11, K) \<and> same_desired t t'"
proof -
  let ?env = "kernel_env (tb_name t) norm now"
  obtain u where u: "aged t u" "Apply ?env ords t (n, K) = bindp (apply_retry ?env ords 10 u) (\<lambda>t. ret (reschedule now t, t)) (n, K)"
    using Apply_start [of ?env "(n, K)" now "(n, K)" t ords] widen_returns [OF assms(6,7), of now "tb_last_write t" False] by (auto simp: kernel_env_def)
  have sd: "same_desired t u" and nm: "tb_name u = tb_name t" "tb_hash_prefix u = tb_hash_prefix t" using u(1) by (simp_all add: aged_def same_desired_def)
  have "\<not> tb_in_sync u" "our_chain u c" "\<not> chain_ok u K c"
    using assms(5,9,10) u(1) same_desired_cong(1) [OF sd] same_desired_chain(1) [OF sd] by (auto simp: aged_def)
  then obtain t' where "apply_retry ?env ords 10 u (n, K) = (Err (GaveUp RestoreFailed, t'), n - 10 - 1, K)" "same_desired u t'"
    using retry_fails [of ords norm K u 10 n c now, OF assms(1,3) aged_ready [OF u(1) assms(4)] _ assms(8)] assms(2) unfolding nm by blast
  then show ?thesis using u(2) same_desired_trans [OF sd] by (auto simp: bindp_def)
qed

text \<open>The loop that widens the refresh interval ends for every 64-bit interval, also for one that overflows while it is doubled.\<close>

theorem widen_terminates:
  assumes "- (2 ^ 63) \<le> interval" "interval < 2 ^ 63"
  shows "\<exists>i b. widen now lastWrite interval invalid = Some (i, b)"
  using widen_returns [OF assms] .

text \<open>C30. The hash written into the comment of a rule is the one found when its line is read back, whatever the comments, the match
  and the action of the rule are.\<close>

theorem RenderAppend_find_hash:
  assumes "valid_chain c" "h \<in> set (RuleHashes opt ch)"
  shows "find_hash (tb_hash_prefix t) (RenderAppend c (commentFrag t h) (tb_opt t) r) = Some h"
proof -
  have "find_hash (tb_hash_prefix t) (rule_spec t h r) = Some h"
    using RuleHashes_words [OF assms(2)] by (intro find_hash_rule_spec) auto
  then show ?thesis using find_hash_rule_line [OF assms(1), of "tb_hash_prefix t" "rule_spec t h r"] by (simp add: RenderAppend_spec rule_line_def)
qed

text \<open>A chain that only has appended rules is not repaired: when another program has removed all of our rules from it, reading the
  kernel does not mark it, unlike a chain with inserted rules.\<close>

theorem append_only_not_marked:
  assumes "\<And>n. map_iteration (ord n)" "\<not> our_chain t c" "c \<notin> set (tb_dirty_ins t)" "tb_inserted t c = []"
    and "map_of dp c = Some hs" "\<forall>h\<in>set hs. h = []"
  shows "c \<notin> set (tb_dirty_ins (compare_dataplane ord dp t))"
proof -
  obtain D I where "compare_dataplane ord dp t = with_dirty D I t" and
    I: "c \<in> set I \<longrightarrow> c \<in> set (tb_dirty_ins t) \<or> (if map_of (tb_hashes t) c = None then list_ex (\<lambda>h. h \<noteq> []) (lookup_list dp c) else stale_foreign t c (map_of dp c))"
    using marks_compare [of ord dp t, OF assms(1)] unfolding marks_def by blast
  moreover have "\<not> list_ex (\<lambda>h. h \<noteq> []) (lookup_list dp c)" "\<not> stale_foreign t c (map_of dp c)"
    using assms(4-6) by (auto simp: lookup_list_def stale_foreign_def list_ex_iff)
  ultimately show ?thesis using assms(3) by (auto split: if_splits)
qed

section \<open>An example\<close>

text \<open>A filter table that sends forwarded packets through one chain of ours, on a kernel with a rule of another program.\<close>

definition ex_options :: options where
  "ex_options = \<lparr>op_prefixes = [''EGW-''], op_backend = ''legacy'', op_insert_mode = ''insert'', op_refresh = 0, op_post_write = 50000000,
     op_snat_random = False, op_masq_random = False, op_restore_lock = False, op_lock_timeout = 0, op_lock_probe = 0\<rparr>"

definition ex_start :: table where
  "ex_start = \<lparr>tb_name = ''filter'', tb_version = 4, tb_opt = ex_options, tb_hash_prefix = ''egw:'', tb_nft = False,
     tb_inserted = (\<lambda>_. []), tb_appended = (\<lambda>_. []), tb_dirty_ins = [''INPUT'', ''FORWARD'', ''OUTPUT''], tb_chains = Map.empty,
     tb_refs = (\<lambda>c. if c \<in> set [''INPUT'', ''FORWARD'', ''OUTPUT''] then 1 else 0), tb_dirty = [], tb_in_sync = False, tb_hashes = [], tb_full = [],
     tb_last_read = 0, tb_last_write = 7, tb_post_write = 50000000\<rparr>"

definition ex_jump :: rule where
  "ex_jump = \<lparr>ru_match = [], ru_action = Some (JumpAction ''EGW-A''), ru_comment = []\<rparr>"

definition ex_chain :: chain where
  "ex_chain = \<lparr>ch_name = ''EGW-A'', ch_rules = [\<lparr>ru_match = [], ru_action = Some AcceptAction, ru_comment = []\<rparr>]\<rparr>"

definition ex_table :: table where
  "ex_table = InsertOrAppendRules ''FORWARD'' [ex_jump] (UpdateChain ex_chain ex_start)"

definition ex_kernel :: kernel where
  "ex_kernel = [(''INPUT'', []), (''FORWARD'', [''-j KUBE-FORWARD'']), (''OUTPUT'', [])]"

lemma ex_NewTable: "NewTable (\<lambda>_. True) 7 ''filter'' 4 ''egw:'' ex_options = Ok ex_start"
  by (simp add: NewTable_def FindBestBinary_def ex_options_def ex_start_def to_lower_def minPostWriteInterval_def set_AddAll_def set_Add_def add_key_def set_New_def fun_eq_iff)

lemma ex_kernel_chains: "\<forall>c\<in>set (tableToKernelChains ''filter''). \<not> our_chain ex_start c"
  by (simp add: our_chain_def ex_start_def ex_options_def)

lemma ex_run: "table_run env ex_start ex_table"
  unfolding ex_table_def
  by (intro table_run.intros) (simp add: our_chain_def table_op_defs ex_start_def ex_options_def ex_chain_def increfReferredChains_def referred_def map_filter_simps InvalidateDataplaneCache_def)

theorem table_run_booked_witness: "counted ex_table \<and> synced ex_table"
  by (rule table_run_booked [OF ex_NewTable ex_kernel_chains ex_run])

lemma ex_table_eq: "ex_table = ex_start\<lparr>tb_inserted := (\<lambda>_. [])(''FORWARD'' := [ex_jump]), tb_chains := [''EGW-A'' \<mapsto> ex_chain],
    tb_refs := (tb_refs ex_start)(''EGW-A'' := 1), tb_dirty := [''EGW-A'']\<rparr>"
  by (simp add: ex_table_def table_op_defs ex_start_def ex_chain_def ex_jump_def increfReferredChains_def decrefReferredChains_def referred_def
      map_filter_simps InvalidateDataplaneCache_def increfChain_def set_Add_def add_key_def fun_eq_iff)

lemma ex_ours: "our_chain ex_table c \<longleftrightarrow> prefix ''EGW-'' c"
  by (simp add: our_chain_def ex_table_eq ex_start_def ex_options_def)

lemma ex_kernel_ok: "kernel_ok (\<lambda>s. s) ex_kernel"
  by (simp add: kernel_ok_def ex_kernel_def valid_chain_def not_space_def suffix_def)

lemma ex_saved_form: "saved_form (tb_hash_prefix ex_table) (\<lambda>s. s)"
  by (simp add: saved_form_def)

lemma ex_ready: "ready ex_table ex_kernel"
proof -
  have r: "table_rules ex_table k = (if k = ''EGW-A'' then ch_rules ex_chain else if k = ''FORWARD'' then [ex_jump] else [])" for k
    by (simp add: table_rules_def ex_table_eq ex_start_def)
  have "one_line (tb_opt ex_table) r" if "r \<in> set (table_rules ex_table k)" for r k
    using that by (auto simp: r ex_chain_def ex_jump_def one_line_def Render_def split: if_splits)
  moreover have "distinct (tb_dirty ex_table) \<and> distinct (tb_dirty_ins ex_table)" by (simp add: ex_table_eq ex_start_def)
  moreover have "\<forall>c\<in>set (tb_dirty ex_table). our_chain ex_table c \<and> valid_chain c"
    by (simp add: ex_ours) (simp add: ex_table_eq valid_chain_def not_space_def suffix_def)
  moreover have "\<forall>c\<in>set (tb_dirty_ins ex_table). \<not> our_chain ex_table c \<and> map_of ex_kernel c \<noteq> None"
    by (simp add: ex_ours) (simp add: ex_table_eq ex_start_def ex_kernel_def)
  ultimately have "table_fits ex_table ex_kernel"
    by (simp add: table_fits_def) (simp add: ex_table_eq ex_start_def ex_options_def)
  moreover have "\<forall>c. map_of (tb_hashes ex_table) c \<noteq> None \<longrightarrow> valid_chain c" by (simp add: ex_table_eq ex_start_def)
  moreover have "\<forall>c. tb_inserted ex_table c \<noteq> [] \<longrightarrow> \<not> our_chain ex_table c \<and> map_of ex_kernel c \<noteq> None \<and> (c \<in> set (tb_dirty_ins ex_table) \<or> map_of (tb_hashes ex_table) c \<noteq> None)"
    by (auto simp: ex_ours) (auto simp: ex_table_eq ex_start_def ex_kernel_def split: if_splits)
  moreover have "synced ex_table" using booked_ops(3) [OF booked_NewTable [OF ex_NewTable ex_kernel_chains]]
    by (auto simp: ex_table_def booked_def intro!: synced_Insert)
  ultimately show ?thesis by (simp add: ready_def)
qed

lemma ex_orders: "map_iteration ((\<lambda>_ _ ks. ks) (m::nat) (n::nat))"
  by unfold_locales simp


theorem Apply_gives_up_witness: "\<exists>t'. Apply (kernel_env (tb_name ex_table) (\<lambda>s. s) 1000) (\<lambda>_ _ ks. ks) ex_table (15, ex_kernel) =
    (Err (GaveUp RestoreFailed, t'), 15 - 11, ex_kernel) \<and> same_desired ex_table t'"
proof (rule Apply_gives_up [OF ex_orders ex_saved_form ex_kernel_ok ex_ready, where c = "''EGW-A''"])
  show "our_chain ex_table ''EGW-A''" by (simp add: ex_ours)
  show "\<not> chain_ok ex_table ex_kernel ''EGW-A''" by (simp add: chain_ok_def ex_table_eq ex_kernel_def desiredStateOfChain_def)
qed (simp_all add: ex_table_eq ex_start_def)

theorem widen_terminates_witness: "\<exists>i b. widen 9000000000000000000 0 4700000000000000000 False = Some (i, b)"
  by (rule widen_terminates) simp_all

theorem RenderAppend_find_hash_witness: "\<exists>h. h \<in> set (RuleHashes ex_options ex_chain) \<and>
    find_hash (tb_hash_prefix ex_table) (RenderAppend ''EGW-A'' (commentFrag ex_table h) (tb_opt ex_table) ex_jump) = Some h"
proof -
  have "RuleHashes ex_options ex_chain \<noteq> []" using length_RuleHashes [of ex_options ex_chain] by (auto simp: ex_chain_def simp del: length_RuleHashes)
  then obtain h where h: "h \<in> set (RuleHashes ex_options ex_chain)" by (cases "RuleHashes ex_options ex_chain") auto
  have "valid_chain ''EGW-A''" by (simp add: valid_chain_def not_space_def suffix_def)
  then show ?thesis using RenderAppend_find_hash [OF _ h, of "''EGW-A''" ex_table ex_jump] h by blast
qed

theorem append_only_not_marked_witness:
  "''FORWARD'' \<notin> set (tb_dirty_ins (compare_dataplane (\<lambda>_ ks. ks) [(''FORWARD'', [[]])]
     (ex_start\<lparr>tb_appended := (\<lambda>_. [])(''FORWARD'' := [ex_jump]), tb_dirty_ins := [], tb_hashes := [(''FORWARD'', [[], ''egw''])]\<rparr>)))"
proof (rule append_only_not_marked)
  show "map_iteration ((\<lambda>_ ks. ks) (n::nat))" for n by unfold_locales simp
  show "map_of [(''FORWARD'', [[]])] ''FORWARD'' = Some [[]]" by simp
qed (simp_all add: our_chain_def ex_start_def ex_options_def)

end
