(* ===== verification/IpSet.thy ===== *)
theory IpSet
  imports IptRules
begin

text \<open>
  \<^verbatim>\<open>pkg/ipset\<close>: the validation of sets and entries and the runner of the \<^verbatim>\<open>ipset\<close> command. The
  command is a parameter: it takes its arguments and yields its output together with the text of an error.
  The errors of the runner are texts, since callers search them; those of the validation are
  constructors. Set names hold no regular-expression operators.
\<close>

section \<open>Sets and entries\<close>

definition HashIPPort :: string where "HashIPPort = ''hash:ip,port''"
definition HashIPPortIP :: string where "HashIPPortIP = ''hash:ip,port,ip''"
definition HashIPPortNet :: string where "HashIPPortNet = ''hash:ip,port,net''"
definition BitmapPort :: string where "BitmapPort = ''bitmap:port''"
definition HashIP :: string where "HashIP = ''hash:ip''"
definition HashNet :: string where "HashNet = ''hash:net''"
definition DefaultPortRange :: string where "DefaultPortRange = ''0-65535''"
definition ProtocolFamilyIPV4 :: string where "ProtocolFamilyIPV4 = ''inet''"
definition ProtocolFamilyIPV6 :: string where "ProtocolFamilyIPV6 = ''inet6''"
definition ProtocolTCP :: string where "ProtocolTCP = ''tcp''"
definition ProtocolUDP :: string where "ProtocolUDP = ''udp''"
definition ProtocolSCTP :: string where "ProtocolSCTP = ''sctp''"

definition ValidIPSetTypes :: "string list" where
  "ValidIPSetTypes = [HashIPPort, HashIPPortIP, BitmapPort, HashIPPortNet, HashIP, HashNet]"

lemmas set_type_defs [eval_simps] = HashIPPort_def HashIPPortIP_def HashIPPortNet_def BitmapPort_def HashIP_def HashNet_def
lemmas family_defs [eval_simps] = ProtocolFamilyIPV4_def ProtocolFamilyIPV6_def

record ip_set =
  set_name :: string
  set_type :: string
  hash_family :: string
  hash_size :: int
  max_elem :: int
  port_span :: string
  set_comment :: string

record entry =
  en_ip :: string
  en_port :: int
  en_protocol :: string
  en_net :: string
  en_ip2 :: string
  en_set_type :: string

datatype invalid =
    BadFamily string
  | BadType string
  | RangeFormat
  | RangeNumber string
  | NegativePort int
  | BadHashSize int
  | BadMaxElem int
  | BadProtocol string
  | BadIP string
  | BadNet string
  | NoSet
  | PortNotInRange int

type_synonym checked = "(invalid, unit) outcome"

section \<open>Validation\<close>

text \<open>\<^verbatim>\<open>strconv.Atoi\<close>: an optional sign, at least one digit, a value of 64 bits.\<close>

fun digits_value :: "nat \<Rightarrow> string \<Rightarrow> nat option" where
  "digits_value v [] = Some v"
| "digits_value v (c # s) = (case dec_digit c of None \<Rightarrow> None | Some d \<Rightarrow> digits_value (v * 10 + d) s)"

definition Atoi :: "string \<Rightarrow> int option" where
  "Atoi s =
     (let (neg, ds) = (case s of c # r \<Rightarrow> if c = CHR ''-'' then (True, r) else if c = CHR ''+'' then (False, r) else (False, s) | [] \<Rightarrow> (False, s))
      in if ds = [] then None
         else case digits_value 0 ds of
           None \<Rightarrow> None
         | Some v \<Rightarrow> (let i = (if neg then - int v else int v) in if - (2 ^ 63) \<le> i \<and> i < 2 ^ 63 then Some i else None))"

fun check_ports :: "string list \<Rightarrow> checked" where
  "check_ports [] = Ok ()"
| "check_ports (s # strs) = (case Atoi s of
     None \<Rightarrow> Err (RangeNumber s)
   | Some num \<Rightarrow> if num < 0 then Err (NegativePort num) else check_ports strs)"

definition validatePortRange :: "string \<Rightarrow> checked" where
  "validatePortRange portRange =
     (let strs = split_on (CHR ''-'') portRange in if length strs \<noteq> 2 then Err RangeFormat else check_ports strs)"

definition validateIPSetType :: "string \<Rightarrow> checked" where
  "validateIPSetType ty = (if list_ex (\<lambda>valid. ty = valid) ValidIPSetTypes then Ok () else Err (BadType ty))"

definition validateHashFamily :: "string \<Rightarrow> checked" where
  "validateHashFamily family = (if family = ProtocolFamilyIPV4 \<or> family = ProtocolFamilyIPV6 then Ok () else Err (BadFamily family))"

definition validateProtocol :: "string \<Rightarrow> checked" where
  "validateProtocol protocol = (if protocol = ProtocolTCP \<or> protocol = ProtocolUDP \<or> protocol = ProtocolSCTP then Ok () else Err (BadProtocol protocol))"

text \<open>The begin and the end of a port range, in order.\<close>

definition parsePortRange :: "string \<Rightarrow> (invalid, int \<times> int) outcome" where
  "parsePortRange portRange =
     (let portRange = (if portRange = [] then DefaultPortRange else portRange); strs = split_on (CHR ''-'') portRange in
      if length strs \<noteq> 2 then Err RangeFormat
      else oc_bind (check_ports strs) (\<lambda>_.
        let a = the (Atoi (strs ! 0)); b = the (Atoi (strs ! 1)) in Ok (if a > b then (b, a) else (a, b))))"

definition has_family :: "string \<Rightarrow> bool" where
  "has_family ty = (ty = HashIPPort \<or> ty = HashIPPortIP \<or> ty = HashIPPortNet \<or> ty = HashNet)"

definition set_Validate :: "ip_set \<Rightarrow> checked" where
  "set_Validate s =
     oc_bind (if has_family (set_type s) then validateHashFamily (hash_family s) else Ok ()) (\<lambda>_.
     oc_bind (validateIPSetType (set_type s)) (\<lambda>_.
     oc_bind (if set_type s = BitmapPort then validatePortRange (port_span s) else Ok ()) (\<lambda>_.
     if hash_size s \<le> 0 then Err (BadHashSize (hash_size s))
     else if max_elem s \<le> 0 then Err (BadMaxElem (max_elem s)) else Ok ())))"

definition setIPSetDefaults :: "ip_set \<Rightarrow> ip_set" where
  "setIPSetDefaults s =
     s\<lparr>hash_size := (if hash_size s = 0 then 1024 else hash_size s),
       max_elem := (if max_elem s = 0 then 65536 else max_elem s),
       hash_family := (if hash_family s = [] then ProtocolFamilyIPV4 else hash_family s),
       set_type := (if length (set_type s) = 0 then HashIPPort else set_type s),
       port_span := (if length (port_span s) = 0 then DefaultPortRange else port_span s)\<rparr>"

text \<open>The entry itself is changed: an empty protocol becomes TCP.\<close>

definition checkIPandProtocol :: "entry \<Rightarrow> entry \<times> checked" where
  "checkIPandProtocol e =
     (let r = (if length (en_protocol e) = 0 then Ok () else validateProtocol (en_protocol e));
          e = (if length (en_protocol e) = 0 then e\<lparr>en_protocol := ProtocolTCP\<rparr> else e)
      in (e, oc_bind r (\<lambda>_. if ParseIP (en_ip e) = nil_ip then Err (BadIP (en_ip e)) else Ok ())))"

definition entry_Validate :: "entry \<Rightarrow> ip_set option \<Rightarrow> entry \<times> checked" where
  "entry_Validate e st =
     (if en_port e < 0 then (e, Err (NegativePort (en_port e)))
      else if en_set_type e = HashIPPort then checkIPandProtocol e
      else if en_set_type e = HashIPPortIP then
        (case checkIPandProtocol e of (e, r) \<Rightarrow>
          (e, oc_bind r (\<lambda>_. if ParseIP (en_ip2 e) = nil_ip then Err (BadIP (en_ip2 e)) else Ok ())))
      else if en_set_type e = HashIPPortNet then
        (case checkIPandProtocol e of (e, r) \<Rightarrow>
          (e, oc_bind r (\<lambda>_. if ParseCIDR (en_net e) = None then Err (BadNet (en_net e)) else Ok ())))
      else if en_set_type e = BitmapPort then
        (e, case st of
          None \<Rightarrow> Err NoSet
        | Some s \<Rightarrow> oc_bind (parsePortRange (port_span s)) (\<lambda>(first, final).
            if en_port e < first \<or> en_port e > final then Err (PortNotInRange (en_port e)) else Ok ()))
      else if en_set_type e = HashIP then (e, if ParseIP (en_ip e) = nil_ip then Err (BadIP (en_ip e)) else Ok ())
      else if en_set_type e = HashNet then (e, if ParseCIDR (en_net e) = None then Err (BadNet (en_net e)) else Ok ())
      else (e, Ok ()))"

definition entry_String :: "entry \<Rightarrow> string" where
  "entry_String e =
     (let base = en_ip e @ '','' @ en_protocol e @ '':'' @ dec_int (en_port e) in
      if en_set_type e = HashIPPort then base
      else if en_set_type e = HashIPPortIP then base @ '','' @ en_ip2 e
      else if en_set_type e = HashIPPortNet then base @ '','' @ en_net e
      else if en_set_type e = BitmapPort then dec_int (en_port e)
      else if en_set_type e = HashIP then en_ip e
      else if en_set_type e = HashNet then en_net e
      else [])"

section \<open>The runner\<close>

type_synonym 'w ipset_cmd = "string list \<Rightarrow> 'w \<Rightarrow> (string \<times> string option) \<times> 'w"

datatype ipset_err = InvalidSet invalid | Failed string

text \<open>A run of the command: its output, or the text made from the error and the output.\<close>

definition run_cmd :: "'w ipset_cmd \<Rightarrow> string list \<Rightarrow> (string \<Rightarrow> string \<Rightarrow> string) \<Rightarrow> ('w, string, string) prog" where
  "run_cmd exec args msg w = (case exec args w of ((out, err), w) \<Rightarrow>
     (case err of None \<Rightarrow> (Ok out, w) | Some e \<Rightarrow> (Err (msg e out), w)))"

definition create_args :: "ip_set \<Rightarrow> bool \<Rightarrow> string list" where
  "create_args s ignoreExistErr =
     [''create'', set_name s, set_type s] @
     (if has_family (set_type s)
      then [''family'', hash_family s, ''hashsize'', dec_int (hash_size s), ''maxelem'', dec_int (max_elem s)] else []) @
     (if set_type s = BitmapPort then [''range'', port_span s] else []) @
     (if ignoreExistErr then [''-exist''] else [])"

definition createSet :: "'w ipset_cmd \<Rightarrow> ip_set \<Rightarrow> bool \<Rightarrow> ('w, string, unit) prog" where
  "createSet exec s ignoreExistErr =
     bindp (run_cmd exec (create_args s ignoreExistErr)
       (\<lambda>err out. ''error creating ipset '' @ set_name s @ '', error: '' @ err @ '', out: '' @ out)) (\<lambda>_. ret ())"

text \<open>The caller's set gets the defaults.\<close>

definition CreateSet :: "'w ipset_cmd \<Rightarrow> ip_set \<Rightarrow> bool \<Rightarrow> ('w, ipset_err, ip_set) prog" where
  "CreateSet exec s ignoreExistErr =
     (let s = setIPSetDefaults s in
      bindp (lift (oc_map_err InvalidSet (set_Validate s))) (\<lambda>_.
      bindp (or_fail Failed (createSet exec s ignoreExistErr)) (\<lambda>_. ret s)))"

definition AddEntry :: "'w ipset_cmd \<Rightarrow> string \<Rightarrow> ip_set \<Rightarrow> bool \<Rightarrow> ('w, string, unit) prog" where
  "AddEntry exec entry s ignoreExistErr =
     bindp (run_cmd exec ([''add'', set_name s, entry] @ (if ignoreExistErr then [''-exist''] else []))
       (\<lambda>err out. ''error adding entry '' @ entry @ '', error: '' @ err)) (\<lambda>_. ret ())"

definition DelEntry :: "'w ipset_cmd \<Rightarrow> string \<Rightarrow> string \<Rightarrow> ('w, string, unit) prog" where
  "DelEntry exec entry setName =
     bindp (run_cmd exec [''del'', setName, entry]
       (\<lambda>err out. ''error deleting entry '' @ entry @ '': from set: '' @ setName @ '', error: '' @ err)) (\<lambda>_. ret ())"

fun has_text :: "string \<Rightarrow> string \<Rightarrow> bool" where
  "has_text p [] = (p = [])"
| "has_text p (c # s) = (take (length p) (c # s) = p \<or> has_text p s)"

definition TestEntry :: "'w ipset_cmd \<Rightarrow> string \<Rightarrow> string \<Rightarrow> ('w, string, bool) prog" where
  "TestEntry exec entry setName =
     bindp (run_cmd exec [''test'', setName, entry]
       (\<lambda>err out. ''error testing entry '' @ entry @ '': '' @ err @ '' ('' @ out @ '')''))
       (\<lambda>out. ret (\<not> has_text (''is NOT in set '' @ setName) out))"

definition FlushSet :: "'w ipset_cmd \<Rightarrow> string \<Rightarrow> ('w, string, unit) prog" where
  "FlushSet exec setName =
     bindp (run_cmd exec [''flush'', setName] (\<lambda>err out. ''error flushing set: '' @ setName @ '', error: '' @ err)) (\<lambda>_. ret ())"

definition DestroySet :: "'w ipset_cmd \<Rightarrow> string \<Rightarrow> ('w, string, unit) prog" where
  "DestroySet exec setName =
     bindp (run_cmd exec [''destroy'', setName]
       (\<lambda>err out. ''error destroying set '' @ setName @ '', error: '' @ err @ ''('' @ out @ '')'')) (\<lambda>_. ret ())"

definition DestroyAllSets :: "'w ipset_cmd \<Rightarrow> ('w, string, unit) prog" where
  "DestroyAllSets exec = bindp (run_cmd exec [''destroy''] (\<lambda>err out. ''error destroying all sets, error: '' @ err)) (\<lambda>_. ret ())"

definition newline :: char where "newline = CHR 0x0A"

definition ListSets :: "'w ipset_cmd \<Rightarrow> ('w, string, string list) prog" where
  "ListSets exec =
     bindp (run_cmd exec [''list'', ''-n''] (\<lambda>err out. ''error listing all sets, error: '' @ err)) (\<lambda>out. ret (split_on newline out))"

text \<open>
  The pattern of the header takes as many lines as it can: what remains are the lines after the last
  complete line that reads \<^verbatim>\<open>Members:\<close>, or everything when there is none.
\<close>

fun after_members :: "string list \<Rightarrow> string list option" where
  "after_members (x # y # ls) = (case after_members (y # ls) of
     Some rest \<Rightarrow> Some rest
   | None \<Rightarrow> if x = ''Members:'' then Some (y # ls) else None)"
| "after_members ls = None"

definition member_lines :: "string \<Rightarrow> string list" where
  "member_lines out =
     (let ls = split_on newline out
      in filter (\<lambda>s. length s > 0) (case after_members ls of None \<Rightarrow> ls | Some rest \<Rightarrow> rest))"

definition ListEntries :: "'w ipset_cmd \<Rightarrow> string \<Rightarrow> ('w, string, string list) prog" where
  "ListEntries exec setName =
     (if length setName = 0 then fail (''set name can'' @ [CHR 0x27] @ ''t be nil'')
      else bindp (run_cmd exec [''list'', setName]
        (\<lambda>err out. ''error listing set: '' @ setName @ '', error: '' @ err @ '' ('' @ out @ '')'')) (\<lambda>out. ret (member_lines out)))"

definition is_digit :: "char \<Rightarrow> bool" where
  "is_digit c = (dec_digit c \<noteq> None)"

text \<open>The first match of \<^verbatim>\<open>v[0-9]+\.[0-9]+\<close>.\<close>

definition version_here :: "string \<Rightarrow> string option" where
  "version_here s = (case s of
     [] \<Rightarrow> None
   | c # r \<Rightarrow>
       (let a = takeWhile is_digit r; r = dropWhile is_digit r in
        if c \<noteq> CHR ''v'' \<or> a = [] then None
        else case r of
          [] \<Rightarrow> None
        | d # r \<Rightarrow> (let b = takeWhile is_digit r in if d \<noteq> CHR ''.'' \<or> b = [] then None else Some ([c] @ a @ [d] @ b))))"

fun find_version :: "string \<Rightarrow> string option" where
  "find_version [] = None"
| "find_version (c # s) = (case version_here (c # s) of Some v \<Rightarrow> Some v | None \<Rightarrow> find_version s)"

definition getIPSetVersionString :: "'w ipset_cmd \<Rightarrow> ('w, string, string) prog" where
  "getIPSetVersionString exec =
     bindp (run_cmd exec [''--version''] (\<lambda>err out. err)) (\<lambda>out. case find_version out of
       None \<Rightarrow> fail (''no ipset version found in string: '' @ out)
     | Some v \<Rightarrow> ret v)"

definition IsNotFoundError :: "string \<Rightarrow> bool" where
  "IsNotFoundError es = (has_text ''does not exist'' es \<or> has_text ''element is missing'' es)"

section \<open>Facts\<close>

lemma has_text_iff: "has_text p s \<longleftrightarrow> (\<exists>a b. s = a @ p @ b)"
proof (induction s)
  case (Cons c s)
  have "take (length p) (c # s) = p \<longleftrightarrow> (\<exists>b. c # s = p @ b)"
    by (metis append_eq_conv_conj)
  moreover have "(\<exists>a b. c # s = a @ p @ b) \<longleftrightarrow> (\<exists>b. c # s = p @ b) \<or> (\<exists>a b. s = a @ p @ b)"
    by (auto simp: Cons_eq_append_conv)
  ultimately show ?case using Cons by simp
qed auto

text \<open>The entries that a listing shows are read back.\<close>

definition listing :: "string list \<Rightarrow> string list \<Rightarrow> string" where
  "listing header members = concat (map (\<lambda>l. l @ [newline]) (header @ [''Members:''] @ members))"

definition plain_line :: "string \<Rightarrow> bool" where
  "plain_line l = (newline \<notin> set l \<and> l \<noteq> [] \<and> l \<noteq> ''Members:'')"

lemma split_lines:
  "\<forall>l \<in> set ls. newline \<notin> set l \<Longrightarrow> split_on newline (concat (map (\<lambda>l. l @ [newline]) ls)) = ls @ [[]]"
  by (induction ls) (simp_all add: split_on_append)

lemma after_members_none: "''Members:'' \<notin> set ls \<Longrightarrow> after_members ls = None"
  by (induction ls rule: after_members.induct) auto

lemma after_members_header:
  "''Members:'' \<notin> set ms \<Longrightarrow> ms \<noteq> [] \<Longrightarrow> after_members (hs @ ''Members:'' # ms) = Some ms"
proof (induction hs)
  case Nil
  then show ?case by (cases ms) (auto simp: after_members_none)
next
  case (Cons h hs)
  then obtain y ys where "hs @ ''Members:'' # ms = y # ys" by (cases hs) auto
  with Cons show ?case by simp
qed

lemma member_lines_listing:
  assumes "\<forall>l \<in> set header. newline \<notin> set l" "list_all plain_line members"
  shows "member_lines (listing header members) = members"
proof -
  have "split_on newline (listing header members) = header @ ''Members:'' # members @ [[]]"
    unfolding listing_def using assms by (subst split_lines) (auto simp: list_all_iff plain_line_def newline_def)
  moreover have "filter (\<lambda>s. length s > 0) members = members" using assms(2) by (auto simp: list_all_iff plain_line_def intro!: filter_True)
  moreover have "''Members:'' \<notin> set (members @ [[]])" using assms(2) by (auto simp: list_all_iff plain_line_def)
  ultimately show ?thesis by (simp add: member_lines_def after_members_header)
qed

end
