(* ===== verification/AgentRules.thy ===== *)
theory AgentRules
  imports IptTable IpSet MarkAllocator EndpointSlice
begin

text \<open>
  The pure part of \<^verbatim>\<open>pkg/agent/police.go\<close>: marks, the names of the sets of a policy, the difference
  between the entries of a set and the wanted ones, and the rules the agent writes. A map of rules is an association
  list. \<^verbatim>\<open>MarkMatchesWithMask\<close> panics on a mark outside its mask, and so do the builders that call it.
\<close>

section \<open>Constants and marks\<close>

definition EgressClusterCIDRIPv4 :: string where "EgressClusterCIDRIPv4 = ''egress-cluster-cidr-ipv4''"
definition EgressClusterCIDRIPv6 :: string where "EgressClusterCIDRIPv6 = ''egress-cluster-cidr-ipv6''"
definition Mark :: "32 word" where "Mark = 0xff000000"
definition Mask :: "32 word" where "Mask = 0xffffffff"

datatype agent_err =
    AgApi api_err
  | AgSelector
  | AgMark
  | AgCidr string
  | AgSet ipset_err
  | AgTable ipt_err
  | AgRequest

text \<open>\<^verbatim>\<open>strconv.ParseInt\<close> in base 16 for 32 bits: an optional sign, digits, and a signed range.\<close>

definition parse_int_hex32 :: "string \<Rightarrow> int option" where
  "parse_int_hex32 s =
     (let (neg, ds) = (case s of c # r \<Rightarrow> if c = CHR ''-'' then (True, r) else if c = CHR ''+'' then (False, r) else (False, s) | [] \<Rightarrow> (False, s))
      in if ds = [] then None
         else case hex_value 0 ds of
           None \<Rightarrow> None
         | Some v \<Rightarrow> (let i = (if neg then - int v else int v) in if - (2 ^ 31) \<le> i \<and> i < 2 ^ 31 then Some i else None))"

definition parseMark :: "string \<Rightarrow> (agent_err, 32 word) outcome" where
  "parseMark mark = (case parse_int_hex32 (remove_0x mark) of None \<Rightarrow> Err AgMark | Some i \<Rightarrow> Ok (of_int i))"

section \<open>Names of sets\<close>

datatype ip_kind = IPSrc | IPDst

datatype ip_stack = StackIPv4 | StackIPv6

fun HashFamily :: "ip_stack \<Rightarrow> string" where
  "HashFamily StackIPv4 = ''inet''"
| "HashFamily StackIPv6 = ''inet6''"

record SetName =
  sn_name :: string
  sn_stack :: ip_stack
  sn_kind :: ip_kind

definition hashed_name :: "string \<Rightarrow> string \<Rightarrow> string" where
  "hashed_name pre nm = pre @ take (31 - length pre) (concat (map hex_byte (sha1 (bytes_of_string nm))))"

text \<open>A prefix of more than 31 characters is a slice bound out of range.\<close>

definition formatIPSetName :: "string \<Rightarrow> string \<Rightarrow> ('e, string) outcome" where
  "formatIPSetName pre nm = (if length pre > 31 then Panic else Ok (hashed_name pre nm))"

definition set_entry :: "ip_stack \<Rightarrow> ip_kind \<Rightarrow> string \<Rightarrow> string \<Rightarrow> ('e, SetName) outcome" where
  "set_entry stack kind pre nm = oc_bind (formatIPSetName pre nm) (\<lambda>n. Ok \<lparr>sn_name = n, sn_stack = stack, sn_kind = kind\<rparr>)"

definition buildIPSetNamesByPolicy :: "string \<Rightarrow> string \<Rightarrow> bool \<Rightarrow> bool \<Rightarrow> ('e, SetName list) outcome" where
  "buildIPSetNamesByPolicy ns nm enableIPv4 enableIPv6 =
     (let nm = (if ns \<noteq> [] then ns @ ''-'' @ nm else nm) in
      oc_bind (if enableIPv4 then oc_mapM (\<lambda>f. f nm) [set_entry StackIPv4 IPSrc ''egress-src-v4-'', set_entry StackIPv4 IPDst ''egress-dst-v4-'']
               else Ok []) (\<lambda>list4.
      oc_bind (if enableIPv6 then oc_mapM (\<lambda>f. f nm) [set_entry StackIPv6 IPSrc ''egress-src-v6-'', set_entry StackIPv6 IPDst ''egress-dst-v6-'']
               else Ok []) (\<lambda>list6.
      Ok (list4 @ list6))))"

section \<open>Entries\<close>

text \<open>
  \<^verbatim>\<open>0.0.0.0/0\<close> becomes two halves; the result has no duplicates and the order of the map.
\<close>

definition expandAnyCIDR :: "string iter_order \<Rightarrow> string list \<Rightarrow> string list" where
  "expandAnyCIDR ord ips =
     ord (map_keys (concat (map (\<lambda>ip. if ip = ''0.0.0.0/0'' then [''0.0.0.0/1'', ''128.0.0.0/1''] else [ip]) ips)))"

definition diff_form :: "string \<Rightarrow> string" where
  "diff_form s =
     (if suffix ''/32'' s then take (length s - 3) s
      else if suffix ''/128'' s then
        (let ip = ParseIP (take (length s - 4) s) in if to16 ip \<noteq> nil_ip then ip_string (to16 ip) else s)
      else case ParseCIDR s of None \<Rightarrow> s | Some (_, cidr) \<Rightarrow> ipnet_string cidr)"

definition findDiff :: "string list \<Rightarrow> string list \<Rightarrow> string list \<times> string list" where
  "findDiff oldList newList =
     (let newCopy = map diff_form newList
      in (filter (\<lambda>s. s \<notin> set oldList) newCopy, filter (\<lambda>s. s \<notin> set newCopy) oldList))"

fun getDstCIDR :: "string list \<Rightarrow> (agent_err, string list \<times> string list) outcome" where
  "getDstCIDR [] = Ok ([], [])"
| "getDstCIDR (item # list) = (case ParseCIDR item of
     None \<Rightarrow> Err (AgCidr item)
   | Some (ip, ipNet) \<Rightarrow> oc_bind (getDstCIDR list) (\<lambda>(list4, list6).
       Ok (if ip = nil_ip then (list4, list6)
           else if to4 ip \<noteq> nil_ip then (ipnet_string ipNet # list4, list6) else (list4, ipnet_string ipNet # list6))))"

section \<open>Rules\<close>

definition DirectionOriginal :: string where "DirectionOriginal = ''ORIGINAL''"
definition DirectionReply :: string where "DirectionReply = ''REPLY''"

record IP =
  V4 :: string
  V6 :: string

definition mk_rule :: "criteria \<Rightarrow> action \<Rightarrow> string \<Rightarrow> rule" where
  "mk_rule m a comment = \<lparr>ru_match = m, ru_action = Some a, ru_comment = [comment]\<rparr>"

text \<open>The match of the rule of a policy: its destinations, or everything outside the cluster.\<close>

definition policy_match :: "string \<Rightarrow> 8 word \<Rightarrow> bool \<Rightarrow> ('e, criteria) outcome" where
  "policy_match policyName version isIgnoreInternalCIDR =
     (let tmp = (if version = 6 then ''v6-'' else ''v4-'');
          ignoreName = (if version = 6 then EgressClusterCIDRIPv6 else EgressClusterCIDRIPv4)
      in oc_bind (formatIPSetName (''egress-src-'' @ tmp) policyName) (\<lambda>srcName.
         oc_bind (formatIPSetName (''egress-dst-'' @ tmp) policyName) (\<lambda>dstName.
         Ok (CTDirectionOriginal DirectionOriginal
              (if isIgnoreInternalCIDR then NotDestIPSet ignoreName (SourceIPSet srcName Match)
               else DestIPSet dstName (SourceIPSet srcName Match))))))"

definition buildEipRule :: "string \<Rightarrow> IP \<Rightarrow> 8 word \<Rightarrow> bool \<Rightarrow> bool \<Rightarrow> ('e, rule) outcome" where
  "buildEipRule policyName eip version isIgnoreInternalCIDR useNodeIP =
     oc_bind (policy_match policyName version isIgnoreInternalCIDR) (\<lambda>m.
     Ok (mk_rule m (if useNodeIP then MasqAction [] else SNATAction (if version = 6 then V6 eip else V4 eip)) (''snat policy '' @ policyName)))"

definition buildPolicyRule :: "string \<Rightarrow> 32 word \<Rightarrow> 8 word \<Rightarrow> bool \<Rightarrow> ('e, rule) outcome" where
  "buildPolicyRule policyName mark version isIgnoreInternalCIDR =
     oc_bind (policy_match policyName version isIgnoreInternalCIDR) (\<lambda>m.
     Ok (mk_rule m (SetMaskedMarkAction mark Mask) (''Set mark for EgressPolicy '' @ policyName)))"

definition traffic :: string where "traffic = ''Accept for egress traffic from pod going to EgressTunnel''"
definition datapath :: string where "datapath = ''EgressGateway traffic accept datapath rule''"
definition reply_path :: string where "reply_path = ''EgressGateway reply datapath rule, rule is from the EgressGateway''"

type_synonym chain_rules = "(string \<times> rule list) list"

definition buildNatStaticRule :: "32 word \<Rightarrow> ('e, chain_rules) outcome" where
  "buildNatStaticRule base =
     oc_bind (MarkMatchesWithMask base Mask Match) (\<lambda>whole.
     oc_bind (MarkMatchesWithMask base Mark Match) (\<lambda>high.
     Ok [(''POSTROUTING'', [mk_rule Match (JumpAction ''EGRESSGATEWAY-SNAT-EIP'') ''SNAT for egress traffic'', mk_rule whole AcceptAction traffic]),
         (''PREROUTING'', [mk_rule high AcceptAction datapath])]))"

definition buildFilterStaticRule :: "32 word \<Rightarrow> ('e, chain_rules) outcome" where
  "buildFilterStaticRule base =
     oc_bind (MarkMatchesWithMask base Mask Match) (\<lambda>whole.
     Ok [(''FORWARD'', [mk_rule whole AcceptAction traffic]), (''OUTPUT'', [mk_rule whole AcceptAction traffic])])"

text \<open>The flag of the reply route is not used.\<close>

definition buildMangleStaticRule :: "32 word \<Rightarrow> bool \<Rightarrow> bool \<Rightarrow> 32 word \<Rightarrow> ('e, chain_rules) outcome" where
  "buildMangleStaticRule base isEgressNode enableGatewayReplyRoute replyMark =
     oc_bind (MarkMatchesWithMask base Mark Match) (\<lambda>high.
     oc_bind (MarkMatchesWithMask base Mask Match) (\<lambda>whole.
     oc_bind (if isEgressNode then MarkMatchesWithMask replyMark Mask Match else Ok []) (\<lambda>reply.
     Ok [(''FORWARD'', [mk_rule high (SetMaskedMarkAction base Mask) traffic]),
         (''POSTROUTING'', [mk_rule whole AcceptAction traffic] @
            (if isEgressNode then [mk_rule reply (SetMaskedMarkAction 0 Mask) ''clear the Mark of the inner package, rule is from the EgressGateway'']
             else [])),
         (''PREROUTING'', [mk_rule Match (JumpAction ''EGRESSGATEWAY-MARK-REQUEST'') ''Checking for EgressPolicy matched traffic'', mk_rule high AcceptAction datapath] @
            (if isEgressNode then [mk_rule Match (JumpAction ''EGRESSGATEWAY-REPLY-ROUTING'') reply_path, mk_rule high AcceptAction reply_path]
             else []))])))"

definition buildPreroutingReplyRouting :: "string \<Rightarrow> 32 word \<Rightarrow> string \<Rightarrow> string \<Rightarrow> (agent_err, rule list) outcome" where
  "buildPreroutingReplyRouting vxlanName base replyMark mac =
     oc_bind (parseMark replyMark) (\<lambda>mark.
     oc_bind (MarkMatchesWithMask mark Mask Match) (\<lambda>marked.
     let inner = SrcMacSource mac (InInterface vxlanName Match) in
     Ok [mk_rule (CTDirectionOriginal DirectionOriginal inner) (SetMaskedMarkAction mark Mask)
           ''Mark the traffic from the EgressGateway tunnel, rule is from the EgressGateway'',
         mk_rule marked (SaveConnMarkAction Mask) ''Save mark to the connection, rule is from the EgressGateway'',
         mk_rule inner (SetMaskedMarkAction base Mask) ''Clear Mark of the inner package, rule is from the EgressGateway'']))"

section \<open>Event filters\<close>

datatype agent_event = CreateEv | DeleteEv | UpdateEv | GenericEv

fun policyPredicate :: "agent_event \<Rightarrow> bool" where
  "policyPredicate DeleteEv = True"
| "policyPredicate UpdateEv = True"
| "policyPredicate _ = False"

fun epSlicePredicate :: "agent_event \<Rightarrow> bool" where
  "epSlicePredicate CreateEv = True"
| "epSlicePredicate UpdateEv = True"
| "epSlicePredicate _ = False"

definition enqueueEndpointSlice :: "object_meta \<Rightarrow> request list" where
  "enqueueEndpointSlice obj = (case map_of (om_labels obj) LabelPolicyName of
     None \<Rightarrow> []
   | Some policyName \<Rightarrow>
       if om_namespace obj = [] then [\<lparr>req_namespace = ''EgressClusterPolicy/'', req_name = policyName\<rparr>]
       else [\<lparr>req_namespace = path_join ''EgressPolicy'' (om_namespace obj), req_name = policyName\<rparr>])"

end
