(* ===== verification/AgentPolice.thy ===== *)
theory AgentPolice
  imports AgentRules
begin

text \<open>
  The policy reconciler of \<^verbatim>\<open>pkg/agent/police.go\<close>. It runs over the state of the API server, the sets of the
  kernel, the iptables of the kernel, the map of the sets it has made, its tables and the mark of its first run. The
  client, the \<^verbatim>\<open>ipset\<close> command, the commands of each table, the conversion of label selectors and the
  orders of map iterations are parameters. A reconcile function yields \<open>Ok\<close> of the \<^verbatim>\<open>Requeue\<close> flag, or
  \<open>Err\<close> of the flag and the error. The error \<^verbatim>\<open>ErrAlreadyAddedEntry\<close> is no result of the runner.
\<close>

section \<open>The reconciler\<close>

record 'c agent_client =
  ac_list_gateways :: "('c, egress_gateway list) api"
  ac_get_gateway :: "string \<Rightarrow> ('c, egress_gateway) api"
  ac_list_tunnels :: "('c, egress_tunnel list) api"
  ac_get_tunnel :: "string \<Rightarrow> ('c, egress_tunnel) api"
  ac_get_policy :: "object_key \<Rightarrow> ('c, egress_policy) api"
  ac_get_cpolicy :: "object_key \<Rightarrow> ('c, egress_cluster_policy) api"
  ac_list_slices :: "string \<Rightarrow> (labels \<Rightarrow> bool) \<Rightarrow> ('c, egress_endpoint_slice list) api"
  ac_list_cslices :: "(labels \<Rightarrow> bool) \<Rightarrow> ('c, egress_endpoint_slice list) api"
  ac_get_info :: "object_key \<Rightarrow> ('c, cluster_info) api"

record agent_config =
  cf_node_name :: string
  cf_enable_ipv4 :: bool
  cf_enable_ipv6 :: bool
  cf_mark :: string
  cf_reply_route :: bool
  cf_reply_mark :: int
  cf_vxlan_name :: string

datatype table_kind = MangleTable | FilterTable | NatTable

record ('c, 'k, 'x) policeReconciler =
  pr_client :: "'c agent_client"
  pr_conv :: conversion
  pr_cfg :: agent_config
  pr_ipset :: "'k ipset_cmd"
  pr_env :: "8 word \<Rightarrow> string \<Rightarrow> 'x ipt_env"

record ('c, 'k, 'x) agent_world =
  aw_api :: 'c
  aw_kernel :: 'k
  aw_sets :: "(string \<times> ip_set) list"
  aw_ipt :: 'x
  aw_tables :: "table_kind \<Rightarrow> table list"
  aw_started :: bool

text \<open>The orders of the loops over maps, by the loop and, where a loop runs once per table, by the table.\<close>

record agent_orders =
  ao_strings :: "nat \<Rightarrow> string iter_order"
  ao_policies :: "nat \<Rightarrow> policy iter_order"
  ao_apply :: "table_kind \<Rightarrow> nat \<Rightarrow> nat \<Rightarrow> orders"

type_synonym ('c, 'k, 'x, 'a) agent = "(('c, 'k, 'x) agent_world, agent_err, 'a) prog"
type_synonym ('c, 'k, 'x) agent_rec = "(('c, 'k, 'x) agent_world, bool \<times> agent_err, bool) prog"

definition on_api :: "('c, 'a) api \<Rightarrow> (('c, 'k, 'x) agent_world, api_err, 'a) prog" where
  "on_api m w = (case m (aw_api w) of (r, c) \<Rightarrow> (r, w\<lparr>aw_api := c\<rparr>))"

definition on_ipset :: "('k, 'e, 'a) prog \<Rightarrow> (('c, 'k, 'x) agent_world, 'e, 'a) prog" where
  "on_ipset m w = (case m (aw_kernel w) of (r, k) \<Rightarrow> (r, w\<lparr>aw_kernel := k\<rparr>))"

abbreviation call_api :: "('c, 'a) api \<Rightarrow> ('c, 'k, 'x, 'a) agent" where
  "call_api m \<equiv> or_fail AgApi (on_api m)"

abbreviation call_ipset :: "('k, string, 'a) prog \<Rightarrow> ('c, 'k, 'x, 'a) agent" where
  "call_ipset m \<equiv> or_fail (\<lambda>e. AgSet (Failed e)) (on_ipset m)"

definition load_sets :: "string \<Rightarrow> (('c, 'k, 'x) agent_world, 'e, ip_set option) prog" where
  "load_sets nm w = (Ok (map_of (aw_sets w) nm), w)"

definition store_sets :: "string \<Rightarrow> ip_set \<Rightarrow> (('c, 'k, 'x) agent_world, 'e, unit) prog" where
  "store_sets nm s w = (Ok (), w\<lparr>aw_sets := AList.update nm s (aw_sets w)\<rparr>)"

definition delete_sets :: "string \<Rightarrow> (('c, 'k, 'x) agent_world, 'e, unit) prog" where
  "delete_sets nm w = (Ok (), w\<lparr>aw_sets := AList.delete nm (aw_sets w)\<rparr>)"

section \<open>Sets\<close>

definition ensureClusterInfoIPSet :: "('c, 'k, 'x) policeReconciler \<Rightarrow> ('c, 'k, 'x, unit) agent" where
  "ensureClusterInfoIPSet r =
     (let make = (\<lambda>nm fam. or_fail AgSet (on_ipset (CreateSet (pr_ipset r)
            \<lparr>set_name = nm, set_type = HashNet, hash_family = fam, hash_size = 0, max_elem = 0, port_span = [], set_comment = []\<rparr> True)))
      in bindp (make EgressClusterCIDRIPv4 ''inet'') (\<lambda>_. bindp (make EgressClusterCIDRIPv6 ''inet6'') (\<lambda>_. ret ())))"

definition createIPSet :: "('c, 'k, 'x) policeReconciler \<Rightarrow> SetName \<Rightarrow> ('c, 'k, 'x, unit) agent" where
  "createIPSet r s =
     bindp (load_sets (sn_name s)) (\<lambda>found.
     if found \<noteq> None then ret ()
     else if sn_stack s = StackIPv4 \<and> \<not> cf_enable_ipv4 (pr_cfg r) then ret ()
     else if sn_stack s = StackIPv6 \<and> \<not> cf_enable_ipv6 (pr_cfg r) then ret ()
     else bindp (or_fail AgSet (on_ipset (CreateSet (pr_ipset r)
            \<lparr>set_name = sn_name s, set_type = HashNet, hash_family = HashFamily (sn_stack s), hash_size = 0, max_elem = 0,
              port_span = [], set_comment = []\<rparr> True))) (store_sets (sn_name s)))"

definition removeIPSet :: "('c, 'k, 'x) policeReconciler \<Rightarrow> string \<Rightarrow> ('c, 'k, 'x, unit) agent" where
  "removeIPSet r nm =
     bindp (load_sets nm) (\<lambda>found.
     if found = None then ret ()
     else bindp (attempt (on_ipset (DestroySet (pr_ipset r) nm))) (\<lambda>_. delete_sets nm))"

text \<open>The addresses of the live endpoints that pass the filter, by family.\<close>

definition slice_ips :: "(egress_endpoint \<Rightarrow> bool) \<Rightarrow> egress_endpoint_slice list \<Rightarrow> string list \<times> string list" where
  "slice_ips keep items =
     (let es = filter keep (concat (map es_endpoints (filter (\<lambda>ep. \<not> om_deleting (es_meta ep)) items)))
      in (concat (map ee_ipv4 es), concat (map ee_ipv6 es)))"

definition getPolicySrcIPs :: "('c, 'k, 'x) policeReconciler \<Rightarrow> string \<Rightarrow> string \<Rightarrow> (egress_endpoint \<Rightarrow> bool) \<Rightarrow>
    ('c, 'k, 'x, string list \<times> string list) agent" where
  "getPolicySrcIPs r policyNs policyName keep =
     bindp (lift (case pr_conv r (policy_label policyName) of None \<Rightarrow> Err AgSelector | Some f \<Rightarrow> Ok f)) (\<lambda>sel.
     bindp (call_api (if policyNs = [] then ac_list_cslices (pr_client r) sel else ac_list_slices (pr_client r) policyNs sel))
       (\<lambda>items. ret (slice_ips keep items)))"

definition wanted_of :: "agent_config \<Rightarrow> (string list \<times> string list) \<Rightarrow> (string list \<times> string list) \<Rightarrow> SetName \<Rightarrow> string list option" where
  "wanted_of cfg src dst s =
     (let (list4, list6) = (case sn_kind s of IPSrc \<Rightarrow> src | IPDst \<Rightarrow> dst) in
      if sn_stack s = StackIPv4 \<and> cf_enable_ipv4 cfg then Some list4 else if cf_enable_ipv6 cfg then Some list6 else None)"

text \<open>The entries to add and to delete, by set; a set that does not exist has no entries.\<close>

definition plan_set :: "('c, 'k, 'x) policeReconciler \<Rightarrow> (string list \<times> string list) \<Rightarrow> (string list \<times> string list) \<Rightarrow> SetName \<Rightarrow>
    (string \<times> string list) list \<times> (string \<times> string list) list \<Rightarrow>
    ('c, 'k, 'x, (string \<times> string list) list \<times> (string \<times> string list) list) agent" where
  "plan_set r src dst s plans =
     bindp (attempt (on_ipset (ListEntries (pr_ipset r) (sn_name s)))) (\<lambda>old.
     bindp (case old of
         Inr ms \<Rightarrow> ret ms
       | Inl e \<Rightarrow> if has_text ''The set with the given name does not exist'' e then ret [] else fail (AgSet (Failed e))) (\<lambda>old.
     ret (case plans of (adds, dels) \<Rightarrow> (case wanted_of (pr_cfg r) src dst s of
         None \<Rightarrow> (adds, dels)
       | Some new \<Rightarrow> (case findDiff old new of (toAdd, toDel) \<Rightarrow>
           (AList.update (sn_name s) toAdd adds, AList.update (sn_name s) toDel dels))))))"

definition lookup_ips :: "(string \<times> string list) list \<Rightarrow> string \<Rightarrow> string list" where
  "lookup_ips m k = (case map_of m k of None \<Rightarrow> [] | Some v \<Rightarrow> v)"

definition add_entries :: "('c, 'k, 'x) policeReconciler \<Rightarrow> (string \<times> string list) list \<Rightarrow> string \<Rightarrow> ('c, 'k, 'x, unit) agent" where
  "add_entries r toAdd nm =
     bindp (load_sets nm) (\<lambda>found. case found of
       None \<Rightarrow> ret ()
     | Some s \<Rightarrow> for_each (\<lambda>ip _. call_ipset (AddEntry (pr_ipset r) ip s True)) (lookup_ips toAdd nm) ())"

definition del_entries :: "('c, 'k, 'x) policeReconciler \<Rightarrow> (string \<times> string list) list \<Rightarrow> string \<Rightarrow> ('c, 'k, 'x, unit) agent" where
  "del_entries r toDel nm = for_each (\<lambda>ip _. call_ipset (DelEntry (pr_ipset r) ip nm)) (lookup_ips toDel nm) ()"

definition updatePolicyIPSet :: "('c, 'k, 'x) policeReconciler \<Rightarrow> agent_orders \<Rightarrow> string \<Rightarrow> string \<Rightarrow> bool \<Rightarrow> string list \<Rightarrow>
    ('c, 'k, 'x, unit) agent" where
  "updatePolicyIPSet r o' policyNs policyName isEipNodeSet destSubnet =
     bindp (getPolicySrcIPs r policyNs policyName (\<lambda>e. ee_node e = cf_node_name (pr_cfg r) \<or> isEipNodeSet)) (\<lambda>src.
     bindp (lift (getDstCIDR destSubnet)) (\<lambda>dst.
     bindp (lift (buildIPSetNamesByPolicy policyNs policyName (cf_enable_ipv4 (pr_cfg r)) (cf_enable_ipv6 (pr_cfg r)))) (\<lambda>setNames.
     bindp (for_each (\<lambda>s _. createIPSet r s) setNames ()) (\<lambda>_.
     bindp (for_each (plan_set r src dst) setNames ([], [])) (\<lambda>(toAdd, toDel).
     bindp (for_each (\<lambda>nm _. add_entries r toAdd nm) (ao_strings o' 0 (map fst toAdd)) ()) (\<lambda>_.
     for_each (\<lambda>nm _. del_entries r toDel nm) (ao_strings o' 1 (map fst toDel)) ()))))))"

text \<open>A policy that is not found has no subnets.\<close>

definition getPolicySubnet :: "('c, 'k, 'x) policeReconciler \<Rightarrow> agent_orders \<Rightarrow> string \<Rightarrow> string \<Rightarrow> ('c, 'k, 'x, string list) agent" where
  "getPolicySubnet r o' ns nm =
     bindp (attempt (if ns \<noteq> [] then bindp (on_api (ac_get_policy (pr_client r) (ns, nm))) (\<lambda>p. ret (ep_dest_subnet (ep_spec p)))
                     else bindp (on_api (ac_get_cpolicy (pr_client r) (ns, nm))) (\<lambda>p. ret (ecp_dest_subnet (ecp_spec p))))) (\<lambda>res.
     bindp (case res of Inr subnet \<Rightarrow> ret subnet | Inl e \<Rightarrow> if e \<noteq> NotFound then fail (AgApi e) else ret []) (\<lambda>subnet.
     ret (expandAnyCIDR (ao_strings o' 2) subnet)))"

section \<open>The policies of the gateways\<close>

record PolicyCommon =
  pc_node_name :: string
  pc_dest_subnet :: "string list"
  pc_ip :: IP
  pc_use_node_ip :: bool

type_synonym policy_map = "(policy \<times> PolicyCommon) list"

definition put_policies :: "(eips \<Rightarrow> PolicyCommon) \<Rightarrow> eips list \<Rightarrow> policy_map \<Rightarrow> policy_map" where
  "put_policies val es m = fold (\<lambda>eip. fold (\<lambda>p. AList.update p (val eip)) (eip_policies eip)) es m"

text \<open>The policies whose egress IP is on this node, and those whose egress IP is on another one.\<close>

definition collect_node :: "string \<Rightarrow> egress_ip_status \<Rightarrow> bool \<times> policy_map \<times> policy_map \<Rightarrow> bool \<times> policy_map \<times> policy_map" where
  "collect_node me node st = (case st of (isEgressNode, unSnat, snat) \<Rightarrow>
     if en_name node = me
     then (True, unSnat, put_policies (\<lambda>eip. \<lparr>pc_node_name = en_name node, pc_dest_subnet = [],
             pc_ip = \<lparr>V4 = eip_ipv4 eip, V6 = eip_ipv6 eip\<rparr>, pc_use_node_ip = (eip_ipv4 eip = [] \<and> eip_ipv6 eip = [])\<rparr>) (en_eips node) snat)
     else (isEgressNode, put_policies (\<lambda>eip. \<lparr>pc_node_name = en_name node, pc_dest_subnet = [],
             pc_ip = \<lparr>V4 = [], V6 = []\<rparr>, pc_use_node_ip = False\<rparr>) (en_eips node) unSnat, snat))"

definition collect_policies :: "string \<Rightarrow> egress_gateway list \<Rightarrow> bool \<times> policy_map \<times> policy_map" where
  "collect_policies me gateways = fold (collect_node me) (concat (map gw_nodes gateways)) (False, [], [])"

definition sync_policies :: "('c, 'k, 'x) policeReconciler \<Rightarrow> agent_orders \<Rightarrow> policy iter_order \<Rightarrow> bool \<Rightarrow> policy_map \<Rightarrow>
    ('c, 'k, 'x, policy_map) agent" where
  "sync_policies r o' ord flag ps =
     for_each (\<lambda>p m.
       bindp (getPolicySubnet r o' (policy_namespace p) (policy_name p)) (\<lambda>subnet.
       bindp (updatePolicyIPSet r o' (policy_namespace p) (policy_name p) flag subnet) (\<lambda>_.
       ret (AList.map_entry p (\<lambda>c. c\<lparr>pc_dest_subnet := subnet\<rparr>) m)))) (ord (map fst ps)) ps"

definition full_name :: "policy \<Rightarrow> string" where
  "full_name p = (if policy_namespace p \<noteq> [] then policy_namespace p @ ''-'' @ policy_name p else policy_name p)"

text \<open>The values of a map in the order of a loop.\<close>

definition in_order :: "policy iter_order \<Rightarrow> policy_map \<Rightarrow> (policy \<times> PolicyCommon) list" where
  "in_order ord m = List.map_filter (\<lambda>p. map_option (Pair p) (map_of m p)) (ord (map fst m))"

section \<open>Tables\<close>

definition modify_table :: "table_kind \<Rightarrow> nat \<Rightarrow> (table \<Rightarrow> table) \<Rightarrow> (('c, 'k, 'x) agent_world, 'e, unit) prog" where
  "modify_table k i f w = (Ok (), w\<lparr>aw_tables := (aw_tables w)(k := (aw_tables w k)[i := f (aw_tables w k ! i)])\<rparr>)"

definition for_tables :: "table_kind \<Rightarrow> (nat \<Rightarrow> ('c, 'k, 'x, unit) agent) \<Rightarrow> ('c, 'k, 'x, unit) agent" where
  "for_tables k f w = for_each (\<lambda>i _. f i) [0..<length (aw_tables w k)] () w"

definition version_of :: "table_kind \<Rightarrow> nat \<Rightarrow> (('c, 'k, 'x) agent_world, 'e, 8 word) prog" where
  "version_of k i w = (Ok (tb_version (aw_tables w k ! i)), w)"

definition insert_static :: "string iter_order \<Rightarrow> chain_rules \<Rightarrow> table \<Rightarrow> table" where
  "insert_static ord m t = fold (\<lambda>c. InsertOrAppendRules c (the (map_of m c))) (ord (map fst m)) t"

definition markChain :: string where "markChain = ''EGRESSGATEWAY-MARK-REQUEST''"
definition replyChain :: string where "replyChain = ''EGRESSGATEWAY-REPLY-ROUTING''"
definition snatChain :: string where "snatChain = ''EGRESSGATEWAY-SNAT-EIP''"

definition empty_chain :: "string \<Rightarrow> chain" where
  "empty_chain nm = \<lparr>ch_name = nm, ch_rules = []\<rparr>"

definition init_filter :: "agent_orders \<Rightarrow> 32 word \<Rightarrow> nat \<Rightarrow> ('c, 'k, 'x, unit) agent" where
  "init_filter o' base i =
     bindp (lift (buildFilterStaticRule base)) (\<lambda>m. modify_table FilterTable i (insert_static (ao_strings o' (10 + i)) m))"

definition init_mangle :: "('c, 'k, 'x) policeReconciler \<Rightarrow> agent_orders \<Rightarrow> 32 word \<Rightarrow> bool \<Rightarrow> nat \<Rightarrow> ('c, 'k, 'x, unit) agent" where
  "init_mangle r o' base isEgressNode i =
     bindp (modify_table MangleTable i (UpdateChain (empty_chain replyChain))) (\<lambda>_.
     bindp (modify_table MangleTable i (UpdateChain (empty_chain markChain))) (\<lambda>_.
     bindp (lift (buildMangleStaticRule base isEgressNode (cf_reply_route (pr_cfg r)) (of_int (cf_reply_mark (pr_cfg r))))) (\<lambda>m.
     modify_table MangleTable i (insert_static (ao_strings o' (20 + i)) m))))"

text \<open>The rule that marks the traffic of a policy; a policy whose tunnel cannot be read has none.\<close>

definition mark_rule :: "('c, 'k, 'x) policeReconciler \<Rightarrow> 8 word \<Rightarrow> policy \<times> PolicyCommon \<Rightarrow> rule list \<Rightarrow> ('c, 'k, 'x, rule list) agent" where
  "mark_rule r version pv rules = (case pv of (p, val) \<Rightarrow>
     bindp (attempt (on_api (ac_get_tunnel (pr_client r) (pc_node_name val)))) (\<lambda>res. case res of
       Inl _ \<Rightarrow> ret rules
     | Inr node \<Rightarrow>
         bindp (lift (parseMark (et_mark (et_status node)))) (\<lambda>mark.
         bindp (lift (buildPolicyRule (full_name p) mark version (length (pc_dest_subnet val) \<le> 0))) (\<lambda>ru. ret (rules @ [ru])))))"

definition reply_rules :: "('c, 'k, 'x) policeReconciler \<Rightarrow> 32 word \<Rightarrow> egress_tunnel \<Rightarrow> rule list \<Rightarrow> ('c, 'k, 'x, rule list) agent" where
  "reply_rules r base tun rules =
     (if om_name (et_meta tun) = cf_node_name (pr_cfg r) then ret rules
      else if et_mark (et_status tun) = [] \<or> tunnel_mac (et_tunnel (et_status tun)) = [] then ret rules
      else bindp (lift (buildPreroutingReplyRouting (cf_vxlan_name (pr_cfg r)) base (et_mark (et_status tun)) (tunnel_mac (et_tunnel (et_status tun)))))
        (\<lambda>rs. ret (rules @ rs)))"

definition restore_rule :: rule where
  "restore_rule = mk_rule (CTDirectionOriginal DirectionReply Match) (RestoreConnMarkAction Mask)
     ''label for restoring connections, rule is from the EgressGateway''"

definition fill_mangle :: "('c, 'k, 'x) policeReconciler \<Rightarrow> agent_orders \<Rightarrow> 32 word \<Rightarrow> policy_map \<Rightarrow> nat \<Rightarrow> ('c, 'k, 'x, unit) agent" where
  "fill_mangle r o' base unSnat i =
     bindp (version_of MangleTable i) (\<lambda>version.
     bindp (for_each (mark_rule r version) (in_order (ao_policies o' (10 + i)) unSnat) []) (\<lambda>rules.
     bindp (modify_table MangleTable i (UpdateChain \<lparr>ch_name = markChain, ch_rules = rules\<rparr>)) (\<lambda>_.
     bindp (call_api (ac_list_tunnels (pr_client r))) (\<lambda>tunnels.
     bindp (for_each (reply_rules r base) tunnels []) (\<lambda>rules.
     modify_table MangleTable i (UpdateChain \<lparr>ch_name = replyChain, ch_rules = rules @ [restore_rule]\<rparr>))))))"

text \<open>A policy without an egress IP of the family of the table is left out, unless it uses the address of the node.\<close>

definition snat_rule :: "8 word \<Rightarrow> policy \<times> PolicyCommon \<Rightarrow> rule list \<Rightarrow> ('c, 'k, 'x, rule list) agent" where
  "snat_rule version pv rules = (case pv of (p, val) \<Rightarrow>
     if version = 4 \<and> (\<not> pc_use_node_ip val \<and> V4 (pc_ip val) = []) \<or> version = 6 \<and> (\<not> pc_use_node_ip val \<and> V6 (pc_ip val) = [])
     then ret rules
     else bindp (lift (buildEipRule (full_name p) (pc_ip val) version (length (pc_dest_subnet val) \<le> 0) (pc_use_node_ip val)))
       (\<lambda>ru. ret (rules @ [ru])))"

definition fill_nat :: "agent_orders \<Rightarrow> 32 word \<Rightarrow> policy_map \<Rightarrow> nat \<Rightarrow> ('c, 'k, 'x, unit) agent" where
  "fill_nat o' base snat i =
     bindp (version_of NatTable i) (\<lambda>version.
     bindp (for_each (snat_rule version) (in_order (ao_policies o' (20 + i)) snat) []) (\<lambda>rules.
     bindp (modify_table NatTable i (UpdateChain \<lparr>ch_name = snatChain, ch_rules = rules\<rparr>)) (\<lambda>_.
     bindp (lift (buildNatStaticRule base)) (\<lambda>m.
     modify_table NatTable i (insert_static (ao_strings o' (30 + i)) m)))))"

text \<open>A table keeps the state in which a failed \<^verbatim>\<open>Apply\<close> leaves it.\<close>

definition apply_table :: "('c, 'k, 'x) policeReconciler \<Rightarrow> agent_orders \<Rightarrow> table_kind \<Rightarrow> nat \<Rightarrow> ('c, 'k, 'x, unit) agent" where
  "apply_table r o' k i w =
     (let t = aw_tables w k ! i;
          put = (\<lambda>t x. w\<lparr>aw_tables := (aw_tables w)(k := (aw_tables w k)[i := t]), aw_ipt := x\<rparr>)
      in case Apply (pr_env r (tb_version t) (tb_name t)) (ao_apply o' k i) t (aw_ipt w) of
        (Ok (_, t), x) \<Rightarrow> (Ok (), put t x)
      | (Err (e, t), x) \<Rightarrow> (Err (AgTable e), put t x)
      | (Panic, x) \<Rightarrow> (Panic, w\<lparr>aw_ipt := x\<rparr>)
      | (Diverge, x) \<Rightarrow> (Diverge, w\<lparr>aw_ipt := x\<rparr>))"

definition clean_set :: "('c, 'k, 'x) policeReconciler \<Rightarrow> string \<Rightarrow> ('c, 'k, 'x, unit) agent" where
  "clean_set r nm =
     (if \<not> prefix ''egress-'' nm then ret ()
      else if nm = EgressClusterCIDRIPv6 \<or> nm = EgressClusterCIDRIPv4 then ret ()
      else bindp (load_sets nm) (\<lambda>found.
        if found \<noteq> None then ret () else bindp (attempt (on_ipset (DestroySet (pr_ipset r) nm))) (\<lambda>_. ret ())))"

definition initApplyPolicy :: "('c, 'k, 'x) policeReconciler \<Rightarrow> agent_orders \<Rightarrow> ('c, 'k, 'x, unit) agent" where
  "initApplyPolicy r o' =
     bindp (call_api (ac_list_gateways (pr_client r))) (\<lambda>gateways.
     if length gateways = 0 then ret ()
     else bindp (ensureClusterInfoIPSet r) (\<lambda>_.
     case collect_policies (cf_node_name (pr_cfg r)) gateways of (isEgressNode, unSnat, snat) \<Rightarrow>
     bindp (sync_policies r o' (ao_policies o' 0) False unSnat) (\<lambda>unSnat.
     bindp (sync_policies r o' (ao_policies o' 1) True snat) (\<lambda>snat.
     bindp (lift (parseMark (cf_mark (pr_cfg r)))) (\<lambda>base.
     bindp (for_tables FilterTable (init_filter o' base)) (\<lambda>_.
     bindp (for_tables MangleTable (init_mangle r o' base isEgressNode)) (\<lambda>_.
     bindp (for_tables MangleTable (fill_mangle r o' base unSnat)) (\<lambda>_.
     bindp (for_tables NatTable (fill_nat o' base snat)) (\<lambda>_.
     bindp (for_tables NatTable (apply_table r o' NatTable)) (\<lambda>_.
     bindp (for_tables FilterTable (apply_table r o' FilterTable)) (\<lambda>_.
     bindp (for_tables MangleTable (apply_table r o' MangleTable)) (\<lambda>_.
     bindp (call_ipset (ListSets (pr_ipset r))) (\<lambda>setList.
     for_each (\<lambda>nm _. clean_set r nm) setList ())))))))))))))"

section \<open>Reconcile functions\<close>

definition agent_requeue :: "bool \<Rightarrow> ('c, 'k, 'x, 'a) agent \<Rightarrow> (('c, 'k, 'x) agent_world, bool \<times> agent_err, 'a) prog" where
  "agent_requeue b m = or_fail (\<lambda>e. (b, e)) m"

definition agent_fetch :: "bool \<Rightarrow> ('c, 'a) api \<Rightarrow> (('c, 'k, 'x) agent_world, bool \<times> agent_err, 'a option) prog" where
  "agent_fetch b m = bindp (attempt (on_api m)) (\<lambda>res. case res of
     Inr x \<Rightarrow> ret (Some x)
   | Inl e \<Rightarrow> if e \<noteq> NotFound then fail (b, AgApi e) else ret None)"

definition reconcileGateway :: "('c, 'k, 'x) policeReconciler \<Rightarrow> agent_orders \<Rightarrow> request \<Rightarrow> ('c, 'k, 'x) agent_rec" where
  "reconcileGateway r o' req = bindp (agent_requeue True (initApplyPolicy r o')) (\<lambda>_. ret False)"

definition reconcileTunnel :: "('c, 'k, 'x) policeReconciler \<Rightarrow> agent_orders \<Rightarrow> request \<Rightarrow> ('c, 'k, 'x) agent_rec" where
  "reconcileTunnel r o' req = bindp (agent_requeue True (initApplyPolicy r o')) (\<lambda>_. ret False)"

text \<open>The last node that holds the policy.\<close>

definition holder :: "string \<Rightarrow> string \<Rightarrow> egress_gateway \<Rightarrow> string" where
  "holder ns nm g = fold (\<lambda>node acc.
     if list_ex (\<lambda>eip. list_ex (\<lambda>p. policy_name p = nm \<and> policy_namespace p = ns) (eip_policies eip)) (en_eips node)
     then en_name node else acc) (gw_nodes g) []"

definition sync_policy :: "('c, 'k, 'x) policeReconciler \<Rightarrow> agent_orders \<Rightarrow> object_meta \<Rightarrow> string \<Rightarrow> string list \<Rightarrow> ('c, 'k, 'x) agent_rec" where
  "sync_policy r o' m gatewayName destSubnet =
     bindp (agent_fetch True (ac_get_gateway (pr_client r) gatewayName)) (\<lambda>g. case g of
       None \<Rightarrow> ret False
     | Some g \<Rightarrow>
         (let flag = (holder (om_namespace m) (om_name m) g = cf_node_name (pr_cfg r))
          in bindp (agent_requeue True (updatePolicyIPSet r o' (om_namespace m) (om_name m) flag destSubnet)) (\<lambda>_. ret False)))"

definition reconcilePolicy :: "('c, 'k, 'x) policeReconciler \<Rightarrow> agent_orders \<Rightarrow> request \<Rightarrow> ('c, 'k, 'x) agent_rec" where
  "reconcilePolicy r o' req =
     bindp (agent_fetch False (ac_get_policy (pr_client r) (req_namespace req, req_name req))) (\<lambda>p. case p of
       None \<Rightarrow> ret False
     | Some p \<Rightarrow> if om_deleting (ep_meta p) then ret False
         else sync_policy r o' (ep_meta p) (ep_gateway_name (ep_spec p)) (ep_dest_subnet (ep_spec p)))"

definition reconcileClusterPolicy :: "('c, 'k, 'x) policeReconciler \<Rightarrow> agent_orders \<Rightarrow> request \<Rightarrow> ('c, 'k, 'x) agent_rec" where
  "reconcileClusterPolicy r o' req =
     bindp (agent_fetch False (ac_get_cpolicy (pr_client r) (req_namespace req, req_name req))) (\<lambda>p. case p of
       None \<Rightarrow> ret False
     | Some p \<Rightarrow> if om_deleting (ecp_meta p) then ret False
         else sync_policy r o' (ecp_meta p) (ecp_gateway_name (ecp_spec p)) (ecp_dest_subnet (ecp_spec p)))"

text \<open>The addresses and the blocks of the cluster by family; what cannot be parsed is left out.\<close>

definition addIP :: "string list \<Rightarrow> string list \<times> string list \<Rightarrow> string list \<times> string list" where
  "addIP items st = fold (\<lambda>s (list4, list6). let ip = ParseIP s in
     if to4 ip \<noteq> nil_ip then (list4 @ [ip_string ip], list6) else if to16 ip \<noteq> nil_ip then (list4, list6 @ [ip_string ip]) else (list4, list6)) items st"

definition addCIDR :: "string list \<Rightarrow> string list \<times> string list \<Rightarrow> string list \<times> string list" where
  "addCIDR items st = fold (\<lambda>item (list4, list6). case ParseCIDR item of
     None \<Rightarrow> (list4, list6)
   | Some (ip, cidr) \<Rightarrow>
       if to4 ip \<noteq> nil_ip then (list4 @ [ipnet_string cidr], list6) else if to16 ip \<noteq> nil_ip then (list4, list6 @ [ipnet_string cidr]) else (list4, list6)) items st"

definition cluster_entries :: "agent_orders \<Rightarrow> cluster_info_status \<Rightarrow> string list \<times> string list" where
  "cluster_entries o' st =
     (let vals = (\<lambda>n m. range_values (ao_strings o' n) m);
          acc = addIP (concat (map lp_ipv4 (vals 3 (cs_node_ip st)))) ([], []);
          acc = addIP (concat (map lp_ipv6 (vals 4 (cs_node_ip st)))) acc;
          v4PodCidrs = concat (map lp_ipv4 (vals 5 (cs_pod_cidr st)));
          v6PodCidrs = concat (map lp_ipv6 (vals 6 (cs_pod_cidr st)));
          acc = addCIDR v6PodCidrs (addCIDR v4PodCidrs acc);
          acc = (case cs_cluster_ip st of None \<Rightarrow> acc | Some pr \<Rightarrow> addCIDR (lp_ipv6 pr) (addCIDR (lp_ipv4 pr) acc))
      in addCIDR (cs_extra_cidr st) acc)"

text \<open>Entries that are expected and not present are added, those present and not expected deleted, each in sorted order.\<close>

definition process :: "string list \<Rightarrow> string list \<Rightarrow> (string \<Rightarrow> ('w, 'e, unit) prog) \<Rightarrow> (string \<Rightarrow> ('w, 'e, unit) prog) \<Rightarrow> ('w, 'e, unit) prog" where
  "process gotList expList toAdd toDel =
     bindp (for_each (\<lambda>key _. toAdd key) (sort (remdups (filter (\<lambda>k. k \<notin> set gotList) expList))) ()) (\<lambda>_.
     for_each (\<lambda>key _. toDel key) (sort (remdups (filter (\<lambda>k. k \<notin> set expList) gotList))) ())"

definition cluster_set :: "string \<Rightarrow> string \<Rightarrow> ip_set" where
  "cluster_set nm fam = \<lparr>set_name = nm, set_type = HashNet, hash_family = fam, hash_size = 0, max_elem = 0, port_span = [], set_comment = []\<rparr>"

definition process_set :: "('c, 'k, 'x) policeReconciler \<Rightarrow> ip_set \<Rightarrow> string list \<Rightarrow> string list \<Rightarrow> ('c, 'k, 'x, unit) agent" where
  "process_set r s gotList expList = call_ipset (process gotList expList
     (\<lambda>item. AddEntry (pr_ipset r) item s True) (\<lambda>item. DelEntry (pr_ipset r) item (set_name s)))"

definition reconcileClusterInfo :: "('c, 'k, 'x) policeReconciler \<Rightarrow> agent_orders \<Rightarrow> request \<Rightarrow> ('c, 'k, 'x) agent_rec" where
  "reconcileClusterInfo r o' req =
     bindp (agent_fetch False (ac_get_info (pr_client r) (req_namespace req, req_name req))) (\<lambda>info. case info of
       None \<Rightarrow> ret False
     | Some info \<Rightarrow> if om_deleting (ci_meta info) then ret False
         else (case cluster_entries o' (ci_status info) of (list4, list6) \<Rightarrow>
           bindp (agent_requeue False (ensureClusterInfoIPSet r)) (\<lambda>_.
           bindp (agent_requeue False (call_ipset (ListEntries (pr_ipset r) EgressClusterCIDRIPv4))) (\<lambda>got4.
           bindp (agent_requeue False (call_ipset (ListEntries (pr_ipset r) EgressClusterCIDRIPv6))) (\<lambda>got6.
           bindp (agent_requeue True (process_set r (cluster_set EgressClusterCIDRIPv4 ''inet'') got4 list4)) (\<lambda>_.
           bindp (agent_requeue True (process_set r (cluster_set EgressClusterCIDRIPv6 ''inet6'') got6 list6)) (\<lambda>_.
           ret False)))))))"

text \<open>The first run is repeated until it succeeds; it may never do.\<close>

partial_function (option) redo :: "(nat \<Rightarrow> ('w, 'e, unit) prog) \<Rightarrow> nat \<Rightarrow> 'w \<Rightarrow> (('e, unit) outcome \<times> 'w) option" where
  "redo f n w = (case f n w of
     (Err e, w') \<Rightarrow> redo f (Suc n) w'
   | (Ok u, w') \<Rightarrow> Some (Ok u, w')
   | (Panic, w') \<Rightarrow> Some (Panic, w')
   | (Diverge, w') \<Rightarrow> Some (Diverge, w'))"

definition do_once :: "('c, 'k, 'x) policeReconciler \<Rightarrow> (nat \<Rightarrow> agent_orders) \<Rightarrow> (('c, 'k, 'x) agent_world, bool \<times> agent_err, unit) prog" where
  "do_once r os w =
     (if aw_started w then (Ok (), w)
      else case redo (\<lambda>n. initApplyPolicy r (os n)) 0 w of
        None \<Rightarrow> (Diverge, w)
      | Some (res, w') \<Rightarrow> (oc_map_err (\<lambda>e. (False, e)) res, w'\<lparr>aw_started := True\<rparr>))"

definition police_Reconcile :: "('c, 'k, 'x) policeReconciler \<Rightarrow> (nat \<Rightarrow> agent_orders) \<Rightarrow> agent_orders \<Rightarrow> request \<Rightarrow> ('c, 'k, 'x) agent_rec" where
  "police_Reconcile r os o' req =
     bindp (do_once r os) (\<lambda>_.
     bindp (lift (oc_map_err (\<lambda>_. (False, AgRequest)) (ParseKindWithReq req))) (\<lambda>(kind, newReq).
     if kind = ''EgressGateway'' then reconcileGateway r o' newReq
     else if kind = ''EgressClusterPolicy'' then reconcileClusterPolicy r o' newReq
     else if kind = ''EgressPolicy'' then reconcilePolicy r o' newReq
     else if kind = ''EgressClusterInfo'' then reconcileClusterInfo r o' newReq
     else if kind = ''EgressTunnel'' then reconcileTunnel r o' newReq
     else ret False))"

section \<open>The tables of the agent\<close>

record iptables_config =
  ic_backend :: string
  ic_refresh :: int
  ic_lock_timeout :: int
  ic_lock_probe :: int
  ic_post_write :: int
  ic_restore_lock :: bool

text \<open>Durations are kept at their width. The lock itself is not modelled.\<close>

definition agent_options :: "iptables_config \<Rightarrow> options" where
  "agent_options c =
     (let wrap = (\<lambda>i. signed_take_bit 63 i) in
      \<lparr>op_prefixes = [''egw''], op_backend = ic_backend c, op_insert_mode = ''insert'',
       op_refresh = wrap (1000000000 * ic_refresh c), op_post_write = wrap (1000000000 * ic_post_write c),
       op_snat_random = False, op_masq_random = False, op_restore_lock = ic_restore_lock c,
       op_lock_timeout = wrap (1000000000 * ic_lock_timeout c), op_lock_probe = wrap (1000000 * ic_lock_probe c)\<rparr>)"

definition new_tables :: "(string \<Rightarrow> bool) \<Rightarrow> int \<Rightarrow> options \<Rightarrow> 8 word \<Rightarrow> (ipt_err, table_kind \<Rightarrow> table) outcome" where
  "new_tables lookPath now opt version =
     oc_bind (NewTable lookPath now ''mangle'' version ''egw:'' opt) (\<lambda>m.
     oc_bind (NewTable lookPath now ''nat'' version ''egw:'' opt) (\<lambda>n.
     oc_bind (NewTable lookPath now ''filter'' version ''egw:'' opt) (\<lambda>f.
     Ok (\<lambda>k. case k of MangleTable \<Rightarrow> m | NatTable \<Rightarrow> n | FilterTable \<Rightarrow> f))))"

definition newPolicyController :: "(string \<Rightarrow> bool) \<Rightarrow> int \<Rightarrow> agent_config \<Rightarrow> iptables_config \<Rightarrow> (ipt_err, table_kind \<Rightarrow> table list) outcome" where
  "newPolicyController lookPath now cfg ic =
     (let make = (\<lambda>enabled version. if enabled then oc_bind (new_tables lookPath now (agent_options ic) version) (\<lambda>f. Ok (\<lambda>k. [f k])) else Ok (\<lambda>_. [])) in
      oc_bind (make (cf_enable_ipv4 cfg) 4) (\<lambda>t4.
      oc_bind (make (cf_enable_ipv6 cfg) 6) (\<lambda>t6.
      Ok (\<lambda>k. t4 k @ t6 k))))"

end
