(* ===== verification/IpSetKernel.thy ===== *)
theory IpSetKernel
  imports IpSet IPCidr
begin

text \<open>
  The sets of the kernel as the \<^verbatim>\<open>ipset\<close> command shows them, and the contract of the runner that its
  callers rely on. The command stores an entry in one form: the network address of a block, a host without
  its prefix length; a block with a prefix of length zero is refused.
\<close>

section \<open>The form of an entry\<close>

definition stored_net :: "ipnet \<Rightarrow> string option" where
  "stored_net n = (if ones_of (net_mask n) = 0 then None
     else Some (if ones_of (net_mask n) = 8 * length (net_mask n) then ip_string (net_ip n) else ipnet_string n))"

definition of_family :: "string \<Rightarrow> netip \<Rightarrow> bool" where
  "of_family fam ip = (if fam = ProtocolFamilyIPV4 then length ip = 4 else length ip = 16 \<and> to4 ip = nil_ip)"

definition store_form :: "string \<Rightarrow> string \<Rightarrow> string option" where
  "store_form fam e =
     (if CHR ''/'' \<in> set e
      then (case ParseCIDR e of None \<Rightarrow> None | Some (_, n) \<Rightarrow> if of_family fam (net_ip n) then stored_net n else None)
      else (let ip = ParseIP e; ip = (if to4 ip \<noteq> nil_ip then to4 ip else ip) in if of_family fam ip then Some (ip_string ip) else None))"

text \<open>Reading back a printed block.\<close>

lemma ones_of_simps: "ones_of [] = 0" "ones_of (b # bs) = length (filter (bit b) [0..<8]) + ones_of bs"
  by (simp_all add: ones_of_def)

lemma ones_mask_byte: "length (filter (bit (mask_byte k)) [0..<8]) = min k 8"
proof -
  have "\<forall>k \<in> set [0..<9]. length (filter (bit (mask_byte k)) [0..<8]) = k" by code_simp
  moreover have "mask_byte k = mask_byte (min k 8)" by (simp add: mask_byte_def min_def)
  ultimately show ?thesis by (metis atLeastLessThan_iff atLeastLessThan_upt le_imp_less_Suc min.cobounded2 numeral_plus_one semiring_norm(5) Suc_eq_plus1 zero_le)
qed

lemma ones_mask: "n \<le> 8 * k \<Longrightarrow> ones_of (CIDRMask n (8 * k)) = n"
proof (induction k arbitrary: n)
  case 0
  then show ?case by (simp add: CIDRMask_def ones_of_simps)
next
  case (Suc k)
  have "ones_of (CIDRMask n (8 * Suc k)) = min n 8 + ones_of (CIDRMask (n - 8) (8 * k))"
    using CIDRMask_Cons [of n k] by (simp add: ones_of_simps ones_mask_byte)
  then show ?case using Suc by simp
qed

lemma dtoi_snoc: "dtoi v (xs @ [c]) = (case dtoi v xs of None \<Rightarrow> None | Some n \<Rightarrow> dtoi n [c])"
  by (induction xs arbitrary: v) (auto split: option.splits)

lemma dtoi_dec: "n < 16777215 \<Longrightarrow> dtoi 0 (dec_string n) = Some n"
proof (induction n rule: dec_string.induct)
  case (1 n)
  then show ?case by (subst dec_string.simps) (auto simp: dtoi_snoc)
qed

lemma length_mask [simp]: "length (CIDRMask n bits) = bits div 8"
  by (simp add: CIDRMask_def)

lemma band_idem: "map2 band (map2 band xs ms) ms = map2 band xs ms"
  by (induction xs ms rule: list_induct2') (simp_all add: band_def and.assoc)

lemma band_bytes: "bytes xs \<Longrightarrow> bytes (map2 band xs ms)"
proof (induction xs ms rule: list_induct2')
  case (4 x xs m ms)
  have "int (band x m) \<le> int x" by (simp add: band_def of_nat_and_eq)
  then show ?case using 4 by auto
qed simp_all

definition block :: "nat \<Rightarrow> netip \<Rightarrow> ipnet" where
  "block k ys = (let m = CIDRMask k (8 * length ys) in \<lparr>net_ip = map2 band ys m, net_mask = m\<rparr>)"

definition plain_ip :: "netip \<Rightarrow> bool" where
  "plain_ip ys \<longleftrightarrow> bytes ys \<and> (length ys = 4 \<or> length ys = 16 \<and> to4 ys = nil_ip)"

lemma block_simps [simp]:
  "net_ip (block k ys) = map2 band ys (CIDRMask k (8 * length ys))" "net_mask (block k ys) = CIDRMask k (8 * length ys)"
  "block k (map2 band ys (CIDRMask k (8 * length ys))) = block k ys"
  by (simp_all add: block_def Let_def band_idem)

lemma ip_string_plain:
  assumes "plain_ip ys"
  shows "parse_addr (ip_string ys) = Some (if length ys = 4 then Addr4 ys else Addr6 ys)" "CHR ''/'' \<notin> set (ip_string ys)"
proof -
  have "ip_string ys = (if length ys = 4 then string4 ys else string6 ys)"
    using assms by (auto simp: plain_ip_def ip_string_def to4_def)
  then show "parse_addr (ip_string ys) = Some (if length ys = 4 then Addr4 ys else Addr6 ys)" "CHR ''/'' \<notin> set (ip_string ys)"
    using assms parse_addr_string4 [of ys] parse_addr_string6 [of ys] sep_notin_string4 [of "CHR ''/''" ys] sep_notin_string6 [of "CHR ''/''" ys]
    by (auto simp: plain_ip_def)
qed

lemma ParseCIDR_printed:
  assumes "plain_ip ys" "k \<le> 8 * length ys"
  shows "ParseCIDR (ip_string ys @ ''/'' @ dec_string k) = Some (to16 ys, block k ys)"
proof -
  note p = ip_string_plain [OF assms(1)]
  have t: "takeWhile (\<lambda>c. c \<noteq> CHR ''/'') (ip_string ys @ CHR ''/'' # dec_string k) = ip_string ys"
    "dropWhile (\<lambda>c. c \<noteq> CHR ''/'') (ip_string ys @ CHR ''/'' # dec_string k) = CHR ''/'' # dec_string k"
    using p(2) by (auto simp: takeWhile_append dropWhile_append3)
  have d: "dtoi 0 (dec_string k) = Some k" using assms dtoi_dec [of k] by (auto simp: plain_ip_def)
  show ?thesis using assms p(1) d
    by (auto simp: plain_ip_def ParseCIDR_def t block_def Let_def to16_def ip_mask_v4 ip_mask_same)
qed

lemma ParseCIDR_block:
  assumes "ParseCIDR s = Some (ip, n)"
  obtains k xs where "n = block k xs" "k \<le> 8 * length xs" "bytes xs" "length xs = 4 \<or> length xs = 16"
    "ip = (if length xs = 4 then v4InV6Prefix @ xs else xs)"
proof -
  obtain ad k where a: "parse_addr (takeWhile (\<lambda>c. c \<noteq> CHR ''/'') s) = Some ad" "k \<le> bit_len ad" "ip = as16 ad"
    "n = \<lparr>net_ip = ip_mask (as16 ad) (CIDRMask k (bit_len ad)), net_mask = CIDRMask k (bit_len ad)\<rparr>"
    using assms by (simp add: ParseCIDR_def Let_def linorder_not_less split: if_splits option.splits) blast
  note wf = parse_addr_wf [OF a(1)]
  show thesis
  proof (cases ad)
    case (Addr4 b)
    then have "length b = 4" "bytes b" using wf by auto
    then show thesis using that [of k b] a Addr4 by (simp add: block_def Let_def ip_mask_v4)
  next
    case (Addr6 b)
    then show thesis using that [of k b] a wf by (simp add: block_def Let_def ip_mask_same)
  qed
qed

lemma plain_block:
  assumes "n = block k xs" "bytes xs" "length xs = 4 \<or> length xs = 16 \<and> to4 (net_ip n) = nil_ip"
  shows "plain_ip (net_ip n)" "length (net_ip n) = length xs"
  using assms band_bytes [of xs] by (auto simp: plain_ip_def)

text \<open>A printed block is read back as the same block.\<close>

lemma ipnet_string_block:
  assumes "n = block k xs" "k \<le> 8 * length xs" "plain_ip (net_ip n)"
  shows "ipnet_string n = ip_string (net_ip n) @ ''/'' @ dec_string k" "ones_of (net_mask n) = k"
    "ParseCIDR (ipnet_string n) = Some (to16 (net_ip n), n)"
proof -
  have l: "length xs = length (net_ip n)" and x: "length xs = 4 \<or> length xs = 16 \<and> to4 (net_ip n) = nil_ip"
    using assms by (auto simp: plain_ip_def)
  have o: "ones_of (CIDRMask k (8 * length xs)) = k" using ones_mask assms(2) by simp
  then show "ones_of (net_mask n) = k" using assms(1) by simp
  have m: "length (net_mask n) = length (net_ip n)" using assms(1) by simp
  have t4: "length (net_ip n) = 4 \<Longrightarrow> to4 (net_ip n) = net_ip n" by (simp add: to4_def)
  have "(if to4 (net_ip n) \<noteq> nil_ip then to4 (net_ip n) else net_ip n) = net_ip n" using x l t4 by auto
  then have "network_number_and_mask n = (net_ip n, net_mask n)"
    unfolding network_number_and_mask_def Let_def using x l m by presburger
  moreover have "net_ip n \<noteq> []" "net_mask n \<noteq> []" using x l m by auto
  ultimately show e: "ipnet_string n = ip_string (net_ip n) @ ''/'' @ dec_string k" using o assms(1) by (simp add: ipnet_string_def)
  have "block k (net_ip n) = n" using assms(1) by simp
  then show "ParseCIDR (ipnet_string n) = Some (to16 (net_ip n), n)"
    using ParseCIDR_printed [OF assms(3), of k] assms(2) l unfolding e by simp
qed

subsection \<open>Stored entries are in one form\<close>

lemma newline_not_digit: "newline \<notin> digit_char ` {..<16}"
proof -
  have "list_all (\<lambda>k. digit_char k \<noteq> newline) [0..<16]" by code_simp
  then have "digit_char k \<noteq> newline" if "k < 16" for k using that by (simp add: list_all_iff)
  then show ?thesis by force
qed

lemma newline_dec: "newline \<notin> set (dec_string k)" and newline_hex: "newline \<notin> set (hex_string k)"
  using set_dec_string [of k] set_hex_string [of k] newline_not_digit by fastforce+

lemma newline_ip_string: "plain_ip ys \<Longrightarrow> newline \<notin> set (ip_string ys)"
proof -
  have j: "newline \<notin> set (colon_join gs)" for gs
    using set_join_with [of "'':''" "map hex_string gs"] newline_hex by (fastforce simp: colon_join_def newline_def)
  have "newline \<notin> set (string6 ys)" using j by (auto simp: string6_def Let_def newline_def split: prod.split)
  moreover have "newline \<notin> set (string4 ys)"
    using set_join_with [of "''.''" "map dec_string ys"] newline_dec by (fastforce simp: string4_def newline_def)
  ultimately show "plain_ip ys \<Longrightarrow> newline \<notin> set (ip_string ys)" by (auto simp: plain_ip_def ip_string_def to4_def)
qed

lemma plain_line_ip_string: "plain_ip ys \<Longrightarrow> plain_line (ip_string ys)"
proof -
  have "parse_addr ''Members:'' = None" "parse_addr [] = None" by code_simp+
  then show "plain_ip ys \<Longrightarrow> plain_line (ip_string ys)"
    using newline_ip_string ip_string_plain(1) [of ys] by (auto simp: plain_line_def split: if_splits)
qed

lemma plain_of_family: "bytes ip \<Longrightarrow> of_family fam ip \<Longrightarrow> plain_ip ip"
  by (auto simp: of_family_def plain_ip_def split: if_splits)

lemma store_form_host:
  assumes "bytes ip" "of_family fam ip"
  shows "store_form fam (ip_string ip) = Some (ip_string ip)"
proof -
  note p = ip_string_plain [OF plain_of_family [OF assms]]
  have "ParseIP (ip_string ip) = (if length ip = 4 then v4InV6Prefix @ ip else ip)" using p(1) by (simp add: ParseIP_def)
  moreover have "to4 (v4InV6Prefix @ ip) = ip" if "length ip = 4" using that by (simp add: to4_def)
  moreover have "length ip \<noteq> 4 \<Longrightarrow> to4 ip = nil_ip" "length ip = 4 \<Longrightarrow> ip \<noteq> []" using assms(2) by (auto simp: of_family_def split: if_splits)
  ultimately show ?thesis using p(2) assms(2) by (auto simp: store_form_def Let_def)
qed

lemma store_form_cidr:
  assumes "n = block k xs" "k \<le> 8 * length xs" "bytes xs" "of_family fam (net_ip n)"
  shows "store_form fam (ipnet_string n) = stored_net n"
    "stored_net n = (if k = 0 then None else if k = 8 * length xs then Some (ip_string (net_ip n)) else Some (ipnet_string n))"
proof -
  have "plain_ip (net_ip n)" using assms plain_of_family band_bytes by simp
  note i = ipnet_string_block [OF assms(1,2) this]
  show "store_form fam (ipnet_string n) = stored_net n" using i assms(4) by (auto simp: store_form_def)
  show "stored_net n = (if k = 0 then None else if k = 8 * length xs then Some (ip_string (net_ip n)) else Some (ipnet_string n))"
    using i(2) assms(1) by (simp add: stored_net_def)
qed

lemma store_form_stored:
  assumes "store_form fam e = Some e'"
  shows "store_form fam e' = Some e' \<and> plain_line e'"
proof (cases "CHR ''/'' \<in> set e")
  case True
  then obtain ip n where n: "ParseCIDR e = Some (ip, n)" "of_family fam (net_ip n)" "stored_net n = Some e'"
    using assms by (auto simp: store_form_def split: option.splits if_splits)
  obtain k xs where b: "n = block k xs" "k \<le> 8 * length xs" "bytes xs" "length xs = 4 \<or> length xs = 16" using ParseCIDR_block [OF n(1)] by metis
  note s = store_form_cidr [OF b(1-3) n(2)]
  have byt: "bytes (net_ip n)" using b band_bytes by simp
  note p = plain_of_family [OF byt n(2)]
  show ?thesis
  proof (cases "k = 8 * length xs")
    case True
    then have "e' = ip_string (net_ip n)" using n(3) s(2) by (auto split: if_splits)
    then show ?thesis using store_form_host [OF byt n(2)] plain_line_ip_string [OF p] by simp
  next
    case False
    then have e: "e' = ipnet_string n" using n(3) s(2) by (auto split: if_splits)
    have "CHR ''/'' \<in> set e'" unfolding e ipnet_string_block(1) [OF b(1,2) p] by simp
    then have "e' \<noteq> ''Members:''" "e' \<noteq> []" by auto
    moreover have "newline \<notin> set e'" unfolding e ipnet_string_block(1) [OF b(1,2) p]
      using newline_ip_string [OF p] newline_dec [of k] by (auto simp: newline_def)
    ultimately have "plain_line e'" by (simp add: plain_line_def)
    then show ?thesis using e s n(3) by simp
  qed
next
  case False
  let ?ip = "if to4 (ParseIP e) \<noteq> nil_ip then to4 (ParseIP e) else ParseIP e"
  have i: "of_family fam ?ip" "e' = ip_string ?ip" using assms False by (auto simp: store_form_def Let_def split: if_splits)
  have "?ip \<noteq> []" using i(1) by (auto simp: of_family_def split: if_splits)
  then have "ParseIP e \<noteq> []" by (auto simp: to4_def split: if_splits)
  then have "bytes (ParseIP e)" using ParseIP_wf [of e] by (simp add: wf_ip_def)
  then have "bytes ?ip" by (auto simp: to4_def dest: in_set_dropD)
  then show ?thesis using i store_form_host plain_line_ip_string plain_of_family by metis
qed

end
