(* ===== verification/IpSetService.thy ===== *)
theory IpSetService
  imports IpSetKernel
begin

text \<open>
  The contract between the runner of \<^verbatim>\<open>ipset\<close> and its callers: what is in a set after an entry was added or
  deleted, and that a listing shows it. The \<^verbatim>\<open>ipset\<close> command on the sets of a kernel, each with the
  parameters it was created with and its members, meets the contract.
\<close>

section \<open>The contract\<close>

definition net_set :: "string \<Rightarrow> string \<Rightarrow> ip_set" where
  "net_set nm fam = \<lparr>set_name = nm, set_type = HashNet, hash_family = fam, hash_size = 0, max_elem = 0, port_span = [], set_comment = []\<rparr>"

text \<open>A name that is no option of the command.\<close>

definition proper :: "string \<Rightarrow> bool" where
  "proper nm \<longleftrightarrow> nm \<noteq> [] \<and> hd nm \<noteq> CHR ''-'' \<and> newline \<notin> set nm"

locale ipset_service =
  fixes exec :: "'k ipset_cmd" and ok :: "'k \<Rightarrow> bool"
    and sets :: "'k \<Rightarrow> string \<Rightarrow> (string \<times> string list) option" and form :: "string \<Rightarrow> string \<Rightarrow> string option"
  assumes members: "ok k \<Longrightarrow> sets k nm = Some (fam, ms) \<Longrightarrow> distinct ms \<and> (\<forall>m \<in> set ms. form fam m = Some m)"
    and create: "ok k \<Longrightarrow> proper nm \<Longrightarrow> fam \<in> {ProtocolFamilyIPV4, ProtocolFamilyIPV6} \<Longrightarrow>
      (\<And>f ms. sets k nm = Some (f, ms) \<Longrightarrow> f = fam) \<Longrightarrow>
      \<exists>k'. CreateSet exec (net_set nm fam) True k = (Ok (setIPSetDefaults (net_set nm fam)), k') \<and> ok k' \<and>
        sets k' = (if sets k nm = None then (sets k)(nm \<mapsto> (fam, [])) else sets k)"
    and list_entries: "ok k \<Longrightarrow> sets k nm = Some (fam, ms) \<Longrightarrow> ListEntries exec nm k = (Ok ms, k)"
    and add: "ok k \<Longrightarrow> sets k (set_name s) = Some (fam, ms) \<Longrightarrow> form fam e = Some e' \<Longrightarrow>
      \<exists>k'. AddEntry exec e s True k = (Ok (), k') \<and> ok k' \<and>
        sets k' = (sets k)(set_name s \<mapsto> (fam, if e' \<in> set ms then ms else ms @ [e']))"
    and add_refused: "ok k \<Longrightarrow> sets k (set_name s) = Some (fam, ms) \<Longrightarrow> form fam e = None \<Longrightarrow>
      \<exists>msg. AddEntry exec e s True k = (Err msg, k)"
    and del: "ok k \<Longrightarrow> sets k nm = Some (fam, ms) \<Longrightarrow> form fam e = Some e' \<Longrightarrow> e' \<in> set ms \<Longrightarrow>
      \<exists>k'. DelEntry exec e nm k = (Ok (), k') \<and> ok k' \<and> sets k' = (sets k)(nm \<mapsto> (fam, removeAll e' ms))"
    and destroy: "ok k \<Longrightarrow> \<exists>r k'. DestroySet exec nm k = (r, k') \<and> r \<noteq> Panic \<and> r \<noteq> Diverge \<and> ok k' \<and> (sets k' = (sets k)(nm := None) \<or> sets k' = sets k)"
    and list_sets: "ok k \<Longrightarrow> \<exists>ns. ListSets exec k = (Ok ns, k)"
begin

lemma add_all:
  assumes "ok k" "sets k (set_name s) = Some (fam, ms)" "\<forall>e \<in> set es. form fam e = Some (g e)"
  shows "\<exists>k' ms'. for_each (\<lambda>e _. AddEntry exec e s True) es () k = (Ok (), k') \<and> ok k' \<and>
    sets k' = (sets k)(set_name s \<mapsto> (fam, ms')) \<and> set ms' = set ms \<union> g ` set es"
  using assms
proof (induction es arbitrary: k ms)
  case Nil
  then show ?case by (intro exI [of _ k] exI [of _ ms]) (simp add: ret_def fun_upd_idem)
next
  case (Cons e es)
  then have e: "form fam e = Some (g e)" by simp
  obtain k1 where k1: "AddEntry exec e s True k = (Ok (), k1)" "ok k1"
    "sets k1 = (sets k)(set_name s \<mapsto> (fam, if g e \<in> set ms then ms else ms @ [g e]))"
    using add [OF Cons.prems(1,2) e] by blast
  define ms1 where "ms1 = (if g e \<in> set ms then ms else ms @ [g e])"
  have s1: "sets k1 (set_name s) = Some (fam, ms1)" and m1: "set ms1 = insert (g e) (set ms)" using k1(3) by (auto simp: ms1_def)
  have all: "\<forall>e \<in> set es. form fam e = Some (g e)" using Cons.prems(3) by simp
  from Cons.IH [OF k1(2) s1 all] obtain k' ms' where
    "for_each (\<lambda>e _. AddEntry exec e s True) es () k1 = (Ok (), k')" "ok k'"
    "sets k' = (sets k1)(set_name s \<mapsto> (fam, ms'))" "set ms' = set ms1 \<union> g ` set es" by blast
  then show ?case using k1(1,3) m1 by (intro exI [of _ k'] exI [of _ ms']) (auto simp: bindp_def)
qed

lemma del_all:
  assumes "ok k" "sets k nm = Some (fam, ms)" "set es \<subseteq> set ms" "distinct es"
  shows "\<exists>k' ms'. for_each (\<lambda>e _. DelEntry exec e nm) es () k = (Ok (), k') \<and> ok k' \<and>
    sets k' = (sets k)(nm \<mapsto> (fam, ms')) \<and> set ms' = set ms - set es"
  using assms
proof (induction es arbitrary: k ms)
  case Nil
  then show ?case by (intro exI [of _ k] exI [of _ ms]) (simp add: ret_def fun_upd_idem)
next
  case (Cons e es)
  then have e: "form fam e = Some e" "e \<in> set ms" using members by auto
  obtain k1 where k1: "DelEntry exec e nm k = (Ok (), k1)" "ok k1" "sets k1 = (sets k)(nm \<mapsto> (fam, removeAll e ms))"
    using del [OF Cons.prems(1,2) e] by blast
  have s1: "sets k1 nm = Some (fam, removeAll e ms)" using k1(3) by simp
  have sub: "set es \<subseteq> set (removeAll e ms)" using Cons.prems(3,4) by auto
  have "distinct es" using Cons.prems(4) by simp
  from Cons.IH [OF k1(2) s1 sub this] obtain k' ms' where
    "for_each (\<lambda>e _. DelEntry exec e nm) es () k1 = (Ok (), k')" "ok k'"
    "sets k' = (sets k1)(nm \<mapsto> (fam, ms'))" "set ms' = set (removeAll e ms) - set es" by blast
  then show ?case using k1(1,3) by (intro exI [of _ k'] exI [of _ ms']) (auto simp: bindp_def)
qed

end

section \<open>The command on the sets of a kernel\<close>

type_synonym ksets = "(string \<times> string list \<times> string list) list"

definition family_of :: "string list \<Rightarrow> string" where
  "family_of ps = (if length ps > 2 \<and> ps ! 1 = ''family'' then ps ! 2 else ProtocolFamilyIPV4)"

definition cmd_ok :: "string \<Rightarrow> ksets \<Rightarrow> (string \<times> string option) \<times> ksets" where
  "cmd_ok out K = ((out, None), K)"

definition cmd_fail :: "string \<Rightarrow> ksets \<Rightarrow> (string \<times> string option) \<times> ksets" where
  "cmd_fail out K = ((''ipset v7.15: '' @ out, Some ''exit status 1''), K)"

definition no_set :: string where
  "no_set = ''The set with the given name does not exist''"

definition ipset_create :: "string list \<Rightarrow> ksets ipset_cmd" where
  "ipset_create ps args K = (case args of
     [nm] \<Rightarrow> (case map_of K nm of
        None \<Rightarrow> cmd_ok [] (K @ [(nm, filter (\<lambda>p. p \<noteq> ''-exist'') ps, [])])
      | Some (qs, _) \<Rightarrow> if ''-exist'' \<in> set ps \<and> qs = filter (\<lambda>p. p \<noteq> ''-exist'') ps then cmd_ok [] K
          else cmd_fail ''Set cannot be created: set with the same name already exists'' K)
   | _ \<Rightarrow> cmd_fail ''Missing argument'' K)"

definition ipset_entry :: "(string list \<Rightarrow> string list \<Rightarrow> string \<Rightarrow> (string + string list)) \<Rightarrow> string list \<Rightarrow> ksets \<Rightarrow> (string \<times> string option) \<times> ksets" where
  "ipset_entry act args K = (case args of
     nm # e # opts \<Rightarrow> (case map_of K nm of
        None \<Rightarrow> cmd_fail no_set K
      | Some (ps, ms) \<Rightarrow> (case store_form (family_of ps) e of
          None \<Rightarrow> cmd_fail ''Syntax error'' K
        | Some e' \<Rightarrow> (case act opts ms e' of Inl msg \<Rightarrow> cmd_fail msg K | Inr ms' \<Rightarrow> cmd_ok [] (AList.update nm (ps, ms') K))))
   | _ \<Rightarrow> cmd_fail ''Missing argument'' K)"

definition act_add :: "string list \<Rightarrow> string list \<Rightarrow> string \<Rightarrow> string + string list" where
  "act_add opts ms e = (if e \<notin> set ms then Inr (ms @ [e]) else if ''-exist'' \<in> set opts then Inr ms
     else Inl ''Element cannot be added to the set: it is already added'')"

definition act_del :: "string list \<Rightarrow> string list \<Rightarrow> string \<Rightarrow> string + string list" where
  "act_del opts ms e = (if e \<in> set ms then Inr (removeAll e ms) else Inl ''Element cannot be deleted from the set: it is not added'')"

definition ipset_list :: "string list \<Rightarrow> ksets \<Rightarrow> (string \<times> string option) \<times> ksets" where
  "ipset_list args K = (case args of
     [nm] \<Rightarrow> if nm = ''-n'' then cmd_ok (join_with [newline] (map fst K)) K
       else (case map_of K nm of
          None \<Rightarrow> cmd_fail no_set K
        | Some (ps, ms) \<Rightarrow> cmd_ok (listing [''Name: '' @ nm, ''Type: '' @ join_with '' '' ps] ms) K)
   | _ \<Rightarrow> cmd_fail ''Missing argument'' K)"

definition ipset_destroy :: "string list \<Rightarrow> ksets \<Rightarrow> (string \<times> string option) \<times> ksets" where
  "ipset_destroy args K = (case args of
     [nm] \<Rightarrow> (case map_of K nm of None \<Rightarrow> cmd_fail no_set K | Some _ \<Rightarrow> cmd_ok [] (AList.delete nm K))
   | _ \<Rightarrow> cmd_fail ''Missing argument'' K)"

definition ipset_run :: "ksets ipset_cmd" where
  "ipset_run args K = (case args of
     [] \<Rightarrow> cmd_fail ''No command specified'' K
   | cmd # rest \<Rightarrow>
       if cmd = ''create'' then ipset_create (tl rest) (take 1 rest) K
       else if cmd = ''add'' then ipset_entry act_add rest K
       else if cmd = ''del'' then ipset_entry act_del rest K
       else if cmd = ''list'' then ipset_list rest K
       else if cmd = ''destroy'' then ipset_destroy rest K
       else cmd_fail ''Unknown command'' K)"

definition set_view :: "ksets \<Rightarrow> string \<Rightarrow> (string \<times> string list) option" where
  "set_view K nm = map_option (\<lambda>(ps, ms). (family_of ps, ms)) (map_of K nm)"

definition net_params :: "string \<Rightarrow> string list" where
  "net_params fam = [''hash:net'', ''family'', fam, ''hashsize'', dec_int 1024, ''maxelem'', dec_int 65536]"

text \<open>The sets of the agent: all of one type, with printable names.\<close>

definition set_ok :: "string \<times> string list \<times> string list \<Rightarrow> bool" where
  "set_ok = (\<lambda>(nm, ps, ms). proper nm \<and> ps = net_params (family_of ps) \<and> newline \<notin> set (family_of ps) \<and>
     distinct ms \<and> (\<forall>m \<in> set ms. store_form (family_of ps) m = Some m))"

definition ksets_ok :: "ksets \<Rightarrow> bool" where
  "ksets_ok K \<longleftrightarrow> distinct (map fst K) \<and> list_all set_ok K"

lemma ksets_okD: "ksets_ok K \<Longrightarrow> map_of K nm = Some (ps, ms) \<Longrightarrow> set_ok (nm, ps, ms)"
  by (auto simp: ksets_ok_def list_all_iff dest: map_of_SomeD)

lemma ksets_ok_update: "ksets_ok K \<Longrightarrow> set_ok (nm, ps, ms) \<Longrightarrow> ksets_ok (AList.update nm (ps, ms) K)"
proof -
  have "set (AList.update nm v K) \<subseteq> insert (nm, v) (set K)" for v by (induction K) auto
  then show "ksets_ok K \<Longrightarrow> set_ok (nm, ps, ms) \<Longrightarrow> ksets_ok (AList.update nm (ps, ms) K)"
    by (fastforce simp: ksets_ok_def list_all_iff intro: distinct_update)
qed

lemma set_view_update: "set_view (AList.update nm (ps, ms) K) = (set_view K)(nm \<mapsto> (family_of ps, ms))"
  by (auto simp: set_view_def update_conv)

lemma set_view_Some: "set_view K nm = Some (fam, ms) \<longleftrightarrow> (\<exists>ps. map_of K nm = Some (ps, ms) \<and> family_of ps = fam)"
  by (auto simp: set_view_def)

lemma ipset_entry_run:
  assumes "ksets_ok K" "set_view K nm = Some (fam, ms)" "store_form fam e = Some e'" "act opts ms e' = Inr ms'"
    "set ms' \<subseteq> insert e' (set ms)" "distinct ms'"
  shows "\<exists>K'. ipset_entry act (nm # e # opts) K = cmd_ok [] K' \<and> ksets_ok K' \<and> set_view K' = (set_view K)(nm \<mapsto> (fam, ms'))"
proof -
  obtain ps where ps: "map_of K nm = Some (ps, ms)" "family_of ps = fam" using assms(2) by (auto simp: set_view_Some)
  have "set_ok (nm, ps, ms)" using ksets_okD [OF assms(1) ps(1)] .
  then have "set_ok (nm, ps, ms')" using assms(5,6) store_form_stored [OF assms(3)] ps(2) by (auto simp: set_ok_def)
  then show ?thesis using ps assms(1,3,4) set_view_update by (auto simp: ipset_entry_def intro: ksets_ok_update)
qed

lemma create_args_net:
  assumes "fam \<in> {ProtocolFamilyIPV4, ProtocolFamilyIPV6}"
  shows "set_Validate (setIPSetDefaults (net_set nm fam)) = Ok ()"
    "create_args (setIPSetDefaults (net_set nm fam)) True = [''create'', nm] @ net_params fam @ [''-exist'']"
    "family_of (net_params fam) = fam" "newline \<notin> set fam" "fam \<noteq> ''-exist''"
  using assms by (auto simp: set_Validate_def setIPSetDefaults_def net_set_def create_args_def net_params_def family_of_def newline_def
      has_family_def validateHashFamily_def validateIPSetType_def ValidIPSetTypes_def set_type_defs family_defs)

lemma filter_params: "filter (\<lambda>p. p \<noteq> ''-exist'') (net_params fam @ [''-exist'']) = net_params fam"
  if "fam \<noteq> ''-exist''"
proof -
  have "length (dec_int 1024) \<noteq> length ''-exist''" "length (dec_int 65536) \<noteq> length ''-exist''"
    by (simp_all add: dec_int_def dec_string.simps)
  then have "dec_int 1024 \<noteq> ''-exist''" "dec_int 65536 \<noteq> ''-exist''" by metis+
  then show ?thesis using that by (simp add: net_params_def)
qed

lemma kernel_create:
  assumes K: "ksets_ok K" "proper nm" "fam \<in> {ProtocolFamilyIPV4, ProtocolFamilyIPV6}"
    and f: "\<And>f ms. set_view K nm = Some (f, ms) \<Longrightarrow> f = fam"
  shows "\<exists>K'. CreateSet ipset_run (net_set nm fam) True K = (Ok (setIPSetDefaults (net_set nm fam)), K') \<and> ksets_ok K' \<and>
    set_view K' = (if set_view K nm = None then (set_view K)(nm \<mapsto> (fam, [])) else set_view K)"
proof -
  note a = create_args_net [OF K(3)]
  let ?ps = "net_params fam"
  have r: "ipset_run (create_args (setIPSetDefaults (net_set nm fam)) True) K = ipset_create (?ps @ [''-exist'']) [nm] K"
    unfolding a(2) by (simp add: ipset_run_def)
  have "\<exists>K'. ipset_create (?ps @ [''-exist'']) [nm] K = cmd_ok [] K' \<and> ksets_ok K' \<and>
    set_view K' = (if set_view K nm = None then (set_view K)(nm \<mapsto> (fam, [])) else set_view K)"
  proof (cases "map_of K nm")
    case None
    have "ksets_ok (K @ [(nm, ?ps, [])])"
      using K(1,2) None a(3,4) by (auto simp: ksets_ok_def set_ok_def map_of_eq_None_iff)
    moreover have "set_view (K @ [(nm, ?ps, [])]) = (set_view K)(nm \<mapsto> (fam, []))"
      using None a(3) by (auto simp: set_view_def fun_eq_iff map_add_def split: option.splits)
    ultimately show ?thesis using None filter_params [OF a(5)] by (auto simp: ipset_create_def set_view_def)
  next
    case (Some v)
    obtain qs ms where v: "map_of K nm = Some (qs, ms)" using Some by (cases v) auto
    have "family_of qs = fam" using f [of "family_of qs" ms] v by (simp add: set_view_Some)
    then have "qs = ?ps" using ksets_okD [OF K(1) v] by (simp add: set_ok_def)
    then show ?thesis using v K(1) filter_params [OF a(5)] by (auto simp: ipset_create_def set_view_def)
  qed
  then obtain K' where k: "ipset_run (create_args (setIPSetDefaults (net_set nm fam)) True) K = cmd_ok [] K'" "ksets_ok K'"
    "set_view K' = (if set_view K nm = None then (set_view K)(nm \<mapsto> (fam, [])) else set_view K)" using r by auto
  show ?thesis using k a(1) by (auto simp: CreateSet_def createSet_def Let_def go_simps run_cmd_def cmd_ok_def)
qed

interpretation kernel_sets: ipset_service ipset_run ksets_ok set_view store_form
proof
  fix K nm fam ms
  assume K: "ksets_ok K" and v: "set_view K nm = Some (fam, ms)"
  then obtain ps where ps: "map_of K nm = Some (ps, ms)" "family_of ps = fam" by (auto simp: set_view_Some)
  note so = ksets_okD [OF K ps(1)]
  show m: "distinct ms \<and> (\<forall>m \<in> set ms. store_form fam m = Some m)" using so ps(2) by (auto simp: set_ok_def)
  have h: "newline \<notin> set (''Name: '' @ nm)" "newline \<notin> set (''Type: '' @ join_with '' '' ps)"
  proof -
    have "newline \<notin> set x" if "x \<in> set ps" for x
    proof -
      have "newline \<notin> set (dec_int 1024)" "newline \<notin> set (dec_int 65536)" using newline_dec by (simp_all add: dec_int_def)
      moreover have "x \<in> set (net_params (family_of ps))" "newline \<notin> set (family_of ps)" using that so by (auto simp: set_ok_def)
      ultimately show ?thesis by (auto simp: net_params_def newline_def)
    qed
    then show "newline \<notin> set (''Type: '' @ join_with '' '' ps)" using set_join_with [of "'' ''" ps] by (auto simp: newline_def)
    show "newline \<notin> set (''Name: '' @ nm)" using so by (auto simp: set_ok_def proper_def newline_def)
  qed
  have "list_all plain_line ms" using m store_form_stored by (auto simp: list_all_iff)
  then have "member_lines (listing [''Name: '' @ nm, ''Type: '' @ join_with '' '' ps] ms) = ms" using h by (intro member_lines_listing) auto
  moreover have "nm \<noteq> ''-n''" "nm \<noteq> []" using so by (auto simp: set_ok_def proper_def)
  ultimately show "ListEntries ipset_run nm K = (Ok ms, K)"
    using ps(1) by (simp add: ListEntries_def go_simps run_cmd_def ipset_run_def ipset_list_def cmd_ok_def)
  show "\<exists>K'. DelEntry ipset_run e nm K = (Ok (), K') \<and> ksets_ok K' \<and> set_view K' = (set_view K)(nm \<mapsto> (fam, removeAll e' ms))"
    if "store_form fam e = Some e'" "e' \<in> set ms" for e e'
  proof -
    have "act_del [] ms e' = Inr (removeAll e' ms)" "set (removeAll e' ms) \<subseteq> insert e' (set ms)" "distinct (removeAll e' ms)"
      using that(2) m by (auto simp: act_del_def distinct_removeAll)
    from ipset_entry_run [of K nm fam ms e e' act_del, OF K v that(1) this] show ?thesis
      by (auto simp: DelEntry_def go_simps run_cmd_def ipset_run_def cmd_ok_def)
  qed
next
  fix K fam ms e and s :: ip_set
  assume K: "ksets_ok K" and v: "set_view K (set_name s) = Some (fam, ms)"
  have d: "distinct ms" using K v by (auto simp: set_view_Some set_ok_def dest: ksets_okD)
  have r: "ipset_run ([''add'', set_name s, e] @ (if True then [''-exist''] else [])) K = ipset_entry act_add [set_name s, e, ''-exist''] K" for e
    by (simp add: ipset_run_def)
  show "\<exists>K'. AddEntry ipset_run e s True K = (Ok (), K') \<and> ksets_ok K' \<and>
      set_view K' = (set_view K)(set_name s \<mapsto> (fam, if e' \<in> set ms then ms else ms @ [e']))" if "store_form fam e = Some e'" for e'
  proof -
    let ?ms = "if e' \<in> set ms then ms else ms @ [e']"
    have "act_add [''-exist''] ms e' = Inr ?ms" "set ?ms \<subseteq> insert e' (set ms)" "distinct ?ms" using d by (auto simp: act_add_def)
    from ipset_entry_run [of K "set_name s" fam ms e e' act_add, OF K v that this] show ?thesis
      using r [of e] by (auto simp: AddEntry_def go_simps run_cmd_def cmd_ok_def)
  qed
  show "\<exists>msg. AddEntry ipset_run e s True K = (Err msg, K)" if "store_form fam e = None"
    using v that r [of e] by (auto simp: AddEntry_def go_simps run_cmd_def cmd_fail_def ipset_entry_def set_view_Some)
next
  fix K nm assume K: "ksets_ok K"
  have "ksets_ok (AList.delete nm K)" using K by (simp add: ksets_ok_def list_all_iff distinct_delete) (auto simp: AList.delete_eq)
  moreover have "set_view (AList.delete nm K) = (set_view K)(nm := None)" by (auto simp: set_view_def delete_conv')
  ultimately show "\<exists>r K'. DestroySet ipset_run nm K = (r, K') \<and> r \<noteq> Panic \<and> r \<noteq> Diverge \<and> ksets_ok K' \<and>
      (set_view K' = (set_view K)(nm := None) \<or> set_view K' = set_view K)"
    using K by (cases "map_of K nm") (auto simp: DestroySet_def go_simps run_cmd_def ipset_run_def ipset_destroy_def cmd_ok_def cmd_fail_def)
next
  fix K :: ksets
  show "\<exists>ns. ListSets ipset_run K = (Ok ns, K)"
    by (auto simp: ListSets_def go_simps run_cmd_def ipset_run_def ipset_list_def cmd_ok_def)
qed (rule kernel_create)

end
