(* ===== verification/AgentSets.thy ===== *)
theory AgentSets
  imports AgentPolice IpSetService
begin

text \<open>
  What the agent makes of the sets of a policy and of the cluster, from the contract of the \<^verbatim>\<open>ipset\<close> runner.
\<close>

lemma for_each_ipset:
  "for_each (\<lambda>x _. call_ipset (g x)) xs () w = call_ipset (for_each (\<lambda>x _. g x) xs ()) w"
proof (induction xs arbitrary: w)
  case (Cons x xs)
  show ?case
    using Cons [of "w\<lparr>aw_kernel := snd (g x (aw_kernel w))\<rparr>"]
    by (cases "g x (aw_kernel w)"; cases "fst (g x (aw_kernel w))") (auto simp: go_simps on_ipset_def split: prod.splits)
qed (simp add: go_simps on_ipset_def)

lemma on_ipset_Ok: "m (aw_kernel w) = (Ok x, k) \<Longrightarrow> or_fail g (on_ipset m) w = (Ok x, w\<lparr>aw_kernel := k\<rparr>)"
  by (simp add: go_simps on_ipset_def)

lemma findDiff_members:
  assumes "findDiff old new = (toAdd, toDel)"
  shows "(set old \<union> set toAdd) - set toDel = diff_form ` set new" "set toDel \<subseteq> set old" "set toAdd \<inter> set toDel = {}"
    "distinct old \<Longrightarrow> distinct toDel" "set toAdd \<subseteq> diff_form ` set new"
  using assms by (auto simp: findDiff_def Let_def)

section \<open>The sets of a policy\<close>

text \<open>The agent's record and the kernel agree on a set.\<close>

definition set_fits :: "('k \<Rightarrow> string \<Rightarrow> (string \<times> string list) option) \<Rightarrow> ('c, 'k, 'x) agent_world \<Rightarrow> SetName \<Rightarrow> bool" where
  "set_fits view w s \<longleftrightarrow>
     (\<forall>f ms. view (aw_kernel w) (sn_name s) = Some (f, ms) \<longrightarrow> f = HashFamily (sn_stack s)) \<and>
     (\<forall>i. map_of (aw_sets w) (sn_name s) = Some i \<longrightarrow> set_name i = sn_name s \<and> view (aw_kernel w) (sn_name s) \<noteq> None)"

definition set_there :: "('k \<Rightarrow> string \<Rightarrow> (string \<times> string list) option) \<Rightarrow> ('c, 'k, 'x) agent_world \<Rightarrow> SetName \<Rightarrow> bool" where
  "set_there view w s \<longleftrightarrow> set_fits view w s \<and> map_of (aw_sets w) (sn_name s) \<noteq> None"

definition enabled :: "agent_config \<Rightarrow> ip_stack \<Rightarrow> bool" where
  "enabled cfg stack = (case stack of StackIPv4 \<Rightarrow> cf_enable_ipv4 cfg | StackIPv6 \<Rightarrow> cf_enable_ipv6 cfg)"

lemma HashFamily_families: "HashFamily st \<in> {ProtocolFamilyIPV4, ProtocolFamilyIPV6}"
  by (cases st) (simp_all add: family_defs)

lemma set_there_family: "set_there view w s \<Longrightarrow> \<exists>ms. view (aw_kernel w) (sn_name s) = Some (HashFamily (sn_stack s), ms)"
  by (auto simp: set_there_def set_fits_def)

definition held :: "('k \<Rightarrow> string \<Rightarrow> (string \<times> string list) option) \<Rightarrow> ('c, 'k, 'x) agent_world \<Rightarrow> string \<Rightarrow> string list" where
  "held view w nm = (case view (aw_kernel w) nm of None \<Rightarrow> [] | Some (_, ms) \<Rightarrow> ms)"

locale agent_service = ipset_service exec ok sets form
  for exec :: "'k ipset_cmd" and ok sets form +
  fixes r :: "('c, 'k, 'x) policeReconciler"
  assumes uses: "pr_ipset r = exec"
begin

lemma create_one:
  assumes "ok (aw_kernel w)" "set_fits sets w s" "proper (sn_name s)" "enabled (pr_cfg r) (sn_stack s)"
  shows "\<exists>w'. createIPSet r s w = (Ok (), w') \<and> ok (aw_kernel w') \<and> set_there sets w' s \<and> aw_api w' = aw_api w \<and>
    (\<forall>nm. nm \<noteq> sn_name s \<longrightarrow> map_of (aw_sets w') nm = map_of (aw_sets w) nm) \<and>
    (\<forall>nm. sets (aw_kernel w') nm = (if nm = sn_name s \<and> sets (aw_kernel w) nm = None then Some (HashFamily (sn_stack s), []) else sets (aw_kernel w) nm))"
proof (cases "map_of (aw_sets w) (sn_name s)")
  case None
  let ?i = "net_set (sn_name s) (HashFamily (sn_stack s))"
  obtain k' where k: "CreateSet exec ?i True (aw_kernel w) = (Ok (setIPSetDefaults ?i), k')" "ok k'"
    "sets k' = (if sets (aw_kernel w) (sn_name s) = None then (sets (aw_kernel w))(sn_name s \<mapsto> (HashFamily (sn_stack s), [])) else sets (aw_kernel w))"
    using create [OF assms(1,3) HashFamily_families, of "sn_stack s"] assms(2) by (auto simp: set_fits_def)
  have n: "set_name (setIPSetDefaults ?i) = sn_name s" by (simp add: setIPSetDefaults_def net_set_def)
  have "createIPSet r s w = (Ok (), w\<lparr>aw_kernel := k', aw_sets := AList.update (sn_name s) (setIPSetDefaults ?i) (aw_sets w)\<rparr>)"
    using None k(1) assms(4) unfolding createIPSet_def uses
    by (cases "sn_stack s") (auto simp: load_sets_def store_sets_def go_simps on_ipset_def net_set_def enabled_def)
  then show ?thesis using k(2,3) assms(2) n by (auto simp: set_there_def set_fits_def update_conv')
next
  case (Some i)
  then have "createIPSet r s w = (Ok (), w)" by (simp add: createIPSet_def load_sets_def go_simps)
  then show ?thesis using Some assms by (auto simp: set_there_def set_fits_def)
qed

lemma create_all:
  assumes "ok (aw_kernel w)" "distinct (map sn_name ss)"
    "\<And>s. s \<in> set ss \<Longrightarrow> set_fits sets w s \<and> proper (sn_name s) \<and> enabled (pr_cfg r) (sn_stack s)"
  shows "\<exists>w'. for_each (\<lambda>s _. createIPSet r s) ss () w = (Ok (), w') \<and> ok (aw_kernel w') \<and> aw_api w' = aw_api w \<and>
    (\<forall>s \<in> set ss. set_there sets w' s) \<and>
    (\<forall>nm. nm \<notin> sn_name ` set ss \<longrightarrow> sets (aw_kernel w') nm = sets (aw_kernel w) nm \<and> map_of (aw_sets w') nm = map_of (aw_sets w) nm)"
  using assms
proof (induction ss arbitrary: w)
  case (Cons s ss)
  obtain w1 where w1: "createIPSet r s w = (Ok (), w1)" "ok (aw_kernel w1)" "set_there sets w1 s" "aw_api w1 = aw_api w"
    "\<forall>nm. nm \<noteq> sn_name s \<longrightarrow> map_of (aw_sets w1) nm = map_of (aw_sets w) nm"
    "\<forall>nm. sets (aw_kernel w1) nm = (if nm = sn_name s \<and> sets (aw_kernel w) nm = None then Some (HashFamily (sn_stack s), []) else sets (aw_kernel w) nm)"
    using create_one [of w s] Cons.prems by auto
  have "sn_name s \<notin> sn_name ` set ss" using Cons.prems(2) by simp
  then have other: "sn_name t \<noteq> sn_name s" if "t \<in> set ss" for t using that by (metis imageI)
  have "set_fits sets w1 t \<and> proper (sn_name t) \<and> enabled (pr_cfg r) (sn_stack t)" if "t \<in> set ss" for t
    using Cons.prems(3) [of t] other [OF that] that w1(5,6) by (simp add: set_fits_def)
  with Cons.IH [OF w1(2)] Cons.prems(2) obtain w' where w': "for_each (\<lambda>s _. createIPSet r s) ss () w1 = (Ok (), w')"
    "ok (aw_kernel w')" "aw_api w' = aw_api w1" "\<forall>s \<in> set ss. set_there sets w' s"
    "\<forall>nm. nm \<notin> sn_name ` set ss \<longrightarrow> sets (aw_kernel w') nm = sets (aw_kernel w1) nm \<and> map_of (aw_sets w') nm = map_of (aw_sets w1) nm"
    by auto
  have "sn_name s \<notin> sn_name ` set ss" using Cons.prems(2) by simp
  then have "set_there sets w' s" using w1(3) w'(5) by (simp add: set_there_def set_fits_def)
  then show ?case using w1 w' by (intro exI [of _ w']) (auto simp: bindp_def)
qed (auto simp: ret_def)

text \<open>The plan for sets that are there: the difference to what they hold.\<close>

lemma plan_one:
  assumes "ok (aw_kernel w)" "set_there sets w s" "wanted_of (pr_cfg r) src dst s = Some new"
  shows "plan_set r src dst s (adds, dels) w =
    (Ok (AList.update (sn_name s) (fst (findDiff (held sets w (sn_name s)) new)) adds,
         AList.update (sn_name s) (snd (findDiff (held sets w (sn_name s)) new)) dels), w)"
proof -
  obtain ms where ms: "sets (aw_kernel w) (sn_name s) = Some (HashFamily (sn_stack s), ms)" using set_there_family [OF assms(2)] by blast
  have l: "ListEntries exec (sn_name s) (aw_kernel w) = (Ok ms, aw_kernel w)" using list_entries [OF assms(1) ms] .
  show ?thesis using ms l assms(3) unfolding plan_set_def uses
    by (simp add: go_simps on_ipset_def held_def split: prod.splits)
qed

lemma plan_all:
  assumes "ok (aw_kernel w)" "\<And>s. s \<in> set ss \<Longrightarrow> set_there sets w s \<and> wanted_of (pr_cfg r) src dst s = Some (new s)" "distinct (map sn_name ss)"
  shows "for_each (plan_set r src dst) ss (adds, dels) w =
    (Ok (fold (\<lambda>s. AList.update (sn_name s) (fst (findDiff (held sets w (sn_name s)) (new s)))) ss adds,
         fold (\<lambda>s. AList.update (sn_name s) (snd (findDiff (held sets w (sn_name s)) (new s)))) ss dels), w)"
  using assms
proof (induction ss arbitrary: adds dels)
  case (Cons s ss)
  then show ?case using plan_one [of w s src dst "new s" adds dels] by (simp add: bindp_def)
qed (simp add: ret_def)

lemma add_loop:
  assumes "ok (aw_kernel w)" "distinct nms"
    "\<And>nm. nm \<in> set nms \<Longrightarrow> \<exists>i. map_of (aw_sets w) nm = Some i \<and> set_name i = nm"
    "\<And>nm. nm \<in> set nms \<Longrightarrow> sets (aw_kernel w) nm = Some (F nm, held sets w nm) \<and> (\<forall>e \<in> set (lookup_ips toAdd nm). form (F nm) e = Some e)"
  shows "\<exists>k'. for_each (\<lambda>nm _. add_entries r toAdd nm) nms () w = (Ok (), w\<lparr>aw_kernel := k'\<rparr>) \<and> ok k' \<and>
    (\<forall>nm \<in> set nms. \<exists>ms. sets k' nm = Some (F nm, ms) \<and> set ms = set (held sets w nm) \<union> set (lookup_ips toAdd nm)) \<and>
    (\<forall>nm. nm \<notin> set nms \<longrightarrow> sets k' nm = sets (aw_kernel w) nm)"
  using assms
proof (induction nms arbitrary: w)
  case (Cons nm nms)
  obtain i where i: "map_of (aw_sets w) nm = Some i" "set_name i = nm" using Cons.prems(3) [of nm] by auto
  have s: "sets (aw_kernel w) (set_name i) = Some (F nm, held sets w nm)" "\<forall>e \<in> set (lookup_ips toAdd nm). form (F nm) e = Some e"
    using Cons.prems(4) [of nm] i(2) by auto
  obtain k1 ms1 where k1: "for_each (\<lambda>e _. AddEntry exec e i True) (lookup_ips toAdd nm) () (aw_kernel w) = (Ok (), k1)" "ok k1"
    "sets k1 = (sets (aw_kernel w))(nm \<mapsto> (F nm, ms1))" "set ms1 = set (held sets w nm) \<union> set (lookup_ips toAdd nm)"
    using add_all [OF Cons.prems(1) s(1), of "lookup_ips toAdd nm" "\<lambda>e. e"] s(2) i(2) by auto
  have "for_each (\<lambda>ip _. call_ipset (AddEntry exec ip i True)) (lookup_ips toAdd nm) () w = (Ok (), w\<lparr>aw_kernel := k1\<rparr>)"
    unfolding for_each_ipset by (rule on_ipset_Ok, rule k1(1))
  then have a: "add_entries r toAdd nm w = (Ok (), w\<lparr>aw_kernel := k1\<rparr>)"
    using i(1) unfolding add_entries_def uses by (simp add: load_sets_def bindp_def)
  let ?w = "w\<lparr>aw_kernel := k1\<rparr>"
  have h: "held sets ?w n = held sets w n" "sets k1 n = sets (aw_kernel w) n" if "n \<noteq> nm" for n using k1(3) that by (simp_all add: held_def)
  have "\<exists>k'. for_each (\<lambda>nm _. add_entries r toAdd nm) nms () ?w = (Ok (), ?w\<lparr>aw_kernel := k'\<rparr>) \<and> ok k' \<and>
    (\<forall>nm \<in> set nms. \<exists>ms. sets k' nm = Some (F nm, ms) \<and> set ms = set (held sets ?w nm) \<union> set (lookup_ips toAdd nm)) \<and>
    (\<forall>nm. nm \<notin> set nms \<longrightarrow> sets k' nm = sets (aw_kernel ?w) nm)"
  proof (rule Cons.IH)
    show "sets (aw_kernel ?w) n = Some (F n, held sets ?w n) \<and> (\<forall>e \<in> set (lookup_ips toAdd n). form (F n) e = Some e)" if "n \<in> set nms" for n
    proof -
      have "n \<noteq> nm" using that Cons.prems(2) by auto
      then show ?thesis using h [of n] Cons.prems(4) [of n] that by simp
    qed
  qed (use Cons.prems k1(2) in auto)
  then obtain k' where k': "for_each (\<lambda>nm _. add_entries r toAdd nm) nms () ?w = (Ok (), w\<lparr>aw_kernel := k'\<rparr>)" "ok k'"
    "\<forall>nm \<in> set nms. \<exists>ms. sets k' nm = Some (F nm, ms) \<and> set ms = set (held sets ?w nm) \<union> set (lookup_ips toAdd nm)"
    "\<forall>nm. nm \<notin> set nms \<longrightarrow> sets k' nm = sets k1 nm" by auto
  have "\<exists>ms. sets k' n = Some (F n, ms) \<and> set ms = set (held sets w n) \<union> set (lookup_ips toAdd n)" if "n \<in> set (nm # nms)" for n
  proof (cases "n = nm")
    case True
    then have "n \<notin> set nms" using Cons.prems(2) by simp
    then show ?thesis using True k'(4) k1(3,4) by simp
  next
    case False
    then show ?thesis using that k'(3) h(1) [of n] by auto
  qed
  then show ?case using a k' k1(3) by (intro exI [of _ k']) (auto simp: bindp_def)
next
  case Nil
  then show ?case by (intro exI [of _ "aw_kernel w"]) (simp add: ret_def)
qed

lemma del_loop:
  assumes "ok (aw_kernel w)" "distinct nms"
    "\<And>nm. nm \<in> set nms \<Longrightarrow> sets (aw_kernel w) nm = Some (F nm, held sets w nm) \<and> set (lookup_ips toDel nm) \<subseteq> set (held sets w nm) \<and> distinct (lookup_ips toDel nm)"
  shows "\<exists>k'. for_each (\<lambda>nm _. del_entries r toDel nm) nms () w = (Ok (), w\<lparr>aw_kernel := k'\<rparr>) \<and> ok k' \<and>
    (\<forall>nm \<in> set nms. \<exists>ms. sets k' nm = Some (F nm, ms) \<and> set ms = set (held sets w nm) - set (lookup_ips toDel nm)) \<and>
    (\<forall>nm. nm \<notin> set nms \<longrightarrow> sets k' nm = sets (aw_kernel w) nm)"
  using assms
proof (induction nms arbitrary: w)
  case (Cons nm nms)
  have s: "sets (aw_kernel w) nm = Some (F nm, held sets w nm)" "set (lookup_ips toDel nm) \<subseteq> set (held sets w nm)" "distinct (lookup_ips toDel nm)"
    using Cons.prems(3) [of nm] by auto
  obtain k1 ms1 where k1: "for_each (\<lambda>e _. DelEntry exec e nm) (lookup_ips toDel nm) () (aw_kernel w) = (Ok (), k1)" "ok k1"
    "sets k1 = (sets (aw_kernel w))(nm \<mapsto> (F nm, ms1))" "set ms1 = set (held sets w nm) - set (lookup_ips toDel nm)"
    using del_all [OF Cons.prems(1) s] by auto
  have "for_each (\<lambda>ip _. call_ipset (DelEntry exec ip nm)) (lookup_ips toDel nm) () w = (Ok (), w\<lparr>aw_kernel := k1\<rparr>)"
    unfolding for_each_ipset by (rule on_ipset_Ok, rule k1(1))
  then have a: "del_entries r toDel nm w = (Ok (), w\<lparr>aw_kernel := k1\<rparr>)" unfolding del_entries_def uses .
  let ?w = "w\<lparr>aw_kernel := k1\<rparr>"
  have h: "held sets ?w n = held sets w n" "sets k1 n = sets (aw_kernel w) n" if "n \<noteq> nm" for n using k1(3) that by (simp_all add: held_def)
  have "\<exists>k'. for_each (\<lambda>nm _. del_entries r toDel nm) nms () ?w = (Ok (), ?w\<lparr>aw_kernel := k'\<rparr>) \<and> ok k' \<and>
    (\<forall>nm \<in> set nms. \<exists>ms. sets k' nm = Some (F nm, ms) \<and> set ms = set (held sets ?w nm) - set (lookup_ips toDel nm)) \<and>
    (\<forall>nm. nm \<notin> set nms \<longrightarrow> sets k' nm = sets (aw_kernel ?w) nm)"
  proof (rule Cons.IH)
    show "sets (aw_kernel ?w) n = Some (F n, held sets ?w n) \<and> set (lookup_ips toDel n) \<subseteq> set (held sets ?w n) \<and> distinct (lookup_ips toDel n)"
      if "n \<in> set nms" for n
    proof -
      have "n \<noteq> nm" using that Cons.prems(2) by auto
      then show ?thesis using h [of n] Cons.prems(3) [of n] that by simp
    qed
  qed (use Cons.prems k1(2) in auto)
  then obtain k' where k': "for_each (\<lambda>nm _. del_entries r toDel nm) nms () ?w = (Ok (), w\<lparr>aw_kernel := k'\<rparr>)" "ok k'"
    "\<forall>nm \<in> set nms. \<exists>ms. sets k' nm = Some (F nm, ms) \<and> set ms = set (held sets ?w nm) - set (lookup_ips toDel nm)"
    "\<forall>nm. nm \<notin> set nms \<longrightarrow> sets k' nm = sets k1 nm" by auto
  have "\<exists>ms. sets k' n = Some (F n, ms) \<and> set ms = set (held sets w n) - set (lookup_ips toDel n)" if "n \<in> set (nm # nms)" for n
  proof (cases "n = nm")
    case True
    then have "n \<notin> set nms" using Cons.prems(2) by simp
    then show ?thesis using True k'(4) k1(3,4) by simp
  next
    case False
    then show ?thesis using that k'(3) h(1) [of n] by auto
  qed
  then show ?case using a k' k1(3) by (intro exI [of _ k']) (auto simp: bindp_def)
next
  case Nil
  then show ?case by (intro exI [of _ "aw_kernel w"]) (simp add: ret_def)
qed

end

text \<open>A map filled in a loop over distinct keys.\<close>

lemma fold_update:
  assumes "distinct (map f xs)" "set (map f xs) \<inter> set (map fst m) = {}"
  shows "map fst (fold (\<lambda>x. AList.update (f x) (g x)) xs m) = map fst m @ map f xs"
    "x \<in> set xs \<Longrightarrow> map_of (fold (\<lambda>x. AList.update (f x) (g x)) xs m) (f x) = Some (g x)"
proof -
  have k: "map fst (fold (\<lambda>x. AList.update (f x) (g x)) ys m) = map fst m @ map f ys"
    if "distinct (map f ys)" "set (map f ys) \<inter> set (map fst m) = {}" for ys m
    using that
  proof (induction ys arbitrary: m)
    case (Cons y ys)
    then have "map fst (AList.update (f y) (g y) m) = map fst m @ [f y]" by (simp add: update_keys)
    then show ?case using Cons by (auto simp: dom_update)
  qed simp
  show "map fst (fold (\<lambda>x. AList.update (f x) (g x)) xs m) = map fst m @ map f xs" using k assms by blast
  show "x \<in> set xs \<Longrightarrow> map_of (fold (\<lambda>x. AList.update (f x) (g x)) xs m) (f x) = Some (g x)"
    using assms
  proof (induction xs arbitrary: m)
    case (Cons y ys)
    have o: "n \<notin> f ` set zs \<Longrightarrow> map_of (fold (\<lambda>x. AList.update (f x) (g x)) zs m') n = map_of m' n" for zs m' n
      by (induction zs arbitrary: m') (auto simp: update_conv')
    have y: "f y \<notin> f ` set ys" using Cons.prems(2) by simp
    show ?case
    proof (cases "x \<in> set ys")
      case True
      have "map fst (AList.update (f y) (g y) m) = map fst m @ [f y]" using Cons.prems(3) by (simp add: update_keys)
      then show ?thesis using True Cons.IH [of "AList.update (f y) (g y) m"] Cons.prems(2,3) by (auto simp: dom_update)
    next
      case False
      then have "x = y" using Cons.prems(1) by simp
      then show ?thesis using o [OF y, of "AList.update (f y) (g y) m"] by (simp add: update_conv')
    qed
  qed simp
qed

context agent_service
begin

text \<open>Both loops together leave the wanted entries, whatever was in the sets.\<close>

lemma fill_sets:
  assumes ordA: "map_iteration ordA" and ordD: "map_iteration ordD"
    and w: "ok (aw_kernel w)" "distinct (map sn_name ss)" "\<And>s. s \<in> set ss \<Longrightarrow> set_there sets w s"
    and new: "\<And>s e. s \<in> set ss \<Longrightarrow> e \<in> set (new s) \<Longrightarrow> form (HashFamily (sn_stack s)) (diff_form e) = Some (diff_form e)"
  defines "adds \<equiv> fold (\<lambda>s. AList.update (sn_name s) (fst (findDiff (held sets w (sn_name s)) (new s)))) ss []"
    and "dels \<equiv> fold (\<lambda>s. AList.update (sn_name s) (snd (findDiff (held sets w (sn_name s)) (new s)))) ss []"
  shows "\<exists>k'. bindp (for_each (\<lambda>nm _. add_entries r adds nm) (ordA (map fst adds)) ()) (\<lambda>_.
      for_each (\<lambda>nm _. del_entries r dels nm) (ordD (map fst dels)) ()) w = (Ok (), w\<lparr>aw_kernel := k'\<rparr>) \<and> ok k' \<and>
    (\<forall>s \<in> set ss. \<exists>ms. sets k' (sn_name s) = Some (HashFamily (sn_stack s), ms) \<and> set ms = diff_form ` set (new s)) \<and>
    (\<forall>nm. nm \<notin> sn_name ` set ss \<longrightarrow> sets k' nm = sets (aw_kernel w) nm)"
proof -
  define F where "F nm = HashFamily (sn_stack (the (find (\<lambda>s. sn_name s = nm) ss)))" for nm
  have F: "F (sn_name s) = HashFamily (sn_stack s)" if s: "s \<in> set ss" for s
  proof -
    obtain t where t: "find (\<lambda>t. sn_name t = sn_name s) ss = Some t"
      using s by (cases "find (\<lambda>t. sn_name t = sn_name s) ss") (auto simp: find_None_iff)
    then have "t \<in> set ss" "sn_name t = sn_name s" by (auto simp: find_Some_iff)
    then have "t = s" using w(2) s by (metis distinct_map inj_onD)
    then show ?thesis using t by (simp add: F_def)
  qed
  have keys: "map fst adds = map sn_name ss" "map fst dels = map sn_name ss"
    unfolding adds_def dels_def using fold_update(1) [OF w(2), of "[]"] by simp_all
  have A: "lookup_ips adds (sn_name s) = fst (findDiff (held sets w (sn_name s)) (new s))"
    and D: "lookup_ips dels (sn_name s) = snd (findDiff (held sets w (sn_name s)) (new s))" if "s \<in> set ss" for s
    unfolding lookup_ips_def adds_def dels_def
    using fold_update(2) [OF w(2) _ that, where m = "[]" and g = "\<lambda>s. fst (findDiff (held sets w (sn_name s)) (new s))"]
      fold_update(2) [OF w(2) _ that, where m = "[]" and g = "\<lambda>s. snd (findDiff (held sets w (sn_name s)) (new s))"] by simp_all
  have there: "sets (aw_kernel w) (sn_name s) = Some (F (sn_name s), held sets w (sn_name s))" if "s \<in> set ss" for s
    using set_there_family [OF w(3) [OF that]] F [OF that] by (auto simp: held_def)
  have sub: "\<And>nm. nm \<in> set (ordA (map fst adds)) \<Longrightarrow> \<exists>s \<in> set ss. nm = sn_name s"
    "\<And>nm. nm \<in> set (ordD (map fst dels)) \<Longrightarrow> \<exists>s \<in> set ss. nm = sn_name s"
    using map_iteration.set_visits [OF ordA] map_iteration.set_visits [OF ordD] by (auto simp: keys)
  have dist: "distinct (ordA (map fst adds))" "distinct (ordD (map fst dels))"
    using map_iteration.distinct_visits [OF ordA] map_iteration.distinct_visits [OF ordD] w(2) by (simp_all add: keys)
  have "\<exists>k'. for_each (\<lambda>nm _. add_entries r adds nm) (ordA (map fst adds)) () w = (Ok (), w\<lparr>aw_kernel := k'\<rparr>) \<and> ok k' \<and>
    (\<forall>nm \<in> set (ordA (map fst adds)). \<exists>ms. sets k' nm = Some (F nm, ms) \<and> set ms = set (held sets w nm) \<union> set (lookup_ips adds nm)) \<and>
    (\<forall>nm. nm \<notin> set (ordA (map fst adds)) \<longrightarrow> sets k' nm = sets (aw_kernel w) nm)"
  proof (rule add_loop [OF w(1) dist(1)])
    fix nm assume "nm \<in> set (ordA (map fst adds))"
    then obtain s where s: "s \<in> set ss" "nm = sn_name s" using sub by blast
    show "\<exists>i. map_of (aw_sets w) nm = Some i \<and> set_name i = nm" using w(3) [OF s(1)] s(2) by (auto simp: set_there_def set_fits_def)
    have "form (F nm) e = Some e" if "e \<in> set (lookup_ips adds nm)" for e
      using that new [OF s(1)] findDiff_members(5) [OF surjective_pairing] F [OF s(1)] A [OF s(1)] s(2) by fastforce
    then show "sets (aw_kernel w) nm = Some (F nm, held sets w nm) \<and> (\<forall>e \<in> set (lookup_ips adds nm). form (F nm) e = Some e)"
      using there [OF s(1)] s(2) by simp
  qed
  then obtain k1 where k1: "for_each (\<lambda>nm _. add_entries r adds nm) (ordA (map fst adds)) () w = (Ok (), w\<lparr>aw_kernel := k1\<rparr>)" "ok k1"
    "\<forall>s \<in> set ss. \<exists>ms. sets k1 (sn_name s) = Some (F (sn_name s), ms) \<and> set ms = set (held sets w (sn_name s)) \<union> set (lookup_ips adds (sn_name s))"
    "\<forall>nm. nm \<notin> sn_name ` set ss \<longrightarrow> sets k1 nm = sets (aw_kernel w) nm"
    using map_iteration.set_visits [OF ordA] by (auto simp: keys)
  let ?w = "w\<lparr>aw_kernel := k1\<rparr>"
  have h: "sets k1 (sn_name s) = Some (F (sn_name s), held sets ?w (sn_name s))"
    "set (held sets ?w (sn_name s)) = set (held sets w (sn_name s)) \<union> set (lookup_ips adds (sn_name s))" if s: "s \<in> set ss" for s
  proof -
    obtain ms where ms: "sets k1 (sn_name s) = Some (F (sn_name s), ms)" "set ms = set (held sets w (sn_name s)) \<union> set (lookup_ips adds (sn_name s))"
      using k1(3) s by blast
    then have "held sets ?w (sn_name s) = ms" by (simp add: held_def)
    then show "sets k1 (sn_name s) = Some (F (sn_name s), held sets ?w (sn_name s))"
      "set (held sets ?w (sn_name s)) = set (held sets w (sn_name s)) \<union> set (lookup_ips adds (sn_name s))" using ms by simp_all
  qed
  have "\<exists>k'. for_each (\<lambda>nm _. del_entries r dels nm) (ordD (map fst dels)) () ?w = (Ok (), ?w\<lparr>aw_kernel := k'\<rparr>) \<and> ok k' \<and>
    (\<forall>nm \<in> set (ordD (map fst dels)). \<exists>ms. sets k' nm = Some (F nm, ms) \<and> set ms = set (held sets ?w nm) - set (lookup_ips dels nm)) \<and>
    (\<forall>nm. nm \<notin> set (ordD (map fst dels)) \<longrightarrow> sets k' nm = sets (aw_kernel ?w) nm)"
  proof (rule del_loop [OF _ dist(2)])
    show "ok (aw_kernel ?w)" using k1(2) by simp
    fix nm assume "nm \<in> set (ordD (map fst dels))"
    then obtain s where s: "s \<in> set ss" "nm = sn_name s" using sub by blast
    have d: "distinct (held sets w nm)" using members [OF w(1) there [OF s(1)]] s(2) by simp
    show "sets (aw_kernel ?w) nm = Some (F nm, held sets ?w nm) \<and> set (lookup_ips dels nm) \<subseteq> set (held sets ?w nm) \<and> distinct (lookup_ips dels nm)"
      using h [OF s(1)] D [OF s(1)] findDiff_members(2,4) [OF surjective_pairing, of "held sets w nm" "new s"] d s(2) by auto
  qed
  then obtain k' where k': "for_each (\<lambda>nm _. del_entries r dels nm) (ordD (map fst dels)) () ?w = (Ok (), w\<lparr>aw_kernel := k'\<rparr>)" "ok k'"
    "\<forall>s \<in> set ss. \<exists>ms. sets k' (sn_name s) = Some (F (sn_name s), ms) \<and> set ms = set (held sets ?w (sn_name s)) - set (lookup_ips dels (sn_name s))"
    "\<forall>nm. nm \<notin> sn_name ` set ss \<longrightarrow> sets k' nm = sets k1 nm"
    using map_iteration.set_visits [OF ordD] by (auto simp: keys)
  have "\<exists>ms. sets k' (sn_name s) = Some (HashFamily (sn_stack s), ms) \<and> set ms = diff_form ` set (new s)" if "s \<in> set ss" for s
    using k'(3) that h(2) [OF that] F [OF that] A [OF that] D [OF that]
      findDiff_members(1) [OF surjective_pairing, of "held sets w (sn_name s)" "new s"] by fastforce
  then show ?thesis using k1(1,4) k' by (intro exI [of _ k']) (auto simp: bindp_def)
qed

end

section \<open>Names of the sets\<close>

definition policy_sets :: "string \<Rightarrow> bool \<Rightarrow> bool \<Rightarrow> SetName list" where
  "policy_sets nm e4 e6 =
     (if e4 then [\<lparr>sn_name = hashed_name ''egress-src-v4-'' nm, sn_stack = StackIPv4, sn_kind = IPSrc\<rparr>,
                  \<lparr>sn_name = hashed_name ''egress-dst-v4-'' nm, sn_stack = StackIPv4, sn_kind = IPDst\<rparr>] else []) @
     (if e6 then [\<lparr>sn_name = hashed_name ''egress-src-v6-'' nm, sn_stack = StackIPv6, sn_kind = IPSrc\<rparr>,
                  \<lparr>sn_name = hashed_name ''egress-dst-v6-'' nm, sn_stack = StackIPv6, sn_kind = IPDst\<rparr>] else [])"

lemma buildIPSetNamesByPolicy_eq:
  "buildIPSetNamesByPolicy ns nm e4 e6 = Ok (policy_sets (if ns \<noteq> [] then ns @ ''-'' @ nm else nm) e4 e6)"
  by (simp add: buildIPSetNamesByPolicy_def policy_sets_def set_entry_def formatIPSetName_def Let_def)

lemma hex_bytes: "bytes bs \<Longrightarrow> set (concat (map hex_byte bs)) \<subseteq> digit_char ` {..<16}"
  by (induction bs) (auto simp: hex_byte_def)

lemma bytes_sha1: "bytes (sha1 msg)"
  by (auto simp: sha1_def bytes_of_word_def Let_def split: prod.splits)

lemma length_hex_bytes: "length (concat (map hex_byte bs)) = 2 * length bs"
  by (induction bs) (auto simp: hex_byte_def)

lemma hashed_name_facts:
  assumes "length pre = 14"
  shows "length (hashed_name pre nm) = 31" "prefix pre (hashed_name pre nm)" "newline \<notin> set pre \<Longrightarrow> newline \<notin> set (hashed_name pre nm)"
proof -
  have "newline \<notin> set (concat (map hex_byte (sha1 (bytes_of_string nm))))"
    using newline_not_digit hex_bytes [OF bytes_sha1, of "bytes_of_string nm"] by blast
  then show "length (hashed_name pre nm) = 31" "prefix pre (hashed_name pre nm)" "newline \<notin> set pre \<Longrightarrow> newline \<notin> set (hashed_name pre nm)"
    using assms by (auto simp: hashed_name_def length_hex_bytes simp del: set_concat dest: in_set_takeD)
qed

lemma hashed_name_take: "take (length pre) (hashed_name pre nm) = pre"
  by (simp add: hashed_name_def)

lemma policy_sets_facts:
  assumes "s \<in> set (policy_sets nm e4 e6)"
  shows "proper (sn_name s)" "length (sn_name s) = 31" "case sn_stack s of StackIPv4 \<Rightarrow> e4 | StackIPv6 \<Rightarrow> e6"
  using assms hashed_name_facts [of "''egress-src-v4-''" nm] hashed_name_facts [of "''egress-dst-v4-''" nm]
    hashed_name_facts [of "''egress-src-v6-''" nm] hashed_name_facts [of "''egress-dst-v6-''" nm]
  by (auto simp: policy_sets_def proper_def newline_def hashed_name_def split: if_splits)

lemma distinct_policy_sets: "distinct (map sn_name (policy_sets nm e4 e6))"
proof -
  have "hashed_name p nm \<noteq> hashed_name q nm" if "take 14 p \<noteq> take 14 q" "length p = 14" "length q = 14" for p q
    using that by (auto simp: hashed_name_def)
  then show ?thesis by (auto simp: policy_sets_def)
qed

section \<open>The update\<close>

definition wanted :: "string list \<times> string list \<Rightarrow> string list \<times> string list \<Rightarrow> SetName \<Rightarrow> string list" where
  "wanted src dst s = (let ps = (case sn_kind s of IPSrc \<Rightarrow> src | IPDst \<Rightarrow> dst) in
     case sn_stack s of StackIPv4 \<Rightarrow> fst ps | StackIPv6 \<Rightarrow> snd ps)"

lemma wanted_of_enabled: "enabled cfg (sn_stack s) \<Longrightarrow> wanted_of cfg src dst s = Some (wanted src dst s)"
  by (cases "sn_kind s"; cases "sn_stack s") (auto simp: wanted_of_def wanted_def enabled_def split: prod.splits)

context agent_service
begin

lemma update_exact:
  assumes ord: "map_iteration (ao_strings o' 0)" "map_iteration (ao_strings o' 1)"
    and src: "getPolicySrcIPs r ns nm (\<lambda>e. ee_node e = cf_node_name (pr_cfg r) \<or> flag) w = (Ok src, w1)"
    and dst: "getDstCIDR destSubnet = Ok dst"
    and w: "ok (aw_kernel w1)"
  defines "ss \<equiv> policy_sets (if ns \<noteq> [] then ns @ ''-'' @ nm else nm) (cf_enable_ipv4 (pr_cfg r)) (cf_enable_ipv6 (pr_cfg r))"
  assumes fits: "\<And>s. s \<in> set ss \<Longrightarrow> set_fits sets w1 s"
    and form: "\<And>s e. s \<in> set ss \<Longrightarrow> e \<in> set (wanted src dst s) \<Longrightarrow> form (HashFamily (sn_stack s)) (diff_form e) = Some (diff_form e)"
  shows "\<exists>w'. updatePolicyIPSet r o' ns nm flag destSubnet w = (Ok (), w') \<and> ok (aw_kernel w') \<and> aw_api w' = aw_api w1 \<and>
    (\<forall>s \<in> set ss. set_there sets w' s \<and>
       (\<exists>ms. sets (aw_kernel w') (sn_name s) = Some (HashFamily (sn_stack s), ms) \<and> set ms = diff_form ` set (wanted src dst s))) \<and>
    (\<forall>x. x \<notin> sn_name ` set ss \<longrightarrow> sets (aw_kernel w') x = sets (aw_kernel w1) x)"
proof -
  have en: "enabled (pr_cfg r) (sn_stack s)" if "s \<in> set ss" for s
    using policy_sets_facts(3) that unfolding ss_def enabled_def by blast
  obtain w2 where w2: "for_each (\<lambda>s _. createIPSet r s) ss () w1 = (Ok (), w2)" "ok (aw_kernel w2)" "aw_api w2 = aw_api w1"
    "\<forall>s \<in> set ss. set_there sets w2 s"
    "\<forall>x. x \<notin> sn_name ` set ss \<longrightarrow> sets (aw_kernel w2) x = sets (aw_kernel w1) x \<and> map_of (aw_sets w2) x = map_of (aw_sets w1) x"
    using create_all [OF w distinct_policy_sets [of "if ns \<noteq> [] then ns @ ''-'' @ nm else nm", folded ss_def]] fits en policy_sets_facts(1)
    unfolding ss_def by meson
  note dis = distinct_policy_sets [of "if ns \<noteq> [] then ns @ ''-'' @ nm else nm" "cf_enable_ipv4 (pr_cfg r)" "cf_enable_ipv6 (pr_cfg r)", folded ss_def]
  note pl = plan_all [of w2 ss src dst "wanted src dst" "[]" "[]", OF w2(2) _ dis]
  note fi = fill_sets [OF ord w2(2) dis, of "wanted src dst"]
  from fi obtain k' where k': "bindp (for_each (\<lambda>nm _. add_entries r (fold (\<lambda>s. AList.update (sn_name s) (fst (findDiff (held sets w2 (sn_name s)) (wanted src dst s)))) ss []) nm)
        (ao_strings o' 0 (map fst (fold (\<lambda>s. AList.update (sn_name s) (fst (findDiff (held sets w2 (sn_name s)) (wanted src dst s)))) ss []))) ()) (\<lambda>_.
      for_each (\<lambda>nm _. del_entries r (fold (\<lambda>s. AList.update (sn_name s) (snd (findDiff (held sets w2 (sn_name s)) (wanted src dst s)))) ss []) nm)
        (ao_strings o' 1 (map fst (fold (\<lambda>s. AList.update (sn_name s) (snd (findDiff (held sets w2 (sn_name s)) (wanted src dst s)))) ss []))) ()) w2 = (Ok (), w2\<lparr>aw_kernel := k'\<rparr>)"
    "ok k'" "\<forall>s \<in> set ss. \<exists>ms. sets k' (sn_name s) = Some (HashFamily (sn_stack s), ms) \<and> set ms = diff_form ` set (wanted src dst s)"
    "\<forall>x. x \<notin> sn_name ` set ss \<longrightarrow> sets k' x = sets (aw_kernel w2) x"
    using w2(4) form by blast
  have p: "for_each (plan_set r src dst) ss ([], []) w2 =
    (Ok (fold (\<lambda>s. AList.update (sn_name s) (fst (findDiff (held sets w2 (sn_name s)) (wanted src dst s)))) ss [],
         fold (\<lambda>s. AList.update (sn_name s) (snd (findDiff (held sets w2 (sn_name s)) (wanted src dst s)))) ss []), w2)"
    using pl w2(4) wanted_of_enabled en by blast
  have "updatePolicyIPSet r o' ns nm flag destSubnet w = (Ok (), w2\<lparr>aw_kernel := k'\<rparr>)"
    unfolding updatePolicyIPSet_def buildIPSetNamesByPolicy_eq dst ss_def [symmetric]
    using src w2(1) p k'(1) by (simp add: bindp_Ok_step lift_def)
  moreover have "set_there sets (w2\<lparr>aw_kernel := k'\<rparr>) s" if "s \<in> set ss" for s
    using w2(4) k'(3) that by (fastforce simp: set_there_def set_fits_def)
  ultimately show ?thesis using k'(2-4) w2(3,5) by (intro exI [of _ "w2\<lparr>aw_kernel := k'\<rparr>"]) auto
qed

end

section \<open>Entries that are refused\<close>

context agent_service
begin

lemma add_any:
  assumes "ok k" "sets k (set_name s) = Some (fam, ms)"
  shows "(\<exists>k' ms'. for_each (\<lambda>e _. AddEntry exec e s True) es () k = (Ok (), k') \<and> ok k' \<and> sets k' = (sets k)(set_name s \<mapsto> (fam, ms'))
      \<and> (\<forall>e \<in> set es. form fam e \<noteq> None)) \<or>
    (\<exists>msg k'. for_each (\<lambda>e _. AddEntry exec e s True) es () k = (Err msg, k') \<and> (\<exists>e \<in> set es. form fam e = None))"
  using assms
proof (induction es arbitrary: k ms)
  case Nil
  then show ?case by (intro disjI1 exI [of _ k] exI [of _ ms]) (simp add: ret_def fun_upd_idem)
next
  case (Cons e es)
  show ?case
  proof (cases "form fam e")
    case None
    then obtain msg where "AddEntry exec e s True k = (Err msg, k)" using add_refused [OF Cons.prems] by blast
    then show ?thesis using None by (auto simp: bindp_def)
  next
    case (Some e')
    obtain k1 where k1: "AddEntry exec e s True k = (Ok (), k1)" "ok k1"
      "sets k1 = (sets k)(set_name s \<mapsto> (fam, if e' \<in> set ms then ms else ms @ [e']))" using add [OF Cons.prems Some] by blast
    have s1: "sets k1 (set_name s) = Some (fam, if e' \<in> set ms then ms else ms @ [e'])" using k1(3) by simp
    from Cons.IH [OF k1(2) s1] show ?thesis
    proof (elim disjE exE conjE)
      fix k' ms'
      assume "for_each (\<lambda>e _. AddEntry exec e s True) es () k1 = (Ok (), k')" "ok k'" "sets k' = (sets k1)(set_name s \<mapsto> (fam, ms'))"
        "\<forall>e \<in> set es. form fam e \<noteq> None"
      then show ?thesis using k1 Some by (intro disjI1 exI [of _ k'] exI [of _ ms']) (auto simp: bindp_def)
    next
      fix msg k'
      assume "for_each (\<lambda>e _. AddEntry exec e s True) es () k1 = (Err msg, k')" "\<exists>e \<in> set es. form fam e = None"
      then show ?thesis using k1 by (intro disjI2 exI [of _ msg] exI [of _ k']) (auto simp: bindp_def)
    qed
  qed
qed

lemma add_loop_refused:
  assumes "ok (aw_kernel w)"
    "\<And>x. x \<in> set nms \<Longrightarrow> (\<exists>i. map_of (aw_sets w) x = Some i \<and> set_name i = x) \<and> (\<exists>ms. sets (aw_kernel w) x = Some (F x, ms))"
    "nm \<in> set nms" "e \<in> set (lookup_ips toAdd nm)" "form (F nm) e = None"
  shows "\<exists>msg w'. for_each (\<lambda>nm _. add_entries r toAdd nm) nms () w = (Err (AgSet (Failed msg)), w')"
  using assms(1-3)
proof (induction nms arbitrary: w)
  case (Cons x nms)
  obtain i ms where i: "map_of (aw_sets w) x = Some i" "set_name i = x" "sets (aw_kernel w) x = Some (F x, ms)" using Cons.prems(2) [of x] by auto
  have s: "sets (aw_kernel w) (set_name i) = Some (F x, ms)" using i by simp
  have st: "add_entries r toAdd x w = call_ipset (for_each (\<lambda>e _. AddEntry exec e i True) (lookup_ips toAdd x) ()) w"
    using i(1) unfolding add_entries_def uses by (simp add: load_sets_def bindp_def for_each_ipset)
  from add_any [OF Cons.prems(1) s, of "lookup_ips toAdd x"] show ?case
  proof (elim disjE exE conjE)
    fix k' ms'
    assume k: "for_each (\<lambda>e _. AddEntry exec e i True) (lookup_ips toAdd x) () (aw_kernel w) = (Ok (), k')" "ok k'"
      "sets k' = (sets (aw_kernel w))(set_name i \<mapsto> (F x, ms'))" "\<forall>e \<in> set (lookup_ips toAdd x). form (F x) e \<noteq> None"
    have "nm \<noteq> x" using k(4) assms(4,5) by auto
    then have "nm \<in> set nms" using Cons.prems(3) by simp
    moreover have "(\<exists>i. map_of (aw_sets (w\<lparr>aw_kernel := k'\<rparr>)) y = Some i \<and> set_name i = y) \<and> (\<exists>ms. sets (aw_kernel (w\<lparr>aw_kernel := k'\<rparr>)) y = Some (F y, ms))"
      if "y \<in> set nms" for y using Cons.prems(2) [of y] that k(3) i(2) by auto
    ultimately obtain msg w' where "for_each (\<lambda>nm _. add_entries r toAdd nm) nms () (w\<lparr>aw_kernel := k'\<rparr>) = (Err (AgSet (Failed msg)), w')"
      using Cons.IH [of "w\<lparr>aw_kernel := k'\<rparr>"] k(2) by auto
    moreover have "add_entries r toAdd x w = (Ok (), w\<lparr>aw_kernel := k'\<rparr>)" unfolding st by (rule on_ipset_Ok, rule k(1))
    ultimately show ?thesis by (auto simp: bindp_def)
  next
    fix msg k'
    assume "for_each (\<lambda>e _. AddEntry exec e i True) (lookup_ips toAdd x) () (aw_kernel w) = (Err msg, k')"
    then have "add_entries r toAdd x w = (Err (AgSet (Failed msg)), w\<lparr>aw_kernel := k'\<rparr>)" unfolding st by (simp add: or_fail_def on_ipset_def)
    then show ?thesis by (auto simp: bindp_def)
  qed
qed simp

text \<open>An update with an entry that the set refuses fails.\<close>

lemma update_refused:
  assumes ord: "map_iteration (ao_strings o' 0)"
    and src: "getPolicySrcIPs r ns nm (\<lambda>e. ee_node e = cf_node_name (pr_cfg r) \<or> flag) w = (Ok src, w1)"
    and dst: "getDstCIDR destSubnet = Ok dst" and w: "ok (aw_kernel w1)"
  defines "ss \<equiv> policy_sets (if ns \<noteq> [] then ns @ ''-'' @ nm else nm) (cf_enable_ipv4 (pr_cfg r)) (cf_enable_ipv6 (pr_cfg r))"
  assumes fits: "\<And>s. s \<in> set ss \<Longrightarrow> set_fits sets w1 s"
    and bad: "s \<in> set ss" "e \<in> set (wanted src dst s)" "form (HashFamily (sn_stack s)) (diff_form e) = None"
  shows "\<exists>msg w'. updatePolicyIPSet r o' ns nm flag destSubnet w = (Err (AgSet (Failed msg)), w')"
proof -
  note dis = distinct_policy_sets [of "if ns \<noteq> [] then ns @ ''-'' @ nm else nm" "cf_enable_ipv4 (pr_cfg r)" "cf_enable_ipv6 (pr_cfg r)", folded ss_def]
  have en: "enabled (pr_cfg r) (sn_stack s)" if "s \<in> set ss" for s
    using policy_sets_facts(3) that unfolding ss_def enabled_def by blast
  obtain w2 where w2: "for_each (\<lambda>s _. createIPSet r s) ss () w1 = (Ok (), w2)" "ok (aw_kernel w2)" "\<forall>s \<in> set ss. set_there sets w2 s"
    using create_all [OF w dis] fits en policy_sets_facts(1) unfolding ss_def by meson
  let ?d = "\<lambda>s. findDiff (held sets w2 (sn_name s)) (wanted src dst s)"
  let ?adds = "fold (\<lambda>s. AList.update (sn_name s) (fst (?d s))) ss []" and ?dels = "fold (\<lambda>s. AList.update (sn_name s) (snd (?d s))) ss []"
  have p: "for_each (plan_set r src dst) ss ([], []) w2 = (Ok (?adds, ?dels), w2)"
    using plan_all [of w2 ss src dst "wanted src dst" "[]" "[]", OF w2(2) _ dis] w2(3) wanted_of_enabled en by blast
  have keys: "map fst ?adds = map sn_name ss" using fold_update(1) [OF dis, of "[]"] by simp
  have look: "lookup_ips ?adds (sn_name s) = fst (?d s)"
    unfolding lookup_ips_def using fold_update(2) [OF dis _ bad(1), where m = "[]" and g = "\<lambda>s. fst (?d s)"] by simp
  obtain ms where ms: "sets (aw_kernel w2) (sn_name s) = Some (HashFamily (sn_stack s), ms)" using set_there_family w2(3) bad(1) by blast
  have "diff_form e \<notin> set (held sets w2 (sn_name s))" using members [OF w2(2) ms] bad(3) ms by (auto simp: held_def)
  then have inn: "diff_form e \<in> set (lookup_ips ?adds (sn_name s))" using bad(2) unfolding look by (simp add: findDiff_def Let_def)
  define F where "F x = (case sets (aw_kernel w2) x of None \<Rightarrow> [] | Some (f, _) \<Rightarrow> f)" for x
  have "\<exists>msg w'. for_each (\<lambda>nm _. add_entries r ?adds nm) (ao_strings o' 0 (map fst ?adds)) () w2 = (Err (AgSet (Failed msg)), w')"
  proof (rule add_loop_refused [where nm = "sn_name s" and F = F, OF w2(2)])
    show "sn_name s \<in> set (ao_strings o' 0 (map fst ?adds))" using bad(1) map_iteration.set_visits [OF ord] by (simp add: keys)
    show "diff_form e \<in> set (lookup_ips ?adds (sn_name s))" by (rule inn)
    show "form (F (sn_name s)) (diff_form e) = None" using bad(3) ms by (simp add: F_def)
    fix x assume "x \<in> set (ao_strings o' 0 (map fst ?adds))"
    then obtain t where t: "t \<in> set ss" "x = sn_name t" using map_iteration.set_visits [OF ord] by (auto simp: keys)
    then show "(\<exists>i. map_of (aw_sets w2) x = Some i \<and> set_name i = x) \<and> (\<exists>ms. sets (aw_kernel w2) x = Some (F x, ms))"
      using w2(3) set_there_family [of sets w2 t] by (auto simp: set_there_def set_fits_def F_def)
  qed
  then show ?thesis unfolding updatePolicyIPSet_def buildIPSetNamesByPolicy_eq dst ss_def [symmetric]
    using src w2(1) p by (auto simp: bindp_def lift_def)
qed

end

section \<open>The sets of the cluster\<close>

context agent_service
begin

text \<open>The entries of a set become the expected ones when these are in the form in which the set shows them.\<close>

lemma process_exact:
  assumes k: "ok k" "sets k (set_name s) = Some (fam, got)" and e: "\<And>e. e \<in> set want \<Longrightarrow> form fam e = Some e"
  shows "\<exists>k' ms. process got want (\<lambda>item. AddEntry exec item s True) (\<lambda>item. DelEntry exec item (set_name s)) k = (Ok (), k') \<and> ok k' \<and>
    sets k' = (sets k)(set_name s \<mapsto> (fam, ms)) \<and> set ms = set want"
proof -
  let ?adds = "sort (remdups (filter (\<lambda>x. x \<notin> set got) want))" and ?dels = "sort (remdups (filter (\<lambda>x. x \<notin> set want) got))"
  have "\<forall>e \<in> set ?adds. form fam e = Some e" using e by auto
  from add_all [OF k, of ?adds "\<lambda>e. e"] this obtain k1 ms1 where k1:
    "for_each (\<lambda>e _. AddEntry exec e s True) ?adds () k = (Ok (), k1)" "ok k1" "sets k1 = (sets k)(set_name s \<mapsto> (fam, ms1))"
    "set ms1 = set got \<union> set ?adds" by auto
  have s1: "sets k1 (set_name s) = Some (fam, ms1)" using k1(3) by simp
  have "set ?dels \<subseteq> set ms1" "distinct ?dels" using k1(4) by auto
  from del_all [OF k1(2) s1 this] obtain k2 ms2 where k2:
    "for_each (\<lambda>e _. DelEntry exec e (set_name s)) ?dels () k1 = (Ok (), k2)" "ok k2" "sets k2 = (sets k1)(set_name s \<mapsto> (fam, ms2))"
    "set ms2 = set ms1 - set ?dels" by auto
  have "set ms2 = set want" using k1(4) k2(4) by auto
  then show ?thesis using k1 k2 by (intro exI [of _ k2] exI [of _ ms2]) (auto simp: process_def bindp_def)
qed

text \<open>
  An entry the set shows in another form is lost: the addition changes nothing, and the entry is deleted in the
  form that is shown.
\<close>

lemma process_drops:
  assumes k: "ok k" "sets k (set_name s) = Some (fam, got)" and e: "\<And>e. e \<in> set want \<Longrightarrow> form fam e \<noteq> None"
    and h: "h \<in> set got" "h \<notin> set want"
  shows "\<exists>k' ms. process got want (\<lambda>item. AddEntry exec item s True) (\<lambda>item. DelEntry exec item (set_name s)) k = (Ok (), k') \<and> ok k' \<and>
    sets k' = (sets k)(set_name s \<mapsto> (fam, ms)) \<and> h \<notin> set ms"
proof -
  let ?adds = "sort (remdups (filter (\<lambda>x. x \<notin> set got) want))" and ?dels = "sort (remdups (filter (\<lambda>x. x \<notin> set want) got))"
  have "\<forall>e \<in> set ?adds. form fam e = Some (the (form fam e))" using e by auto
  from add_all [OF k, of ?adds "\<lambda>e. the (form fam e)"] this obtain k1 ms1 where k1:
    "for_each (\<lambda>e _. AddEntry exec e s True) ?adds () k = (Ok (), k1)" "ok k1" "sets k1 = (sets k)(set_name s \<mapsto> (fam, ms1))"
    "set ms1 = set got \<union> (\<lambda>e. the (form fam e)) ` set ?adds" by auto
  have s1: "sets k1 (set_name s) = Some (fam, ms1)" using k1(3) by simp
  have "set ?dels \<subseteq> set ms1" "distinct ?dels" using k1(4) by auto
  from del_all [OF k1(2) s1 this] obtain k2 ms2 where k2:
    "for_each (\<lambda>e _. DelEntry exec e (set_name s)) ?dels () k1 = (Ok (), k2)" "ok k2" "sets k2 = (sets k1)(set_name s \<mapsto> (fam, ms2))"
    "set ms2 = set ms1 - set ?dels" by auto
  then show ?thesis using k1 h by (intro exI [of _ k2] exI [of _ ms2]) (auto simp: process_def bindp_def)
qed

end

context agent_service
begin

abbreviation cluster_fits :: "'k \<Rightarrow> bool" where
  "cluster_fits k \<equiv> (\<forall>f ms. sets k EgressClusterCIDRIPv4 = Some (f, ms) \<longrightarrow> f = ''inet'') \<and>
     (\<forall>f ms. sets k EgressClusterCIDRIPv6 = Some (f, ms) \<longrightarrow> f = ''inet6'')"

lemma ensure_sets:
  assumes "ok (aw_kernel w)" "cluster_fits (aw_kernel w)"
  shows "\<exists>k' m4 m6. ensureClusterInfoIPSet r w = (Ok (), w\<lparr>aw_kernel := k'\<rparr>) \<and> ok k' \<and>
    sets k' EgressClusterCIDRIPv4 = Some (''inet'', m4) \<and> sets k' EgressClusterCIDRIPv6 = Some (''inet6'', m6) \<and>
    (\<forall>nm. nm \<notin> {EgressClusterCIDRIPv4, EgressClusterCIDRIPv6} \<longrightarrow> sets k' nm = sets (aw_kernel w) nm)"
proof -
  have pr: "proper EgressClusterCIDRIPv4" "proper EgressClusterCIDRIPv6" "EgressClusterCIDRIPv4 \<noteq> EgressClusterCIDRIPv6"
    by (simp_all add: proper_def EgressClusterCIDRIPv4_def EgressClusterCIDRIPv6_def newline_def)
  have fa: "''inet'' \<in> {ProtocolFamilyIPV4, ProtocolFamilyIPV6}" "''inet6'' \<in> {ProtocolFamilyIPV4, ProtocolFamilyIPV6}" by (simp_all add: family_defs)
  obtain k1 where k1: "CreateSet exec (net_set EgressClusterCIDRIPv4 ''inet'') True (aw_kernel w) = (Ok (setIPSetDefaults (net_set EgressClusterCIDRIPv4 ''inet'')), k1)"
    "ok k1" "sets k1 = (if sets (aw_kernel w) EgressClusterCIDRIPv4 = None then (sets (aw_kernel w))(EgressClusterCIDRIPv4 \<mapsto> (''inet'', [])) else sets (aw_kernel w))"
    using create [OF assms(1) pr(1) fa(1)] assms(2) by blast
  have f6: "\<And>f ms. sets k1 EgressClusterCIDRIPv6 = Some (f, ms) \<Longrightarrow> f = ''inet6''" using k1(3) assms(2) pr(3) by (auto split: if_splits)
  obtain k2 where
    k2: "CreateSet exec (net_set EgressClusterCIDRIPv6 ''inet6'') True k1 = (Ok (setIPSetDefaults (net_set EgressClusterCIDRIPv6 ''inet6'')), k2)"
    "ok k2" "sets k2 = (if sets k1 EgressClusterCIDRIPv6 = None then (sets k1)(EgressClusterCIDRIPv6 \<mapsto> (''inet6'', [])) else sets k1)"
    using create [OF k1(2) pr(2) fa(2)] f6 by blast
  have "\<exists>m4. sets k2 EgressClusterCIDRIPv4 = Some (''inet'', m4)" using k1(3) k2(3) assms(2) pr(3) by (auto split: if_splits)
  moreover have "\<exists>m6. sets k2 EgressClusterCIDRIPv6 = Some (''inet6'', m6)" using k1(3) k2(3) assms(2) pr(3) by (auto split: if_splits)
  moreover have "\<forall>nm. nm \<notin> {EgressClusterCIDRIPv4, EgressClusterCIDRIPv6} \<longrightarrow> sets k2 nm = sets (aw_kernel w) nm" using k1(3) k2(3) by auto
  moreover have "ensureClusterInfoIPSet r w = (Ok (), w\<lparr>aw_kernel := k2\<rparr>)"
    using k1(1) k2(1) unfolding ensureClusterInfoIPSet_def uses Let_def by (simp add: go_simps on_ipset_def net_set_def)
  ultimately show ?thesis using k2(2) by blast
qed

lemma process_set_exact:
  assumes "ok (aw_kernel w)" "sets (aw_kernel w) (set_name s) = Some (fam, got)" "\<And>e. e \<in> set want \<Longrightarrow> form fam e = Some e"
  shows "\<exists>k' ms. process_set r s got want w = (Ok (), w\<lparr>aw_kernel := k'\<rparr>) \<and> ok k' \<and>
    sets k' = (sets (aw_kernel w))(set_name s \<mapsto> (fam, ms)) \<and> set ms = set want"
proof -
  obtain k' ms where k: "process got want (\<lambda>item. AddEntry exec item s True) (\<lambda>item. DelEntry exec item (set_name s)) (aw_kernel w) = (Ok (), k')"
    "ok k'" "sets k' = (sets (aw_kernel w))(set_name s \<mapsto> (fam, ms))" "set ms = set want" using process_exact [OF assms] by blast
  have "process_set r s got want w = (Ok (), w\<lparr>aw_kernel := k'\<rparr>)" unfolding process_set_def uses by (rule on_ipset_Ok, rule k(1))
  then show ?thesis using k(2-4) by blast
qed

lemma cluster_exact:
  assumes info: "ac_get_info (pr_client r) (req_namespace req, req_name req) (aw_api w) = (Ok info, c1)" "\<not> om_deleting (ci_meta info)"
    and w: "ok (aw_kernel w)" "cluster_fits (aw_kernel w)" and ent: "cluster_entries o' (ci_status info) = (l4, l6)"
    and e: "\<And>e. e \<in> set l4 \<Longrightarrow> form ''inet'' e = Some e" "\<And>e. e \<in> set l6 \<Longrightarrow> form ''inet6'' e = Some e"
  shows "\<exists>w' m4 m6. reconcileClusterInfo r o' req w = (Ok False, w') \<and> ok (aw_kernel w') \<and>
    sets (aw_kernel w') EgressClusterCIDRIPv4 = Some (''inet'', m4) \<and> set m4 = set l4 \<and>
    sets (aw_kernel w') EgressClusterCIDRIPv6 = Some (''inet6'', m6) \<and> set m6 = set l6 \<and>
    (\<forall>nm. nm \<notin> {EgressClusterCIDRIPv4, EgressClusterCIDRIPv6} \<longrightarrow> sets (aw_kernel w') nm = sets (aw_kernel w) nm)"
proof -
  let ?w = "w\<lparr>aw_api := c1\<rparr>"
  have ne: "EgressClusterCIDRIPv4 \<noteq> EgressClusterCIDRIPv6" by (simp add: EgressClusterCIDRIPv4_def EgressClusterCIDRIPv6_def)
  obtain k1 g4 g6 where k1: "ensureClusterInfoIPSet r ?w = (Ok (), ?w\<lparr>aw_kernel := k1\<rparr>)" "ok k1"
    "sets k1 EgressClusterCIDRIPv4 = Some (''inet'', g4)" "sets k1 EgressClusterCIDRIPv6 = Some (''inet6'', g6)"
    "\<forall>nm. nm \<notin> {EgressClusterCIDRIPv4, EgressClusterCIDRIPv6} \<longrightarrow> sets k1 nm = sets (aw_kernel w) nm"
    using ensure_sets [of ?w] w by auto
  let ?w1 = "?w\<lparr>aw_kernel := k1\<rparr>" and ?s4 = "cluster_set EgressClusterCIDRIPv4 ''inet''" and ?s6 = "cluster_set EgressClusterCIDRIPv6 ''inet6''"
  have nm: "set_name ?s4 = EgressClusterCIDRIPv4" "set_name ?s6 = EgressClusterCIDRIPv6" by (simp_all add: cluster_set_def)
  have li: "ListEntries exec EgressClusterCIDRIPv4 k1 = (Ok g4, k1)" "ListEntries exec EgressClusterCIDRIPv6 k1 = (Ok g6, k1)"
    using list_entries k1 by blast+
  obtain k2 m4 where k2: "process_set r ?s4 g4 l4 ?w1 = (Ok (), ?w1\<lparr>aw_kernel := k2\<rparr>)" "ok k2"
    "sets k2 = (sets k1)(EgressClusterCIDRIPv4 \<mapsto> (''inet'', m4))" "set m4 = set l4"
    using process_set_exact [of ?w1 ?s4 "''inet''" g4 l4] k1 e(1) nm by auto
  let ?w2 = "?w1\<lparr>aw_kernel := k2\<rparr>"
  have s6: "sets k2 EgressClusterCIDRIPv6 = Some (''inet6'', g6)" using k2(3) k1(4) ne by simp
  obtain k3 m6 where k3: "process_set r ?s6 g6 l6 ?w2 = (Ok (), ?w2\<lparr>aw_kernel := k3\<rparr>)" "ok k3"
    "sets k3 = (sets k2)(EgressClusterCIDRIPv6 \<mapsto> (''inet6'', m6))" "set m6 = set l6"
    using process_set_exact [of ?w2 ?s6 "''inet6''" g6 l6] k2(2) s6 e(2) nm by auto
  have g: "agent_fetch False (ac_get_info (pr_client r) (req_namespace req, req_name req)) w = (Ok (Some info), ?w)"
    using info(1) by (simp add: agent_fetch_def go_simps on_api_def)
  have q: "m v = (Ok x, v') \<Longrightarrow> agent_requeue b m v = (Ok x, v')" for b m v x v'
    by (simp add: agent_requeue_def or_fail_def)
  have l: "call_ipset (ListEntries exec EgressClusterCIDRIPv4) ?w1 = (Ok g4, ?w1)" "call_ipset (ListEntries exec EgressClusterCIDRIPv6) ?w1 = (Ok g6, ?w1)"
    using li by (simp_all add: or_fail_def on_ipset_def)
  have "reconcileClusterInfo r o' req w = (Ok False, ?w2\<lparr>aw_kernel := k3\<rparr>)"
    unfolding reconcileClusterInfo_def uses using info(2) ent g k1(1) l k2(1) k3(1) by (simp add: bindp_Ok_step q ret_def)
  then show ?thesis using k1(5) k2(3,4) k3(2,3,4) ne
    by - (rule exI [of _ "?w2\<lparr>aw_kernel := k3\<rparr>"], rule exI [of _ m4], rule exI [of _ m6], simp)
qed

end

section \<open>An agent on a kernel\<close>

definition kernel_agent :: "'c agent_client \<Rightarrow> conversion \<Rightarrow> agent_config \<Rightarrow> (8 word \<Rightarrow> string \<Rightarrow> 'x ipt_env) \<Rightarrow> ('c, ksets, 'x) policeReconciler" where
  "kernel_agent client conv cfg env = \<lparr>pr_client = client, pr_conv = conv, pr_cfg = cfg, pr_ipset = ipset_run, pr_env = env\<rparr>"

interpretation on_kernel: agent_service ipset_run ksets_ok set_view store_form "kernel_agent client conv cfg env" for client conv cfg env
  by unfold_locales (simp add: kernel_agent_def)

end
