(* ===== verification/AgentProps.thy ===== *)
theory AgentProps
  imports AgentSets MarkProps
begin

text \<open>
  The properties of the policy reconciler of the agent: the sets of the kernel become what the policies and the
  cluster ask for, and the inputs on which the agent stops working.
\<close>

section \<open>Marks\<close>

lemma parse_int_hex32_hex: "parse_int_hex32 (hex_string v) = (if v < 2 ^ 31 then Some (int v) else None)"
proof -
  obtain c s where cs: "hex_string v = c # s" by (cases "hex_string v") auto
  then have "is_hex c" using hex_string_hex [of c v] by simp
  then have "c \<noteq> CHR ''-''" "c \<noteq> CHR ''+''" by (auto simp: is_hex_def hex_digit_def)
  then show ?thesis using hex_value_hex_string [of v] cs by (simp add: parse_int_hex32_def)
qed

lemma remove_0x_hex: "remove_0x (''0x'' @ hex_string v) = hex_string v"
  using remove_0x_idle [OF hex_string_not_x, of v] by simp

text \<open>C39. A mark written as a hexadecimal number is read by the agent exactly when it is below 2^31; the allocator of marks
  reads every mark of 64 bits. A base mark from 0x80000000 on, which the controller accepts, is an error for the agent.
\<close>

theorem parseMark_half:
  assumes "v < 2 ^ 64"
  shows "parseMark (''0x'' @ hex_string v) = (if v < 2 ^ 31 then Ok (of_nat v) else Err AgMark) \<and>
    Parse (''0x'' @ hex_string v) = Ok (of_nat v)"
proof
  show "parseMark (''0x'' @ hex_string v) = (if v < 2 ^ 31 then Ok (of_nat v) else Err AgMark)"
    unfolding parseMark_def remove_0x_hex parse_int_hex32_hex by simp
  show "Parse (''0x'' @ hex_string v) = Ok (of_nat v)"
    using assms hex_value_hex_string [of v] unfolding Parse_def Let_def remove_0x_hex by simp
qed

section \<open>The first run\<close>

lemma bindp_stuck: "fst (m w) \<in> {Panic, Diverge} \<Longrightarrow> fst (bindp m f w) \<in> {Panic, Diverge}"
  by (auto simp: bindp_def split: prod.splits outcome.splits)

lemma redo_Some:
  assumes "redo f n w = Some y"
  shows "(\<exists>m v. f m v = y) \<and> (\<forall>e. fst y \<noteq> Err e)"
proof (rule redo.raw_induct [where P = "\<lambda>f n w y. (\<exists>m v. f m v = y) \<and> (\<forall>e. fst y \<noteq> Err e)", OF _ assms])
  fix redo f n w y
  assume IH: "\<And>f n w y. redo f n w = Some y \<Longrightarrow> (\<exists>m v. f m v = y) \<and> (\<forall>e. fst y \<noteq> Err e)"
    and st: "(case f n w of (Ok u, w') \<Rightarrow> Some (Ok u, w') | (Err e, w') \<Rightarrow> redo f (Suc n) w' | (Panic, w') \<Rightarrow> Some (Panic, w')
      | (Diverge, w') \<Rightarrow> Some (Diverge, w')) = Some y"
  obtain q v where q: "f n w = (q, v)" by (cases "f n w")
  show "(\<exists>m v. f m v = y) \<and> (\<forall>e. fst y \<noteq> Err e)"
    using IH [of f "Suc n" v] st q by (cases q) (auto intro: exI [of _ n] exI [of _ w])
qed

lemma init_needs_mark:
  assumes "initApplyPolicy r o' w = (Ok (), w')"
  shows "fst (ac_list_gateways (pr_client r) (aw_api w)) = Ok [] \<or> (\<exists>base. parseMark (cf_mark (pr_cfg r)) = Ok base)"
proof -
  obtain gs v where g: "call_api (ac_list_gateways (pr_client r)) w = (Ok gs, v)"
    "(if length gs = 0 then ret () else bindp (ensureClusterInfoIPSet r) (\<lambda>_.
     case collect_policies (cf_node_name (pr_cfg r)) gs of (isEgressNode, unSnat, snat) \<Rightarrow>
     bindp (sync_policies r o' (ao_policies o' 0) False unSnat) (\<lambda>unSnat.
     bindp (sync_policies r o' (ao_policies o' 1) True snat) (\<lambda>snat.
     bindp (lift (parseMark (cf_mark (pr_cfg r)))) (\<lambda>base.
     bindp (for_tables FilterTable (init_filter o' base)) (\<lambda>_.
     bindp (for_tables MangleTable (init_mangle r o' base isEgressNode)) (\<lambda>_.
     bindp (for_tables MangleTable (fill_mangle r o' base unSnat)) (\<lambda>_.
     bindp (for_tables NatTable (fill_nat o' base snat)) (\<lambda>_.
     bindp (for_tables NatTable (apply_table r o' NatTable)) (\<lambda>_.
     bindp (for_tables FilterTable (apply_table r o' FilterTable)) (\<lambda>_.
     bindp (for_tables MangleTable (apply_table r o' MangleTable)) (\<lambda>_.
     bindp (call_ipset (ListSets (pr_ipset r))) (\<lambda>setList.
     for_each (\<lambda>nm _. clean_set r nm) setList ())))))))))))) ) v = (Ok (), w')"
    using assms unfolding initApplyPolicy_def by (subst (asm) bindp_Ok) blast
  show ?thesis
  proof (cases "gs = []")
    case True
    then show ?thesis using g(1) by (auto simp: or_fail_def on_api_def split: prod.splits)
  next
    case False
    obtain a b c where "collect_policies (cf_node_name (pr_cfg r)) gs = (a, b, c)" by (cases "collect_policies (cf_node_name (pr_cfg r)) gs")
    then show ?thesis using False g(2) by (auto simp: bindp_Ok lift_def)
  qed
qed

text \<open>C40. With a base mark that the agent cannot read, and gateways in the cluster, no call of Reconcile ever returns: the
  first run is repeated for ever.
\<close>

theorem first_run_never_done:
  assumes "parseMark (cf_mark (pr_cfg r)) = Err AgMark" "\<And>c. fst (ac_list_gateways (pr_client r) c) \<noteq> Ok []" "\<not> aw_started w"
  shows "fst (police_Reconcile r os o' req w) \<in> {Panic, Diverge}"
proof -
  have "fst (do_once r os w) \<in> {Panic, Diverge}"
  proof (cases "redo (\<lambda>n. initApplyPolicy r (os n)) 0 w")
    case None
    then show ?thesis using assms(3) by (simp add: do_once_def)
  next
    case (Some y)
    obtain res v where y: "y = (res, v)" by (cases y)
    from redo_Some [OF Some] obtain m u where m: "initApplyPolicy r (os m) u = y" "\<forall>e. res \<noteq> Err e" unfolding y by auto
    have "res \<noteq> Ok ()"
    proof
      assume "res = Ok ()"
      with m(1) y init_needs_mark [of r "os m" u v] assms(1,2) show False by auto
    qed
    then have "res \<in> {Panic, Diverge}" using m(2) by (cases res) auto
    then show ?thesis using assms(3) Some y by (auto simp: do_once_def)
  qed
  then show ?thesis unfolding police_Reconcile_def by (rule bindp_stuck)
qed


section \<open>Static rules\<close>

lemma and_not_same: "x AND NOT m = x \<longleftrightarrow> x AND m = 0" for x :: "32 word"
  by (auto simp: bit_eq_iff bit_and_iff bit_not_iff)

lemma high_bits: "base AND Mark = base \<longleftrightarrow> base AND 0xffffff = 0"
proof -
  have "Mark = NOT (0xffffff :: 32 word)" by (simp add: Mark_def)
  then show ?thesis using and_not_same [of base "0xffffff"] by simp
qed

lemma low_mask: "base AND Mask = base"
proof -
  have "Mask = (- 1 :: 32 word)" by (simp add: Mask_def)
  then show ?thesis by (metis and.right_neutral)
qed

text \<open>The rules that every node gets are defined exactly when the base mark has its bits in the highest byte; a base mark
  with a lower bit makes the agent panic.
\<close>

theorem static_rules_panic:
  "buildFilterStaticRule base \<noteq> (Panic :: (agent_err, chain_rules) outcome) \<and>
  (buildNatStaticRule base = (Panic :: (agent_err, chain_rules) outcome) \<longleftrightarrow> base AND 0xffffff \<noteq> 0) \<and>
  (buildMangleStaticRule base isEgressNode reply replyMark = (Panic :: (agent_err, chain_rules) outcome) \<longleftrightarrow> base AND 0xffffff \<noteq> 0)"
proof (intro conjI)
  have n: "Mark \<noteq> 0" "Mask \<noteq> 0" by (simp_all add: Mark_def Mask_def)
  note d = MarkMatchesWithMask_def low_mask high_bits n
  show "buildFilterStaticRule base \<noteq> (Panic :: (agent_err, chain_rules) outcome)" by (simp add: buildFilterStaticRule_def d)
  show "buildNatStaticRule base = (Panic :: (agent_err, chain_rules) outcome) \<longleftrightarrow> base AND 0xffffff \<noteq> 0" by (simp add: buildNatStaticRule_def d)
  show "buildMangleStaticRule base isEgressNode reply replyMark = (Panic :: (agent_err, chain_rules) outcome) \<longleftrightarrow> base AND 0xffffff \<noteq> 0"
    by (simp add: buildMangleStaticRule_def d)
qed

section \<open>Names of sets\<close>

text \<open>The sets of a policy have different names of 31 characters, the longest the kernel takes, and the names that the
  rules of the policy match on.
\<close>

theorem set_names_fit:
  "\<exists>ss. buildIPSetNamesByPolicy (policy_namespace p) (policy_name p) e4 e6 = (Ok ss :: (agent_err, SetName list) outcome) \<and>
     distinct (map sn_name ss) \<and> (\<forall>s \<in> set ss. length (sn_name s) = 31) \<and>
     map sn_name ss = (if e4 then [hashed_name ''egress-src-v4-'' (full_name p), hashed_name ''egress-dst-v4-'' (full_name p)] else []) @
       (if e6 then [hashed_name ''egress-src-v6-'' (full_name p), hashed_name ''egress-dst-v6-'' (full_name p)] else [])"
  using distinct_policy_sets policy_sets_facts(2) by (auto simp: buildIPSetNamesByPolicy_eq full_name_def policy_sets_def)

text \<open>Two policies whose namespace and name join to the same text share their sets: policy \<^verbatim>\<open>c\<close> of
  namespace \<^verbatim>\<open>a-b\<close> and policy \<^verbatim>\<open>b-c\<close> of namespace \<^verbatim>\<open>a\<close>.
\<close>

theorem set_names_collide:
  assumes "a \<noteq> []"
  shows "buildIPSetNamesByPolicy (a @ ''-'' @ b) c e4 e6 = (buildIPSetNamesByPolicy a (b @ ''-'' @ c) e4 e6 :: (agent_err, SetName list) outcome)"
  using assms by (simp add: buildIPSetNamesByPolicy_eq)

section \<open>The form of an entry\<close>

lemma after_slash: "CHR ''/'' \<notin> set d \<Longrightarrow> takeWhile (\<lambda>c. c \<noteq> CHR ''/'') (rev (a @ ''/'' @ d)) = rev d"
  by (auto simp: takeWhile_append)

lemma suffix_slash:
  assumes "CHR ''/'' \<notin> set d" "CHR ''/'' \<notin> set t"
  shows "suffix (''/'' @ t) (a @ ''/'' @ d) \<longleftrightarrow> d = t"
proof
  assume "suffix (''/'' @ t) (a @ ''/'' @ d)"
  then obtain z where "a @ ''/'' @ d = z @ ''/'' @ t" by (auto simp: suffix_def)
  then have "rev d = rev t" using after_slash [OF assms(1), of a] after_slash [OF assms(2), of z] by metis
  then show "d = t" by simp
qed (simp add: suffix_def)

lemma dec_string_eq: "n < 16777215 \<Longrightarrow> m < 16777215 \<Longrightarrow> dec_string n = dec_string m \<longleftrightarrow> n = m"
  by (metis dtoi_dec option.inject)

lemma dec_texts: "''32'' = dec_string 32" "''128'' = dec_string 128"
  by (simp_all add: dec_string.simps [of 32] dec_string.simps [of 3] dec_string.simps [of 128] dec_string.simps [of 12] dec_string.simps [of "Suc 0"] digit_char_def)

lemma suffix_length:
  assumes "k \<le> 128" "l = 32 \<or> l = 128"
  shows "suffix (''/'' @ dec_string l) (a @ ''/'' @ dec_string k) \<longleftrightarrow> k = l"
proof -
  have "CHR ''/'' \<notin> set (dec_string i)" for i by (rule dec_string_not_sep) simp
  then show ?thesis using suffix_slash [of "dec_string k" "dec_string l" a] dec_string_eq [of k l] assms by auto
qed

text \<open>The form for a block: the plain address of a host, or the block.\<close>

lemma diff_form_block:
  assumes n: "n = block k xs" "k \<le> 8 * length xs" "plain_ip (net_ip n)"
  shows "diff_form (ipnet_string n) = (if k = 32 \<or> k = 128 then ip_string (net_ip n) else ipnet_string n)"
proof -
  note i = ipnet_string_block [OF n]
  have l: "length xs = 4 \<or> length xs = 16" and k: "k \<le> 128" using n by (auto simp: plain_ip_def)
  have s32: "suffix ''/32'' (ipnet_string n) \<longleftrightarrow> k = 32" and s128: "suffix ''/128'' (ipnet_string n) \<longleftrightarrow> k = 128"
    using suffix_length [OF k, of 32 "ip_string (net_ip n)"] suffix_length [OF k, of 128 "ip_string (net_ip n)"]
    unfolding i(1) dec_texts [symmetric] by simp_all
  show ?thesis
  proof (cases "k = 32")
    case True
    then show ?thesis using s32 i(1) by (simp add: diff_form_def flip: dec_texts)
  next
    case False
    show ?thesis
    proof (cases "k = 128")
      case True
      then have e: "ipnet_string n = ip_string (net_ip n) @ ''/128''" using i(1) by (simp flip: dec_texts)
      have l16: "length (net_ip n) = 16" using True n by (auto simp: plain_ip_def)
      have "ParseIP (ip_string (net_ip n)) = net_ip n" using ip_string_plain(1) [OF n(3)] l16 by (simp add: ParseIP_def)
      moreover have "to16 (net_ip n) = net_ip n" "net_ip n \<noteq> []" using l16 by (auto simp: to16_def)
      ultimately show ?thesis using s32 s128 True False by (simp add: diff_form_def e)
    next
      case f: False
      then show ?thesis using s32 s128 False i(3) by (simp add: diff_form_def)
    qed
  qed
qed



section \<open>The sets of a policy\<close>

abbreviation policy_set_names :: "('c, 'k, 'x) policeReconciler \<Rightarrow> string \<Rightarrow> string \<Rightarrow> SetName list" where
  "policy_set_names r ns nm \<equiv> policy_sets (full_name \<lparr>policy_name = nm, policy_namespace = ns\<rparr>) (cf_enable_ipv4 (pr_cfg r)) (cf_enable_ipv6 (pr_cfg r))"

lemma full_name_eq: "full_name \<lparr>policy_name = nm, policy_namespace = ns\<rparr> = (if ns \<noteq> [] then ns @ ''-'' @ nm else nm)"
  by (simp add: full_name_def)


lemma getDstCIDR_member:
  assumes "getDstCIDR items = Ok (l4, l6)" "s \<in> set items" "ParseCIDR s = Some (ip, n)" "ip \<noteq> nil_ip"
  shows "ipnet_string n \<in> set (if to4 ip \<noteq> nil_ip then l4 else l6)"
  using assms(1,2)
proof (induction items arbitrary: l4 l6)
  case (Cons item items)
  obtain p where p: "ParseCIDR item = Some p" using Cons.prems(1) by (auto split: option.splits)
  obtain ip' n' where q: "p = (ip', n')" by (cases p)
  obtain a b where ab: "getDstCIDR items = Ok (a, b)" using Cons.prems(1) p q by auto
  show ?case
  proof (cases "s = item")
    case True
    then have "ip' = ip" "n' = n" using p q assms(3) by auto
    then show ?thesis using Cons.prems(1) p q ab assms(4) by (auto split: if_splits)
  next
    case False
    then have "ipnet_string n \<in> set (if to4 ip \<noteq> nil_ip then a else b)" using Cons.IH [OF ab] Cons.prems(2) by simp
    then show ?thesis using Cons.prems(1) p q ab by (auto split: if_splits)
  qed
qed simp

lemma any_v4: "ParseCIDR ''0.0.0.0/0'' = Some (v4InV6Prefix @ [0, 0, 0, 0], block 0 [0, 0, 0, 0])"
  "ipnet_string (block 0 [0, 0, 0, 0]) = ''0.0.0.0/0''" "diff_form ''0.0.0.0/0'' = ''0.0.0.0/0''" "store_form ''inet'' ''0.0.0.0/0'' = None"
proof -
  have p: "plain_ip [0, 0, 0, 0]" by (simp add: plain_ip_def)
  have s: "ip_string [0, 0, 0, 0] = ''0.0.0.0''" by (simp add: ip_string_def to4_def string4_def dec_string.simps [of 0] digit_char_def)
  have d: "dec_string 0 = ''0''" by (simp add: dec_string.simps [of 0] digit_char_def)
  have n: "net_ip (block 0 [0, 0, 0, 0]) = [0, 0, 0, 0]" by code_simp
  note i = ipnet_string_block [OF refl, of 0 "[0, 0, 0, 0]"]
  show e: "ipnet_string (block 0 [0, 0, 0, 0]) = ''0.0.0.0/0''" using i(1) p s d n by simp
  show c: "ParseCIDR ''0.0.0.0/0'' = Some (v4InV6Prefix @ [0, 0, 0, 0], block 0 [0, 0, 0, 0])"
    using i(3) p n unfolding e by (simp add: to16_def)
  show "diff_form ''0.0.0.0/0'' = ''0.0.0.0/0''" using diff_form_block [OF refl, of 0 "[0, 0, 0, 0]"] p n e by simp
  show "store_form ''inet'' ''0.0.0.0/0'' = None"
    using store_form_cidr [OF refl, of 0 "[0, 0, 0, 0]" "''inet''"] n unfolding e by (simp add: of_family_def family_defs)
qed

lemma any_v6: "ParseCIDR ''::/0'' = Some (replicate 16 0, block 0 (replicate 16 0))"
  "ipnet_string (block 0 (replicate 16 0)) = ''::/0''" "diff_form ''::/0'' = ''::/0''" "store_form ''inet6'' ''::/0'' = None"
proof -
  let ?z = "replicate 16 (0::nat)"
  have t: "to4 ?z = nil_ip" by code_simp
  have p: "plain_ip ?z" using t by (simp add: plain_ip_def)
  have s: "ip_string ?z = ''::''" by code_simp
  have d: "dec_string 0 = ''0''" by (simp add: dec_string.simps [of 0] digit_char_def)
  have n: "net_ip (block 0 ?z) = ?z" by code_simp
  note i = ipnet_string_block [OF refl, of 0 ?z]
  show e: "ipnet_string (block 0 ?z) = ''::/0''" using i(1) p s d n by simp
  show c: "ParseCIDR ''::/0'' = Some (?z, block 0 ?z)" using i(3) p n unfolding e by (simp add: to16_def)
  show "diff_form ''::/0'' = ''::/0''" using diff_form_block [OF refl, of 0 ?z] p n e by simp
  show "store_form ''inet6'' ''::/0'' = None"
    using store_form_cidr [OF refl, of 0 ?z "''inet6''"] n t unfolding e by (simp add: of_family_def family_defs)
qed

lemma any_refused:
  assumes "r = kernel_agent client conv cfg env" "map_iteration (ao_strings o' 0)"
    and "getPolicySrcIPs r ns nm (\<lambda>e. ee_node e = cf_node_name cfg \<or> flag) w = (Ok src, w1)" "getDstCIDR destSubnet = Ok dst"
    and "ksets_ok (aw_kernel w1)" and fits: "\<And>s. s \<in> set (policy_set_names r ns nm) \<Longrightarrow> set_fits set_view w1 s"
    and any: "''0.0.0.0/0'' \<in> set destSubnet \<and> cf_enable_ipv4 cfg \<or> ''::/0'' \<in> set destSubnet \<and> cf_enable_ipv6 cfg"
  shows "\<exists>msg w'. updatePolicyIPSet r o' ns nm flag destSubnet w = (Err (AgSet (Failed msg)), w')"
proof -
  have c: "pr_cfg (kernel_agent client conv cfg env) = cfg" by (simp add: kernel_agent_def)
  obtain l4 l6 where d: "dst = (l4, l6)" by (cases dst)
  have "\<exists>s \<in> set (policy_set_names r ns nm). \<exists>e \<in> set (wanted src dst s). store_form (HashFamily (sn_stack s)) (diff_form e) = None"
    using any
  proof
    assume a: "''0.0.0.0/0'' \<in> set destSubnet \<and> cf_enable_ipv4 cfg"
    have "''0.0.0.0/0'' \<in> set l4"
      using getDstCIDR_member [OF assms(4) [unfolded d] _ any_v4(1)] a any_v4(2) by (simp add: to4_def)
    then show ?thesis using a any_v4
      by (intro bexI [where x = "\<lparr>sn_name = hashed_name ''egress-dst-v4-'' (full_name \<lparr>policy_name = nm, policy_namespace = ns\<rparr>), sn_stack = StackIPv4, sn_kind = IPDst\<rparr>"]
          bexI [where x = "''0.0.0.0/0''"]) (simp_all add: policy_sets_def assms(1) c wanted_def d)
  next
    assume a: "''::/0'' \<in> set destSubnet \<and> cf_enable_ipv6 cfg"
    have "to4 (replicate 16 0) = nil_ip" by code_simp
    then have "''::/0'' \<in> set l6"
      using getDstCIDR_member [OF assms(4) [unfolded d] _ any_v6(1)] a any_v6(2) by simp
    then show ?thesis using a any_v6
      by (intro bexI [where x = "\<lparr>sn_name = hashed_name ''egress-dst-v6-'' (full_name \<lparr>policy_name = nm, policy_namespace = ns\<rparr>), sn_stack = StackIPv6, sn_kind = IPDst\<rparr>"]
          bexI [where x = "''::/0''"]) (simp_all add: policy_sets_def assms(1) c wanted_def d)
  qed
  then obtain s e where "s \<in> set (policy_set_names r ns nm)" "e \<in> set (wanted src dst s)" "store_form (HashFamily (sn_stack s)) (diff_form e) = None"
    by blast
  then show ?thesis
    using on_kernel.update_refused [of o' client conv cfg env ns nm flag w src w1 destSubnet dst s e] assms
    unfolding full_name_eq assms(1) c by blast
qed

text \<open>Reconciling a policy whose destinations hold \<^verbatim>\<open>0.0.0.0/0\<close>, on an agent with IPv4, always fails and asks to be
  repeated: \<^verbatim>\<open>reconcilePolicy\<close> hands the destinations over as they are, and ipset refuses a prefix of length zero.
\<close>

theorem reconcilePolicy_any_fails:
  assumes "r = kernel_agent client conv cfg env" "map_iteration (ao_strings o' 0)" "cf_enable_ipv4 cfg" "ns \<noteq> []"
    and p: "ac_get_policy client (ns, nm) (aw_api w) = (Ok p, c1)" "om_namespace (ep_meta p) = ns" "om_name (ep_meta p) = nm" "\<not> om_deleting (ep_meta p)"
    and g: "ac_get_gateway client (ep_gateway_name (ep_spec p)) c1 = (Ok g, c2)"
    and s: "conv (policy_label nm) = Some sel" "ac_list_slices client ns sel c2 = (Ok items, c3)"
    and d: "getDstCIDR (ep_dest_subnet (ep_spec p)) = Ok dst" "''0.0.0.0/0'' \<in> set (ep_dest_subnet (ep_spec p))"
    and k: "ksets_ok (aw_kernel w)" "\<And>s. s \<in> set (policy_set_names r ns nm) \<Longrightarrow> set_fits set_view w s"
  shows "\<exists>msg w'. reconcilePolicy r o' \<lparr>req_namespace = ns, req_name = nm\<rparr> w = (Err (True, AgSet (Failed msg)), w')"
proof -
  let ?w = "w\<lparr>aw_api := c3\<rparr>" and ?flag = "holder ns nm g = cf_node_name cfg"
  let ?keep = "\<lambda>e. ee_node e = cf_node_name cfg \<or> ?flag"
  have src: "getPolicySrcIPs r ns nm ?keep (w\<lparr>aw_api := c2\<rparr>) = (Ok (slice_ips ?keep items), ?w)"
    using s assms(4) unfolding getPolicySrcIPs_def by (simp add: assms(1) kernel_agent_def go_simps on_api_def)
  have "set_fits set_view ?w s" if "s \<in> set (policy_set_names r ns nm)" for s using k(2) [OF that] by (simp add: set_fits_def)
  then obtain msg w' where u: "updatePolicyIPSet r o' ns nm ?flag (ep_dest_subnet (ep_spec p)) (w\<lparr>aw_api := c2\<rparr>) = (Err (AgSet (Failed msg)), w')"
    using any_refused [OF assms(1,2) src d(1)] k(1) d(2) assms(3) by auto
  show ?thesis unfolding reconcilePolicy_def sync_policy_def agent_fetch_def agent_requeue_def Let_def
    using p g u by (simp add: go_simps on_api_def kernel_agent_def assms(1))
qed

section \<open>The sets of the cluster\<close>


text \<open>A host that the cluster information gives as a block (\<^verbatim>\<open>10.6.1.9/32\<close>) is taken out of the set by the
  reconciliation that finds it there: ipset shows it without the prefix length, in which form it is not expected.
\<close>

theorem cluster_host_block_lost:
  assumes "r = kernel_agent client conv cfg env" "ksets_ok (aw_kernel w)" "set_view (aw_kernel w) (set_name s) = Some (fam, got)"
    and "bytes ip" "of_family fam ip" "ip_string ip \<in> set got" "ipnet_string (block (8 * length ip) ip) \<in> set want" "ip_string ip \<notin> set want"
    and "\<And>e. e \<in> set want \<Longrightarrow> store_form fam e \<noteq> None"
  shows "store_form fam (ipnet_string (block (8 * length ip) ip)) = Some (ip_string ip) \<and>
    (\<exists>w' ms. process_set r s got want w = (Ok (), w') \<and> set_view (aw_kernel w') (set_name s) = Some (fam, ms) \<and> ip_string ip \<notin> set ms)"
proof
  let ?n = "block (8 * length ip) ip"
  have b: "map2 band xs (map (\<lambda>_. 255) xs) = xs" if "bytes xs" for xs
  proof -
    have "band x 255 = x" if "x < 256" for x using band_mask_byte [of x 8] that by (simp add: mask_byte_def)
    then show ?thesis using that by (induction xs) auto
  qed
  have "CIDRMask (8 * length ip) (8 * length ip) = map (\<lambda>_. 255) ip"
    by (rule nth_equalityI) (simp_all add: CIDRMask_def mask_byte_def)
  then have i: "net_ip ?n = ip" using b assms(4) by simp
  have "8 * length ip \<noteq> 0" using assms(5) by (auto simp: of_family_def split: if_splits)
  then show "store_form fam (ipnet_string ?n) = Some (ip_string ip)"
    using store_form_cidr [OF refl, of "8 * length ip" ip fam] assms(4,5) i by simp
  obtain k' ms where k: "process got want (\<lambda>item. AddEntry ipset_run item s True) (\<lambda>item. DelEntry ipset_run item (set_name s)) (aw_kernel w) = (Ok (), k')"
    "set_view k' = (set_view (aw_kernel w))(set_name s \<mapsto> (fam, ms))" "ip_string ip \<notin> set ms"
    using on_kernel.process_drops [OF assms(2,3,9,6,8)] by blast
  have "process_set r s got want w = (Ok (), w\<lparr>aw_kernel := k'\<rparr>)"
    unfolding process_set_def assms(1) using k(1) by (simp add: kernel_agent_def or_fail_def on_ipset_def)
  then show "\<exists>w' ms. process_set r s got want w = (Ok (), w') \<and> set_view (aw_kernel w') (set_name s) = Some (fam, ms) \<and> ip_string ip \<notin> set ms"
    using k by auto
qed

section \<open>The policies of this node\<close>











section \<open>The chains of the agent\<close>

lemma NewTable_options: "NewTable lookPath now nm v hp opt = Ok t \<Longrightarrow> op_prefixes (tb_opt t) = op_prefixes opt"
  by (auto simp: NewTable_def Let_def split: if_splits)

lemma agent_table_prefixes:
  assumes "newPolicyController lookPath now cfg ic = Ok ts" "t \<in> set (ts k)"
  shows "op_prefixes (tb_opt t) = [''egw'']"
proof -
  have n: "op_prefixes (tb_opt (f k)) = [''egw'']" if "new_tables lookPath now (agent_options ic) v = Ok f" for v f
    using that by (cases k) (auto simp: new_tables_def agent_options_def Let_def dest: NewTable_options)
  show ?thesis using assms n by (auto simp: newPolicyController_def split: if_splits)
qed

text \<open>The tables of the agent take none of the chains that it makes for its own: a chain that an earlier agent left in the
  kernel, and that no rule refers to any more, is emptied as a chain of others and never put among the chains to remove.
\<close>

theorem agent_chains_not_ours:
  assumes "newPolicyController lookPath now cfg ic = Ok ts" "t \<in> set (ts k)" "c \<in> {markChain, replyChain, snatChain}"
    and "c \<notin> set (tb_dirty t)" "c \<notin> set (tb_dirty_ins t)" "map_of (tb_hashes t) c = None" "\<exists>h \<in> set (lookup_list dp c). h \<noteq> []"
  shows "\<not> our_chain t c \<and> check_unknown dp c t = t\<lparr>tb_dirty_ins := set_Add c (tb_dirty_ins t)\<rparr>"
proof
  show n: "\<not> our_chain t c" using agent_table_prefixes [OF assms(1,2)] assms(3)
    by (auto simp: our_chain_def markChain_def replyChain_def snatChain_def)
  show "check_unknown dp c t = t\<lparr>tb_dirty_ins := set_Add c (tb_dirty_ins t)\<rparr>"
    using n assms(4-7) by (auto simp: check_unknown_def set_Contains_def list_ex_iff)
qed

section \<open>An example\<close>

definition ex_agent_cfg :: "string \<Rightarrow> agent_config" where
  "ex_agent_cfg mark = \<lparr>cf_node_name = ''n1'', cf_enable_ipv4 = True, cf_enable_ipv6 = False, cf_mark = mark, cf_reply_route = False,
     cf_reply_mark = 39, cf_vxlan_name = ''egress.vxlan''\<rparr>"

definition ex_agent_meta :: "string \<Rightarrow> string \<Rightarrow> object_meta" where
  "ex_agent_meta ns nm = \<lparr>om_name = nm, om_namespace = ns, om_deleting = False, om_finalizers = [], om_labels = []\<rparr>"

definition ex_agent_policy :: "string list \<Rightarrow> egress_policy" where
  "ex_agent_policy dest = \<lparr>ep_meta = ex_agent_meta ''ns1'' ''p1'',
     ep_spec = \<lparr>ep_gateway_name = ''g1'', ep_egress_ip = \<lparr>ei_ipv4 = [], ei_ipv6 = [], use_node_ip = False, allocator_policy = []\<rparr>,
       ep_applied_to = \<lparr>pod_selector = None, pod_subnet = []\<rparr>, ep_dest_subnet = dest, ep_priority = 0\<rparr>,
     ep_status = \<lparr>st_ipv4 = [], st_ipv6 = [], st_node = []\<rparr>\<rparr>"

definition ex_agent_eips :: "eips" where
  "ex_agent_eips = \<lparr>eip_ipv4 = ''10.6.1.20'', eip_ipv6 = [], eip_policies = [\<lparr>policy_name = ''p1'', policy_namespace = ''ns1''\<rparr>]\<rparr>"

definition ex_agent_gateway :: "string \<Rightarrow> egress_gateway" where
  "ex_agent_gateway node = \<lparr>gw_meta = ex_agent_meta [] ''g1'',
     gw_spec = \<lparr>cluster_default = False, gw_ippools = \<lparr>pool_ipv4 = [], pool_ipv6 = [], ipv4_default_eip = [], ipv6_default_eip = []\<rparr>,
       gw_node_selector = \<lparr>sel_policy = [], sel_selector = None\<rparr>\<rparr>,
     gw_status = \<lparr>node_list = [\<lparr>en_name = node, en_eips = [ex_agent_eips], en_status = ''Ready''\<rparr>],
       usage = \<lparr>ipv4_total = 0, ipv4_free = 0, ipv6_total = 0, ipv6_free = 0\<rparr>\<rparr>\<rparr>"

definition ex_agent_pod :: string where "ex_agent_pod = ip_string [10, 1, 2, 3]"

definition ex_agent_slice :: egress_endpoint_slice where
  "ex_agent_slice = \<lparr>es_meta = ex_agent_meta ''ns1'' ''p1-x'', es_generate_name = [], es_owners = [],
     es_endpoints = [\<lparr>ee_namespace = ''ns1'', ee_pod = ''pod'', ee_ipv4 = [ex_agent_pod], ee_ipv6 = [], ee_node = ''n1''\<rparr>]\<rparr>"

definition ex_agent_info :: cluster_info where
  "ex_agent_info = \<lparr>ci_meta = ex_agent_meta [] ''default'',
     ci_spec = \<lparr>ci_auto_detect = \<lparr>ad_pod_cidr_mode = [], ad_cluster_ip = True, ad_node_ip = True\<rparr>, ci_extra_cidr = []\<rparr>,
     ci_status = \<lparr>cs_pod_cidr_mode = [], cs_node_ip = [], cs_cluster_ip = None, cs_pod_cidr = [],
       cs_extra_cidr = [ipnet_string (block 16 [10, 6, 0, 0])]\<rparr>\<rparr>"

text \<open>The first call of the list of gateways fails; the state counts the calls.\<close>

definition ex_agent_client :: "string list \<Rightarrow> egress_gateway list \<Rightarrow> nat agent_client" where
  "ex_agent_client dest gws = \<lparr>ac_list_gateways = (\<lambda>c. (if c = 0 then Err Conflict else Ok gws, Suc c)),
     ac_get_gateway = (\<lambda>_ c. (Ok (ex_agent_gateway ''n1''), c)), ac_list_tunnels = (\<lambda>c. (Ok [], c)), ac_get_tunnel = (\<lambda>_ c. (Err NotFound, c)),
     ac_get_policy = (\<lambda>_ c. (Ok (ex_agent_policy dest), c)), ac_get_cpolicy = (\<lambda>_ c. (Err NotFound, c)),
     ac_list_slices = (\<lambda>_ _ c. (Ok [ex_agent_slice], c)), ac_list_cslices = (\<lambda>_ c. (Ok [], c)), ac_get_info = (\<lambda>_ c. (Ok ex_agent_info, c))\<rparr>"

definition ex_ipt_env :: "8 word \<Rightarrow> string \<Rightarrow> unit ipt_env" where
  "ex_ipt_env v nm = \<lparr>ie_now = (\<lambda>x. (0, x)), ie_save = (\<lambda>_ x. (SaveNotStarted, x)), ie_restore = (\<lambda>_ _ x. (True, x))\<rparr>"

definition ex_police :: "string \<Rightarrow> string list \<Rightarrow> egress_gateway list \<Rightarrow> (nat, ksets, unit) policeReconciler" where
  "ex_police mark dest gws = kernel_agent (ex_agent_client dest gws) (\<lambda>_. Some (\<lambda>_. True)) (ex_agent_cfg mark) ex_ipt_env"

definition ex_agent_world :: "ksets \<Rightarrow> nat \<Rightarrow> (nat, ksets, unit) agent_world" where
  "ex_agent_world K c = \<lparr>aw_api = c, aw_kernel = K, aw_sets = [], aw_ipt = (), aw_tables = (\<lambda>_. []), aw_started = False\<rparr>"

definition ex_agent_orders :: agent_orders where
  "ex_agent_orders = \<lparr>ao_strings = (\<lambda>_ ks. ks), ao_policies = (\<lambda>_ ks. ks), ao_apply = (\<lambda>_ _ _ _ ks. ks)\<rparr>"

lemma ex_agent_ord: "map_iteration (ao_strings ex_agent_orders n)"
  by (simp add: ex_agent_orders_def insertion_order.map_iteration_axioms)

lemma ex_fits: "set_fits set_view (ex_agent_world [] c) s"
  by (simp add: set_fits_def ex_agent_world_def set_view_def)

theorem parseMark_half_witness:
  "parseMark (''0x'' @ hex_string 2147483648) = Err AgMark \<and> Parse (''0x'' @ hex_string 2147483648) = Ok (of_nat 2147483648)"
  using parseMark_half [of 2147483648] by simp

theorem first_run_never_done_witness:
  "fst (police_Reconcile (ex_police (''0x'' @ hex_string 2147483648) [] [ex_agent_gateway ''n1'']) (\<lambda>_. ex_agent_orders) ex_agent_orders
     \<lparr>req_namespace = ''EgressGateway/'', req_name = ''g1''\<rparr> (ex_agent_world [] 0)) \<in> {Panic, Diverge}"
proof (rule first_run_never_done)
  show "parseMark (cf_mark (pr_cfg (ex_police (''0x'' @ hex_string 2147483648) [] [ex_agent_gateway ''n1'']))) = Err AgMark"
    unfolding parseMark_def ex_police_def kernel_agent_def ex_agent_cfg_def
    by (simp only: policeReconciler.simps agent_config.simps remove_0x_hex parse_int_hex32_hex) simp
qed (simp_all add: ex_police_def kernel_agent_def ex_agent_client_def ex_agent_world_def)


theorem set_names_collide_witness:
  "buildIPSetNamesByPolicy ''a-b'' ''c'' True True = (buildIPSetNamesByPolicy ''a'' ''b-c'' True True :: (agent_err, SetName list) outcome)"
  using set_names_collide [of "''a''" "''b''" "''c''" True True] by simp





abbreviation ex_police_go :: "(nat, ksets, unit) policeReconciler" where
  "ex_police_go \<equiv> ex_police ''0x26000000'' [] []"


theorem reconcilePolicy_any_fails_witness:
  "\<exists>msg w'. reconcilePolicy (ex_police ''0x26000000'' [''0.0.0.0/0''] []) ex_agent_orders \<lparr>req_namespace = ''ns1'', req_name = ''p1''\<rparr> (ex_agent_world [] 0) =
     (Err (True, AgSet (Failed msg)), w')"
proof (rule reconcilePolicy_any_fails [OF ex_police_def ex_agent_ord, where p = "ex_agent_policy [''0.0.0.0/0'']" and g = "ex_agent_gateway ''n1''"
      and dst = "([''0.0.0.0/0''], [])" and sel = "\<lambda>_. True" and items = "[ex_agent_slice]" and ?c1.0 = 0 and ?c2.0 = 0 and ?c3.0 = 0])
  show "getDstCIDR (ep_dest_subnet (ep_spec (ex_agent_policy [''0.0.0.0/0'']))) = Ok ([''0.0.0.0/0''], [])"
    using any_v4(1,2) by (simp add: ex_agent_policy_def to4_def)
qed (simp_all add: ex_agent_cfg_def ex_agent_client_def ex_agent_world_def ex_agent_policy_def ex_agent_meta_def ksets_ok_def ex_fits [unfolded ex_agent_world_def])


text \<open>A set that already holds the host.\<close>

definition ex_host_sets :: ksets where
  "ex_host_sets = [(EgressClusterCIDRIPv4, net_params ''inet'', [ip_string [10, 6, 2, 9]])]"

theorem cluster_host_block_lost_witness:
  "store_form ''inet'' (ipnet_string (block (8 * length [10, 6, 2, 9 :: nat]) [10, 6, 2, 9])) = Some (ip_string [10, 6, 2, 9]) \<and>
   (\<exists>w' ms. process_set ex_police_go (cluster_set EgressClusterCIDRIPv4 ''inet'') [ip_string [10, 6, 2, 9]]
       [ipnet_string (block (8 * length [10, 6, 2, 9 :: nat]) [10, 6, 2, 9])] (ex_agent_world ex_host_sets 0) = (Ok (), w') \<and>
     set_view (aw_kernel w') (set_name (cluster_set EgressClusterCIDRIPv4 ''inet'')) = Some (''inet'', ms) \<and> ip_string [10, 6, 2, 9] \<notin> set ms)"
proof -
  have of4: "of_family ''inet'' [10, 6, 2, 9]" by (simp add: of_family_def family_defs)
  have h: "store_form ''inet'' (ip_string [10, 6, 2, 9]) = Some (ip_string [10, 6, 2, 9])" using store_form_host [OF _ of4] by simp
  have fam: "family_of (net_params ''inet'') = ''inet''" by (simp add: family_of_def net_params_def)
  have ok: "ksets_ok ex_host_sets" using h fam
    by (simp add: ksets_ok_def ex_host_sets_def set_ok_def proper_def EgressClusterCIDRIPv4_def newline_def)
  have p: "plain_ip (net_ip (block 32 [10, 6, 2, 9]))" by (simp add: plain_ip_def) code_simp
  have "store_form ''inet'' (ipnet_string (block 32 [10, 6, 2, 9])) \<noteq> None"
    using store_form_cidr [OF refl, of 32 "[10, 6, 2, 9]" "''inet''"] p by (simp add: of_family_def family_defs)
  moreover have "ip_string [10, 6, 2, 9] \<noteq> ipnet_string (block 32 [10, 6, 2, 9])"
    using ipnet_string_block(1) [OF refl _ p] ip_string_plain(2) [of "[10, 6, 2, 9]"] by (auto simp: plain_ip_def)
  ultimately show ?thesis
    by (intro cluster_host_block_lost [OF ex_police_def]) (auto simp: ok [unfolded ex_host_sets_def] of4 ex_agent_world_def ex_host_sets_def set_view_def cluster_set_def fam)
qed


definition ex_iptables :: iptables_config where
  "ex_iptables = \<lparr>ic_backend = [], ic_refresh = 90, ic_lock_timeout = 0, ic_lock_probe = 50, ic_post_write = 1, ic_restore_lock = True\<rparr>"

definition ex_tables :: "table_kind \<Rightarrow> table list" where
  "ex_tables = (case newPolicyController (\<lambda>_. True) 7 (ex_agent_cfg ''0x26000000'') ex_iptables of Ok ts \<Rightarrow> ts | _ \<Rightarrow> (\<lambda>_. []))"

lemma ex_tables_mangle:
  "newPolicyController (\<lambda>_. True) 7 (ex_agent_cfg ''0x26000000'') ex_iptables = Ok ex_tables" "length (ex_tables MangleTable) = 1"
  "replyChain \<notin> set (tb_dirty (hd (ex_tables MangleTable)))" "replyChain \<notin> set (tb_dirty_ins (hd (ex_tables MangleTable)))"
  "map_of (tb_hashes (hd (ex_tables MangleTable))) replyChain = None"
  by (auto simp: ex_tables_def newPolicyController_def new_tables_def NewTable_def ex_agent_cfg_def agent_options_def ex_iptables_def Let_def
      FindBestBinary_def to_lower_def set_New_def set_AddAll_def set_Add_def set_Contains_def add_key_def replyChain_def)

theorem agent_chains_not_ours_witness:
  "\<not> our_chain (hd (ex_tables MangleTable)) replyChain \<and> check_unknown [(replyChain, [''h''])] replyChain (hd (ex_tables MangleTable)) =
     (hd (ex_tables MangleTable))\<lparr>tb_dirty_ins := set_Add replyChain (tb_dirty_ins (hd (ex_tables MangleTable)))\<rparr>"
proof (rule agent_chains_not_ours [OF ex_tables_mangle(1), where k = MangleTable])
  show "hd (ex_tables MangleTable) \<in> set (ex_tables MangleTable)" using ex_tables_mangle(2) by (cases "ex_tables MangleTable") auto
qed (simp_all add: ex_tables_mangle lookup_list_def)

end
