(* ===== verification/Announcer.thy ===== *)
theory Announcer
  imports NetIP Prelude
begin

text \<open>
  \<^verbatim>\<open>pkg/layer2\<close>: the announcer, which answers ARP and NDP requests for the egress addresses of the node and sends
  gratuitous announcements (\<^verbatim>\<open>announcer.go\<close>, \<^verbatim>\<open>ip_advertisement.go\<close>, \<^verbatim>\<open>arp.go\<close>, \<^verbatim>\<open>ndp.go\<close>).
  The network is a parameter: opening and closing a connection on an interface, writing a packet, joining and leaving a
  multicast group; each call may fail. So are the order of map iterations, what the system says about an interface and the
  pattern of excluded interfaces. The counters are maps with the zero value for a missing key. The channel of the spam loop
  is a queue. Locks, log output and statistics are left out.
\<close>

section \<open>Advertisements\<close>

record ip_advertisement =
  ad_ip :: netip
  ad_interfaces :: "string list"
  ad_all :: bool

definition NewIPAdvertisement :: "netip \<Rightarrow> bool \<Rightarrow> string list \<Rightarrow> ip_advertisement" where
  "NewIPAdvertisement ip allInterfaces interfaces = \<lparr>ad_ip = ip, ad_interfaces = interfaces, ad_all = allInterfaces\<rparr>"

text \<open>A nil pointer to an advertisement is \<open>None\<close>.\<close>

definition matchInterface :: "ip_advertisement option \<Rightarrow> string \<Rightarrow> bool" where
  "matchInterface i intf = (case i of None \<Rightarrow> False | Some a \<Rightarrow> if ad_all a then True else intf \<in> set (ad_interfaces a))"

definition MatchInterfaces :: "ip_advertisement \<Rightarrow> string list \<Rightarrow> bool" where
  "MatchInterfaces a intfs = (if ad_all a then True else list_ex (matchInterface (Some a)) intfs)"

definition adv_Equal :: "ip_advertisement option \<Rightarrow> ip_advertisement option \<Rightarrow> bool" where
  "adv_Equal i other = (case (i, other) of
     (None, None) \<Rightarrow> True
   | (Some a, Some b) \<Rightarrow>
       if \<not> ip_equal (ad_ip a) (ad_ip b) then False
       else if ad_all a \<noteq> ad_all b then False
       else if ad_all a then True
       else set (ad_interfaces a) = set (ad_interfaces b)
   | _ \<Rightarrow> False)"

datatype dropReason =
    dropReasonNone
  | dropReasonClosed
  | dropReasonError
  | dropReasonARPReply
  | dropReasonMessageType
  | dropReasonNoSourceLL
  | dropReasonEthernetDestination
  | dropReasonAnnounceIP
  | dropReasonNotMatchInterface

section \<open>The network\<close>

type_synonym hwaddr = "nat list"

datatype arp_op = OperationRequest | OperationReply

record arp_packet =
  ap_op :: arp_op
  ap_sender_hw :: hwaddr
  ap_sender_ip :: netip
  ap_target_hw :: hwaddr
  ap_target_ip :: netip

record neighbor_adv =
  na_solicited :: bool
  na_override :: bool
  na_target :: netip
  na_lladdr :: hwaddr

record iface =
  if_index :: int
  if_name :: string
  if_hw :: hwaddr
  if_up :: bool
  if_broadcast :: bool

record 'w l2_net =
  net_arp_dial :: "iface \<Rightarrow> ('w, string, unit) prog"
  net_ndp_dial :: "iface \<Rightarrow> ('w, string, unit) prog"
  net_arp_write :: "string \<Rightarrow> arp_packet \<Rightarrow> hwaddr \<Rightarrow> ('w, string, unit) prog"
  net_ndp_write :: "string \<Rightarrow> neighbor_adv \<Rightarrow> netip \<Rightarrow> ('w, string, unit) prog"
  net_join :: "string \<Rightarrow> netip \<Rightarrow> ('w, string, unit) prog"
  net_leave :: "string \<Rightarrow> netip \<Rightarrow> ('w, string, unit) prog"
  net_arp_close :: "string \<Rightarrow> ('w, string, unit) prog"
  net_ndp_close :: "string \<Rightarrow> ('w, string, unit) prog"

text \<open>A call whose error is only logged.\<close>

definition logged :: "('w, string, 'a) prog \<Rightarrow> ('w, 'e, unit) prog" where
  "logged m = bindp (attempt m) (\<lambda>_. ret ())"

section \<open>ARP\<close>

record arp_responder =
  ar_intf :: string
  ar_hw :: hwaddr
  ar_closed :: bool

definition Broadcast :: hwaddr where "Broadcast = replicate 6 255"

text \<open>\<^verbatim>\<open>arp.NewPacket\<close> checks the hardware addresses and takes IPv4 addresses only.\<close>

definition NewPacket :: "arp_op \<Rightarrow> hwaddr \<Rightarrow> netip \<Rightarrow> hwaddr \<Rightarrow> netip \<Rightarrow> (string, arp_packet) outcome" where
  "NewPacket op srcHW srcIP dstHW dstIP =
     (if length srcHW < 6 \<or> length dstHW < 6 then Err ''invalid hardware address''
      else if dstHW \<noteq> Broadcast \<and> length srcHW \<noteq> length dstHW then Err ''invalid hardware address''
      else if to4 srcIP = nil_ip \<or> to4 dstIP = nil_ip then Err ''invalid IPv4 address''
      else Ok \<lparr>ap_op = op, ap_sender_hw = srcHW, ap_sender_ip = to4 srcIP, ap_target_hw = dstHW, ap_target_ip = to4 dstIP\<rparr>)"

definition newARPResponder :: "'w l2_net \<Rightarrow> iface \<Rightarrow> ('w, string, arp_responder) prog" where
  "newARPResponder net ifi =
     bindp (or_fail (\<lambda>e. ''creating ARP responder: '' @ e) (net_arp_dial net ifi)) (\<lambda>_.
     ret \<lparr>ar_intf = if_name ifi, ar_hw = if_hw ifi, ar_closed = False\<rparr>)"

text \<open>The responder that \<^verbatim>\<open>Close\<close> leaves and the error of the connection.\<close>

definition arp_Close :: "'w l2_net \<Rightarrow> arp_responder \<Rightarrow> ('w, 'e, arp_responder \<times> string option) prog" where
  "arp_Close net r =
     bindp (attempt (net_arp_close net (ar_intf r))) (\<lambda>res. ret (r\<lparr>ar_closed := True\<rparr>, case res of Inl e \<Rightarrow> Some e | Inr _ \<Rightarrow> None))"

definition arp_Gratuitous :: "'w l2_net \<Rightarrow> arp_responder \<Rightarrow> netip \<Rightarrow> ('w, string, unit) prog" where
  "arp_Gratuitous net r ip =
     for_each (\<lambda>op _. bindp (lift (NewPacket op (ar_hw r) ip Broadcast ip)) (\<lambda>pkt. net_arp_write net (ar_intf r) pkt Broadcast))
       [OperationRequest, OperationReply] ()"

datatype ('m, 's) read_result = ReadEOF | ReadErr | Got 'm 's

definition arp_Reply :: "'w l2_net \<Rightarrow> arp_responder \<Rightarrow> arp_packet \<Rightarrow> netip \<Rightarrow> ('w, string, unit) prog" where
  "arp_Reply net r req ip =
     bindp (lift (NewPacket OperationReply (ar_hw r) ip (ap_sender_hw req) (ap_sender_ip req))) (\<lambda>p.
     net_arp_write net (ar_intf r) p (ap_sender_hw req))"

definition arp_processRequest :: "'w l2_net \<Rightarrow> (netip \<Rightarrow> string \<Rightarrow> dropReason) \<Rightarrow> arp_responder \<Rightarrow> (arp_packet, hwaddr) read_result \<Rightarrow>
    ('w, 'e, dropReason) prog" where
  "arp_processRequest net announce r got = (case got of
     ReadEOF \<Rightarrow> ret dropReasonClosed
   | ReadErr \<Rightarrow> ret (if ar_closed r then dropReasonClosed else dropReasonError)
   | Got pkt dest \<Rightarrow>
       if ap_op pkt \<noteq> OperationRequest then ret dropReasonARPReply
       else if dest \<noteq> Broadcast \<and> dest \<noteq> ar_hw r then ret dropReasonEthernetDestination
       else (let reason = announce (ap_target_ip pkt) (ar_intf r) in
         if reason \<noteq> dropReasonNone then ret reason
         else bindp (logged (arp_Reply net r pkt (ap_target_ip pkt))) (\<lambda>_. ret dropReasonNone)))"

section \<open>NDP\<close>

record ndp_responder =
  nr_intf :: string
  nr_hw :: hwaddr
  nr_closed :: bool
  nr_groups :: "string \<Rightarrow> int"

definition newNDPResponder :: "'w l2_net \<Rightarrow> iface \<Rightarrow> ('w, string, ndp_responder) prog" where
  "newNDPResponder net ifi =
     bindp (or_fail (\<lambda>e. ''creating NDP responder: '' @ e) (net_ndp_dial net ifi)) (\<lambda>_.
     ret \<lparr>nr_intf = if_name ifi, nr_hw = if_hw ifi, nr_closed = False, nr_groups = (\<lambda>_. 0)\<rparr>)"

definition ndp_Close :: "'w l2_net \<Rightarrow> ndp_responder \<Rightarrow> ('w, 'e, ndp_responder \<times> string option) prog" where
  "ndp_Close net n =
     bindp (attempt (net_ndp_close net (nr_intf n))) (\<lambda>res. ret (n\<lparr>nr_closed := True\<rparr>, case res of Inl e \<Rightarrow> Some e | Inr _ \<Rightarrow> None))"

text \<open>\<^verbatim>\<open>ndp.SolicitedNodeMulticast\<close>: a fixed prefix and the last three bytes of the address.\<close>

definition SolicitedNodeMulticast :: "netip \<Rightarrow> netip option" where
  "SolicitedNodeMulticast ip =
     (if to16 ip = nil_ip \<or> to4 ip \<noteq> nil_ip then None
      else Some ([255, 2, 0, 0, 0, 0, 0, 0, 0, 0, 0, 1, 255] @ drop 13 ip))"

text \<open>\<^verbatim>\<open>ff02::1\<close>.\<close>

definition all_nodes :: netip where "all_nodes = [255, 2] @ replicate 13 0 @ [1]"

definition advertise :: "'w l2_net \<Rightarrow> ndp_responder \<Rightarrow> netip \<Rightarrow> netip \<Rightarrow> bool \<Rightarrow> ('w, string, unit) prog" where
  "advertise net n dst target gratuitous' =
     net_ndp_write net (nr_intf n)
       \<lparr>na_solicited = (\<not> gratuitous'), na_override = gratuitous', na_target = target, na_lladdr = nr_hw n\<rparr> dst"

definition ndp_Gratuitous :: "'w l2_net \<Rightarrow> ndp_responder \<Rightarrow> netip \<Rightarrow> ('w, string, unit) prog" where
  "ndp_Gratuitous net n ip = advertise net n all_nodes ip True"

text \<open>The responder that a call leaves, also when it fails, and the error.\<close>

definition Watch :: "'w l2_net \<Rightarrow> netip \<Rightarrow> ndp_responder \<Rightarrow> ('w, 'e, ndp_responder \<times> string option) prog" where
  "Watch net ip n =
     (if to4 ip \<noteq> nil_ip then ret (n, None)
      else case SolicitedNodeMulticast ip of
        None \<Rightarrow> ret (n, Some ''looking up solicited node multicast group'')
      | Some grp \<Rightarrow>
          (let g = ip_string grp; n' = n\<lparr>nr_groups := (nr_groups n)(g := nr_groups n g + 1)\<rparr> in
           if nr_groups n g = 0
           then bindp (attempt (net_join net (nr_intf n) grp)) (\<lambda>res. case res of
             Inl e \<Rightarrow> ret (n, Some (''joining solicited node multicast group: '' @ e))
           | Inr _ \<Rightarrow> ret (n', None))
           else ret (n', None)))"

definition Unwatch :: "'w l2_net \<Rightarrow> netip \<Rightarrow> ndp_responder \<Rightarrow> ('w, 'e, ndp_responder \<times> string option) prog" where
  "Unwatch net ip n =
     (if to4 ip \<noteq> nil_ip then ret (n, None)
      else case SolicitedNodeMulticast ip of
        None \<Rightarrow> ret (n, Some ''looking up solicited node multicast group'')
      | Some grp \<Rightarrow>
          (let g = ip_string grp; n' = n\<lparr>nr_groups := (nr_groups n)(g := nr_groups n g - 1)\<rparr> in
           if nr_groups n' g = 0
           then bindp (attempt (net_leave net (nr_intf n) grp)) (\<lambda>res. case res of
             Inl e \<Rightarrow> ret (n', Some (''leaving solicited node multicast group: '' @ e))
           | Inr _ \<Rightarrow> ret (n', None))
           else ret (n', None)))"

text \<open>An NDP message: a solicitation with its target and options, or another one.\<close>

datatype ndp_option = SourceLL hwaddr | TargetLL hwaddr | OtherOption

datatype ndp_message = NeighborSolicitation netip "ndp_option list" | OtherMessage

fun source_ll :: "ndp_option list \<Rightarrow> hwaddr option" where
  "source_ll [] = None"
| "source_ll (SourceLL a # _) = Some a"
| "source_ll (_ # os) = source_ll os"

definition ndp_processRequest :: "'w l2_net \<Rightarrow> (netip \<Rightarrow> string \<Rightarrow> dropReason) \<Rightarrow> ndp_responder \<Rightarrow> (ndp_message, netip) read_result \<Rightarrow>
    ('w, 'e, dropReason) prog" where
  "ndp_processRequest net announce n got = (case got of
     ReadEOF \<Rightarrow> ret dropReasonClosed
   | ReadErr \<Rightarrow> ret (if nr_closed n then dropReasonClosed else dropReasonError)
   | Got msg src \<Rightarrow> (case msg of
       OtherMessage \<Rightarrow> ret dropReasonMessageType
     | NeighborSolicitation target opts \<Rightarrow>
         (case source_ll opts of
           None \<Rightarrow> ret dropReasonNoSourceLL
         | Some _ \<Rightarrow>
             (let reason = announce target (nr_intf n) in
              if reason \<noteq> dropReasonNone then ret reason
              else bindp (logged (advertise net n src target False)) (\<lambda>_. ret dropReasonNone)))))"

section \<open>The announcer\<close>

record announce =
  an_interfaces :: "string list"
  an_arps :: "(int \<times> arp_responder) list"
  an_ndps :: "(int \<times> ndp_responder) list"
  an_ips :: "(string \<times> ip_advertisement list) list"
  an_refcnt :: "string \<Rightarrow> int"
  an_spam :: "ip_advertisement list"

definition New :: announce where
  "New = \<lparr>an_interfaces = [], an_arps = [], an_ndps = [], an_ips = [], an_refcnt = (\<lambda>_. 0), an_spam = []\<rparr>"

definition doSpam :: "ip_advertisement \<Rightarrow> announce \<Rightarrow> announce" where
  "doSpam adv an = an\<lparr>an_spam := an_spam an @ [adv]\<rparr>"

definition gratuitous :: "'w l2_net \<Rightarrow> int iter_order \<Rightarrow> announce \<Rightarrow> ip_advertisement \<Rightarrow> ('w, 'e, unit) prog" where
  "gratuitous net ord an adv =
     (let ip = ad_ip adv in
      if an_refcnt an (ip_string ip) \<le> 0 then ret ()
      else if to4 ip \<noteq> nil_ip
      then for_each (\<lambda>client _. if \<not> matchInterface (Some adv) (ar_intf client) then ret () else logged (arp_Gratuitous net client ip))
             (range_values ord (an_arps an)) ()
      else for_each (\<lambda>client _. if \<not> matchInterface (Some adv) (nr_intf client) then ret () else logged (ndp_Gratuitous net client ip))
             (range_values ord (an_ndps an)) ())"

fun announce_loop :: "netip \<Rightarrow> string \<Rightarrow> bool \<Rightarrow> ip_advertisement list \<Rightarrow> dropReason" where
  "announce_loop ip intf ipFound [] = (if ipFound then dropReasonNotMatchInterface else dropReasonAnnounceIP)"
| "announce_loop ip intf ipFound (i # rest) =
     (if ip_equal (ad_ip i) ip
      then if matchInterface (Some i) intf then dropReasonNone else announce_loop ip intf True rest
      else announce_loop ip intf ipFound rest)"

definition shouldAnnounce :: "string iter_order \<Rightarrow> announce \<Rightarrow> netip \<Rightarrow> string \<Rightarrow> dropReason" where
  "shouldAnnounce ord an ip intf = announce_loop ip intf False (concat (range_values ord (an_ips an)))"

definition advs_of :: "announce \<Rightarrow> string \<Rightarrow> ip_advertisement list" where
  "advs_of an nm = (case map_of (an_ips an) nm of None \<Rightarrow> [] | Some advs \<Rightarrow> advs)"

text \<open>The first advertisement with the address is replaced.\<close>

fun override :: "ip_advertisement \<Rightarrow> ip_advertisement list \<Rightarrow> ip_advertisement list option" where
  "override adv [] = None"
| "override adv (a # as) =
     (if ip_equal (ad_ip adv) (ad_ip a) then Some (adv # as) else map_option ((#) a) (override adv as))"

text \<open>A loop over the NDP responders; a responder that changed is stored, errors are logged.\<close>

definition for_ndps :: "int iter_order \<Rightarrow> (ndp_responder \<Rightarrow> ('w, 'e, ndp_responder \<times> string option) prog) \<Rightarrow> announce \<Rightarrow> ('w, 'e, announce) prog" where
  "for_ndps ord f an =
     for_each (\<lambda>i an. case map_of (an_ndps an) i of
         None \<Rightarrow> ret an
       | Some n \<Rightarrow> bindp (f n) (\<lambda>(n', _). ret (an\<lparr>an_ndps := AList.update i n' (an_ndps an)\<rparr>)))
       (ord (map fst (an_ndps an))) an"

definition SetBalancer :: "'w l2_net \<Rightarrow> int iter_order \<Rightarrow> string \<Rightarrow> ip_advertisement \<Rightarrow> announce \<Rightarrow> ('w, 'e, announce) prog" where
  "SetBalancer net ord nm adv an = (case override adv (advs_of an nm) of
     Some advs \<Rightarrow> ret (doSpam adv (an\<lparr>an_ips := AList.update nm advs (an_ips an)\<rparr>))
   | None \<Rightarrow>
       (let k = ip_string (ad_ip adv);
            an = an\<lparr>an_ips := AList.update nm (advs_of an nm @ [adv]) (an_ips an), an_refcnt := (an_refcnt an)(k := an_refcnt an k + 1)\<rparr>
        in if an_refcnt an k > 1 then ret (doSpam adv an)
           else bindp (for_ndps ord (Watch net (ad_ip adv)) an) (\<lambda>an. ret (doSpam adv an))))"

definition drop_adv :: "'w l2_net \<Rightarrow> int iter_order \<Rightarrow> ip_advertisement \<Rightarrow> announce \<Rightarrow> ('w, 'e, announce) prog" where
  "drop_adv net ord cur an =
     (let k = ip_string (ad_ip cur); an = an\<lparr>an_refcnt := (an_refcnt an)(k := an_refcnt an k - 1)\<rparr>
      in if an_refcnt an k > 0 then ret an else for_ndps ord (Unwatch net (ad_ip cur)) an)"

definition DeleteBalancer :: "'w l2_net \<Rightarrow> int iter_order \<Rightarrow> string \<Rightarrow> announce \<Rightarrow> ('w, 'e, announce) prog" where
  "DeleteBalancer net ord nm an = (case map_of (an_ips an) nm of
     None \<Rightarrow> ret an
   | Some advs \<Rightarrow> for_each (drop_adv net ord) advs (an\<lparr>an_ips := AList.delete nm (an_ips an)\<rparr>))"

definition AnnounceName :: "announce \<Rightarrow> string \<Rightarrow> bool" where
  "AnnounceName an nm = (map_of (an_ips an) nm \<noteq> None)"

definition GetInterfaces :: "announce \<Rightarrow> string list" where
  "GetInterfaces an = an_interfaces an"

section \<open>Scanning interfaces\<close>

datatype if_addr = IPNetAddr netip | OtherAddr

record sys_view =
  sv_excluded :: "string \<Rightarrow> bool"
  sv_addrs :: "iface \<Rightarrow> if_addr list option"
  sv_master :: "string \<Rightarrow> bool"
  sv_flags :: "string \<Rightarrow> string option"

text \<open>
  \<^verbatim>\<open>strconv.ParseUint\<close> with the base of the prefix, for 32 bits, as the caller sees it who ignores the error: zero
  for a text that is no number, the largest value for a number that is too large. Underscores are not modelled.
\<close>

fun uint_loop :: "nat \<Rightarrow> nat \<Rightarrow> string \<Rightarrow> nat" where
  "uint_loop base n [] = n"
| "uint_loop base n (c # s) = (case hex_digit c of
     None \<Rightarrow> 0
   | Some d \<Rightarrow> if d \<ge> base then 0 else if n * base + d \<ge> 2 ^ 32 then 2 ^ 32 - 1 else uint_loop base (n * base + d) s)"

definition ParseUint :: "string \<Rightarrow> nat" where
  "ParseUint s =
     (case s of
       [] \<Rightarrow> 0
     | c # r \<Rightarrow>
         if c \<noteq> CHR ''0'' then uint_loop 10 0 s
         else if length s \<ge> 3 \<and> hd r \<in> {CHR ''b'', CHR ''B''} then uint_loop 2 0 (tl r)
         else if length s \<ge> 3 \<and> hd r \<in> {CHR ''o'', CHR ''O''} then uint_loop 8 0 (tl r)
         else if length s \<ge> 3 \<and> hd r \<in> {CHR ''x'', CHR ''X''} then uint_loop 16 0 (tl r)
         else uint_loop 8 0 r)"

text \<open>The last character of the file is cut off, which panics on an empty file.\<close>

definition no_arp :: "sys_view \<Rightarrow> string \<Rightarrow> ('e, bool) outcome" where
  "no_arp sys nm = (case sv_flags sys nm of
     None \<Rightarrow> Ok False
   | Some f \<Rightarrow> if f = [] then Panic else Ok (odd (ParseUint (butlast f) div 128)))"

definition IsLinkLocalUnicast6 :: "netip \<Rightarrow> bool" where
  "IsLinkLocalUnicast6 ip = (length ip = 16 \<and> ip ! 0 = 254 \<and> ip ! 1 div 64 = 2)"

fun has_link_local :: "if_addr list \<Rightarrow> bool" where
  "has_link_local [] = False"
| "has_link_local (OtherAddr # as) = has_link_local as"
| "has_link_local (IPNetAddr ip # as) = (if to4 ip \<noteq> nil_ip \<or> \<not> IsLinkLocalUnicast6 ip then has_link_local as else True)"

record scan =
  sc_ann :: announce
  sc_arp :: "int list"
  sc_ndp :: "int list"
  sc_ifs :: "string list"

text \<open>The responders of one interface; an error while listing its addresses ends the scan with the state reached.\<close>

definition add_arp :: "'w l2_net \<Rightarrow> iface \<Rightarrow> scan \<Rightarrow> ('w, 'e, bool \<times> scan) prog" where
  "add_arp net ifi sc =
     (if if_index ifi \<in> set (sc_arp sc) \<and> map_of (an_arps (sc_ann sc)) (if_index ifi) = None
      then bindp (attempt (newARPResponder net ifi)) (\<lambda>res. case res of
        Inl _ \<Rightarrow> ret (False, sc)
      | Inr r \<Rightarrow> ret (True, sc\<lparr>sc_ann := (sc_ann sc)\<lparr>an_arps := AList.update (if_index ifi) r (an_arps (sc_ann sc))\<rparr>\<rparr>))
      else ret (True, sc))"

definition add_ndp :: "'w l2_net \<Rightarrow> iface \<Rightarrow> scan \<Rightarrow> ('w, 'e, scan) prog" where
  "add_ndp net ifi sc =
     (if if_index ifi \<in> set (sc_ndp sc) \<and> map_of (an_ndps (sc_ann sc)) (if_index ifi) = None
      then bindp (attempt (newNDPResponder net ifi)) (\<lambda>res. case res of
        Inl _ \<Rightarrow> ret sc
      | Inr r \<Rightarrow> ret (sc\<lparr>sc_ann := (sc_ann sc)\<lparr>an_ndps := AList.update (if_index ifi) r (an_ndps (sc_ann sc))\<rparr>\<rparr>))
      else ret sc)"

definition scan_iface :: "'w l2_net \<Rightarrow> sys_view \<Rightarrow> iface \<Rightarrow> scan \<Rightarrow> ('w, announce, scan) prog" where
  "scan_iface net sys ifi sc =
     (if sv_excluded sys (if_name ifi) then ret sc
      else let sc = sc\<lparr>sc_ifs := sc_ifs sc @ [if_name ifi]\<rparr> in (case sv_addrs sys ifi of
        None \<Rightarrow> fail (sc_ann sc)
      | Some addrs \<Rightarrow>
          if \<not> if_up ifi then ret sc
          else if sv_master sys (if_name ifi) then ret sc
          else bindp (lift (no_arp sys (if_name ifi))) (\<lambda>noarp.
            if noarp then ret sc
            else let sc = (if if_broadcast ifi then sc\<lparr>sc_arp := add_key (if_index ifi) (sc_arp sc)\<rparr> else sc);
                     sc = (if has_link_local addrs then sc\<lparr>sc_ndp := add_key (if_index ifi) (sc_ndp sc)\<rparr> else sc)
                 in bindp (add_arp net ifi sc) (\<lambda>(go, sc). if go then add_ndp net ifi sc else ret sc))))"

definition prune_arps :: "'w l2_net \<Rightarrow> int list \<Rightarrow> int iter_order \<Rightarrow> announce \<Rightarrow> ('w, 'e, announce) prog" where
  "prune_arps net keep ord an =
     for_each (\<lambda>i an. case map_of (an_arps an) i of
         None \<Rightarrow> ret an
       | Some r \<Rightarrow> if i \<in> set keep then ret an
           else bindp (arp_Close net r) (\<lambda>_. ret (an\<lparr>an_arps := AList.delete i (an_arps an)\<rparr>)))
       (ord (map fst (an_arps an))) an"

definition prune_ndps :: "'w l2_net \<Rightarrow> int list \<Rightarrow> int iter_order \<Rightarrow> announce \<Rightarrow> ('w, 'e, announce) prog" where
  "prune_ndps net keep ord an =
     for_each (\<lambda>i an. case map_of (an_ndps an) i of
         None \<Rightarrow> ret an
       | Some r \<Rightarrow> if i \<in> set keep then ret an
           else bindp (ndp_Close net r) (\<lambda>_. ret (an\<lparr>an_ndps := AList.delete i (an_ndps an)\<rparr>)))
       (ord (map fst (an_ndps an))) an"

definition updateInterfaces :: "'w l2_net \<Rightarrow> sys_view \<Rightarrow> int iter_order \<Rightarrow> int iter_order \<Rightarrow> iface list option \<Rightarrow> announce \<Rightarrow>
    ('w, 'e, announce) prog" where
  "updateInterfaces net sys ordA ordN ifs an = (case ifs of
     None \<Rightarrow> ret an
   | Some ifs \<Rightarrow>
       bindp (attempt (for_each (scan_iface net sys) ifs \<lparr>sc_ann = an, sc_arp = [], sc_ndp = [], sc_ifs = []\<rparr>)) (\<lambda>res. case res of
         Inl an \<Rightarrow> ret an
       | Inr sc \<Rightarrow>
           bindp (prune_arps net (sc_arp sc) ordA ((sc_ann sc)\<lparr>an_interfaces := sc_ifs sc\<rparr>)) (\<lambda>an.
           prune_ndps net (sc_ndp sc) ordN an)))"

section \<open>The spam loop\<close>

text \<open>
  The loop keeps for each address the time until which it is announced, and a ticker that runs while there is one. Its two
  events are an advertisement from the channel and a tick. Times are in milliseconds.
\<close>

record spam_state =
  sp_until :: "(string \<times> int \<times> ip_advertisement) list"
  sp_ticking :: bool

definition spam_start :: spam_state where
  "spam_start = \<lparr>sp_until = [], sp_ticking = False\<rparr>"

definition spam_receive :: "'w l2_net \<Rightarrow> int iter_order \<Rightarrow> announce \<Rightarrow> int \<Rightarrow> ip_advertisement \<Rightarrow> spam_state \<Rightarrow> ('w, 'e, spam_state) prog" where
  "spam_receive net ord an now s st =
     (let st' = (if sp_until st = [] then st\<lparr>sp_ticking := True\<rparr> else st);
          k = ip_string (ad_ip s);
          st' = st'\<lparr>sp_until := AList.update k (now + 5000, s) (sp_until st')\<rparr>
      in if map_of (sp_until st) k = None then bindp (gratuitous net ord an s) (\<lambda>_. ret st') else ret st')"

definition spam_tick :: "'w l2_net \<Rightarrow> int iter_order \<Rightarrow> string iter_order \<Rightarrow> announce \<Rightarrow> int \<Rightarrow> spam_state \<Rightarrow> ('w, 'e, spam_state) prog" where
  "spam_tick net ord ordS an now st =
     bindp (for_each (\<lambda>k st. case map_of (sp_until st) k of
         None \<Rightarrow> ret st
       | Some (until, adv) \<Rightarrow> if now > until then ret (st\<lparr>sp_until := AList.delete k (sp_until st)\<rparr>)
           else bindp (gratuitous net ord an adv) (\<lambda>_. ret st))
       (ordS (map fst (sp_until st))) st) (\<lambda>st.
     ret (if sp_until st = [] then st\<lparr>sp_ticking := False\<rparr> else st))"

end
