(* ===== verification/AnnounceBook.thy ===== *)
theory AnnounceBook
  imports Announcer IPPool
begin

text \<open>
  The announcer as a book: a map from a name and an address to the advertisement for it. Setting and deleting a balancer
  update the book, the counters are the numbers of names per address, and the answer to a request is read off the book,
  whatever the network does short of hanging.
\<close>

section \<open>The book\<close>

definition ad_key :: "ip_advertisement \<Rightarrow> netip" where
  "ad_key a = to16 (ad_ip a)"

definition page :: "ip_advertisement list \<Rightarrow> netip \<rightharpoonup> ip_advertisement" where
  "page advs = map_of (map (\<lambda>a. (ad_key a, a)) advs)"

definition book_of :: "announce \<Rightarrow> string \<times> netip \<rightharpoonup> ip_advertisement" where
  "book_of an = (\<lambda>(nm, x). page (advs_of an nm) x)"

definition page_ok :: "ip_advertisement list \<Rightarrow> bool" where
  "page_ok advs \<longleftrightarrow> distinct (map ad_key advs) \<and> (\<forall>a \<in> set advs. wf_ip (ad_ip a))"

definition uses :: "string \<Rightarrow> ip_advertisement list \<Rightarrow> nat" where
  "uses k advs = length (filter (\<lambda>a. ip_string (ad_ip a) = k) advs)"

definition announce_ok :: "announce \<Rightarrow> bool" where
  "announce_ok an \<longleftrightarrow>
     distinct (map fst (an_ips an)) \<and> (\<forall>(nm, advs) \<in> set (an_ips an). page_ok advs) \<and>
     (\<forall>k. an_refcnt an k = int (uses k (concat (map snd (an_ips an)))))"

lemma ip_equal_wf: "wf_ip a \<Longrightarrow> wf_ip b \<Longrightarrow> ip_equal a b \<longleftrightarrow> to16 a = to16 b"
proof -
  assume "wf_ip a" "wf_ip b"
  then have "length a = 4 \<or> length a = 16" "length b = 4 \<or> length b = 16" by (simp_all add: wf_ip_def)
  moreover have "length v4InV6Prefix = 12" by (simp add: v4InV6Prefix_def)
  then have "v4InV6Prefix @ c = d \<longleftrightarrow> take 12 d = v4InV6Prefix \<and> c = drop 12 d" for c d
    by (auto simp: append_eq_conv_conj)
  ultimately show ?thesis by (auto simp: ip_equal_def to16_def) (metis append_take_drop_id)
qed

lemma uses_simps [simp]: "uses k [] = 0" "uses k (a # as) = (if ip_string (ad_ip a) = k then 1 else 0) + uses k as"
  "uses k (as @ bs) = uses k as + uses k bs"
  by (auto simp: uses_def)

lemma page_simps [simp]: "page [] = Map.empty" "page (a # as) = (page as)(ad_key a \<mapsto> a)"
  by (simp_all add: page_def)

lemma page_append: "ad_key adv \<notin> ad_key ` set as \<Longrightarrow> page (as @ [adv]) = (page as)(ad_key adv \<mapsto> adv)"
  by (induction as) (auto simp: fun_upd_twist)

lemma dom_page: "dom (page as) = ad_key ` set as"
  by (simp add: page_def dom_map_of_conv_image_fst image_image)

lemma page_Some: "distinct (map ad_key as) \<Longrightarrow> page as x = Some a \<longleftrightarrow> a \<in> set as \<and> ad_key a = x"
  by (induction as) (auto simp: image_iff)

text \<open>An address that is already on the page is overridden, another one is new.\<close>

lemma override_Some:
  assumes "override adv as = Some bs" "page_ok as" "wf_ip (ad_ip adv)"
  shows "page bs = (page as)(ad_key adv \<mapsto> adv) \<and> map ad_key bs = map ad_key as \<and> page_ok bs \<and> ad_key adv \<in> ad_key ` set as"
  using assms
proof (induction as arbitrary: bs)
  case (Cons a as)
  show ?case
  proof (cases "ip_equal (ad_ip adv) (ad_ip a)")
    case True
    with Cons.prems have "ad_key adv = ad_key a" "bs = adv # as"
      by (auto simp: page_ok_def ad_key_def ip_equal_wf)
    with Cons.prems show ?thesis by (auto simp: page_ok_def)
  next
    case False
    with Cons.prems obtain cs where cs: "override adv as = Some cs" "bs = a # cs" by auto
    have "ad_key adv \<noteq> ad_key a" using False Cons.prems by (auto simp: page_ok_def ad_key_def ip_equal_wf)
    moreover have "page_ok as" using Cons.prems by (auto simp: page_ok_def)
    ultimately show ?thesis using Cons.IH [OF cs(1)] Cons.prems cs(2)
      by (auto simp: page_ok_def fun_upd_twist simp flip: set_map)
  qed
qed simp

lemma override_None:
  "override adv as = None \<Longrightarrow> page_ok as \<Longrightarrow> wf_ip (ad_ip adv) \<Longrightarrow> ad_key adv \<notin> ad_key ` set as"
  by (induction as) (auto simp: page_ok_def ad_key_def ip_equal_wf split: if_splits)

lemma ip_string_key: "wf_ip (ad_ip a) \<Longrightarrow> wf_ip ip \<Longrightarrow> ip_string (ad_ip a) = ip_string ip \<longleftrightarrow> ad_key a = to16 ip"
  by (simp add: ad_key_def ip_string_eq)

lemma uses_page:
  assumes "page_ok as" "wf_ip ip"
  shows "uses (ip_string ip) as = (if to16 ip \<in> ad_key ` set as then 1 else 0)"
  using assms by (induction as) (auto simp: page_ok_def ip_string_key)

lemma uses_override:
  assumes "page_ok as" "page_ok bs" "map ad_key as = map ad_key bs"
  shows "uses k as = uses k bs"
  using assms
proof (induction as arbitrary: bs)
  case (Cons a as)
  then obtain b bs' where b: "bs = b # bs'" by (cases bs) auto
  with Cons.prems have "ip_string (ad_ip a) = ip_string (ad_ip b)" by (auto simp: page_ok_def ad_key_def ip_string_eq)
  with Cons b show ?case by (auto simp: page_ok_def)
qed simp

section \<open>Association lists\<close>

lemma advs_of_update: "map_of (AList.update nm as m) = (map_of m)(nm \<mapsto> as)"
  by (simp add: update_conv')

lemma uses_update:
  "distinct (map fst m) \<Longrightarrow> uses k (concat (map snd (AList.update nm as m))) + uses k (case map_of m nm of None \<Rightarrow> [] | Some bs \<Rightarrow> bs)
     = uses k (concat (map snd m)) + uses k as"
  by (induction m) (auto simp: map_of_eq_None_iff)

lemma uses_delete:
  "distinct (map fst m) \<Longrightarrow> uses k (concat (map snd (AList.delete nm m))) + uses k (case map_of m nm of None \<Rightarrow> [] | Some bs \<Rightarrow> bs)
     = uses k (concat (map snd m))"
proof (induction m)
  case (Cons p m)
  obtain n bs where p: "p = (n, bs)" by (cases p)
  show ?case
  proof (cases "n = nm")
    case True
    with Cons.prems p have "nm \<notin> fst ` set m" by auto
    then have "AList.delete nm m = m" by (simp add: delete_id)
    with True p Cons show ?thesis by (auto simp: map_of_eq_None_iff)
  next
    case False
    with p Cons show ?thesis by auto
  qed
qed simp

lemma page_ok_advs: "announce_ok an \<Longrightarrow> page_ok (advs_of an nm)"
  by (auto simp: announce_ok_def advs_of_def page_ok_def split: option.splits dest!: map_of_SomeD)

lemma refcnt_uses:
  assumes "announce_ok an"
  shows "an_refcnt an k = int (uses k (concat (map snd (an_ips an))))"
  using assms by (simp add: announce_ok_def)

section \<open>What a change of the responders keeps\<close>

definition same_book :: "announce \<Rightarrow> announce \<Rightarrow> bool" where
  "same_book a b \<longleftrightarrow> an_ips a = an_ips b \<and> an_refcnt a = an_refcnt b"

lemma same_book_ok: "same_book a b \<Longrightarrow> announce_ok a \<longleftrightarrow> announce_ok b"
  and same_book_of: "same_book a b \<Longrightarrow> book_of a = book_of b"
  by (simp_all add: same_book_def announce_ok_def book_of_def advs_of_def fun_eq_iff)

lemma returns_for_ndps:
  assumes "\<And>n w. returns (f n) w (\<lambda>_ _. True)"
  shows "returns (for_ndps ord f an) w (\<lambda>an' _. same_book an' an \<and> an_spam an' = an_spam an)"
  unfolding for_ndps_def
proof (rule ends_for_each)
  fix i and a :: announce and w
  assume "same_book a an \<and> an_spam a = an_spam an"
  then show "returns (case map_of (an_ndps a) i of None \<Rightarrow> ret a
      | Some n \<Rightarrow> bindp (f n) (\<lambda>(n', _). ret (a\<lparr>an_ndps := AList.update i n' (an_ndps a)\<rparr>))) w
      (\<lambda>an' _. same_book an' an \<and> an_spam an' = an_spam an)"
    by (auto split: option.split intro!: ends_ret ends_bindp [OF assms] simp: same_book_def)
qed (simp add: same_book_def)

text \<open>The network answers every call, with success or with an error.\<close>

definition answers :: "('w, string, 'a) prog \<Rightarrow> bool" where
  "answers m \<longleftrightarrow> (\<forall>w. fst (m w) \<notin> {Panic, Diverge})"

definition calm :: "'w l2_net \<Rightarrow> bool" where
  "calm net \<longleftrightarrow> (\<forall>ifi. answers (net_arp_dial net ifi) \<and> answers (net_ndp_dial net ifi)) \<and>
     (\<forall>i g. answers (net_join net i g) \<and> answers (net_leave net i g)) \<and> (\<forall>i. answers (net_arp_close net i) \<and> answers (net_ndp_close net i))"

lemma returns_answers:
  assumes "answers m" "\<And>r w'. Q r w'"
  shows "returns (attempt m) w Q"
proof -
  have "fst (m w) \<notin> {Panic, Diverge}" using assms(1) by (simp add: answers_def)
  then show ?thesis using assms(2) by (cases "m w"; cases "fst (m w)") (auto simp: ends_def attempt_def)
qed

lemma returns_Watch: "calm net \<Longrightarrow> returns (Watch net ip n) w (\<lambda>_ _. True)"
  and returns_Unwatch: "calm net \<Longrightarrow> returns (Unwatch net ip n) w (\<lambda>_ _. True)"
  unfolding Watch_def Unwatch_def Let_def
  by (auto split: option.split sum.split intro!: ends_ret ends_bindp [OF returns_answers] simp: calm_def)

section \<open>Set and delete\<close>

lemma advs_of_simps:
  "advs_of (an\<lparr>an_ips := AList.update nm as (an_ips an)\<rparr>) x = (if x = nm then as else advs_of an x)"
  "advs_of (an\<lparr>an_ips := AList.delete nm (an_ips an)\<rparr>) x = (if x = nm then [] else advs_of an x)"
  by (simp_all add: advs_of_def advs_of_update delete_conv')

lemma set_pages_update:
  "\<forall>(n, as) \<in> set m. page_ok as \<Longrightarrow> page_ok bs \<Longrightarrow> \<forall>(n, as) \<in> set (AList.update nm bs m). page_ok as"
  by (induction m) auto

lemma announce_ok_update:
  assumes "announce_ok an" "page_ok as" "\<And>k. cnt k + int (uses k (advs_of an nm)) = an_refcnt an k + int (uses k as)"
  shows "announce_ok (an\<lparr>an_ips := AList.update nm as (an_ips an), an_refcnt := cnt\<rparr>)"
proof -
  have "cnt k = int (uses k (concat (map snd (AList.update nm as (an_ips an)))))" for k
    using uses_update [of "an_ips an" k nm as] assms(1) assms(3) [of k]
    by (simp add: announce_ok_def advs_of_def)
  then show ?thesis using assms(1,2) set_pages_update [of "an_ips an" as nm]
    by (simp add: announce_ok_def distinct_update)
qed

lemma doSpam_book: "same_book (doSpam adv a) a" "an_spam (doSpam adv a) = an_spam a @ [adv]"
  by (simp_all add: same_book_def doSpam_def)

lemma returns_SetBalancer:
  assumes "calm net" "announce_ok an" "wf_ip (ad_ip adv)"
  shows "returns (SetBalancer net ord nm adv an) w (\<lambda>an' _. announce_ok an' \<and> an_spam an' = an_spam an @ [adv] \<and>
    book_of an' = (book_of an)((nm, ad_key adv) \<mapsto> adv))"
proof (cases "override adv (advs_of an nm)")
  case None
  let ?k = "ip_string (ad_ip adv)" and ?as = "advs_of an nm @ [adv]"
  let ?an = "an\<lparr>an_ips := AList.update nm ?as (an_ips an), an_refcnt := (an_refcnt an)(?k := an_refcnt an ?k + 1)\<rparr>"
  have new: "ad_key adv \<notin> ad_key ` set (advs_of an nm)"
    using override_None [OF None] page_ok_advs [OF assms(2)] assms(3) by blast
  have ok: "announce_ok ?an"
    using assms new page_ok_advs [OF assms(2), of nm] by (intro announce_ok_update) (auto simp: page_ok_def)
  have book: "book_of ?an = (book_of an)((nm, ad_key adv) \<mapsto> adv)"
    using new by (auto simp: book_of_def fun_eq_iff advs_of_def advs_of_update page_append split: option.split)
  have watched: "returns (for_ndps ord (Watch net (ad_ip adv)) ?an) w (\<lambda>an' _. same_book an' ?an \<and> an_spam an' = an_spam ?an)"
    by (rule returns_for_ndps) (rule returns_Watch [OF assms(1)])
  have finish: "returns (ret (doSpam adv a)) v (\<lambda>an' _. announce_ok an' \<and> an_spam an' = an_spam an @ [adv] \<and>
      book_of an' = (book_of an)((nm, ad_key adv) \<mapsto> adv))" if "same_book a ?an \<and> an_spam a = an_spam ?an" for a v
    using that ok book doSpam_book [of adv a] same_book_ok [of "doSpam adv a" ?an] same_book_of [of "doSpam adv a" ?an]
    by (intro ends_ret) (auto simp: same_book_def)
  show ?thesis
  proof (cases "an_refcnt ?an ?k > 1")
    case True
    then show ?thesis using finish [of ?an w] by (simp add: SetBalancer_def None Let_def same_book_def)
  next
    case False
    then show ?thesis using ends_bindp [OF watched finish] by (simp add: SetBalancer_def None Let_def)
  qed
next
  case (Some as)
  note over = override_Some [OF Some page_ok_advs [OF assms(2)] assms(3)]
  have "announce_ok (an\<lparr>an_ips := AList.update nm as (an_ips an), an_refcnt := an_refcnt an\<rparr>)"
    using over uses_override [OF page_ok_advs [OF assms(2)], of as nm] by (intro announce_ok_update assms(2)) auto
  moreover have "book_of (an\<lparr>an_ips := AList.update nm as (an_ips an)\<rparr>) = (book_of an)((nm, ad_key adv) \<mapsto> adv)"
    using over by (auto simp: fun_eq_iff book_of_def advs_of_simps)
  ultimately show ?thesis using Some same_book_ok [OF doSpam_book(1)] same_book_of [OF doSpam_book(1)]
    by (auto simp: SetBalancer_def doSpam_book intro!: ends_ret)
qed

lemma returns_drop_advs:
  assumes "calm net"
  shows "returns (for_each (drop_adv net ord) advs a) w (\<lambda>a' _. an_ips a' = an_ips a \<and> an_spam a' = an_spam a \<and>
    (\<forall>k. an_refcnt a' k = an_refcnt a k - int (uses k advs)))"
proof (induction advs arbitrary: a w)
  case Nil
  show ?case by (simp add: ends_ret)
next
  case (Cons cur advs)
  let ?k = "ip_string (ad_ip cur)"
  let ?a = "a\<lparr>an_refcnt := (an_refcnt a)(?k := an_refcnt a ?k - 1)\<rparr>"
  have "returns (drop_adv net ord cur a) w (\<lambda>a' _. same_book a' ?a \<and> an_spam a' = an_spam a)"
    using returns_for_ndps [where f = "Unwatch net (ad_ip cur)" and an = ?a, OF returns_Unwatch [OF assms]]
    by (auto simp: drop_adv_def Let_def same_book_def intro!: ends_ret)
  then show ?case
    unfolding for_each.simps
    by (rule ends_bindp) (rule ends_conseq [OF Cons], auto simp: same_book_def)
qed

lemma returns_DeleteBalancer:
  assumes "calm net" "announce_ok an"
  shows "returns (DeleteBalancer net ord nm an) w (\<lambda>an' _. announce_ok an' \<and> an_spam an' = an_spam an \<and>
    book_of an' = (\<lambda>(x, y). if x = nm then None else book_of an (x, y)))"
proof (cases "map_of (an_ips an) nm")
  case None
  then have "book_of an = (\<lambda>(x, y). if x = nm then None else book_of an (x, y))"
    by (auto simp: book_of_def advs_of_def fun_eq_iff)
  with None assms show ?thesis by (auto simp: DeleteBalancer_def intro!: ends_ret)
next
  case (Some advs)
  let ?a = "an\<lparr>an_ips := AList.delete nm (an_ips an)\<rparr>"
  have "announce_ok a'" if "an_ips a' = AList.delete nm (an_ips an)" "\<forall>k. an_refcnt a' k = an_refcnt an k - int (uses k advs)" for a'
  proof -
    have "an_refcnt a' k = int (uses k (concat (map snd (AList.delete nm (an_ips an)))))" for k
      using that(2) uses_delete [of "an_ips an" k nm] refcnt_uses [OF assms(2), of k] assms(2) Some
      by (simp add: announce_ok_def)
    then show ?thesis using that(1) assms(2) by (auto simp: announce_ok_def AList.delete_eq distinct_map_filter)
  qed
  moreover have "book_of a' = (\<lambda>(x, y). if x = nm then None else book_of an (x, y))" if "an_ips a' = AList.delete nm (an_ips an)" for a'
    using that by (simp add: book_of_def advs_of_def fun_eq_iff delete_conv')
  ultimately show ?thesis
    using returns_drop_advs [OF assms(1), of ord advs ?a w] Some by (auto simp: DeleteBalancer_def elim!: ends_conseq)
qed

section \<open>Reading the book\<close>

lemma announce_loop_spec:
  "announce_loop ip intf b advs =
     (if \<exists>i \<in> set advs. ip_equal (ad_ip i) ip \<and> matchInterface (Some i) intf then dropReasonNone
      else if b \<or> (\<exists>i \<in> set advs. ip_equal (ad_ip i) ip) then dropReasonNotMatchInterface else dropReasonAnnounceIP)"
  by (induction advs arbitrary: b) auto

lemma in_advs: "a \<in> set (advs_of an nm) \<longleftrightarrow> (\<exists>advs. map_of (an_ips an) nm = Some advs \<and> a \<in> set advs)"
  by (cases "map_of (an_ips an) nm") (simp_all add: advs_of_def)

lemma set_all_advs:
  assumes "map_iteration ord" "announce_ok an"
  shows "a \<in> set (concat (range_values ord (an_ips an))) \<longleftrightarrow> (\<exists>nm. a \<in> set (advs_of an nm))"
  using map_iteration.set_range_values [OF assms(1), of "an_ips an"]
  by (auto simp: in_advs ran_def)

lemma book_Some: "announce_ok an \<Longrightarrow> book_of an (nm, x) = Some a \<longleftrightarrow> a \<in> set (advs_of an nm) \<and> ad_key a = x"
  using page_ok_advs [of an nm] by (auto simp: book_of_def page_ok_def page_Some)

lemma shouldAnnounce_book:
  assumes "map_iteration ord" "announce_ok an" "wf_ip ip"
  shows "shouldAnnounce ord an ip intf =
    (if \<exists>nm a. book_of an (nm, to16 ip) = Some a \<and> matchInterface (Some a) intf then dropReasonNone
     else if \<exists>nm. book_of an (nm, to16 ip) \<noteq> None then dropReasonNotMatchInterface else dropReasonAnnounceIP)"
proof -
  have "ip_equal (ad_ip a) ip \<longleftrightarrow> ad_key a = to16 ip" if "a \<in> set (advs_of an nm)" for a nm
    using that page_ok_advs [OF assms(2), of nm] assms(3) by (simp add: page_ok_def ip_equal_wf ad_key_def)
  then have "(\<exists>a \<in> set (concat (range_values ord (an_ips an))). ip_equal (ad_ip a) ip \<and> P a) \<longleftrightarrow> (\<exists>nm a. book_of an (nm, to16 ip) = Some a \<and> P a)" for P
    using set_all_advs [OF assms(1,2)] book_Some [OF assms(2)] by blast
  from this [of "\<lambda>_. True"] this show ?thesis
    unfolding shouldAnnounce_def announce_loop_spec by (auto simp del: set_concat)
qed

lemma keys_filter: "set (map fst (filter (\<lambda>(nm, advs). Q advs) m)) = {nm. \<exists>advs. (nm, advs) \<in> set m \<and> Q advs}"
  by force

lemma refcnt_book:
  assumes "announce_ok an" "wf_ip ip"
  shows "an_refcnt an (ip_string ip) = int (card {nm. book_of an (nm, to16 ip) \<noteq> None})"
proof -
  let ?P = "\<lambda>(nm, advs). to16 ip \<in> ad_key ` set advs"
  have dist: "distinct (map fst (an_ips an))" and ok: "\<forall>p \<in> set (an_ips an). page_ok (snd p)"
    using assms(1) by (auto simp: announce_ok_def)
  have "uses (ip_string ip) (concat (map snd m)) = length (filter ?P m)" if "\<forall>p \<in> set m. page_ok (snd p)" for m
    using that by (induction m) (auto simp: uses_page [OF _ assms(2)])
  then have "an_refcnt an (ip_string ip) = int (length (map fst (filter ?P (an_ips an))))"
    using ok refcnt_uses [OF assms(1)] by simp
  moreover have "distinct (map fst (filter ?P (an_ips an)))" using dist by (rule distinct_map_filter)
  moreover have "set (map fst (filter ?P (an_ips an))) = {nm. book_of an (nm, to16 ip) \<noteq> None}"
  proof -
    have "book_of an (nm, x) \<noteq> None \<longleftrightarrow> (\<exists>a \<in> set (advs_of an nm). ad_key a = x)" for nm x
      using book_Some [OF assms(1)] by auto
    then have "{nm. book_of an (nm, to16 ip) \<noteq> None} = {nm. \<exists>advs. (nm, advs) \<in> set (an_ips an) \<and> to16 ip \<in> ad_key ` set advs}"
      using dist by (auto simp: in_advs) (metis imageI)
    then show ?thesis by (simp only: keys_filter)
  qed
  ultimately show ?thesis by (metis distinct_card)
qed

section \<open>Scanning keeps the book\<close>

definition readable :: "sys_view \<Rightarrow> bool" where
  "readable sys \<longleftrightarrow> (\<forall>nm. sv_flags sys nm \<noteq> Some [])"

lemma answers_then: "answers m \<Longrightarrow> answers (bindp (or_fail g m) (\<lambda>_. ret x))"
proof -
  have "fst (bindp (or_fail g m) (\<lambda>_. ret x) w) \<notin> {Panic, Diverge}" if "fst (m w) \<notin> {Panic, Diverge}" for w
    using that by (cases "m w"; cases "fst (m w)") (auto simp: bindp_def or_fail_def ret_def)
  then show "answers m \<Longrightarrow> answers (bindp (or_fail g m) (\<lambda>_. ret x))" by (simp add: answers_def)
qed

lemma answers_new:
  "calm net \<Longrightarrow> answers (newARPResponder net ifi)" "calm net \<Longrightarrow> answers (newNDPResponder net ifi)"
  by (simp_all add: calm_def newARPResponder_def newNDPResponder_def answers_then)

lemma returns_Close:
  assumes "calm net"
  shows "returns (arp_Close net r) w (\<lambda>_ _. True)" "returns (ndp_Close net n) w (\<lambda>_ _. True)"
  unfolding arp_Close_def ndp_Close_def using assms
  by (auto intro!: ends_ret ends_bindp [OF returns_answers [where Q = "\<lambda>_ _. True"]] simp: calm_def)

abbreviation beside :: "announce \<Rightarrow> announce \<Rightarrow> bool" where
  "beside a b \<equiv> same_book a b \<and> an_spam a = an_spam b"

lemma returns_add:
  assumes "calm net" "beside (sc_ann sc) an"
  shows "returns (add_arp net ifi sc) w (\<lambda>(_, sc') _. beside (sc_ann sc') an)" "returns (add_ndp net ifi sc) w (\<lambda>sc' _. beside (sc_ann sc') an)"
  unfolding add_arp_def add_ndp_def using assms
  by (auto intro!: ends_ret ends_bindp [OF returns_answers [OF answers_new(1) [OF assms(1)], where Q = "\<lambda>_ _. True"]]
      ends_bindp [OF returns_answers [OF answers_new(2) [OF assms(1)], where Q = "\<lambda>_ _. True"]] simp: same_book_def split: sum.split)

lemma ends_scan_iface:
  assumes "calm net" "readable sys" "beside (sc_ann sc) an"
  shows "ends (scan_iface net sys ifi sc) w (\<lambda>sc' _. beside (sc_ann sc') an) (\<lambda>a _. beside a an)"
proof -
  have "sv_flags sys (if_name ifi) \<noteq> Some []" using assms(2) by (simp add: readable_def)
  then obtain noarp where flags: "no_arp sys (if_name ifi) = (Ok noarp :: (announce, bool) outcome)"
    by (cases "sv_flags sys (if_name ifi)") (auto simp: no_arp_def)
  have rest: "ends (bindp (add_arp net ifi sc') (\<lambda>(go, sc). if go then add_ndp net ifi sc else ret sc)) v
      (\<lambda>sc' _. beside (sc_ann sc') an) (\<lambda>a _. beside a an)" if "beside (sc_ann sc') an" for sc' v
    by (rule ends_bindp, rule ends_conseq [OF returns_add(1) [OF assms(1) that]], assumption, simp)
      (auto intro!: ends_ret ends_conseq [OF returns_add(2) [OF assms(1)]])
  show ?thesis
    using assms(3) unfolding scan_iface_def Let_def
    by (auto split: option.split intro!: ends_ret ends_fail rest simp: flags)
qed

lemma returns_prune:
  assumes "calm net" "beside a an"
  shows "returns (prune_arps net keep ord a) w (\<lambda>a' _. beside a' an)" "returns (prune_ndps net keep ord a) w (\<lambda>a' _. beside a' an)"
  unfolding prune_arps_def prune_ndps_def using assms
  by (auto intro!: ends_for_each ends_ret ends_bindp [OF returns_Close(1) [OF assms(1)]]
      ends_bindp [OF returns_Close(2) [OF assms(1)]] simp: same_book_def split: option.split)

lemma returns_updateInterfaces:
  assumes "calm net" "readable sys"
  shows "returns (updateInterfaces net sys ordA ordN ifs an) w (\<lambda>an' _. beside an' an)"
proof (cases ifs)
  case (Some intfs)
  have start: "ends (for_each (scan_iface net sys) intfs \<lparr>sc_ann = an, sc_arp = [], sc_ndp = [], sc_ifs = []\<rparr>) w
      (\<lambda>sc _. beside (sc_ann sc) an) (\<lambda>a _. beside a an)"
    by (rule ends_for_each, rule ends_scan_iface [OF assms], simp) (simp add: same_book_def)
  have "returns (bindp (prune_arps net (sc_arp sc) ordA ((sc_ann sc)\<lparr>an_interfaces := sc_ifs sc\<rparr>)) (prune_ndps net (sc_ndp sc) ordN)) v
      (\<lambda>an' _. beside an' an)" if "beside (sc_ann sc) an" for sc v
    by (rule ends_bindp [OF returns_prune(1) [OF assms(1)] returns_prune(2) [OF assms(1)]]) (use that in \<open>auto simp: same_book_def\<close>)
  then show ?thesis unfolding updateInterfaces_def Some option.case
    by (intro ends_bindp [where R = "\<lambda>r _. case r of Inl a \<Rightarrow> beside a an | Inr sc \<Rightarrow> beside (sc_ann sc) an"] ends_attempt)
      (auto intro: ends_conseq [OF start] ends_ret split: sum.splits)
qed (simp add: updateInterfaces_def ends_ret same_book_def)

section \<open>Runs\<close>

datatype an_op =
    SetOp string ip_advertisement
  | DelOp string
  | ScanOp sys_view "iface list option"

fun an_step :: "'w l2_net \<Rightarrow> int iter_order \<Rightarrow> an_op \<Rightarrow> announce \<Rightarrow> ('w, 'e, announce) prog" where
  "an_step net ord (SetOp nm adv) an = SetBalancer net ord nm adv an"
| "an_step net ord (DelOp nm) an = DeleteBalancer net ord nm an"
| "an_step net ord (ScanOp sys ifs) an = updateInterfaces net sys ord ord ifs an"

fun book_step :: "an_op \<Rightarrow> (string \<times> netip \<rightharpoonup> ip_advertisement) \<Rightarrow> string \<times> netip \<rightharpoonup> ip_advertisement" where
  "book_step (SetOp nm adv) b = b((nm, ad_key adv) \<mapsto> adv)"
| "book_step (DelOp nm) b = (\<lambda>(x, y). if x = nm then None else b (x, y))"
| "book_step (ScanOp sys ifs) b = b"

fun op_ok :: "an_op \<Rightarrow> bool" where
  "op_ok (SetOp nm adv) = wf_ip (ad_ip adv)"
| "op_ok (DelOp nm) = True"
| "op_ok (ScanOp sys ifs) = readable sys"

lemma returns_an_step:
  assumes "calm net" "announce_ok an" "op_ok p"
  shows "returns (an_step net ord p an) w (\<lambda>an' _. announce_ok an' \<and> book_of an' = book_step p (book_of an))"
proof (cases p)
  case (SetOp nm adv)
  with assms show ?thesis by (auto intro!: ends_conseq [OF returns_SetBalancer])
next
  case (DelOp nm)
  with assms show ?thesis by (auto intro!: ends_conseq [OF returns_DeleteBalancer])
next
  case (ScanOp sys ifs)
  with assms show ?thesis
    by (auto intro!: ends_conseq [OF returns_updateInterfaces] simp: same_book_ok same_book_of)
qed

lemma returns_an_run:
  "calm net \<Longrightarrow> announce_ok an \<Longrightarrow> list_all op_ok ops \<Longrightarrow>
    returns (for_each (an_step net ord) ops an) w (\<lambda>an' _. announce_ok an' \<and> book_of an' = fold book_step ops (book_of an))"
proof (induction ops arbitrary: an w)
  case (Cons p ops)
  then show ?case
    by (auto intro!: ends_bindp [OF returns_an_step [of net an p]] ends_conseq [OF Cons.IH])
qed (simp add: ends_ret)

lemma New_ok: "announce_ok New" "book_of New = Map.empty"
  by (simp_all add: announce_ok_def New_def book_of_def advs_of_def fun_eq_iff uses_def)

end
