(* ===== verification/AnnounceGroups.thy ===== *)
theory AnnounceGroups
  imports AnnounceBook
begin

text \<open>
  The multicast groups of the NDP responders. While joining and leaving succeed and the responders stay, each responder counts
  for every group the announced addresses in it; a responder that comes later than the address, or whose join failed,
  counts below zero after the address has gone and does not join the group again.
\<close>

definition reliable :: "'w l2_net \<Rightarrow> bool" where
  "reliable net \<longleftrightarrow> (\<forall>i g w. (\<exists>w'. net_join net i g w = (Ok (), w')) \<and> (\<exists>w'. net_leave net i g w = (Ok (), w')))"

definition group_of :: "netip \<Rightarrow> string option" where
  "group_of ip = map_option ip_string (SolicitedNodeMulticast ip)"

definition is_v6 :: "netip \<Rightarrow> bool" where
  "is_v6 ip \<longleftrightarrow> wf_ip ip \<and> to4 ip = nil_ip"

definition live :: "announce \<Rightarrow> netip set" where
  "live an = {x. is_v6 x \<and> an_refcnt an (ip_string x) > 0}"

definition groups_ok :: "announce \<Rightarrow> bool" where
  "groups_ok an \<longleftrightarrow> finite (live an) \<and> distinct (map fst (an_ndps an)) \<and>
     (\<forall>(i, n) \<in> set (an_ndps an). \<forall>g. nr_groups n g = int (card {x \<in> live an. group_of x = Some g}))"

lemma is_v6_len: "is_v6 ip \<Longrightarrow> length ip = 16 \<and> to16 ip = ip"
  by (auto simp: is_v6_def wf_ip_def to4_def to16_def split: if_splits)

lemma is_v6_string: "is_v6 x \<Longrightarrow> wf_ip ip \<Longrightarrow> ip_string x = ip_string ip \<longleftrightarrow> x = ip"
proof -
  assume x: "is_v6 x" and ip: "wf_ip ip"
  have "x = to16 ip \<longleftrightarrow> x = ip"
  proof (cases "length ip = 16")
    case False
    with ip have four: "length ip = 4" by (simp add: wf_ip_def)
    then have "to4 ip = ip" "ip \<noteq> nil_ip" by (auto simp: to4_def)
    then have "to4 (to16 ip) \<noteq> nil_ip" by (simp add: to4_to16)
    with x four is_v6_len [OF x] show ?thesis by (auto simp: is_v6_def)
  qed (simp add: to16_def)
  with x ip is_v6_len [OF x] show "ip_string x = ip_string ip \<longleftrightarrow> x = ip" by (simp add: is_v6_def ip_string_eq)
qed

lemma group_of_v6: "is_v6 ip \<Longrightarrow> \<exists>grp. SolicitedNodeMulticast ip = Some grp \<and> group_of ip = Some (ip_string grp)"
  using is_v6_len [of ip] by (auto simp: SolicitedNodeMulticast_def group_of_def is_v6_def)

section \<open>A loop over the responders\<close>

definition count_up :: "netip \<Rightarrow> int \<Rightarrow> ndp_responder \<Rightarrow> ndp_responder" where
  "count_up ip d n = (if to4 ip \<noteq> nil_ip then n else case group_of ip of
     None \<Rightarrow> n
   | Some g \<Rightarrow> n\<lparr>nr_groups := (nr_groups n)(g := nr_groups n g + d)\<rparr>)"

lemma Watch_count:
  assumes "reliable net"
  shows "\<exists>e w'. Watch net ip n w = (Ok (count_up ip 1 n, e), w')" "\<exists>e w'. Unwatch net ip n w = (Ok (count_up ip (-1) n, e), w')"
proof -
  let ?g = "the (SolicitedNodeMulticast ip)"
  obtain v u where calls: "net_join net (nr_intf n) ?g w = (Ok (), v)" "net_leave net (nr_intf n) ?g w = (Ok (), u)"
    using assms unfolding reliable_def by meson
  have "Watch net ip n w \<in> {(Ok (count_up ip 1 n, e), w') | e w'. True}"
  proof (cases "SolicitedNodeMulticast ip")
    case (Some g)
    note call = calls(1) [unfolded Some option.sel]
    show ?thesis
      by (simp add: Watch_def count_up_def group_of_def Let_def ret_def bindp_def attempt_def call Some)
  qed (auto simp: Watch_def count_up_def group_of_def ret_def)
  moreover have "Unwatch net ip n w \<in> {(Ok (count_up ip (-1) n, e), w') | e w'. True}"
  proof (cases "SolicitedNodeMulticast ip")
    case (Some g)
    note call = calls(2) [unfolded Some option.sel]
    show ?thesis
      by (simp add: Unwatch_def count_up_def group_of_def Let_def ret_def bindp_def attempt_def call Some)
  qed (auto simp: Unwatch_def count_up_def group_of_def ret_def)
  ultimately show "\<exists>e w'. Watch net ip n w = (Ok (count_up ip 1 n, e), w')" "\<exists>e w'. Unwatch net ip n w = (Ok (count_up ip (-1) n, e), w')"
    by auto
qed

lemma update_at:
  "distinct (map fst m) \<Longrightarrow> map_of m i = Some n \<Longrightarrow> AList.update i v m = map (\<lambda>(j, x). (j, if j = i then v else x)) m"
proof (induction m)
  case (Cons p m)
  have "map (\<lambda>(j, x). (j, if j = i then v else x)) m = m" if "i \<notin> fst ` set m"
    using that by (intro map_idI) (auto simp: image_iff)
  with Cons show ?case by (cases p) auto
qed simp

lemma for_ndps_all:
  assumes "\<And>n w. \<exists>e w'. f n w = (Ok (u n, e), w')" "map_iteration ord" "distinct (map fst (an_ndps an))"
  shows "returns (for_ndps ord f an) w (\<lambda>an' _. an' = an\<lparr>an_ndps := map (apsnd u) (an_ndps an)\<rparr>)"
proof -
  let ?body = "\<lambda>i an. case map_of (an_ndps an) i of None \<Rightarrow> ret an
      | Some n \<Rightarrow> bindp (f n) (\<lambda>(n', _). ret (an\<lparr>an_ndps := AList.update i n' (an_ndps an)\<rparr>))"
  have loop: "returns (for_each ?body ks a) w (\<lambda>a' _. a' = a\<lparr>an_ndps := map (\<lambda>(i, n). (i, if i \<in> set ks then u n else n)) (an_ndps a)\<rparr>)"
    if "distinct ks" "set ks \<subseteq> fst ` set (an_ndps a)" "distinct (map fst (an_ndps a))" for ks a w
    using that
  proof (induction ks arbitrary: a w)
    case Nil
    have "map (\<lambda>(i, n). (i, n)) (an_ndps a) = an_ndps a" by (simp add: case_prod_eta)
    then show ?case by (simp add: ends_ret)
  next
    case (Cons k ks)
    then obtain n where n: "map_of (an_ndps a) k = Some n" by (metis insert_subset list.simps(15) map_of_eq_None_iff not_None_eq)
    let ?a = "a\<lparr>an_ndps := AList.update k (u n) (an_ndps a)\<rparr>"
    have ups: "AList.update k (u n) (an_ndps a) = map (\<lambda>(j, x). (j, if j = k then u n else x)) (an_ndps a)"
      by (rule update_at [OF Cons.prems(3) n])
    have first: "returns (?body k a) w (\<lambda>a' _. a' = ?a)"
      using assms(1) [of n w] n by (auto simp: ends_def bindp_def ret_def)
    have keys: "map fst (an_ndps ?a) = map fst (an_ndps a)" by (simp add: ups comp_def case_prod_beta)
    have rest: "returns (for_each ?body ks ?a) v (\<lambda>a' _. a' = ?a\<lparr>an_ndps := map (\<lambda>(i, n). (i, if i \<in> set ks then u n else n)) (an_ndps ?a)\<rparr>)" for v
    proof (rule Cons.IH)
      have "fst ` set (an_ndps ?a) = fst ` set (an_ndps a)" using keys by (metis set_map)
      then show "set ks \<subseteq> fst ` set (an_ndps ?a)" using Cons.prems(2) by simp
    qed (use Cons.prems(1,3) keys in simp_all)
    have "map (\<lambda>(i, x). (i, if i \<in> set ks then u x else x)) (an_ndps ?a) = map (\<lambda>(i, x). (i, if i \<in> set (k # ks) then u x else x)) (an_ndps a)"
    proof -
      have "x = n" if "(k, x) \<in> set (an_ndps a)" for x
        using map_of_is_SomeI [OF Cons.prems(3) that] n by simp
      moreover have "an_ndps ?a = map (\<lambda>(j, x). (j, if j = k then u n else x)) (an_ndps a)" using ups by simp
      ultimately show ?thesis using Cons.prems(1) by (simp only: map_map) (auto simp: comp_def intro!: map_cong)
    qed
    then show ?case using ends_bindp [OF first, where Q = "\<lambda>a' _. a' = a\<lparr>an_ndps := map (\<lambda>(i, n). (i, if i \<in> set (k # ks) then u n else n)) (an_ndps a)\<rparr>"]
        rest by simp
  qed
  have visits: "distinct (ord (map fst (an_ndps an)))" "set (ord (map fst (an_ndps an))) = fst ` set (an_ndps an)"
    using assms(2,3) by (simp_all add: map_iteration.distinct_visits map_iteration.set_visits)
  have all: "map (\<lambda>(i, n). (i, if i \<in> set (ord (map fst (an_ndps an))) then u n else n)) (an_ndps an) = map (apsnd u) (an_ndps an)"
    unfolding visits(2) by (rule map_cong) (force simp: image_iff)+
  show ?thesis unfolding for_ndps_def all [symmetric] by (rule loop) (simp_all add: visits assms(3))
qed

section \<open>The counts follow the announced addresses\<close>

lemma groups_ok_cong: "an_refcnt a = an_refcnt b \<Longrightarrow> an_ndps a = an_ndps b \<Longrightarrow> groups_ok a \<longleftrightarrow> groups_ok b"
  by (simp add: groups_ok_def live_def)

lemma live_upd:
  assumes "wf_ip ip"
  shows "live (an\<lparr>an_refcnt := (an_refcnt an)(ip_string ip := c)\<rparr>) =
    (if is_v6 ip then if c > 0 then insert ip (live an) else live an - {ip} else live an)"
  using is_v6_string [OF _ assms] by (auto simp: live_def)

lemma groups_ok_same:
  assumes "groups_ok an" "wf_ip ip" "an_refcnt an (ip_string ip) > 0" "c > 0"
  shows "groups_ok (an\<lparr>an_refcnt := (an_refcnt an)(ip_string ip := c)\<rparr>)"
proof -
  have "live (an\<lparr>an_refcnt := (an_refcnt an)(ip_string ip := c)\<rparr>) = live an"
    using assms by (auto simp: live_upd) (simp add: live_def)
  then show ?thesis using assms(1) by (simp add: groups_ok_def)
qed

lemma groups_ok_count:
  assumes "groups_ok an" "wf_ip ip" "an_refcnt an (ip_string ip) = a" "(a, c) \<in> {(0, 1), (1, 0)}"
  shows "groups_ok (an\<lparr>an_refcnt := (an_refcnt an)(ip_string ip := c), an_ndps := map (apsnd (count_up ip (c - a))) (an_ndps an)\<rparr>)"
    (is "groups_ok ?an")
proof -
  let ?in = "\<lambda>L g. {x \<in> L. group_of x = Some g}"
  have live: "live ?an = (if is_v6 ip then if c > 0 then insert ip (live an) else live an - {ip} else live an)"
    using live_upd [OF assms(2), of an c] by (simp add: live_def)
  have fin: "finite (live an)" using assms(1) by (simp add: groups_ok_def)
  have "nr_groups (count_up ip (c - a) n) g = int (card (?in (live ?an) g))" if "(i, n) \<in> set (an_ndps an)" for i n g
  proof (cases "is_v6 ip")
    case False
    then have "to4 ip \<noteq> nil_ip" using assms(2) by (simp add: is_v6_def)
    with False that assms(1) show ?thesis by (auto simp: live count_up_def groups_ok_def)
  next
    case True
    then obtain h where h: "group_of ip = Some h" using group_of_v6 by blast
    have "?in (insert ip L) g = (if g = h then insert ip (?in L g) else ?in L g)" "?in (L - {ip}) g = (if g = h then ?in L g - {ip} else ?in L g)" for L
      using h by auto
    moreover have "ip \<in> live an \<longleftrightarrow> a = 1" using True assms(3,4) by (auto simp: live_def)
    moreover have "nr_groups n g = int (card (?in (live an) g))" using that assms(1) by (auto simp: groups_ok_def)
    moreover have "card (?in (live an) h) > 0" if "ip \<in> live an" using that fin h by (auto simp: card_gt_0_iff)
    ultimately show ?thesis using True fin h assms(4) by (auto simp: live count_up_def is_v6_def)
  qed
  moreover have "map fst (map (apsnd (count_up ip (c - a))) (an_ndps an)) = map fst (an_ndps an)" by simp
  moreover have "finite (live ?an)" using live fin by simp
  ultimately show ?thesis using assms(1) by (auto simp: groups_ok_def)
qed

lemma returns_Set_groups:
  assumes "reliable net" "map_iteration ord" "announce_ok an" "wf_ip (ad_ip adv)" "groups_ok an"
  shows "returns (SetBalancer net ord nm adv an) w (\<lambda>an' _. groups_ok an')"
proof (cases "override adv (advs_of an nm)")
  case None
  let ?k = "ip_string (ad_ip adv)"
  let ?an = "an\<lparr>an_ips := AList.update nm (advs_of an nm @ [adv]) (an_ips an), an_refcnt := (an_refcnt an)(?k := an_refcnt an ?k + 1)\<rparr>"
  have nonneg: "an_refcnt an ?k \<ge> 0" using refcnt_uses [OF assms(3)] by simp
  have spam: "groups_ok (doSpam adv a) \<longleftrightarrow> groups_ok a" for a by (rule groups_ok_cong) (simp_all add: doSpam_def)
  show ?thesis
  proof (cases "an_refcnt an ?k > 0")
    case True
    have "groups_ok (an\<lparr>an_refcnt := (an_refcnt an)(?k := an_refcnt an ?k + 1)\<rparr>)"
      using True by (intro groups_ok_same assms) simp_all
    then have "groups_ok ?an" by (simp cong: groups_ok_cong add: groups_ok_def live_def)
    with True show ?thesis by (simp add: SetBalancer_def None Let_def ends_ret spam)
  next
    case False
    with nonneg have zero: "an_refcnt an ?k = 0" by simp
    have "groups_ok (an\<lparr>an_refcnt := (an_refcnt an)(?k := 1), an_ndps := map (apsnd (count_up (ad_ip adv) (1 - 0))) (an_ndps an)\<rparr>)"
      by (rule groups_ok_count) (use assms zero in simp_all)
    then have good: "groups_ok (?an\<lparr>an_ndps := map (apsnd (count_up (ad_ip adv) 1)) (an_ndps ?an)\<rparr>)"
      by (simp add: groups_ok_def live_def zero)
    have "returns (for_ndps ord (Watch net (ad_ip adv)) ?an) w (\<lambda>an' _. an' = ?an\<lparr>an_ndps := map (apsnd (count_up (ad_ip adv) 1)) (an_ndps ?an)\<rparr>)"
      using assms(5) by (intro for_ndps_all Watch_count assms) (simp add: groups_ok_def)
    then show ?thesis using False good
      by (auto simp: SetBalancer_def None Let_def spam intro!: ends_ret elim!: ends_bindp)
  qed
next
  case (Some as)
  have "groups_ok (doSpam adv (an\<lparr>an_ips := AList.update nm as (an_ips an)\<rparr>))"
    using assms(5) groups_ok_cong [of "doSpam adv (an\<lparr>an_ips := AList.update nm as (an_ips an)\<rparr>)" an] by (simp add: doSpam_def)
  with Some show ?thesis by (simp add: SetBalancer_def ends_ret)
qed

lemma returns_drop_groups:
  assumes "reliable net" "map_iteration ord"
  shows "groups_ok a \<Longrightarrow> \<forall>k. an_refcnt a k \<ge> int (uses k advs) \<Longrightarrow> \<forall>x \<in> set advs. wf_ip (ad_ip x) \<Longrightarrow>
    returns (for_each (drop_adv net ord) advs a) w (\<lambda>a' _. groups_ok a')"
proof (induction advs arbitrary: a w)
  case (Cons cur advs)
  let ?k = "ip_string (ad_ip cur)"
  let ?a = "a\<lparr>an_refcnt := (an_refcnt a)(?k := an_refcnt a ?k - 1)\<rparr>"
  have pos: "an_refcnt a ?k \<ge> 1" using Cons.prems(2) [rule_format, of ?k] by simp
  have less: "an_refcnt ?a k \<ge> int (uses k advs)" for k
    using Cons.prems(2) [rule_format, of k] by (cases "k = ?k") auto
  have step: "returns (drop_adv net ord cur a) w (\<lambda>a' _. groups_ok a' \<and> an_refcnt a' = an_refcnt ?a)"
  proof (cases "an_refcnt a ?k > 1")
    case True
    have "groups_ok ?a" using True by (intro groups_ok_same Cons.prems) (use Cons.prems in simp_all)
    with True show ?thesis by (simp add: drop_adv_def Let_def ends_ret)
  next
    case False
    with pos have one: "an_refcnt a ?k = 1" by simp
    have "groups_ok (a\<lparr>an_refcnt := (an_refcnt a)(?k := 0), an_ndps := map (apsnd (count_up (ad_ip cur) (0 - 1))) (an_ndps a)\<rparr>)"
      by (rule groups_ok_count) (use Cons.prems one in simp_all)
    moreover have "returns (for_ndps ord (Unwatch net (ad_ip cur)) ?a) w (\<lambda>a' _. a' = ?a\<lparr>an_ndps := map (apsnd (count_up (ad_ip cur) (-1))) (an_ndps ?a)\<rparr>)"
      using Cons.prems(1) by (intro for_ndps_all Watch_count assms) (simp add: groups_ok_def)
    ultimately show ?thesis using one by (auto simp: drop_adv_def Let_def elim!: ends_conseq)
  qed
  show ?case unfolding for_each.simps
    by (rule ends_bindp [OF step]) (rule Cons.IH, use less Cons.prems(3) in auto)
qed (simp add: ends_ret)

lemma returns_Delete_groups:
  assumes "reliable net" "map_iteration ord" "announce_ok an" "groups_ok an"
  shows "returns (DeleteBalancer net ord nm an) w (\<lambda>an' _. groups_ok an')"
proof (cases "map_of (an_ips an) nm")
  case (Some advs)
  let ?a = "an\<lparr>an_ips := AList.delete nm (an_ips an)\<rparr>"
  have "an_refcnt an k \<ge> int (uses k advs)" for k
    using uses_delete [of "an_ips an" k nm] refcnt_uses [OF assms(3), of k] assms(3) Some by (simp add: announce_ok_def)
  moreover have "\<forall>x \<in> set advs. wf_ip (ad_ip x)"
    using page_ok_advs [OF assms(3), of nm] Some by (simp add: advs_of_def page_ok_def)
  moreover have "groups_ok ?a" using assms(4) groups_ok_cong [of ?a an] by simp
  ultimately show ?thesis unfolding DeleteBalancer_def Some option.case
    by (intro returns_drop_groups assms(1,2)) simp_all
qed (use assms in \<open>simp add: DeleteBalancer_def ends_ret\<close>)

end
