(* ===== verification/EipAgent.thy ===== *)
theory EipAgent
  imports AnnounceBook GatewayCtl
begin

text \<open>
  \<^verbatim>\<open>pkg/agent/eip.go\<close>: the reconciler that announces the egress addresses of the policies placed on this node. It runs
  over the state of the API server, the network and the announcer; the clients, the network and the order of map iterations
  are parameters.
\<close>

section \<open>The reconciler\<close>

record ('c, 'w) eip =
  er_get_policy :: "string \<Rightarrow> string \<Rightarrow> ('c, egress_policy) api"
  er_get_cpolicy :: "string \<Rightarrow> string \<Rightarrow> ('c, egress_cluster_policy) api"
  er_node :: string
  er_net :: "'w l2_net"
  er_order :: "int iter_order"

record ('c, 'w) eip_world =
  ew_api :: 'c
  ew_net :: 'w
  ew_ann :: announce

datatype eip_err = EipApi api_err | EipRequest

definition eip_call :: "('c, 'a) api \<Rightarrow> (('c, 'w) eip_world, api_err, 'a) prog" where
  "eip_call m w = (case m (ew_api w) of (r, c) \<Rightarrow> (r, w\<lparr>ew_api := c\<rparr>))"

definition announcing :: "(announce \<Rightarrow> ('w, 'e, announce) prog) \<Rightarrow> (('c, 'w) eip_world, 'e, unit) prog" where
  "announcing f w = (case f (ew_ann w) (ew_net w) of
     (Ok an, v) \<Rightarrow> (Ok (), w\<lparr>ew_ann := an, ew_net := v\<rparr>)
   | (Err e, v) \<Rightarrow> (Err e, w\<lparr>ew_net := v\<rparr>)
   | (Panic, v) \<Rightarrow> (Panic, w\<lparr>ew_net := v\<rparr>)
   | (Diverge, v) \<Rightarrow> (Diverge, w\<lparr>ew_net := v\<rparr>))"

definition NamespacedName_String :: "request \<Rightarrow> string" where
  "NamespacedName_String req = req_namespace req @ ''/'' @ req_name req"

text \<open>The announcement of the addresses in the status of a policy that is placed on this node.\<close>

definition set_eips :: "('c, 'w) eip \<Rightarrow> string \<Rightarrow> egress_policy_status \<Rightarrow> (('c, 'w) eip_world, eip_err, unit) prog" where
  "set_eips r nm st =
     (let set_if = (\<lambda>ok ip. if ok then announcing (SetBalancer (er_net r) (er_order r) nm (NewIPAdvertisement ip True [])) else ret ());
          ip4 = ParseIP (st_ipv4 st); ip6 = ParseIP (st_ipv6 st)
      in bindp (set_if (to4 ip4 \<noteq> nil_ip) ip4) (\<lambda>_. set_if (to16 ip6 \<noteq> nil_ip) ip6))"

definition announce_policy :: "('c, 'w) eip \<Rightarrow> request \<Rightarrow> ('c, egress_policy_status \<times> bool) api \<Rightarrow> (('c, 'w) eip_world, eip_err, bool) prog" where
  "announce_policy r req get =
     bindp (attempt (eip_call get)) (\<lambda>res.
     bindp (case res of
         Inr (st, deleting) \<Rightarrow> ret (if deleting then None else Some st)
       | Inl e \<Rightarrow> if e \<noteq> NotFound then fail (EipApi e) else ret None) (\<lambda>found.
     let nm = NamespacedName_String req; drop = announcing (DeleteBalancer (er_net r) (er_order r) nm) in
     case found of
       None \<Rightarrow> bindp drop (\<lambda>_. ret False)
     | Some st \<Rightarrow> if st_node st \<noteq> er_node r then bindp drop (\<lambda>_. ret False) else bindp (set_eips r nm st) (\<lambda>_. ret False)))"

definition eip_reconcilePolicy :: "('c, 'w) eip \<Rightarrow> request \<Rightarrow> (('c, 'w) eip_world, eip_err, bool) prog" where
  "eip_reconcilePolicy r req =
     announce_policy r req (bindp (er_get_policy r (req_namespace req) (req_name req)) (\<lambda>p. ret (ep_status p, om_deleting (ep_meta p))))"

definition eip_reconcileClusterPolicy :: "('c, 'w) eip \<Rightarrow> request \<Rightarrow> (('c, 'w) eip_world, eip_err, bool) prog" where
  "eip_reconcileClusterPolicy r req =
     announce_policy r req (bindp (er_get_cpolicy r (req_namespace req) (req_name req)) (\<lambda>p. ret (ecp_status p, om_deleting (ecp_meta p))))"

definition eip_Reconcile :: "('c, 'w) eip \<Rightarrow> request \<Rightarrow> (('c, 'w) eip_world, eip_err, bool) prog" where
  "eip_Reconcile r req =
     bindp (lift (oc_map_err (\<lambda>_. EipRequest) (ParseKindWithReq req))) (\<lambda>(kind, newReq).
     if kind = ''EgressClusterPolicy'' then eip_reconcileClusterPolicy r newReq
     else if kind = ''EgressPolicy'' then eip_reconcilePolicy r newReq
     else ret False)"

section \<open>The contract with the announcer\<close>

text \<open>
  What the reconciler relies on: a book of what is announced under which name, which setting extends by one entry and
  deleting clears for one name; both come to an end.
\<close>

locale announce_service =
  fixes book :: "announce \<Rightarrow> string \<times> netip \<rightharpoonup> ip_advertisement"
    and ok :: "announce \<Rightarrow> bool"
    and good :: "'w l2_net \<Rightarrow> bool"
    and set_bal :: "'w l2_net \<Rightarrow> int iter_order \<Rightarrow> string \<Rightarrow> ip_advertisement \<Rightarrow> announce \<Rightarrow> ('w, eip_err, announce) prog"
    and del_bal :: "'w l2_net \<Rightarrow> int iter_order \<Rightarrow> string \<Rightarrow> announce \<Rightarrow> ('w, eip_err, announce) prog"
  assumes set_book: "good net \<Longrightarrow> ok an \<Longrightarrow> wf_ip (ad_ip adv) \<Longrightarrow>
      returns (set_bal net ord nm adv an) v (\<lambda>an' _. ok an' \<and> book an' = (book an)((nm, to16 (ad_ip adv)) \<mapsto> adv))"
    and del_book: "good net \<Longrightarrow> ok an \<Longrightarrow>
      returns (del_bal net ord nm an) v (\<lambda>an' _. ok an' \<and> book an' = (\<lambda>(x, y). if x = nm then None else book an (x, y)))"
begin

lemma announcing_set:
  assumes "good net" "ok (ew_ann w)" "wf_ip ip"
  shows "returns (announcing (set_bal net ord nm (NewIPAdvertisement ip True []))) w
    (\<lambda>_ w'. ok (ew_ann w') \<and> book (ew_ann w') = (book (ew_ann w))((nm, to16 ip) \<mapsto> NewIPAdvertisement ip True []))"
  using set_book [OF assms(1,2), of "NewIPAdvertisement ip True []" ord nm "ew_net w"] assms(3)
  by (auto simp: ends_def announcing_def NewIPAdvertisement_def)

lemma announcing_del:
  assumes "good net" "ok (ew_ann w)"
  shows "returns (announcing (del_bal net ord nm)) w
    (\<lambda>_ w'. ok (ew_ann w') \<and> book (ew_ann w') = (\<lambda>(x, y). if x = nm then None else book (ew_ann w) (x, y)))"
  using del_book [OF assms, of ord nm "ew_net w"] by (auto simp: ends_def announcing_def)

end

interpretation layer2: announce_service book_of announce_ok calm SetBalancer DeleteBalancer
proof
  fix net :: "'a l2_net" and adv :: ip_advertisement and an ord nm v
  assume "calm net" "announce_ok an" "wf_ip (ad_ip adv)"
  then show "returns (SetBalancer net ord nm adv an) v (\<lambda>an' _. announce_ok an' \<and> book_of an' = (book_of an)((nm, to16 (ad_ip adv)) \<mapsto> adv))"
    by (intro ends_conseq [OF returns_SetBalancer]) (auto simp: ad_key_def)
next
  fix net :: "'a l2_net" and an ord nm v
  assume "calm net" "announce_ok an"
  then show "returns (DeleteBalancer net ord nm an) v (\<lambda>an' _. announce_ok an' \<and> book_of an' = (\<lambda>(x, y). if x = nm then None else book_of an (x, y)))"
    by (intro ends_conseq [OF returns_DeleteBalancer]) auto
qed

section \<open>The book after a reconcile\<close>

definition policy_book :: "string \<Rightarrow> string \<Rightarrow> egress_policy_status option \<Rightarrow> (string \<times> netip \<rightharpoonup> ip_advertisement) \<Rightarrow> string \<times> netip \<rightharpoonup> ip_advertisement" where
  "policy_book node nm found b = (case found of
     Some st \<Rightarrow> if st_node st = node
       then let note = (\<lambda>s ok b. if ok then b((nm, to16 (ParseIP s)) \<mapsto> NewIPAdvertisement (ParseIP s) True []) else b)
            in note (st_ipv6 st) (ParseIP (st_ipv6 st) \<noteq> nil_ip) (note (st_ipv4 st) (to4 (ParseIP (st_ipv4 st)) \<noteq> nil_ip) b)
       else (\<lambda>(x, y). if x = nm then None else b (x, y))
   | None \<Rightarrow> (\<lambda>(x, y). if x = nm then None else b (x, y)))"

text \<open>The book and the status of a policy that the client returned, \<open>None\<close> when it is deleted or being deleted.\<close>

definition current :: "('e, 'p) outcome \<Rightarrow> ('p \<Rightarrow> egress_policy_status) \<Rightarrow> ('p \<Rightarrow> bool) \<Rightarrow> egress_policy_status option" where
  "current res stat deleting = (case res of Ok p \<Rightarrow> if deleting p then None else Some (stat p) | _ \<Rightarrow> None)"

lemma policy_book_keeps:
  "b (nm, x) = Some a \<Longrightarrow> ad_all a \<Longrightarrow> st_node st = node \<Longrightarrow> \<exists>adv. policy_book node nm (Some st) b (nm, x) = Some adv \<and> ad_all adv"
  by (auto simp: policy_book_def Let_def NewIPAdvertisement_def)

lemma to16_ParseIP: "to16 (ParseIP s) \<noteq> nil_ip \<longleftrightarrow> ParseIP s \<noteq> nil_ip"
proof
  assume "ParseIP s \<noteq> nil_ip"
  then show "to16 (ParseIP s) \<noteq> nil_ip" using ParseIP_wf [of s] to16_not_nil by auto
qed (auto simp: to16_def)

lemma returns_set_eips:
  assumes "calm (er_net r)" "announce_ok (ew_ann w)" "st_node st = er_node r"
  shows "returns (set_eips r nm st) w (\<lambda>_ w'. announce_ok (ew_ann w') \<and> book_of (ew_ann w') = policy_book (er_node r) nm (Some st) (book_of (ew_ann w)))"
proof -
  have wf: "to4 (ParseIP s) \<noteq> nil_ip \<Longrightarrow> wf_ip (ParseIP s)" "ParseIP s \<noteq> nil_ip \<Longrightarrow> wf_ip (ParseIP s)" for s
    using ParseIP_wf [of s] by (cases "ParseIP s = nil_ip"; simp add: to4_def)+
  show ?thesis unfolding set_eips_def policy_book_def Let_def
    by (rule ends_bindp [where R = "\<lambda>_ w'. announce_ok (ew_ann w') \<and> book_of (ew_ann w') =
        (if to4 (ParseIP (st_ipv4 st)) \<noteq> nil_ip
         then (book_of (ew_ann w))((nm, to16 (ParseIP (st_ipv4 st))) \<mapsto> NewIPAdvertisement (ParseIP (st_ipv4 st)) True []) else book_of (ew_ann w))"])
      (use assms in \<open>auto simp: to16_ParseIP to4_def [of nil_ip] intro!: ends_ret ends_conseq [OF layer2.announcing_set] wf\<close>)
qed

lemma returns_announce_policy:
  fixes r :: "('a, 'b) eip"
  assumes "calm (er_net r)" "announce_ok (ew_ann w)" "get (ew_api w) = (res, c)" "res = Err NotFound \<or> (\<exists>p. res = Ok p)"
  shows "returns (announce_policy r req get) w (\<lambda>again w'. \<not> again \<and> announce_ok (ew_ann w') \<and>
    book_of (ew_ann w') = policy_book (er_node r) (NamespacedName_String req) (current res fst snd) (book_of (ew_ann w)))"
proof -
  let ?nm = "NamespacedName_String req" and ?w = "w\<lparr>ew_api := c\<rparr>"
  let ?drop = "bindp (announcing (DeleteBalancer (er_net r) (er_order r) ?nm)) (\<lambda>_. ret False) :: (('a, 'b) eip_world, eip_err, bool) prog"
  have drop: "returns ?drop ?w (\<lambda>again w'. \<not> again \<and> announce_ok (ew_ann w') \<and>
      book_of (ew_ann w') = (\<lambda>(x, y). if x = ?nm then None else book_of (ew_ann w) (x, y)))"
    using layer2.announcing_del [OF assms(1), of ?w "er_order r" ?nm] assms(2) by (auto intro!: ends_ret elim!: ends_bindp)
  have set_them: "returns (bindp (set_eips r ?nm st) (\<lambda>_. ret False)) ?w (\<lambda>again w'. \<not> again \<and> announce_ok (ew_ann w') \<and>
      book_of (ew_ann w') = policy_book (er_node r) ?nm (Some st) (book_of (ew_ann w)))" if "st_node st = er_node r" for st
    using returns_set_eips [OF assms(1), of ?w st ?nm] assms(2) that by (auto intro!: ends_ret elim!: ends_bindp)
  have "announce_policy r req get w = (case current res fst snd of
      None \<Rightarrow> ?drop
    | Some st \<Rightarrow> if st_node st \<noteq> er_node r then ?drop else bindp (set_eips r ?nm st) (\<lambda>_. ret False)) ?w"
  proof (cases res)
    case (Ok p)
    then have "(attempt (eip_call get) :: (_, eip_err, _) prog) w = (Ok (Inr p), ?w)" using assms(3) by (simp add: attempt_def eip_call_def)
    then show ?thesis by (cases p) (simp add: announce_policy_def bindp_Ok_step bindp_ret Ok current_def Let_def)
  next
    case (Err e)
    then have "(attempt (eip_call get) :: (_, eip_err, _) prog) w = (Ok (Inl NotFound), ?w)" using assms(3,4) by (auto simp: attempt_def eip_call_def)
    then show ?thesis by (simp add: announce_policy_def bindp_Ok_step bindp_ret Err current_def Let_def)
  qed (use assms(4) in auto)
  then show ?thesis using drop set_them
    unfolding ends_def by (cases "current res fst snd") (auto simp: policy_book_def)
qed

lemma returns_reconcilePolicy:
  assumes "calm (er_net r)" "announce_ok (ew_ann w)" "er_get_policy r (req_namespace req) (req_name req) (ew_api w) = (res, c)"
    and "res = Err NotFound \<or> (\<exists>p. res = Ok p)"
  shows "returns (eip_reconcilePolicy r req) w (\<lambda>again w'. \<not> again \<and> announce_ok (ew_ann w') \<and>
    book_of (ew_ann w') = policy_book (er_node r) (NamespacedName_String req) (current res ep_status (\<lambda>p. om_deleting (ep_meta p))) (book_of (ew_ann w)))"
proof -
  let ?res = "oc_bind res (\<lambda>p. Ok (ep_status p, om_deleting (ep_meta p)))"
  have "bindp (er_get_policy r (req_namespace req) (req_name req)) (\<lambda>p. ret (ep_status p, om_deleting (ep_meta p))) (ew_api w) = (?res, c)"
    using assms(3,4) by (auto simp: bindp_def ret_def)
  moreover have "?res = Err NotFound \<or> (\<exists>q. ?res = Ok q)" using assms(4) by auto
  moreover have "current ?res fst snd = current res ep_status (\<lambda>p. om_deleting (ep_meta p))" using assms(4) by (auto simp: current_def)
  ultimately show ?thesis unfolding eip_reconcilePolicy_def using returns_announce_policy [OF assms(1,2), where res = ?res and c = c and req = req] by simp
qed

end
