(* ===== verification/AnnounceProps.thy ===== *)
theory AnnounceProps
  imports AnnounceGroups EipAgent
begin


section \<open>A network and addresses for the examples\<close>

definition ex_net :: "nat l2_net" where
  "ex_net = \<lparr>net_arp_dial = (\<lambda>_. ret ()), net_ndp_dial = (\<lambda>_. fail ''no link-local address''), net_arp_write = (\<lambda>_ _ _. ret ()),
     net_ndp_write = (\<lambda>_ _ _. ret ()), net_join = (\<lambda>_ _ w. (Ok (), Suc w)), net_leave = (\<lambda>_ _ w. (Ok (), Suc w)),
     net_arp_close = (\<lambda>_. ret ()), net_ndp_close = (\<lambda>_. ret ())\<rparr>"

definition ex_v4 :: netip where "ex_v4 = [10, 6, 1, 9]"
definition ex_v6 :: netip where "ex_v6 = [253, 0, 0, 16, 0, 0, 0, 0, 0, 0, 0, 0, 0, 0, 0, 9]"

lemma ex_net_ok: "calm ex_net" "reliable ex_net"
  by (simp_all add: calm_def answers_def reliable_def ex_net_def ret_def fail_def)

lemma ex_ips: "wf_ip ex_v4" "is_v6 ex_v6" "wf_ip ex_v6"
  by (simp_all add: wf_ip_def is_v6_def ex_v4_def ex_v6_def to4_def v4InV6Prefix_def)

definition ex_sys :: sys_view where
  "ex_sys = \<lparr>sv_excluded = (\<lambda>_. False), sv_addrs = (\<lambda>_. Some []), sv_master = (\<lambda>_. False), sv_flags = (\<lambda>_. None)\<rparr>"

definition ex_ops :: "an_op list" where
  "ex_ops = [SetOp ''a'' (NewIPAdvertisement ex_v6 True []), ScanOp ex_sys None, SetOp ''b'' (NewIPAdvertisement ex_v6 True []), DelOp ''a'']"

section \<open>The announcer\<close>

text \<open>C11. The announcer refines a book from names and addresses to advertisements: after any sequence of settings, deletions
  and scans of the interfaces, on a network that may refuse every call, it has come to an end, the counter of an address is
  the number of names that announce it, and a request is answered exactly when an entry for the address matches the
  interface.\<close>

theorem announcer_refines:
  assumes "calm net" "list_all op_ok ops" "map_iteration ord'"
  shows "returns (for_each (an_step net ord) ops New) w (\<lambda>an _. let book = fold book_step ops Map.empty in
    \<forall>ip intf. wf_ip ip \<longrightarrow>
      an_refcnt an (ip_string ip) = int (card {nm. book (nm, to16 ip) \<noteq> None}) \<and>
      (shouldAnnounce ord' an ip intf = dropReasonNone \<longleftrightarrow>
        (\<exists>nm adv. book (nm, to16 ip) = Some adv \<and> matchInterface (Some adv) intf)) \<and>
      (shouldAnnounce ord' an ip intf = dropReasonAnnounceIP \<longleftrightarrow> (\<forall>nm. book (nm, to16 ip) = None)))"
proof (rule ends_conseq [OF returns_an_run [OF assms(1) New_ok(1) assms(2)]])
  fix an and v :: 'a
  assume an: "announce_ok an \<and> book_of an = fold book_step ops (book_of New)"
  show "let book = fold book_step ops Map.empty in \<forall>ip intf. wf_ip ip \<longrightarrow>
      an_refcnt an (ip_string ip) = int (card {nm. book (nm, to16 ip) \<noteq> None}) \<and>
      (shouldAnnounce ord' an ip intf = dropReasonNone \<longleftrightarrow>
        (\<exists>nm adv. book (nm, to16 ip) = Some adv \<and> matchInterface (Some adv) intf)) \<and>
      (shouldAnnounce ord' an ip intf = dropReasonAnnounceIP \<longleftrightarrow> (\<forall>nm. book (nm, to16 ip) = None))"
    using an refcnt_book [of an] shouldAnnounce_book [OF assms(3), of an] by (auto simp: New_ok(2) Let_def)
qed simp

text \<open>Two policies share an address, the interfaces are scanned and one of the two is deleted: the address is answered.\<close>

theorem announcer_refines_witness:
  "returns (for_each (an_step ex_net (\<lambda>ks. ks)) ex_ops New) 0 (\<lambda>an _. an_refcnt an (ip_string ex_v6) = 1 \<and>
     shouldAnnounce rev an ex_v6 ''eth0'' = dropReasonNone)"
proof -
  have "{nm. nm = ''b''} = {''b''}" by auto
  moreover have "to16 ex_v6 = ex_v6" using is_v6_len ex_ips by blast
  moreover have "list_all op_ok ex_ops" by (simp add: ex_ops_def ex_ips readable_def ex_sys_def NewIPAdvertisement_def)
  ultimately show ?thesis
    by (intro ends_conseq [OF announcer_refines [OF ex_net_ok(1) _ reverse_order.map_iteration_axioms, of ex_ops "\<lambda>ks. ks" 0]])
      (auto simp: Let_def ex_ops_def ad_key_def NewIPAdvertisement_def matchInterface_def ex_ips cong: if_cong dest!: spec [of _ ex_v6] spec [of _ "''eth0''"])
qed






definition ex_ndp :: ndp_responder where
  "ex_ndp = \<lparr>nr_intf = ''eth0'', nr_hw = [2, 0, 0, 0, 0, 1], nr_closed = False, nr_groups = (\<lambda>_. 0)\<rparr>"


lemma one_key: "map_iteration ord \<Longrightarrow> ord [k] = [k]"
  using map_iteration.visits_each_once [of ord "[k]"] by (metis mset.simps mset_single_iff_right)

text \<open>A responder created while an IPv6 address is already announced starts with no counts, so deleting the announcement
  takes the count of the group to minus one without leaving it and announcing again takes it restored to zero without
  joining it: the network sees neither call, and the responder still hears no request for the announced address.\<close>

theorem late_responder_never_joins:
  assumes "map_iteration ord" "announce_ok an" "an_ndps an = [(i, n)]" "nr_groups n = (\<lambda>_. 0)"
    and "advs_of an nm = [adv]" "is_v6 (ad_ip adv)" "an_refcnt an (ip_string (ad_ip adv)) = 1"
  shows "\<exists>an'. bindp (DeleteBalancer net ord nm an) (SetBalancer net ord nm adv) w = (Ok an', w) \<and>
    an_ndps an' = [(i, n)] \<and> an_refcnt an' (ip_string (ad_ip adv)) = 1 \<and> advs_of an' nm = [adv]"
proof -
  obtain grp where grp: "SolicitedNodeMulticast (ad_ip adv) = Some grp" using group_of_v6 [OF assms(6)] by blast
  have four: "to4 (ad_ip adv) = nil_ip" using assms(6) by (simp add: is_v6_def)
  have found: "map_of (an_ips an) nm = Some [adv]" using assms(5) by (auto simp: advs_of_def split: option.splits)
  let ?g = "ip_string grp" and ?k = "ip_string (ad_ip adv)"
  let ?n = "n\<lparr>nr_groups := (\<lambda>_. 0)(?g := - 1)\<rparr>"
  let ?an = "an\<lparr>an_ips := AList.delete nm (an_ips an), an_refcnt := (an_refcnt an)(?k := 0), an_ndps := [(i, ?n)]\<rparr>"
  have "DeleteBalancer net ord nm an w = (Ok ?an, w)"
    by (simp add: DeleteBalancer_def found drop_adv_def for_ndps_def assms(3,4,7) one_key [OF assms(1)] Unwatch_def four grp bindp_def ret_def Let_def)
  then have run: "bindp (DeleteBalancer net ord nm an) (SetBalancer net ord nm adv) w = SetBalancer net ord nm adv ?an w" by (rule bindp_Ok_step)
  have none: "advs_of ?an nm = []" by (simp add: advs_of_def delete_conv')
  have restored: "n\<lparr>nr_groups := (\<lambda>_. 0)\<rparr> = n" using assms(4) by (cases n) simp
  show ?thesis unfolding run
    by (simp add: SetBalancer_def none for_ndps_def one_key [OF assms(1)] Watch_def four grp bindp_def ret_def Let_def doSpam_def)
      (simp add: advs_of_def update_conv' restored fun_upd_idem)
qed

text \<open>An announced address and a responder that came later.\<close>

definition ex_ann :: "netip \<Rightarrow> announce" where
  "ex_ann ip = New\<lparr>an_ips := [(''ns/p'', [NewIPAdvertisement ip True []])], an_refcnt := (\<lambda>_. 0)(ip_string ip := 1), an_ndps := [(2, ex_ndp)]\<rparr>"

lemma ex_ann_ok: "wf_ip ip \<Longrightarrow> announce_ok (ex_ann ip)"
  "wf_ip ip \<Longrightarrow> book_of (ex_ann ip) (''ns/p'', to16 ip) = Some (NewIPAdvertisement ip True [])"
  by (auto simp: announce_ok_def page_ok_def ex_ann_def New_def book_of_def advs_of_def ad_key_def NewIPAdvertisement_def)

theorem late_responder_never_joins_witness:
  "\<exists>an'. bindp (DeleteBalancer ex_net rev ''ns/p'' (ex_ann ex_v6)) (SetBalancer ex_net rev ''ns/p'' (NewIPAdvertisement ex_v6 True [])) 0 = (Ok an', 0) \<and>
    an_ndps an' = [(2, ex_ndp)] \<and> shouldAnnounce rev an' ex_v6 ''eth0'' = dropReasonNone"
proof -
  have "\<exists>an'. bindp (DeleteBalancer ex_net rev ''ns/p'' (ex_ann ex_v6)) (SetBalancer ex_net rev ''ns/p'' (NewIPAdvertisement ex_v6 True [])) 0 = (Ok an', 0) \<and>
      an_ndps an' = [(2, ex_ndp)] \<and> an_refcnt an' (ip_string (ad_ip (NewIPAdvertisement ex_v6 True []))) = 1 \<and> advs_of an' ''ns/p'' = [NewIPAdvertisement ex_v6 True []]"
    by (rule late_responder_never_joins [OF reverse_order.map_iteration_axioms ex_ann_ok(1) [OF ex_ips(3)]])
      (simp_all add: ex_ann_def ex_ndp_def advs_of_def NewIPAdvertisement_def ex_ips)
  moreover have "shouldAnnounce rev an' ex_v6 ''eth0'' = dropReasonNone" if "advs_of an' ''ns/p'' = [NewIPAdvertisement ex_v6 True []]" for an'
  proof -
    have "NewIPAdvertisement ex_v6 True [] \<in> set (concat (range_values rev (an_ips an')))"
      using that by (auto simp: map_iteration.set_range_values [OF reverse_order.map_iteration_axioms] advs_of_def ran_def split: option.splits)
    moreover have "ip_equal (ad_ip (NewIPAdvertisement ex_v6 True [])) ex_v6 \<and> matchInterface (Some (NewIPAdvertisement ex_v6 True [])) ''eth0''"
      by (simp add: NewIPAdvertisement_def matchInterface_def ip_equal_wf ex_ips)
    ultimately show ?thesis unfolding shouldAnnounce_def announce_loop_spec by meson
  qed
  ultimately show ?thesis by blast
qed

section \<open>The reconciler\<close>

text \<open>C20. A reconcile of a policy with an answer from the API server comes to an end whatever the network does, asks for no
  other run and leaves in the book exactly what the policy asks for: nothing under its name when it is deleted, being
  deleted or placed on another node, else its two addresses added on all interfaces; the names of other policies keep
  their entries.\<close>

theorem eip_reconcile_book:
  assumes "calm (er_net r)" "announce_ok (ew_ann w)" "er_get_policy r (req_namespace req) (req_name req) (ew_api w) = (res, c)"
    and "res = Err NotFound \<or> (\<exists>p. res = Ok p)"
  shows "returns (eip_reconcilePolicy r req) w (\<lambda>again w'. \<not> again \<and> announce_ok (ew_ann w') \<and>
    book_of (ew_ann w') = policy_book (er_node r) (NamespacedName_String req) (current res ep_status (\<lambda>p. om_deleting (ep_meta p))) (book_of (ew_ann w)))"
  by (rule returns_reconcilePolicy [OF assms])

text \<open>The reconcile only adds: an address that was announced for a policy is still answered on every interface after
  the status of the policy changed to another address on the same node.\<close>

theorem eip_change_keeps_old:
  assumes "calm (er_net r)" "announce_ok (ew_ann w)" "er_get_policy r (req_namespace req) (req_name req) (ew_api w) = (Ok p, c)"
    and "\<not> om_deleting (ep_meta p)" "st_node (ep_status p) = er_node r" "map_iteration ord"
    and "wf_ip old" "book_of (ew_ann w) (NamespacedName_String req, to16 old) = Some (NewIPAdvertisement old True [])"
  shows "returns (eip_reconcilePolicy r req) w (\<lambda>_ w'. \<forall>intf. shouldAnnounce ord (ew_ann w') old intf = dropReasonNone)"
proof -
  let ?nm = "NamespacedName_String req"
  have "returns (eip_reconcilePolicy r req) w (\<lambda>again w'. \<not> again \<and> announce_ok (ew_ann w') \<and>
      book_of (ew_ann w') = policy_book (er_node r) ?nm (Some (ep_status p)) (book_of (ew_ann w)))"
    using returns_reconcilePolicy [OF assms(1-3)] assms(4) by (simp add: current_def)
  then show ?thesis
  proof (rule ends_conseq, clarify)
    fix w' intf
    assume ok: "announce_ok (ew_ann w')" and book: "book_of (ew_ann w') = policy_book (er_node r) ?nm (Some (ep_status p)) (book_of (ew_ann w))"
    have "\<exists>adv. book_of (ew_ann w') (?nm, to16 old) = Some adv \<and> ad_all adv"
      unfolding book using assms(8) by (rule policy_book_keeps) (simp_all add: assms(5) NewIPAdvertisement_def)
    then have "\<exists>nm adv. book_of (ew_ann w') (nm, to16 old) = Some adv \<and> matchInterface (Some adv) intf"
      by (auto simp: matchInterface_def)
    then show "shouldAnnounce ord (ew_ann w') old intf = dropReasonNone"
      using shouldAnnounce_book [OF assms(6) ok assms(7)] by auto
  qed simp
qed

text \<open>A policy on this node whose address changed from the IPv4 to the IPv6 address.\<close>

definition ex_eip_policy :: egress_policy where
  "ex_eip_policy = \<lparr>ep_meta = \<lparr>om_name = ''p'', om_namespace = ''ns'', om_deleting = False, om_finalizers = [], om_labels = []\<rparr>,
     ep_spec = \<lparr>ep_gateway_name = ''g'', ep_egress_ip = \<lparr>ei_ipv4 = [], ei_ipv6 = [], use_node_ip = False, allocator_policy = []\<rparr>,
       ep_applied_to = \<lparr>pod_selector = None, pod_subnet = []\<rparr>, ep_dest_subnet = [], ep_priority = 0\<rparr>,
     ep_status = \<lparr>st_ipv4 = [], st_ipv6 = ip_string ex_v6, st_node = ''n1''\<rparr>\<rparr>"

definition ex_eip :: "string \<Rightarrow> (unit, nat) eip" where
  "ex_eip node = \<lparr>er_get_policy = (\<lambda>_ _. ret ex_eip_policy), er_get_cpolicy = (\<lambda>_ _. fail NotFound), er_node = node, er_net = ex_net, er_order = rev\<rparr>"

definition ex_eip_world :: "(unit, nat) eip_world" where
  "ex_eip_world = \<lparr>ew_api = (), ew_net = 0, ew_ann = ex_ann ex_v4\<rparr>"

lemmas eip_eval = ex_eip_def ex_eip_world_def ex_eip_policy_def ex_net_ok ex_ann_ok ex_ips ret_def NamespacedName_String_def

theorem eip_reconcile_book_witness:
  "returns (eip_reconcilePolicy (ex_eip ''n2'') \<lparr>req_namespace = ''ns'', req_name = ''p''\<rparr>) ex_eip_world
     (\<lambda>again w'. \<not> again \<and> book_of (ew_ann w') (''ns/p'', to16 ex_v4) = None)"
  by (rule ends_conseq [OF eip_reconcile_book [where res = "Ok ex_eip_policy" and c = "()"]])
    (simp_all add: eip_eval current_def policy_book_def)

theorem eip_change_keeps_old_witness:
  "returns (eip_reconcilePolicy (ex_eip ''n1'') \<lparr>req_namespace = ''ns'', req_name = ''p''\<rparr>) ex_eip_world
     (\<lambda>_ w'. shouldAnnounce rev (ew_ann w') ex_v4 ''eth0'' = dropReasonNone)"
  by (rule ends_conseq [OF eip_change_keeps_old [where p = ex_eip_policy and c = "()" and old = ex_v4, OF _ _ _ _ _ reverse_order.map_iteration_axioms]])
    (simp_all add: eip_eval)

end
