(* ===== verification/ClusterInfo.thy ===== *)
theory ClusterInfo
  imports GatewayCtl IPUtils AgentPolice
begin

text \<open>
  \<^verbatim>\<open>pkg/controller/clusterinfo\<close>: the controller that keeps the addresses of the nodes, the pod blocks of Calico, the
  service ranges and the extra blocks in the status of the cluster information. The client is a parameter, and so is the
  registration of the watch on the Calico pools, which may fail and is then repeated.
\<close>

section \<open>Addresses of nodes and pools\<close>

definition is_true :: "(ip_err, bool) outcome \<Rightarrow> bool" where
  "is_true r = (r = Ok True)"

definition getNodeIPList :: "k8s_node option \<Rightarrow> string list \<times> string list" where
  "getNodeIPList node = (case node of
     None \<Rightarrow> ([], [])
   | Some n \<Rightarrow> fold (\<lambda>(typ, addr) (nodeIPv4, nodeIPv6).
       if typ = ''InternalIP''
       then (if is_true (IsIPv4 addr) then nodeIPv4 @ [addr] else nodeIPv4, if is_true (IsIPv6 addr) then nodeIPv6 @ [addr] else nodeIPv6)
       else (nodeIPv4, nodeIPv6)) (node_addresses n) ([], []))"

record calico_pool =
  cp_meta :: object_meta
  cp_cidr :: string

definition getCalicoIPPoolList :: "calico_pool option \<Rightarrow> string list \<times> string list" where
  "getCalicoIPPoolList pool = (case pool of
     None \<Rightarrow> ([], [])
   | Some p \<Rightarrow> (if is_true (IsIPv4Cidr (cp_cidr p)) then [cp_cidr p] else [], if is_true (IsIPv6Cidr (cp_cidr p)) then [cp_cidr p] else []))"

section \<open>The client\<close>

text \<open>Of a pod of the controller manager, the command and the arguments of each container.\<close>

type_synonym manager_pod = "(string list \<times> string list) list"

record 'w info_client =
  ic_get_info :: "string \<Rightarrow> ('w, cluster_info) api"
  ic_get_node :: "string \<Rightarrow> ('w, k8s_node) api"
  ic_get_pool :: "string \<Rightarrow> ('w, calico_pool) api"
  ic_list_pods :: "labels \<Rightarrow> ('w, manager_pod list) api"
  ic_list_pools :: "('w, unit) api"
  ic_watch_pools :: "('w, unit) api"
  ic_status :: "cluster_info \<Rightarrow> ('w, unit) api"

text \<open>The state of the two \<^verbatim>\<open>sync.Once\<close> values of the controller.\<close>

record 'w info_world =
  iw_world :: 'w
  iw_done :: bool
  iw_watched :: bool

datatype info_err = InfoApi api_err | InfoRequest | InfoNoContainers | InfoNoRange

type_synonym ('w, 'a) info = "('w info_world, info_err, 'a) prog"

definition info_call :: "('w, 'a) api \<Rightarrow> ('w, 'a) info" where
  "info_call m = (\<lambda>s. case m (iw_world s) of (r, w) \<Rightarrow> (oc_map_err InfoApi r, s\<lparr>iw_world := w\<rparr>))"

text \<open>A read where an absent object is no error.\<close>

definition info_fetch :: "('w, 'a) api \<Rightarrow> ('w, 'a option) info" where
  "info_fetch m = bindp (attempt (info_call m)) (\<lambda>res. case res of
     Inr x \<Rightarrow> ret (Some x)
   | Inl e \<Rightarrow> if e \<noteq> InfoApi NotFound then fail e else ret None)"

section \<open>The service range\<close>

definition kubeControllerManagerPodLabelList :: "labels list" where
  "kubeControllerManagerPodLabelList =
     [[(''component'', ''kube-controller-manager'')], [(''k8s-app'', ''kube-controller-manager'')]]"

text \<open>The first element of the command line that contains the parameter; what follows its first equality sign up to the next.\<close>

fun range_text :: "string \<Rightarrow> string list \<Rightarrow> string" where
  "range_text param [] = []"
| "range_text param (c # cs) = (if sublist param c then split_on (CHR ''='') c ! 1 else range_text param cs)"

definition parseCIDRFromControllerManager :: "manager_pod \<Rightarrow> string \<Rightarrow> (info_err, string list \<times> string list) outcome" where
  "parseCIDRFromControllerManager pod param = (case pod of
     [] \<Rightarrow> Err InfoNoContainers
   | (command, args) # _ \<Rightarrow>
       (let ipRange = range_text param (command @ args) in
        if ipRange = [] then Err InfoNoRange
        else let ipRanges = split_on (CHR '','') ipRange in
          if length ipRanges = 1
          then Ok (if is_true (IsIPv6Cidr (ipRanges ! 0)) then ([], ipRanges)
                   else if is_true (IsIPv4Cidr (ipRanges ! 0)) then (ipRanges, []) else ([], []))
          else if length ipRanges = 2 then Ok (take 1 ipRanges, drop 1 ipRanges)
          else Ok ([], [])))"

definition listPodByLabel :: "'w info_client \<Rightarrow> labels \<Rightarrow> ('w, manager_pod list) info" where
  "listPodByLabel cli lbl = info_call (ic_list_pods cli lbl)"

fun first_manager :: "'w info_client \<Rightarrow> labels list \<Rightarrow> ('w, string list \<times> string list) info" where
  "first_manager cli [] = ret ([], [])"
| "first_manager cli (item # items) =
     bindp (listPodByLabel cli item) (\<lambda>pods. case pods of
       [] \<Rightarrow> first_manager cli items
     | pod # _ \<Rightarrow> lift (parseCIDRFromControllerManager pod ''--service-cluster-ip-range=''))"

definition GetClusterCIDR :: "'w info_client \<Rightarrow> ('w, string list \<times> string list) info" where
  "GetClusterCIDR cli = first_manager cli kubeControllerManagerPodLabelList"

definition pair_differs :: "ip_list_pair \<Rightarrow> string list \<times> string list \<Rightarrow> bool" where
  "pair_differs val new = (\<not> EqualStringSlice (lp_ipv4 val) (fst new) \<or> \<not> EqualStringSlice (lp_ipv6 val) (snd new))"

definition pair_of :: "string list \<times> string list \<Rightarrow> ip_list_pair" where
  "pair_of new = \<lparr>lp_ipv4 = fst new, lp_ipv6 = snd new\<rparr>"

definition write_status :: "'w info_client \<Rightarrow> cluster_info \<Rightarrow> (cluster_info_status \<Rightarrow> cluster_info_status) \<Rightarrow> ('w, unit) info" where
  "write_status cli info f = info_call (ic_status cli (info\<lparr>ci_status := f (ci_status info)\<rparr>))"

definition updateK8sServiceCIDR :: "'w info_client \<Rightarrow> ('w, unit) info" where
  "updateK8sServiceCIDR cli =
     bindp (info_call (ic_get_info cli ''default'')) (\<lambda>info.
     if \<not> ad_cluster_ip (ci_auto_detect (ci_spec info)) then ret ()
     else bindp (GetClusterCIDR cli) (\<lambda>new.
       let write = write_status cli info (\<lambda>st. st\<lparr>cs_cluster_ip := Some (pair_of new)\<rparr>) in
       case cs_cluster_ip (ci_status info) of
         Some val \<Rightarrow> if pair_differs val new then write else ret ()
       | None \<Rightarrow> write))"

section \<open>Reconcilers\<close>

text \<open>
  The map of a status after an event of the object \<open>nm\<close>: \<open>found\<close> has its addresses, or is \<open>None\<close> when the object is
  gone. The result is \<open>None\<close> when nothing has to be written.
\<close>

definition sync_entry :: "string \<Rightarrow> (string list \<times> string list) option \<Rightarrow> (string \<times> ip_list_pair) list \<Rightarrow> (string \<times> ip_list_pair) list option" where
  "sync_entry nm found m = (case found of
     None \<Rightarrow> (case map_of m nm of None \<Rightarrow> None | Some _ \<Rightarrow> Some (AList.delete nm m))
   | Some new \<Rightarrow> (case map_of m nm of
       Some val \<Rightarrow> if pair_differs val new then Some (AList.update nm (pair_of new) m) else None
     | None \<Rightarrow> Some (AList.update nm (pair_of new) m)))"

definition info_reconcileNode :: "'w info_client \<Rightarrow> request \<Rightarrow> ('w, unit) info" where
  "info_reconcileNode cli req =
     bindp (info_fetch (ic_get_info cli ''default'')) (\<lambda>info. case info of
       None \<Rightarrow> ret ()
     | Some info \<Rightarrow>
         if \<not> ad_node_ip (ci_auto_detect (ci_spec info)) then ret ()
         else bindp (info_fetch (ic_get_node cli (req_name req))) (\<lambda>node.
           let found = (case node of None \<Rightarrow> None | Some n \<Rightarrow> if om_deleting (node_meta n) then None else Some (getNodeIPList (Some n))) in
           case sync_entry (req_name req) found (cs_node_ip (ci_status info)) of
             None \<Rightarrow> ret ()
           | Some m \<Rightarrow> write_status cli info (\<lambda>st. st\<lparr>cs_node_ip := m\<rparr>)))"

definition reconcileCalicoIPPool :: "'w info_client \<Rightarrow> request \<Rightarrow> ('w, unit) info" where
  "reconcileCalicoIPPool cli req =
     bindp (info_fetch (ic_get_info cli ''default'')) (\<lambda>info. case info of
       None \<Rightarrow> ret ()
     | Some info \<Rightarrow>
         if ad_pod_cidr_mode (ci_auto_detect (ci_spec info)) \<notin> {''calico'', ''auto''} then ret ()
         else bindp (info_fetch (ic_get_pool cli (req_name req))) (\<lambda>pool.
           let found = (case pool of None \<Rightarrow> None | Some p \<Rightarrow> if om_deleting (cp_meta p) then None else Some (getCalicoIPPoolList (Some p))) in
           case sync_entry (req_name req) found (cs_pod_cidr (ci_status info)) of
             None \<Rightarrow> ret ()
           | Some m \<Rightarrow> write_status cli info (\<lambda>st. st\<lparr>cs_pod_cidr := m\<rparr>)))"

text \<open>The watch on the pools is given up when they cannot be listed and tried again when it cannot be registered.\<close>

definition watch_attempt :: "'w info_client \<Rightarrow> ('w, unit) info" where
  "watch_attempt cli = bindp (attempt (info_call (ic_list_pools cli))) (\<lambda>res. case res of
     Inl (_ :: info_err) \<Rightarrow> ret ()
   | Inr _ \<Rightarrow> info_call (ic_watch_pools cli))"

definition watchCalico :: "'w info_client \<Rightarrow> ('w, unit) info" where
  "watchCalico cli s = (case redo (\<lambda>_. watch_attempt cli) 0 s of None \<Rightarrow> (Diverge, s) | Some r \<Rightarrow> r)"

definition watch_once :: "'w info_client \<Rightarrow> ('w, unit) info" where
  "watch_once cli s = (if iw_watched s then (Ok (), s) else case watchCalico cli s of (r, s') \<Rightarrow> (r, s'\<lparr>iw_watched := True\<rparr>))"

definition reconcileInfo :: "'w info_client \<Rightarrow> request \<Rightarrow> ('w, unit) info" where
  "reconcileInfo cli req =
     bindp (info_fetch (ic_get_info cli (req_name req))) (\<lambda>info. case info of
       None \<Rightarrow> ret ()
     | Some info \<Rightarrow>
         if om_deleting (ci_meta info) then ret ()
         else bindp (if ad_pod_cidr_mode (ci_auto_detect (ci_spec info)) \<in> {''auto'', ''calico''} then watch_once cli else ret ()) (\<lambda>_.
           if \<not> EqualStringSlice (ci_extra_cidr (ci_spec info)) (cs_extra_cidr (ci_status info))
           then write_status cli info (\<lambda>st. st\<lparr>cs_extra_cidr := ci_extra_cidr (ci_spec info)\<rparr>)
           else ret ()))"

definition first_cidr :: "'w info_client \<Rightarrow> ('w, unit) info" where
  "first_cidr cli s = (if iw_done s then (Ok (), s) else case redo (\<lambda>_. updateK8sServiceCIDR cli) 0 s of
     None \<Rightarrow> (Diverge, s)
   | Some (r, s') \<Rightarrow> (r, s'\<lparr>iw_done := True\<rparr>))"

definition info_Reconcile :: "'w info_client \<Rightarrow> request \<Rightarrow> ('w info_world, bool \<times> info_err, bool) prog" where
  "info_Reconcile cli req =
     bindp (or_fail (Pair False) (first_cidr cli)) (\<lambda>_.
     bindp (or_fail (Pair False) (lift (oc_map_err (\<lambda>_. InfoRequest) (ParseKindWithReq req)))) (\<lambda>(kind, newReq).
     let run = (\<lambda>m. bindp (or_fail (Pair True) m) (\<lambda>_. ret False)) in
     if kind = ''Node'' then run (info_reconcileNode cli newReq)
     else if kind = ''CalicoIPPool'' then run (reconcileCalicoIPPool cli newReq)
     else if kind = ''EgressClusterInfo'' then run (reconcileInfo cli newReq)
     else ret False))"

section \<open>Predicates\<close>

datatype 'o info_event = InfoCreate | InfoDelete | InfoUpdate 'o 'o | InfoGeneric

definition ci_nodePredicate :: "k8s_node info_event \<Rightarrow> bool" where
  "ci_nodePredicate ev = (case ev of
     InfoCreate \<Rightarrow> True
   | InfoDelete \<Rightarrow> True
   | InfoUpdate old new \<Rightarrow> pair_differs (pair_of (getNodeIPList (Some old))) (getNodeIPList (Some new))
   | InfoGeneric \<Rightarrow> False)"

definition infoPredicate :: "cluster_info info_event \<Rightarrow> bool" where
  "infoPredicate ev = (case ev of
     InfoCreate \<Rightarrow> True
   | InfoDelete \<Rightarrow> False
   | InfoUpdate old new \<Rightarrow> ci_auto_detect (ci_spec old) \<noteq> ci_auto_detect (ci_spec new) \<or>
       \<not> EqualStringSlice (ci_extra_cidr (ci_spec old)) (ci_extra_cidr (ci_spec new))
   | InfoGeneric \<Rightarrow> False)"

end
