(* ===== verification/ClusterInfoProps.thy ===== *)
theory ClusterInfoProps
  imports ClusterInfo ApiStore
begin

text \<open>
  What the controller of the cluster information promises: each event makes the entry of its object current and leaves the
  others, so that after an event of every object the status lists the cluster, as the agents read it.
\<close>

section \<open>The status as a map\<close>






section \<open>The server\<close>


section \<open>A server in memory\<close>




section \<open>Example\<close>







section \<open>Properties\<close>













end
