(* ===== verification/Netlink.thy ===== *)
theory Netlink
  imports NetIP Prelude
begin

text \<open>
  The part of \<^verbatim>\<open>vishvananda/netlink\<close> that the agent calls: rules, routes, links, addresses and neighbours, as a record
  of calls that is a parameter of the agent, and a kernel in memory that answers them. \<^verbatim>\<open>net.ParseMAC\<close> and the text
  of a hardware address are those of Go's library.
\<close>

section \<open>Hardware addresses\<close>

type_synonym mac = "nat list"

text \<open>Two hexadecimal digits, followed by the separator or by the end of the text.\<close>

definition xtoi2 :: "string \<Rightarrow> char option \<Rightarrow> nat option" where
  "xtoi2 s e =
     (if length s > 2 \<and> Some (s ! 2) \<noteq> e then None
      else case s of
        a # b # _ \<Rightarrow> (case (hex_digit a, hex_digit b) of (Some x, Some y) \<Rightarrow> Some (16 * x + y) | _ \<Rightarrow> None)
      | _ \<Rightarrow> None)"

fun mac_pairs :: "char \<Rightarrow> nat \<Rightarrow> string \<Rightarrow> mac option" where
  "mac_pairs sep 0 s = Some []"
| "mac_pairs sep (Suc n) s = (case xtoi2 s (Some sep) of
     None \<Rightarrow> None
   | Some b \<Rightarrow> map_option ((#) b) (mac_pairs sep n (drop 3 s)))"

fun mac_quads :: "nat \<Rightarrow> string \<Rightarrow> mac option" where
  "mac_quads 0 s = Some []"
| "mac_quads (Suc n) s = (case (xtoi2 (take 2 s) None, xtoi2 (drop 2 s) (Some (CHR ''.''))) of
     (Some a, Some b) \<Rightarrow> map_option (\<lambda>r. a # b # r) (mac_quads n (drop 5 s))
   | _ \<Rightarrow> None)"

definition ParseMAC :: "string \<Rightarrow> mac option" where
  "ParseMAC s =
     (if length s < 14 then None
      else if s ! 2 \<in> {CHR '':'', CHR ''-''}
      then if (length s + 1) mod 3 \<noteq> 0 then None
           else let n = (length s + 1) div 3 in if n \<notin> {6, 8, 20} then None else mac_pairs (s ! 2) n s
      else if s ! 4 = CHR ''.''
      then if (length s + 1) mod 5 \<noteq> 0 then None
           else let n = 2 * ((length s + 1) div 5) in if n \<notin> {6, 8, 20} then None else mac_quads (n div 2) s
      else None)"

definition mac_string :: "mac \<Rightarrow> string" where
  "mac_string m = join_with '':'' (map hex_byte m)"

section \<open>Objects of the kernel\<close>

text \<open>Families have the numbers of Linux; a rule that is listed carries no family.\<close>

type_synonym family = int

definition FAMILY_V4 :: family where "FAMILY_V4 = 2"
definition FAMILY_V6 :: family where "FAMILY_V6 = 10"
definition AF_BRIDGE :: family where "AF_BRIDGE = 7"

definition family_of_ip :: "netip \<Rightarrow> family" where
  "family_of_ip ip = (if to4 ip \<noteq> nil_ip then FAMILY_V4 else FAMILY_V6)"

text \<open>The selectors of a rule that the agent never sets are kept together.\<close>

record nl_rule =
  ru_family :: family
  ru_priority :: int
  ru_table :: int
  ru_mark :: int
  ru_other :: string

definition NewRule :: nl_rule where
  "NewRule = \<lparr>ru_family = 0, ru_priority = - 1, ru_table = 0, ru_mark = - 1, ru_other = []\<rparr>"

record nl_route =
  rt_family :: family
  rt_table :: int
  rt_link :: int
  rt_gw :: netip
  rt_dst :: "ipnet option"
  rt_src :: netip

record vxlan_attrs =
  vx_id :: int
  vx_dev :: int
  vx_src :: netip
  vx_group :: netip
  vx_port :: int
  vx_learning :: bool
  vx_l2miss :: bool

datatype link_kind = VxlanLink vxlan_attrs | OtherLink string

record nl_link =
  lk_index :: int
  lk_name :: string
  lk_hw :: mac
  lk_up :: bool
  lk_kind :: link_kind

record nl_neigh =
  ng_link :: int
  ng_family :: family
  ng_self :: bool
  ng_ip :: netip
  ng_hw :: mac

datatype nl_err = EEXIST | NlErr string

text \<open>The calls; a link is found by its index, or by its name when the index is zero.\<close>

record 'w netlink =
  nl_rule_list :: "family \<Rightarrow> int option \<Rightarrow> ('w, nl_err, nl_rule list) prog"
  nl_rule_del :: "nl_rule \<Rightarrow> ('w, nl_err, unit) prog"
  nl_rule_add :: "nl_rule \<Rightarrow> ('w, nl_err, unit) prog"
  nl_route_list :: "family \<Rightarrow> int \<Rightarrow> ('w, nl_err, nl_route list) prog"
  nl_route_del :: "nl_route \<Rightarrow> ('w, nl_err, unit) prog"
  nl_route_add :: "nl_route \<Rightarrow> ('w, nl_err, unit) prog"
  nl_link_by_name :: "string \<Rightarrow> ('w, nl_err, nl_link) prog"
  nl_link_by_index :: "int \<Rightarrow> ('w, nl_err, nl_link) prog"
  nl_link_add :: "nl_link \<Rightarrow> ('w, nl_err, int) prog"
  nl_link_del :: "nl_link \<Rightarrow> ('w, nl_err, unit) prog"
  nl_link_up :: "nl_link \<Rightarrow> ('w, nl_err, unit) prog"
  nl_addr_list :: "nl_link \<Rightarrow> family \<Rightarrow> ('w, nl_err, ipnet list) prog"
  nl_addr_del :: "nl_link \<Rightarrow> ipnet \<Rightarrow> ('w, nl_err, unit) prog"
  nl_addr_add :: "nl_link \<Rightarrow> ipnet \<Rightarrow> ('w, nl_err, unit) prog"
  nl_neigh_list :: "int \<Rightarrow> family \<Rightarrow> ('w, nl_err, nl_neigh list) prog"
  nl_neigh_set :: "nl_neigh \<Rightarrow> ('w, nl_err, unit) prog"
  nl_neigh_del :: "nl_neigh \<Rightarrow> ('w, nl_err, unit) prog"

section \<open>A kernel\<close>

record net_view =
  nv_rules :: "nl_rule list"
  nv_routes :: "nl_route list"
  nv_links :: "nl_link list"
  nv_addrs :: "(int \<times> ipnet) list"
  nv_neighs :: "nl_neigh list"

text \<open>A rule without a family belongs to IPv4.\<close>

definition kernel_rule :: "nl_rule \<Rightarrow> nl_rule" where
  "kernel_rule r = (if ru_family r = 0 then r\<lparr>ru_family := FAMILY_V4\<rparr> else r)"

definition k_rule_list :: "family \<Rightarrow> int option \<Rightarrow> (net_view, nl_err, nl_rule list) prog" where
  "k_rule_list f flt v =
     (Ok (map (\<lambda>r. r\<lparr>ru_family := 0\<rparr>) (filter (\<lambda>r. ru_family r = f \<and> (case flt of None \<Rightarrow> True | Some m \<Rightarrow> ru_mark r = m)) (nv_rules v))), v)"

definition k_rule_del :: "nl_rule \<Rightarrow> (net_view, nl_err, unit) prog" where
  "k_rule_del r v = (if kernel_rule r \<in> set (nv_rules v) then (Ok (), v\<lparr>nv_rules := remove1 (kernel_rule r) (nv_rules v)\<rparr>)
     else (Err (NlErr ''no such file or directory''), v))"

definition k_rule_add :: "nl_rule \<Rightarrow> (net_view, nl_err, unit) prog" where
  "k_rule_add r v = (if kernel_rule r \<in> set (nv_rules v) then (Err EEXIST, v)
     else (Ok (), v\<lparr>nv_rules := nv_rules v @ [kernel_rule r]\<rparr>))"

definition route_named :: "nl_route \<Rightarrow> bool" where
  "route_named r = (rt_dst r \<noteq> None \<or> rt_src r \<noteq> nil_ip \<or> rt_gw r \<noteq> nil_ip)"

definition k_route_list :: "family \<Rightarrow> int \<Rightarrow> (net_view, nl_err, nl_route list) prog" where
  "k_route_list f table v = (Ok (filter (\<lambda>r. rt_family r = f \<and> rt_table r = table) (nv_routes v)), v)"

definition k_route_del :: "nl_route \<Rightarrow> (net_view, nl_err, unit) prog" where
  "k_route_del r v =
     (if \<not> route_named r then (Err (NlErr ''Either Dst.IP, Src.IP or Gw must be set''), v)
      else if r \<in> set (nv_routes v) then (Ok (), v\<lparr>nv_routes := remove1 r (nv_routes v)\<rparr>)
      else (Err (NlErr ''no such process''), v))"

definition link_here :: "nl_link \<Rightarrow> net_view \<Rightarrow> nl_link option" where
  "link_here l v = find (\<lambda>x. if lk_index l = 0 then lk_name x = lk_name l else lk_index x = lk_index l) (nv_links v)"

text \<open>A gateway is reached over an address of the link.\<close>

definition on_link :: "net_view \<Rightarrow> int \<Rightarrow> netip \<Rightarrow> bool" where
  "on_link v i gw = list_ex (\<lambda>(j, n). j = i \<and> ipnet_contains n gw) (nv_addrs v)"

definition link_is_up :: "net_view \<Rightarrow> int \<Rightarrow> bool" where
  "link_is_up v i = list_ex (\<lambda>l. lk_index l = i \<and> lk_up l) (nv_links v)"

definition kernel_route :: "nl_route \<Rightarrow> nl_route" where
  "kernel_route r = r\<lparr>rt_family := family_of_ip (rt_gw r), rt_gw := (if to4 (rt_gw r) \<noteq> nil_ip then to4 (rt_gw r) else rt_gw r)\<rparr>"

definition k_route_add :: "nl_route \<Rightarrow> (net_view, nl_err, unit) prog" where
  "k_route_add r v =
     (let k = kernel_route r in
      if \<not> route_named r then (Err (NlErr ''Either Dst.IP, Src.IP or Gw must be set''), v)
      else if list_ex (\<lambda>x. rt_family x = rt_family k \<and> rt_table x = rt_table k \<and> rt_dst x = rt_dst k) (nv_routes v) then (Err EEXIST, v)
      else if \<not> link_is_up v (rt_link r) then (Err (NlErr ''network is down''), v)
      else if \<not> on_link v (rt_link r) (rt_gw r) then (Err (NlErr ''network is unreachable''), v)
      else (Ok (), v\<lparr>nv_routes := nv_routes v @ [k]\<rparr>))"

definition k_link_by_name :: "string \<Rightarrow> (net_view, nl_err, nl_link) prog" where
  "k_link_by_name nm v = (case find (\<lambda>l. lk_name l = nm) (nv_links v) of None \<Rightarrow> (Err (NlErr ''Link not found''), v) | Some l \<Rightarrow> (Ok l, v))"

definition k_link_by_index :: "int \<Rightarrow> (net_view, nl_err, nl_link) prog" where
  "k_link_by_index i v = (case find (\<lambda>l. lk_index l = i) (nv_links v) of None \<Rightarrow> (Err (NlErr ''Link not found''), v) | Some l \<Rightarrow> (Ok l, v))"

definition free_index :: "net_view \<Rightarrow> int" where
  "free_index v = fold max (map lk_index (nv_links v)) 0 + 1"

definition k_link_add :: "nl_link \<Rightarrow> (net_view, nl_err, int) prog" where
  "k_link_add l v = (if list_ex (\<lambda>x. lk_name x = lk_name l) (nv_links v) then (Err EEXIST, v)
     else (Ok (free_index v), v\<lparr>nv_links := nv_links v @ [l\<lparr>lk_index := free_index v, lk_up := False\<rparr>]\<rparr>))"

text \<open>With a link its addresses, routes and neighbours disappear.\<close>

definition k_link_del :: "nl_link \<Rightarrow> (net_view, nl_err, unit) prog" where
  "k_link_del l v = (case link_here l v of
     None \<Rightarrow> (Err (NlErr ''no such device''), v)
   | Some x \<Rightarrow> (Ok (), v\<lparr>nv_links := filter (\<lambda>y. lk_index y \<noteq> lk_index x) (nv_links v), nv_addrs := filter (\<lambda>(j, _). j \<noteq> lk_index x) (nv_addrs v),
       nv_routes := filter (\<lambda>r. rt_link r \<noteq> lk_index x) (nv_routes v), nv_neighs := filter (\<lambda>n. ng_link n \<noteq> lk_index x) (nv_neighs v)\<rparr>))"

definition k_link_up :: "nl_link \<Rightarrow> (net_view, nl_err, unit) prog" where
  "k_link_up l v = (case link_here l v of
     None \<Rightarrow> (Err (NlErr ''no such device''), v)
   | Some x \<Rightarrow> (Ok (), v\<lparr>nv_links := map (\<lambda>y. if lk_index y = lk_index x then y\<lparr>lk_up := True\<rparr> else y) (nv_links v)\<rparr>))"

definition k_addr_list :: "nl_link \<Rightarrow> family \<Rightarrow> (net_view, nl_err, ipnet list) prog" where
  "k_addr_list l f v = (case link_here l v of
     None \<Rightarrow> (Err (NlErr ''no such device''), v)
   | Some x \<Rightarrow> (Ok (map snd (filter (\<lambda>(j, n). j = lk_index x \<and> family_of_ip (net_ip n) = f) (nv_addrs v))), v))"

definition k_addr_del :: "nl_link \<Rightarrow> ipnet \<Rightarrow> (net_view, nl_err, unit) prog" where
  "k_addr_del l n v = (case link_here l v of
     None \<Rightarrow> (Err (NlErr ''no such device''), v)
   | Some x \<Rightarrow> if (lk_index x, n) \<in> set (nv_addrs v) then (Ok (), v\<lparr>nv_addrs := remove1 (lk_index x, n) (nv_addrs v)\<rparr>)
       else (Err (NlErr ''cannot assign requested address''), v))"

definition k_addr_add :: "nl_link \<Rightarrow> ipnet \<Rightarrow> (net_view, nl_err, unit) prog" where
  "k_addr_add l n v = (case link_here l v of
     None \<Rightarrow> (Err (NlErr ''no such device''), v)
   | Some x \<Rightarrow> if (lk_index x, n) \<in> set (nv_addrs v) then (Err EEXIST, v) else (Ok (), v\<lparr>nv_addrs := nv_addrs v @ [(lk_index x, n)]\<rparr>))"

text \<open>
  A neighbour entry is keyed by link and address, an entry of the forwarding table of a bridge (here of the tunnel device)
  by link and hardware address; setting replaces the entry with the key, deleting needs the whole entry.
\<close>

definition kernel_neigh :: "nl_neigh \<Rightarrow> nl_neigh" where
  "kernel_neigh n = (if ng_family n = 0 then n\<lparr>ng_family := family_of_ip (ng_ip n)\<rparr> else n)"

definition same_key :: "nl_neigh \<Rightarrow> nl_neigh \<Rightarrow> bool" where
  "same_key a b = (ng_link a = ng_link b \<and> ng_family a = ng_family b \<and>
     (if ng_family a = AF_BRIDGE then ng_hw a = ng_hw b else ip_equal (ng_ip a) (ng_ip b)))"

definition k_neigh_list :: "int \<Rightarrow> family \<Rightarrow> (net_view, nl_err, nl_neigh list) prog" where
  "k_neigh_list i f v = (Ok (filter (\<lambda>n. ng_link n = i \<and> ng_family n = f) (nv_neighs v)), v)"

definition k_neigh_set :: "nl_neigh \<Rightarrow> (net_view, nl_err, unit) prog" where
  "k_neigh_set n v = (Ok (), v\<lparr>nv_neighs := filter (\<lambda>x. \<not> same_key x (kernel_neigh n)) (nv_neighs v) @ [kernel_neigh n]\<rparr>)"

definition k_neigh_del :: "nl_neigh \<Rightarrow> (net_view, nl_err, unit) prog" where
  "k_neigh_del n v =
     (let hit = (\<lambda>x. same_key x (kernel_neigh n) \<and> (ng_family x = AF_BRIDGE \<longrightarrow> ip_equal (ng_ip x) (ng_ip n)))
      in if list_ex hit (nv_neighs v) then (Ok (), v\<lparr>nv_neighs := filter (\<lambda>x. \<not> hit x) (nv_neighs v)\<rparr>)
         else (Err (NlErr ''no such file or directory''), v))"

definition kernel_netlink :: "net_view netlink" where
  "kernel_netlink = \<lparr>nl_rule_list = k_rule_list, nl_rule_del = k_rule_del, nl_rule_add = k_rule_add,
     nl_route_list = k_route_list, nl_route_del = k_route_del, nl_route_add = k_route_add,
     nl_link_by_name = k_link_by_name, nl_link_by_index = k_link_by_index, nl_link_add = k_link_add, nl_link_del = k_link_del, nl_link_up = k_link_up,
     nl_addr_list = k_addr_list, nl_addr_del = k_addr_del, nl_addr_add = k_addr_add,
     nl_neigh_list = k_neigh_list, nl_neigh_set = k_neigh_set, nl_neigh_del = k_neigh_del\<rparr>"

lemmas kernel_defs = kernel_netlink_def k_rule_list_def k_rule_del_def k_rule_add_def k_route_list_def k_route_del_def k_route_add_def
  k_link_by_name_def k_link_by_index_def k_link_add_def k_link_del_def k_link_up_def k_addr_list_def k_addr_del_def k_addr_add_def
  k_neigh_list_def k_neigh_set_def k_neigh_del_def

end
