(* ===== verification/RuleRoute.thy ===== *)
theory RuleRoute
  imports Netlink MarkAllocator
begin

text \<open>
  \<^verbatim>\<open>pkg/agent/route/route.go\<close>: one policy rule per packet mark, which leads to a table with one route to the peer. The
  netlink calls are a parameter.
\<close>

section \<open>Rules and routes of a mark\<close>

record rule_route =
  rr_priority :: int

datatype route_option = WithPriority int | WithLogger

fun apply_option :: "route_option \<Rightarrow> rule_route \<Rightarrow> rule_route" where
  "apply_option (WithPriority p) r = r\<lparr>rr_priority := p\<rparr>"
| "apply_option WithLogger r = r"

definition NewRuleRoute :: "route_option list \<Rightarrow> rule_route" where
  "NewRuleRoute opts = fold apply_option opts \<lparr>rr_priority = 99\<rparr>"

datatype route_err = RouteNl nl_err | RouteMark mark_err

type_synonym ('w, 'a) route = "('w, route_err, 'a) prog"

definition nlr :: "('w, nl_err, 'a) prog \<Rightarrow> ('w, 'a) route" where
  "nlr m = or_fail RouteNl m"

text \<open>The rules of one family with a mark of the range that is not in use are deleted.\<close>

definition clean_rules :: "'w netlink \<Rightarrow> int set \<Rightarrow> 64 word \<times> 64 word \<Rightarrow> family \<Rightarrow> ('w, unit) route" where
  "clean_rules nl marks lim f =
     bindp (nlr (nl_rule_list nl f None)) (\<lambda>rules.
     for_each (\<lambda>rule _.
         if ru_mark rule \<notin> marks \<and> sint (fst lim) \<le> ru_mark rule \<and> sint (snd lim) \<ge> ru_mark rule
         then nlr (nl_rule_del nl (rule\<lparr>ru_family := f\<rparr>)) else ret ()) rules ())"

definition PurgeStaleRules :: "'w netlink \<Rightarrow> int set \<Rightarrow> string \<Rightarrow> ('w, unit) route" where
  "PurgeStaleRules nl marks baseMark =
     bindp (lift (oc_map_err RouteMark (RangeSize baseMark))) (\<lambda>lim.
     bindp (clean_rules nl marks lim FAMILY_V4) (\<lambda>_. clean_rules nl marks lim FAMILY_V6))"

definition EnsureRoute :: "'w netlink \<Rightarrow> nl_link \<Rightarrow> netip option \<Rightarrow> family \<Rightarrow> int \<Rightarrow> ('w, unit) route" where
  "EnsureRoute nl link ip f table =
     bindp (nlr (nl_route_list nl f table)) (\<lambda>routes.
     bindp (for_each (\<lambda>route found.
         if rt_table route = table
         then case ip of
             None \<Rightarrow> bindp (nlr (nl_route_del nl route)) (\<lambda>_. ret found)
           | Some a \<Rightarrow> if ip_string (rt_gw route) \<noteq> ip_string a then bindp (nlr (nl_route_del nl route)) (\<lambda>_. ret found) else ret True
         else ret found) routes False) (\<lambda>found.
     case ip of
       None \<Rightarrow> ret ()
     | Some a \<Rightarrow> if found then ret ()
         else nlr (nl_route_add nl \<lparr>rt_family = 0, rt_table = table, rt_link = lk_index link, rt_gw = a, rt_dst = None, rt_src = nil_ip\<rparr>)))"

definition EnsureRule :: "'w netlink \<Rightarrow> rule_route \<Rightarrow> family \<Rightarrow> int \<Rightarrow> int \<Rightarrow> ('w, unit) route" where
  "EnsureRule nl r f table mark =
     bindp (nlr (nl_rule_list nl f (Some mark))) (\<lambda>rules.
     bindp (for_each (\<lambda>rule found.
         if ru_table rule \<noteq> table \<or> ru_priority rule \<noteq> rr_priority r \<or> found
         then bindp (nlr (nl_rule_del nl (rule\<lparr>ru_family := f\<rparr>))) (\<lambda>_. ret found)
         else ret True) rules False) (\<lambda>found.
     if found then ret ()
     else nlr (nl_rule_add nl (NewRule\<lparr>ru_table := table, ru_mark := mark, ru_family := f, ru_priority := rr_priority r\<rparr>))))"

definition Ensure :: "'w netlink \<Rightarrow> rule_route \<Rightarrow> string \<Rightarrow> netip option \<Rightarrow> netip option \<Rightarrow> int \<Rightarrow> int \<Rightarrow> ('w, unit) route" where
  "Ensure nl r linkName ipv4 ipv6 table mark =
     (if mark = 0 then ret ()
      else bindp (if ipv4 \<noteq> None then EnsureRule nl r FAMILY_V4 table mark else ret ()) (\<lambda>_.
        bindp (if ipv6 \<noteq> None then EnsureRule nl r FAMILY_V6 table mark else ret ()) (\<lambda>_.
        bindp (nlr (nl_link_by_name nl linkName)) (\<lambda>link.
        bindp (EnsureRoute nl link ipv4 FAMILY_V4 table) (\<lambda>_.
        EnsureRoute nl link ipv6 FAMILY_V6 table)))))"

end
