(* ===== verification/VxlanDevice.thy ===== *)
theory VxlanDevice
  imports RuleRoute GatewayCtl
begin

text \<open>
  \<^verbatim>\<open>pkg/agent/vxlan\<close>: the VXLAN device of the node, its addresses and the neighbours that lead to the peers
  (\<^verbatim>\<open>vxlan.go\<close>), and the choice of the parent interface (\<^verbatim>\<open>parent.go\<close>). The netlink calls, the files
  under \<^verbatim>\<open>/proc/sys\<close> and the switch for checksum offloading are parameters.
\<close>

section \<open>The world of the device\<close>

text \<open>The state of the node and the link that the device manager keeps, a nil pointer before it is ready.\<close>

record 'w dev_world =
  dw_net :: 'w
  dw_link :: "nl_link option"

datatype vx_err = VxNl nl_err | VxParent string | VxLink string | VxShortWrite | VxNeigh | VxApi api_err | VxRequest | VxRoute route_err | ErrHeartbeatTime

type_synonym ('w, 'z, 'a) dev = "(('w, 'z) dev_world_scheme, vx_err, 'a) prog"

record 'w dev_env =
  de_nl :: "'w netlink"
  de_open :: "string \<Rightarrow> ('w, nl_err, unit) prog"
  de_write :: "string \<Rightarrow> string \<Rightarrow> ('w, nl_err, nat) prog"
  de_tx_off :: "string \<Rightarrow> ('w, nl_err, unit) prog"

definition on_net :: "('w, 'e, 'a) prog \<Rightarrow> (('w, 'z) dev_world_scheme, 'e, 'a) prog" where
  "on_net m = (\<lambda>s. case m (dw_net s) of (r, w) \<Rightarrow> (r, s\<lparr>dw_net := w\<rparr>))"

definition dnl :: "('w, nl_err, 'a) prog \<Rightarrow> ('w, 'z, 'a) dev" where
  "dnl m = or_fail VxNl (on_net m)"

section \<open>The parent interface\<close>

record parent_if =
  pi_name :: string
  pi_ip :: netip
  pi_index :: int

definition version_family :: "int \<Rightarrow> family" where
  "version_family version = (if version = 6 then FAMILY_V6 else FAMILY_V4)"

definition IsLinkLocalUnicast :: "netip \<Rightarrow> bool" where
  "IsLinkLocalUnicast ip = (let i4 = to4 ip in
     if i4 \<noteq> nil_ip then i4 ! 0 = 169 \<and> i4 ! 1 = 254 else length ip = 16 \<and> ip ! 0 = 254 \<and> ip ! 1 div 64 = 2)"

definition IsMulticast :: "netip \<Rightarrow> bool" where
  "IsMulticast ip = (let i4 = to4 ip in if i4 \<noteq> nil_ip then i4 ! 0 div 16 = 14 else length ip = 16 \<and> ip ! 0 = 255)"

definition IsLoopback :: "netip \<Rightarrow> bool" where
  "IsLoopback ip = (let i4 = to4 ip in if i4 \<noteq> nil_ip then i4 ! 0 = 127 else ip_equal ip (replicate 15 0 @ [1]))"

definition IsGlobalUnicast :: "netip \<Rightarrow> bool" where
  "IsGlobalUnicast ip =
     (length ip \<in> {4, 16} \<and> \<not> ip_equal ip [255, 255, 255, 255] \<and> \<not> ip_equal ip [0, 0, 0, 0] \<and> \<not> ip_equal ip (replicate 16 0) \<and>
      \<not> IsLoopback ip \<and> \<not> IsMulticast ip \<and> \<not> IsLinkLocalUnicast ip)"

definition host_mask :: "netip \<Rightarrow> bool" where
  "host_mask m = (length m \<in> {4, 16} \<and> list_all (\<lambda>b. b = 255) m)"

definition first_parent :: "nl_link \<Rightarrow> ipnet list \<Rightarrow> ('w, 'z, parent_if) dev" where
  "first_parent link addrs = (case find (\<lambda>_. True) addrs of
     None \<Rightarrow> fail (VxParent ''failed to find parent interface'')
   | Some a \<Rightarrow> ret \<lparr>pi_name = lk_name link, pi_ip = net_ip a, pi_index = lk_index link\<rparr>)"

definition GetParentByDefaultRoute :: "'w netlink \<Rightarrow> int \<Rightarrow> ('w, 'z, parent_if) dev" where
  "GetParentByDefaultRoute nl version =
     (let f = version_family version in
      bindp (dnl (nl_route_list nl f 254)) (\<lambda>routes.
      let index = (case find (\<lambda>r. rt_family r = f) routes of None \<Rightarrow> - 1 | Some r \<Rightarrow> rt_link r) in
      if index = - 1 then fail (VxParent ''not found default route link'')
      else bindp (dnl (nl_link_by_index nl index)) (\<lambda>link.
        bindp (dnl (nl_addr_list nl link f)) (\<lambda>addrs.
        first_parent link (filter (\<lambda>a. IsGlobalUnicast (net_ip a) \<and> \<not> host_mask (net_mask a)) addrs)))))"

definition GetParentByName :: "'w netlink \<Rightarrow> string \<Rightarrow> int \<Rightarrow> ('w, 'z, parent_if) dev" where
  "GetParentByName nl nm version =
     bindp (dnl (nl_link_by_name nl nm)) (\<lambda>link.
     bindp (dnl (nl_addr_list nl link (version_family version))) (\<lambda>addrs.
     first_parent link (filter (\<lambda>a. IsGlobalUnicast (net_ip a)) addrs)))"

text \<open>A label that a node does not have reads as the empty text.\<close>

definition matchesNodeSelector :: "(string \<times> string) list \<Rightarrow> (string \<times> string) list \<Rightarrow> bool" where
  "matchesNodeSelector lbls selector =
     list_all (\<lambda>(key, val). (case map_of lbls key of None \<Rightarrow> [] | Some v \<Rightarrow> v) = val) selector"

record custom_interface =
  ci_selector :: "(string \<times> string) list"
  ci_interface :: string

definition GetParentByCustomName :: "'w netlink \<Rightarrow> string \<Rightarrow> custom_interface list \<Rightarrow> string \<Rightarrow>
    (string \<Rightarrow> ('w, 'z, (string \<times> string) list) dev) \<Rightarrow> int \<Rightarrow> ('w, 'z, parent_if) dev" where
  "GetParentByCustomName nl nm override nodeName get_labels version =
     (if nodeName = [] then fail (VxParent ''NODE_NAME environment variable is not set'')
      else bindp (get_labels nodeName) (\<lambda>lbls.
        case find (\<lambda>o'. matchesNodeSelector lbls (ci_selector o')) override of
          Some o' \<Rightarrow> GetParentByName nl (ci_interface o') version
        | None \<Rightarrow> GetParentByName nl nm version))"

section \<open>The device\<close>

text \<open>The first attribute in which two links differ.\<close>

definition diffLink :: "nl_link \<Rightarrow> nl_link \<Rightarrow> string option" where
  "diffLink l1 l2 = (case (lk_kind l1, lk_kind l2) of
     (VxlanLink v1, VxlanLink v2) \<Rightarrow>
       if vx_id v1 \<noteq> vx_id v2 then Some ''vni''
       else if vx_dev v1 > 0 \<and> vx_dev v2 > 0 \<and> vx_dev v1 \<noteq> vx_dev v2 then Some ''parent interface''
       else if vx_src v1 \<noteq> [] \<and> vx_src v2 \<noteq> [] \<and> \<not> ip_equal (vx_src v1) (vx_src v2) then Some ''src addr''
       else if vx_group v1 \<noteq> [] \<and> vx_group v2 \<noteq> [] \<and> \<not> ip_equal (vx_group v1) (vx_group v2) then Some ''group address''
       else if vx_l2miss v1 \<noteq> vx_l2miss v2 then Some ''l2miss''
       else if vx_port v1 > 0 \<and> vx_port v2 > 0 \<and> vx_port v1 \<noteq> vx_port v2 then Some ''port''
       else None
   | _ \<Rightarrow> Some ''link type'')"

definition is_vxlan :: "nl_link \<Rightarrow> bool" where
  "is_vxlan l = (case lk_kind l of VxlanLink _ \<Rightarrow> True | OtherLink _ \<Rightarrow> False)"

text \<open>The link that is found and the wanted link, which carries an index once it was created.\<close>

definition locate_link :: "'w netlink \<Rightarrow> nl_link \<Rightarrow> int \<Rightarrow> ('w, 'z, nl_link \<times> nl_link) dev" where
  "locate_link nl vxlan index =
     bindp (attempt (dnl (nl_link_by_index nl index))) (\<lambda>res. case res of
       Inl (_ :: vx_err) \<Rightarrow> fail (VxLink ''can't locate created vxlan device'')
     | Inr link \<Rightarrow> if is_vxlan link then ret (link, vxlan\<lparr>lk_index := index\<rparr>) else fail (VxLink ''created device is not vxlan''))"

definition ensureLink :: "'w netlink \<Rightarrow> nl_link \<Rightarrow> ('w, 'z, nl_link \<times> nl_link) dev" where
  "ensureLink nl vxlan =
     bindp (attempt (dnl (nl_link_add nl vxlan))) (\<lambda>res. case res of
       Inr index \<Rightarrow> locate_link nl vxlan index
     | Inl e \<Rightarrow> if e \<noteq> VxNl EEXIST then fail e
         else bindp (dnl (nl_link_by_name nl (lk_name vxlan))) (\<lambda>existing.
           if diffLink vxlan existing = None then ret (existing, vxlan)
           else bindp (dnl (nl_link_del nl existing)) (\<lambda>_.
             bindp (dnl (nl_link_add nl vxlan)) (locate_link nl vxlan))))"

definition ensureAddr :: "'w netlink \<Rightarrow> ipnet option \<Rightarrow> nl_link \<Rightarrow> family \<Rightarrow> ('w, 'z, unit) dev" where
  "ensureAddr nl ipn link f = (case ipn of
     None \<Rightarrow> ret ()
   | Some n \<Rightarrow>
       bindp (dnl (nl_addr_list nl link f)) (\<lambda>gotAddrs.
       bindp (for_each (\<lambda>item needAdd. if item \<noteq> n then bindp (dnl (nl_addr_del nl link item)) (\<lambda>_. ret needAdd) else ret False) gotAddrs True) (\<lambda>needAdd.
       if needAdd then dnl (nl_addr_add nl link n) else ret ())))"

definition writeProcSys :: "'w dev_env \<Rightarrow> string \<Rightarrow> string \<Rightarrow> ('w, 'z, unit) dev" where
  "writeProcSys env path val =
     bindp (dnl (de_open env path)) (\<lambda>_.
     bindp (dnl (de_write env path val)) (\<lambda>n. if n < length val then fail VxShortWrite else ret ()))"

definition ensureFilter :: "'w dev_env \<Rightarrow> string \<Rightarrow> ipnet option \<Rightarrow> ('w, 'z, unit) dev" where
  "ensureFilter env ifname n4 =
     (if n4 \<noteq> None then writeProcSys env (''/proc/sys/net/ipv4/conf/'' @ ifname @ ''/rp_filter'') ''2'' else ret ())"

definition set_link :: "nl_link option \<Rightarrow> ('w, 'z, unit) dev" where
  "set_link l = (\<lambda>s. (Ok (), s\<lparr>dw_link := l\<rparr>))"

definition EnsureLink :: "'w dev_env \<Rightarrow> (int \<Rightarrow> ('w, 'z, parent_if) dev) \<Rightarrow> string \<Rightarrow> int \<Rightarrow> int \<Rightarrow> mac \<Rightarrow> ipnet option \<Rightarrow> ipnet option \<Rightarrow> bool \<Rightarrow>
    ('w, 'z, unit) dev" where
  "EnsureLink env getParent nm vni port hw n4 n6 disableChecksumOffload =
     (let nl = de_nl env; v = (if n4 = None \<and> n6 \<noteq> None then 6 else 4) in
      bindp (getParent v) (\<lambda>parent.
      let link = \<lparr>lk_index = 0, lk_name = nm, lk_hw = hw, lk_up = False, lk_kind = VxlanLink \<lparr>vx_id = vni, vx_dev = pi_index parent,
            vx_src = pi_ip parent, vx_group = [], vx_port = port, vx_learning = False, vx_l2miss = False\<rparr>\<rparr> in
      bindp (attempt (ensureLink nl link)) (\<lambda>res. case res of
        Inl e \<Rightarrow> bindp (set_link None) (\<lambda>_. fail e)
      | Inr (found, link) \<Rightarrow>
          bindp (set_link (Some found)) (\<lambda>_.
          bindp (ensureAddr nl n4 link FAMILY_V4) (\<lambda>_.
          bindp (ensureAddr nl n6 link FAMILY_V6) (\<lambda>_.
          bindp (ensureFilter env nm n4) (\<lambda>_.
          bindp (if disableChecksumOffload then dnl (de_tx_off env nm) else ret ()) (\<lambda>_.
          dnl (nl_link_up nl found)))))))))"

section \<open>Peers\<close>

record peer =
  pe_ipv4 :: "netip option"
  pe_ipv6 :: "netip option"
  pe_parent :: netip
  pe_mac :: mac
  pe_mark :: int

text \<open>What is done when the device is not ready, and with its link when it is.\<close>

definition when_ready :: "'a \<Rightarrow> (nl_link \<Rightarrow> ('w, 'z, 'a) dev) \<Rightarrow> ('w, 'z, 'a) dev" where
  "when_ready d f = (\<lambda>s. (case dw_link s of None \<Rightarrow> ret d | Some l \<Rightarrow> f l) s)"

definition ListNeigh :: "'w netlink \<Rightarrow> ('w, 'z, nl_neigh list) dev" where
  "ListNeigh nl = when_ready [] (\<lambda>link. dnl (nl_neigh_list nl (lk_index link) FAMILY_V4))"

definition add_neigh :: "'w netlink \<Rightarrow> nl_link \<Rightarrow> mac \<Rightarrow> netip \<Rightarrow> ('w, 'z, unit) dev" where
  "add_neigh nl link hw ip =
     dnl (nl_neigh_set nl \<lparr>ng_link = lk_index link, ng_family = 0, ng_self = False, ng_ip = ip, ng_hw = hw\<rparr>)"

definition Add :: "'w netlink \<Rightarrow> peer \<Rightarrow> ('w, 'z, unit) dev" where
  "Add nl p = when_ready () (\<lambda>link.
     bindp (case pe_ipv6 p of None \<Rightarrow> ret () | Some ip \<Rightarrow> add_neigh nl link (pe_mac p) ip) (\<lambda>_.
     bindp (case pe_ipv4 p of None \<Rightarrow> ret () | Some ip \<Rightarrow> add_neigh nl link (pe_mac p) ip) (\<lambda>_.
     dnl (nl_neigh_set nl \<lparr>ng_link = lk_index link, ng_family = AF_BRIDGE, ng_self = True, ng_ip = pe_parent p, ng_hw = pe_mac p\<rparr>))))"

definition Del :: "'w netlink \<Rightarrow> nl_neigh \<Rightarrow> ('w, 'z, unit) dev" where
  "Del nl neigh = when_ready () (\<lambda>_.
     bindp (attempt (dnl (nl_neigh_del nl (neigh\<lparr>ng_family := AF_BRIDGE, ng_self := True\<rparr>)))) (\<lambda>err1.
     bindp (attempt (dnl (nl_neigh_del nl neigh))) (\<lambda>err2.
     if isl err1 \<or> isl err2 then fail VxNeigh else ret ())))"

end
