(* ===== verification/VxlanAgent.thy ===== *)
theory VxlanAgent
  imports VxlanDevice AgentRules
begin

text \<open>
  \<^verbatim>\<open>pkg/agent/vxlan.go\<close>: the agent of a node keeps the peers of the tunnel network, the device, the neighbours, the
  rules and the routes of the marks, and writes parent, phase and heartbeat into the status of the node's tunnel. Clients,
  clock, netlink and map orders are parameters. \<open>keepVXLAN_round\<close> and \<open>heartbeat_tick\<close> are one turn of the two
  endless loops; sleeping and logging are left out.
\<close>

section \<open>State\<close>

record vxlan_config =
  vc_node :: string
  vc_v4 :: bool
  vc_v6 :: bool
  vc_name :: string
  vc_id :: int
  vc_port :: int
  vc_tx_off :: bool
  vc_net4 :: "ipnet option"
  vc_net6 :: "ipnet option"
  vc_mark :: string
  vc_period :: int

record 'c vxlan_client =
  vx_get_tunnel :: "string \<Rightarrow> ('c, egress_tunnel) api"
  vx_list_tunnels :: "('c, egress_tunnel list) api"
  vx_get_gateway :: "string \<Rightarrow> ('c, egress_gateway) api"
  vx_list_gateways :: "('c, egress_gateway list) api"
  vx_status :: "egress_tunnel \<Rightarrow> ('c, unit) api"
  vx_now :: "'c \<Rightarrow> int"
  vx_deadline :: "api_err \<Rightarrow> bool"

record ('c, 'w) vxlan_world = "'w dev_world" +
  vw_api :: 'c
  vw_peers :: "(string \<times> peer) list"
  vw_done :: bool
  vw_timer :: int

type_synonym ('c, 'w, 'a) vx = "(('c, 'w) vxlan_world, vx_err, 'a) prog"

record ('c, 'w) vxlanReconciler =
  vr_client :: "'c vxlan_client"
  vr_cfg :: vxlan_config
  vr_env :: "'w dev_env"
  vr_parent :: "int \<Rightarrow> ('c, 'w, parent_if) vx"
  vr_route :: rule_route

text \<open>The orders in which the maps of peers are visited in a run.\<close>

type_synonym vx_orders = "nat \<Rightarrow> string iter_order"

definition vapi :: "('c, 'a) api \<Rightarrow> ('c, 'w, 'a) vx" where
  "vapi m = (\<lambda>s. case m (vw_api s) of (r, c) \<Rightarrow> (oc_map_err VxApi r, s\<lparr>vw_api := c\<rparr>))"

definition vroute :: "('w, route_err, 'a) prog \<Rightarrow> ('c, 'w, 'a) vx" where
  "vroute m = or_fail VxRoute (on_net m)"

definition peers_of :: "('c, 'w, (string \<times> peer) list) vx" where
  "peers_of = (\<lambda>s. (Ok (vw_peers s), s))"

definition store_peer :: "string \<Rightarrow> peer \<Rightarrow> ('c, 'w, unit) vx" where
  "store_peer nm p = (\<lambda>s. (Ok (), s\<lparr>vw_peers := AList.update nm p (vw_peers s)\<rparr>))"

definition delete_peer :: "string \<Rightarrow> ('c, 'w, unit) vx" where
  "delete_peer nm = (\<lambda>s. (Ok (), s\<lparr>vw_peers := AList.delete nm (vw_peers s)\<rparr>))"

text \<open>A call whose error is only logged.\<close>

definition noted :: "('s, vx_err, unit) prog \<Rightarrow> ('s, vx_err, unit) prog" where
  "noted m = bindp (attempt m) (\<lambda>res. case res of Inl (_ :: vx_err) \<Rightarrow> ret () | Inr _ \<Rightarrow> ret ())"

definition version :: "vxlan_config \<Rightarrow> int" where
  "version cfg = (if \<not> vc_v4 cfg \<and> vc_v6 cfg then 6 else 4)"

definition parseMarkToInt :: "string \<Rightarrow> int option" where
  "parseMarkToInt mark = parse_int_hex32 (remove_0x mark)"

section \<open>The own tunnel end\<close>

definition vtep_addr :: "bool \<Rightarrow> string \<Rightarrow> (netip \<Rightarrow> bool) \<Rightarrow> bool \<times> netip option" where
  "vtep_addr enabled s good =
     (if \<not> enabled then (True, None)
      else if s = [] then (False, None)
      else (good (ParseIP s), Some (ParseIP s)))"

definition parseVTEP :: "vxlan_config \<Rightarrow> egress_tunnel_status \<Rightarrow> peer option" where
  "parseVTEP cfg st =
     (let t = et_tunnel st;
          (ready4, a4) = vtep_addr (vc_v4 cfg) (tunnel_ipv4 t) (\<lambda>ip. to4 ip \<noteq> nil_ip);
          (ready6, a6) = vtep_addr (vc_v6 cfg) (tunnel_ipv6 t) (\<lambda>ip. to16 ip \<noteq> nil_ip)
      in case ParseMAC (tunnel_mac t) of
        None \<Rightarrow> None
      | Some hw \<Rightarrow> if ready4 \<and> ready6 then Some \<lparr>pe_ipv4 = a4, pe_ipv6 = a6, pe_parent = nil_ip, pe_mac = hw, pe_mark = 0\<rparr> else None)"

definition updateTunnelStatus :: "('c, 'w) vxlanReconciler \<Rightarrow> egress_tunnel \<Rightarrow> ('c, 'w, unit) vx" where
  "updateTunnelStatus r t =
     (\<lambda>s. bindp (vapi (vx_status (vr_client r) (t\<lparr>et_status := (et_status t)\<lparr>et_last_heartbeat := vx_now (vr_client r) (vw_api s)\<rparr>\<rparr>)))
       (\<lambda>_ s'. (Ok (), s'\<lparr>vw_timer := vc_period (vr_cfg r)\<rparr>)) s)"

text \<open>The status with the parent interface and the phase, and whether it changed.\<close>

definition with_parent :: "int \<Rightarrow> parent_if \<Rightarrow> parent" where
  "with_parent v pif =
     (if v = 4 then \<lparr>parent_name = pi_name pif, parent_ipv4 = ip_string (pi_ip pif), parent_ipv6 = []\<rparr>
      else \<lparr>parent_name = pi_name pif, parent_ipv4 = [], parent_ipv6 = ip_string (pi_ip pif)\<rparr>)"

definition with_phase :: "vxlan_config \<Rightarrow> egress_tunnel_status \<Rightarrow> egress_tunnel_status" where
  "with_phase cfg st =
     (if parseVTEP cfg st \<noteq> None \<and> et_phase st \<noteq> EgressTunnelReady \<and> et_phase st \<noteq> EgressTunnelNodeNotReady
      then st\<lparr>et_phase := EgressTunnelReady\<rparr> else st)"

definition updateEgressTunnelStatus :: "('c, 'w) vxlanReconciler \<Rightarrow> egress_tunnel option \<Rightarrow> int \<Rightarrow> ('c, 'w, egress_tunnel option) vx" where
  "updateEgressTunnelStatus r tun v =
     bindp (vr_parent r v) (\<lambda>pif.
     bindp (case tun of
         Some t \<Rightarrow> ret (Some t)
       | None \<Rightarrow> bindp (attempt (vapi (vx_get_tunnel (vr_client r) (vc_node (vr_cfg r))))) (\<lambda>res. case res of
           Inr t \<Rightarrow> ret (Some t)
         | Inl e \<Rightarrow> if e = VxApi NotFound then ret None else fail e)) (\<lambda>tun. case tun of
       None \<Rightarrow> ret None
     | Some t \<Rightarrow>
         (let tn = et_tunnel (et_status t);
              st = with_phase (vr_cfg r) ((et_status t)\<lparr>et_tunnel := tn\<lparr>tunnel_parent := with_parent v pif\<rparr>\<rparr>)
          in if st \<noteq> et_status t then bindp (updateTunnelStatus r (t\<lparr>et_status := st\<rparr>)) (\<lambda>_. ret (Some (t\<lparr>et_status := st\<rparr>)))
             else ret (Some t))))"

definition ensureEgressTunnelStatus :: "('c, 'w) vxlanReconciler \<Rightarrow> egress_tunnel \<Rightarrow> ('c, 'w, unit) vx" where
  "ensureEgressTunnelStatus r node =
     (let v = version (vr_cfg r); p = tunnel_parent (et_tunnel (et_status node)) in
      bindp (if v = 4 \<and> parent_ipv4 p = [] \<or> v = 6 \<and> parent_ipv6 p = []
             then updateEgressTunnelStatus r (Some node) v else ret (Some node)) (\<lambda>node.
      case node of
        None \<Rightarrow> ret ()
      | Some node \<Rightarrow> (case parseVTEP (vr_cfg r) (et_status node) of
          None \<Rightarrow> ret ()
        | Some vtep \<Rightarrow> store_peer (vc_node (vr_cfg r)) vtep)))"

section \<open>Neighbours\<close>

definition other_peers :: "vxlan_config \<Rightarrow> (string \<times> peer) list \<Rightarrow> (string \<times> peer) list" where
  "other_peers cfg ps = filter (\<lambda>(nm, _). nm \<noteq> vc_node cfg) ps"

definition ensureRoute :: "('c, 'w) vxlanReconciler \<Rightarrow> string iter_order \<Rightarrow> ('c, 'w, unit) vx" where
  "ensureRoute r ord =
     (let nl = de_nl (vr_env r) in
      bindp (ListNeigh nl) (\<lambda>neighList.
      bindp peers_of (\<lambda>all.
      let peers = other_peers (vr_cfg r) all; expected = map (\<lambda>(_, p). mac_string (pe_mac p)) peers in
      bindp (for_each (\<lambda>item _. if mac_string (ng_hw item) \<notin> set expected then noted (Del nl item) else ret ()) neighList ()) (\<lambda>_.
      for_each (\<lambda>p _. noted (Add nl p)) (range_values ord peers) ()))))"

definition initTunnelPeerMap :: "('c, 'w) vxlanReconciler \<Rightarrow> ('c, 'w, unit) vx" where
  "initTunnelPeerMap r =
     bindp (vapi (vx_list_tunnels (vr_client r))) (\<lambda>items.
     for_each (\<lambda>item _. if et_phase (et_status item) = EgressTunnelReady
       then case parseVTEP (vr_cfg r) (et_status item) of
           None \<Rightarrow> ret ()
         | Some vtep \<Rightarrow> store_peer (vc_node (vr_cfg r)) vtep
       else ret ()) items ())"

section \<open>Reconcilers\<close>

definition ensure_peer :: "('c, 'w) vxlanReconciler \<Rightarrow> peer \<Rightarrow> ('c, 'w, unit) vx" where
  "ensure_peer r p = noted (vroute (Ensure (de_nl (vr_env r)) (vr_route r) (vc_name (vr_cfg r)) (pe_ipv4 p) (pe_ipv6 p) (pe_mark p) (pe_mark p)))"

definition getEgressTunnelByEgressGateway :: "('c, 'w) vxlanReconciler \<Rightarrow> string \<Rightarrow> ('c, 'w, string list) vx" where
  "getEgressTunnelByEgressGateway r nm =
     bindp (attempt (vapi (vx_get_gateway (vr_client r) nm))) (\<lambda>res. case res of
       Inl e \<Rightarrow> if e = VxApi NotFound then ret [] else fail e
     | Inr g \<Rightarrow> ret (map en_name (node_list (gw_status g))))"

definition listEgressTunnel :: "('c, 'w) vxlanReconciler \<Rightarrow> ('c, 'w, string list) vx" where
  "listEgressTunnel r = bindp (vapi (vx_list_gateways (vr_client r))) (\<lambda>items. ret (concat (map (\<lambda>g. map en_name (node_list (gw_status g))) items)))"

definition vx_reconcileEgressGateway :: "('c, 'w) vxlanReconciler \<Rightarrow> string iter_order \<Rightarrow> request \<Rightarrow> ('c, 'w, unit) vx" where
  "vx_reconcileEgressGateway r ord req =
     bindp (getEgressTunnelByEgressGateway r (req_name req)) (\<lambda>names.
     bindp peers_of (\<lambda>ps.
     for_each (\<lambda>nm _. case map_of ps nm of
         None \<Rightarrow> ret ()
       | Some p \<Rightarrow> if nm \<in> set names then ensure_peer r p else ret ()) (ord (map fst ps)) ()))"

text \<open>The peer that the status of a tunnel describes, \<open>None\<close> when it is not complete.\<close>

definition peer_of :: "vxlan_config \<Rightarrow> egress_tunnel_status \<Rightarrow> peer option" where
  "peer_of cfg st =
     (let t = et_tunnel st; ip = (if version cfg = 4 then parent_ipv4 (tunnel_parent t) else parent_ipv6 (tunnel_parent t));
          some = (\<lambda>ip. if ip \<noteq> nil_ip then Some ip else None)
      in if ip = [] then None
         else map_option (\<lambda>hw. \<lparr>pe_ipv4 = some (to4 (ParseIP (tunnel_ipv4 t))), pe_ipv6 = some (to16 (ParseIP (tunnel_ipv6 t))),
           pe_parent = ParseIP ip, pe_mac = hw, pe_mark = (case parseMarkToInt (et_mark st) of None \<Rightarrow> 0 | Some m \<Rightarrow> m)\<rparr>) (ParseMAC (tunnel_mac t)))"

definition reconcileEgressTunnel :: "('c, 'w) vxlanReconciler \<Rightarrow> string iter_order \<Rightarrow> request \<Rightarrow> ('c, 'w, unit) vx" where
  "reconcileEgressTunnel r ord req =
     bindp (attempt (vapi (vx_get_tunnel (vr_client r) (req_name req)))) (\<lambda>res.
     bindp (case res of
         Inr node \<Rightarrow> ret (if om_deleting (et_meta node) then None else Some node)
       | Inl e \<Rightarrow> if e = VxApi NotFound then ret None else fail e) (\<lambda>found.
     let isPeer = (req_name req \<noteq> vc_node (vr_cfg r)) in
     case found of
       None \<Rightarrow> if isPeer then bindp (delete_peer (req_name req)) (\<lambda>_. noted (ensureRoute r ord)) else ret ()
     | Some node \<Rightarrow>
         if isPeer
         then (case peer_of (vr_cfg r) (et_status node) of
             None \<Rightarrow> ret ()
           | Some p \<Rightarrow> bindp (store_peer (om_name (et_meta node)) p) (\<lambda>_. bindp (noted (ensureRoute r ord)) (\<lambda>_. ensure_peer r p)))
         else ensureEgressTunnelStatus r node))"

text \<open>The first run is repeated until it succeeds.\<close>

partial_function (option) init_loop :: "('s \<Rightarrow> ('e, unit) outcome \<times> 's) \<Rightarrow> 's \<Rightarrow> (('e, unit) outcome \<times> 's) option" where
  "init_loop m s = (case m s of
     (Err e, s') \<Rightarrow> init_loop m s'
   | (Ok u, s') \<Rightarrow> Some (Ok u, s')
   | (Panic, s') \<Rightarrow> Some (Panic, s')
   | (Diverge, s') \<Rightarrow> Some (Diverge, s'))"

declare init_loop.simps [code]

definition vx_do_once :: "('c, 'w) vxlanReconciler \<Rightarrow> ('c, 'w, unit) vx" where
  "vx_do_once r s = (if vw_done s then (Ok (), s) else case init_loop (initTunnelPeerMap r) s of
     None \<Rightarrow> (Diverge, s)
   | Some (res, s') \<Rightarrow> (res, s'\<lparr>vw_done := True\<rparr>))"

definition vxlan_Reconcile :: "('c, 'w) vxlanReconciler \<Rightarrow> string iter_order \<Rightarrow> request \<Rightarrow> ('c, 'w, unit) vx" where
  "vxlan_Reconcile r ord req =
     bindp (lift (oc_map_err (\<lambda>_. VxRequest) (ParseKindWithReq req))) (\<lambda>(kind, newReq).
     bindp (vx_do_once r) (\<lambda>_.
     if kind = ''EgressTunnel'' then reconcileEgressTunnel r ord newReq
     else if kind = ''EgressGateway'' then vx_reconcileEgressGateway r ord newReq
     else ret ()))"

section \<open>The loops\<close>

text \<open>An address of the own tunnel end with the mask of the configuration; a nil pointer is dereferenced when it is missing.\<close>

definition own_net :: "bool \<Rightarrow> netip option \<Rightarrow> (netip \<Rightarrow> netip) \<Rightarrow> ipnet option \<Rightarrow> (vx_err, ipnet option) outcome" where
  "own_net enabled a conv n =
     (if \<not> enabled then Ok None
      else case a of
        None \<Rightarrow> Panic
      | Some ip \<Rightarrow> if conv ip = nil_ip then Ok None
          else (case n of None \<Rightarrow> Panic | Some n \<Rightarrow> Ok (Some \<lparr>net_ip = conv ip, net_mask = net_mask n\<rparr>)))"

definition keep_rules :: "('c, 'w) vxlanReconciler \<Rightarrow> string iter_order \<Rightarrow> ('c, 'w, unit) vx" where
  "keep_rules r ord =
     bindp peers_of (\<lambda>ps.
     bindp (for_each (\<lambda>p _. if pe_mark p \<noteq> 0 then ensure_peer r p else ret ()) (range_values ord ps) ()) (\<lambda>_.
     vroute (PurgeStaleRules (de_nl (vr_env r)) (set (filter (\<lambda>m. m \<noteq> 0) (map (\<lambda>(_, p). pe_mark p) ps))) (vc_mark (vr_cfg r)))))"

text \<open>The steps of a round; an error ends the round and is only logged.\<close>

definition keep_tunnel :: "('c, 'w) vxlanReconciler \<Rightarrow> vx_orders \<Rightarrow> peer \<Rightarrow> ipnet option \<Rightarrow> ipnet option \<Rightarrow> ('c, 'w, unit) vx" where
  "keep_tunnel r os vtep n4 n6 =
     (let cfg = vr_cfg r in
      bindp (updateEgressTunnelStatus r None (version cfg)) (\<lambda>_.
      bindp (EnsureLink (vr_env r) (vr_parent r) (vc_name cfg) (vc_id cfg) (vc_port cfg) (pe_mac vtep) n4 n6 (vc_tx_off cfg)) (\<lambda>_.
      bindp (ensureRoute r (os 0)) (\<lambda>_.
      keep_rules r (os 1)))))"

definition keepVXLAN_round :: "('c, 'w) vxlanReconciler \<Rightarrow> vx_orders \<Rightarrow> ('c, 'w, unit) vx" where
  "keepVXLAN_round r os =
     (let cfg = vr_cfg r in
      bindp peers_of (\<lambda>ps. case map_of ps (vc_node cfg) of
        None \<Rightarrow> ret ()
      | Some vtep \<Rightarrow>
          bindp (lift (own_net (vc_v4 cfg) (pe_ipv4 vtep) to4 (vc_net4 cfg))) (\<lambda>n4.
          bindp (lift (own_net (vc_v6 cfg) (pe_ipv6 vtep) to16 (vc_net6 cfg))) (\<lambda>n6.
          noted (keep_tunnel r os vtep n4 n6)))))"

definition heartbeat_tick :: "('c, 'w) vxlanReconciler \<Rightarrow> ('c, 'w, unit) vx" where
  "heartbeat_tick r =
     (let again = (\<lambda>s. (Ok (), s\<lparr>vw_timer := 1\<rparr>)) in
      bindp (attempt (vapi (vx_get_tunnel (vr_client r) (vc_node (vr_cfg r))))) (\<lambda>res. case res of
        Inl e \<Rightarrow> if e = VxApi NotFound then ret () else again
      | Inr t \<Rightarrow>
          bindp (attempt (updateTunnelStatus r t)) (\<lambda>res. case res of
            Inr _ \<Rightarrow> ret ()
          | Inl e \<Rightarrow> if (case e of VxApi a \<Rightarrow> vx_deadline (vr_client r) a | _ \<Rightarrow> False) then fail ErrHeartbeatTime else again)))"

section \<open>Set-up and event filter\<close>

definition strip :: "string \<Rightarrow> string \<Rightarrow> string option" where
  "strip pre s = (if take (length pre) s = pre then Some (drop (length pre) s) else None)"

definition choose_parent :: "'w netlink \<Rightarrow> string \<Rightarrow> custom_interface list \<Rightarrow> string \<Rightarrow> (string \<Rightarrow> ('w, 'z, (string \<times> string) list) dev) \<Rightarrow>
    int \<Rightarrow> ('w, 'z, parent_if) dev" where
  "choose_parent nl detect custom nodeName get_labels = (case strip ''interface='' detect of
     Some nm \<Rightarrow> if custom = [] then GetParentByName nl nm else GetParentByCustomName nl nm custom nodeName get_labels
   | None \<Rightarrow> GetParentByDefaultRoute nl)"

datatype 'o tunnel_event = TunnelCreate | TunnelDelete | TunnelUpdate 'o 'o | TunnelGeneric

definition vx_egressTunnelPredicate :: "egress_tunnel tunnel_event \<Rightarrow> bool" where
  "vx_egressTunnelPredicate ev = (case ev of
     TunnelCreate \<Rightarrow> True
   | TunnelDelete \<Rightarrow> True
   | TunnelUpdate old new \<Rightarrow> et_tunnel (et_status old) \<noteq> et_tunnel (et_status new) \<or> et_phase (et_status old) \<noteq> et_phase (et_status new) \<or>
       et_mark (et_status old) \<noteq> et_mark (et_status new)
   | TunnelGeneric \<Rightarrow> False)"

end
