(* ===== verification/RouteProps.thy ===== *)
theory RouteProps
  imports RuleRoute IPPool MarkProps
begin

text \<open>
  Programs over netlink calls on a kernel: a simulation carries what they do on the kernel in memory over to every service
  that answers like it, and the rules and routes of a mark become exact.
\<close>

section \<open>Simulation\<close>

text \<open>\<open>like_kernel view m k\<close>: the program \<open>m\<close> answers like \<open>k\<close> does on what can be seen of its state.\<close>

definition like_kernel :: "('w \<Rightarrow> 'v) \<Rightarrow> ('w, 'e, 'a) prog \<Rightarrow> ('v, 'e, 'a) prog \<Rightarrow> bool" where
  "like_kernel view m k \<longleftrightarrow> (\<forall>w. fst (m w) = fst (k (view w)) \<and> view (snd (m w)) = snd (k (view w)))"

named_theorems like_rules \<open>programs that answer like the kernel\<close>

lemma like_ends: "like_kernel view m k \<Longrightarrow> ends k (view w) Q E \<Longrightarrow> ends m w (\<lambda>x w'. Q x (view w')) (\<lambda>e w'. E e (view w'))"
  unfolding like_kernel_def ends_def by (metis fst_conv prod.collapse snd_conv)

lemma like_simple [like_rules]:
  "like_kernel view (ret x) (ret x)" "like_kernel view (fail e) (fail e)" "like_kernel view (lift r) (lift r)"
  by (simp_all add: like_kernel_def ret_def fail_def lift_def)

lemma like_bindp [like_rules]:
  assumes "like_kernel view m k" "\<And>x. like_kernel view (f x) (g x)"
  shows "like_kernel view (bindp m f) (bindp k g)"
  unfolding like_kernel_def
proof
  fix w
  obtain r w' where m: "m w = (r, w')" by (cases "m w")
  with assms(1) have k: "k (view w) = (r, view w')" by (metis fst_conv like_kernel_def prod.collapse snd_conv)
  show "fst (bindp m f w) = fst (bindp k g (view w)) \<and> view (snd (bindp m f w)) = snd (bindp k g (view w))"
    using assms(2) by (cases r) (simp_all add: bindp_def m k like_kernel_def)
qed

lemma like_wrap [like_rules]:
  "like_kernel view m k \<Longrightarrow> like_kernel view (or_fail g m) (or_fail g k)" "like_kernel view m k \<Longrightarrow> like_kernel view (attempt m) (attempt k)"
  by (auto simp: like_kernel_def or_fail_def attempt_def split: prod.splits) (metis fst_conv snd_conv)+

lemma like_if [like_rules]:
  "(b \<Longrightarrow> like_kernel view m k) \<Longrightarrow> (\<not> b \<Longrightarrow> like_kernel view m' k') \<Longrightarrow> like_kernel view (if b then m else m') (if b then k else k')"
  by simp

lemma like_option [like_rules]:
  "like_kernel view m k \<Longrightarrow> (\<And>x. like_kernel view (f x) (g x)) \<Longrightarrow> like_kernel view (case z of None \<Rightarrow> m | Some x \<Rightarrow> f x) (case z of None \<Rightarrow> k | Some x \<Rightarrow> g x)"
  by (cases z) auto

lemma like_for_each [like_rules]:
  "(\<And>x s. like_kernel view (f x s) (g x s)) \<Longrightarrow> like_kernel view (for_each f xs s) (for_each g xs s)"
  by (induction xs arbitrary: s) (auto intro: like_rules)

locale netlink_service =
  fixes nl :: "'w netlink" and view :: "'w \<Rightarrow> net_view"
  assumes rules: "like_kernel view (nl_rule_list nl f flt) (k_rule_list f flt)" "like_kernel view (nl_rule_del nl r) (k_rule_del r)"
      "like_kernel view (nl_rule_add nl r) (k_rule_add r)"
    and routes: "like_kernel view (nl_route_list nl f t) (k_route_list f t)" "like_kernel view (nl_route_del nl rt) (k_route_del rt)"
      "like_kernel view (nl_route_add nl rt) (k_route_add rt)"
    and links: "like_kernel view (nl_link_by_name nl nm) (k_link_by_name nm)" "like_kernel view (nl_link_by_index nl i) (k_link_by_index i)"
      "like_kernel view (nl_link_add nl l) (k_link_add l)" "like_kernel view (nl_link_del nl l) (k_link_del l)" "like_kernel view (nl_link_up nl l) (k_link_up l)"
    and addrs: "like_kernel view (nl_addr_list nl l f) (k_addr_list l f)" "like_kernel view (nl_addr_del nl l n) (k_addr_del l n)"
      "like_kernel view (nl_addr_add nl l n) (k_addr_add l n)"
    and neighs: "like_kernel view (nl_neigh_list nl i f) (k_neigh_list i f)" "like_kernel view (nl_neigh_set nl g) (k_neigh_set g)"
      "like_kernel view (nl_neigh_del nl g) (k_neigh_del g)"
begin

lemmas calls = rules routes links addrs neighs

lemma nlr_calls:
  "like_kernel view (nlr m) (nlr k)" if "like_kernel view m k"
  using that unfolding nlr_def by (intro like_rules)

lemmas nl_kernel = kernel_netlink_def netlink.simps

lemma EnsureRule_like: "like_kernel view (EnsureRule nl r f t m) (EnsureRule kernel_netlink r f t m)"
  unfolding EnsureRule_def by (intro like_rules nlr_calls) (simp_all add: nl_kernel calls)

lemma EnsureRoute_like: "like_kernel view (EnsureRoute nl l ip f t) (EnsureRoute kernel_netlink l ip f t)"
  unfolding EnsureRoute_def by (intro like_rules nlr_calls) (simp_all add: nl_kernel calls)

lemma Ensure_like: "like_kernel view (Ensure nl r nm a b t m) (Ensure kernel_netlink r nm a b t m)"
  unfolding Ensure_def by (intro like_rules nlr_calls EnsureRule_like EnsureRoute_like) (simp_all add: nl_kernel calls)

lemma Purge_like: "like_kernel view (PurgeStaleRules nl marks base) (PurgeStaleRules kernel_netlink marks base)"
  unfolding PurgeStaleRules_def clean_rules_def by (intro like_rules nlr_calls) (simp_all add: nl_kernel calls)

end

interpretation in_kernel: netlink_service kernel_netlink "\<lambda>v. v"
  by unfold_locales (simp_all add: like_kernel_def kernel_netlink_def)

section \<open>Rules on the kernel\<close>



lemma families [simp]: "FAMILY_V4 \<noteq> 0" "FAMILY_V6 \<noteq> 0" "FAMILY_V4 \<noteq> FAMILY_V6" "FAMILY_V6 \<noteq> FAMILY_V4"
  by (simp_all add: FAMILY_V4_def FAMILY_V6_def)

lemma kernel_rule_id: "ru_family r \<noteq> 0 \<Longrightarrow> kernel_rule r = r"
  by (simp add: kernel_rule_def)

text \<open>Deleting one of the rules \<open>P\<close> that are seen as \<open>pre @ r # post\<close>, where \<open>pre\<close> has nothing but \<open>r\<close> before it.\<close>

lemma rule_del_at:
  assumes "filter P (nv_rules v) = pre @ r # post" "set pre \<subseteq> {r} \<or> r \<notin> set pre" "ru_family r \<noteq> 0"
  shows "nlr (nl_rule_del kernel_netlink r) v = (Ok (), v\<lparr>nv_rules := remove1 r (nv_rules v)\<rparr>)"
    and "filter P (remove1 r (nv_rules v)) = pre @ post" "filter (\<lambda>x. \<not> P x) (remove1 r (nv_rules v)) = filter (\<lambda>x. \<not> P x) (nv_rules v)"
proof -
  have "r \<in> set (filter P (nv_rules v))" using assms(1) by simp
  then have r: "r \<in> set (nv_rules v)" "P r" by auto
  then show "nlr (nl_rule_del kernel_netlink r) v = (Ok (), v\<lparr>nv_rules := remove1 r (nv_rules v)\<rparr>)"
    using assms(3) by (simp add: kernel_defs nlr_def or_fail_def kernel_rule_id)
  have "pre @ [r] = r # pre" if "set pre \<subseteq> {r}" using that by (induction pre) auto
  then have "remove1 r (pre @ r # post) = pre @ post"
    using assms(2) by (cases pre) (auto simp: remove1_append split: if_splits)
  then show "filter P (remove1 r (nv_rules v)) = pre @ post" by (simp add: filter_remove1 assms(1))
  show "filter (\<lambda>x. \<not> P x) (remove1 r (nv_rules v)) = filter (\<lambda>x. \<not> P x) (nv_rules v)"
    using r(2) by (simp add: filter_remove1 remove1_idem)
qed


lemma unset_family: "ru_family x = f \<Longrightarrow> x\<lparr>ru_family := 0, ru_family := f\<rparr> = x" "ru_family x = f \<Longrightarrow> x\<lparr>ru_family := f\<rparr> = x"
  by (cases x, simp)+



section \<open>Routes on the kernel\<close>






section \<open>Stale rules\<close>

definition stale :: "int set \<Rightarrow> 64 word \<times> 64 word \<Rightarrow> nl_rule \<Rightarrow> bool" where
  "stale marks lim r \<longleftrightarrow> ru_mark r \<notin> marks \<and> sint (fst lim) \<le> ru_mark r \<and> ru_mark r \<le> sint (snd lim)"

lemma k_clean_loop:
  assumes "f \<noteq> 0"
  shows "filter (\<lambda>r. ru_family r = f \<and> stale marks lim r) (nv_rules v) = filter (stale marks lim) rs \<Longrightarrow> list_all (\<lambda>r. ru_family r = f) rs \<Longrightarrow>
    returns (for_each (\<lambda>rule _.
         if ru_mark rule \<notin> marks \<and> sint (fst lim) \<le> ru_mark rule \<and> sint (snd lim) \<ge> ru_mark rule
         then nlr (nl_rule_del kernel_netlink (rule\<lparr>ru_family := f\<rparr>)) else ret ()) (map (\<lambda>r. r\<lparr>ru_family := 0\<rparr>) rs) ()) v
      (\<lambda>_ v'. v' = v\<lparr>nv_rules := filter (\<lambda>r. \<not> (ru_family r = f \<and> stale marks lim r)) (nv_rules v)\<rparr>)"
proof (induction rs arbitrary: v)
  case Nil
  then have "filter (\<lambda>r. \<not> (ru_family r = f \<and> stale marks lim r)) (nv_rules v) = nv_rules v"
    by (auto simp: filter_empty_conv intro!: filter_True)
  then show ?case by (simp add: ends_def ret_def)
next
  case (Cons x rs)
  let ?P = "\<lambda>r. ru_family r = f \<and> stale marks lim r"
  have x: "ru_family x = f" "list_all (\<lambda>r. ru_family r = f) rs" using Cons.prems(2) by auto
  show ?case
  proof (cases "stale marks lim x")
    case True
    have seen: "filter ?P (nv_rules v) = [] @ x # filter (stale marks lim) rs" using Cons.prems(1) True by simp
    let ?v = "v\<lparr>nv_rules := remove1 x (nv_rules v)\<rparr>"
    note del = rule_del_at [OF seen]
    have del1: "nlr (nl_rule_del kernel_netlink x) v = (Ok (), ?v)" using del(1) x(1) assms by simp
    have IH: "returns (for_each (\<lambda>rule _.
         if ru_mark rule \<notin> marks \<and> sint (fst lim) \<le> ru_mark rule \<and> sint (snd lim) \<ge> ru_mark rule
         then nlr (nl_rule_del kernel_netlink (rule\<lparr>ru_family := f\<rparr>)) else ret ()) (map (\<lambda>r. r\<lparr>ru_family := 0\<rparr>) rs) ()) ?v
      (\<lambda>_ v'. v' = ?v\<lparr>nv_rules := filter (\<lambda>r. \<not> ?P r) (nv_rules ?v)\<rparr>)"
      by (rule Cons.IH) (use del(2) x assms in simp_all)
    have keep: "filter (\<lambda>r. \<not> ?P r) (remove1 x (nv_rules v)) = filter (\<lambda>r. \<not> ?P r) (nv_rules v)" using del(3) x(1) assms by simp
    have "returns (for_each (\<lambda>rule _.
         if ru_mark rule \<notin> marks \<and> sint (fst lim) \<le> ru_mark rule \<and> sint (snd lim) \<ge> ru_mark rule
         then nlr (nl_rule_del kernel_netlink (rule\<lparr>ru_family := f\<rparr>)) else ret ()) (map (\<lambda>r. r\<lparr>ru_family := 0\<rparr>) rs) ()) ?v
      (\<lambda>_ v'. v' = v\<lparr>nv_rules := filter (\<lambda>r. \<not> ?P r) (nv_rules v)\<rparr>)"
      using IH keep by simp
    moreover have "x\<lparr>ru_family := f\<rparr> = x" using unset_family x(1) by blast
    ultimately show ?thesis using True unfolding list.map for_each.simps by (intro ends_Ok_step [where x = "()" and w' = ?v]) (simp_all add: stale_def del1)
  next
    case False
    with Cons.prems(1) have "filter ?P (nv_rules v) = filter (stale marks lim) rs" by simp
    from Cons.IH [OF this x(2)] False show ?thesis by (auto simp: stale_def bindp_ret)
  qed
qed

lemma k_clean_rules:
  assumes "f \<noteq> 0"
  shows "returns (clean_rules kernel_netlink marks lim f) v (\<lambda>_ v'. v' = v\<lparr>nv_rules := filter (\<lambda>r. \<not> (ru_family r = f \<and> stale marks lim r)) (nv_rules v)\<rparr>)"
  unfolding clean_rules_def
proof (rule ends_Ok_step)
  show "nlr (nl_rule_list kernel_netlink f None) v = (Ok (map (\<lambda>r. r\<lparr>ru_family := 0\<rparr>) (filter (\<lambda>r. ru_family r = f) (nv_rules v))), v)"
    by (simp add: kernel_defs nlr_def or_fail_def)
qed (rule k_clean_loop [OF assms], auto simp: list_all_iff conj_commute intro: filter_cong)

lemma PurgeStaleRules_rules:
  assumes "netlink_service nl view" "RangeSize baseMark = Ok lim"
  shows "returns (PurgeStaleRules nl marks baseMark) w (\<lambda>_ w'. view w' = (view w)\<lparr>nv_rules :=
    filter (\<lambda>r. \<not> (ru_family r \<in> {FAMILY_V4, FAMILY_V6} \<and> stale marks lim r)) (nv_rules (view w))\<rparr>)"
proof (rule like_ends [OF netlink_service.Purge_like [OF assms(1)]])
  show "returns (PurgeStaleRules kernel_netlink marks baseMark) (view w) (\<lambda>_ v'. v' = (view w)\<lparr>nv_rules :=
      filter (\<lambda>r. \<not> (ru_family r \<in> {FAMILY_V4, FAMILY_V6} \<and> stale marks lim r)) (nv_rules (view w))\<rparr>)"
    unfolding PurgeStaleRules_def assms(2) oc_map_err.simps bindp_lift_Ok
    by (rule ends_bindp [OF k_clean_rules [OF families(1)]], rule ends_conseq [OF k_clean_rules [OF families(2)]])
      (simp_all, intro arg_cong [where f = "\<lambda>xs. (view w)\<lparr>nv_rules := xs\<rparr>"] filter_cong, auto)
qed

text \<open>C21. Purging the stale rules deletes, in both families, exactly the rules whose mark is in the range of the base mark and
  of no peer; every other rule of the node stays, and so do routes, links, addresses and neighbours.\<close>

theorem PurgeStaleRules_exact:
  assumes "netlink_service nl view" "RangeSize baseMark = Ok lim"
  shows "returns (PurgeStaleRules nl marks baseMark) w (\<lambda>_ w'. view w' = (view w)\<lparr>nv_rules :=
    filter (\<lambda>r. \<not> (ru_family r \<in> {FAMILY_V4, FAMILY_V6} \<and> stale marks lim r)) (nv_rules (view w))\<rparr>)"
  by (rule PurgeStaleRules_rules [OF assms])

section \<open>Rule and routes of a mark\<close>







section \<open>Example\<close>

text \<open>A tunnel device, two rules for a mark of the range, of which one has another table, and a rule of somebody else.\<close>

definition ex_rule :: "int \<Rightarrow> int \<Rightarrow> int \<Rightarrow> nl_rule" where
  "ex_rule p t m = \<lparr>ru_family = FAMILY_V4, ru_priority = p, ru_table = t, ru_mark = m, ru_other = []\<rparr>"

definition ex_view :: net_view where
  "ex_view = \<lparr>nv_rules = [ex_rule 99 5 637534209, ex_rule 99 637534209 637534209, ex_rule 100 254 7],
     nv_routes = [\<lparr>rt_family = FAMILY_V4, rt_table = 637534209, rt_link = 7, rt_gw = [10, 9, 0, 9], rt_dst = None, rt_src = nil_ip\<rparr>],
     nv_links = [\<lparr>lk_index = 7, lk_name = ''egress.vxlan'', lk_hw = [], lk_up = True, lk_kind = OtherLink ''vxlan''\<rparr>],
     nv_addrs = [(7, \<lparr>net_ip = [10, 9, 0, 1], net_mask = [255, 255, 0, 0]\<rparr>)], nv_neighs = []\<rparr>"



theorem PurgeStaleRules_exact_witness:
  "returns (PurgeStaleRules kernel_netlink {} (mask_of ''26'' 6)) ex_view (\<lambda>_ v'. v' = ex_view\<lparr>nv_rules := [ex_rule 100 254 7]\<rparr>)"
proof -
  have "hex_value 0 ''26'' = Some 38" by (simp add: hex_digit_def)
  then have size: "RangeSize (mask_of ''26'' 6) = Ok (of_nat 637534208, of_nat 654311423)"
    using RangeSize_mask [of "''26''" 38 6] by simp
  have "sint (of_nat 637534208 :: 64 word) = 637534208" "sint (of_nat 654311423 :: 64 word) = 654311423"
    using sint_small [of 637534208] sint_small [of 654311423] by simp_all
  then have "filter (\<lambda>r. \<not> (ru_family r \<in> {FAMILY_V4, FAMILY_V6} \<and> stale {} (of_nat 637534208, of_nat 654311423) r)) (nv_rules ex_view) = [ex_rule 100 254 7]"
    by (simp add: ex_view_def ex_rule_def stale_def)
  with PurgeStaleRules_exact [OF in_kernel.netlink_service_axioms size, of "{}" ex_view] show ?thesis by simp
qed

end
