(* ===== verification/VxlanProps.thy ===== *)
theory VxlanProps
  imports VxlanAgent RouteProps TunnelCtl AgentSets
begin

text \<open>
  The properties of the tunnel agent: the own tunnel end that its loop reads, the neighbours that lead to the peers and
  those that are left behind, and hardware addresses as the controller writes and the agent reads them.
\<close>

section \<open>The own tunnel end\<close>

text \<open>The pointers of the own tunnel end that the loop dereferences.\<close>

definition own_ok :: "vxlan_config \<Rightarrow> (string \<times> peer) list \<Rightarrow> bool" where
  "own_ok cfg ps \<longleftrightarrow> (\<forall>p. map_of ps (vc_node cfg) = Some p \<longrightarrow>
     (vc_v4 cfg \<longrightarrow> (\<exists>ip. pe_ipv4 p = Some ip \<and> to4 ip \<noteq> nil_ip)) \<and> (vc_v6 cfg \<longrightarrow> (\<exists>ip. pe_ipv6 p = Some ip \<and> to16 ip \<noteq> nil_ip)))"

abbreviation own_inv :: "vxlan_config \<Rightarrow> ('c, 'w) vxlan_world \<Rightarrow> bool" where
  "own_inv cfg s \<equiv> own_ok cfg (vw_peers s)"

lemma parseVTEP_addrs:
  assumes "parseVTEP cfg st = Some p"
  shows "own_ok cfg (AList.update (vc_node cfg) p ps)"
  using assms by (auto simp: own_ok_def parseVTEP_def vtep_addr_def Let_def update_conv' split: if_splits option.splits)

lemma own_ok_other: "own_ok cfg ps \<Longrightarrow> nm \<noteq> vc_node cfg \<Longrightarrow> own_ok cfg (AList.update nm p ps)"
  "own_ok cfg ps \<Longrightarrow> nm \<noteq> vc_node cfg \<Longrightarrow> own_ok cfg (AList.delete nm ps)"
  by (simp_all add: own_ok_def update_conv' delete_conv')

lemma net_runs: "runs (own_inv cfg) (dnl m)" "runs (own_inv cfg) (vroute m')" "runs (own_inv cfg) (vapi a)"
  by (auto simp: keeps_def dnl_def vroute_def vapi_def on_net_def or_fail_def split: prod.splits)

lemma noted_runs: "runs I m \<Longrightarrow> runs I (noted m)"
  unfolding noted_def by (rule runs_bindp, rule runs_attempt, assumption, intro triple_rules TrueI)

lemma when_ready_runs: "(\<And>l. runs I (f l)) \<Longrightarrow> runs I (when_ready d f)"
  by (auto simp: keeps_def when_ready_def ret_def split: option.splits)

lemmas vx_run = runs_bindp runs_attempt runs_for_each net_runs noted_runs when_ready_runs triple_rules TrueI

lemma ensure_peer_runs: "runs (own_inv cfg) (ensure_peer r p)"
  unfolding ensure_peer_def by (intro vx_run)

lemma peers_of_runs: "runs I peers_of"
  by (simp add: keeps_def peers_of_def)

lemma ensureRoute_runs: "runs (own_inv cfg) (ensureRoute r ord)"
  unfolding ensureRoute_def ListNeigh_def Del_def Add_def add_neigh_def Let_def by (intro vx_run peers_of_runs)

lemma store_own:
  "parseVTEP cfg st = Some p \<Longrightarrow> runs (own_inv cfg) (store_peer (vc_node cfg) p)"
  "nm \<noteq> vc_node cfg \<Longrightarrow> runs (own_inv cfg) (store_peer nm p)" "nm \<noteq> vc_node cfg \<Longrightarrow> runs (own_inv cfg) (delete_peer nm)"
  by (simp_all add: keeps_def store_peer_def delete_peer_def parseVTEP_addrs own_ok_other)

lemma init_runs: "runs (own_inv (vr_cfg r)) (initTunnelPeerMap r)"
  unfolding initTunnelPeerMap_def by (intro vx_run store_own)

lemma init_loop_keeps:
  assumes "init_loop m s = Some y" "runs I m" "I s"
  shows "I (snd y)"
proof -
  have "runs I m \<longrightarrow> I s \<longrightarrow> I (snd y)"
  proof (rule init_loop.raw_induct [where P = "\<lambda>m s y. runs I m \<longrightarrow> I s \<longrightarrow> I (snd y)", OF _ assms(1)])
    fix loop m s y
    assume IH: "\<And>m s y. loop m s = Some y \<Longrightarrow> runs I m \<longrightarrow> I s \<longrightarrow> I (snd y)"
      and step: "(case m s of (Ok u, s') \<Rightarrow> Some (Ok u, s') | (Err e, s') \<Rightarrow> loop m s' | (Panic, s') \<Rightarrow> Some (Panic, s')
        | (Diverge, s') \<Rightarrow> Some (Diverge, s')) = Some y"
    obtain q v where q: "m s = (q, v)" by (cases "m s")
    show "runs I m \<longrightarrow> I s \<longrightarrow> I (snd y)"
    proof (intro impI)
      assume "runs I m" "I s"
      then have "I v" using q by (auto simp: keeps_def)
      with IH [of m v y] step q \<open>runs I m\<close> show "I (snd y)" by (cases q) auto
    qed
  qed
  with assms(2,3) show ?thesis by blast
qed

lemma do_once_runs: "runs (own_inv (vr_cfg r)) (vx_do_once r)"
  using init_loop_keeps [OF _ init_runs] by (fastforce simp: keeps_def vx_do_once_def split: option.splits)

lemma updateTunnelStatus_runs: "runs (own_inv cfg) (updateTunnelStatus r t)"
proof -
  have "runs (own_inv cfg) (bindp (vapi m) (\<lambda>_ s'. (Ok (), s'\<lparr>vw_timer := p\<rparr>)))" for m p
    by (rule runs_bindp [OF net_runs(3)]) (simp add: keeps_def)
  then show ?thesis by (auto simp: keeps_def updateTunnelStatus_def)
qed

text \<open>The parent is found without a change of the peers.\<close>

definition parent_calm :: "('c, 'w) vxlanReconciler \<Rightarrow> bool" where
  "parent_calm r \<longleftrightarrow> (\<forall>v s. vw_peers (snd (vr_parent r v s)) = vw_peers s)"

lemma status_runs:
  assumes "parent_calm r"
  shows "runs (own_inv cfg) (updateEgressTunnelStatus r t v)"
proof -
  have "runs (own_inv cfg) (vr_parent r v)" using assms by (simp add: keeps_def parent_calm_def)
  then show ?thesis unfolding updateEgressTunnelStatus_def Let_def by (intro vx_run updateTunnelStatus_runs)
qed

text \<open>A read returns an object with the name that was asked for.\<close>

definition names_kept :: "'c vxlan_client \<Rightarrow> bool" where
  "names_kept cl \<longleftrightarrow> (\<forall>nm c t. fst (vx_get_tunnel cl nm c) = Ok t \<longrightarrow> om_name (et_meta t) = nm)"

lemma gateway_runs: "runs (own_inv cfg) (vx_reconcileEgressGateway r ord req)"
  unfolding vx_reconcileEgressGateway_def getEgressTunnelByEgressGateway_def by (intro vx_run peers_of_runs ensure_peer_runs)

lemma own_status_runs:
  assumes "parent_calm r"
  shows "runs (own_inv (vr_cfg r)) (ensureEgressTunnelStatus r node)"
  unfolding ensureEgressTunnelStatus_def Let_def by (intro vx_run status_runs [OF assms] store_own)

lemma tunnel_runs:
  assumes "parent_calm r" "names_kept (vr_client r)"
  shows "runs (own_inv (vr_cfg r)) (reconcileEgressTunnel r ord req)"
proof -
  let ?I = "own_inv (vr_cfg r)" and ?nm = "req_name req"
  have "om_name (et_meta t) = ?nm" if "vx_get_tunnel (vr_client r) ?nm c = (Ok t, c')" for c t c'
    using assms(2) that unfolding names_kept_def by (metis fst_conv)
  then have "keeps ?I (vapi (vx_get_tunnel (vr_client r) ?nm)) (\<lambda>t. om_name (et_meta t) = ?nm)"
    by (auto simp: keeps_def vapi_def split: prod.splits)
  then have get: "keeps ?I (attempt (vapi (vx_get_tunnel (vr_client r) ?nm)))
      (\<lambda>res. case res of Inl (_ :: vx_err) \<Rightarrow> True | Inr t \<Rightarrow> om_name (et_meta t) = ?nm)" by (rule keeps_attempt)
  show ?thesis unfolding reconcileEgressTunnel_def Let_def
  proof (rule keeps_bindp [OF get], rule keeps_bindp [where R = "\<lambda>found. \<forall>t. found = Some t \<longrightarrow> om_name (et_meta t) = ?nm"], goal_cases)
    case (1 res)
    then show ?case by (intro triple_rules) auto
  next
    case (2 res found)
    then show ?case by (intro vx_run ensureRoute_runs ensure_peer_runs own_status_runs assms store_own) auto
  qed
qed

lemma vxlan_Reconcile_runs:
  assumes "parent_calm r" "names_kept (vr_client r)"
  shows "runs (own_inv (vr_cfg r)) (vxlan_Reconcile r ord req)"
  unfolding vxlan_Reconcile_def by (intro vx_run do_once_runs tunnel_runs gateway_runs assms)

lemma own_run:
  assumes "parent_calm r" "names_kept (vr_client r)" "own_inv (vr_cfg r) s"
  shows "own_inv (vr_cfg r) (fold (\<lambda>(ord, req) s. snd (vxlan_Reconcile r ord req s)) reqs s)"
  using assms(3) vxlan_Reconcile_runs [OF assms(1,2)]
  by (induction reqs arbitrary: s) (auto simp: keeps_def)

text \<open>C22. The loop that keeps the device never dereferences a nil address: from the start, whatever requests were handled
  and however they ended, the own tunnel end, once it is stored, has an address of every enabled family, so that with
  the networks of the configuration the loop gets an address with a mask for each of them.\<close>

theorem own_vtep_typed:
  assumes "parent_calm r" "names_kept (vr_client r)" "vw_peers s = []"
    and "vc_v4 (vr_cfg r) \<Longrightarrow> vc_net4 (vr_cfg r) \<noteq> None" "vc_v6 (vr_cfg r) \<Longrightarrow> vc_net6 (vr_cfg r) \<noteq> None"
    and "map_of (vw_peers (fold (\<lambda>(ord, req) s. snd (vxlan_Reconcile r ord req s)) reqs s)) (vc_node (vr_cfg r)) = Some vtep"
  shows "(\<exists>n4. own_net (vc_v4 (vr_cfg r)) (pe_ipv4 vtep) to4 (vc_net4 (vr_cfg r)) = Ok n4 \<and> (n4 \<noteq> None) = vc_v4 (vr_cfg r)) \<and>
    (\<exists>n6. own_net (vc_v6 (vr_cfg r)) (pe_ipv6 vtep) to16 (vc_net6 (vr_cfg r)) = Ok n6 \<and> (n6 \<noteq> None) = vc_v6 (vr_cfg r))"
proof -
  have "own_inv (vr_cfg r) s" by (simp add: own_ok_def assms(3))
  from own_run [OF assms(1,2) this] show ?thesis using assms(4-6) by (fastforce simp: own_ok_def own_net_def)
qed

text \<open>C24. The first run stores every ready tunnel of the cluster under the name of the own node: when the last of them is the
  tunnel of another node, the agent takes the addresses and the MAC address of that node for its own.\<close>

theorem init_takes_foreign_vtep:
  assumes "vx_list_tunnels (vr_client r) (vw_api s) = (Ok (items @ [t]), c)"
    and "et_phase (et_status t) = EgressTunnelReady" "parseVTEP (vr_cfg r) (et_status t) = Some p"
  shows "\<exists>s'. initTunnelPeerMap r s = (Ok (), s') \<and> map_of (vw_peers s') (vc_node (vr_cfg r)) = Some p"
proof -
  let ?body = "\<lambda>item _. if et_phase (et_status item) = EgressTunnelReady
       then case parseVTEP (vr_cfg r) (et_status item) of None \<Rightarrow> ret () | Some vtep \<Rightarrow> store_peer (vc_node (vr_cfg r)) vtep else ret ()"
  have all: "\<exists>s'. for_each ?body items u w = (Ok (), s')" for u and w :: "('a, 'b) vxlan_world"
  proof (induction items arbitrary: u w)
    case (Cons x xs)
    then show ?case by (auto simp: bindp_def ret_def store_peer_def split: option.splits)
  qed (simp add: ret_def)
  obtain s' where s': "for_each ?body items () (s\<lparr>vw_api := c\<rparr>) = (Ok (), s')" using all by blast
  have "initTunnelPeerMap r s = for_each ?body (items @ [t]) () (s\<lparr>vw_api := c\<rparr>)"
    unfolding initTunnelPeerMap_def by (rule bindp_Ok_step) (simp add: vapi_def assms(1))
  also have "\<dots> = (Ok (), s'\<lparr>vw_peers := AList.update (vc_node (vr_cfg r)) p (vw_peers s')\<rparr>)"
    unfolding for_each_append bindp_Ok_step [of "for_each ?body items ()", OF s'] by (simp add: assms(2,3) bindp_def store_peer_def ret_def)
  finally show ?thesis by (simp add: update_conv')
qed

section \<open>Neighbours\<close>

definition put :: "nl_neigh \<Rightarrow> nl_neigh list \<Rightarrow> nl_neigh list" where
  "put n xs = filter (\<lambda>x. \<not> same_key x n) xs @ [n]"

text \<open>The entries that lead to a peer: its addresses and its MAC address.\<close>

definition arp_entry :: "nl_link \<Rightarrow> mac \<Rightarrow> netip \<Rightarrow> nl_neigh" where
  "arp_entry l hw ip = \<lparr>ng_link = lk_index l, ng_family = family_of_ip ip, ng_self = False, ng_ip = ip, ng_hw = hw\<rparr>"

definition fdb_entry :: "nl_link \<Rightarrow> peer \<Rightarrow> nl_neigh" where
  "fdb_entry l p = \<lparr>ng_link = lk_index l, ng_family = AF_BRIDGE, ng_self = True, ng_ip = pe_parent p, ng_hw = pe_mac p\<rparr>"

definition peer_entries :: "nl_link \<Rightarrow> peer \<Rightarrow> nl_neigh list" where
  "peer_entries l p = map (arp_entry l (pe_mac p)) (case pe_ipv6 p of None \<Rightarrow> [] | Some ip \<Rightarrow> [ip]) @
     map (arp_entry l (pe_mac p)) (case pe_ipv4 p of None \<Rightarrow> [] | Some ip \<Rightarrow> [ip]) @ [fdb_entry l p]"

text \<open>What the deletion of a neighbour takes away.\<close>

definition drops :: "nl_neigh \<Rightarrow> nl_neigh \<Rightarrow> bool" where
  "drops item x \<longleftrightarrow> same_key x item \<or> same_key x (item\<lparr>ng_family := AF_BRIDGE, ng_self := True\<rparr>) \<and> ip_equal (ng_ip x) (ng_ip item)"

lemma bridge [simp]: "AF_BRIDGE \<noteq> 0" "FAMILY_V4 \<noteq> AF_BRIDGE" "AF_BRIDGE \<noteq> FAMILY_V4" "FAMILY_V6 \<noteq> AF_BRIDGE" "AF_BRIDGE \<noteq> FAMILY_V6"
  by (simp_all add: AF_BRIDGE_def FAMILY_V4_def FAMILY_V6_def)

lemma family_of_ip_simps [simp]: "family_of_ip ip \<noteq> AF_BRIDGE" "AF_BRIDGE \<noteq> family_of_ip ip" "family_of_ip ip \<noteq> 0"
  by (simp_all add: family_of_ip_def)

lemma same_key_refl: "same_key x x"
  by (simp add: same_key_def ip_equal_def)

definition with_neighs :: "nl_neigh list \<Rightarrow> (net_view, 'z) dev_world_scheme \<Rightarrow> (net_view, 'z) dev_world_scheme" where
  "with_neighs ns s = s\<lparr>dw_net := (dw_net s)\<lparr>nv_neighs := ns\<rparr>\<rparr>"

lemma with_neighs_simps [simp]: "nv_neighs (dw_net (with_neighs ns s)) = ns" "with_neighs ns (with_neighs ms s) = with_neighs ns s"
  "dw_link (with_neighs ns s) = dw_link s" "with_neighs (nv_neighs (dw_net s)) s = s"
  by (simp_all add: with_neighs_def)

lemma set_neigh:
  "dnl (nl_neigh_set kernel_netlink n) s = (Ok (), with_neighs (put (kernel_neigh n) (nv_neighs (dw_net s))) s)"
  by (simp add: dnl_def on_net_def or_fail_def kernel_defs with_neighs_def put_def)

lemma Add_at:
  assumes "dw_link s = Some l"
  shows "Add kernel_netlink p s = (Ok (), with_neighs (fold put (peer_entries l p) (nv_neighs (dw_net s))) s)"
proof -
  have entries: "kernel_neigh \<lparr>ng_link = lk_index l, ng_family = 0, ng_self = False, ng_ip = ip, ng_hw = hw\<rparr> = arp_entry l hw ip"
      "kernel_neigh \<lparr>ng_link = lk_index l, ng_family = AF_BRIDGE, ng_self = True, ng_ip = pe_parent p, ng_hw = pe_mac p\<rparr> = fdb_entry l p" for ip hw
    by (simp_all add: kernel_neigh_def arp_entry_def fdb_entry_def)
  show ?thesis
    by (cases "pe_ipv6 p"; cases "pe_ipv4 p")
      (simp_all add: Add_def when_ready_def assms add_neigh_def bindp_def ret_def set_neigh entries peer_entries_def)
qed

lemma noted_Ok: "m s = (Ok (), s') \<Longrightarrow> noted m s = (Ok (), s')"
  by (simp add: noted_def bindp_def attempt_def ret_def)

lemma Add_loop:
  "dw_link s = Some l \<Longrightarrow> for_each (\<lambda>p _. noted (Add kernel_netlink p)) ps () s =
     (Ok (), with_neighs (fold put (concat (map (peer_entries l) ps)) (nv_neighs (dw_net s))) s)"
proof (induction ps arbitrary: s)
  case (Cons p ps)
  let ?s = "with_neighs (fold put (peer_entries l p) (nv_neighs (dw_net s))) s"
  have "for_each (\<lambda>p _. noted (Add kernel_netlink p)) (p # ps) () s = for_each (\<lambda>p _. noted (Add kernel_netlink p)) ps () ?s"
    unfolding for_each.simps by (rule bindp_Ok_step, rule noted_Ok, rule Add_at [OF Cons.prems])
  then show ?case using Cons.IH [of ?s] Cons.prems by simp
qed (simp add: ret_def)

definition hit :: "nl_neigh \<Rightarrow> nl_neigh \<Rightarrow> bool" where
  "hit n x \<longleftrightarrow> same_key x (kernel_neigh n) \<and> (ng_family x = AF_BRIDGE \<longrightarrow> ip_equal (ng_ip x) (ng_ip n))"

text \<open>A deletion takes away what it hits, and fails when that is nothing.\<close>

lemma del_neigh:
  "\<exists>res. attempt (dnl (nl_neigh_del kernel_netlink n)) s = (Ok res, with_neighs (filter (\<lambda>x. \<not> hit n x) (nv_neighs (dw_net s))) s)"
proof (cases "list_ex (hit n) (nv_neighs (dw_net s))")
  case True
  then show ?thesis by (simp add: attempt_def dnl_def on_net_def or_fail_def kernel_defs with_neighs_def Let_def hit_def [abs_def])
next
  case False
  then have "filter (\<lambda>x. \<not> hit n x) (nv_neighs (dw_net s)) = nv_neighs (dw_net s)" by (auto simp: list_ex_iff intro!: filter_True)
  with False show ?thesis by (simp add: attempt_def dnl_def on_net_def or_fail_def kernel_defs Let_def hit_def [abs_def])
qed

lemma hit_drops: "ng_family item = FAMILY_V4 \<Longrightarrow> hit (item\<lparr>ng_family := AF_BRIDGE, ng_self := True\<rparr>) x \<or> hit item x \<longleftrightarrow> drops item x"
  by (auto simp: hit_def drops_def kernel_neigh_def same_key_def)

lemma Del_at:
  assumes "dw_link s = Some l" "ng_family item = FAMILY_V4"
  shows "noted (Del kernel_netlink item) s = (Ok (), with_neighs (filter (\<lambda>x. \<not> drops item x) (nv_neighs (dw_net s))) s)"
proof -
  let ?b = "item\<lparr>ng_family := AF_BRIDGE, ng_self := True\<rparr>"
  let ?s = "with_neighs (filter (\<lambda>x. \<not> hit ?b x) (nv_neighs (dw_net s))) s"
  obtain r1 where one: "attempt (dnl (nl_neigh_del kernel_netlink ?b)) s = (Ok r1 :: (vx_err, _) outcome, ?s)" using del_neigh by blast
  obtain r2 where two: "attempt (dnl (nl_neigh_del kernel_netlink item)) ?s = (Ok r2 :: (vx_err, _) outcome, with_neighs (filter (\<lambda>x. \<not> hit item x) (nv_neighs (dw_net ?s))) ?s)"
    using del_neigh by blast
  have "filter (\<lambda>x. \<not> hit item x) (nv_neighs (dw_net ?s)) = filter (\<lambda>x. \<not> drops item x) (nv_neighs (dw_net s))"
    using hit_drops [OF assms(2)] by (auto intro: filter_cong)
  note two = two [unfolded this with_neighs_simps(2)]
  have "Del kernel_netlink item s = bindp (attempt (dnl (nl_neigh_del kernel_netlink ?b))) (\<lambda>err1.
      bindp (attempt (dnl (nl_neigh_del kernel_netlink item))) (\<lambda>err2. if isl err1 \<or> isl err2 then fail VxNeigh else ret ())) s"
    by (simp add: Del_def when_ready_def assms(1))
  also have "\<dots> = (if isl r1 \<or> isl r2 then fail VxNeigh else ret ()) (with_neighs (filter (\<lambda>x. \<not> drops item x) (nv_neighs (dw_net s))) s)"
    by (rule trans [OF bindp_Ok_step], rule one, rule bindp_Ok_step, rule two)
  finally show ?thesis by (simp add: noted_def attempt_def bindp_def ret_def fail_def)
qed

lemma Del_loop:
  "dw_link s = Some l \<Longrightarrow> \<forall>item \<in> set items. ng_family item = FAMILY_V4 \<Longrightarrow>
   for_each (\<lambda>item _. if P item then noted (Del kernel_netlink item) else ret ()) items () s =
     (Ok (), with_neighs (filter (\<lambda>x. \<forall>item \<in> set items. P item \<longrightarrow> \<not> drops item x) (nv_neighs (dw_net s))) s)"
proof (induction items arbitrary: s)
  case (Cons item items)
  let ?s = "if P item then with_neighs (filter (\<lambda>x. \<not> drops item x) (nv_neighs (dw_net s))) s else s"
  have "(if P item then noted (Del kernel_netlink item) else ret ()) s = (Ok (), ?s)"
    using Del_at [OF Cons.prems(1)] Cons.prems(2) by (simp add: ret_def)
  then have "for_each (\<lambda>item _. if P item then noted (Del kernel_netlink item) else ret ()) (item # items) () s =
      for_each (\<lambda>item _. if P item then noted (Del kernel_netlink item) else ret ()) items () ?s"
    unfolding for_each.simps by (rule bindp_Ok_step)
  with Cons.IH [of ?s] Cons.prems show ?case by simp
qed (simp add: ret_def)

lemma set_fold_put:
  assumes "\<forall>a \<in> set es. \<forall>b \<in> set es. same_key a b \<longrightarrow> a = b"
  shows "set (fold put es xs) = set es \<union> {x \<in> set xs. \<forall>e \<in> set es. \<not> same_key x e}"
  using assms by (induction es rule: rev_induct) (auto simp: put_def)

section \<open>The neighbours of a run\<close>

text \<open>What can be seen of the agent's world, when the node is seen through \<open>view\<close>.\<close>

definition seen :: "('w \<Rightarrow> 'v) \<Rightarrow> ('c, 'w) vxlan_world \<Rightarrow> ('c, 'v) vxlan_world" where
  "seen view s = \<lparr>dw_net = view (dw_net s), dw_link = dw_link s, vw_api = vw_api s, vw_peers = vw_peers s, vw_done = vw_done s, vw_timer = vw_timer s\<rparr>"

lemma seen_simps [simp]: "dw_net (seen view s) = view (dw_net s)" "dw_link (seen view s) = dw_link s" "vw_peers (seen view s) = vw_peers s"
  by (simp_all add: seen_def)

lemma like_dnl: "like_kernel view m k \<Longrightarrow> like_kernel (seen view) (dnl m) (dnl k)"
  by (auto simp: like_kernel_def dnl_def or_fail_def on_net_def seen_def split: prod.splits) (metis fst_conv snd_conv)+

lemma like_peers: "like_kernel (seen view) peers_of peers_of"
  by (simp add: like_kernel_def peers_of_def)

lemma like_when_ready: "(\<And>l. like_kernel (seen view) (f l) (g l)) \<Longrightarrow> like_kernel (seen view) (when_ready d f) (when_ready d g)"
  by (simp add: like_kernel_def when_ready_def ret_def split: option.splits)

lemma like_noted: "like_kernel view m k \<Longrightarrow> like_kernel view (noted m) (noted k)"
  unfolding noted_def by (rule like_bindp, erule like_wrap) (simp split: sum.split add: like_rules)

text \<open>A node whose netlink is the kernel in memory and whose files can be written.\<close>

definition memory_env :: "net_view dev_env" where
  "memory_env = \<lparr>de_nl = kernel_netlink, de_open = \<lambda>_. ret (), de_write = \<lambda>_ s. ret (length s), de_tx_off = \<lambda>_. ret ()\<rparr>"

lemma memory_netlink [simp]: "de_nl memory_env = kernel_netlink"
  by (simp add: memory_env_def)

definition in_memory :: "('c, 'w) vxlanReconciler \<Rightarrow> ('c, net_view) vxlanReconciler" where
  "in_memory r = \<lparr>vr_client = vr_client r, vr_cfg = vr_cfg r, vr_env = memory_env,
     vr_parent = \<lambda>_. fail VxRequest, vr_route = vr_route r\<rparr>"

lemma ensureRoute_like:
  assumes "netlink_service (de_nl (vr_env r)) view"
  shows "like_kernel (seen view) (ensureRoute r ord) (ensureRoute (in_memory r) ord)"
proof -
  have same: "vr_cfg (in_memory r) = vr_cfg r" "de_nl (vr_env (in_memory r)) = kernel_netlink" by (simp_all add: in_memory_def)
  note calls = netlink_service.neighs [OF assms]
  show ?thesis unfolding ensureRoute_def Let_def same ListNeigh_def Del_def Add_def add_neigh_def
    by (intro like_rules like_peers like_noted like_when_ready like_dnl) (simp_all add: kernel_netlink_def calls)
qed

abbreviation vx_peers :: "('c, 'w) vxlanReconciler \<Rightarrow> ('c, 'w') vxlan_world \<Rightarrow> (string \<times> peer) list" where
  "vx_peers r s \<equiv> other_peers (vr_cfg r) (vw_peers s)"

definition stale_neigh :: "nl_link \<Rightarrow> (string \<times> peer) list \<Rightarrow> nl_neigh \<Rightarrow> bool" where
  "stale_neigh l ps n \<longleftrightarrow> ng_link n = lk_index l \<and> ng_family n = FAMILY_V4 \<and> mac_string (ng_hw n) \<notin> (\<lambda>(_, p). mac_string (pe_mac p)) ` set ps"

definition kept_neighs :: "nl_link \<Rightarrow> (string \<times> peer) list \<Rightarrow> nl_neigh list \<Rightarrow> nl_neigh list" where
  "kept_neighs l ps ns = filter (\<lambda>x. \<forall>n \<in> set ns. stale_neigh l ps n \<longrightarrow> \<not> drops n x) ns"

lemma ensureRoute_char:
  fixes s :: "('c, net_view) vxlan_world"
  assumes "dw_link s = Some l" "de_nl (vr_env r) = kernel_netlink"
  shows "ensureRoute r ord s = (Ok (), with_neighs (fold put (concat (map (peer_entries l) (range_values ord (vx_peers r s))))
    (kept_neighs l (vx_peers r s) (nv_neighs (dw_net s)))) s)"
proof -
  let ?got = "filter (\<lambda>n. ng_link n = lk_index l \<and> ng_family n = FAMILY_V4) (nv_neighs (dw_net s))"
  let ?bad = "\<lambda>item. mac_string (ng_hw item) \<notin> set (map (\<lambda>(_, p). mac_string (pe_mac p)) (vx_peers r s))"
  let ?s = "with_neighs (filter (\<lambda>x. \<forall>item \<in> set ?got. ?bad item \<longrightarrow> \<not> drops item x) (nv_neighs (dw_net s))) s"
  have list: "ListNeigh kernel_netlink s = (Ok ?got, s)"
    by (simp add: ListNeigh_def when_ready_def assms(1) dnl_def on_net_def or_fail_def kernel_defs)
  have peers: "peers_of s = (Ok (vw_peers s), s)" by (simp add: peers_of_def)
  have del: "for_each (\<lambda>item _. if ?bad item then noted (Del kernel_netlink item) else ret ()) ?got () s = (Ok (), ?s)"
    by (rule Del_loop [OF assms(1)]) simp
  have "ensureRoute r ord s = for_each (\<lambda>p _. noted (Add kernel_netlink p)) (range_values ord (vx_peers r s)) () ?s"
    unfolding ensureRoute_def Let_def assms(2)
    by (rule trans [OF bindp_Ok_step], rule list, rule trans [OF bindp_Ok_step], rule peers, rule bindp_Ok_step, rule del)
  also have "\<dots> = (Ok (), with_neighs (fold put (concat (map (peer_entries l) (range_values ord (vx_peers r s)))) (nv_neighs (dw_net ?s))) ?s)"
    by (rule Add_loop) (simp add: assms(1))
  also have "nv_neighs (dw_net ?s) = kept_neighs l (vx_peers r s) (nv_neighs (dw_net s))"
    by (auto simp: kept_neighs_def stale_neigh_def intro!: filter_cong)
  finally show ?thesis by simp
qed

lemma range_values_peers: "map_iteration ord \<Longrightarrow> set (range_values ord ps) = ran (map_of ps)"
  by (rule map_iteration.set_range_values)

text \<open>The entries that lead to the peers.\<close>

definition peer_neighs :: "nl_link \<Rightarrow> (string \<times> peer) list \<Rightarrow> nl_neigh set" where
  "peer_neighs l ps = (\<Union>p \<in> ran (map_of ps). set (peer_entries l p))"

lemma peer_entries_at: "e \<in> set (peer_entries l p) \<Longrightarrow> ng_link e = lk_index l \<and> ng_hw e = pe_mac p"
  by (auto simp: peer_entries_def arp_entry_def fdb_entry_def)

lemma peer_neighs_at: "e \<in> peer_neighs l ps \<Longrightarrow> ng_link e = lk_index l \<and> (\<exists>(_, p) \<in> set ps. ng_hw e = pe_mac p)"
  unfolding peer_neighs_def ran_def using peer_entries_at by (fastforce dest: map_of_SomeD)

lemma fold_put_elsewhere: "\<forall>e \<in> set es. ng_link e = i \<Longrightarrow> filter (\<lambda>x. ng_link x \<noteq> i) (fold put es xs) = filter (\<lambda>x. ng_link x \<noteq> i) xs"
proof (induction es arbitrary: xs)
  case (Cons e es)
  then have "filter (\<lambda>x. ng_link x \<noteq> i) (put e xs) = filter (\<lambda>x. ng_link x \<noteq> i) xs"
    by (auto simp: put_def same_key_def intro!: filter_cong)
  with Cons show ?case by simp
qed simp

lemma kept_elsewhere: "filter (\<lambda>x. ng_link x \<noteq> lk_index l) (kept_neighs l ps ns) = filter (\<lambda>x. ng_link x \<noteq> lk_index l) ns"
  by (auto simp: kept_neighs_def stale_neigh_def drops_def same_key_def intro!: filter_cong)

lemma kept_not_stale: "n \<in> set (kept_neighs l ps ns) \<Longrightarrow> \<not> stale_neigh l ps n"
  using same_key_refl by (auto simp: kept_neighs_def drops_def)

text \<open>What a run leaves: the entries of the peers, no IPv4 neighbour with a MAC address of no peer, the other links as they were.\<close>

definition leads_to_peers :: "nl_link \<Rightarrow> (string \<times> peer) list \<Rightarrow> nl_neigh list \<Rightarrow> nl_neigh list \<Rightarrow> bool" where
  "leads_to_peers l ps before after \<longleftrightarrow> peer_neighs l ps \<subseteq> set after \<and> (\<forall>n \<in> set after. \<not> stale_neigh l ps n) \<and>
     filter (\<lambda>x. ng_link x \<noteq> lk_index l) after = filter (\<lambda>x. ng_link x \<noteq> lk_index l) before"

lemma put_entries:
  assumes "map_iteration ord" "\<forall>a \<in> peer_neighs l ps. \<forall>b \<in> peer_neighs l ps. same_key a b \<longrightarrow> a = b"
  shows "leads_to_peers l ps ns (fold put (concat (map (peer_entries l) (range_values ord ps))) (kept_neighs l ps ns))"
proof -
  let ?es = "concat (map (peer_entries l) (range_values ord ps))"
  have es: "set ?es = peer_neighs l ps" by (simp add: peer_neighs_def range_values_peers [OF assms(1)])
  have at: "\<forall>e \<in> set ?es. ng_link e = lk_index l" using peer_neighs_at es by blast
  have new: "\<not> stale_neigh l ps e" if "e \<in> peer_neighs l ps" for e
    using peer_neighs_at [OF that] by (force simp: stale_neigh_def)
  have "set (fold put ?es (kept_neighs l ps ns)) \<subseteq> peer_neighs l ps \<union> set (kept_neighs l ps ns)" "peer_neighs l ps \<subseteq> set (fold put ?es (kept_neighs l ps ns))"
    using set_fold_put [of ?es "kept_neighs l ps ns"] assms(2) unfolding es by auto
  then show ?thesis using new kept_not_stale fold_put_elsewhere [OF at] kept_elsewhere unfolding leads_to_peers_def by (intro conjI ballI) (blast, blast, simp)
qed

text \<open>C13. On every node whose netlink answers like a kernel, a run over the neighbours of the ready device ends without an
  error: every peer then has its neighbour entries and its forwarding entry, no IPv4 neighbour with a MAC address of no
  peer is left on the device, and the entries of the other links are as they were, whatever the order of the map, as
  long as no two peers claim the same address or MAC address with different entries.\<close>

theorem ensureRoute_exact:
  assumes "netlink_service (de_nl (vr_env r)) view" "map_iteration ord" "dw_link s = Some l"
    and "\<forall>a \<in> peer_neighs l (vx_peers r s). \<forall>b \<in> peer_neighs l (vx_peers r s). same_key a b \<longrightarrow> a = b"
  shows "returns (ensureRoute r ord) s (\<lambda>_ s'. vw_peers s' = vw_peers s \<and> dw_link s' = dw_link s \<and>
    leads_to_peers l (vx_peers r s) (nv_neighs (view (dw_net s))) (nv_neighs (view (dw_net s'))))"
proof -
  have "returns (ensureRoute (in_memory r) ord) (seen view s) (\<lambda>_ v'. vw_peers v' = vw_peers s \<and> dw_link v' = dw_link s \<and>
      leads_to_peers l (vx_peers r s) (nv_neighs (view (dw_net s))) (nv_neighs (dw_net v')))"
    using ensureRoute_char [of "seen view s" l "in_memory r" ord] put_entries [OF assms(2,4)] assms(3)
    by (simp add: ends_def in_memory_def with_neighs_def)
  from like_ends [OF ensureRoute_like [OF assms(1)] this] show ?thesis by simp
qed

text \<open>The forwarding entry of a peer that is gone stays: the deletion of its IPv4 neighbour names the address of the tunnel
  end where the forwarding entry has the address of the parent interface, so that the kernel finds no such entry. An
  entry that leads to no peer is there after the run when no neighbour of the device has its destination as address.\<close>

theorem stale_fdb_stays:
  assumes "netlink_service (de_nl (vr_env r)) view" "map_iteration ord" "dw_link s = Some l"
    and "fdb_entry l gone \<in> set (nv_neighs (view (dw_net s)))" "pe_mac gone \<notin> (\<lambda>(_, p). pe_mac p) ` set (vx_peers r s)"
    and "\<And>n. n \<in> set (nv_neighs (view (dw_net s))) \<Longrightarrow> ng_link n = lk_index l \<Longrightarrow> ng_family n = FAMILY_V4 \<Longrightarrow> \<not> ip_equal (pe_parent gone) (ng_ip n)"
  shows "returns (ensureRoute r ord) s (\<lambda>_ s'. fdb_entry l gone \<in> set (nv_neighs (view (dw_net s'))))"
proof -
  let ?ps = "vx_peers r s" and ?ns = "nv_neighs (view (dw_net s))" and ?f = "fdb_entry l gone"
  have kept: "?f \<in> set (kept_neighs l ?ps ?ns)"
    using assms(4,6) by (fastforce simp: kept_neighs_def stale_neigh_def drops_def same_key_def fdb_entry_def)
  have stays: "?f \<in> set xs \<Longrightarrow> \<forall>e \<in> set es. ng_hw e \<noteq> pe_mac gone \<Longrightarrow> ?f \<in> set (fold put es xs)" for es xs
    by (induction es arbitrary: xs) (auto simp: put_def same_key_def fdb_entry_def)
  have "\<forall>e \<in> set (concat (map (peer_entries l) (range_values ord ?ps))). ng_hw e \<noteq> pe_mac gone"
    using peer_neighs_at [of _ l ?ps] assms(5) by (force simp: peer_neighs_def range_values_peers [OF assms(2)])
  from stays [OF kept this] have "returns (ensureRoute (in_memory r) ord) (seen view s) (\<lambda>_ v'. ?f \<in> set (nv_neighs (dw_net v')))"
    using ensureRoute_char [of "seen view s" l "in_memory r" ord] assms(3) by (simp add: ends_def in_memory_def with_neighs_def)
  from like_ends [OF ensureRoute_like [OF assms(1)] this] show ?thesis by simp
qed

section \<open>Hardware addresses\<close>

lemma length_join_mac: "length (join_with '':'' (map hex_byte (b # bs))) = 3 * length bs + 2"
proof (induction bs arbitrary: b)
  case (Cons c cs)
  then show ?case by (simp add: hex_byte_def)
qed (simp add: hex_byte_def)

lemma xtoi2_hex: "b < 256 \<Longrightarrow> xtoi2 (hex_byte b @ CHR '':'' # rest) (Some (CHR '':'')) = Some b" "b < 256 \<Longrightarrow> xtoi2 (hex_byte b) e = Some b"
  by (simp_all add: xtoi2_def hex_byte_def)

lemma mac_pairs_join: "\<forall>b \<in> set m. b < 256 \<Longrightarrow> mac_pairs (CHR '':'') (length m) (join_with '':'' (map hex_byte m)) = Some m"
proof (induction m)
  case (Cons b m)
  have "drop 3 (hex_byte b @ CHR '':'' # rest) = rest" for rest by (simp add: hex_byte_def)
  with Cons show ?case by (cases m) (simp_all add: xtoi2_hex)
qed simp

lemma mac_roundtrip:
  assumes "length m \<in> {6, 8, 20}" "\<forall>b \<in> set m. b < 256"
  shows "ParseMAC (mac_string m) = Some m"
proof -
  obtain a c m' where m: "m = a # c # m'" using assms(1) by (cases m; cases "tl m") auto
  have len: "length (mac_string m) = 3 * length m - 1" unfolding mac_string_def m length_join_mac by simp
  have "mac_string m ! 2 = CHR '':''" by (simp add: mac_string_def m hex_byte_def)
  then show ?thesis using assms(1) mac_pairs_join [OF assms(2)] by (auto simp: ParseMAC_def len Let_def mac_string_def [symmetric])
qed

text \<open>C23. The MAC address that the controller makes up for a node is read by the agents as it was meant: six bytes, the first
  of which is 0x66, so that it is a unicast and locally administered address, and it prints as it was written.\<close>

theorem tunnel_mac_roundtrip:
  "\<exists>hw. ParseMAC (generateMACAddress nm) = Some hw \<and> length hw = 6 \<and> hd hw = 102 \<and> mac_string hw = generateMACAddress nm"
proof -
  let ?m = "102 # take 5 (sha1 (map of_char (nm @ ''egress'')))"
  have "\<forall>b \<in> set ?m. b < 256" using bytes_sha1 set_take_subset by fastforce
  then have "ParseMAC (mac_string ?m) = Some ?m" by (intro mac_roundtrip) simp_all
  then show ?thesis by (auto simp: generateMACAddress_def mac_string_def intro!: exI [of _ ?m])
qed

section \<open>Examples\<close>

definition ex_vx_cfg :: vxlan_config where
  "ex_vx_cfg = \<lparr>vc_node = ''n2'', vc_v4 = True, vc_v6 = False, vc_name = ''egress.vxlan'', vc_id = 100, vc_port = 7789, vc_tx_off = True,
     vc_net4 = Some \<lparr>net_ip = [10, 9, 0, 0], net_mask = [255, 255, 0, 0]\<rparr>, vc_net6 = None, vc_mark = ''0x26000000'', vc_period = 5\<rparr>"

definition ex_vx_tunnel :: "string \<Rightarrow> string \<Rightarrow> egress_tunnel" where
  "ex_vx_tunnel nm a = \<lparr>et_meta = \<lparr>om_name = nm, om_namespace = [], om_deleting = False, om_finalizers = [], om_labels = []\<rparr>,
     et_status = \<lparr>et_tunnel = \<lparr>tunnel_ipv4 = a, tunnel_ipv6 = [], tunnel_mac = ''66:2a:3b:4c:5d:6e'',
         tunnel_parent = \<lparr>parent_name = ''eth0'', parent_ipv4 = ''172.18.0.4'', parent_ipv6 = []\<rparr>\<rparr>,
       et_phase = EgressTunnelReady, et_mark = ''0x26000002'', et_last_heartbeat = 0\<rparr>\<rparr>"

definition ex_vx_client :: "egress_tunnel list vxlan_client" where
  "ex_vx_client = \<lparr>vx_get_tunnel = \<lambda>nm c. (case find (\<lambda>t. om_name (et_meta t) = nm) c of None \<Rightarrow> Err NotFound | Some t \<Rightarrow> Ok t, c),
     vx_list_tunnels = \<lambda>c. (Ok c, c), vx_get_gateway = \<lambda>_ c. (Err NotFound, c), vx_list_gateways = \<lambda>c. (Ok [], c),
     vx_status = \<lambda>t c. (Ok (), map (\<lambda>x. if om_name (et_meta x) = om_name (et_meta t) then t else x) c), vx_now = \<lambda>_. 9, vx_deadline = \<lambda>_. False\<rparr>"

definition ex_vx :: "(egress_tunnel list, net_view) vxlanReconciler" where
  "ex_vx = \<lparr>vr_client = ex_vx_client, vr_cfg = ex_vx_cfg, vr_env = memory_env,
     vr_parent = \<lambda>_. ret \<lparr>pi_name = ''eth0'', pi_ip = [172, 18, 0, 4], pi_index = 2\<rparr>, vr_route = \<lparr>rr_priority = 99\<rparr>\<rparr>"

definition ex_vx_world :: "egress_tunnel list \<Rightarrow> (string \<times> peer) list \<Rightarrow> nl_neigh list \<Rightarrow> (egress_tunnel list, net_view) vxlan_world" where
  "ex_vx_world ts ps ns = \<lparr>dw_net = ex_view\<lparr>nv_neighs := ns\<rparr>, dw_link = Some (hd (nv_links ex_view)), vw_api = ts, vw_peers = ps, vw_done = False, vw_timer = 0\<rparr>"

lemma ex_vx_simps [simp]: "vr_cfg ex_vx = ex_vx_cfg" "vr_client ex_vx = ex_vx_client" "de_nl (vr_env ex_vx) = kernel_netlink"
  "vc_node ex_vx_cfg = ''n2''" "vc_v4 ex_vx_cfg" "\<not> vc_v6 ex_vx_cfg" "vc_net4 ex_vx_cfg \<noteq> None" "vw_peers (ex_vx_world ts ps ns) = ps"
  "nv_neighs (dw_net (ex_vx_world ts ps ns)) = ns" "dw_link (ex_vx_world ts ps ns) = Some (hd (nv_links ex_view))" "vw_api (ex_vx_world ts ps ns) = ts"
  "lk_index (hd (nv_links ex_view)) = 7"
  by (simp_all add: ex_vx_def ex_vx_cfg_def ex_vx_world_def ex_view_def)

definition ex_vtep :: "netip \<Rightarrow> peer" where
  "ex_vtep a = \<lparr>pe_ipv4 = Some a, pe_ipv6 = None, pe_parent = nil_ip, pe_mac = [102, 42, 59, 76, 93, 110], pe_mark = 0\<rparr>"

lemma ex_runs: "parent_calm ex_vx" "names_kept ex_vx_client"
  by (auto simp: parent_calm_def names_kept_def ex_vx_def ex_vx_client_def ret_def find_Some_iff split: option.splits)

lemma ex_vtep_stored:
  "map_of (vw_peers (fold (\<lambda>(ord, req) s. snd (vxlan_Reconcile ex_vx ord req s)) [(\<lambda>ks. ks, \<lparr>req_namespace = ''EgressTunnel/'', req_name = ''n2''\<rparr>)]
     (ex_vx_world [ex_vx_tunnel ''n2'' ''10.9.0.2''] [] []))) ''n2'' = Some (ex_vtep (ParseIP ''10.9.0.2''))"
  by code_simp

theorem own_vtep_typed_witness:
  "(\<exists>n4. own_net True (Some (ParseIP ''10.9.0.2'')) to4 (vc_net4 ex_vx_cfg) = Ok n4 \<and> n4 \<noteq> None)"
  using own_vtep_typed [OF ex_runs(1) _ _ _ _ ex_vtep_stored [folded ex_vx_simps(4) [folded ex_vx_simps(1)]]] ex_runs(2)
  by (simp add: ex_vtep_def)

theorem init_takes_foreign_vtep_witness:
  "\<exists>s'. initTunnelPeerMap ex_vx (ex_vx_world [ex_vx_tunnel ''n2'' ''10.9.0.2'', ex_vx_tunnel ''n3'' ''10.9.0.3''] [] []) = (Ok (), s') \<and>
     map_of (vw_peers s') ''n2'' = Some (ex_vtep (ParseIP ''10.9.0.3''))"
proof -
  let ?t = "ex_vx_tunnel ''n3'' ''10.9.0.3''" and ?s = "ex_vx_world [ex_vx_tunnel ''n2'' ''10.9.0.2'', ex_vx_tunnel ''n3'' ''10.9.0.3''] [] []"
  have p: "parseVTEP (vr_cfg ex_vx) (et_status ?t) = Some (ex_vtep (ParseIP ''10.9.0.3''))" by code_simp
  have l: "vx_list_tunnels (vr_client ex_vx) (vw_api ?s) = (Ok ([ex_vx_tunnel ''n2'' ''10.9.0.2''] @ [?t]), vw_api ?s)" by (simp add: ex_vx_client_def)
  have r: "et_phase (et_status ?t) = EgressTunnelReady" by (simp add: ex_vx_tunnel_def)
  from init_takes_foreign_vtep [OF l r p] show ?thesis by simp
qed

definition ex_vx_peer :: "nat \<Rightarrow> peer" where
  "ex_vx_peer k = \<lparr>pe_ipv4 = Some [10, 9, 0, k], pe_ipv6 = None, pe_parent = [172, 18, 0, k], pe_mac = [102, 42, 59, 76, 93, k], pe_mark = 637534208 + int k\<rparr>"

text \<open>The entries of node n4 are left on the device, and n3 is the only peer.\<close>

abbreviation ex_vx_left :: "(egress_tunnel list, net_view) vxlan_world" where
  "ex_vx_left \<equiv> ex_vx_world [] [(''n2'', ex_vtep [10, 9, 0, 2]), (''n3'', ex_vx_peer 3)] (peer_entries (hd (nv_links ex_view)) (ex_vx_peer 4))"

lemma ex_vx_others: "vx_peers ex_vx ex_vx_left = [(''n3'', ex_vx_peer 3)]"
  by (simp add: other_peers_def)

lemma ex_peers_apart: "\<forall>a \<in> peer_neighs l [(''n3'', ex_vx_peer 3)]. \<forall>b \<in> peer_neighs l [(''n3'', ex_vx_peer 3)]. same_key a b \<longrightarrow> a = b"
proof -
  have "peer_neighs l [(''n3'', ex_vx_peer 3)] = {arp_entry l (pe_mac (ex_vx_peer 3)) [10, 9, 0, 3], fdb_entry l (ex_vx_peer 3)}"
    by (simp add: peer_neighs_def peer_entries_def ex_vx_peer_def)
  moreover have "\<not> same_key (arp_entry l hw a) (fdb_entry l p)" "\<not> same_key (fdb_entry l p) (arp_entry l hw a)" for hw a p
    by (auto simp: same_key_def arp_entry_def fdb_entry_def)
  ultimately show ?thesis by simp
qed

theorem ensureRoute_exact_witness:
  "returns (ensureRoute ex_vx (\<lambda>ks. ks)) ex_vx_left (\<lambda>_ s'. vw_peers s' = vw_peers ex_vx_left \<and> dw_link s' = dw_link ex_vx_left \<and>
     leads_to_peers (hd (nv_links ex_view)) [(''n3'', ex_vx_peer 3)] (peer_entries (hd (nv_links ex_view)) (ex_vx_peer 4)) (nv_neighs (dw_net s')))"
proof -
  let ?l = "hd (nv_links ex_view)"
  have once: "\<forall>a \<in> peer_neighs ?l (vx_peers ex_vx ex_vx_left). \<forall>b \<in> peer_neighs ?l (vx_peers ex_vx ex_vx_left). same_key a b \<longrightarrow> a = b"
    unfolding ex_vx_others by (rule ex_peers_apart)
  from ensureRoute_exact [where r = ex_vx and view = "\<lambda>v. v" and s = ex_vx_left, OF _ insertion_order.map_iteration_axioms _ once] in_kernel.netlink_service_axioms
  show ?thesis by (simp add: other_peers_def)
qed

theorem stale_fdb_stays_witness:
  "returns (ensureRoute ex_vx (\<lambda>ks. ks)) ex_vx_left (\<lambda>_ s'. fdb_entry (hd (nv_links ex_view)) (ex_vx_peer 4) \<in> set (nv_neighs (dw_net s')))"
proof (rule stale_fdb_stays [where r = ex_vx and view = "\<lambda>v. v" and s = ex_vx_left and l = "hd (nv_links ex_view)", OF _ insertion_order.map_iteration_axioms])
  show "pe_mac (ex_vx_peer 4) \<notin> (\<lambda>(_, p). pe_mac p) ` set (vx_peers ex_vx ex_vx_left)" unfolding ex_vx_others by (simp add: ex_vx_peer_def)
  show "\<not> ip_equal (pe_parent (ex_vx_peer 4)) (ng_ip n)" if "n \<in> set (nv_neighs (dw_net ex_vx_left))" "ng_family n = FAMILY_V4" for n
  proof -
    have "\<not> ip_equal [172, 18, 0, 4] [10, 9, 0, 4]" by code_simp
    with that show ?thesis by (auto simp: peer_entries_def ex_vx_peer_def arp_entry_def fdb_entry_def)
  qed
qed (simp_all add: in_kernel.netlink_service_axioms peer_entries_def)

end
