(* ===== verification/VxlanLink.thy ===== *)
theory VxlanLink
  imports VxlanProps
begin

text \<open>
  The tunnel device on a kernel: \<^verbatim>\<open>EnsureLink\<close> creates, keeps or replaces the link, gives it its addresses and
  sets it up, and a round of the loop that keeps the device leaves it ready with the neighbours of the peers.
\<close>

section \<open>Links\<close>








lemma ends_dnl:
  "ends m (dw_net s) (\<lambda>x w. Q x (s\<lparr>dw_net := w\<rparr>)) (\<lambda>e w. E (VxNl e) (s\<lparr>dw_net := w\<rparr>)) \<Longrightarrow> ends (dnl m) s Q E"
  by (auto simp: ends_def dnl_def or_fail_def on_net_def)








section \<open>Addresses\<close>

definition with_addrs :: "(int \<times> ipnet) list \<Rightarrow> (net_view, 'z) dev_world_scheme \<Rightarrow> (net_view, 'z) dev_world_scheme" where
  "with_addrs as s = s\<lparr>dw_net := (dw_net s)\<lparr>nv_addrs := as\<rparr>\<rparr>"

lemma with_addrs_simps [simp]: "nv_addrs (dw_net (with_addrs as s)) = as" "with_addrs as (with_addrs bs s) = with_addrs as s"
  "link_here l (dw_net (with_addrs as s)) = link_here l (dw_net s)" "with_addrs (nv_addrs (dw_net s)) s = s"
  by (simp_all add: with_addrs_def link_here_def)







section \<open>The device\<close>












section \<open>The device on a node\<close>





section \<open>A round of the loop\<close>







text \<open>Rules and routes change without the links, the addresses and the neighbours.\<close>

definition wires :: "net_view \<Rightarrow> nl_link list \<times> (int \<times> ipnet) list \<times> nl_neigh list" where
  "wires v = (nv_links v, nv_addrs v, nv_neighs v)"

definition calm :: "(net_view, 'e, 'a) prog \<Rightarrow> bool" where
  "calm m \<longleftrightarrow> (\<forall>v. ends m v (\<lambda>_ v'. wires v' = wires v) (\<lambda>_ v'. wires v' = wires v))"

named_theorems calm_rules \<open>programs that touch rules and routes only\<close>

lemma calm_simple [calm_rules]: "calm (ret x)" "calm (fail e)"
  by (simp_all add: calm_def ends_ret ends_fail)

lemma calm_bindp [calm_rules]:
  assumes "calm m" "\<And>x. calm (f x)"
  shows "calm (bindp m f)"
  unfolding calm_def
proof
  fix v
  have "ends (f x) v' (\<lambda>_ u. wires u = wires v) (\<lambda>_ u. wires u = wires v)" if "wires v' = wires v" for x v'
    using assms(2) that by (metis calm_def)
  then show "ends (bindp m f) v (\<lambda>_ u. wires u = wires v) (\<lambda>_ u. wires u = wires v)"
    using assms(1) by (intro ends_bindp [of m v "\<lambda>_ u. wires u = wires v"]) (auto simp: calm_def)
qed

lemma calm_if [calm_rules]: "(b \<Longrightarrow> calm m) \<Longrightarrow> (\<not> b \<Longrightarrow> calm n) \<Longrightarrow> calm (if b then m else n)"
  by simp

lemma calm_option [calm_rules]: "calm m \<Longrightarrow> (\<And>x. calm (f x)) \<Longrightarrow> calm (case z of None \<Rightarrow> m | Some x \<Rightarrow> f x)"
  by (cases z) auto

lemma calm_for_each [calm_rules]: "(\<And>x s. calm (f x s)) \<Longrightarrow> calm (for_each f xs s)"
  by (induction xs arbitrary: s) (auto intro: calm_rules)

lemma calm_nlr [calm_rules]:
  "calm (nlr (nl_rule_list kernel_netlink f flt))" "calm (nlr (nl_rule_del kernel_netlink ru))" "calm (nlr (nl_rule_add kernel_netlink ru))"
  "calm (nlr (nl_route_list kernel_netlink f t))" "calm (nlr (nl_route_del kernel_netlink rt))" "calm (nlr (nl_route_add kernel_netlink rt))"
  "calm (nlr (nl_link_by_name kernel_netlink nm))"
  by (auto simp: calm_def ends_def nlr_def or_fail_def kernel_defs wires_def Let_def split: option.split)













section \<open>Examples\<close>








end
