(* ===== verification/Spec2Isabelle.thy ===== *)
theory Spec2Isabelle
  imports GatewayProps MarkProps WebhookProps TunnelProps EndpointProps IptProps AgentProps AnnounceProps ClusterInfoProps VxlanLink
begin

text \<open>
  \<^bold>\<open>The egress gateway, its controller and its agents.\<close>

  The program gives pods of a Kubernetes cluster fixed addresses towards the outside. A controller and one agent per node
  work on custom resources that the API server stores. \<^verbatim>\<open>EgressGateway\<close> names a pool of egress addresses and a set
  of nodes; \<^verbatim>\<open>EgressPolicy\<close> and \<^verbatim>\<open>EgressClusterPolicy\<close> select pods and a gateway; \<^verbatim>\<open>EgressTunnel\<close>
  describes the tunnel end of a node with its packet mark; endpoint slices list the pods of a policy;
  \<^verbatim>\<open>EgressClusterInfo\<close> lists the addresses inside the cluster. The controller admits and completes the resources
  (webhooks), gives every policy a node and an egress address (gateway reconciler), every node a tunnel with a mark and
  addresses (tunnel controller), spreads pods over slices (endpoint controllers) and collects the addresses of the cluster
  (cluster information). The agent of a node reads the result and writes sets of addresses (\<^verbatim>\<open>ipset\<close>) and rules
  (\<^verbatim>\<open>iptables\<close>) into the kernel, keeps a VXLAN device with the neighbours, policy rules and routes that lead marked
  packets to the other nodes, and answers ARP and NDP requests for the egress addresses that are placed on it.

  \<^bold>\<open>How Go is modelled.\<close> \<open>Prelude\<close> has the outcome of a call (a value, an error, a panic, a loop that never ends),
  programs over an explicit state and the order of a map iteration, which is a parameter of every definition with such a
  loop; the locale \<open>map_iteration\<close> says all that the loops rely on. Structures are records with the fields the code reads
  or writes. \<open>NetIP\<close>, \<open>Sha1\<close> and \<open>Sha224\<close> model the part of Go's library that is used: \<^verbatim>\<open>net.IP\<close> with its text
  form, \<^verbatim>\<open>net.ParseCIDR\<close>, hashes and base64. Loops that may not end are \<open>partial_function (option)\<close>, so that
  not ending is a value; there is no fuel.

  \<^bold>\<open>Theories and sources\<close> (paths under \<^verbatim>\<open>src/\<close>).
  \<^item> \<open>ApiTypes\<close>: \<^verbatim>\<open>pkg/k8s/apis/v1beta1\<close>. \<open>Utils\<close>: \<^verbatim>\<open>pkg/utils\<close>. \<open>GoSet\<close>:
    \<^verbatim>\<open>pkg/utils/set\<close>.
  \<^item> \<open>IPUtils\<close>: \<^verbatim>\<open>pkg/utils/ip\<close>; \<open>IPRanges\<close>, \<open>IPPool\<close>, \<open>IPCidr\<close> show what it computes over a locale for
    an address family that IPv4 and IPv6 instantiate, \<open>IPProps\<close> has the properties: expanding and merging ranges, blocks and
    membership, with the inputs on which the expansion never ends.
  \<^item> \<open>GatewayAlloc\<close> and \<open>GatewayCtl\<close>: \<^verbatim>\<open>pkg/egressgateway/egress_gateway.go\<close>. \<open>GatewayInv\<close> and
    \<open>GatewaySafe\<close> show that every reconcile keeps the invariant of each stored gateway, whatever the API server answers and
    whatever others change between two calls. \<open>GatewayMap\<close> refines the status to a map from policies to a node and
    addresses; \<open>GatewayMove\<close> follows the migration from a lost node. \<open>ApiStore\<close> is an API server in memory, on which the
    clients are instantiated. \<open>GatewayProps\<close> has the properties.
  \<^item> \<open>GatewayWebhook\<close>: \<^verbatim>\<open>pkg/egressgateway/egress_gateway_webhook.go\<close>; \<open>PolicyWebhook\<close>:
    \<^verbatim>\<open>pkg/controller/webhook\<close>; \<open>WebhookProps\<close>: what admission guarantees, with a locale for an admission control that
    keeps the stored gateways compatible.
  \<^item> \<open>MarkAllocator\<close>, \<open>MarkProps\<close>: \<^verbatim>\<open>pkg/markallocator\<close> with the bitmap it rests on. \<open>TunnelCtl\<close>,
    \<open>TunnelProps\<close>: \<^verbatim>\<open>pkg/controller/tunnel\<close>; marks of different tunnels stay different.
  \<^item> \<open>EndpointSlice\<close>: \<^verbatim>\<open>pkg/controller/endpoint\<close> and \<^verbatim>\<open>pkg/coalescing\<close>. \<open>EndpointPlan\<close>, \<open>EndpointServer\<close>,
    \<open>EndpointSync\<close>, \<open>EndpointProps\<close>: after a reconcile every selected pod has one endpoint, and no failure of a write gives
    a pod two.
  \<^item> \<open>IptRules\<close> and \<open>IptTable\<close>: \<^verbatim>\<open>pkg/iptables\<close>. \<open>IptRefs\<close> has the bookkeeping of a table, \<open>IptKernel\<close> the two
    commands on a table of the kernel, \<open>IptRead\<close>, \<open>IptExec\<close>, \<open>IptPlan\<close>, \<open>IptUpdate\<close>, \<open>IptSync\<close>, \<open>IptApply\<close> follow one
    update to the end; \<open>IptProps\<close>: after \<^verbatim>\<open>Apply\<close> the kernel has the desired rules and the rules of others are
    untouched.
  \<^item> \<open>IpSet\<close>: \<^verbatim>\<open>pkg/ipset\<close>. \<open>IpSetKernel\<close>, \<open>IpSetService\<close>: the contract of the runner, met by the command on the
    sets of a kernel.
  \<^item> \<open>AgentRules\<close>, \<open>AgentPolice\<close>: \<^verbatim>\<open>pkg/agent/police.go\<close>. \<open>AgentSets\<close>, \<open>AgentProps\<close>: the sets of a policy and
    of the cluster become what the resources ask for; the agent reads the status as the controller writes it; the inputs on
    which the agent stops working.
  \<^item> \<open>ClusterInfo\<close>, \<open>ClusterInfoProps\<close>: \<^verbatim>\<open>pkg/controller/clusterinfo\<close>; once an event of every node was handled the
    status lists exactly their addresses, and so do the entries that an agent derives from it.
  \<^item> \<open>Announcer\<close>: \<^verbatim>\<open>pkg/layer2\<close>; \<open>EipAgent\<close>: \<^verbatim>\<open>pkg/agent/eip.go\<close>. \<open>AnnounceBook\<close> refines the announcer to a book of
    names and addresses, \<open>AnnounceGroups\<close> counts the multicast groups, \<open>AnnounceProps\<close> has the properties, with the addresses
    that are not answered or not withdrawn.
  \<^item> \<open>Netlink\<close>: the netlink calls of the agent as a record, and a kernel in memory that answers them. \<open>RuleRoute\<close>:
    \<^verbatim>\<open>pkg/agent/route\<close>; \<open>VxlanDevice\<close>: \<^verbatim>\<open>pkg/agent/vxlan\<close>; \<open>VxlanAgent\<close>: \<^verbatim>\<open>pkg/agent/vxlan.go\<close>.
    \<open>RouteProps\<close> states the contract of a node as the locale \<open>netlink_service\<close>, a simulation by that kernel, which
    \<open>device_service\<close> extends with the files the device needs; there and in \<open>VxlanProps\<close> and \<open>VxlanLink\<close> it is shown what
    the rules, routes, neighbours and the device are after a call, and that one round of the loop brings a node from any state to
    the wanted one.

  \<^bold>\<open>Parameters.\<close> The Kubernetes clients and their state, the conversion of label selectors, the decoding of JSON,
  random choices, the clock, the order of map iterations, the time-to-live cache of the coalescing package, the commands
  \<^verbatim>\<open>iptables-save\<close>, \<^verbatim>\<open>iptables-restore\<close> and \<^verbatim>\<open>ipset\<close>, the netlink calls, files under \<^verbatim>\<open>/proc/sys\<close>, the switch
  for checksum offloading, and the sockets and interfaces of the layer 2 announcer. Laws about them are stated as locales or as
  hypotheses with witnesses, and are met by the in-memory server and kernels of the development.

  \<^bold>\<open>Not modelled.\<close> Registration of watches, metrics, logging, events, the file lock of iptables, mutexes, generated deep copies
  and list types of the resources, the programs under \<^verbatim>\<open>cmd\<close> and reading of the configuration. Endless loops are modelled by
  one turn (\<open>keepVXLAN_round\<close>, \<open>heartbeat_tick\<close>, \<open>spam_receive\<close>, \<open>spam_tick\<close>, \<open>scan\<close>, the processing of one ARP or NDP
  request): the goroutines, timers and sleeping around them are not, nor is what happens between two turns of different
  goroutines.
\<close>

end
